(* ===== verification/Prelude.thy ===== *)
theory Prelude
  imports Complex_Main "HOL-Library.Word" "HOL-Library.Multiset"
begin

text \<open>
  Shared vocabulary of the development: the C++ machine types, exceptions as values, the
  result type every fallible operation returns, and the generic lemmas on lists and words
  that several components use.
\<close>

unbundle bit_operations_syntax

section \<open>Machine types\<close>

text \<open>\<open>uint64_t\<close> and \<open>size_t\<close> of the (64-bit) target.\<close>

type_synonym u64 = "64 word"

text \<open>\<open>std::vector::size()\<close> as a \<open>size_t\<close>.\<close>

definition vsize :: "'a list \<Rightarrow> u64" where
  "vsize xs = word_of_nat (length xs)"

text \<open>\<open>std::numeric_limits<uint64_t>::max()\<close>.\<close>

definition u64_max :: u64 where
  "u64_max = - 1"

text \<open>\<open>vector::resize\<close>: truncate, or extend with value-initialised elements \<open>d\<close>.\<close>

definition vec_resize :: "'a \<Rightarrow> nat \<Rightarrow> 'a list \<Rightarrow> 'a list" where
  "vec_resize d n xs = take n xs @ replicate (n - length xs) d"

section \<open>Exceptions as values\<close>

text \<open>
  The exception classes the code throws. \<open>UB\<close> stands for an execution the C++
  standard leaves undefined (an out-of-range index, signed overflow): the model makes it
  an observable error, so that a theorem that excludes errors also excludes it.
\<close>

datatype exn =
    InvalidArgument string
  | RuntimeError string
  | LogicError string
  | OutOfRange string
  | DbException int string
  | UserAborted
  | UB string

type_synonym 'a result = "exn + 'a"

definition rbind :: "'a result \<Rightarrow> ('a \<Rightarrow> 'b result) \<Rightarrow> 'b result" where
  "rbind m f = (case m of Inl e \<Rightarrow> Inl e | Inr x \<Rightarrow> f x)"

lemma rbind_simps [simp]:
  "rbind (Inl e) f = Inl e"
  "rbind (Inr x) f = f x"
  by (simp_all add: rbind_def)

lemma rbind_eq_Inr [simp]: "rbind m f = Inr y \<longleftrightarrow> (\<exists>x. m = Inr x \<and> f x = Inr y)"
  by (cases m) simp_all

text \<open>A loop \<open>for (x : xs) s = f(x, s)\<close> whose body may throw.\<close>

fun rfold :: "('a \<Rightarrow> 's \<Rightarrow> 's result) \<Rightarrow> 'a list \<Rightarrow> 's \<Rightarrow> 's result" where
  "rfold f [] s = Inr s"
| "rfold f (x # xs) s = rbind (f x s) (rfold f xs)"

section \<open>Generic lemmas\<close>

lemma rfold_append: "rfold f (xs @ ys) s = rbind (rfold f xs s) (rfold f ys)"
  by (induction xs arbitrary: s) (auto simp: rbind_def split: sum.splits)

named_theorems u64_simps \<open>rewrites from words to natural numbers\<close>

lemma unat_u64_lt: "unat (x :: u64) < 2 ^ 64"
  using unsigned_less [of x] by simp

lemma unat_vsize [u64_simps]: "length xs < 2 ^ 64 \<Longrightarrow> unat (vsize xs) = length xs"
  by (simp add: vsize_def unat_of_nat)

text \<open>The size of a literal vector, as a literal.\<close>

lemma vsize_Nil: "vsize [] = 0"
  and vsize_Cons: "vsize (x # xs) = vsize xs + 1"
  by (simp_all add: vsize_def)

lemmas vsize_simps = vsize_Nil vsize_Cons

lemma unat_u64_max [u64_simps]: "unat u64_max = 2 ^ 64 - 1"
  by (simp add: u64_max_def unsigned_minus_1_eq_mask mask_eq_exp_minus_1)

lemma u64_le_max [simp]: "(x :: u64) \<le> u64_max"
  by (simp add: u64_max_def)

lemma unat_add_u64:
  "unat (a :: u64) + unat b < 2 ^ 64 \<Longrightarrow> unat (a + b) = unat a + unat b"
  by (subst unat_word_ariths) simp

lemma unat_double_u64:
  "unat (a :: u64) < 2 ^ 63 \<Longrightarrow> unat (a * 2) = 2 * unat a"
  by (subst unat_word_ariths) simp

lemma unat_Suc_u64:
  "(a :: u64) < b \<Longrightarrow> unat (a + 1) = Suc (unat a)"
  using unat_u64_lt [of b] by (simp add: word_less_nat_alt unat_add_u64)

lemma sum_list_update_add:
  fixes xs :: "'a :: ab_group_add list"
  shows "i < length xs \<Longrightarrow> sum_list (xs[i := xs ! i + d]) = sum_list xs + d"
  by (induction xs arbitrary: i) (auto simp: algebra_simps split: nat.splits)


text \<open>In a sorted list the elements of a downward closed predicate come first.\<close>

lemma sorted_filter_prefix:
  fixes xs :: "'a :: linorder list"
  assumes "sorted xs" "\<And>a b. a \<le> b \<Longrightarrow> P b \<Longrightarrow> P a" "k < length xs"
  shows "P (xs ! k) \<longleftrightarrow> k < length (filter P xs)"
  using assms(1,3)
proof (induction xs arbitrary: k)
  case (Cons x xs)
  show ?case
  proof (cases "P x")
    case True
    with Cons show ?thesis by (cases k) auto
  next
    case False
    with Cons.prems(1) assms(2) have "\<forall>y \<in> set (x # xs). \<not> P y" by auto
    moreover have "(x # xs) ! k \<in> set (x # xs)" using Cons.prems(2) by (rule nth_mem)
    ultimately have "filter P (x # xs) = []" "\<not> P ((x # xs) ! k)"
      by (auto simp: filter_empty_conv)
    then show ?thesis by simp
  qed
qed simp

lemma sum_list_unat_le_unat_sum:
  "sum_list (map unat (take n (xs :: u64 list))) \<le> sum_list (map unat xs)"
proof -
  have "sum_list (map unat xs) = sum_list (map unat (take n xs @ drop n xs))" by simp
  then show ?thesis by (simp only: map_append sum_list_append)
qed

text \<open>Two indices less than \<open>n\<close> apart use different slots of a ring of \<open>n\<close>.\<close>

lemma mod_window_inj:
  assumes "(a :: nat) < b" "b < a + n"
  shows "a mod n \<noteq> b mod n"
proof
  assume "a mod n = b mod n"
  then have "n dvd b - a" using assms(1) by (metis mod_eq_dvd_iff_nat less_imp_le)
  then show False using assms by (auto dest!: dvd_imp_le)
qed

lemma in_set_tl: "x \<in> set (tl xs) \<longleftrightarrow> (\<exists>j. Suc j < length xs \<and> x = xs ! Suc j)"
  by (cases xs) (auto simp: in_set_conv_nth)

lemma length_vec_resize [simp]: "length (vec_resize d n xs) = n"
  by (simp add: vec_resize_def)

lemma nth_vec_resize:
  "i < n \<Longrightarrow> vec_resize d n xs ! i = (if i < length xs then xs ! i else d)"
  by (auto simp: vec_resize_def nth_append)

lemma unat_pow2_u64: "k < 64 \<Longrightarrow> unat (2 ^ k :: u64) = 2 ^ k"
  using unat_of_nat [of "2 ^ k", where 'a = 64] power_strict_increasing [of k 64 "2 :: nat"] by simp

lemma sum_list_update_eq:
  "i < length xs \<Longrightarrow> sum_list (map f (xs[i := y])) + f (xs ! i) = (sum_list (map f xs) + f y :: 'a :: comm_monoid_add)"
proof (induction xs arbitrary: i)
  case (Cons x xs)
  then show ?case by (cases i) (auto simp: ac_simps)
qed simp

end
