(* ===== verification/Constants.thy ===== *)
theory Constants
  imports Prelude
begin

text \<open>
  The benchmark parameters of \<open>src/src/constants.h\<close>: table cardinalities, the constants of
  the non-uniform distribution, the transaction mix with its keying and think times (in
  seconds), and the schema's table names. Every definition is in the collection
  \<open>const_defs\<close>.
\<close>

named_theorems const_defs \<open>the benchmark constants\<close>

definition TERMINALS_PER_WAREHOUSE :: nat where [const_defs]: "TERMINALS_PER_WAREHOUSE = 10"

definition WAREHOUSES_PER_CPU_CORE :: nat where [const_defs]: "WAREHOUSES_PER_CPU_CORE = 1000"

definition DISTRICT_LOW_ID :: int where [const_defs]: "DISTRICT_LOW_ID = 1"

definition DISTRICT_HIGH_ID :: int where [const_defs]: "DISTRICT_HIGH_ID = 10"

definition DISTRICT_COUNT :: int where [const_defs]: "DISTRICT_COUNT = DISTRICT_HIGH_ID - DISTRICT_LOW_ID + 1"

definition C_INVALID_CUSTOMER_ID :: int where [const_defs]: "C_INVALID_CUSTOMER_ID = 0"

definition C_FIRST_CUSTOMER_ID :: int where [const_defs]: "C_FIRST_CUSTOMER_ID = 1"

definition C_ID_C :: int where [const_defs]: "C_ID_C = 259"

definition CUSTOMERS_PER_DISTRICT :: int where [const_defs]: "CUSTOMERS_PER_DISTRICT = 3000"

definition OL_I_ID_C :: int where [const_defs]: "OL_I_ID_C = 7911"

definition ITEM_COUNT :: int where [const_defs]: "ITEM_COUNT = 100000"

definition INVALID_ITEM_ID :: int where [const_defs]: "INVALID_ITEM_ID = - 12345"

definition MIN_ITEMS :: int where [const_defs]: "MIN_ITEMS = 5"

definition MAX_ITEMS :: int where [const_defs]: "MAX_ITEMS = 15"

definition C_LAST_LOAD_C :: int where [const_defs]: "C_LAST_LOAD_C = 157"

definition C_LAST_RUN_C :: int where [const_defs]: "C_LAST_RUN_C = 223"

definition FIRST_UNPROCESSED_O_ID :: int where [const_defs]: "FIRST_UNPROCESSED_O_ID = 2101"

definition DISTRICT_INITIAL_YTD :: rat where [const_defs]: "DISTRICT_INITIAL_YTD = 30000"

text \<open>Weights in percent, keying and think times in seconds.\<close>

definition NEW_ORDER_WEIGHT :: rat where [const_defs]: "NEW_ORDER_WEIGHT = 45"

definition PAYMENT_WEIGHT :: rat where [const_defs]: "PAYMENT_WEIGHT = 43"

definition ORDER_STATUS_WEIGHT :: rat where [const_defs]: "ORDER_STATUS_WEIGHT = 4"

definition DELIVERY_WEIGHT :: rat where [const_defs]: "DELIVERY_WEIGHT = 4"

definition STOCK_LEVEL_WEIGHT :: rat where [const_defs]: "STOCK_LEVEL_WEIGHT = 4"

definition NEW_ORDER_KEYING_TIME :: nat where [const_defs]: "NEW_ORDER_KEYING_TIME = 18"

definition PAYMENT_KEYING_TIME :: nat where [const_defs]: "PAYMENT_KEYING_TIME = 3"

definition ORDER_STATUS_KEYING_TIME :: nat where [const_defs]: "ORDER_STATUS_KEYING_TIME = 2"

definition DELIVERY_KEYING_TIME :: nat where [const_defs]: "DELIVERY_KEYING_TIME = 2"

definition STOCK_LEVEL_KEYING_TIME :: nat where [const_defs]: "STOCK_LEVEL_KEYING_TIME = 2"

definition NEW_ORDER_THINK_TIME :: nat where [const_defs]: "NEW_ORDER_THINK_TIME = 12"

definition PAYMENT_THINK_TIME :: nat where [const_defs]: "PAYMENT_THINK_TIME = 12"

definition ORDER_STATUS_THINK_TIME :: nat where [const_defs]: "ORDER_STATUS_THINK_TIME = 10"

definition DELIVERY_THINK_TIME :: nat where [const_defs]: "DELIVERY_THINK_TIME = 5"

definition STOCK_LEVEL_THINK_TIME :: nat where [const_defs]: "STOCK_LEVEL_THINK_TIME = 5"

definition MAX_TPMC_PER_WAREHOUSE :: rat where [const_defs]: "MAX_TPMC_PER_WAREHOUSE = 1286 / 100"

definition TABLE_CUSTOMER :: string where [const_defs]: "TABLE_CUSTOMER = ''customer''"

definition TABLE_WAREHOUSE :: string where [const_defs]: "TABLE_WAREHOUSE = ''warehouse''"

definition TABLE_DISTRICT :: string where [const_defs]: "TABLE_DISTRICT = ''district''"

definition TABLE_NEW_ORDER :: string where [const_defs]: "TABLE_NEW_ORDER = ''new_order''"

definition TABLE_OORDER :: string where [const_defs]: "TABLE_OORDER = ''oorder''"

definition TABLE_ITEM :: string where [const_defs]: "TABLE_ITEM = ''item''"

definition TABLE_STOCK :: string where [const_defs]: "TABLE_STOCK = ''stock''"

definition TABLE_ORDER_LINE :: string where [const_defs]: "TABLE_ORDER_LINE = ''order_line''"

definition TABLE_HISTORY :: string where [const_defs]: "TABLE_HISTORY = ''history''"

definition TPCC_TABLES :: "string list" where
  [const_defs]: "TPCC_TABLES = [TABLE_CUSTOMER, TABLE_WAREHOUSE, TABLE_DISTRICT, TABLE_NEW_ORDER,
     TABLE_OORDER, TABLE_ITEM, TABLE_STOCK, TABLE_ORDER_LINE, TABLE_HISTORY]"

definition INDEX_CUSTOMER_NAME :: string where [const_defs]: "INDEX_CUSTOMER_NAME = ''idx_customer_name''"

definition INDEX_ORDER :: string where [const_defs]: "INDEX_ORDER = ''idx_order''"

definition INDEX_COUNT :: nat where [const_defs]: "INDEX_COUNT = 2"

definition TABLEGROUP_TPCC :: string where [const_defs]: "TABLEGROUP_TPCC = ''tpcc_tg''"

datatype ETransactionType = NewOrder | Delivery | OrderStatus | Payment | StockLevel

text \<open>The enumerator values, which index the transaction tables.\<close>

fun tx_index :: "ETransactionType \<Rightarrow> nat" where
  "tx_index NewOrder = 0"
| "tx_index Delivery = 1"
| "tx_index OrderStatus = 2"
| "tx_index Payment = 3"
| "tx_index StockLevel = 4"

definition TRANSACTION_TYPE_COUNT :: nat where [const_defs]: "TRANSACTION_TYPE_COUNT = 5"

definition TUI_LOG_LINES :: nat where [const_defs]: "TUI_LOG_LINES = 1000"

lemma tx_index_bound: "tx_index t < TRANSACTION_TYPE_COUNT"
  by (cases t) (simp_all add: const_defs)

lemma tx_index_inj: "tx_index s = tx_index t \<longleftrightarrow> s = t"
  by (cases s; cases t) simp_all

lemma weights_total:
  "NEW_ORDER_WEIGHT + PAYMENT_WEIGHT + ORDER_STATUS_WEIGHT + DELIVERY_WEIGHT + STOCK_LEVEL_WEIGHT = 100"
  by (simp add: const_defs)

end
