(* ===== verification/Schema.thy ===== *)
theory Schema
  imports Constants
begin

text \<open>
  The TPC-C schema that \<open>BuildCreateStatements\<close> (\<open>src/src/init.cpp\<close>) creates, as records, one
  per table, with the columns of the \<open>CREATE TABLE\<close> statements, and the four SQL statement
  forms the program uses, as functions on tables. A table is the list of its rows.
  \<open>DECIMAL(n, 2)\<close> money columns are integers in cents, \<open>DECIMAL(4, 4)\<close> rates integers in
  ten-thousandths; a nullable column is an option.
\<close>

section \<open>Rows\<close>

type_synonym money = int

type_synonym timestamp = nat

record warehouse_row =
  w_id :: int
  w_ytd :: money
  w_tax :: int
  w_name :: string
  w_street_1 :: string
  w_street_2 :: string
  w_city :: string
  w_state :: string
  w_zip :: string

record item_row =
  i_id :: int
  i_name :: string
  i_price :: money
  i_data :: string
  i_im_id :: int

record stock_row =
  s_w_id :: int
  s_i_id :: int
  s_quantity :: int
  s_ytd :: int
  s_order_cnt :: int
  s_remote_cnt :: int
  s_data :: string
  s_dist_01 :: string
  s_dist_02 :: string
  s_dist_03 :: string
  s_dist_04 :: string
  s_dist_05 :: string
  s_dist_06 :: string
  s_dist_07 :: string
  s_dist_08 :: string
  s_dist_09 :: string
  s_dist_10 :: string

record district_row =
  d_w_id :: int
  d_id :: int
  d_ytd :: money
  d_tax :: int
  d_next_o_id :: int
  d_name :: string
  d_street_1 :: string
  d_street_2 :: string
  d_city :: string
  d_state :: string
  d_zip :: string

record customer_row =
  c_w_id :: int
  c_d_id :: int
  c_id :: int
  c_discount :: int
  c_credit :: string
  c_last :: string
  c_first :: string
  c_credit_lim :: money
  c_balance :: money
  c_ytd_payment :: money
  c_payment_cnt :: int
  c_delivery_cnt :: int
  c_street_1 :: string
  c_street_2 :: string
  c_city :: string
  c_state :: string
  c_zip :: string
  c_phone :: string
  c_since :: timestamp
  c_middle :: string
  c_data :: string

record history_row =
  h_c_id :: int
  h_c_d_id :: int
  h_c_w_id :: int
  h_d_id :: int
  h_w_id :: int
  h_date :: timestamp
  h_amount :: money
  h_data :: string

record oorder_row =
  o_w_id :: int
  o_d_id :: int
  o_id :: int
  o_c_id :: int
  o_carrier_id :: "int option"
  o_ol_cnt :: int
  o_all_local :: int
  o_entry_d :: timestamp

record new_order_row =
  no_w_id :: int
  no_d_id :: int
  no_o_id :: int

record order_line_row =
  ol_w_id :: int
  ol_d_id :: int
  ol_o_id :: int
  ol_number :: int
  ol_i_id :: int
  ol_delivery_d :: "timestamp option"
  ol_amount :: money
  ol_supply_w_id :: int
  ol_quantity :: int
  ol_dist_info :: string

record database =
  warehouse :: "warehouse_row list"
  item :: "item_row list"
  stock :: "stock_row list"
  district :: "district_row list"
  customer :: "customer_row list"
  history :: "history_row list"
  oorder :: "oorder_row list"
  new_order :: "new_order_row list"
  order_line :: "order_line_row list"

text \<open>The primary keys.\<close>

definition s_key :: "stock_row \<Rightarrow> int \<times> int" where "s_key r = (s_w_id r, s_i_id r)"

definition d_key :: "district_row \<Rightarrow> int \<times> int" where "d_key r = (d_w_id r, d_id r)"

definition c_key :: "customer_row \<Rightarrow> int \<times> int \<times> int" where "c_key r = (c_w_id r, c_d_id r, c_id r)"

definition o_key :: "oorder_row \<Rightarrow> int \<times> int \<times> int" where "o_key r = (o_w_id r, o_d_id r, o_id r)"

definition no_key :: "new_order_row \<Rightarrow> int \<times> int \<times> int" where "no_key r = (no_w_id r, no_d_id r, no_o_id r)"

definition ol_key :: "order_line_row \<Rightarrow> int \<times> int \<times> int \<times> int" where
  "ol_key r = (ol_w_id r, ol_d_id r, ol_o_id r, ol_number r)"

text \<open>The order an order line belongs to.\<close>

definition ol_order :: "order_line_row \<Rightarrow> int \<times> int \<times> int" where
  "ol_order r = (ol_w_id r, ol_d_id r, ol_o_id r)"

lemmas key_defs = s_key_def d_key_def c_key_def o_key_def no_key_def ol_key_def ol_order_def

section \<open>SQL statement forms\<close>

text \<open>\<open>SELECT ... WHERE k = ?\<close>, \<open>UPDATE ... SET f WHERE k = ?\<close> and \<open>DELETE ... WHERE k = ?\<close>.\<close>

definition sql_where :: "('r \<Rightarrow> 'k) \<Rightarrow> 'k \<Rightarrow> 'r list \<Rightarrow> 'r list" where
  "sql_where key k t = filter (\<lambda>r. key r = k) t"

definition sql_update :: "('r \<Rightarrow> 'k) \<Rightarrow> 'k \<Rightarrow> ('r \<Rightarrow> 'r) \<Rightarrow> 'r list \<Rightarrow> 'r list" where
  "sql_update key k f t = map (\<lambda>r. if key r = k then f r else r) t"

definition sql_delete :: "('r \<Rightarrow> 'k) \<Rightarrow> 'k \<Rightarrow> 'r list \<Rightarrow> 'r list" where
  "sql_delete key k t = filter (\<lambda>r. key r \<noteq> k) t"

text \<open>\<open>INSERT\<close> into a table with a primary key: error 1062 on a duplicate key.\<close>

definition sql_insert :: "('r \<Rightarrow> 'k) \<Rightarrow> 'r \<Rightarrow> 'r list \<Rightarrow> 'r list result" where
  "sql_insert key r t = (if key r \<in> key ` set t then Inl (DbException 1062 ''Duplicate entry'')
     else Inr (t @ [r]))"

text \<open>The first row of a result set, as \<open>TryNextRow\<close> finds it.\<close>

definition sql_first :: "('r \<Rightarrow> 'k) \<Rightarrow> 'k \<Rightarrow> 'r list \<Rightarrow> 'r option" where
  "sql_first key k t = (case sql_where key k t of [] \<Rightarrow> None | r # _ \<Rightarrow> Some r)"

section \<open>Lemmas on tables\<close>

text \<open>\<open>SUM(g)\<close> over the rows with a property.\<close>

definition sum_where :: "('r \<Rightarrow> bool) \<Rightarrow> ('r \<Rightarrow> int) \<Rightarrow> 'r list \<Rightarrow> int" where
  "sum_where P g t = sum_list (map g (filter P t))"

lemma sum_where_simps [simp]:
  "sum_where P g [] = 0"
  "sum_where P g (r # t) = (if P r then g r else 0) + sum_where P g t"
  "sum_where P g (t @ u) = sum_where P g t + sum_where P g u"
  by (simp_all add: sum_where_def)

lemma sum_where_cong:
  "(\<And>r. r \<in> set t \<Longrightarrow> P r = Q r) \<Longrightarrow> (\<And>r. r \<in> set t \<Longrightarrow> Q r \<Longrightarrow> g r = h r) \<Longrightarrow>
   sum_where P g t = sum_where Q h t"
  by (induction t) auto

lemma sql_update_keys [simp]:
  "(\<And>r. h (f r) = h r) \<Longrightarrow> map h (sql_update key k f t) = map h t"
  by (induction t) (auto simp: sql_update_def)

lemma in_sql_update:
  "r \<in> set (sql_update key k f t) \<longleftrightarrow> (\<exists>r0 \<in> set t. r = (if key r0 = k then f r0 else r0))"
  unfolding sql_update_def set_map image_iff ..

lemma bex_sql_update:
  "(\<exists>r \<in> set (sql_update key k f t). P r) \<longleftrightarrow> (\<exists>r \<in> set t. P (if key r = k then f r else r))"
  and ball_sql_update:
  "(\<forall>r \<in> set (sql_update key k f t). P r) \<longleftrightarrow> (\<forall>r \<in> set t. P (if key r = k then f r else r))"
  by (induction t) (auto simp: sql_update_def)

lemma sum_where_update_other:
  assumes "\<And>r. P (f r) = P r" "\<And>r. g (f r) = g r"
  shows "sum_where P g (sql_update key k f t) = sum_where P g t"
  using assms by (induction t) (auto simp: sql_update_def)

text \<open>Updating the one row with key \<open>k\<close> changes a sum by that row's change.\<close>

lemma sum_where_update:
  assumes "distinct (map key t)" "r \<in> set t" "key r = k" "\<And>r. P (f r) = P r"
  shows "sum_where P g (sql_update key k f t) = sum_where P g t + (if P r then g (f r) - g r else 0)"
  using assms
proof (induction t)
  case (Cons a t)
  show ?case
  proof (cases "a = r")
    case True
    then have "\<forall>x \<in> set t. key x \<noteq> k" using Cons.prems by (auto simp: image_iff)
    then have "sql_update key k f t = t" by (induction t) (auto simp: sql_update_def)
    then show ?thesis using True Cons.prems by (simp add: sql_update_def)
  next
    case False
    then have "r \<in> set t" "key a \<noteq> k" using Cons.prems by (auto simp: image_iff)
    then show ?thesis using Cons by (simp add: sql_update_def)
  qed
qed simp

lemma sum_where_update_absent:
  assumes "k \<notin> key ` set t"
  shows "sql_update key k f t = t"
  using assms by (induction t) (auto simp: sql_update_def)

lemma sql_insert_Inr [simp]:
  "sql_insert key r t = Inr t' \<longleftrightarrow> key r \<notin> key ` set t \<and> t' = t @ [r]"
  by (auto simp: sql_insert_def)

lemma sql_where_unique:
  assumes "distinct (map key t)" "r \<in> set t"
  shows "sql_where key (key r) t = [r]"
  using assms
proof (induction t)
  case (Cons a t)
  show ?case
  proof (cases "a = r")
    case True
    then have "\<forall>x \<in> set t. key x \<noteq> key r" using Cons.prems by (auto simp: image_iff)
    then show ?thesis using True by (simp add: sql_where_def filter_empty_conv)
  next
    case False
    then have "r \<in> set t" "key a \<noteq> key r" using Cons.prems by (auto simp: image_iff)
    then show ?thesis using Cons by (simp add: sql_where_def)
  qed
qed simp

lemma sql_where_set [simp]: "set (sql_where key k t) = {r \<in> set t. key r = k}"
  by (auto simp: sql_where_def)

lemma sql_first_SomeD: "sql_first key k t = Some r \<Longrightarrow> r \<in> set t \<and> key r = k"
  using sql_where_set [of key k t] by (auto simp: sql_first_def simp del: sql_where_set split: list.splits)

lemma sql_first_None: "sql_first key k t = None \<longleftrightarrow> k \<notin> key ` set t"
proof -
  have "sql_first key k t = None \<longleftrightarrow> set (sql_where key k t) = {}"
    by (cases "sql_where key k t") (simp_all add: sql_first_def del: sql_where_set)
  then show ?thesis by auto
qed

lemma sql_first_unique:
  assumes "distinct (map key t)" "r \<in> set t"
  shows "sql_first key (key r) t = Some r"
  using sql_where_unique [OF assms] by (simp add: sql_first_def)

lemma sql_first_update:
  assumes "\<And>r. key (f r) = key r"
  shows "sql_first key k (sql_update key j f t) = map_option (\<lambda>r. if key r = j then f r else r) (sql_first key k t)"
proof -
  have "sql_where key k (sql_update key j f t) = map (\<lambda>r. if key r = j then f r else r) (sql_where key k t)"
    using assms by (induction t) (auto simp: sql_where_def sql_update_def)
  then show ?thesis by (simp add: sql_first_def split: list.splits)
qed

lemma sql_update_cong:
  "(\<And>r. r \<in> set t \<Longrightarrow> key r = k \<Longrightarrow> f r = g r) \<Longrightarrow> sql_update key k f t = sql_update key k g t"
  by (simp add: sql_update_def)

end
