(* ===== verification/Queries.thy ===== *)
theory Queries
  imports Schema
begin

text \<open>
  The static queries of \<open>src/src/db/queries.cpp\<close>: the identifiers, the table \<open>kQueries\<close> of SQL
  text and select flags they index, and the meaning of each statement on the tables
  of \<open>Schema\<close>. A select returns the rows the transactions read; a modification
  returns the new database or the duplicate-key error. \<open>FOR UPDATE\<close> only locks.
\<close>

section \<open>Identifiers and SQL text\<close>

datatype QueryId =
    NewOrderSelectCustomer
  | NewOrderSelectWarehouseTax
  | NewOrderSelectDistrictForUpdate
  | NewOrderUpdateDistrict
  | NewOrderInsertOorder
  | NewOrderInsertNewOrder
  | NewOrderSelectItem
  | NewOrderSelectStockForUpdate
  | NewOrderUpdateStock
  | NewOrderInsertOrderLine
  | PaymentSelectWarehouseForUpdate
  | PaymentUpdateWarehouseYtd
  | PaymentSelectDistrictForUpdate
  | PaymentUpdateDistrictYtd
  | PaymentSelectCustomerData
  | PaymentUpdateCustomerBc
  | PaymentUpdateCustomer
  | PaymentInsertHistory
  | CustomerSelectById
  | CustomerSelectByIdForUpdate
  | CustomerSelectByLastName
  | CustomerSelectByLastNameForUpdate
  | DeliverySelectNewOrderForUpdate
  | DeliverySelectOrderCustomer
  | DeliverySelectOrderLines
  | DeliveryDeleteNewOrder
  | DeliveryUpdateCarrier
  | DeliveryUpdateOrderLineDelivery
  | DeliveryUpdateCustomerBalance
  | OrderStatusSelectLatestOrder
  | OrderStatusSelectOrderLines
  | StockLevelSelectDistrict
  | StockLevelCountStock
  | SimulationSelectCastInt

definition all_queries :: "QueryId list" where
  "all_queries = [
     NewOrderSelectCustomer, NewOrderSelectWarehouseTax, NewOrderSelectDistrictForUpdate,
     NewOrderUpdateDistrict, NewOrderInsertOorder, NewOrderInsertNewOrder,
     NewOrderSelectItem, NewOrderSelectStockForUpdate, NewOrderUpdateStock,
     NewOrderInsertOrderLine, PaymentSelectWarehouseForUpdate, PaymentUpdateWarehouseYtd,
     PaymentSelectDistrictForUpdate, PaymentUpdateDistrictYtd, PaymentSelectCustomerData,
     PaymentUpdateCustomerBc, PaymentUpdateCustomer, PaymentInsertHistory,
     CustomerSelectById, CustomerSelectByIdForUpdate, CustomerSelectByLastName,
     CustomerSelectByLastNameForUpdate, DeliverySelectNewOrderForUpdate, DeliverySelectOrderCustomer,
     DeliverySelectOrderLines, DeliveryDeleteNewOrder, DeliveryUpdateCarrier,
     DeliveryUpdateOrderLineDelivery, DeliveryUpdateCustomerBalance, OrderStatusSelectLatestOrder,
     OrderStatusSelectOrderLines, StockLevelSelectDistrict, StockLevelCountStock,
     SimulationSelectCastInt]"

text \<open>\<open>static_cast<size_t>(id)\<close>, for the enumerators in their order.\<close>

primrec query_index :: "QueryId \<Rightarrow> nat" where
  "query_index NewOrderSelectCustomer = 0"
| "query_index NewOrderSelectWarehouseTax = 1"
| "query_index NewOrderSelectDistrictForUpdate = 2"
| "query_index NewOrderUpdateDistrict = 3"
| "query_index NewOrderInsertOorder = 4"
| "query_index NewOrderInsertNewOrder = 5"
| "query_index NewOrderSelectItem = 6"
| "query_index NewOrderSelectStockForUpdate = 7"
| "query_index NewOrderUpdateStock = 8"
| "query_index NewOrderInsertOrderLine = 9"
| "query_index PaymentSelectWarehouseForUpdate = 10"
| "query_index PaymentUpdateWarehouseYtd = 11"
| "query_index PaymentSelectDistrictForUpdate = 12"
| "query_index PaymentUpdateDistrictYtd = 13"
| "query_index PaymentSelectCustomerData = 14"
| "query_index PaymentUpdateCustomerBc = 15"
| "query_index PaymentUpdateCustomer = 16"
| "query_index PaymentInsertHistory = 17"
| "query_index CustomerSelectById = 18"
| "query_index CustomerSelectByIdForUpdate = 19"
| "query_index CustomerSelectByLastName = 20"
| "query_index CustomerSelectByLastNameForUpdate = 21"
| "query_index DeliverySelectNewOrderForUpdate = 22"
| "query_index DeliverySelectOrderCustomer = 23"
| "query_index DeliverySelectOrderLines = 24"
| "query_index DeliveryDeleteNewOrder = 25"
| "query_index DeliveryUpdateCarrier = 26"
| "query_index DeliveryUpdateOrderLineDelivery = 27"
| "query_index DeliveryUpdateCustomerBalance = 28"
| "query_index OrderStatusSelectLatestOrder = 29"
| "query_index OrderStatusSelectOrderLines = 30"
| "query_index StockLevelSelectDistrict = 31"
| "query_index StockLevelCountStock = 32"
| "query_index SimulationSelectCastInt = 33"

record QueryDef =
  sql_text :: string
  isSelect :: bool

definition kQueries :: "QueryDef list" where
  "kQueries = [
     \<lparr>sql_text =
       ''SELECT c_discount, c_last, c_credit FROM customer '' @
       ''WHERE c_w_id = ? AND c_d_id = ? AND c_id = ?'',
       isSelect = True\<rparr>,
     \<lparr>sql_text =
       ''SELECT w_tax FROM warehouse WHERE w_id = ?'',
       isSelect = True\<rparr>,
     \<lparr>sql_text =
       ''SELECT d_next_o_id, d_tax FROM district '' @
       ''WHERE d_w_id = ? AND d_id = ? FOR UPDATE'',
       isSelect = True\<rparr>,
     \<lparr>sql_text =
       ''UPDATE district SET d_next_o_id = d_next_o_id + 1 '' @
       ''WHERE d_w_id = ? AND d_id = ?'',
       isSelect = False\<rparr>,
     \<lparr>sql_text =
       ''INSERT INTO oorder (o_w_id, o_d_id, o_id, o_c_id, o_ol_cnt, o_all_local, o_entry_d) '' @
       ''VALUES (?, ?, ?, ?, ?, ?, CURRENT_TIMESTAMP)'',
       isSelect = False\<rparr>,
     \<lparr>sql_text =
       ''INSERT INTO new_order (no_w_id, no_d_id, no_o_id) VALUES (?, ?, ?)'',
       isSelect = False\<rparr>,
     \<lparr>sql_text =
       ''SELECT i_price, i_name, i_data FROM item WHERE i_id = ?'',
       isSelect = True\<rparr>,
     \<lparr>sql_text =
       ''SELECT s_quantity, s_data, s_ytd, s_order_cnt, s_remote_cnt, '' @
       ''s_dist_01, s_dist_02, s_dist_03, s_dist_04, s_dist_05, '' @
       ''s_dist_06, s_dist_07, s_dist_08, s_dist_09, s_dist_10 '' @
       ''FROM stock WHERE s_w_id = ? AND s_i_id = ? FOR UPDATE'',
       isSelect = True\<rparr>,
     \<lparr>sql_text =
       ''UPDATE stock SET s_quantity = ?, s_ytd = s_ytd + ?, '' @
       ''s_order_cnt = s_order_cnt + 1, s_remote_cnt = s_remote_cnt + ? '' @
       ''WHERE s_w_id = ? AND s_i_id = ?'',
       isSelect = False\<rparr>,
     \<lparr>sql_text =
       ''INSERT INTO order_line (ol_w_id, ol_d_id, ol_o_id, ol_number, ol_i_id, '' @
       ''ol_amount, ol_supply_w_id, ol_quantity, ol_dist_info) '' @
       ''VALUES (?, ?, ?, ?, ?, ?, ?, ?, ?)'',
       isSelect = False\<rparr>,
     \<lparr>sql_text =
       ''SELECT w_name, w_street_1, w_street_2, w_city, w_state, w_zip '' @
       ''FROM warehouse WHERE w_id = ? FOR UPDATE'',
       isSelect = True\<rparr>,
     \<lparr>sql_text =
       ''UPDATE warehouse SET w_ytd = w_ytd + ? WHERE w_id = ?'',
       isSelect = False\<rparr>,
     \<lparr>sql_text =
       ''SELECT d_name, d_street_1, d_street_2, d_city, d_state, d_zip '' @
       ''FROM district WHERE d_w_id = ? AND d_id = ? FOR UPDATE'',
       isSelect = True\<rparr>,
     \<lparr>sql_text =
       ''UPDATE district SET d_ytd = d_ytd + ? WHERE d_w_id = ? AND d_id = ?'',
       isSelect = False\<rparr>,
     \<lparr>sql_text =
       ''SELECT c_data FROM customer WHERE c_w_id = ? AND c_d_id = ? AND c_id = ?'',
       isSelect = True\<rparr>,
     \<lparr>sql_text =
       ''UPDATE customer SET c_balance = c_balance - ?, c_ytd_payment = c_ytd_payment + ?, '' @
       ''c_payment_cnt = c_payment_cnt + 1, c_data = ? '' @
       ''WHERE c_w_id = ? AND c_d_id = ? AND c_id = ?'',
       isSelect = False\<rparr>,
     \<lparr>sql_text =
       ''UPDATE customer SET c_balance = c_balance - ?, c_ytd_payment = c_ytd_payment + ?, '' @
       ''c_payment_cnt = c_payment_cnt + 1 '' @
       ''WHERE c_w_id = ? AND c_d_id = ? AND c_id = ?'',
       isSelect = False\<rparr>,
     \<lparr>sql_text =
       ''INSERT INTO history (h_c_id, h_c_d_id, h_c_w_id, h_d_id, h_w_id, h_date, h_amount, h_data) '' @
       ''VALUES (?, ?, ?, ?, ?, CURRENT_TIMESTAMP, ?, ?)'',
       isSelect = False\<rparr>,
     \<lparr>sql_text =
       ''SELECT c_first, c_middle, c_last, c_street_1, c_street_2, '' @
       ''c_city, c_state, c_zip, c_phone, c_credit, c_credit_lim, '' @
       ''c_discount, c_balance, c_ytd_payment, c_payment_cnt, c_since '' @
       ''FROM customer '' @
       ''WHERE c_w_id = ? AND c_d_id = ? AND c_id = ?'',
       isSelect = True\<rparr>,
     \<lparr>sql_text =
       ''SELECT c_first, c_middle, c_last, c_street_1, c_street_2, '' @
       ''c_city, c_state, c_zip, c_phone, c_credit, c_credit_lim, '' @
       ''c_discount, c_balance, c_ytd_payment, c_payment_cnt, c_since '' @
       ''FROM customer '' @
       ''WHERE c_w_id = ? AND c_d_id = ? AND c_id = ? '' @
       ''FOR UPDATE'',
       isSelect = True\<rparr>,
     \<lparr>sql_text =
       ''SELECT c_first, c_middle, c_last, c_id, c_street_1, c_street_2, c_city, '' @
       ''c_state, c_zip, c_phone, c_credit, c_credit_lim, c_discount, '' @
       ''c_balance, c_ytd_payment, c_payment_cnt, c_since '' @
       ''FROM customer '' @
       ''WHERE c_w_id = ? AND c_d_id = ? AND c_last = ? '' @
       ''ORDER BY c_first'',
       isSelect = True\<rparr>,
     \<lparr>sql_text =
       ''SELECT c_first, c_middle, c_last, c_id, c_street_1, c_street_2, c_city, '' @
       ''c_state, c_zip, c_phone, c_credit, c_credit_lim, c_discount, '' @
       ''c_balance, c_ytd_payment, c_payment_cnt, c_since '' @
       ''FROM customer '' @
       ''WHERE c_w_id = ? AND c_d_id = ? AND c_last = ? '' @
       ''ORDER BY c_first '' @
       ''FOR UPDATE'',
       isSelect = True\<rparr>,
     \<lparr>sql_text =
       ''SELECT no_o_id FROM new_order '' @
       ''WHERE no_d_id = ? AND no_w_id = ? '' @
       ''ORDER BY no_o_id ASC LIMIT 1 '' @
       ''FOR UPDATE'',
       isSelect = True\<rparr>,
     \<lparr>sql_text =
       ''SELECT o_c_id FROM oorder WHERE o_w_id = ? AND o_d_id = ? AND o_id = ?'',
       isSelect = True\<rparr>,
     \<lparr>sql_text =
       ''SELECT ol_number, ol_amount FROM order_line '' @
       ''WHERE ol_w_id = ? AND ol_d_id = ? AND ol_o_id = ?'',
       isSelect = True\<rparr>,
     \<lparr>sql_text =
       ''DELETE FROM new_order WHERE no_w_id = ? AND no_d_id = ? AND no_o_id = ?'',
       isSelect = False\<rparr>,
     \<lparr>sql_text =
       ''UPDATE oorder SET o_carrier_id = ? WHERE o_w_id = ? AND o_d_id = ? AND o_id = ?'',
       isSelect = False\<rparr>,
     \<lparr>sql_text =
       ''UPDATE order_line SET ol_delivery_d = CURRENT_TIMESTAMP '' @
       ''WHERE ol_w_id = ? AND ol_d_id = ? AND ol_o_id = ?'',
       isSelect = False\<rparr>,
     \<lparr>sql_text =
       ''UPDATE customer SET c_balance = c_balance + ?, c_delivery_cnt = c_delivery_cnt + 1 '' @
       ''WHERE c_w_id = ? AND c_d_id = ? AND c_id = ?'',
       isSelect = False\<rparr>,
     \<lparr>sql_text =
       ''SELECT o_id, o_carrier_id, o_entry_d FROM oorder '' @
       ''WHERE o_w_id = ? AND o_d_id = ? AND o_c_id = ? '' @
       ''ORDER BY o_id DESC LIMIT 1'',
       isSelect = True\<rparr>,
     \<lparr>sql_text =
       ''SELECT ol_i_id, ol_supply_w_id, ol_quantity, ol_amount, ol_delivery_d '' @
       ''FROM order_line WHERE ol_w_id = ? AND ol_d_id = ? AND ol_o_id = ?'',
       isSelect = True\<rparr>,
     \<lparr>sql_text =
       ''SELECT d_next_o_id FROM district WHERE d_w_id = ? AND d_id = ?'',
       isSelect = True\<rparr>,
     \<lparr>sql_text =
       ''SELECT COUNT(DISTINCT s.s_i_id) AS stock_count '' @
       ''FROM order_line AS ol '' @
       ''INNER JOIN stock AS s ON s.s_i_id = ol.ol_i_id '' @
       ''WHERE ol.ol_w_id = ? AND ol.ol_d_id = ? '' @
       ''AND ol.ol_o_id < ? AND ol.ol_o_id >= ? '' @
       ''AND s.s_w_id = ? AND s.s_quantity < ?'',
       isSelect = True\<rparr>,
     \<lparr>sql_text =
       ''SELECT CAST(? AS SIGNED) AS v'',
       isSelect = True\<rparr>]"

definition QuerySql :: "QueryId \<Rightarrow> string" where
  "QuerySql q = sql_text (kQueries ! query_index q)"

definition QueryIsSelect :: "QueryId \<Rightarrow> bool" where
  "QueryIsSelect q = isSelect (kQueries ! query_index q)"

text \<open>The number of values the call sites bind with \<open>MakeParams\<close>.\<close>

primrec query_params :: "QueryId \<Rightarrow> nat" where
  "query_params NewOrderSelectCustomer = 3"
| "query_params NewOrderSelectWarehouseTax = 1"
| "query_params NewOrderSelectDistrictForUpdate = 2"
| "query_params NewOrderUpdateDistrict = 2"
| "query_params NewOrderInsertOorder = 6"
| "query_params NewOrderInsertNewOrder = 3"
| "query_params NewOrderSelectItem = 1"
| "query_params NewOrderSelectStockForUpdate = 2"
| "query_params NewOrderUpdateStock = 5"
| "query_params NewOrderInsertOrderLine = 9"
| "query_params PaymentSelectWarehouseForUpdate = 1"
| "query_params PaymentUpdateWarehouseYtd = 2"
| "query_params PaymentSelectDistrictForUpdate = 2"
| "query_params PaymentUpdateDistrictYtd = 3"
| "query_params PaymentSelectCustomerData = 3"
| "query_params PaymentUpdateCustomerBc = 6"
| "query_params PaymentUpdateCustomer = 5"
| "query_params PaymentInsertHistory = 7"
| "query_params CustomerSelectById = 3"
| "query_params CustomerSelectByIdForUpdate = 3"
| "query_params CustomerSelectByLastName = 3"
| "query_params CustomerSelectByLastNameForUpdate = 3"
| "query_params DeliverySelectNewOrderForUpdate = 2"
| "query_params DeliverySelectOrderCustomer = 3"
| "query_params DeliverySelectOrderLines = 3"
| "query_params DeliveryDeleteNewOrder = 3"
| "query_params DeliveryUpdateCarrier = 4"
| "query_params DeliveryUpdateOrderLineDelivery = 3"
| "query_params DeliveryUpdateCustomerBalance = 4"
| "query_params OrderStatusSelectLatestOrder = 3"
| "query_params OrderStatusSelectOrderLines = 3"
| "query_params StockLevelSelectDistrict = 2"
| "query_params StockLevelCountStock = 6"
| "query_params SimulationSelectCastInt = 1"

lemma kQueries_table:
  "length kQueries = 34"
  "list_all2 (\<lambda>q d. isSelect d = (take 7 (sql_text d) = ''SELECT '') \<and> count_list (sql_text d) (CHR ''?'') = query_params q)
     all_queries kQueries"
  by code_simp+

lemma all_queries_index: "query_index q < 34 \<and> all_queries ! query_index q = q"
  by (cases q) (simp_all add: all_queries_def)

section \<open>Meaning of the NewOrder statements\<close>

definition sem_NewOrderSelectCustomer :: "int \<Rightarrow> int \<Rightarrow> int \<Rightarrow> database \<Rightarrow> customer_row list" where
  "sem_NewOrderSelectCustomer w d c db = sql_where c_key (w, d, c) (customer db)"

definition sem_NewOrderSelectWarehouseTax :: "int \<Rightarrow> database \<Rightarrow> warehouse_row list" where
  "sem_NewOrderSelectWarehouseTax w db = sql_where w_id w (warehouse db)"

definition sem_NewOrderSelectDistrictForUpdate :: "int \<Rightarrow> int \<Rightarrow> database \<Rightarrow> district_row list" where
  "sem_NewOrderSelectDistrictForUpdate w d db = sql_where d_key (w, d) (district db)"

definition sem_NewOrderUpdateDistrict :: "int \<Rightarrow> int \<Rightarrow> database \<Rightarrow> database result" where
  "sem_NewOrderUpdateDistrict w d db = Inr (db\<lparr>district :=
     sql_update d_key (w, d) (\<lambda>r. r\<lparr>d_next_o_id := d_next_o_id r + 1\<rparr>) (district db)\<rparr>)"

definition sem_NewOrderInsertOorder ::
  "timestamp \<Rightarrow> int \<Rightarrow> int \<Rightarrow> int \<Rightarrow> int \<Rightarrow> int \<Rightarrow> int \<Rightarrow> database \<Rightarrow> database result" where
  "sem_NewOrderInsertOorder ts w d o_no c ol_cnt all_local db =
     rbind (sql_insert o_key \<lparr>o_w_id = w, o_d_id = d, o_id = o_no, o_c_id = c, o_carrier_id = None,
         o_ol_cnt = ol_cnt, o_all_local = all_local, o_entry_d = ts\<rparr> (oorder db))
       (\<lambda>t. Inr (db\<lparr>oorder := t\<rparr>))"

definition sem_NewOrderInsertNewOrder :: "int \<Rightarrow> int \<Rightarrow> int \<Rightarrow> database \<Rightarrow> database result" where
  "sem_NewOrderInsertNewOrder w d o_no db =
     rbind (sql_insert no_key \<lparr>no_w_id = w, no_d_id = d, no_o_id = o_no\<rparr> (new_order db))
       (\<lambda>t. Inr (db\<lparr>new_order := t\<rparr>))"

definition sem_NewOrderSelectItem :: "int \<Rightarrow> database \<Rightarrow> item_row list" where
  "sem_NewOrderSelectItem i db = sql_where i_id i (item db)"

definition sem_NewOrderSelectStockForUpdate :: "int \<Rightarrow> int \<Rightarrow> database \<Rightarrow> stock_row list" where
  "sem_NewOrderSelectStockForUpdate w i db = sql_where s_key (w, i) (stock db)"

definition sem_NewOrderUpdateStock ::
  "int \<Rightarrow> int \<Rightarrow> int \<Rightarrow> int \<Rightarrow> int \<Rightarrow> database \<Rightarrow> database result" where
  "sem_NewOrderUpdateStock quantity ytd remote w i db = Inr (db\<lparr>stock :=
     sql_update s_key (w, i) (\<lambda>r. r\<lparr>s_quantity := quantity, s_ytd := s_ytd r + ytd,
       s_order_cnt := s_order_cnt r + 1, s_remote_cnt := s_remote_cnt r + remote\<rparr>) (stock db)\<rparr>)"

definition sem_NewOrderInsertOrderLine ::
  "int \<Rightarrow> int \<Rightarrow> int \<Rightarrow> int \<Rightarrow> int \<Rightarrow> money \<Rightarrow> int \<Rightarrow> int \<Rightarrow> string \<Rightarrow> database \<Rightarrow> database result" where
  "sem_NewOrderInsertOrderLine w d o_no num i amount sup_w quantity dist_info db =
     rbind (sql_insert ol_key \<lparr>ol_w_id = w, ol_d_id = d, ol_o_id = o_no, ol_number = num, ol_i_id = i,
         ol_delivery_d = None, ol_amount = amount, ol_supply_w_id = sup_w, ol_quantity = quantity,
         ol_dist_info = dist_info\<rparr> (order_line db))
       (\<lambda>t. Inr (db\<lparr>order_line := t\<rparr>))"

section \<open>Meaning of the Payment statements\<close>

definition sem_PaymentSelectWarehouseForUpdate :: "int \<Rightarrow> database \<Rightarrow> warehouse_row list" where
  "sem_PaymentSelectWarehouseForUpdate w db = sql_where w_id w (warehouse db)"

definition sem_PaymentUpdateWarehouseYtd :: "money \<Rightarrow> int \<Rightarrow> database \<Rightarrow> database result" where
  "sem_PaymentUpdateWarehouseYtd amount w db = Inr (db\<lparr>warehouse :=
     sql_update w_id w (\<lambda>r. r\<lparr>w_ytd := w_ytd r + amount\<rparr>) (warehouse db)\<rparr>)"

definition sem_PaymentSelectDistrictForUpdate :: "int \<Rightarrow> int \<Rightarrow> database \<Rightarrow> district_row list" where
  "sem_PaymentSelectDistrictForUpdate w d db = sql_where d_key (w, d) (district db)"

definition sem_PaymentUpdateDistrictYtd :: "money \<Rightarrow> int \<Rightarrow> int \<Rightarrow> database \<Rightarrow> database result" where
  "sem_PaymentUpdateDistrictYtd amount w d db = Inr (db\<lparr>district :=
     sql_update d_key (w, d) (\<lambda>r. r\<lparr>d_ytd := d_ytd r + amount\<rparr>) (district db)\<rparr>)"

definition sem_PaymentSelectCustomerData :: "int \<Rightarrow> int \<Rightarrow> int \<Rightarrow> database \<Rightarrow> customer_row list" where
  "sem_PaymentSelectCustomerData w d c db = sql_where c_key (w, d, c) (customer db)"

definition sem_PaymentUpdateCustomerBc ::
  "money \<Rightarrow> money \<Rightarrow> string \<Rightarrow> int \<Rightarrow> int \<Rightarrow> int \<Rightarrow> database \<Rightarrow> database result" where
  "sem_PaymentUpdateCustomerBc a1 a2 data w d c db = Inr (db\<lparr>customer :=
     sql_update c_key (w, d, c) (\<lambda>r. r\<lparr>c_balance := c_balance r - a1, c_ytd_payment := c_ytd_payment r + a2,
       c_payment_cnt := c_payment_cnt r + 1, c_data := data\<rparr>) (customer db)\<rparr>)"

definition sem_PaymentUpdateCustomer ::
  "money \<Rightarrow> money \<Rightarrow> int \<Rightarrow> int \<Rightarrow> int \<Rightarrow> database \<Rightarrow> database result" where
  "sem_PaymentUpdateCustomer a1 a2 w d c db = Inr (db\<lparr>customer :=
     sql_update c_key (w, d, c) (\<lambda>r. r\<lparr>c_balance := c_balance r - a1, c_ytd_payment := c_ytd_payment r + a2,
       c_payment_cnt := c_payment_cnt r + 1\<rparr>) (customer db)\<rparr>)"

definition sem_PaymentInsertHistory ::
  "timestamp \<Rightarrow> int \<Rightarrow> int \<Rightarrow> int \<Rightarrow> int \<Rightarrow> int \<Rightarrow> money \<Rightarrow> string \<Rightarrow> database \<Rightarrow> database result" where
  "sem_PaymentInsertHistory ts c cd cw d w amount data db = Inr (db\<lparr>history := history db @
     [\<lparr>h_c_id = c, h_c_d_id = cd, h_c_w_id = cw, h_d_id = d, h_w_id = w, h_date = ts,
       h_amount = amount, h_data = data\<rparr>]\<rparr>)"

section \<open>Meaning of the customer lookups\<close>

text \<open>
  \<open>ORDER BY c_first\<close> sorts by the server's collation, given by the weights \<open>coll\<close> of strings.
\<close>

definition sem_CustomerSelectById :: "int \<Rightarrow> int \<Rightarrow> int \<Rightarrow> database \<Rightarrow> customer_row list" where
  "sem_CustomerSelectById w d c db = sql_where c_key (w, d, c) (customer db)"

definition sem_CustomerSelectByIdForUpdate :: "int \<Rightarrow> int \<Rightarrow> int \<Rightarrow> database \<Rightarrow> customer_row list" where
  "sem_CustomerSelectByIdForUpdate w d c db = sql_where c_key (w, d, c) (customer db)"

definition sem_CustomerSelectByLastName ::
  "(string \<Rightarrow> nat) \<Rightarrow> int \<Rightarrow> int \<Rightarrow> string \<Rightarrow> database \<Rightarrow> customer_row list" where
  "sem_CustomerSelectByLastName coll w d name db = sort_key (\<lambda>r. coll (c_first r))
     (filter (\<lambda>r. c_w_id r = w \<and> c_d_id r = d \<and> c_last r = name) (customer db))"

definition sem_CustomerSelectByLastNameForUpdate ::
  "(string \<Rightarrow> nat) \<Rightarrow> int \<Rightarrow> int \<Rightarrow> string \<Rightarrow> database \<Rightarrow> customer_row list" where
  "sem_CustomerSelectByLastNameForUpdate coll w d name db = sort_key (\<lambda>r. coll (c_first r))
     (filter (\<lambda>r. c_w_id r = w \<and> c_d_id r = d \<and> c_last r = name) (customer db))"

section \<open>Meaning of the Delivery statements\<close>

definition sem_DeliverySelectNewOrderForUpdate :: "int \<Rightarrow> int \<Rightarrow> database \<Rightarrow> int list" where
  "sem_DeliverySelectNewOrderForUpdate d w db =
     take 1 (sort (map no_o_id (filter (\<lambda>r. no_d_id r = d \<and> no_w_id r = w) (new_order db))))"

definition sem_DeliverySelectOrderCustomer :: "int \<Rightarrow> int \<Rightarrow> int \<Rightarrow> database \<Rightarrow> int list" where
  "sem_DeliverySelectOrderCustomer w d o_no db = map o_c_id (sql_where o_key (w, d, o_no) (oorder db))"

definition sem_DeliverySelectOrderLines :: "int \<Rightarrow> int \<Rightarrow> int \<Rightarrow> database \<Rightarrow> (int \<times> money) list" where
  "sem_DeliverySelectOrderLines w d o_no db =
     map (\<lambda>r. (ol_number r, ol_amount r)) (sql_where ol_order (w, d, o_no) (order_line db))"

definition sem_DeliveryDeleteNewOrder :: "int \<Rightarrow> int \<Rightarrow> int \<Rightarrow> database \<Rightarrow> database result" where
  "sem_DeliveryDeleteNewOrder w d o_no db = Inr (db\<lparr>new_order := sql_delete no_key (w, d, o_no) (new_order db)\<rparr>)"

definition sem_DeliveryUpdateCarrier :: "int \<Rightarrow> int \<Rightarrow> int \<Rightarrow> int \<Rightarrow> database \<Rightarrow> database result" where
  "sem_DeliveryUpdateCarrier carrier w d o_no db = Inr (db\<lparr>oorder :=
     sql_update o_key (w, d, o_no) (\<lambda>r. r\<lparr>o_carrier_id := Some carrier\<rparr>) (oorder db)\<rparr>)"

definition sem_DeliveryUpdateOrderLineDelivery ::
  "timestamp \<Rightarrow> int \<Rightarrow> int \<Rightarrow> int \<Rightarrow> database \<Rightarrow> database result" where
  "sem_DeliveryUpdateOrderLineDelivery ts w d o_no db = Inr (db\<lparr>order_line :=
     sql_update ol_order (w, d, o_no) (\<lambda>r. r\<lparr>ol_delivery_d := Some ts\<rparr>) (order_line db)\<rparr>)"

definition sem_DeliveryUpdateCustomerBalance ::
  "money \<Rightarrow> int \<Rightarrow> int \<Rightarrow> int \<Rightarrow> database \<Rightarrow> database result" where
  "sem_DeliveryUpdateCustomerBalance amount w d c db = Inr (db\<lparr>customer :=
     sql_update c_key (w, d, c) (\<lambda>r. r\<lparr>c_balance := c_balance r + amount,
       c_delivery_cnt := c_delivery_cnt r + 1\<rparr>) (customer db)\<rparr>)"

section \<open>Meaning of the OrderStatus, StockLevel and simulation statements\<close>

definition sem_OrderStatusSelectLatestOrder :: "int \<Rightarrow> int \<Rightarrow> int \<Rightarrow> database \<Rightarrow> oorder_row list" where
  "sem_OrderStatusSelectLatestOrder w d c db = take 1 (rev (sort_key o_id
     (filter (\<lambda>r. o_w_id r = w \<and> o_d_id r = d \<and> o_c_id r = c) (oorder db))))"

definition sem_OrderStatusSelectOrderLines :: "int \<Rightarrow> int \<Rightarrow> int \<Rightarrow> database \<Rightarrow> order_line_row list" where
  "sem_OrderStatusSelectOrderLines w d o_no db = sql_where ol_order (w, d, o_no) (order_line db)"

definition sem_StockLevelSelectDistrict :: "int \<Rightarrow> int \<Rightarrow> database \<Rightarrow> int list" where
  "sem_StockLevelSelectDistrict w d db = map d_next_o_id (sql_where d_key (w, d) (district db))"

definition sem_StockLevelCountStock ::
  "int \<Rightarrow> int \<Rightarrow> int \<Rightarrow> int \<Rightarrow> int \<Rightarrow> int \<Rightarrow> database \<Rightarrow> nat" where
  "sem_StockLevelCountStock w d upper lower sw threshold db = length (remdups (concat (map (\<lambda>ol.
     map s_i_id (filter (\<lambda>s. s_i_id s = ol_i_id ol \<and> s_w_id s = sw \<and> s_quantity s < threshold) (stock db)))
     (filter (\<lambda>ol. ol_w_id ol = w \<and> ol_d_id ol = d \<and> ol_o_id ol < upper \<and> lower \<le> ol_o_id ol) (order_line db)))))"

definition sem_SimulationSelectCastInt :: "int \<Rightarrow> database \<Rightarrow> int list" where
  "sem_SimulationSelectCastInt v db = [v]"

section \<open>Properties\<close>

text \<open>
  Every query identifier indexes its own entry of \<open>kQueries\<close>; an entry is flagged as a
  select exactly when its SQL text starts with \<open>SELECT\<close>, and its number of placeholders is
  the number of values its call site binds.
\<close>

theorem query_table_correct:
  "query_index q < length kQueries \<and> all_queries ! query_index q = q
   \<and> (QueryIsSelect q \<longleftrightarrow> take 7 (QuerySql q) = ''SELECT '')
   \<and> count_list (QuerySql q) (CHR ''?'') = query_params q"
  using kQueries_table all_queries_index [of q]
  by (auto simp: QuerySql_def QueryIsSelect_def list_all2_conv_all_nth)

end
