(* ===== verification/RandomGen.thy ===== *)
theory RandomGen
  imports Constants "HOL-Library.Signed_Division"
begin

text \<open>
  The random numbers of \<open>src/src/util.h\<close>: the xorshift64* generator, Lemire's bounded
  sampling with its rejection loop, the inclusive ranges and the non-uniform distribution
  built on it, and the customer last names. The thread-local generator state is passed
  explicitly; the rejection loop may in principle run for ever, so a draw is a partial
  function (\<open>'a rnd\<close>).
\<close>

section \<open>The generator\<close>

type_synonym 'a rnd = "u64 \<Rightarrow> ('a \<times> u64) option"

definition ret :: "'a \<Rightarrow> 'a rnd" where
  "ret x s = Some (x, s)"

definition rnd_bind :: "'a rnd \<Rightarrow> ('a \<Rightarrow> 'b rnd) \<Rightarrow> 'b rnd" where
  "rnd_bind m f s = (case m s of None \<Rightarrow> None | Some (x, s') \<Rightarrow> f x s')"

text \<open>The constructor's seed, from the two words of \<open>std::random_device\<close>.\<close>

definition seed :: "32 word \<Rightarrow> 32 word \<Rightarrow> u64" where
  "seed r1 r2 = (let s = push_bit 32 (ucast r1) OR ucast r2 in
     if s \<noteq> 0 then s else 0x9E3779B97F4A7C15)"

definition xorshift :: "u64 \<Rightarrow> u64" where
  "xorshift s = (let x = s; x = x XOR drop_bit 12 x; x = x XOR push_bit 25 x in x XOR drop_bit 27 x)"

text \<open>\<open>TFastRng::Next\<close>: the raw_output and the new state.\<close>

definition Next :: "u64 rnd" where
  "Next s = (let x = xorshift s in Some (x * 0x2545F4914F6CDD1D, x))"

section \<open>Bounded sampling\<close>

type_synonym u128 = "128 word"

definition mul128 :: "u64 \<Rightarrow> u64 \<Rightarrow> u128" where
  "mul128 x r = ucast x * ucast r"

definition lo64 :: "u128 \<Rightarrow> u64" where
  "lo64 m = ucast m"

definition hi64 :: "u128 \<Rightarrow> u64" where
  "hi64 m = ucast (drop_bit 64 m)"

partial_function (option) bounded_loop :: "u64 \<Rightarrow> u64 \<Rightarrow> u128 \<Rightarrow> u64 \<Rightarrow> (u128 \<times> u64) option" where
  "bounded_loop r t m s = (if lo64 m < t
     then (case Next s of None \<Rightarrow> None | Some (x, s') \<Rightarrow> bounded_loop r t (mul128 x r) s')
     else Some (m, s))"

declare bounded_loop.simps [code]

definition BoundedRandom :: "u64 \<Rightarrow> u64 rnd" where
  "BoundedRandom r = (if r = 0 then ret 0
     else rnd_bind Next (\<lambda>x s. let m = mul128 x r in
       if lo64 m < r
       then (case bounded_loop r ((0 - r) mod r) m s of None \<Rightarrow> None | Some (m', s') \<Rightarrow> Some (hi64 m', s'))
       else Some (hi64 m, s)))"

definition RandomNumber :: "u64 \<Rightarrow> u64 \<Rightarrow> u64 rnd" where
  "RandomNumber from to = rnd_bind (BoundedRandom (to - from + 1)) (\<lambda>x. ret (from + x))"

text \<open>
  \<open>int\<close> arguments convert to \<open>size_t\<close> and back; the additions are on \<open>int\<close>. In every call of
  the program the operands are below \<open>2\<^sup>1\<^sup>7\<close>, far from overflow.
\<close>

definition to_int :: "u64 \<Rightarrow> int" where
  "to_int w = signed_take_bit 31 (uint w)"

definition RandomInt :: "int \<Rightarrow> int \<Rightarrow> int rnd" where
  "RandomInt from to = rnd_bind (RandomNumber (word_of_int from) (word_of_int to)) (\<lambda>x. ret (to_int x))"

definition NonUniformRandom :: "int \<Rightarrow> int \<Rightarrow> int \<Rightarrow> int \<Rightarrow> int rnd" where
  "NonUniformRandom A C lo hi = rnd_bind (RandomInt 0 A) (\<lambda>randomNum.
     rnd_bind (RandomInt lo hi) (\<lambda>randomNum2.
       ret (((randomNum OR randomNum2) + C) smod (hi - lo + 1) + lo)))"

definition GetRandomCustomerID :: "int rnd" where
  "GetRandomCustomerID = NonUniformRandom 1023 C_ID_C 1 CUSTOMERS_PER_DISTRICT"

definition GetRandomItemID :: "int rnd" where
  "GetRandomItemID = NonUniformRandom 8191 OL_I_ID_C 1 ITEM_COUNT"

section \<open>Last names\<close>

definition NameTokens :: "string list" where
  "NameTokens = [''BAR'', ''OUGHT'', ''ABLE'', ''PRI'', ''PRES'', ''ESE'', ''ANTI'', ''CALLY'',
     ''ATION'', ''EING'']"

definition name_token :: "int \<Rightarrow> string result" where
  "name_token i = (if 0 \<le> i \<and> i < int (length NameTokens) then Inr (NameTokens ! nat i)
     else Inl (UB ''NameTokens''))"

definition GetLastName :: "int \<Rightarrow> string result" where
  "GetLastName num = rbind (name_token (num sdiv 100)) (\<lambda>a.
     rbind (name_token ((num sdiv 10) smod 10)) (\<lambda>b.
     rbind (name_token (num smod 10)) (\<lambda>c. Inr (a @ b @ c))))"

definition GetNonUniformRandomLastNameForRun :: "string result rnd" where
  "GetNonUniformRandomLastNameForRun =
     rnd_bind (NonUniformRandom 255 C_LAST_RUN_C 0 999) (\<lambda>n. ret (GetLastName n))"

definition GetNonUniformRandomLastNameForLoad :: "string result rnd" where
  "GetNonUniformRandomLastNameForLoad =
     rnd_bind (NonUniformRandom 255 C_LAST_LOAD_C 0 999) (\<lambda>n. ret (GetLastName n))"

section \<open>Draws in sequence\<close>

lemma rnd_bind_Some: "rnd_bind m f s = Some r \<longleftrightarrow> (\<exists>x s1. m s = Some (x, s1) \<and> f x s1 = Some r)"
  by (auto simp: rnd_bind_def split: option.splits)

section \<open>The generator never reaches zero\<close>

lemma xor_eq_0_u64: "(a :: u64) XOR b = 0 \<longleftrightarrow> a = b"
  by (auto simp: bit_eq_iff bit_xor_iff)

lemma xor_drop_bit_eq_0:
  fixes x :: u64
  assumes "x XOR drop_bit k x = 0" "0 < k" "k < 64"
  shows "x = 0"
proof -
  have "x = drop_bit k x" using assms(1) by (simp add: xor_eq_0_u64)
  moreover have "unat (drop_bit k x) = unat x div 2 ^ k" 
    using unat_pow2_u64 [OF assms(3)] by (simp add: drop_bit_eq_div unat_div_distrib)
  ultimately have "unat x = unat x div 2 ^ k" by simp
  moreover have "1 < (2 :: nat) ^ k" using assms(2) by (intro one_less_power) simp_all
  ultimately have "\<not> 0 < unat x" using div_less_dividend [of "2 ^ k" "unat x"] by linarith
  then show ?thesis by (simp add: unat_eq_0)
qed

lemma xor_push_bit_eq_0:
  fixes x :: u64
  assumes "x XOR push_bit 25 x = 0"
  shows "x = 0"
proof -
  have "x = push_bit 25 x" using assms by (simp add: xor_eq_0_u64)
  then have "x = push_bit 25 (push_bit 25 (push_bit 25 x))" by simp
  also have "\<dots> = push_bit 75 x" by (simp add: push_bit_push_bit)
  also have "\<dots> = 0" by (rule bit_word_eqI) (simp add: bit_push_bit_iff)
  finally show ?thesis .
qed

lemma xorshift_nonzero: "s \<noteq> 0 \<Longrightarrow> xorshift s \<noteq> 0"
  unfolding xorshift_def Let_def
  by (metis xor_drop_bit_eq_0 xor_push_bit_eq_0 zero_less_numeral numeral_less_iff
      less_numeral_simps semiring_norm(75,76,77,78,79,80,81))

lemma seed_nonzero: "seed r1 r2 \<noteq> 0"
  by (simp add: seed_def Let_def)

section \<open>Bounded sampling on natural numbers\<close>

lemma unat_mul128: "unat (mul128 x r) = unat x * unat r"
proof -
  have "unat x * unat r < 2 ^ 64 * 2 ^ 64"
    using unat_u64_lt [of x] unat_u64_lt [of r] by (intro mult_strict_mono) auto
  moreover have "unat (ucast w :: u128) = unat w" for w :: u64
    using unat_u64_lt [of w] by (simp add: unsigned_ucast_eq take_bit_eq_mod)
  ultimately show ?thesis by (simp add: mul128_def unat_word_ariths)
qed

lemma unat_lo64: "unat (lo64 m) = unat m mod 2 ^ 64"
  by (simp add: lo64_def unsigned_ucast_eq take_bit_eq_mod)

lemma unat_hi64: "unat (hi64 m) = unat m div 2 ^ 64"
proof -
  have "unat m < 2 ^ 64 * 2 ^ 64" using unsigned_less [of m] by simp
  then have "unat m div 2 ^ 64 < 2 ^ 64" by (simp add: less_mult_imp_div_less)
  moreover have "unat (drop_bit 64 m) = unat m div 2 ^ 64"
    by (simp add: drop_bit_eq_div unat_div_distrib)
  ultimately show ?thesis by (simp add: hi64_def unsigned_ucast_eq take_bit_eq_mod)
qed

lemma unat_threshold:
  fixes r :: u64
  assumes "r \<noteq> 0"
  shows "unat ((0 - r) mod r) = 2 ^ 64 mod unat r"
proof -
  have lt: "unat r < 2 ^ 64" "0 < unat r" using unat_u64_lt [of r] assms by (simp_all add: unat_gt_0)
  have "(word_of_nat (2 ^ 64 - unat r) :: u64) = word_of_nat (2 ^ 64) - word_of_nat (unat r)"
    using lt by (intro of_nat_diff) simp
  also have "\<dots> = 0 - r" by simp
  finally have "0 - r = word_of_nat (2 ^ 64 - unat r)" ..
  then have "unat (0 - r) = (2 ^ 64 - unat r) mod 2 ^ 64" by (simp only: unat_of_nat) simp
  then have "unat (0 - r) = 2 ^ 64 - unat r" using lt by simp
  then have "unat ((0 - r) mod r) = (2 ^ 64 - unat r) mod unat r" by (simp add: unat_mod_distrib)
  also have "\<dots> = (2 ^ 64 - unat r + unat r) mod unat r" by simp
  also have "\<dots> = 2 ^ 64 mod unat r" using lt by simp
  finally show ?thesis .
qed

text \<open>
  A raw draw \<open>x\<close> is accepted when the low half of the product is at least \<open>2\<^sup>6\<^sup>4 mod r\<close>.
\<close>

definition accepted :: "u64 \<Rightarrow> u64 \<Rightarrow> bool" where
  "accepted r x \<longleftrightarrow> 2 ^ 64 mod unat r \<le> unat x * unat r mod 2 ^ 64"

lemma accepted_iff:
  assumes "r \<noteq> 0"
  shows "accepted r x \<longleftrightarrow> \<not> lo64 (mul128 x r) < (0 - r) mod r"
  using assms by (simp add: accepted_def word_less_nat_alt unat_threshold unat_lo64 unat_mul128 not_less
      del: diff_0)

lemma not_lt_range_accepted:
  assumes "r \<noteq> 0" "\<not> lo64 (mul128 x r) < r"
  shows "accepted r x"
proof -
  have "2 ^ 64 mod unat r < unat r" using assms(1) by (simp add: unat_gt_0)
  moreover have "unat r \<le> unat x * unat r mod 2 ^ 64"
    using assms(2) by (simp add: word_less_nat_alt unat_lo64 unat_mul128 not_less)
  ultimately show ?thesis by (simp add: accepted_def)
qed

text \<open>Multiples of \<open>r\<close> in an interval whose length is a multiple of \<open>r\<close>.\<close>

lemma card_multiples:
  assumes "0 < (r :: nat)"
  shows "card {x. a \<le> x * r \<and> x * r < a + q * r} = q"
proof -
  define c where "c = (a + r - 1) div r"
  have ge: "a \<le> x * r \<longleftrightarrow> c \<le> x" if "c = (a + r - 1) div r" for x a c
  proof -
    have "c \<le> x \<longleftrightarrow> a + r - 1 < (x + 1) * r"
      using assms that by (simp add: div_less_iff_less_mult less_Suc_eq_le [symmetric])
    also have "\<dots> \<longleftrightarrow> a \<le> x * r" using assms by (cases r) (auto simp: algebra_simps)
    finally show ?thesis by simp
  qed
  have "(a + q * r + r - 1) div r = c + q"
  proof -
    have "a + q * r + r - 1 = a + r - 1 + q * r" using assms by simp
    then have "(a + q * r + r - 1) div r = (a + r - 1 + q * r) div r" by simp
    then show ?thesis using assms by (simp only: c_def div_mult_self1)
  qed
  then have "x * r < a + q * r \<longleftrightarrow> x < c + q" for x
    using ge [of "c + q" "a + q * r" x] by simp linarith
  moreover have "a \<le> x * r \<longleftrightarrow> c \<le> x" for x using ge [of c a x] by (simp add: c_def)
  ultimately have "{x. a \<le> x * r \<and> x * r < a + q * r} = {c..<c + q}" by auto
  then show ?thesis by simp
qed

lemma draw_value: "unat (hi64 (mul128 x r)) = unat x * unat r div 2 ^ 64"
  by (simp add: unat_hi64 unat_mul128)

text \<open>When the rejection loop returns, and what it returns.\<close>

lemma bounded_loop_step:
  "bounded_loop r t (mul128 x r) s = (if lo64 (mul128 x r) < t
     then bounded_loop r t (mul128 (xorshift s * 0x2545F4914F6CDD1D) r) (xorshift s)
     else Some (mul128 x r, s))"
  by (subst bounded_loop.simps) (simp add: Next_def Let_def)

text \<open>The \<open>n\<close>-th raw output after state \<open>s\<close>.\<close>

definition raw_output :: "u64 \<Rightarrow> nat \<Rightarrow> u64" where
  "raw_output s n = (xorshift ^^ Suc n) s * 0x2545F4914F6CDD1D"

lemma raw_output_simps: "raw_output s 0 = xorshift s * 0x2545F4914F6CDD1D" "raw_output s (Suc n) = raw_output (xorshift s) n"
  by (simp_all only: raw_output_def funpow_Suc_right o_apply funpow_0 funpow.simps id_apply)

lemma bounded_loop_accepted:
  assumes "bounded_loop r t m s = Some res" "t = (0 - r) mod r" "m = mul128 x r" "r \<noteq> 0"
  shows "\<exists>x'. fst res = mul128 x' r \<and> accepted r x' \<and> (x' = x \<or> (\<exists>n. x' = raw_output s n))"
proof -
  let ?P = "\<lambda>r t m s res. \<forall>x. m = mul128 x r \<and> t = (0 - r) mod r \<and> r \<noteq> 0 \<longrightarrow>
     (\<exists>x'. fst res = mul128 x' r \<and> accepted r x' \<and> (x' = x \<or> (\<exists>n. x' = raw_output s n)))"
  have "?P r t m s res"
    using assms(1)
  proof (rule bounded_loop.raw_induct [rotated], intro allI impI, elim conjE)
    fix loop r t m s res x
    assume IH: "\<And>r t m s res. loop r t m s = Some res \<Longrightarrow> ?P r t m s res"
      and res: "(if lo64 m < t then case Next s of None \<Rightarrow> None | Some (x, s') \<Rightarrow> loop r t (mul128 x r) s'
           else Some (m, s)) = Some res"
      and m: "m = mul128 x r" and t: "t = (0 - r) mod r" and r: "r \<noteq> 0"
    show "\<exists>x'. fst res = mul128 x' r \<and> accepted r x' \<and> (x' = x \<or> (\<exists>n. x' = raw_output s n))"
    proof (cases "lo64 m < t")
      case True
      with res have "loop r t (mul128 (raw_output s 0) r) (xorshift s) = Some res"
        by (simp add: Next_def Let_def raw_output_simps)
      from IH [OF this] t r obtain x' where x': "fst res = mul128 x' r" "accepted r x'"
        "x' = raw_output s 0 \<or> (\<exists>n. x' = raw_output (xorshift s) n)" by blast
      then show ?thesis by (metis raw_output_simps(2))
    next
      case False
      then show ?thesis using res m t r by (auto simp: accepted_iff)
    qed
  qed
  with assms(2-4) show ?thesis by blast
qed

text \<open>The loop returns as soon as the orbit of the state holds an accepted draw.\<close>

lemma bounded_loop_returns:
  assumes "r \<noteq> 0" "accepted r (raw_output s n)"
  shows "\<exists>res. bounded_loop r ((0 - r) mod r) (mul128 x r) s = Some res"
  using assms(2)
proof (induction n arbitrary: s x)
  case 0
  then show ?case
    using accepted_iff [OF assms(1)]
    by (subst bounded_loop_step, subst bounded_loop_step) (simp add: raw_output_simps)
next
  case (Suc n)
  then have "accepted r (raw_output (xorshift s) n)" by (simp add: raw_output_simps)
  from Suc.IH [OF this] show ?case by (subst bounded_loop_step) auto
qed

lemma BoundedRandom_eq:
  assumes "r \<noteq> 0"
  shows "BoundedRandom r s = (if lo64 (mul128 (raw_output s 0) r) < r
      then (case bounded_loop r ((0 - r) mod r) (mul128 (raw_output s 0) r) (xorshift s) of None \<Rightarrow> None
        | Some (m', s') \<Rightarrow> Some (hi64 m', s'))
      else Some (hi64 (mul128 (raw_output s 0) r), xorshift s))"
  using assms
  by (simp only: BoundedRandom_def rnd_bind_def Next_def Let_def if_False option.case prod.case raw_output_simps)

lemma BoundedRandom_accepted:
  assumes "BoundedRandom r s = Some (v, s')" "r \<noteq> 0"
  shows "\<exists>n. v = hi64 (mul128 (raw_output s n) r) \<and> accepted r (raw_output s n)"
proof (cases "lo64 (mul128 (raw_output s 0) r) < r")
  case True
  with assms obtain m' where
    m': "bounded_loop r ((0 - r) mod r) (mul128 (raw_output s 0) r) (xorshift s) = Some (m', s')" "v = hi64 m'"
    by (simp add: BoundedRandom_eq del: diff_0 split: option.splits prod.splits)
  from bounded_loop_accepted [OF m'(1) refl refl assms(2)] m'(2) show ?thesis
    by (metis fst_conv raw_output_simps(2))
next
  case False
  then show ?thesis
    using assms not_lt_range_accepted [OF assms(2) False] by (auto simp: BoundedRandom_eq)
qed

lemma BoundedRandom_returns:
  assumes "r \<noteq> 0" "accepted r (raw_output s n)"
  shows "\<exists>v s'. BoundedRandom r s = Some (v, s')"
proof -
  have "\<exists>res. bounded_loop r ((0 - r) mod r) (mul128 (raw_output s 0) r) (xorshift s) = Some res"
  proof (cases n)
    case 0
    then show ?thesis
      using assms accepted_iff [OF assms(1)] by (subst bounded_loop_step) simp
  next
    case (Suc k)
    then show ?thesis using bounded_loop_returns [OF assms(1)] assms(2) by (simp add: raw_output_simps)
  qed
  then show ?thesis using assms(1) by (auto simp: BoundedRandom_eq simp del: diff_0)
qed

lemma BoundedRandom_less:
  assumes "BoundedRandom r s = Some (v, s')" "r \<noteq> 0"
  shows "v < r"
proof -
  obtain x where v: "v = hi64 (mul128 x r)" using BoundedRandom_accepted [OF assms] by blast
  have "unat x * unat r < 2 ^ 64 * unat r"
    using unat_u64_lt [of x] assms(2) by (intro mult_strict_right_mono) (simp_all add: unat_gt_0)
  then have "unat x * unat r div 2 ^ 64 < unat r" by (simp add: less_mult_imp_div_less mult.commute)
  then show ?thesis by (simp add: v word_less_nat_alt draw_value)
qed

lemma RandomNumber_range:
  assumes "RandomNumber from to s = Some (v, s')" "from \<le> to"
  shows "from \<le> v \<and> v \<le> to"
proof -
  obtain x where x: "BoundedRandom (to - from + 1) s = Some (x, s')" "v = from + x"
    using assms(1) by (auto simp: RandomNumber_def rnd_bind_def ret_def split: option.splits)
  have "x \<le> to - from"
  proof (cases "to - from + 1 = 0")
    case True
    then show ?thesis using x(1) by (simp add: BoundedRandom_def ret_def)
  next
    case False
    have "x < to - from + 1" by (rule BoundedRandom_less [OF x(1) False])
    then show ?thesis using unat_Suc_u64 [of "to - from" x]
      by (force simp: word_less_nat_alt word_le_nat_alt not_le)
  qed
  then have "unat x \<le> unat to - unat from"
    using assms(2) by (simp add: word_le_nat_alt unat_sub)
  then have "unat (from + x) = unat from + unat x" "unat from + unat x \<le> unat to"
    using assms(2) unat_u64_lt [of to] by (auto simp: word_le_nat_alt intro!: unat_add_u64)
  then show ?thesis using x(2) by (simp add: word_le_nat_alt)
qed

lemma div_mod_window:
  assumes "(t :: nat) < B"
  shows "t \<le> p mod B \<and> p div B = v \<longleftrightarrow> v * B + t \<le> p \<and> p < v * B + B"
proof
  assume "t \<le> p mod B \<and> p div B = v"
  then show "v * B + t \<le> p \<and> p < v * B + B"
    using div_mult_mod_eq [of p B] mod_less_divisor [of B p] assms
    by (metis add_left_mono add_strict_left_mono gr_implies_not0 not_gr_zero)
next
  assume p: "v * B + t \<le> p \<and> p < v * B + B"
  then have "p div B = v" by (intro div_nat_eqI) (auto simp: mult.commute)
  with p show "t \<le> p mod B \<and> p div B = v" using div_mult_mod_eq [of p B] by auto
qed

lemma accepted_window:
  assumes "v < r"
  shows "accepted r x \<and> hi64 (mul128 x r) = v \<longleftrightarrow>
     unat v * 2 ^ 64 + 2 ^ 64 mod unat r \<le> unat x * unat r
       \<and> unat x * unat r < unat v * 2 ^ 64 + 2 ^ 64 mod unat r + 2 ^ 64 div unat r * unat r"
proof -
  let ?p = "unat x * unat r" and ?t = "2 ^ 64 mod unat r" and ?B = "2 ^ 64 :: nat"
  have "0 < unat r" using assms by (auto simp: word_less_nat_alt)
  then have t: "?t < ?B" using unat_u64_lt [of r] by (simp add: order_less_trans [of _ "unat r"])
  have len: "?t + ?B div unat r * unat r = ?B" by (rule mod_div_mult_eq)
  have "accepted r x \<and> hi64 (mul128 x r) = v \<longleftrightarrow> ?t \<le> ?p mod ?B \<and> ?p div ?B = unat v"
    by (simp add: accepted_def word_unat_eq_iff draw_value)
  also have "\<dots> \<longleftrightarrow> unat v * ?B + ?t \<le> ?p \<and> ?p < unat v * ?B + ?B"
    by (rule div_mod_window [OF t])
  finally show ?thesis using len by (simp only: add.assoc)
qed

lemma card_accepted:
  assumes "v < r"
  shows "card {x. accepted r x \<and> hi64 (mul128 x r) = v} = 2 ^ 64 div unat r"
proof -
  let ?a = "unat v * 2 ^ 64 + 2 ^ 64 mod unat r" and ?q = "2 ^ 64 div unat r"
  let ?N = "{n. ?a \<le> n * unat r \<and> n * unat r < ?a + ?q * unat r}"
  have r: "0 < unat r" "Suc (unat v) \<le> unat r" using assms by (auto simp: word_less_nat_alt)
  have small: "n < 2 ^ 64" if "n \<in> ?N" for n
  proof -
    have "n * unat r < ?a + ?q * unat r" using that by blast
    also have "\<dots> = Suc (unat v) * 2 ^ 64"
      by (simp only: add.assoc mod_div_mult_eq mult_Suc add.commute [of "unat v * 2 ^ 64" "2 ^ 64"])
    also have "\<dots> \<le> unat r * 2 ^ 64" using r(2) by (rule mult_right_mono) simp
    finally have "n * unat r < 2 ^ 64 * unat r" by (simp only: mult.commute)
    then show ?thesis using mult_less_cancel2 by blast
  qed
  have "bij_betw unat {x. accepted r x \<and> hi64 (mul128 x r) = v} ?N"
  proof (rule bij_betw_byWitness [where f' = word_of_nat])
    show "unat ` {x. accepted r x \<and> hi64 (mul128 x r) = v} \<subseteq> ?N"
      using accepted_window [OF assms] by blast
    show id: "\<forall>n \<in> ?N. unat (word_of_nat n :: u64) = n"
      using small by (simp add: unat_of_nat)
    show "word_of_nat ` ?N \<subseteq> {x. accepted r x \<and> hi64 (mul128 x r) = v}"
    proof
      fix x :: u64
      assume "x \<in> word_of_nat ` ?N"
      then obtain n where n: "n \<in> ?N" "x = word_of_nat n" by blast
      with id have "unat x \<in> ?N" by simp
      then show "x \<in> {x. accepted r x \<and> hi64 (mul128 x r) = v}"
        using accepted_window [OF assms, of x] by blast
    qed
  qed simp
  then show ?thesis using card_multiples [OF r(1)] by (simp only: bij_betw_same_card)
qed

lemma to_int_small: "uint w < 2 ^ 31 \<Longrightarrow> to_int w = uint w"
  unfolding to_int_def by (rule signed_take_bit_int_eq_self) (simp_all add: order_trans [of _ 0])

lemma RandomInt_range:
  assumes "RandomInt lo hi s = Some (v, s')" "0 \<le> lo" "lo \<le> hi" "hi < 2 ^ 31"
  shows "lo \<le> v \<and> v \<le> hi"
proof -
  obtain w where w: "RandomNumber (word_of_int lo) (word_of_int hi) s = Some (w, s')" "v = to_int w"
    using assms(1) by (auto simp: RandomInt_def rnd_bind_def ret_def split: option.splits)
  have u: "uint (word_of_int k :: u64) = k" if "0 \<le> k" "k \<le> hi" for k
    using that assms(4) by (simp add: uint_word_of_int)
  have "(word_of_int lo :: u64) \<le> word_of_int hi" using u assms by (simp add: word_le_def)
  from RandomNumber_range [OF w(1) this] have "lo \<le> uint w" "uint w \<le> hi"
    using u assms by (auto simp: word_le_def)
  then show ?thesis using w(2) to_int_small [of w] assms(4) by simp
qed

lemma NonUniformRandom_range:
  assumes "NonUniformRandom A C lo hi s = Some (v, s')"
    and "0 \<le> A" "A < 2 ^ 31" "0 \<le> C" "0 \<le> lo" "lo \<le> hi" "hi < 2 ^ 31"
  shows "lo \<le> v \<and> v \<le> hi"
proof -
  obtain r1 r2 s1 where r: "RandomInt 0 A s = Some (r1, s1)" "RandomInt lo hi s1 = Some (r2, s')"
    "v = ((r1 OR r2) + C) smod (hi - lo + 1) + lo"
    using assms(1) by (auto simp: NonUniformRandom_def rnd_bind_def ret_def split: option.splits)
  have "0 \<le> r1" "0 \<le> r2"
    using RandomInt_range [OF r(1)] RandomInt_range [OF r(2)] assms by auto
  then have "0 \<le> (r1 OR r2) + C" using assms(4) by simp
  then show ?thesis
    using r(3) smod_int_compares(1,2) [of "(r1 OR r2) + C" "hi - lo + 1"] assms(6) by simp
qed

section \<open>Last names are a prefix code\<close>

lemma NameTokens_nth:
  "i < 10 \<Longrightarrow> NameTokens ! i \<in> set NameTokens \<and> length (NameTokens ! i) \<le> 5 \<and> 3 \<le> length (NameTokens ! i)"
proof -
  assume "i < 10"
  then have "NameTokens ! i \<in> set NameTokens"
    using nth_mem [of i NameTokens] by (simp add: NameTokens_def)
  moreover have "\<forall>t \<in> set NameTokens. length t \<le> 5 \<and> 3 \<le> length t" by (simp add: NameTokens_def)
  ultimately show ?thesis by blast
qed

text \<open>The first three letters identify a token.\<close>

lemma NameTokens_prefix_free:
  assumes "i < 10" "j < 10" "NameTokens ! i @ x = NameTokens ! j @ y"
  shows "i = j"
proof -
  have d: "distinct (map (take 3) NameTokens)" "length NameTokens = 10" by code_simp+
  have "take 3 (NameTokens ! i @ x) = take 3 (NameTokens ! j @ y)" using assms(3) by simp
  then have "take 3 (NameTokens ! i) = take 3 (NameTokens ! j)"
    using NameTokens_nth [OF assms(1)] NameTokens_nth [OF assms(2)] by simp
  then have "map (take 3) NameTokens ! i = map (take 3) NameTokens ! j" using assms(1,2) d(2) by simp
  then show ?thesis
    using nth_eq_iff_index_eq [OF d(1), of i j] d(2) assms(1,2) by (simp only: length_map)
qed

lemma GetLastName_digits:
  assumes "0 \<le> n" "n < 1000"
  shows "GetLastName n = Inr (NameTokens ! nat (n div 100) @ NameTokens ! nat (n div 10 mod 10)
     @ NameTokens ! nat (n mod 10))"
proof -
  have "n sdiv 100 = n div 100" "n sdiv 10 = n div 10" "n smod 10 = n mod 10"
    "n div 10 smod 10 = n div 10 mod 10"
    using assms by (simp_all add: signed_divide_int_def smod_int_alt_def sgn_if)
  moreover have "n div 100 < 10" "0 \<le> n div 100" using assms by auto
  ultimately show ?thesis
    using assms by (simp add: GetLastName_def name_token_def NameTokens_def)
qed

section \<open>Properties\<close>

text \<open>
  (C18) Bounded sampling is unbiased: whenever \<open>BoundedRandom(range)\<close> returns, the value is
  below the range and comes from a raw draw of the generator that the rejection test
  accepts, and every value below the range has exactly \<open>\<lfloor>2\<^sup>6\<^sup>4 / range\<rfloor>\<close> accepted raw draws.
  It returns exactly when some later raw draw is accepted.
\<close>

theorem bounded_random_unbiased:
  assumes "r \<noteq> 0"
  shows "((\<exists>n. accepted r (raw_output s n)) \<longleftrightarrow> (\<exists>v s'. BoundedRandom r s = Some (v, s')))
     \<and> (\<forall>v s'. BoundedRandom r s = Some (v, s') \<longrightarrow> v < r
         \<and> (\<exists>n. accepted r (raw_output s n) \<and> v = hi64 (mul128 (raw_output s n) r)))
     \<and> (\<forall>v < r. card {x. accepted r x \<and> hi64 (mul128 x r) = v} = 2 ^ 64 div unat r)"
proof (intro conjI allI impI)
  show "(\<exists>n. accepted r (raw_output s n)) \<longleftrightarrow> (\<exists>v s'. BoundedRandom r s = Some (v, s'))"
    using BoundedRandom_accepted [OF _ assms] BoundedRandom_returns [OF assms] by blast
  show "card {x. accepted r x \<and> hi64 (mul128 x r) = v} = 2 ^ 64 div unat r" if "v < r" for v
    by (rule card_accepted [OF that])
next
  fix v s'
  assume "BoundedRandom r s = Some (v, s')"
  then show "v < r" "\<exists>n. accepted r (raw_output s n) \<and> v = hi64 (mul128 (raw_output s n) r)"
    using BoundedRandom_less [OF _ assms] BoundedRandom_accepted [OF _ assms] by blast+
qed

theorem bounded_random_unbiased_witness:
  "card {x. accepted 3 x \<and> hi64 (mul128 x 3) = 1} = 2 ^ 64 div unat (3 :: u64)"
  using bounded_random_unbiased [of 3 1] by simp

text \<open>
  The inclusive ranges hold: \<open>RandomNumber(from, to)\<close> lies between its bounds for all
  64-bit bounds in order, the full range included, and \<open>NonUniformRandom\<close> lies in
  \<open>[min, max]\<close>, so every customer id, item id and last-name number drawn is valid.
\<close>

theorem random_in_range:
  "(RandomNumber from to s = Some (v, s') \<and> from \<le> to \<longrightarrow> from \<le> v \<and> v \<le> to)
   \<and> (NonUniformRandom A C lo hi s = Some (k, s') \<and> 0 \<le> A \<and> A < 2 ^ 31 \<and> 0 \<le> C \<and> 0 \<le> lo \<and> lo \<le> hi
        \<and> hi < 2 ^ 31 \<longrightarrow> lo \<le> k \<and> k \<le> hi)
   \<and> (GetRandomCustomerID s = Some (k, s') \<longrightarrow> 1 \<le> k \<and> k \<le> CUSTOMERS_PER_DISTRICT)
   \<and> (GetRandomItemID s = Some (k, s') \<longrightarrow> 1 \<le> k \<and> k \<le> ITEM_COUNT)"
  using RandomNumber_range [of "from" to s v s'] NonUniformRandom_range [of A C lo hi s k s']
    NonUniformRandom_range [of 1023 C_ID_C 1 CUSTOMERS_PER_DISTRICT s k s']
    NonUniformRandom_range [of 8191 OL_I_ID_C 1 ITEM_COUNT s k s']
  by (auto simp: GetRandomCustomerID_def GetRandomItemID_def const_defs)

theorem random_in_range_witness:
  "\<exists>v s'. RandomNumber 5 6 1 = Some (v, s') \<and> 5 \<le> v \<and> v \<le> 6"
proof -
  have "RandomNumber 5 6 1 = Some (5, xorshift 1)" by code_simp
  then show ?thesis using random_in_range [of 5 6 1 5 "xorshift 1"] by auto
qed

text \<open>
  \<open>GetLastName\<close> gives 1000 different names for 0 to 999, each of at most 15 characters
  (the column holds 16), so a lookup by last name hits exactly the customers loaded with
  that number.
\<close>

theorem last_names_distinct:
  assumes "0 \<le> m" "m < 1000" "0 \<le> n" "n < 1000"
  shows "(\<exists>x. GetLastName n = Inr x \<and> length x \<le> 15) \<and> (GetLastName m = GetLastName n \<longleftrightarrow> m = n)"
proof -
  have dig: "nat (k div 100) < 10 \<and> nat (k div 10 mod 10) < 10 \<and> nat (k mod 10) < 10"
    if "0 \<le> k" "k < 1000" for k :: int
    using that by auto
  note dm = dig [OF assms(1,2)] and dn = dig [OF assms(3,4)]
  have len: "length (NameTokens ! nat (n div 100)) + length (NameTokens ! nat (n div 10 mod 10))
     + length (NameTokens ! nat (n mod 10)) \<le> 15"
    using NameTokens_nth [of "nat (n div 100)"] NameTokens_nth [of "nat (n div 10 mod 10)"]
      NameTokens_nth [of "nat (n mod 10)"] dn by linarith
  have "m = n" if "GetLastName m = GetLastName n"
  proof -
    have eq: "NameTokens ! nat (m div 100) @ NameTokens ! nat (m div 10 mod 10) @ NameTokens ! nat (m mod 10)
       = NameTokens ! nat (n div 100) @ NameTokens ! nat (n div 10 mod 10) @ NameTokens ! nat (n mod 10)"
      using that by (simp add: GetLastName_digits assms)
    have 1: "nat (m div 100) = nat (n div 100)"
      by (rule NameTokens_prefix_free [OF _ _ eq]) (use dm dn in blast)+
    have eq2: "NameTokens ! nat (m div 10 mod 10) @ NameTokens ! nat (m mod 10)
       = NameTokens ! nat (n div 10 mod 10) @ NameTokens ! nat (n mod 10)"
      using eq unfolding 1 by (simp only: same_append_eq)
    have 2: "nat (m div 10 mod 10) = nat (n div 10 mod 10)"
      by (rule NameTokens_prefix_free [OF _ _ eq2]) (use dm dn in blast)+
    have eq3: "NameTokens ! nat (m mod 10) @ [] = NameTokens ! nat (n mod 10) @ []"
      using eq2 unfolding 2 by (simp only: same_append_eq)
    have 3: "nat (m mod 10) = nat (n mod 10)"
      by (rule NameTokens_prefix_free [OF _ _ eq3]) (use dm dn in blast)+
    have nn: "0 \<le> k div 100" "0 \<le> k div 10 mod 10" "0 \<le> k mod 10" if "0 \<le> k" for k :: int
      using that by (simp_all add: pos_imp_zdiv_nonneg_iff)
    have dec: "k = (k div 100) * 100 + (k div 10 mod 10) * 10 + k mod 10" for k :: int
    proof -
      have "k div 100 = k div 10 div 10" using zdiv_zmult2_eq [of 10 k 10] by simp
      then show ?thesis using div_mult_mod_eq [of k 10] div_mult_mod_eq [of "k div 10" 10] by linarith
    qed
    have "m div 100 = n div 100" "m div 10 mod 10 = n div 10 mod 10" "m mod 10 = n mod 10"
      using 1 2 3 nn [OF assms(1)] nn [OF assms(3)] by (simp_all only: eq_nat_nat_iff)
    then show ?thesis using dec [of m] dec [of n] by linarith
  qed
  moreover have "\<exists>x. GetLastName n = Inr x \<and> length x \<le> 15"
    using len by (simp add: GetLastName_digits [OF assms(3,4)])
  ultimately show ?thesis by blast
qed

theorem last_names_distinct_witness: "GetLastName 371 \<noteq> GetLastName 372"
  using last_names_distinct [of 371 372] by simp

end
