(* ===== verification/Session.thy ===== *)
theory Session
  imports Queries RandomGen
begin

text \<open>
  \<open>ObSession\<close> (\<open>src/src/db/session.cpp\<close>) over the transaction statements of \<open>ObConnection\<close>
  (\<open>src/src/db/connection.cpp\<close>), and the classification of errors (\<open>src/src/db/errors.h\<close>).

  The server keeps the committed database and, in an open transaction, a working copy; a
  \<open>START TRANSACTION\<close> while one is open commits it implicitly, as MySQL documents. Whether a
  statement fails is up to the server: the list \<open>faults\<close> is consumed by the statements in
  order, and a failing statement may or may not have taken effect. \<open>ROLLBACK\<close> always takes
  effect (it fails only when the connection is lost, and then the server rolls back).
  The thread pool and the futures only delay an operation's result, so an operation is one
  function from the world to its result and the new world.
\<close>

section \<open>Errors\<close>

datatype DbErrorKind = Other | Deadlock | LockWaitTimeout | SerializationFailure
  | TransactionInvalidated | ConnectionLost | Shutdown

definition ClassifyDbError :: "int \<Rightarrow> DbErrorKind" where
  "ClassifyDbError nativeCode =
     (if nativeCode = 1213 then Deadlock
      else if nativeCode = 1205 then LockWaitTimeout
      else if nativeCode = 6235 then SerializationFailure
      else if nativeCode = 6002 then TransactionInvalidated
      else if nativeCode = 1317 then Shutdown
      else if nativeCode = 2006 \<or> nativeCode = 2013 then ConnectionLost
      else Other)"

definition IsRetryableTxError :: "DbErrorKind \<Rightarrow> bool" where
  "IsRetryableTxError kind \<longleftrightarrow> kind = Deadlock \<or> kind = LockWaitTimeout
     \<or> kind = SerializationFailure \<or> kind = TransactionInvalidated"

section \<open>The world of a session\<close>

datatype fault = NoFault | FailBefore exn | FailAfter exn

record world =
  committed :: database
  working :: database
  srv_open :: bool
  inTxn :: bool
  shutdownFlag :: bool
  faults :: "fault list"
  now :: timestamp
  coll :: "string \<Rightarrow> nat"
  rng :: u64
  stopError :: bool

type_synonym 'a tx = "world \<Rightarrow> ('a result \<times> world) option"

definition tx_return :: "'a \<Rightarrow> 'a tx" where
  "tx_return x w = Some (Inr x, w)"

definition tx_throw :: "exn \<Rightarrow> 'a tx" where
  "tx_throw e w = Some (Inl e, w)"

definition tx_bind :: "'a tx \<Rightarrow> ('a \<Rightarrow> 'b tx) \<Rightarrow> 'b tx" where
  "tx_bind m f w = (case m w of None \<Rightarrow> None
     | Some (Inl e, w') \<Rightarrow> Some (Inl e, w') | Some (Inr x, w') \<Rightarrow> f x w')"

text \<open>The value, or the exception, of a computation that does not touch the world.\<close>

definition tx_lift :: "'a result \<Rightarrow> 'a tx" where
  "tx_lift r w = Some (r, w)"

text \<open>\<open>try { m } catch (...) { h }\<close>, with the exception passed on.\<close>

definition tx_on_error :: "'a tx \<Rightarrow> (world \<Rightarrow> world) \<Rightarrow> 'a tx" where
  "tx_on_error m h w = (case m w of Some (Inl e, w') \<Rightarrow> Some (Inl e, h w') | r \<Rightarrow> r)"

definition draw :: "'a rnd \<Rightarrow> 'a tx" where
  "draw r w = (case r (rng w) of None \<Rightarrow> None | Some (x, s) \<Rightarrow> Some (Inr x, w\<lparr>rng := s\<rparr>))"

section \<open>The connection\<close>

definition take_fault :: "world \<Rightarrow> fault \<times> world" where
  "take_fault w = (case faults w of [] \<Rightarrow> (NoFault, w) | f # fs \<Rightarrow> (f, w\<lparr>faults := fs\<rparr>))"

text \<open>A statement with server effect \<open>f\<close>; \<open>f\<close> itself fails with an SQL error.\<close>

definition statement :: "(world \<Rightarrow> ('a \<times> world) result) \<Rightarrow> 'a tx" where
  "statement f w = (let (ft, w1) = take_fault w in
     case ft of
       FailBefore e \<Rightarrow> Some (Inl e, w1)
     | NoFault \<Rightarrow> (case f w1 of Inl e \<Rightarrow> Some (Inl e, w1) | Inr (x, w2) \<Rightarrow> Some (Inr x, w2))
     | FailAfter e \<Rightarrow> (case f w1 of Inl e' \<Rightarrow> Some (Inl e', w1) | Inr (x, w2) \<Rightarrow> Some (Inl e, w2)))"

definition BeginRepeatableRead :: "unit tx" where
  "BeginRepeatableRead = statement (\<lambda>w. let c = (if srv_open w then working w else committed w) in
     Inr ((), w\<lparr>committed := c, working := c, srv_open := True\<rparr>))"

definition Conn_Commit :: "unit tx" where
  "Conn_Commit = statement (\<lambda>w. Inr ((), if srv_open w
     then w\<lparr>committed := working w, srv_open := False\<rparr> else w))"

definition Conn_Rollback :: "world \<Rightarrow> world" where
  "Conn_Rollback w = w\<lparr>working := committed w, srv_open := False\<rparr>"

text \<open>\<open>Query\<close> and \<open>Execute\<close> of a static statement inside the open transaction.\<close>

definition Conn_Query :: "(database \<Rightarrow> 'a) \<Rightarrow> 'a tx" where
  "Conn_Query sel = statement (\<lambda>w. Inr (sel (working w), w))"

definition Conn_Execute :: "(database \<Rightarrow> database result) \<Rightarrow> unit tx" where
  "Conn_Execute upd = statement (\<lambda>w. rbind (upd (working w)) (\<lambda>db. Inr ((), w\<lparr>working := db\<rparr>)))"

section \<open>The session\<close>

definition CheckShutdown :: "unit tx" where
  "CheckShutdown w = (if shutdownFlag w then Some (Inl (RuntimeError ''session shutdown''), w)
     else Some (Inr (), w))"

definition EnsureTxn :: "unit tx" where
  "EnsureTxn w = (if inTxn w then Some (Inr (), w)
     else tx_bind BeginRepeatableRead (\<lambda>_ w'. Some (Inr (), w'\<lparr>inTxn := True\<rparr>)) w)"

definition ResetTxnOnError :: "world \<Rightarrow> world" where
  "ResetTxnOnError w = (if inTxn w then (Conn_Rollback w)\<lparr>inTxn := False\<rparr> else w)"

definition ExecuteQuery :: "(database \<Rightarrow> 'a) \<Rightarrow> 'a tx" where
  "ExecuteQuery sel = tx_on_error
     (tx_bind CheckShutdown (\<lambda>_. tx_bind EnsureTxn (\<lambda>_. Conn_Query sel))) ResetTxnOnError"

definition ExecuteModify :: "(database \<Rightarrow> database result) \<Rightarrow> unit tx" where
  "ExecuteModify upd = tx_on_error
     (tx_bind CheckShutdown (\<lambda>_. tx_bind EnsureTxn (\<lambda>_. Conn_Execute upd))) ResetTxnOnError"

definition Commit :: "unit tx" where
  "Commit = tx_on_error
     (tx_bind CheckShutdown (\<lambda>_ w. if inTxn w
        then tx_bind Conn_Commit (\<lambda>_ w'. Some (Inr (), w'\<lparr>inTxn := False\<rparr>)) w
        else Some (Inr (), w)))
     (\<lambda>w. w\<lparr>inTxn := False\<rparr>)"

definition Rollback :: "unit tx" where
  "Rollback w = Some (Inr (), if inTxn w then (Conn_Rollback w)\<lparr>inTxn := False\<rparr> else w)"

text \<open>\<open>ReleaseConnection\<close>, run when the session guard gives the connection back.\<close>

definition ReleaseConnection :: "world \<Rightarrow> world" where
  "ReleaseConnection w = (if inTxn w then (Conn_Rollback w)\<lparr>inTxn := False\<rparr> else w)"

definition RequestStopWithError :: "unit tx" where
  "RequestStopWithError w = Some (Inr (), w\<lparr>stopError := True\<rparr>)"

section \<open>Weakest preconditions\<close>

text \<open>
  \<open>wp m Q w\<close>: if \<open>m\<close> returns from \<open>w\<close>, normally or with an exception, its outcome satisfies
  \<open>Q\<close>. (\<open>m\<close> does not return only when the rejection loop of the generator does not.)
\<close>

definition wp :: "'a tx \<Rightarrow> ('a result \<Rightarrow> world \<Rightarrow> bool) \<Rightarrow> world \<Rightarrow> bool" where
  "wp m Q w = (case m w of None \<Rightarrow> True | Some (r, w') \<Rightarrow> Q r w')"

lemma wpI: "(\<And>r w'. m w = Some (r, w') \<Longrightarrow> Q r w') \<Longrightarrow> wp m Q w"
  by (auto simp: wp_def split: option.splits)

lemma wpD: "wp m Q w \<Longrightarrow> m w = Some (r, w') \<Longrightarrow> Q r w'"
  by (simp add: wp_def)

lemma wp_return [simp]: "wp (tx_return x) Q w = Q (Inr x) w"
  by (simp add: wp_def tx_return_def)

lemma wp_throw [simp]: "wp (tx_throw e) Q w = Q (Inl e) w"
  by (simp add: wp_def tx_throw_def)

lemma wp_lift [simp]: "wp (tx_lift r) Q w = Q r w"
  by (simp add: wp_def tx_lift_def)

lemma wp_bind:
  "wp (tx_bind m f) Q w = wp m (\<lambda>r w'. case r of Inl e \<Rightarrow> Q (Inl e) w' | Inr x \<Rightarrow> wp (f x) Q w') w"
  by (auto simp: wp_def tx_bind_def split: option.splits sum.splits)

lemma tx_bind_assoc: "tx_bind (tx_bind m f) g = tx_bind m (\<lambda>x. tx_bind (f x) g)"
  by (auto simp: tx_bind_def fun_eq_iff split: option.splits sum.splits)

lemma wp_bindI:
  assumes "wp m (\<lambda>r w'. case r of Inl e \<Rightarrow> Q (Inl e) w' | Inr x \<Rightarrow> wp (f x) Q w') w"
  shows "wp (tx_bind m f) Q w"
  using assms by (simp add: wp_bind)

lemma wp_mono: "wp m Q w \<Longrightarrow> (\<And>r w'. Q r w' \<Longrightarrow> R r w') \<Longrightarrow> wp m R w"
  by (auto simp: wp_def split: option.splits)

lemma wp_draw: "(\<And>x s. r (rng w) = Some (x, s) \<Longrightarrow> Q (Inr x) (w\<lparr>rng := s\<rparr>)) \<Longrightarrow> wp (draw r) Q w"
  by (auto simp: wp_def draw_def split: option.splits)

section \<open>Transaction states\<close>

text \<open>
  \<open>D\<close> is a set of databases that may be committed. Between transactions a session is
  \<open>idle\<close>; a transaction the server still holds open (after a failed \<open>COMMIT\<close>) is in \<open>D\<close> too.
  Inside one it is \<open>active\<close> with the working database \<open>db\<close>. \<open>F\<close> promises that no statement
  fails for a reason of the server's own.
\<close>

definition fault_free :: "world \<Rightarrow> bool" where
  "fault_free w \<longleftrightarrow> faults w = [] \<and> \<not> shutdownFlag w"

definition idle :: "bool \<Rightarrow> database set \<Rightarrow> world \<Rightarrow> bool" where
  "idle F D w \<longleftrightarrow> \<not> inTxn w \<and> committed w \<in> D \<and> (srv_open w \<longrightarrow> working w \<in> D) \<and> (F \<longrightarrow> fault_free w)"

definition active :: "bool \<Rightarrow> database set \<Rightarrow> database \<Rightarrow> world \<Rightarrow> bool" where
  "active F D db w \<longleftrightarrow> inTxn w \<and> srv_open w \<and> working w = db \<and> committed w \<in> D \<and> (F \<longrightarrow> fault_free w)"

lemma idle_rng [simp]: "idle F D (w\<lparr>rng := s\<rparr>) = idle F D w"
  and active_rng [simp]: "active F D db (w\<lparr>rng := s\<rparr>) = active F D db w"
  and idle_stop [simp]: "idle F D (w\<lparr>stopError := b\<rparr>) = idle F D w"
  and active_stop [simp]: "active F D db (w\<lparr>stopError := b\<rparr>) = active F D db w"
  by (simp_all add: idle_def active_def fault_free_def)

lemma take_fault_state:
  assumes "take_fault w = (ft, w1)"
  shows "w1 = w\<lparr>faults := tl (faults w)\<rparr>" "faults w = [] \<Longrightarrow> ft = NoFault"
  using assms by (cases "faults w"; simp add: take_fault_def)+

lemma wp_statement:
  assumes "\<And>e w'. w' = w\<lparr>faults := tl (faults w)\<rparr> \<Longrightarrow> \<not> fault_free w \<or> f w' = Inl e \<Longrightarrow> Q (Inl e) w'"
    and "\<And>x e w' w''. w' = w\<lparr>faults := tl (faults w)\<rparr> \<Longrightarrow> \<not> fault_free w \<Longrightarrow> f w' = Inr (x, w'') \<Longrightarrow> Q (Inl e) w''"
    and "\<And>x w' w''. w' = w\<lparr>faults := tl (faults w)\<rparr> \<Longrightarrow> f w' = Inr (x, w'') \<Longrightarrow> Q (Inr x) w''"
  shows "wp (statement f) Q w"
proof -
  obtain ft w1 where tf: "take_fault w = (ft, w1)" by fastforce
  note st = take_fault_state [OF tf]
  have nf: "ft \<noteq> NoFault \<Longrightarrow> \<not> fault_free w" using st(2) by (auto simp: fault_free_def)
  show ?thesis
  proof (cases "f w1")
    case (Inl e)
    then show ?thesis
      using assms(1) [OF st(1)] nf tf by (cases ft) (auto simp: wp_def statement_def)
  next
    case (Inr p)
    obtain x w2 where p: "f w1 = Inr (x, w2)" using Inr by (cases p) auto
    then show ?thesis
      using assms(1) [OF st(1)] assms(2) [OF st(1) _ p] assms(3) [OF st(1) p] nf tf
      by (cases ft) (auto simp: wp_def statement_def)
  qed
qed

lemma wp_on_error:
  assumes "wp m (\<lambda>r w'. case r of Inl e \<Rightarrow> Q (Inl e) (h w') | Inr x \<Rightarrow> Q (Inr x) w') w"
  shows "wp (tx_on_error m h) Q w"
  using assms by (auto simp: wp_def tx_on_error_def split: option.splits sum.splits)

lemma fault_free_tl: "fault_free w \<Longrightarrow> fault_free (w\<lparr>faults := tl (faults w)\<rparr>)"
  by (simp add: fault_free_def)

lemma wp_EnsureTxn_idle:
  assumes "idle F D w" "\<And>e w'. \<not> F \<Longrightarrow> idle F D w' \<Longrightarrow> Q (Inl e) w'"
    and "\<And>db w'. db \<in> D \<Longrightarrow> active F D db w' \<Longrightarrow> now w' = now w \<Longrightarrow> coll w' = coll w \<Longrightarrow> rng w' = rng w \<Longrightarrow> Q (Inr ()) w'"
  shows "wp EnsureTxn Q w"
proof -
  have "wp (tx_bind BeginRepeatableRead (\<lambda>_ w'. Some (Inr (), w'\<lparr>inTxn := True\<rparr>))) Q w"
    unfolding BeginRepeatableRead_def
  proof (rule wp_bindI, rule wp_statement, goal_cases)
    case (1 e w')
    then show ?case using assms(1,2) by (auto simp: idle_def fault_free_def Let_def)
  next
    case (2 x e w' w'')
    then show ?case using assms(1) by (auto intro!: assms(2) simp: idle_def fault_free_def Let_def)
  next
    case (3 x w' w'')
    let ?c = "if srv_open w then working w else committed w"
    have "?c \<in> D" using assms(1) by (auto simp: idle_def)
    then show ?case
      using 3 assms(1) by (auto intro!: assms(3) [of ?c] simp: wp_def active_def idle_def fault_free_def Let_def)
  qed
  moreover have "EnsureTxn w = tx_bind BeginRepeatableRead (\<lambda>_ w'. Some (Inr (), w'\<lparr>inTxn := True\<rparr>)) w"
    using assms(1) by (simp add: EnsureTxn_def idle_def)
  ultimately show ?thesis by (simp add: wp_def)
qed

text \<open>A statement that reads and writes only the working database.\<close>

definition on_working :: "(database \<Rightarrow> ('a \<times> database) result) \<Rightarrow> 'a tx" where
  "on_working g = statement (\<lambda>w. rbind (g (working w)) (\<lambda>(x, db). Inr (x, w\<lparr>working := db\<rparr>)))"

lemma Conn_Query_on_working: "Conn_Query sel = on_working (\<lambda>db. Inr (sel db, db))"
  by (simp add: Conn_Query_def on_working_def)

lemma Conn_Execute_on_working:
  "Conn_Execute upd = on_working (\<lambda>db. rbind (upd db) (\<lambda>db'. Inr ((), db')))"
proof -
  have "rbind (upd (working w)) (\<lambda>db. Inr ((), w\<lparr>working := db\<rparr>))
     = rbind (rbind (upd (working w)) (\<lambda>db'. Inr ((), db'))) (\<lambda>(x, db). Inr (x, w\<lparr>working := db\<rparr>))" for w :: world
    by (cases "upd (working w)") simp_all
  then show ?thesis by (simp add: Conn_Execute_def on_working_def)
qed

lemma wp_on_working:
  assumes "active F D db w"
    and "\<And>e db' w'. \<not> F \<or> g db = Inl e \<Longrightarrow> active F D db' w' \<Longrightarrow> Q (Inl e) w'"
    and "\<And>x db' w'. g db = Inr (x, db') \<Longrightarrow> active F D db' w' \<Longrightarrow> Q (Inr x) w'"
  shows "wp (on_working g) Q w"
  unfolding on_working_def
proof (rule wp_statement, goal_cases)
  case (1 e w')
  have "active F D db w'" using assms(1) 1(1) by (auto simp: active_def fault_free_def)
  moreover have "\<not> F \<or> g db = Inl e"
    using 1 assms(1) by (auto simp: active_def rbind_def fault_free_def split: sum.splits prod.splits)
  ultimately show ?case by (intro assms(2))
next
  case (2 x e w' w'')
  then obtain db' where db': "g db = Inr (x, db')" "w'' = w'\<lparr>working := db'\<rparr>"
    using assms(1) by (auto simp: active_def rbind_def split: sum.splits prod.splits)
  then have "active F D db' w''" using assms(1) 2(1,2) by (auto simp: active_def fault_free_def)
  moreover have "\<not> F" using 2(2) assms(1) by (auto simp: active_def)
  ultimately show ?case using assms(2) by blast
next
  case (3 x w' w'')
  then obtain db' where db': "g db = Inr (x, db')" "w'' = w'\<lparr>working := db'\<rparr>"
    using assms(1) by (auto simp: active_def rbind_def split: sum.splits prod.splits)
  then have "active F D db' w''" using assms(1) 3(1) by (auto simp: active_def fault_free_def)
  then show ?case using assms(3) db'(1) by blast
qed

lemma active_reset: "active F D db w \<Longrightarrow> idle F D (ResetTxnOnError w)"
  by (auto simp: active_def idle_def ResetTxnOnError_def Conn_Rollback_def fault_free_def)

lemma idle_reset [simp]: "idle F D w \<Longrightarrow> ResetTxnOnError w = w"
  by (simp add: idle_def ResetTxnOnError_def)

definition in_session :: "(database \<Rightarrow> ('a \<times> database) result) \<Rightarrow> 'a tx" where
  "in_session g = tx_on_error (tx_bind CheckShutdown (\<lambda>_. tx_bind EnsureTxn (\<lambda>_. on_working g))) ResetTxnOnError"

lemma wp_in_session_active:
  assumes a: "active F D db w"
    and err: "\<And>e w'. \<not> F \<or> g db = Inl e \<Longrightarrow> idle F D w' \<Longrightarrow> Q (Inl e) w'"
    and ok: "\<And>x db' w'. g db = Inr (x, db') \<Longrightarrow> active F D db' w' \<Longrightarrow> Q (Inr x) w'"
  shows "wp (in_session g) Q w"
  unfolding in_session_def
proof (rule wp_on_error, cases "shutdownFlag w")
  case True
  then have "\<not> F" using a by (auto simp: active_def fault_free_def)
  then show "wp (tx_bind CheckShutdown (\<lambda>_. tx_bind EnsureTxn (\<lambda>_. on_working g)))
     (\<lambda>r w'. case r of Inl e \<Rightarrow> Q (Inl e) (ResetTxnOnError w') | Inr x \<Rightarrow> Q (Inr x) w') w"
    using True err [OF _ active_reset [OF a]] by (simp add: wp_def tx_bind_def CheckShutdown_def)
next
  case False
  have "EnsureTxn w = Some (Inr (), w)" using a by (simp add: EnsureTxn_def active_def)
  then have "tx_bind CheckShutdown (\<lambda>_. tx_bind EnsureTxn (\<lambda>_. on_working g)) w = on_working g w"
    using False by (simp add: tx_bind_def CheckShutdown_def)
  moreover have "wp (on_working g) (\<lambda>r w'. case r of Inl e \<Rightarrow> Q (Inl e) (ResetTxnOnError w') | Inr x \<Rightarrow> Q (Inr x) w') w"
    using err ok by (intro wp_on_working [OF a]) (auto dest: active_reset)
  ultimately show "wp (tx_bind CheckShutdown (\<lambda>_. tx_bind EnsureTxn (\<lambda>_. on_working g)))
     (\<lambda>r w'. case r of Inl e \<Rightarrow> Q (Inl e) (ResetTxnOnError w') | Inr x \<Rightarrow> Q (Inr x) w') w"
    by (simp add: wp_def)
qed

lemma wp_in_session_idle:
  assumes i: "idle F D w"
    and err: "\<And>e db w'. \<not> F \<or> (db \<in> D \<and> g db = Inl e) \<Longrightarrow> idle F D w' \<Longrightarrow> Q (Inl e) w'"
    and ok: "\<And>x db db' w'. db \<in> D \<Longrightarrow> g db = Inr (x, db') \<Longrightarrow> active F D db' w' \<Longrightarrow> Q (Inr x) w'"
  shows "wp (in_session g) Q w"
  unfolding in_session_def
proof (rule wp_on_error, cases "shutdownFlag w")
  case True
  then have "\<not> F" using i by (auto simp: idle_def fault_free_def)
  then show "wp (tx_bind CheckShutdown (\<lambda>_. tx_bind EnsureTxn (\<lambda>_. on_working g)))
     (\<lambda>r w'. case r of Inl e \<Rightarrow> Q (Inl e) (ResetTxnOnError w') | Inr x \<Rightarrow> Q (Inr x) w') w"
    using True err [OF _ i] i by (simp add: wp_def tx_bind_def CheckShutdown_def)
next
  case False
  let ?R = "\<lambda>r w'. case r of Inl e \<Rightarrow> Q (Inl e) (ResetTxnOnError w') | Inr x \<Rightarrow> Q (Inr x) w'"
  have "wp (tx_bind EnsureTxn (\<lambda>_. on_working g)) ?R w"
  proof (rule wp_bindI, rule wp_EnsureTxn_idle [OF i], goal_cases)
    case (1 e w')
    then show ?case using err [of undefined e w'] by simp
  next
    case (2 db w')
    have "wp (on_working g) ?R w'"
      using err [of db] ok [of db] 2(1) by (intro wp_on_working [OF 2(2)]) (auto dest: active_reset)
    then show ?case by simp
  qed
  then show "wp (tx_bind CheckShutdown (\<lambda>_. tx_bind EnsureTxn (\<lambda>_. on_working g))) ?R w"
    using False by (simp add: wp_def tx_bind_def CheckShutdown_def)
qed

lemma ExecuteQuery_in_session: "ExecuteQuery sel = in_session (\<lambda>db. Inr (sel db, db))"
  by (simp add: ExecuteQuery_def in_session_def Conn_Query_on_working)

lemma ExecuteModify_in_session: "ExecuteModify upd = in_session (\<lambda>db. rbind (upd db) (\<lambda>db'. Inr ((), db')))"
  by (simp add: ExecuteModify_def in_session_def Conn_Execute_on_working)

text \<open>The rules the transaction proofs use, for a bind whose first action is a session operation.\<close>

lemma wp_query_idle:
  assumes "idle F D w" "\<And>e w'. \<not> F \<Longrightarrow> idle F D w' \<Longrightarrow> Q (Inl e) w'"
    and "\<And>db w'. db \<in> D \<Longrightarrow> active F D db w' \<Longrightarrow> wp (f (sel db)) Q w'"
  shows "wp (tx_bind (ExecuteQuery sel) f) Q w"
  unfolding ExecuteQuery_in_session using assms(2,3)
  by (intro wp_bindI wp_in_session_idle [OF assms(1)]) auto

lemma wp_query:
  assumes "active F D db w" "\<And>e w'. \<not> F \<Longrightarrow> idle F D w' \<Longrightarrow> Q (Inl e) w'"
    and "\<And>w'. active F D db w' \<Longrightarrow> wp (f (sel db)) Q w'"
  shows "wp (tx_bind (ExecuteQuery sel) f) Q w"
  unfolding ExecuteQuery_in_session using assms(2,3)
  by (intro wp_bindI wp_in_session_active [OF assms(1)]) auto

lemma wp_modify:
  assumes "active F D db w" "\<And>e w'. \<not> F \<or> upd db = Inl e \<Longrightarrow> idle F D w' \<Longrightarrow> Q (Inl e) w'"
    and "\<And>db' w'. upd db = Inr db' \<Longrightarrow> active F D db' w' \<Longrightarrow> wp (f ()) Q w'"
  shows "wp (tx_bind (ExecuteModify upd) f) Q w"
  unfolding ExecuteModify_in_session
proof (rule wp_bindI, rule wp_in_session_active [OF assms(1)], goal_cases)
  case (1 e w')
  then have "\<not> F \<or> upd db = Inl e" by (auto simp: rbind_def split: sum.splits)
  then show ?case using assms(2) 1(2) by simp
next
  case (2 x db' w')
  then have "upd db = Inr db'" "x = ()" by (auto simp: rbind_def split: sum.splits)
  then show ?case using assms(3) 2(2) by simp
qed

text \<open>A modification whose statement reads the clock.\<close>

lemma wp_modify_now:
  assumes "active F D db w" "\<And>e w'. \<not> F \<or> upd (now w) db = Inl e \<Longrightarrow> idle F D w' \<Longrightarrow> Q (Inl e) w'"
    and "\<And>db' w'. upd (now w) db = Inr db' \<Longrightarrow> active F D db' w' \<Longrightarrow> wp (f ()) Q w'"
  shows "wp (tx_bind (\<lambda>w. ExecuteModify (upd (now w)) w) f) Q w"
proof -
  have "tx_bind (\<lambda>w. ExecuteModify (upd (now w)) w) f w = tx_bind (ExecuteModify (upd (now w))) f w"
    by (simp add: tx_bind_def)
  moreover have "wp (tx_bind (ExecuteModify (upd (now w))) f) Q w"
    using assms(2,3) by (intro wp_modify [OF assms(1)])
  ultimately show ?thesis by (simp add: wp_def)
qed

lemma wp_commit:
  assumes a: "active F D db w" and db: "db \<in> D"
    and err: "\<And>e w'. \<not> F \<Longrightarrow> idle F D w' \<Longrightarrow> Q (Inl e) w'"
    and ok: "\<And>w'. idle F D w' \<Longrightarrow> committed w' = db \<Longrightarrow> wp (f ()) Q w'"
  shows "wp (tx_bind Commit f) Q w"
proof -
  let ?R = "\<lambda>r w'. case r of Inl e \<Rightarrow> Q (Inl e) w' | Inr x \<Rightarrow> wp (f x) Q w'"
  let ?S = "\<lambda>r w'. case r of Inl e \<Rightarrow> ?R (Inl e) (w'\<lparr>inTxn := False\<rparr>) | Inr x \<Rightarrow> ?R (Inr x) w'"
  let ?m = "tx_bind CheckShutdown (\<lambda>_ w. if inTxn w
        then tx_bind Conn_Commit (\<lambda>_ w'. Some (Inr (), w'\<lparr>inTxn := False\<rparr>)) w else Some (Inr (), w))"
  have "wp ?m ?S w"
  proof (cases "shutdownFlag w")
    case True
    then have "\<not> F" "idle F D (w\<lparr>inTxn := False\<rparr>)"
      using a db by (auto simp: active_def idle_def fault_free_def)
    then show ?thesis using True err by (simp add: wp_def tx_bind_def CheckShutdown_def)
  next
    case False
    have "wp (tx_bind Conn_Commit (\<lambda>_ w'. Some (Inr (), w'\<lparr>inTxn := False\<rparr>))) ?S w"
      unfolding Conn_Commit_def
    proof (rule wp_bindI, rule wp_statement, goal_cases)
      case (1 e w')
      then show ?case using a db by (auto intro!: err simp: active_def idle_def)
    next
      case (2 x e w' w'')
      then show ?case using a db by (auto intro!: err simp: active_def idle_def split: if_splits)
    next
      case (3 x w' w'')
      then have "idle F D (w''\<lparr>inTxn := False\<rparr>)" "committed (w''\<lparr>inTxn := False\<rparr>) = db"
        using a db by (auto simp: active_def idle_def fault_free_def split: if_splits)
      from ok [OF this] show ?case by (simp add: wp_def split: sum.splits)
    qed
    then show ?thesis using False a by (simp add: wp_def tx_bind_def CheckShutdown_def active_def)
  qed
  then show ?thesis unfolding Commit_def by - (rule wp_bindI, rule wp_on_error)
qed

lemma active_mono: "active F D db w \<Longrightarrow> D \<subseteq> D' \<Longrightarrow> active F D' db w"
  and idle_mono: "idle F D w \<Longrightarrow> D \<subseteq> D' \<Longrightarrow> idle F D' w"
  by (auto simp: active_def idle_def)

text \<open>The end of a transaction: \<open>COMMIT\<close>, then \<open>co_return true\<close>.\<close>

lemma wp_commit_true:
  assumes "active F D db w" "D \<subseteq> D'" "db \<in> D'"
    and "\<And>e w'. \<not> F \<Longrightarrow> idle F D' w' \<Longrightarrow> Q (Inl e) w'"
    and "\<And>w'. idle F D' w' \<Longrightarrow> committed w' = db \<Longrightarrow> Q (Inr True) w'"
  shows "wp (tx_bind Commit (\<lambda>_. tx_return True)) Q w"
  using assms(4,5) by (intro wp_commit [OF active_mono [OF assms(1,2)] assms(3)]) auto

lemma wp_rollback:
  assumes "active F D db w"
    and "\<And>w'. idle F D w' \<Longrightarrow> wp (f ()) Q w'"
  shows "wp (tx_bind Rollback f) Q w"
  using assms by (auto simp: wp_bind wp_def [of Rollback] Rollback_def active_def idle_def Conn_Rollback_def
      fault_free_def)

lemma wp_stop: "wp (f ()) Q (w\<lparr>stopError := True\<rparr>) \<Longrightarrow> wp (tx_bind RequestStopWithError f) Q w"
  by (simp add: wp_bind wp_def [of RequestStopWithError] RequestStopWithError_def)

lemma wp_drawI:
  assumes "\<And>x s. r (rng w) = Some (x, s) \<Longrightarrow> wp (f x) Q (w\<lparr>rng := s\<rparr>)"
  shows "wp (tx_bind (draw r) f) Q w"
  using assms by (intro wp_bindI wp_draw) auto

lemma wp_drawI2:
  assumes "\<And>x y s. r (rng w) = Some ((x, y), s) \<Longrightarrow> wp (f x y) Q (w\<lparr>rng := s\<rparr>)"
  shows "wp (tx_bind (draw r) (\<lambda>(x, y). f x y)) Q w"
  using assms by (intro wp_drawI) auto

lemma ReleaseConnection_idle:
  "idle F D w \<Longrightarrow> ReleaseConnection w = w"
  "active F D db w \<Longrightarrow> idle F D (ReleaseConnection w)"
  by (auto simp: ReleaseConnection_def idle_def active_def Conn_Rollback_def fault_free_def)

section \<open>Session operations return\<close>

definition returns :: "'a tx \<Rightarrow> bool" where
  "returns m \<longleftrightarrow> (\<forall>w. m w \<noteq> None)"

named_theorems returns_rules \<open>programs that always return\<close>

lemma returns_basic [returns_rules]:
  "returns (tx_return x)" "returns (tx_throw e)" "returns (tx_lift r)" "returns Rollback" "returns RequestStopWithError"
  "returns CheckShutdown" "returns (statement f)"
  by (auto simp: returns_def tx_return_def tx_throw_def tx_lift_def Rollback_def RequestStopWithError_def CheckShutdown_def
      statement_def split: prod.splits fault.splits sum.splits)

lemma returns_bind [returns_rules]: "returns m \<Longrightarrow> (\<And>x. returns (f x)) \<Longrightarrow> returns (tx_bind m f)"
  by (fastforce simp: returns_def tx_bind_def split: option.splits sum.splits)

lemma returns_on_error: "returns m \<Longrightarrow> returns (tx_on_error m h)"
  unfolding returns_def tx_on_error_def by (auto split: option.splits sum.splits)

lemma returns_EnsureTxn: "returns EnsureTxn"
proof -
  have "returns (tx_bind BeginRepeatableRead (\<lambda>_ w'. Some (Inr (), w'\<lparr>inTxn := True\<rparr>)))"
    unfolding BeginRepeatableRead_def by (intro returns_rules) (simp add: returns_def)
  then show ?thesis by (auto simp: returns_def EnsureTxn_def)
qed

lemma returns_session [returns_rules]:
  "returns (ExecuteQuery sel)" "returns (ExecuteModify upd)" "returns Commit" "returns (\<lambda>w. ExecuteModify (g (now w)) w)"
proof -
  show q: "returns (ExecuteQuery sel)"
    unfolding ExecuteQuery_def Conn_Query_def by (intro returns_on_error returns_rules returns_EnsureTxn)
  show m: "returns (ExecuteModify upd)" for upd
    unfolding ExecuteModify_def Conn_Execute_def by (intro returns_on_error returns_rules returns_EnsureTxn)
  have "returns (tx_bind Conn_Commit (\<lambda>_ w'. Some (Inr (), w'\<lparr>inTxn := False\<rparr>)))"
    unfolding Conn_Commit_def by (intro returns_rules) (simp add: returns_def)
  then have "returns (\<lambda>w. if inTxn w then tx_bind Conn_Commit (\<lambda>_ w'. Some (Inr (), w'\<lparr>inTxn := False\<rparr>)) w else Some (Inr (), w))"
    by (auto simp: returns_def)
  then show "returns Commit" unfolding Commit_def by (intro returns_on_error returns_rules)
  show "returns (\<lambda>w. ExecuteModify (g (now w)) w)" using m by (simp add: returns_def)
qed

end
