(* ===== verification/Transactions.thy ===== *)
theory Transactions
  imports Session
begin

text \<open>
  The five TPC-C transactions and the simulated one (\<open>src/src/transaction_*.cpp\<close>) with the
  shared customer lookups (\<open>src/src/common_queries.cpp\<close>), as programs over \<open>Session\<close>: each
  \<open>co_await\<close> of a session future is a bind, \<open>co_return\<close> a return, \<open>throw\<close> a throw. The
  coroutine's suspension, the latency measurement and the logging are left out. Money held
  in a \<open>double\<close> is an integer number of cents: every amount starts as a \<open>DECIMAL(n, 2)\<close>
  column or a whole number of cents and ends in such a column.
\<close>

section \<open>Context and formatting\<close>

record TTransactionContext =
  WarehouseID :: int
  WarehouseCount :: int
  SimulateTransactionMs :: int
  SimulateTransactionSelect1 :: int

fun nat_str :: "nat \<Rightarrow> string" where
  "nat_str n = (if n < 10 then [char_of (48 + n)] else nat_str (n div 10) @ [char_of (48 + n mod 10)])"

declare nat_str.simps [simp del]

definition int_str :: "int \<Rightarrow> string" where
  "int_str i = (if i < 0 then ''-'' @ nat_str (nat (- i)) else nat_str (nat i))"

text \<open>\<open>{:.2f}\<close> of a non-negative amount in cents.\<close>

definition money_str :: "money \<Rightarrow> string" where
  "money_str a = int_str (a div 100) @ ''.'' @
     [char_of (48 + nat (a div 10 mod 10)), char_of (48 + nat (a mod 10))]"

section \<open>Customer lookups\<close>

record TCustomer =
  tc_id :: int
  tc_first :: string
  tc_middle :: string
  tc_last :: string
  tc_street_1 :: string
  tc_street_2 :: string
  tc_city :: string
  tc_state :: string
  tc_zip :: string
  tc_phone :: string
  tc_credit :: string
  tc_data :: string
  tc_credit_lim :: money
  tc_discount :: int
  tc_balance :: money
  tc_ytd_payment :: money
  tc_payment_cnt :: int
  tc_since :: timestamp

definition ParseCustomerFromResult :: "customer_row \<Rightarrow> TCustomer" where
  "ParseCustomerFromResult r = \<lparr>tc_id = C_INVALID_CUSTOMER_ID, tc_first = c_first r,
     tc_middle = c_middle r, tc_last = [], tc_street_1 = c_street_1 r, tc_street_2 = c_street_2 r,
     tc_city = c_city r, tc_state = c_state r, tc_zip = c_zip r, tc_phone = c_phone r,
     tc_credit = c_credit r, tc_data = [], tc_credit_lim = c_credit_lim r,
     tc_discount = c_discount r, tc_balance = c_balance r, tc_ytd_payment = c_ytd_payment r,
     tc_payment_cnt = c_payment_cnt r, tc_since = c_since r\<rparr>"

text \<open>The index of the middle row, position \<open>n / 2\<close> rounded up (1-based).\<close>

definition middle_index :: "nat \<Rightarrow> nat" where
  "middle_index n = (let index = n div 2 in if n mod 2 = 0 \<and> 0 < index then index - 1 else index)"

definition SelectCustomerFromResultSet :: "customer_row list \<Rightarrow> TCustomer option" where
  "SelectCustomerFromResultSet rows =
     (let customers = map (\<lambda>r. (ParseCustomerFromResult r)\<lparr>tc_id := c_id r, tc_last := c_last r\<rparr>) rows in
      if customers = [] then None else Some (customers ! middle_index (length customers)))"

definition GetCustomerById :: "int \<Rightarrow> int \<Rightarrow> int \<Rightarrow> bool \<Rightarrow> customer_row list tx" where
  "GetCustomerById w d c forUpdate = ExecuteQuery (if forUpdate
     then sem_CustomerSelectByIdForUpdate w d c else sem_CustomerSelectById w d c)"

definition GetCustomersByLastName :: "int \<Rightarrow> int \<Rightarrow> string \<Rightarrow> bool \<Rightarrow> customer_row list tx" where
  "GetCustomersByLastName w d name forUpdate world = ExecuteQuery (if forUpdate
     then sem_CustomerSelectByLastNameForUpdate (coll world) w d name
     else sem_CustomerSelectByLastName (coll world) w d name) world"

section \<open>NewOrder\<close>

text \<open>\<open>do { id = RandomNumber(1, count) } while (id == own && count > 1)\<close>.\<close>

partial_function (option) other_warehouse :: "int \<Rightarrow> int \<Rightarrow> u64 \<Rightarrow> (int \<times> u64) option" where
  "other_warehouse own cnt s = (case RandomInt 1 cnt s of None \<Rightarrow> None
     | Some (x, s') \<Rightarrow> if x = own \<and> 1 < cnt then other_warehouse own cnt s' else Some (x, s'))"

declare other_warehouse.simps [code]

text \<open>The order lines \<open>(itemID, supplierWarehouseID, quantity)\<close> and the flag \<open>allLocal\<close>.\<close>

fun gen_lines :: "int \<Rightarrow> int \<Rightarrow> nat \<Rightarrow> ((int \<times> int \<times> int) list \<times> int) rnd" where
  "gen_lines own cnt 0 = ret ([], 1)"
| "gen_lines own cnt (Suc n) =
     rnd_bind GetRandomItemID (\<lambda>iid.
     rnd_bind (RandomInt 1 100) (\<lambda>p.
     rnd_bind (if 1 < p then ret own else other_warehouse own cnt) (\<lambda>supw.
     rnd_bind (RandomInt 1 10) (\<lambda>qty.
     rnd_bind (gen_lines own cnt n) (\<lambda>(ls, loc).
       ret ((iid, supw, qty) # ls, if 1 < p then loc else 0))))))"

text \<open>\<open>itemIDs[numItems - 1] = INVALID_ITEM_ID\<close>.\<close>

definition invalidate_last :: "(int \<times> int \<times> int) list \<Rightarrow> (int \<times> int \<times> int) list" where
  "invalidate_last ls = (if ls = [] then [] else
     butlast ls @ [(INVALID_ITEM_ID, snd (last ls))])"

fun item_loop :: "(int \<times> int \<times> int) list \<Rightarrow> (int \<rightharpoonup> money) \<Rightarrow> (int \<rightharpoonup> money) tx" where
  "item_loop [] prices = tx_return prices"
| "item_loop ((iid, supw, qty) # ls) prices = (if iid = INVALID_ITEM_ID then item_loop ls prices
     else tx_bind (ExecuteQuery (sem_NewOrderSelectItem iid)) (\<lambda>rows.
       item_loop ls (case rows of [] \<Rightarrow> prices | r # _ \<Rightarrow> prices(iid \<mapsto> i_price r))))"

fun stock_loop :: "(int \<times> int \<times> int) list \<Rightarrow> (int \<times> int \<rightharpoonup> stock_row) \<Rightarrow> (int \<times> int \<rightharpoonup> stock_row) tx" where
  "stock_loop [] stocks = tx_return stocks"
| "stock_loop ((iid, supw, qty) # ls) stocks = (if stocks (supw, iid) \<noteq> None then stock_loop ls stocks
     else tx_bind (ExecuteQuery (sem_NewOrderSelectStockForUpdate supw iid)) (\<lambda>rows.
       stock_loop ls (case rows of [] \<Rightarrow> stocks | r # _ \<Rightarrow> stocks((supw, iid) \<mapsto> r))))"

definition GetDistInfo :: "int \<Rightarrow> stock_row \<Rightarrow> string" where
  "GetDistInfo districtID s =
     (if districtID = 1 then s_dist_01 s else if districtID = 2 then s_dist_02 s
      else if districtID = 3 then s_dist_03 s else if districtID = 4 then s_dist_04 s
      else if districtID = 5 then s_dist_05 s else if districtID = 6 then s_dist_06 s
      else if districtID = 7 then s_dist_07 s else if districtID = 8 then s_dist_08 s
      else if districtID = 9 then s_dist_09 s else if districtID = 10 then s_dist_10 s else [])"

definition new_quantity :: "int \<Rightarrow> int \<Rightarrow> int" where
  "new_quantity q qty = (if q - qty \<ge> 10 then q - qty else q + (- qty + 91))"

text \<open>The order-line loop; \<open>False\<close> is the early \<open>co_return false\<close>.\<close>

fun line_loop ::
  "int \<Rightarrow> int \<Rightarrow> int \<Rightarrow> (int \<rightharpoonup> money) \<Rightarrow> int \<Rightarrow> (int \<times> int \<times> int) list \<Rightarrow> (int \<times> int \<rightharpoonup> stock_row) \<Rightarrow> bool tx" where
  "line_loop wid did oid prices olNum [] stocks = tx_return True"
| "line_loop wid did oid prices olNum ((iid, supw, qty) # ls) stocks =
     (case prices iid of
        None \<Rightarrow> tx_bind RequestStopWithError (\<lambda>_. tx_return False)
      | Some iPrice \<Rightarrow>
        (case stocks (supw, iid) of
           None \<Rightarrow> tx_bind RequestStopWithError (\<lambda>_. tx_return False)
         | Some stock0 \<Rightarrow>
           let olAmount = qty * iPrice;
               stock1 = stock0\<lparr>s_quantity := new_quantity (s_quantity stock0) qty\<rparr> in
           tx_bind (ExecuteModify (sem_NewOrderUpdateStock (s_quantity stock1) qty
             (if supw = wid then 0 else 1) supw iid)) (\<lambda>_.
           tx_bind (ExecuteModify (sem_NewOrderInsertOrderLine wid did oid olNum iid olAmount supw qty
             (GetDistInfo did stock1))) (\<lambda>_.
           line_loop wid did oid prices (olNum + 1) ls (stocks((supw, iid) \<mapsto> stock1))))))"

text \<open>The part behind the order header: items, stock, lines and the commit.\<close>

definition new_order_body ::
  "int \<Rightarrow> int \<Rightarrow> int \<Rightarrow> (int \<times> int \<times> int) list \<Rightarrow> bool \<Rightarrow> bool tx" where
  "new_order_body wid did oid ls hasInvalidItem =
     tx_bind (item_loop ls Map.empty) (\<lambda>prices.
     if hasInvalidItem then tx_bind Rollback (\<lambda>_. tx_throw UserAborted)
     else tx_bind (stock_loop ls Map.empty) (\<lambda>stocks.
       tx_bind (line_loop wid did oid prices 1 ls stocks) (\<lambda>ok.
       if ok then tx_bind Commit (\<lambda>_. tx_return True) else tx_return False)))"

definition new_order_tx ::
  "int \<Rightarrow> int \<Rightarrow> int \<Rightarrow> (int \<times> int \<times> int) list \<Rightarrow> int \<Rightarrow> bool \<Rightarrow> bool tx" where
  "new_order_tx wid did cid ls allLocal hasInvalidItem =
     tx_bind (ExecuteQuery (sem_NewOrderSelectCustomer wid did cid)) (\<lambda>_.
     tx_bind (ExecuteQuery (sem_NewOrderSelectWarehouseTax wid)) (\<lambda>_.
     tx_bind (ExecuteQuery (sem_NewOrderSelectDistrictForUpdate wid did)) (\<lambda>dist.
     case dist of [] \<Rightarrow> tx_bind RequestStopWithError (\<lambda>_. tx_return False)
     | dr # _ \<Rightarrow>
       let nextOrderID = d_next_o_id dr in
       tx_bind (ExecuteModify (sem_NewOrderUpdateDistrict wid did)) (\<lambda>_.
       tx_bind (\<lambda>w. ExecuteModify (sem_NewOrderInsertOorder (now w) wid did nextOrderID cid
         (int (length ls)) allLocal) w) (\<lambda>_.
       tx_bind (ExecuteModify (sem_NewOrderInsertNewOrder wid did nextOrderID)) (\<lambda>_.
       new_order_body wid did nextOrderID ls hasInvalidItem))))))"

definition GetNewOrderTask :: "TTransactionContext \<Rightarrow> bool tx" where
  "GetNewOrderTask ctx =
     tx_bind (draw (RandomInt DISTRICT_LOW_ID DISTRICT_HIGH_ID)) (\<lambda>did.
     tx_bind (draw GetRandomCustomerID) (\<lambda>cid.
     tx_bind (draw (RandomInt MIN_ITEMS MAX_ITEMS)) (\<lambda>numItems.
     tx_bind (draw (gen_lines (WarehouseID ctx) (WarehouseCount ctx) (nat numItems))) (\<lambda>(ls, allLocal).
     tx_bind (draw (RandomInt 1 100)) (\<lambda>p.
     let hasInvalidItem = (p = 1) in
     new_order_tx (WarehouseID ctx) did cid (if hasInvalidItem then invalidate_last ls else ls)
       allLocal hasInvalidItem)))))"

section \<open>Payment\<close>

text \<open>\<open>customer.c_credit == "BC"\<close> or not; \<open>newData\<close> is cut at 500, \<open>historyData\<close> at 24 characters.\<close>

definition bc_data :: "int \<Rightarrow> int \<Rightarrow> int \<Rightarrow> int \<Rightarrow> int \<Rightarrow> money \<Rightarrow> string \<Rightarrow> string" where
  "bc_data cid cdid cwid did wid amount cData =
     (let newData = int_str cid @ '' '' @ int_str cdid @ '' '' @ int_str cwid @ '' '' @ int_str did
        @ '' '' @ int_str wid @ '' '' @ money_str amount @ '' | '' @ cData in
      if 500 < length newData then take 500 newData else newData)"

definition payment_update_customer ::
  "TCustomer \<Rightarrow> int \<Rightarrow> int \<Rightarrow> int \<Rightarrow> int \<Rightarrow> money \<Rightarrow> unit tx" where
  "payment_update_customer cust cwid cdid wid did amount =
     (if tc_credit cust = ''BC'' then
        tx_bind (ExecuteQuery (sem_PaymentSelectCustomerData cwid cdid (tc_id cust))) (\<lambda>rows.
        let cData = (case rows of [] \<Rightarrow> [] | r # _ \<Rightarrow> c_data r);
            newData = bc_data (tc_id cust) cdid cwid did wid amount cData in
        ExecuteModify (sem_PaymentUpdateCustomerBc amount amount newData cwid cdid (tc_id cust)))
      else ExecuteModify (sem_PaymentUpdateCustomer amount amount cwid cdid (tc_id cust)))"

definition history_data :: "string \<Rightarrow> string \<Rightarrow> string" where
  "history_data warehouseName districtName =
     (let historyData = warehouseName @ ''    '' @ districtName in
      if 24 < length historyData then take 24 historyData else historyData)"

text \<open>The customer lookup shared by Payment and OrderStatus; \<open>None\<close> is the early \<open>co_return false\<close>.\<close>

definition lookup_customer :: "int \<Rightarrow> int \<Rightarrow> bool \<Rightarrow> bool \<Rightarrow> TCustomer option tx" where
  "lookup_customer wid did byName forUpdate =
     (if byName then
        tx_bind (draw GetNonUniformRandomLastNameForRun) (\<lambda>res.
        tx_bind (tx_lift res) (\<lambda>lastName.
        tx_bind (GetCustomersByLastName wid did lastName forUpdate) (\<lambda>rows.
        case SelectCustomerFromResultSet rows of
          None \<Rightarrow> tx_bind RequestStopWithError (\<lambda>_. tx_return None)
        | Some c \<Rightarrow> tx_return (Some c))))
      else
        tx_bind (draw GetRandomCustomerID) (\<lambda>customerID.
        tx_bind (GetCustomerById wid did customerID forUpdate) (\<lambda>rows.
        case rows of [] \<Rightarrow> tx_bind RequestStopWithError (\<lambda>_. tx_return None)
        | r # _ \<Rightarrow> tx_return (Some ((ParseCustomerFromResult r)\<lparr>tc_id := customerID\<rparr>)))))"

text \<open>The customer's warehouse and district: 85 in 100 the home district.\<close>

definition payment_customer_home :: "int \<Rightarrow> int \<Rightarrow> int \<Rightarrow> (int \<times> int) rnd" where
  "payment_customer_home wid did cnt =
     rnd_bind (RandomInt 1 100) (\<lambda>p.
     if p \<le> 85 then ret (wid, did)
     else rnd_bind (RandomInt DISTRICT_LOW_ID DISTRICT_HIGH_ID) (\<lambda>cd.
       rnd_bind (other_warehouse wid cnt) (\<lambda>cw. ret (cw, cd))))"

definition payment_finish ::
  "TCustomer \<Rightarrow> int \<Rightarrow> int \<Rightarrow> int \<Rightarrow> int \<Rightarrow> money \<Rightarrow> string \<Rightarrow> string \<Rightarrow> bool tx" where
  "payment_finish cust0 cwid cdid wid did amount warehouseName districtName =
     (let cust = cust0\<lparr>tc_balance := tc_balance cust0 - amount,
            tc_ytd_payment := tc_ytd_payment cust0 + amount, tc_payment_cnt := tc_payment_cnt cust0 + 1\<rparr> in
      tx_bind (payment_update_customer cust cwid cdid wid did amount) (\<lambda>_.
      tx_bind (\<lambda>w. ExecuteModify (sem_PaymentInsertHistory (now w) (tc_id cust) cdid cwid did wid amount
        (history_data warehouseName districtName)) w) (\<lambda>_.
      tx_bind Commit (\<lambda>_. tx_return True))))"

definition GetPaymentTask :: "TTransactionContext \<Rightarrow> bool tx" where
  "GetPaymentTask ctx =
     (let wid = WarehouseID ctx in
      tx_bind (draw (RandomInt DISTRICT_LOW_ID DISTRICT_HIGH_ID)) (\<lambda>did.
      tx_bind (draw (RandomInt 100 500000)) (\<lambda>amount.
      tx_bind (ExecuteQuery (sem_PaymentSelectWarehouseForUpdate wid)) (\<lambda>wh.
      case wh of [] \<Rightarrow> tx_bind RequestStopWithError (\<lambda>_. tx_return False)
      | wr # _ \<Rightarrow>
        tx_bind (ExecuteModify (sem_PaymentUpdateWarehouseYtd amount wid)) (\<lambda>_.
        tx_bind (ExecuteQuery (sem_PaymentSelectDistrictForUpdate wid did)) (\<lambda>dist.
        case dist of [] \<Rightarrow> tx_bind RequestStopWithError (\<lambda>_. tx_return False)
        | dr # _ \<Rightarrow>
          tx_bind (ExecuteModify (sem_PaymentUpdateDistrictYtd amount wid did)) (\<lambda>_.
          tx_bind (draw (payment_customer_home wid did (WarehouseCount ctx))) (\<lambda>(cwid, cdid).
          tx_bind (draw (RandomInt 1 100)) (\<lambda>p.
          tx_bind (lookup_customer cwid cdid (p \<le> 60) True) (\<lambda>cust.
          case cust of None \<Rightarrow> tx_return False
          | Some c \<Rightarrow> payment_finish c cwid cdid wid did amount (w_name wr) (d_name dr)))))))))))"

section \<open>Delivery\<close>

record TOrderData =
  OrderID :: int
  CustomerId :: int
  TotalAmount :: money
  OrderLineNumbers :: "int list"

text \<open>
  The reading loop over the districts; \<open>None\<close> is the early \<open>co_return false\<close>. The array
  \<open>orders\<close> is the list of its entries for the districts still to come.
\<close>

fun delivery_read :: "int \<Rightarrow> int list \<Rightarrow> (int \<times> TOrderData option) list option tx" where
  "delivery_read wid [] = tx_return (Some [])"
| "delivery_read wid (did # dids) =
     tx_bind (ExecuteQuery (sem_DeliverySelectNewOrderForUpdate did wid)) (\<lambda>no.
     case no of [] \<Rightarrow> tx_bind (delivery_read wid dids) (\<lambda>rest. tx_return (map_option ((#) (did, None)) rest))
     | oid # _ \<Rightarrow>
       tx_bind (ExecuteQuery (sem_DeliverySelectOrderCustomer wid did oid)) (\<lambda>cids.
       case cids of [] \<Rightarrow> tx_bind RequestStopWithError (\<lambda>_. tx_return None)
       | cid # _ \<Rightarrow>
         tx_bind (ExecuteQuery (sem_DeliverySelectOrderLines wid did oid)) (\<lambda>lines.
         let order = \<lparr>OrderID = oid, CustomerId = cid, TotalAmount = sum_list (map snd lines),
               OrderLineNumbers = map fst lines\<rparr> in
         if OrderLineNumbers order = [] then tx_bind RequestStopWithError (\<lambda>_. tx_return None)
         else tx_bind (delivery_read wid dids) (\<lambda>rest. tx_return (map_option ((#) (did, Some order)) rest)))))"

fun delivery_write :: "int \<Rightarrow> int \<Rightarrow> (int \<times> TOrderData option) list \<Rightarrow> unit tx" where
  "delivery_write wid carrier [] = tx_return ()"
| "delivery_write wid carrier ((did, None) # orders) = delivery_write wid carrier orders"
| "delivery_write wid carrier ((did, Some order) # orders) =
     tx_bind (ExecuteModify (sem_DeliveryDeleteNewOrder wid did (OrderID order))) (\<lambda>_.
     tx_bind (ExecuteModify (sem_DeliveryUpdateCarrier carrier wid did (OrderID order))) (\<lambda>_.
     tx_bind (\<lambda>w. ExecuteModify (sem_DeliveryUpdateOrderLineDelivery (now w) wid did (OrderID order)) w) (\<lambda>_.
     tx_bind (ExecuteModify (sem_DeliveryUpdateCustomerBalance (TotalAmount order) wid did (CustomerId order))) (\<lambda>_.
     delivery_write wid carrier orders))))"

definition GetDeliveryTask :: "TTransactionContext \<Rightarrow> bool tx" where
  "GetDeliveryTask ctx =
     tx_bind (draw (RandomInt 1 10)) (\<lambda>carrierID.
     tx_bind (delivery_read (WarehouseID ctx) [DISTRICT_LOW_ID..DISTRICT_HIGH_ID]) (\<lambda>orders.
     case orders of None \<Rightarrow> tx_return False
     | Some os \<Rightarrow> tx_bind (delivery_write (WarehouseID ctx) carrierID os) (\<lambda>_.
         tx_bind Commit (\<lambda>_. tx_return True))))"

section \<open>OrderStatus, StockLevel and the simulated transaction\<close>

definition GetOrderStatusTask :: "TTransactionContext \<Rightarrow> bool tx" where
  "GetOrderStatusTask ctx =
     (let wid = WarehouseID ctx in
      tx_bind (draw (RandomInt DISTRICT_LOW_ID DISTRICT_HIGH_ID)) (\<lambda>did.
      tx_bind (draw (RandomInt 1 100)) (\<lambda>p.
      tx_bind (lookup_customer wid did (p \<le> 60) False) (\<lambda>cust.
      case cust of None \<Rightarrow> tx_return False
      | Some c \<Rightarrow>
        tx_bind (ExecuteQuery (sem_OrderStatusSelectLatestOrder wid did (tc_id c))) (\<lambda>ord.
        case ord of [] \<Rightarrow> tx_bind Commit (\<lambda>_. tx_return True)
        | r # _ \<Rightarrow>
          tx_bind (ExecuteQuery (sem_OrderStatusSelectOrderLines wid did (o_id r))) (\<lambda>_.
          tx_bind Commit (\<lambda>_. tx_return True)))))))"

definition GetStockLevelTask :: "TTransactionContext \<Rightarrow> bool tx" where
  "GetStockLevelTask ctx =
     (let wid = WarehouseID ctx in
      tx_bind (draw (RandomInt DISTRICT_LOW_ID DISTRICT_HIGH_ID)) (\<lambda>did.
      tx_bind (draw (RandomInt 10 20)) (\<lambda>threshold.
      tx_bind (ExecuteQuery (sem_StockLevelSelectDistrict wid did)) (\<lambda>dist.
      case dist of [] \<Rightarrow> tx_bind RequestStopWithError (\<lambda>_. tx_return False)
      | nextOrderID # _ \<Rightarrow>
        tx_bind (ExecuteQuery (sem_StockLevelCountStock wid did nextOrderID (nextOrderID - 20) wid threshold)) (\<lambda>_.
        tx_bind Commit (\<lambda>_. tx_return True))))))"

fun select1_loop :: "nat \<Rightarrow> unit tx" where
  "select1_loop 0 = tx_return ()"
| "select1_loop (Suc n) = tx_bind (ExecuteQuery (sem_SimulationSelectCastInt 1)) (\<lambda>_. select1_loop n)"

fun draw_districts :: "nat \<Rightarrow> unit rnd" where
  "draw_districts 0 = ret ()"
| "draw_districts (Suc n) =
     rnd_bind (RandomInt DISTRICT_LOW_ID DISTRICT_HIGH_ID) (\<lambda>_. draw_districts n)"

definition GetSimulationTask :: "TTransactionContext \<Rightarrow> bool tx" where
  "GetSimulationTask ctx =
     tx_bind (draw (draw_districts 10)) (\<lambda>_.
     if SimulateTransactionMs ctx \<noteq> 0 then tx_return True
     else tx_bind (select1_loop (nat (SimulateTransactionSelect1 ctx))) (\<lambda>_.
       tx_bind Commit (\<lambda>_. tx_return True)))"

end
