(* ===== verification/Import.thy ===== *)
theory Import
  imports Transactions
begin

text \<open>
  The data import (\<open>src/src/import.cpp\<close>) and the batched insertion it uses
  (\<open>ObSession::ExecuteBulk\<close> of \<open>src/src/db/session.cpp\<close>): the row generators with their
  random draws, the loaders, the split of the warehouses over threads, and \<open>ImportSync\<close> as a
  step relation in which the threads are interleaved load by load. Rows are records
  instead of lists of printed cells; amounts are in cents, rates in ten-thousandths.
  Parameters stand for what the standard library leaves open: \<open>hash\<close> for \<open>std::hash<int>\<close>,
  \<open>unif\<close> for the number \<open>std::uniform_int_distribution<int>(5, 15)\<close> makes of an
  \<open>std::mt19937\<close> with the given seed, and the permutation \<open>std::shuffle\<close> chooses.
\<close>

section \<open>Random strings\<close>

fun rnd_list :: "nat \<Rightarrow> 'a rnd \<Rightarrow> 'a list rnd" where
  "rnd_list 0 r = ret []"
| "rnd_list (Suc n) r = rnd_bind r (\<lambda>x. rnd_bind (rnd_list n r) (\<lambda>xs. ret (x # xs)))"

definition char_add :: "char \<Rightarrow> int \<Rightarrow> char" where
  "char_add c k = char_of (of_char c + k :: int)"

definition RandomStringBenchbase :: "int \<Rightarrow> char \<Rightarrow> string rnd" where
  "RandomStringBenchbase strLen baseChar = (if 1 < strLen
     then rnd_list (nat (strLen - 1)) (rnd_bind (RandomInt 0 25) (\<lambda>k. ret (char_add baseChar k)))
     else ret [])"

definition RandomAlphaString :: "int \<Rightarrow> int \<Rightarrow> string rnd" where
  "RandomAlphaString minLength maxLength =
     rnd_bind (RandomInt minLength maxLength) (\<lambda>len. RandomStringBenchbase len CHR ''a'')"

definition RandomUpperAlphaString :: "int \<Rightarrow> int \<Rightarrow> string rnd" where
  "RandomUpperAlphaString minLength maxLength =
     rnd_bind (RandomInt minLength maxLength) (\<lambda>len. RandomStringBenchbase len CHR ''A'')"

definition RandomNumericString :: "int \<Rightarrow> string rnd" where
  "RandomNumericString len = rnd_list (nat len) (rnd_bind (RandomInt 0 9) (\<lambda>k. ret (char_add CHR ''0'' k)))"

text \<open>\<open>I_DATA\<close> and \<open>S_DATA\<close>: one row in ten contains \<open>ORIGINAL\<close>.\<close>

definition original_data :: "string rnd" where
  "original_data = rnd_bind (RandomInt 1 100) (\<lambda>randPct. rnd_bind (RandomInt 26 50) (\<lambda>len.
     if 10 < randPct then RandomStringBenchbase len CHR ''a''
     else rnd_bind (RandomInt 2 (len - 8)) (\<lambda>startOrig.
       rnd_bind (RandomStringBenchbase startOrig CHR ''a'') (\<lambda>a.
       rnd_bind (RandomStringBenchbase (len - startOrig - 8) CHR ''a'') (\<lambda>b.
       ret (a @ ''ORIGINAL'' @ b))))))"

section \<open>The number of lines of an order\<close>

definition HashCustomer :: "(int \<Rightarrow> u64) \<Rightarrow> int \<Rightarrow> int \<Rightarrow> int \<Rightarrow> u64" where
  "HashCustomer hash warehouseId districtId customerId =
     hash warehouseId XOR push_bit 1 (hash districtId) XOR push_bit 2 (hash customerId)"

definition GetRandomCount :: "(int \<Rightarrow> u64) \<Rightarrow> (u64 \<Rightarrow> int) \<Rightarrow> int \<Rightarrow> int \<Rightarrow> int \<Rightarrow> int" where
  "GetRandomCount hash unif warehouseId customerId districtId =
     unif (HashCustomer hash warehouseId districtId customerId)"

section \<open>Bulk insertion\<close>

definition kBulkBatchRows :: nat where "kBulkBatchRows = 200"

text \<open>One multi-row \<open>INSERT\<close>: all rows or none.\<close>

definition flush :: "('r \<Rightarrow> database \<Rightarrow> database result) \<Rightarrow> 'r list \<Rightarrow> unit tx" where
  "flush ins batch = (if batch = [] then tx_return () else Conn_Execute (rfold ins batch))"

text \<open>The writer emits one row per generator; a full batch is flushed at once.\<close>

fun bulk_loop :: "('r \<Rightarrow> database \<Rightarrow> database result) \<Rightarrow> 'r tx list \<Rightarrow> 'r list \<Rightarrow> unit tx" where
  "bulk_loop ins [] batch = flush ins batch"
| "bulk_loop ins (g # gs) batch = tx_bind g (\<lambda>r. let batch' = batch @ [r] in
     if kBulkBatchRows \<le> length batch' then tx_bind (flush ins batch') (\<lambda>_. bulk_loop ins gs [])
     else bulk_loop ins gs batch')"

definition ExecuteBulk :: "('r \<Rightarrow> database \<Rightarrow> database result) \<Rightarrow> 'r tx list \<Rightarrow> unit tx" where
  "ExecuteBulk ins writer = tx_on_error
     (tx_bind CheckShutdown (\<lambda>_. tx_bind EnsureTxn (\<lambda>_. bulk_loop ins writer []))) ResetTxnOnError"

definition BulkInsert :: "('r \<Rightarrow> database \<Rightarrow> database result) \<Rightarrow> 'r tx list \<Rightarrow> unit tx" where
  "BulkInsert ins writer = tx_bind (ExecuteBulk ins writer) (\<lambda>_. Commit)"

section \<open>Loaders\<close>

definition gen_item :: "int \<Rightarrow> item_row tx" where
  "gen_item i = tx_bind (draw original_data) (\<lambda>idata.
     tx_bind (draw (RandomAlphaString 14 24)) (\<lambda>nm.
     tx_bind (draw (RandomInt 100 10000)) (\<lambda>price.
     tx_bind (draw (RandomInt 1 10000)) (\<lambda>im.
     tx_return \<lparr>i_id = i, i_name = nm, i_price = price, i_data = idata, i_im_id = im\<rparr>))))"

definition insert_item :: "item_row \<Rightarrow> database \<Rightarrow> database result" where
  "insert_item r db = rbind (sql_insert i_id r (item db)) (\<lambda>t. Inr (db\<lparr>item := t\<rparr>))"

definition LoadItems :: "unit tx" where
  "LoadItems = BulkInsert insert_item (map gen_item [1..ITEM_COUNT])"

definition gen_warehouse :: "int \<Rightarrow> warehouse_row tx" where
  "gen_warehouse wh = tx_bind (draw (RandomInt 0 2000)) (\<lambda>tax.
     tx_bind (draw (RandomAlphaString 6 10)) (\<lambda>nm.
     tx_bind (draw (RandomAlphaString 10 20)) (\<lambda>s1.
     tx_bind (draw (RandomAlphaString 10 20)) (\<lambda>s2.
     tx_bind (draw (RandomAlphaString 10 20)) (\<lambda>city.
     tx_bind (draw (RandomUpperAlphaString 3 3)) (\<lambda>state.
     tx_return \<lparr>w_id = wh, w_ytd = floor (100 * (DISTRICT_INITIAL_YTD * of_int DISTRICT_COUNT)), w_tax = tax,
       w_name = nm, w_street_1 = s1, w_street_2 = s2, w_city = city, w_state = state, w_zip = ''123456789''\<rparr>))))))"

definition insert_warehouse :: "warehouse_row \<Rightarrow> database \<Rightarrow> database result" where
  "insert_warehouse r db = rbind (sql_insert w_id r (warehouse db)) (\<lambda>t. Inr (db\<lparr>warehouse := t\<rparr>))"

definition LoadWarehouses :: "int \<Rightarrow> int \<Rightarrow> unit tx" where
  "LoadWarehouses startId lastId = BulkInsert insert_warehouse (map gen_warehouse [startId..lastId])"

definition gen_district :: "int \<times> int \<Rightarrow> district_row tx" where
  "gen_district k = (case k of (wh, d) \<Rightarrow>
     tx_bind (draw (RandomInt 0 2000)) (\<lambda>tax.
     tx_bind (draw (RandomAlphaString 6 10)) (\<lambda>nm.
     tx_bind (draw (RandomAlphaString 10 20)) (\<lambda>s1.
     tx_bind (draw (RandomAlphaString 10 20)) (\<lambda>s2.
     tx_bind (draw (RandomAlphaString 10 20)) (\<lambda>city.
     tx_bind (draw (RandomUpperAlphaString 3 3)) (\<lambda>state.
     tx_return \<lparr>d_w_id = wh, d_id = d, d_ytd = floor (100 * DISTRICT_INITIAL_YTD), d_tax = tax,
       d_next_o_id = CUSTOMERS_PER_DISTRICT + 1, d_name = nm, d_street_1 = s1, d_street_2 = s2, d_city = city,
       d_state = state, d_zip = ''123456789''\<rparr>)))))))"

definition insert_district :: "district_row \<Rightarrow> database \<Rightarrow> database result" where
  "insert_district r db = rbind (sql_insert d_key r (district db)) (\<lambda>t. Inr (db\<lparr>district := t\<rparr>))"

definition LoadDistricts :: "int \<Rightarrow> int \<Rightarrow> unit tx" where
  "LoadDistricts startId lastId = BulkInsert insert_district
     (map gen_district (List.product [startId..lastId] [DISTRICT_LOW_ID..DISTRICT_HIGH_ID]))"

definition gen_stock :: "int \<Rightarrow> int \<Rightarrow> stock_row tx" where
  "gen_stock wh itemId = tx_bind (draw original_data) (\<lambda>sdata.
     tx_bind (draw (RandomInt 10 100)) (\<lambda>qty.
     tx_bind (draw (rnd_list 10 (RandomStringBenchbase 24 CHR ''a''))) (\<lambda>dists.
     tx_return \<lparr>s_w_id = wh, s_i_id = itemId, s_quantity = qty, s_ytd = 0, s_order_cnt = 0, s_remote_cnt = 0,
       s_data = sdata, s_dist_01 = dists ! 0, s_dist_02 = dists ! 1, s_dist_03 = dists ! 2, s_dist_04 = dists ! 3,
       s_dist_05 = dists ! 4, s_dist_06 = dists ! 5, s_dist_07 = dists ! 6, s_dist_08 = dists ! 7,
       s_dist_09 = dists ! 8, s_dist_10 = dists ! 9\<rparr>)))"

definition insert_stock :: "stock_row \<Rightarrow> database \<Rightarrow> database result" where
  "insert_stock r db = rbind (sql_insert s_key r (stock db)) (\<lambda>t. Inr (db\<lparr>stock := t\<rparr>))"

definition LoadStock :: "int \<Rightarrow> unit tx" where
  "LoadStock wh = BulkInsert insert_stock (map (gen_stock wh) [1..ITEM_COUNT])"

definition customer_last :: "int \<Rightarrow> string tx" where
  "customer_last cid = (if cid \<le> 1000 then tx_lift (GetLastName (cid - 1))
     else tx_bind (draw GetNonUniformRandomLastNameForLoad) tx_lift)"

definition gen_customer :: "int \<Rightarrow> int \<Rightarrow> timestamp \<Rightarrow> int \<Rightarrow> customer_row tx" where
  "gen_customer wh did ts cid = tx_bind (customer_last cid) (\<lambda>lastName.
     tx_bind (draw (RandomInt 1 100)) (\<lambda>p.
     tx_bind (draw (RandomInt 1 5000)) (\<lambda>discount.
     tx_bind (draw (RandomAlphaString 8 16)) (\<lambda>firstName.
     tx_bind (draw (RandomAlphaString 10 20)) (\<lambda>s1.
     tx_bind (draw (RandomAlphaString 10 20)) (\<lambda>s2.
     tx_bind (draw (RandomAlphaString 10 20)) (\<lambda>city.
     tx_bind (draw (RandomUpperAlphaString 3 3)) (\<lambda>state.
     tx_bind (draw (RandomNumericString 4)) (\<lambda>zip.
     tx_bind (draw (RandomNumericString 16)) (\<lambda>phone.
     tx_bind (draw (RandomAlphaString 300 500)) (\<lambda>cdata.
     tx_return \<lparr>c_w_id = wh, c_d_id = did, c_id = cid, c_discount = discount,
       c_credit = (if p \<le> 10 then ''BC'' else ''GC''), c_last = lastName, c_first = firstName,
       c_credit_lim = 5000000, c_balance = - 1000, c_ytd_payment = 1000, c_payment_cnt = 1, c_delivery_cnt = 0,
       c_street_1 = s1, c_street_2 = s2, c_city = city, c_state = state, c_zip = zip @ ''11111'', c_phone = phone,
       c_since = ts, c_middle = ''OE'', c_data = cdata\<rparr>)))))))))))"

definition insert_customer :: "customer_row \<Rightarrow> database \<Rightarrow> database result" where
  "insert_customer r db = rbind (sql_insert c_key r (customer db)) (\<lambda>t. Inr (db\<lparr>customer := t\<rparr>))"

definition LoadCustomers :: "int \<Rightarrow> int \<Rightarrow> unit tx" where
  "LoadCustomers wh did w = BulkInsert insert_customer
     (map (gen_customer wh did (now w)) [C_FIRST_CUSTOMER_ID..CUSTOMERS_PER_DISTRICT]) w"

definition gen_history :: "int \<Rightarrow> int \<Rightarrow> timestamp \<Rightarrow> int \<Rightarrow> history_row tx" where
  "gen_history wh did ts cid = tx_bind (draw (RandomAlphaString 10 24)) (\<lambda>hdata.
     tx_return \<lparr>h_c_id = cid, h_c_d_id = did, h_c_w_id = wh, h_d_id = did, h_w_id = wh, h_date = ts,
       h_amount = 1000, h_data = hdata\<rparr>)"

definition insert_history :: "history_row \<Rightarrow> database \<Rightarrow> database result" where
  "insert_history r db = Inr (db\<lparr>history := history db @ [r]\<rparr>)"

definition LoadHistory :: "int \<Rightarrow> int \<Rightarrow> unit tx" where
  "LoadHistory wh did w = BulkInsert insert_history
     (map (gen_history wh did (now w)) [C_FIRST_CUSTOMER_ID..CUSTOMERS_PER_DISTRICT]) w"

text \<open>The three parts of \<open>LoadOrders\<close>; \<open>cnt\<close> is \<open>GetRandomCount\<close>, \<open>ids\<close> the shuffled customer numbers.\<close>

definition gen_oorder ::
  "(int \<Rightarrow> int \<Rightarrow> int \<Rightarrow> int) \<Rightarrow> int list \<Rightarrow> int \<Rightarrow> int \<Rightarrow> timestamp \<Rightarrow> int \<Rightarrow> oorder_row tx" where
  "gen_oorder cnt ids wh did ts oid =
     tx_bind (if oid < FIRST_UNPROCESSED_O_ID then tx_bind (draw (RandomInt 1 10)) (\<lambda>k. tx_return (Some k))
       else tx_return None) (\<lambda>carrierId.
     tx_return \<lparr>o_w_id = wh, o_d_id = did, o_id = oid, o_c_id = ids ! nat (oid - 1), o_carrier_id = carrierId,
       o_ol_cnt = cnt wh oid did, o_all_local = 1, o_entry_d = ts\<rparr>)"

definition insert_oorder :: "oorder_row \<Rightarrow> database \<Rightarrow> database result" where
  "insert_oorder r db = rbind (sql_insert o_key r (oorder db)) (\<lambda>t. Inr (db\<lparr>oorder := t\<rparr>))"

definition LoadOorder :: "(int \<Rightarrow> int \<Rightarrow> int \<Rightarrow> int) \<Rightarrow> int list \<Rightarrow> int \<Rightarrow> int \<Rightarrow> unit tx" where
  "LoadOorder cnt ids wh did w = BulkInsert insert_oorder
     (map (gen_oorder cnt ids wh did (now w)) [1..CUSTOMERS_PER_DISTRICT]) w"

definition insert_new_order :: "new_order_row \<Rightarrow> database \<Rightarrow> database result" where
  "insert_new_order r db = rbind (sql_insert no_key r (new_order db)) (\<lambda>t. Inr (db\<lparr>new_order := t\<rparr>))"

definition LoadNewOrder :: "int \<Rightarrow> int \<Rightarrow> unit tx" where
  "LoadNewOrder wh did = BulkInsert insert_new_order
     (map (\<lambda>oid. tx_return \<lparr>no_w_id = wh, no_d_id = did, no_o_id = oid\<rparr>) [FIRST_UNPROCESSED_O_ID..CUSTOMERS_PER_DISTRICT])"

definition gen_order_line :: "int \<Rightarrow> int \<Rightarrow> timestamp \<Rightarrow> int \<times> int \<Rightarrow> order_line_row tx" where
  "gen_order_line wh did ts k = (case k of (oid, lineNum) \<Rightarrow>
     tx_bind (draw (RandomInt 1 ITEM_COUNT)) (\<lambda>itemId.
     tx_bind (if oid < FIRST_UNPROCESSED_O_ID then tx_return (Some ts, 0)
       else tx_bind (draw (RandomInt 1 999999)) (\<lambda>a. tx_return (None, a))) (\<lambda>(deliveryDate, amount).
     tx_bind (draw (RandomStringBenchbase 24 CHR ''a'')) (\<lambda>info.
     tx_return \<lparr>ol_w_id = wh, ol_d_id = did, ol_o_id = oid, ol_number = lineNum, ol_i_id = itemId,
       ol_delivery_d = deliveryDate, ol_amount = amount, ol_supply_w_id = wh, ol_quantity = 5, ol_dist_info = info\<rparr>))))"

definition insert_order_line :: "order_line_row \<Rightarrow> database \<Rightarrow> database result" where
  "insert_order_line r db = rbind (sql_insert ol_key r (order_line db)) (\<lambda>t. Inr (db\<lparr>order_line := t\<rparr>))"

definition line_numbers :: "(int \<Rightarrow> int \<Rightarrow> int \<Rightarrow> int) \<Rightarrow> int \<Rightarrow> int \<Rightarrow> (int \<times> int) list" where
  "line_numbers cnt wh did =
     concat (map (\<lambda>oid. map (Pair oid) [1..cnt wh oid did]) [1..CUSTOMERS_PER_DISTRICT])"

definition LoadOrderLine :: "(int \<Rightarrow> int \<Rightarrow> int \<Rightarrow> int) \<Rightarrow> int \<Rightarrow> int \<Rightarrow> unit tx" where
  "LoadOrderLine cnt wh did w = BulkInsert insert_order_line
     (map (gen_order_line wh did (now w)) (line_numbers cnt wh did)) w"

section \<open>Progress estimates\<close>

definition BYTES_PER_ITEM :: nat where "BYTES_PER_ITEM = 40"

definition BYTES_PER_STOCK :: nat where "BYTES_PER_STOCK = 280"

definition BYTES_PER_CUSTOMER :: nat where "BYTES_PER_CUSTOMER = 600"

definition BYTES_PER_HISTORY :: nat where "BYTES_PER_HISTORY = 46"

definition BYTES_PER_ORDER :: nat where "BYTES_PER_ORDER = 48"

definition BYTES_PER_NEW_ORDER :: nat where "BYTES_PER_NEW_ORDER = 12"

definition BYTES_PER_ORDER_LINE :: nat where "BYTES_PER_ORDER_LINE = 54"

definition AVG_ORDER_LINES_PER_ORDER :: nat where "AVG_ORDER_LINES_PER_ORDER = 10"

definition NEW_ORDERS_PER_DISTRICT :: nat where
  "NEW_ORDERS_PER_DISTRICT = nat (CUSTOMERS_PER_DISTRICT - FIRST_UNPROCESSED_O_ID + 1)"

definition EstimateSharedDataSize :: nat where
  "EstimateSharedDataSize = nat ITEM_COUNT * BYTES_PER_ITEM"

definition district_bytes :: nat where
  "district_bytes = nat CUSTOMERS_PER_DISTRICT * BYTES_PER_CUSTOMER + nat CUSTOMERS_PER_DISTRICT * BYTES_PER_HISTORY
     + nat CUSTOMERS_PER_DISTRICT * BYTES_PER_ORDER + NEW_ORDERS_PER_DISTRICT * BYTES_PER_NEW_ORDER
     + nat CUSTOMERS_PER_DISTRICT * AVG_ORDER_LINES_PER_ORDER * BYTES_PER_ORDER_LINE"

definition EstimatePerWarehouseDataSize :: nat where
  "EstimatePerWarehouseDataSize = nat ITEM_COUNT * BYTES_PER_STOCK + nat DISTRICT_COUNT * district_bytes"

section \<open>The loader threads\<close>

definition MAX_LOADER_THREADS :: nat where "MAX_LOADER_THREADS = 100"

definition loader_threads :: "nat \<Rightarrow> nat \<Rightarrow> nat \<Rightarrow> nat" where
  "loader_threads warehouseCount loadThreadCount cpus =
     (let threadCount = (if loadThreadCount = 0 then min (min warehouseCount cpus) MAX_LOADER_THREADS else loadThreadCount)
      in min (max threadCount 1) warehouseCount)"

text \<open>\<open>size_t\<close> products wrap around.\<close>

definition wh_start :: "nat \<Rightarrow> nat \<Rightarrow> nat \<Rightarrow> int" where
  "wh_start warehouseCount threadCount tid = int ((tid * warehouseCount mod 2 ^ 64) div threadCount + 1)"

definition wh_end :: "nat \<Rightarrow> nat \<Rightarrow> nat \<Rightarrow> int" where
  "wh_end warehouseCount threadCount tid = int (((tid + 1) * warehouseCount mod 2 ^ 64) div threadCount)"

text \<open>
  What a thread does, in the order of \<open>LoadWarehouse\<close> and of the loop around it. A thread that sees a stop
  request has nothing more to do: the request is never withdrawn, so the loop ends at its
  next test.
\<close>

datatype load = Stock int | Customers int int | History int int | Oorder int int | NewOrders int int | OrderLines int int

datatype action = CheckStop | Load load | Progress nat | MarkLoaded

definition load_district :: "int \<Rightarrow> int \<Rightarrow> action list" where
  "load_district wh d = [CheckStop, Load (Customers wh d), Load (History wh d), Load (Oorder wh d),
     Load (NewOrders wh d), Load (OrderLines wh d), Progress district_bytes]"

definition LoadWarehouse :: "int \<Rightarrow> action list" where
  "LoadWarehouse wh = [CheckStop, CheckStop, Load (Stock wh), Progress (nat ITEM_COUNT * BYTES_PER_STOCK)]
     @ concat (map (load_district wh) [DISTRICT_LOW_ID..DISTRICT_HIGH_ID]) @ [MarkLoaded]"

definition thread_program :: "nat \<Rightarrow> nat \<Rightarrow> nat \<Rightarrow> action list" where
  "thread_program warehouseCount threadCount tid =
     concat (map LoadWarehouse [wh_start warehouseCount threadCount tid..wh_end warehouseCount threadCount tid])"

fun exec_load :: "(int \<Rightarrow> int \<Rightarrow> int \<Rightarrow> int) \<Rightarrow> int list \<Rightarrow> load \<Rightarrow> unit tx" where
  "exec_load cnt ids (Stock wh) = LoadStock wh"
| "exec_load cnt ids (Customers wh d) = LoadCustomers wh d"
| "exec_load cnt ids (History wh d) = LoadHistory wh d"
| "exec_load cnt ids (Oorder wh d) = LoadOorder cnt ids wh d"
| "exec_load cnt ids (NewOrders wh d) = LoadNewOrder wh d"
| "exec_load cnt ids (OrderLines wh d) = LoadOrderLine cnt wh d"

section \<open>ImportSync\<close>

text \<open>The shared tables, loaded on the main connection before the threads start.\<close>

definition load_shared :: "nat \<Rightarrow> unit tx" where
  "load_shared warehouseCount = tx_bind LoadItems (\<lambda>_. tx_bind (LoadWarehouses 1 (int warehouseCount))
     (\<lambda>_. LoadDistricts 1 (int warehouseCount)))"

text \<open>Where the main thread stands: the progress loop, the test of the interrupt flag, the joins, the end.\<close>

datatype main_pc = Waiting | Testing | Joining bool | Returned bool

record import_state =
  shared :: database
  threads :: "(action list \<times> world) list"
  stopFlag :: bool
  WarehousesLoaded :: nat
  DataSizeLoaded :: nat
  main_at :: main_pc

definition import_init :: "nat \<Rightarrow> nat \<Rightarrow> world list \<Rightarrow> database \<Rightarrow> import_state" where
  "import_init warehouseCount threadCount ws db = \<lparr>shared = db,
     threads = map (\<lambda>tid. (thread_program warehouseCount threadCount tid, ws ! tid)) [0..<threadCount], stopFlag = False,
     WarehousesLoaded = 0, DataSizeLoaded = EstimateSharedDataSize, main_at = Waiting\<rparr>"

text \<open>
  Every thread has its own connection; a load is one transaction on rows of its own and
  is taken as one step. Any error ends the thread and requests the stop, the failure to open its session included.
\<close>

inductive import_step :: "(int \<Rightarrow> int \<Rightarrow> int \<Rightarrow> int) \<Rightarrow> nat \<Rightarrow> import_state \<Rightarrow> import_state \<Rightarrow> bool"
  for cnt :: "int \<Rightarrow> int \<Rightarrow> int \<Rightarrow> int" and n :: nat where
  check: "i < length (threads s) \<Longrightarrow> threads s ! i = (CheckStop # as, w) \<Longrightarrow>
    import_step cnt n s (s\<lparr>threads := (threads s)[i := (if stopFlag s then [] else as, w)]\<rparr>)"
| no_session: "i < length (threads s) \<Longrightarrow> threads s ! i = (thread_program n (length (threads s)) i, w) \<Longrightarrow>
    import_step cnt n s (s\<lparr>threads := (threads s)[i := ([], w)], stopFlag := True\<rparr>)"
| load: "i < length (threads s) \<Longrightarrow> threads s ! i = (Load l # as, w) \<Longrightarrow> mset ids = mset [1..CUSTOMERS_PER_DISTRICT] \<Longrightarrow>
    exec_load cnt ids l (w\<lparr>committed := shared s\<rparr>) = Some (Inr (), w') \<Longrightarrow>
    import_step cnt n s (s\<lparr>shared := committed w', threads := (threads s)[i := (as, w')]\<rparr>)"
| fail: "i < length (threads s) \<Longrightarrow> threads s ! i = (Load l # as, w) \<Longrightarrow> mset ids = mset [1..CUSTOMERS_PER_DISTRICT] \<Longrightarrow>
    exec_load cnt ids l (w\<lparr>committed := shared s\<rparr>) = Some (Inl e, w') \<Longrightarrow>
    import_step cnt n s (s\<lparr>shared := committed w', threads := (threads s)[i := ([], w')], stopFlag := True\<rparr>)"
| progress: "i < length (threads s) \<Longrightarrow> threads s ! i = (Progress k # as, w) \<Longrightarrow>
    import_step cnt n s (s\<lparr>DataSizeLoaded := DataSizeLoaded s + k, threads := (threads s)[i := (as, w)]\<rparr>)"
| mark: "i < length (threads s) \<Longrightarrow> threads s ! i = (MarkLoaded # as, w) \<Longrightarrow>
    import_step cnt n s (s\<lparr>WarehousesLoaded := WarehousesLoaded s + 1, threads := (threads s)[i := (as, w)]\<rparr>)"
| interrupt: "import_step cnt n s (s\<lparr>stopFlag := True\<rparr>)"
| leave_loop: "main_at s = Waiting \<Longrightarrow> n \<le> WarehousesLoaded s \<or> stopFlag s \<Longrightarrow>
    import_step cnt n s (s\<lparr>main_at := Testing\<rparr>)"
| test_flag: "main_at s = Testing \<Longrightarrow> import_step cnt n s (s\<lparr>main_at := Joining (stopFlag s)\<rparr>)"
| join: "main_at s = Joining b \<Longrightarrow> \<forall>t \<in> set (threads s). fst t = [] \<Longrightarrow>
    import_step cnt n s (s\<lparr>main_at := Returned (\<not> b)\<rparr>)"

end
