(* ===== verification/BulkLoad.thy ===== *)
theory BulkLoad
  imports Import
begin

text \<open>
  What a bulk insertion does when it returns normally: exactly the generated rows are
  appended to the table, in one committed transaction, and primary keys stay unique. Stated once for
  every table in the locale \<open>table\<close>.
\<close>

section \<open>Row generators\<close>

text \<open>A generator only advances the random number generator, and its values satisfy \<open>P\<close>.\<close>

definition generates :: "'a tx \<Rightarrow> ('a \<Rightarrow> bool) \<Rightarrow> bool" where
  "generates g P \<longleftrightarrow> (\<forall>w r w'. g w = Some (r, w') \<longrightarrow> (\<exists>s. w' = w\<lparr>rng := s\<rparr>) \<and> (\<forall>x. r = Inr x \<longrightarrow> P x))"

named_theorems generates_rules \<open>generators, one rule per construct\<close>

lemma rng_self: "\<exists>s. w = w\<lparr>rng := s\<rparr>" for w :: world
  by (rule exI [of _ "rng w"]) simp

lemma generates_return [generates_rules]: "P x \<Longrightarrow> generates (tx_return x) P"
  by (simp add: generates_def tx_return_def rng_self)

lemma generates_lift [generates_rules]: "generates (tx_lift r) (\<lambda>x. r = Inr x)"
  by (simp add: generates_def tx_lift_def rng_self)

lemma generates_draw [generates_rules]: "generates (draw r) (\<lambda>x. \<exists>s s'. r s = Some (x, s'))"
  by (auto simp: generates_def draw_def split: option.splits)

lemma generates_bind [generates_rules]:
  "generates g P \<Longrightarrow> (\<And>x. P x \<Longrightarrow> generates (f x) Q) \<Longrightarrow> generates (tx_bind g f) Q"
  unfolding generates_def tx_bind_def by (fastforce split: option.splits sum.splits)

lemma generates_mono: "generates g P \<Longrightarrow> (\<And>x. P x \<Longrightarrow> Q x) \<Longrightarrow> generates g Q"
  by (auto simp: generates_def)

section \<open>Statements that succeed\<close>

lemma Conn_Execute_ok:
  assumes "Conn_Execute upd w = Some (Inr (), w')"
  shows "upd (working w) = Inr (working w')" "inTxn w' = inTxn w" "srv_open w' = srv_open w" "committed w' = committed w"
proof -
  have "upd (working w) = Inr (working w') \<and> inTxn w' = inTxn w \<and> srv_open w' = srv_open w \<and> committed w' = committed w"
    using assms
    by (auto simp: Conn_Execute_def statement_def take_fault_def Let_def
        split: list.splits fault.splits sum.splits if_splits prod.splits)
  then show "upd (working w) = Inr (working w')" "inTxn w' = inTxn w" "srv_open w' = srv_open w" "committed w' = committed w"
    by simp_all
qed

lemma EnsureTxn_ok:
  assumes "EnsureTxn w = Some (Inr (), w')" "\<not> inTxn w" "\<not> srv_open w"
  shows "inTxn w' \<and> srv_open w' \<and> working w' = committed w \<and> committed w' = committed w"
  using assms
  by (auto simp: EnsureTxn_def tx_bind_def BeginRepeatableRead_def statement_def take_fault_def Let_def
      split: list.splits fault.splits sum.splits if_splits prod.splits option.splits)

lemma Commit_ok:
  assumes "Commit w = Some (Inr (), w')" "inTxn w" "srv_open w"
  shows "\<not> inTxn w' \<and> \<not> srv_open w' \<and> committed w' = working w"
  using assms
  by (auto simp: Commit_def tx_on_error_def tx_bind_def CheckShutdown_def Conn_Commit_def statement_def take_fault_def Let_def
      split: list.splits fault.splits sum.splits if_splits prod.splits option.splits)

section \<open>The batches\<close>

lemma bulk_loop_ok:
  assumes "bulk_loop ins gs batch w = Some (Inr (), w')" "list_all2 generates gs Ps"
  shows "\<exists>rs. list_all2 (\<lambda>P r. P r) Ps rs \<and> rfold ins (batch @ rs) (working w) = Inr (working w')
    \<and> inTxn w' = inTxn w \<and> srv_open w' = srv_open w \<and> committed w' = committed w"
  using assms
proof (induction gs arbitrary: batch w Ps)
  case Nil
  then show ?case
    by (auto simp: flush_def tx_return_def split: if_splits dest: Conn_Execute_ok)
next
  case (Cons g gs)
  obtain P Ps' where Ps: "Ps = P # Ps'" "generates g P" "list_all2 generates gs Ps'"
    using Cons.prems(2) by (auto simp: list_all2_Cons1)
  obtain r s where g: "g w = Some (Inr r, w\<lparr>rng := s\<rparr>)" "P r"
    and rest: "(let batch' = batch @ [r] in if kBulkBatchRows \<le> length batch'
      then tx_bind (flush ins batch') (\<lambda>_. bulk_loop ins gs []) else bulk_loop ins gs batch') (w\<lparr>rng := s\<rparr>) = Some (Inr (), w')"
    using Cons.prems(1) Ps(2) by (fastforce simp: tx_bind_def generates_def split: option.splits sum.splits prod.splits)
  show ?case
  proof (cases "kBulkBatchRows \<le> length (batch @ [r])")
    case True
    then obtain w1 where f: "flush ins (batch @ [r]) (w\<lparr>rng := s\<rparr>) = Some (Inr (), w1)" and l: "bulk_loop ins gs [] w1 = Some (Inr (), w')"
      using rest by (auto simp: tx_bind_def split: option.splits sum.splits)
    have "Conn_Execute (rfold ins (batch @ [r])) (w\<lparr>rng := s\<rparr>) = Some (Inr (), w1)" using f by (simp add: flush_def)
    note c = Conn_Execute_ok [OF this]
    obtain rs where "list_all2 (\<lambda>P r. P r) Ps' rs" "rfold ins rs (working w1) = Inr (working w')"
      "inTxn w' = inTxn w1" "srv_open w' = srv_open w1" "committed w' = committed w1"
      using Cons.IH [OF l Ps(3)] by auto
    then show ?thesis
      using c Ps(1) g(2) by (intro exI [of _ "r # rs"]) (use rfold_append [of ins "batch @ [r]" rs] in auto)
  next
    case False
    then have "bulk_loop ins gs (batch @ [r]) (w\<lparr>rng := s\<rparr>) = Some (Inr (), w')" using rest by simp
    from Cons.IH [OF this Ps(3)] obtain rs where "list_all2 (\<lambda>P r. P r) Ps' rs"
      "rfold ins ((batch @ [r]) @ rs) (working w) = Inr (working w')"
      "inTxn w' = inTxn w" "srv_open w' = srv_open w" "committed w' = committed w" by auto
    then show ?thesis using Ps(1) g(2) by (intro exI [of _ "r # rs"]) auto
  qed
qed

text \<open>A connection between transactions.\<close>

definition ready :: "world \<Rightarrow> bool" where
  "ready w \<longleftrightarrow> \<not> inTxn w \<and> \<not> srv_open w"

lemma BulkInsert_ok:
  assumes "BulkInsert ins gs w = Some (Inr (), w')" "list_all2 generates gs Ps" "ready w"
  shows "\<exists>rs. list_all2 (\<lambda>P r. P r) Ps rs \<and> rfold ins rs (committed w) = Inr (committed w') \<and> ready w'"
proof -
  obtain w1 where e: "ExecuteBulk ins gs w = Some (Inr (), w1)" and c: "Commit w1 = Some (Inr (), w')"
    using assms(1) by (auto simp: BulkInsert_def tx_bind_def split: option.splits sum.splits)
  obtain w0 where b: "EnsureTxn w = Some (Inr (), w0)" and l: "bulk_loop ins gs [] w0 = Some (Inr (), w1)"
  proof -
    have "tx_bind CheckShutdown (\<lambda>_. tx_bind EnsureTxn (\<lambda>_. bulk_loop ins gs [])) w = Some (Inr (), w1)"
      using e by (simp add: ExecuteBulk_def tx_on_error_def split: option.splits sum.splits prod.splits)
    then have "tx_bind EnsureTxn (\<lambda>_. bulk_loop ins gs []) w = Some (Inr (), w1)"
      by (simp add: tx_bind_def [of CheckShutdown] CheckShutdown_def split: if_splits)
    then show ?thesis using that by (auto simp: tx_bind_def split: option.splits sum.splits)
  qed
  have s: "inTxn w0 \<and> srv_open w0 \<and> working w0 = committed w \<and> committed w0 = committed w"
    using EnsureTxn_ok [OF b] assms(3) by (simp add: ready_def)
  from bulk_loop_ok [OF l assms(2)] obtain rs where rs: "list_all2 (\<lambda>P r. P r) Ps rs"
    "rfold ins rs (working w0) = Inr (working w1)" "inTxn w1 = inTxn w0" "srv_open w1 = srv_open w0" by auto
  then show ?thesis using Commit_ok [OF c] s by (auto simp: ready_def)
qed

section \<open>Tables\<close>

text \<open>
  A table of the database with its primary key, and the insertion of a row. The laws are those of
  a field of a record.
\<close>

locale table =
  fixes key :: "'r \<Rightarrow> 'k"
    and get :: "database \<Rightarrow> 'r list"
    and put :: "'r list \<Rightarrow> database \<Rightarrow> database"
    and ins :: "'r \<Rightarrow> database \<Rightarrow> database result"
  assumes get_put: "get (put t db) = t"
    and put_put: "put t (put t' db) = put t db"
    and put_get: "put (get db) db = db"
    and ins_eq: "ins r db = rbind (sql_insert key r (get db)) (\<lambda>t. Inr (put t db))"
begin

lemma insert_rows:
  "rfold ins rs db = Inr db' \<Longrightarrow> db' = put (get db @ rs) db \<and> (distinct (map key (get db)) \<longrightarrow> distinct (map key (get db @ rs)))"
proof (induction rs arbitrary: db)
  case Nil
  then show ?case by (simp add: put_get)
next
  case (Cons r rs)
  then have r: "key r \<notin> key ` set (get db)" "rfold ins rs (put (get db @ [r]) db) = Inr db'"
    by (simp_all add: ins_eq [of r] sql_insert_def split: if_splits)
  then show ?case using Cons.IH [OF r(2)] by (auto simp: get_put put_put)
qed

lemma load:
  assumes "BulkInsert ins (map g xs) w = Some (Inr (), w')" "ready w" "\<And>x. x \<in> set xs \<Longrightarrow> generates (g x) (P x)"
  shows "\<exists>rs. list_all2 P xs rs \<and> committed w' = put (get (committed w) @ rs) (committed w) \<and> ready w'
    \<and> (distinct (map key (get (committed w))) \<longrightarrow> distinct (map key (get (committed w) @ rs)))"
proof -
  have "list_all2 generates (map g xs) (map P xs)" using assms(3) by (simp add: list_all2_conv_all_nth)
  from BulkInsert_ok [OF assms(1) this assms(2)] obtain rs where
    rs: "list_all2 (\<lambda>P r. P r) (map P xs) rs" "rfold ins rs (committed w) = Inr (committed w')" "ready w'" by blast
  have "list_all2 P xs rs" using rs(1) by (simp add: list_all2_conv_all_nth)
  then show ?thesis using insert_rows [OF rs(2)] rs(3) by blast
qed

end

interpretation items: table i_id item "\<lambda>t db. db\<lparr>item := t\<rparr>" insert_item
  by unfold_locales (simp_all add: insert_item_def)

interpretation warehouses: table w_id warehouse "\<lambda>t db. db\<lparr>warehouse := t\<rparr>" insert_warehouse
  by unfold_locales (simp_all add: insert_warehouse_def)

interpretation districts: table d_key district "\<lambda>t db. db\<lparr>district := t\<rparr>" insert_district
  by unfold_locales (simp_all add: insert_district_def)

interpretation stocks: table s_key stock "\<lambda>t db. db\<lparr>stock := t\<rparr>" insert_stock
  by unfold_locales (simp_all add: insert_stock_def)

interpretation customers: table c_key customer "\<lambda>t db. db\<lparr>customer := t\<rparr>" insert_customer
  by unfold_locales (simp_all add: insert_customer_def)

interpretation oorders: table o_key oorder "\<lambda>t db. db\<lparr>oorder := t\<rparr>" insert_oorder
  by unfold_locales (simp_all add: insert_oorder_def)

interpretation new_orders: table no_key new_order "\<lambda>t db. db\<lparr>new_order := t\<rparr>" insert_new_order
  by unfold_locales (simp_all add: insert_new_order_def)

interpretation order_lines: table ol_key order_line "\<lambda>t db. db\<lparr>order_line := t\<rparr>" insert_order_line
  by unfold_locales (simp_all add: insert_order_line_def)

text \<open>The history has no key.\<close>

lemma load_history:
  assumes "BulkInsert insert_history (map g xs) w = Some (Inr (), w')" "ready w" "\<And>x. x \<in> set xs \<Longrightarrow> generates (g x) (P x)"
  shows "\<exists>rs. list_all2 P xs rs \<and> committed w' = (committed w)\<lparr>history := history (committed w) @ rs\<rparr> \<and> ready w'"
proof -
  have "list_all2 generates (map g xs) (map P xs)" using assms(3) by (simp add: list_all2_conv_all_nth)
  from BulkInsert_ok [OF assms(1) this assms(2)] obtain rs where
    rs: "list_all2 (\<lambda>P r. P r) (map P xs) rs" "rfold insert_history rs (committed w) = Inr (committed w')" "ready w'" by blast
  have "rfold insert_history rs db = Inr (db\<lparr>history := history db @ rs\<rparr>)" for db
    by (induction rs arbitrary: db) (simp_all add: insert_history_def)
  moreover have "list_all2 P xs rs" using rs(1) by (simp add: list_all2_conv_all_nth)
  ultimately show ?thesis using rs(2,3) by auto
qed

end
