(* ===== verification/Consistency.thy ===== *)
theory Consistency
  imports Queries
begin

text \<open>
  The consistency conditions of TPC-C clause 3.3.2, which \<open>src/src/check.cpp\<close> tests, as an
  invariant of the database, and its preservation by the effects of the three writing
  transactions. The invariant is strictly stronger than the tests: it fixes the
  key constraints and the shape of the order tables that make the tests inductive.
\<close>

section \<open>The invariant\<close>

definition keys_ok :: "database \<Rightarrow> bool" where
  "keys_ok db \<longleftrightarrow> distinct (map w_id (warehouse db)) \<and> distinct (map i_id (item db))
     \<and> distinct (map s_key (stock db)) \<and> distinct (map d_key (district db))
     \<and> distinct (map c_key (customer db)) \<and> distinct (map o_key (oorder db))
     \<and> distinct (map no_key (new_order db)) \<and> distinct (map ol_key (order_line db))"

text \<open>The order numbers and the undelivered order numbers of a district.\<close>

definition o_ids :: "database \<Rightarrow> int \<times> int \<Rightarrow> int set" where
  "o_ids db k = {n. \<exists>r \<in> set (oorder db). (o_w_id r, o_d_id r) = k \<and> o_id r = n}"

definition no_ids :: "database \<Rightarrow> int \<times> int \<Rightarrow> int set" where
  "no_ids db k = {n. \<exists>r \<in> set (new_order db). (no_w_id r, no_d_id r) = k \<and> no_o_id r = n}"

definition orders_ok :: "database \<Rightarrow> bool" where
  "orders_ok db \<longleftrightarrow> (\<forall>d \<in> set (district db). o_ids db (d_key d) = {1..<d_next_o_id d}
       \<and> (\<exists>k. 1 \<le> k \<and> k \<le> d_next_o_id d \<and> no_ids db (d_key d) = {k..<d_next_o_id d}))
     \<and> (\<forall>r \<in> set (oorder db). (o_w_id r, o_d_id r) \<in> d_key ` set (district db))"

definition new_orders_ok :: "database \<Rightarrow> bool" where
  "new_orders_ok db \<longleftrightarrow>
     (\<forall>k. k \<in> no_key ` set (new_order db) \<longleftrightarrow> (\<exists>r \<in> set (oorder db). o_key r = k \<and> o_carrier_id r = None))
     \<and> (\<forall>r \<in> set (oorder db). o_carrier_id r \<noteq> Some 0)"

definition lines_ok :: "database \<Rightarrow> bool" where
  "lines_ok db \<longleftrightarrow>
     (\<forall>r \<in> set (oorder db). 1 \<le> o_ol_cnt r \<and> o_ol_cnt r = int (length (sql_where ol_order (o_key r) (order_line db))))
     \<and> (\<forall>l \<in> set (order_line db). ol_order l \<in> o_key ` set (oorder db))"

definition delivery_ok :: "database \<Rightarrow> bool" where
  "delivery_ok db \<longleftrightarrow> (\<forall>r \<in> set (oorder db). \<forall>l \<in> set (order_line db). ol_order l = o_key r \<longrightarrow>
     (ol_delivery_d l \<noteq> None \<longleftrightarrow> o_carrier_id r \<noteq> None))"

definition ytd_ok :: "database \<Rightarrow> bool" where
  "ytd_ok db \<longleftrightarrow> (\<forall>w \<in> set (warehouse db).
       w_ytd w = sum_where (\<lambda>d. d_w_id d = w_id w) d_ytd (district db)
     \<and> w_ytd w = sum_where (\<lambda>h. h_w_id h = w_id w) h_amount (history db))
     \<and> (\<forall>d \<in> set (district db). d_ytd d = sum_where (\<lambda>h. (h_w_id h, h_d_id h) = d_key d) h_amount (history db))"

text \<open>What a customer paid, and the delivered lines of its orders.\<close>

definition h_cust :: "history_row \<Rightarrow> int \<times> int \<times> int" where
  "h_cust h = (h_c_w_id h, h_c_d_id h, h_c_id h)"

definition o_cust :: "oorder_row \<Rightarrow> int \<times> int \<times> int" where
  "o_cust r = (o_w_id r, o_d_id r, o_c_id r)"

definition paid :: "database \<Rightarrow> int \<times> int \<times> int \<Rightarrow> int" where
  "paid db c = sum_where (\<lambda>h. h_cust h = c) h_amount (history db)"

definition orders_of :: "database \<Rightarrow> int \<times> int \<times> int \<Rightarrow> (int \<times> int \<times> int) set" where
  "orders_of db c = {k. \<exists>r \<in> set (oorder db). o_cust r = c \<and> o_key r = k}"

definition delivered_sum :: "database \<Rightarrow> int \<times> int \<times> int \<Rightarrow> int" where
  "delivered_sum db c = sum_where (\<lambda>l. ol_delivery_d l \<noteq> None \<and> ol_order l \<in> orders_of db c) ol_amount (order_line db)"

definition balance_ok :: "database \<Rightarrow> bool" where
  "balance_ok db \<longleftrightarrow> (\<forall>c \<in> set (customer db). c_balance c = delivered_sum db (c_key c) - paid db (c_key c)
     \<and> c_ytd_payment c = paid db (c_key c))"

definition consistent :: "database \<Rightarrow> bool" where
  "consistent db \<longleftrightarrow> keys_ok db \<and> orders_ok db \<and> new_orders_ok db \<and> lines_ok db \<and> delivery_ok db
     \<and> ytd_ok db \<and> balance_ok db"

lemma consistentD:
  assumes "consistent db"
  shows "keys_ok db" "orders_ok db" "new_orders_ok db" "lines_ok db" "delivery_ok db" "ytd_ok db" "balance_ok db"
  using assms by (simp_all add: consistent_def)

section \<open>NewOrder\<close>

text \<open>The rows NewOrder adds for the order with key \<open>k\<close> and lines \<open>ls\<close>.\<close>

definition order_added ::
  "int \<Rightarrow> int \<Rightarrow> oorder_row \<Rightarrow> order_line_row list \<Rightarrow> stock_row list \<Rightarrow> database \<Rightarrow> database" where
  "order_added w d r ls st db = db\<lparr>
     district := sql_update d_key (w, d) (\<lambda>x. x\<lparr>d_next_o_id := d_next_o_id x + 1\<rparr>) (district db),
     oorder := oorder db @ [r],
     new_order := new_order db @ [\<lparr>no_w_id = w, no_d_id = d, no_o_id = o_id r\<rparr>],
     order_line := order_line db @ ls, stock := st\<rparr>"

definition new_order_rows :: "int \<Rightarrow> int \<Rightarrow> database \<Rightarrow> oorder_row \<Rightarrow> order_line_row list \<Rightarrow> bool" where
  "new_order_rows w d db r ls \<longleftrightarrow> (o_w_id r, o_d_id r) = (w, d) \<and> o_carrier_id r = None
     \<and> o_ol_cnt r = int (length ls) \<and> ls \<noteq> [] \<and> distinct (map ol_number ls)
     \<and> (\<forall>l \<in> set ls. ol_order l = o_key r \<and> ol_delivery_d l = None)
     \<and> (\<exists>x \<in> set (district db). d_key x = (w, d) \<and> d_next_o_id x = o_id r)"

lemma new_order_fresh:
  assumes "consistent db" "new_order_rows w d db r ls"
  shows "o_key r \<notin> o_key ` set (oorder db)" "o_key r \<notin> no_key ` set (new_order db)"
    "o_key r \<notin> ol_order ` set (order_line db)"
proof -
  obtain x where x: "x \<in> set (district db)" "d_key x = (w, d)" "d_next_o_id x = o_id r"
    using assms(2) by (auto simp: new_order_rows_def)
  then have "o_id r \<notin> o_ids db (w, d)"
    using consistentD(2) [OF assms(1)] by (auto simp: orders_ok_def)
  then show o: "o_key r \<notin> o_key ` set (oorder db)"
    using assms(2) by (auto simp: o_ids_def new_order_rows_def o_key_def)
  show "o_key r \<notin> no_key ` set (new_order db)"
    using consistentD(3) [OF assms(1)] o by (metis image_eqI new_orders_ok_def)
  show "o_key r \<notin> ol_order ` set (order_line db)"
    using consistentD(4) [OF assms(1)] o by (auto simp: lines_ok_def)
qed

lemma sql_where_append [simp]: "sql_where key k (t @ u) = sql_where key k t @ sql_where key k u"
  by (simp add: sql_where_def)

lemma sql_where_all: "(\<And>r. r \<in> set t \<Longrightarrow> key r = k) \<Longrightarrow> sql_where key k t = t"
  by (simp add: sql_where_def)

lemma sql_where_none: "k \<notin> key ` set t \<Longrightarrow> sql_where key k t = []"
  by (auto simp: sql_where_def filter_empty_conv)

lemma ol_key_order: "ol_key l = (fst (ol_order l), fst (snd (ol_order l)), snd (snd (ol_order l)), ol_number l)"
  by (simp add: ol_key_def ol_order_def)

lemma order_added_keys:
  assumes "consistent db" "new_order_rows w d db r ls" "map s_key st = map s_key (stock db)"
  shows "keys_ok (order_added w d r ls st db)"
proof -
  note fresh = new_order_fresh [OF assms(1,2)]
  have "inj_on ol_number (set ls)" "distinct ls" and o: "\<forall>l \<in> set ls. ol_order l = o_key r"
    using assms(2) by (auto simp: new_order_rows_def distinct_map)
  then have d: "distinct (map ol_key ls)"
    by (auto simp: distinct_map inj_on_def ol_key_order)
  have "ol_key l \<noteq> ol_key l'" if "l \<in> set ls" "l' \<in> set (order_line db)" for l l'
  proof
    assume "ol_key l = ol_key l'"
    then have "ol_order l' = o_key r" using that(1) o by (auto simp: ol_key_def ol_order_def)
    then show False using that(2) fresh(3) by (metis image_eqI)
  qed
  then have "set (map ol_key ls) \<inter> set (map ol_key (order_line db)) = {}" by fastforce
  with d have "distinct (map ol_key (order_line db @ ls)) = distinct (map ol_key (order_line db))"
    by (simp add: Int_commute)
  moreover have "no_key \<lparr>no_w_id = w, no_d_id = d, no_o_id = o_id r\<rparr> = o_key r"
    using assms(2) by (simp add: new_order_rows_def no_key_def o_key_def)
  ultimately show ?thesis
    using consistentD(1) [OF assms(1)] fresh(1,2) assms(3)
    unfolding keys_ok_def order_added_def by (simp add: d_key_def del: map_append) (simp add: o_key_def)
qed

lemma order_added_orders:
  assumes "consistent db" "new_order_rows w d db r ls"
  shows "orders_ok (order_added w d r ls st db)"
proof -
  let ?db = "order_added w d r ls st db"
  note ok = consistentD(2) [OF assms(1), unfolded orders_ok_def]
  have r: "o_w_id r = w" "o_d_id r = d" using assms(2) by (auto simp: new_order_rows_def)
  have ids: "o_ids ?db k = o_ids db k \<union> (if k = (w, d) then {o_id r} else {})"
    "no_ids ?db k = no_ids db k \<union> (if k = (w, d) then {o_id r} else {})" for k
    using r by (auto simp: o_ids_def no_ids_def order_added_def)
  obtain x0 where x0: "x0 \<in> set (district db)" "d_key x0 = (w, d)" "d_next_o_id x0 = o_id r"
    using assms(2) by (auto simp: new_order_rows_def)
  have d: "map d_key (district ?db) = map d_key (district db)"
    by (simp add: order_added_def d_key_def)
  have dist: "distinct (map d_key (district db))" using consistentD(1) [OF assms(1)] by (simp add: keys_ok_def)
  have same: "x = x0" if "x \<in> set (district db)" "d_key x = (w, d)" for x
    using that x0 dist by (auto simp: distinct_map inj_on_def)
  have "o_ids ?db (d_key y) = {1..<d_next_o_id y}
       \<and> (\<exists>k. 1 \<le> k \<and> k \<le> d_next_o_id y \<and> no_ids ?db (d_key y) = {k..<d_next_o_id y})"
    if "y \<in> set (district ?db)" for y
  proof -
    from that obtain x where x: "x \<in> set (district db)"
      "y = (if d_key x = (w, d) then x\<lparr>d_next_o_id := d_next_o_id x + 1\<rparr> else x)"
      by (auto simp: order_added_def in_sql_update)
    then have k: "d_key y = d_key x" by (simp add: d_key_def)
    obtain k0 where k0: "1 \<le> k0" "k0 \<le> d_next_o_id x" "no_ids db (d_key x) = {k0..<d_next_o_id x}"
      and o0: "o_ids db (d_key x) = {1..<d_next_o_id x}"
      using ok x(1) by blast
    show ?thesis
    proof (cases "d_key x = (w, d)")
      case True
      then have n: "d_next_o_id x = o_id r" "d_next_o_id y = o_id r + 1"
        using same [OF x(1) True] x0(3) x(2) by auto
      have "1 \<le> o_id r" using k0 n(1) by simp
      then show ?thesis
        using k0 o0 n True by (intro conjI exI [of _ k0]) (auto simp: k ids)
    next
      case False
      then show ?thesis using k0 o0 x(2) by (auto simp: ids)
    qed
  qed
  moreover have "(o_w_id q, o_d_id q) \<in> d_key ` set (district ?db)" if "q \<in> set (oorder ?db)" for q
  proof -
    have "d_key ` set (district ?db) = d_key ` set (district db)" using d by (metis list.set_map)
    then show ?thesis
      using that ok r x0(2) imageI [OF x0(1), of d_key] by (auto simp: order_added_def)
  qed
  ultimately show ?thesis by (simp add: orders_ok_def)
qed

lemma order_added_new_orders:
  assumes "consistent db" "new_order_rows w d db r ls"
  shows "new_orders_ok (order_added w d r ls st db)"
proof -
  have "no_key \<lparr>no_w_id = w, no_d_id = d, no_o_id = o_id r\<rparr> = o_key r" "o_carrier_id r = None"
    using assms(2) by (auto simp: new_order_rows_def no_key_def o_key_def)
  then show ?thesis
    using consistentD(3) [OF assms(1)] unfolding new_orders_ok_def order_added_def by auto
qed

lemma order_added_lines:
  assumes "consistent db" "new_order_rows w d db r ls"
  shows "lines_ok (order_added w d r ls st db)"
proof -
  note fresh = new_order_fresh [OF assms(1,2)]
  note ok = consistentD(4) [OF assms(1), unfolded lines_ok_def]
  have ls: "\<forall>l \<in> set ls. ol_order l = o_key r" "o_ol_cnt r = int (length ls)" "ls \<noteq> []"
    using assms(2) by (auto simp: new_order_rows_def)
  have "sql_where ol_order (o_key r) (order_line db @ ls) = ls"
    using ls fresh(3) by (simp add: sql_where_none sql_where_all)
  moreover have "sql_where ol_order (o_key q) (order_line db @ ls) = sql_where ol_order (o_key q) (order_line db)"
    if "q \<in> set (oorder db)" for q
  proof -
    have "o_key q \<noteq> o_key r" using that fresh(1) by (metis image_eqI)
    then have "o_key q \<notin> ol_order ` set ls" using ls(1) by auto
    then show ?thesis by (simp add: sql_where_none)
  qed
  moreover have "1 \<le> int (length ls)" using ls(3) by (cases ls) auto
  ultimately show ?thesis using ok ls by (auto simp: lines_ok_def order_added_def simp del: sql_where_append)
qed

lemma order_added_delivery:
  assumes "consistent db" "new_order_rows w d db r ls"
  shows "delivery_ok (order_added w d r ls st db)"
proof -
  note fresh = new_order_fresh [OF assms(1,2)]
  have "\<forall>l \<in> set ls. ol_order l = o_key r \<and> ol_delivery_d l = None" "o_carrier_id r = None"
    using assms(2) by (auto simp: new_order_rows_def)
  moreover have "\<forall>q \<in> set (oorder db). o_key q \<noteq> o_key r" "\<forall>l \<in> set (order_line db). ol_order l \<noteq> o_key r"
    using fresh by (metis image_eqI)+
  ultimately show ?thesis
    using consistentD(5) [OF assms(1)] by (auto simp: delivery_ok_def order_added_def simp del: not_None_eq)
qed

lemma order_added_ytd:
  assumes "consistent db"
  shows "ytd_ok (order_added w d r ls st db)"
proof -
  have "sum_where (\<lambda>x. d_w_id x = v) d_ytd (district (order_added w d r ls st db))
      = sum_where (\<lambda>x. d_w_id x = v) d_ytd (district db)" for v
    by (simp add: order_added_def sum_where_update_other)
  then show ?thesis
    using consistentD(6) [OF assms] by (auto simp: ytd_ok_def order_added_def in_sql_update d_key_def)
qed

lemma order_added_balance:
  assumes "consistent db" "new_order_rows w d db r ls"
  shows "balance_ok (order_added w d r ls st db)"
proof -
  let ?db = "order_added w d r ls st db"
  note fresh = new_order_fresh [OF assms(1,2)]
  have "\<forall>l \<in> set ls. ol_delivery_d l = None" using assms(2) by (auto simp: new_order_rows_def)
  then have "sum_where (\<lambda>l. ol_delivery_d l \<noteq> None \<and> ol_order l \<in> orders_of ?db c) ol_amount ls = 0" for c
    by (simp add: sum_where_def filter_False)
  moreover have "sum_where (\<lambda>l. ol_delivery_d l \<noteq> None \<and> ol_order l \<in> orders_of ?db c) ol_amount (order_line db)
     = delivered_sum db c" for c
    unfolding delivered_sum_def using fresh(3)
    by (intro sum_where_cong) (auto simp: orders_of_def order_added_def image_iff)
  moreover have "order_line ?db = order_line db @ ls" by (simp add: order_added_def)
  ultimately have "delivered_sum ?db c = delivered_sum db c" for c
    by (simp add: delivered_sum_def [of ?db])
  moreover have "paid ?db = paid db" "customer ?db = customer db"
    by (simp_all add: paid_def order_added_def fun_eq_iff)
  ultimately show ?thesis using consistentD(7) [OF assms(1)] by (simp add: balance_ok_def)
qed

lemma order_added_consistent:
  assumes "consistent db" "new_order_rows w d db r ls" "map s_key st = map s_key (stock db)"
  shows "consistent (order_added w d r ls st db)"
  using order_added_keys [OF assms] order_added_orders [OF assms(1,2)] order_added_new_orders [OF assms(1,2)]
    order_added_lines [OF assms(1,2)] order_added_delivery [OF assms(1,2)] order_added_ytd [OF assms(1)]
    order_added_balance [OF assms(1,2)]
  by (simp add: consistent_def)

section \<open>Payment\<close>

text \<open>A payment of \<open>a\<close> in district \<open>(w, d)\<close> by the customer with key \<open>c\<close>.\<close>

definition payment_made ::
  "int \<Rightarrow> int \<Rightarrow> int \<times> int \<times> int \<Rightarrow> money \<Rightarrow> (customer_row \<Rightarrow> string) \<Rightarrow> history_row \<Rightarrow> database \<Rightarrow> database" where
  "payment_made w d c a g h db = db\<lparr>
     warehouse := sql_update w_id w (\<lambda>r. r\<lparr>w_ytd := w_ytd r + a\<rparr>) (warehouse db),
     district := sql_update d_key (w, d) (\<lambda>r. r\<lparr>d_ytd := d_ytd r + a\<rparr>) (district db),
     customer := sql_update c_key c (\<lambda>r. r\<lparr>c_balance := c_balance r - a, c_ytd_payment := c_ytd_payment r + a,
       c_payment_cnt := c_payment_cnt r + 1, c_data := g r\<rparr>) (customer db),
     history := history db @ [h]\<rparr>"

definition payment_row :: "int \<Rightarrow> int \<Rightarrow> int \<times> int \<times> int \<Rightarrow> money \<Rightarrow> history_row \<Rightarrow> bool" where
  "payment_row w d c a h \<longleftrightarrow> (h_w_id h, h_d_id h) = (w, d) \<and> h_cust h = c \<and> h_amount h = a"

lemma payment_ytd:
  assumes "consistent db" "payment_row w d c a h" "(w, d) \<in> d_key ` set (district db)"
  shows "ytd_ok (payment_made w d c a g h db)"
proof -
  note ok = consistentD(6) [OF assms(1), unfolded ytd_ok_def]
  have h: "h_w_id h = w" "h_d_id h = d" "h_amount h = a" using assms(2) by (auto simp: payment_row_def)
  obtain x where x: "x \<in> set (district db)" "d_key x = (w, d)" using assms(3) by fastforce
  have dist: "distinct (map d_key (district db))" using consistentD(1) [OF assms(1)] by (simp add: keys_ok_def)
  have sum: "sum_where (\<lambda>r. d_w_id r = v) d_ytd (sql_update d_key (w, d) (\<lambda>r. r\<lparr>d_ytd := d_ytd r + a\<rparr>) (district db))
      = sum_where (\<lambda>r. d_w_id r = v) d_ytd (district db) + (if w = v then a else 0)" for v
    using sum_where_update [OF dist x(1) x(2), of "\<lambda>r. d_w_id r = v" "\<lambda>r. r\<lparr>d_ytd := d_ytd r + a\<rparr>" d_ytd]
      arg_cong [OF x(2), of fst] by (simp add: d_key_def [of x])
  show ?thesis unfolding ytd_ok_def
  proof (intro conjI ballI)
    fix r assume "r \<in> set (warehouse (payment_made w d c a g h db))"
    then obtain r0 where r0: "r0 \<in> set (warehouse db)" "r = (if w_id r0 = w then r0\<lparr>w_ytd := w_ytd r0 + a\<rparr> else r0)"
      by (auto simp: payment_made_def in_sql_update)
    then have k: "w_id r = w_id r0" "w_ytd r = w_ytd r0 + (if w = w_id r0 then a else 0)" by auto
    have w: "w_ytd r0 = sum_where (\<lambda>d. d_w_id d = w_id r0) d_ytd (district db)"
      "w_ytd r0 = sum_where (\<lambda>h. h_w_id h = w_id r0) h_amount (history db)"
      using ok r0(1) by blast+
    show "w_ytd r = sum_where (\<lambda>x. d_w_id x = w_id r) d_ytd (district (payment_made w d c a g h db))"
      using w(1) k sum by (simp add: payment_made_def)
    show "w_ytd r = sum_where (\<lambda>x. h_w_id x = w_id r) h_amount (history (payment_made w d c a g h db))"
      using w(2) k h by (simp add: payment_made_def)
  next
    fix r assume "r \<in> set (district (payment_made w d c a g h db))"
    then obtain r0 where r0: "r0 \<in> set (district db)" "r = (if d_key r0 = (w, d) then r0\<lparr>d_ytd := d_ytd r0 + a\<rparr> else r0)"
      by (auto simp: payment_made_def in_sql_update)
    then have k: "d_key r = d_key r0" "d_ytd r = d_ytd r0 + (if d_key r0 = (w, d) then a else 0)"
      by (auto simp: d_key_def)
    show "d_ytd r = sum_where (\<lambda>x. (h_w_id x, h_d_id x) = d_key r) h_amount (history (payment_made w d c a g h db))"
      using ok r0(1) k h by (auto simp: payment_made_def)
  qed
qed

lemma payment_balance:
  assumes "consistent db" "payment_row w d c a h"
  shows "balance_ok (payment_made w d c a g h db)"
proof -
  let ?db = "payment_made w d c a g h db"
  have eq: "delivered_sum ?db k = delivered_sum db k" "paid ?db k = paid db k + (if k = c then a else 0)" for k
    using assms(2) by (auto simp: delivered_sum_def orders_of_def paid_def payment_made_def payment_row_def)
  show ?thesis unfolding balance_ok_def
  proof
    fix r assume "r \<in> set (customer ?db)"
    then obtain r0 where r0: "r0 \<in> set (customer db)" "r = (if c_key r0 = c then r0\<lparr>c_balance := c_balance r0 - a,
        c_ytd_payment := c_ytd_payment r0 + a, c_payment_cnt := c_payment_cnt r0 + 1, c_data := g r0\<rparr> else r0)"
      by (auto simp: payment_made_def in_sql_update)
    then have "c_key r = c_key r0" by (simp add: c_key_def)
    then show "c_balance r = delivered_sum ?db (c_key r) - paid ?db (c_key r) \<and> c_ytd_payment r = paid ?db (c_key r)"
      using consistentD(7) [OF assms(1)] r0 by (auto simp: balance_ok_def eq)
  qed
qed

lemma payment_consistent:
  assumes "consistent db" "payment_row w d c a h" "(w, d) \<in> d_key ` set (district db)"
  shows "consistent (payment_made w d c a g h db)"
proof -
  let ?db = "payment_made w d c a g h db"
  note ok = consistentD [OF assms(1)]
  have "keys_ok ?db" using ok(1) by (simp add: keys_ok_def payment_made_def d_key_def c_key_def)
  moreover have "orders_ok ?db"
  proof -
    have "\<forall>y \<in> set (district ?db). \<exists>x \<in> set (district db). d_key y = d_key x \<and> d_next_o_id y = d_next_o_id x"
      by (fastforce simp: payment_made_def in_sql_update d_key_def)
    moreover have "d_key ` set (district ?db) = d_key ` set (district db)"
      using sql_update_keys [of d_key "\<lambda>r. r\<lparr>d_ytd := d_ytd r + a\<rparr>" d_key "(w, d)" "district db"]
      by (simp add: payment_made_def d_key_def flip: set_map)
    moreover have "o_ids ?db = o_ids db" "no_ids ?db = no_ids db" "oorder ?db = oorder db"
      by (simp_all add: o_ids_def no_ids_def payment_made_def fun_eq_iff)
    ultimately show ?thesis using ok(2) unfolding orders_ok_def by metis
  qed
  moreover have "new_orders_ok ?db = new_orders_ok db" "lines_ok ?db = lines_ok db" "delivery_ok ?db = delivery_ok db"
    by (simp_all add: new_orders_ok_def lines_ok_def delivery_ok_def payment_made_def)
  ultimately show ?thesis
    using ok payment_ytd [OF assms, of g] payment_balance [OF assms(1,2), of g] by (simp add: consistent_def)
qed

section \<open>Delivery\<close>

text \<open>The delivery of order \<open>(w, d, oid)\<close>, whose lines sum to \<open>a\<close>, to the customer \<open>(w, d, c)\<close>.\<close>

definition order_delivered ::
  "int \<Rightarrow> int \<Rightarrow> int \<Rightarrow> int \<Rightarrow> timestamp \<Rightarrow> money \<Rightarrow> int \<Rightarrow> database \<Rightarrow> database" where
  "order_delivered w d oid carrier ts a c db = db\<lparr>
     new_order := sql_delete no_key (w, d, oid) (new_order db),
     oorder := sql_update o_key (w, d, oid) (\<lambda>r. r\<lparr>o_carrier_id := Some carrier\<rparr>) (oorder db),
     order_line := sql_update ol_order (w, d, oid) (\<lambda>r. r\<lparr>ol_delivery_d := Some ts\<rparr>) (order_line db),
     customer := sql_update c_key (w, d, c) (\<lambda>r. r\<lparr>c_balance := c_balance r + a,
       c_delivery_cnt := c_delivery_cnt r + 1\<rparr>) (customer db)\<rparr>"

text \<open>What the reading part of Delivery established about that order.\<close>

definition deliverable :: "int \<Rightarrow> int \<Rightarrow> int \<Rightarrow> money \<Rightarrow> int \<Rightarrow> database \<Rightarrow> bool" where
  "deliverable w d oid a c db \<longleftrightarrow> oid \<in> no_ids db (w, d) \<and> (\<forall>n \<in> no_ids db (w, d). oid \<le> n)
     \<and> (\<exists>r \<in> set (oorder db). o_key r = (w, d, oid) \<and> o_c_id r = c)
     \<and> a = sum_where (\<lambda>l. ol_order l = (w, d, oid)) ol_amount (order_line db)"

lemma no_ids_key: "n \<in> no_ids db (w, d) \<longleftrightarrow> (w, d, n) \<in> no_key ` set (new_order db)"
  by (force simp: no_ids_def no_key_def image_iff)

lemma sql_update_set_keys:
  "(\<And>r. h (f r) = h r) \<Longrightarrow> h ` set (sql_update key k f t) = h ` set t"
  using sql_update_keys [of h f key k t] by (simp flip: set_map)

lemma sql_where_update_other:
  "(\<And>r. key2 (f r) = key2 r) \<Longrightarrow> length (sql_where key2 k2 (sql_update key k f t)) = length (sql_where key2 k2 t)"
  by (induction t) (auto simp: sql_where_def sql_update_def)

lemma sum_delivered_update:
  assumes "\<forall>l \<in> set t. ol_order l = k \<longrightarrow> ol_delivery_d l = None"
  shows "sum_where (\<lambda>l. ol_delivery_d l \<noteq> None \<and> ol_order l \<in> S) ol_amount
      (sql_update ol_order k (\<lambda>r. r\<lparr>ol_delivery_d := Some ts\<rparr>) t)
    = sum_where (\<lambda>l. ol_delivery_d l \<noteq> None \<and> ol_order l \<in> S) ol_amount t
      + (if k \<in> S then sum_where (\<lambda>l. ol_order l = k) ol_amount t else 0)"
  using assms by (induction t) (auto simp: sql_update_def ol_order_def)

definition delivery_step :: "int \<Rightarrow> int \<Rightarrow> int \<Rightarrow> int \<Rightarrow> money \<Rightarrow> int \<Rightarrow> database \<Rightarrow> bool" where
  "delivery_step w d oid carrier a c db \<longleftrightarrow> consistent db \<and> deliverable w d oid a c db \<and> carrier \<noteq> 0"

lemma delivery_stepD:
  assumes "delivery_step w d oid carrier a c db"
  shows "consistent db" "deliverable w d oid a c db" "carrier \<noteq> 0"
  using assms by (simp_all add: delivery_step_def)

lemma undelivered:
  assumes step: "delivery_step w d oid carrier a c db"
  obtains r where "r \<in> set (oorder db)" "o_key r = (w, d, oid)" "o_c_id r = c" "o_carrier_id r = None"
    "\<forall>q \<in> set (oorder db). o_key q = (w, d, oid) \<longrightarrow> q = r"
    "\<forall>l \<in> set (order_line db). ol_order l = (w, d, oid) \<longrightarrow> ol_delivery_d l = None"
proof -
  have inj: "inj_on o_key (set (oorder db))"
    using consistentD(1) [OF delivery_stepD(1) [OF step]] by (simp add: keys_ok_def distinct_map)
  obtain r where r: "r \<in> set (oorder db)" "o_key r = (w, d, oid)" "o_c_id r = c"
    using delivery_stepD(2) [OF step] by (auto simp: deliverable_def)
  have "(w, d, oid) \<in> no_key ` set (new_order db)" using delivery_stepD(2) [OF step] by (simp add: deliverable_def no_ids_key)
  then obtain q where q: "q \<in> set (oorder db)" "o_key q = (w, d, oid)" "o_carrier_id q = None"
    using consistentD(3) [OF delivery_stepD(1) [OF step]] unfolding new_orders_ok_def by blast
  then have "q = r" using inj r by (metis inj_onD)
  with q have "o_carrier_id r = None" by simp
  moreover have "\<forall>l \<in> set (order_line db). ol_order l = (w, d, oid) \<longrightarrow> ol_delivery_d l = None"
    using consistentD(5) [OF delivery_stepD(1) [OF step]] r calculation by (auto simp: delivery_ok_def)
  ultimately show ?thesis using that r inj by (metis inj_onD)
qed

lemma delivered_keys:
  assumes step: "delivery_step w d oid carrier a c db" and db': "db' = order_delivered w d oid carrier ts a c db"
  shows "keys_ok db'"
  using consistentD(1) [OF delivery_stepD(1) [OF step]]
  by (auto simp: db' keys_ok_def order_delivered_def o_key_def ol_key_def ol_order_def c_key_def
      sql_delete_def distinct_map_filter)

lemma delivered_orders:
  assumes step: "delivery_step w d oid carrier a c db" and db': "db' = order_delivered w d oid carrier ts a c db"
  shows "orders_ok db'"
proof -
  note ok = consistentD(2) [OF delivery_stepD(1) [OF step], unfolded orders_ok_def]
  have o: "o_ids db' k = o_ids db k" for k
    by (auto simp: o_ids_def db' order_delivered_def bex_sql_update)
  have n: "no_ids db' k = no_ids db k - (if k = (w, d) then {oid} else {})" for k
    by (auto simp: no_ids_def db' order_delivered_def sql_delete_def no_key_def)
  have "\<exists>k. 1 \<le> k \<and> k \<le> d_next_o_id x \<and> no_ids db' (d_key x) = {k..<d_next_o_id x}"
    if x: "x \<in> set (district db)" for x
  proof -
    obtain k where k: "1 \<le> k" "k \<le> d_next_o_id x" "no_ids db (d_key x) = {k..<d_next_o_id x}"
      using ok x by blast
    show ?thesis
    proof (cases "d_key x = (w, d)")
      case True
      then have "oid \<in> {k..<d_next_o_id x}" "\<forall>m \<in> {k..<d_next_o_id x}. oid \<le> m"
        using delivery_stepD(2) [OF step] k(3) by (simp_all add: deliverable_def)
      then have "oid = k" "k < d_next_o_id x" by (auto intro: order_antisym)
      then show ?thesis using k True by (intro exI [of _ "k + 1"]) (auto simp: n)
    next
      case False
      then show ?thesis using k by (auto simp: n)
    qed
  qed
  moreover have "(\<lambda>r. (o_w_id r, o_d_id r)) ` set (oorder db') = (\<lambda>r. (o_w_id r, o_d_id r)) ` set (oorder db)"
    by (simp add: db' order_delivered_def sql_update_set_keys)
  then have "\<forall>r \<in> set (oorder db'). (o_w_id r, o_d_id r) \<in> d_key ` set (district db)"
    using ok by (metis (no_types, lifting) image_iff)
  moreover have "district db' = district db" by (simp add: db' order_delivered_def)
  ultimately show ?thesis using ok by (simp add: orders_ok_def o)
qed

lemma delivered_new_orders:
  assumes step: "delivery_step w d oid carrier a c db" and db': "db' = order_delivered w d oid carrier ts a c db"
  shows "new_orders_ok db'"
proof -
  obtain r where r: "r \<in> set (oorder db)" "o_key r = (w, d, oid)" "\<forall>q \<in> set (oorder db). o_key q = (w, d, oid) \<longrightarrow> q = r"
    using undelivered [OF step] by metis
  note ok = consistentD(3) [OF delivery_stepD(1) [OF step], unfolded new_orders_ok_def]
  have no: "no_key ` set (new_order db') = no_key ` set (new_order db) - {(w, d, oid)}"
    by (auto simp: db' order_delivered_def sql_delete_def)
  have "(\<exists>q \<in> set (oorder db'). o_key q = k \<and> o_carrier_id q = None)
     \<longleftrightarrow> k \<noteq> (w, d, oid) \<and> (\<exists>q \<in> set (oorder db). o_key q = k \<and> o_carrier_id q = None)" for k
    by (auto simp: db' order_delivered_def bex_sql_update o_key_def)
  moreover have "\<forall>q \<in> set (oorder db'). o_carrier_id q \<noteq> Some 0"
    using ok delivery_stepD(3) [OF step] by (auto simp: db' order_delivered_def ball_sql_update)
  ultimately show ?thesis using ok no by (auto simp: new_orders_ok_def)
qed

lemma delivered_lines:
  assumes step: "delivery_step w d oid carrier a c db" and db': "db' = order_delivered w d oid carrier ts a c db"
  shows "lines_ok db'"
proof -
  note ok = consistentD(4) [OF delivery_stepD(1) [OF step], unfolded lines_ok_def]
  have "length (sql_where ol_order k (order_line db')) = length (sql_where ol_order k (order_line db))" for k
    by (simp add: db' order_delivered_def sql_where_update_other ol_order_def)
  then have "\<forall>q \<in> set (oorder db'). 1 \<le> o_ol_cnt q \<and> o_ol_cnt q = int (length (sql_where ol_order (o_key q) (order_line db')))"
    using ok by (auto simp: db' order_delivered_def ball_sql_update o_key_def)
  moreover have "o_key ` set (oorder db') = o_key ` set (oorder db)"
    "ol_order ` set (order_line db') = ol_order ` set (order_line db)"
    by (simp_all add: db' order_delivered_def sql_update_set_keys o_key_def ol_order_def)
  then have "\<forall>l \<in> set (order_line db'). ol_order l \<in> o_key ` set (oorder db')"
    using ok by (metis image_eqI imageE)
  ultimately show ?thesis unfolding lines_ok_def by blast
qed

lemma delivered_delivery:
  assumes step: "delivery_step w d oid carrier a c db" and db': "db' = order_delivered w d oid carrier ts a c db"
  shows "delivery_ok db'"
proof -
  have "(ol_delivery_d l \<noteq> None) = (o_carrier_id q \<noteq> None)"
    if m: "q \<in> set (oorder db')" "l \<in> set (order_line db')" "ol_order l = o_key q" for q l
  proof -
    obtain q0 l0 where
      q0: "q0 \<in> set (oorder db)" "q = (if o_key q0 = (w, d, oid) then q0\<lparr>o_carrier_id := Some carrier\<rparr> else q0)"
      and l0: "l0 \<in> set (order_line db)" "l = (if ol_order l0 = (w, d, oid) then l0\<lparr>ol_delivery_d := Some ts\<rparr> else l0)"
      using m(1,2) by (auto simp: db' order_delivered_def in_sql_update)
    then have "o_key q = o_key q0" "ol_order l = ol_order l0" by (simp_all add: o_key_def ol_order_def)
    then show ?thesis using consistentD(5) [OF delivery_stepD(1) [OF step]] m(3) q0 l0 by (auto simp: delivery_ok_def simp del: not_None_eq)
  qed
  then show ?thesis by (simp add: delivery_ok_def)
qed

lemma delivered_ytd:
  assumes step: "delivery_step w d oid carrier a c db" and db': "db' = order_delivered w d oid carrier ts a c db"
  shows "ytd_ok db'"
proof -
  have "ytd_ok db' = ytd_ok db" by (simp add: ytd_ok_def db' order_delivered_def)
  then show ?thesis using consistentD(6) [OF delivery_stepD(1) [OF step]] by simp
qed

lemma delivered_balance:
  assumes step: "delivery_step w d oid carrier a c db" and db': "db' = order_delivered w d oid carrier ts a c db"
  shows "balance_ok db'"
proof -
  obtain r where r: "r \<in> set (oorder db)" "o_key r = (w, d, oid)" "o_c_id r = c"
    "\<forall>q \<in> set (oorder db). o_key q = (w, d, oid) \<longrightarrow> q = r"
    and nd: "\<forall>l \<in> set (order_line db). ol_order l = (w, d, oid) \<longrightarrow> ol_delivery_d l = None"
    using undelivered [OF step] by metis
  have o: "orders_of db' k = orders_of db k" for k
    by (auto simp: orders_of_def db' order_delivered_def bex_sql_update o_cust_def o_key_def)
  have "(w, d, oid) \<in> orders_of db k \<longleftrightarrow> k = (w, d, c)" for k
  proof
    assume "(w, d, oid) \<in> orders_of db k"
    then have "o_cust r = k" using r(4) by (auto simp: orders_of_def)
    then show "k = (w, d, c)" using r(2,3) by (simp add: o_cust_def o_key_def)
  next
    assume "k = (w, d, c)"
    then have "o_cust r = k" using r(2,3) by (simp add: o_cust_def o_key_def)
    then show "(w, d, oid) \<in> orders_of db k" using r(1,2) unfolding orders_of_def by blast
  qed
  moreover have "order_line db' = sql_update ol_order (w, d, oid) (\<lambda>r. r\<lparr>ol_delivery_d := Some ts\<rparr>) (order_line db)"
    by (simp add: db' order_delivered_def)
  moreover have "a = sum_where (\<lambda>l. ol_order l = (w, d, oid)) ol_amount (order_line db)"
    using delivery_stepD(2) [OF step] by (simp add: deliverable_def)
  ultimately have sum: "delivered_sum db' k = delivered_sum db k + (if k = (w, d, c) then a else 0)" for k
    using sum_delivered_update [OF nd, of "orders_of db k" ts] unfolding delivered_sum_def o by simp
  have p: "paid db' k = paid db k" for k by (simp add: paid_def db' order_delivered_def)
  show ?thesis unfolding balance_ok_def
  proof
    fix q assume "q \<in> set (customer db')"
    then obtain q0 where q0: "q0 \<in> set (customer db)" "q = (if c_key q0 = (w, d, c) then q0\<lparr>c_balance := c_balance q0 + a,
        c_delivery_cnt := c_delivery_cnt q0 + 1\<rparr> else q0)"
      by (auto simp: db' order_delivered_def in_sql_update)
    then have "c_key q = c_key q0" by (simp add: c_key_def)
    then show "c_balance q = delivered_sum db' (c_key q) - paid db' (c_key q) \<and> c_ytd_payment q = paid db' (c_key q)"
      using consistentD(7) [OF delivery_stepD(1) [OF step]] q0 by (auto simp: balance_ok_def sum p)
  qed
qed

lemma delivered_consistent:
  assumes "delivery_step w d oid carrier a c db"
  shows "consistent (order_delivered w d oid carrier ts a c db)"
  using delivered_keys [OF assms refl] delivered_orders [OF assms refl] delivered_new_orders [OF assms refl]
    delivered_lines [OF assms refl] delivered_delivery [OF assms refl] delivered_ytd [OF assms refl]
    delivered_balance [OF assms refl]
  by (simp add: consistent_def)

text \<open>A delivery leaves the orders read for the other districts deliverable.\<close>

lemma deliverable_other:
  assumes "deliverable w d2 oid2 a2 c2 db" "d2 \<noteq> d"
  shows "deliverable w d2 oid2 a2 c2 (order_delivered w d oid carrier ts a c db)"
proof -
  let ?db = "order_delivered w d oid carrier ts a c db"
  have "no_ids ?db (w, d2) = no_ids db (w, d2)"
    using assms(2) by (auto simp: no_ids_def order_delivered_def sql_delete_def no_key_def)
  moreover have "(\<exists>r \<in> set (oorder ?db). o_key r = (w, d2, oid2) \<and> o_c_id r = c2)"
    using assms by (fastforce simp: deliverable_def order_delivered_def in_sql_update o_key_def)
  moreover have "sum_where (\<lambda>l. ol_order l = k) ol_amount (order_line ?db) = sum_where (\<lambda>l. ol_order l = k) ol_amount (order_line db)" for k
    by (simp add: order_delivered_def sum_where_update_other ol_order_def)
  ultimately show ?thesis using assms(1) by (simp add: deliverable_def)
qed

end
