(* ===== verification/Check.thy ===== *)
theory Check
  imports Consistency
begin

text \<open>
  The consistency checker of \<open>src/src/check.cpp\<close>: the SQL operators its queries use, every check
  as a function of the database, and \<open>CheckSync\<close>. A check returns normally or with the
  exception it throws; the texts of the messages are shortened. C++ \<open>int\<close> products are
  checked for overflow. The connection it opens is left out.
\<close>

section \<open>SQL operators\<close>

definition group_by :: "('r \<Rightarrow> 'k) \<Rightarrow> 'r list \<Rightarrow> ('k \<times> 'r list) list" where
  "group_by key t = map (\<lambda>k. (k, sql_where key k t)) (remdups (map key t))"

definition inner_join :: "('a \<Rightarrow> 'b \<Rightarrow> bool) \<Rightarrow> 'a list \<Rightarrow> 'b list \<Rightarrow> ('a \<times> 'b) list" where
  "inner_join on a b = concat (map (\<lambda>x. map (Pair x) (filter (on x) b)) a)"

text \<open>\<open>LEFT JOIN\<close>: a row without a partner is kept once, with \<open>NULL\<close> on the right.\<close>

definition left_join :: "('a \<Rightarrow> 'b \<Rightarrow> bool) \<Rightarrow> 'a list \<Rightarrow> 'b list \<Rightarrow> ('a \<times> 'b option) list" where
  "left_join on a b = concat (map (\<lambda>x. case filter (on x) b of [] \<Rightarrow> [(x, None)]
     | ys \<Rightarrow> map (\<lambda>y. (x, Some y)) ys) a)"

text \<open>Aggregates over a whole table; \<open>NULL\<close> on an empty one.\<close>

definition agg_max :: "int list \<Rightarrow> int option" where
  "agg_max xs = (if xs = [] then None else Some (Max (set xs)))"

definition agg_min :: "int list \<Rightarrow> int option" where
  "agg_min xs = (if xs = [] then None else Some (Min (set xs)))"

text \<open>\<open>GetInt32\<close> of a nullable column: \<open>Require\<close> throws on \<open>NULL\<close>.\<close>

definition get_int :: "int option \<Rightarrow> int result" where
  "get_int c = (case c of None \<Rightarrow> Inl (RuntimeError ''NULL in column'') | Some v \<Rightarrow> Inr v)"

text \<open>A product of C++ \<open>int\<close>s.\<close>

definition imul :: "int \<Rightarrow> int \<Rightarrow> int result" where
  "imul a b = (if - (2 ^ 31) \<le> a * b \<and> a * b < 2 ^ 31 then Inr (a * b) else Inl (UB ''signed overflow''))"

text \<open>\<open>ABS(a - b) > 1e-3\<close> for amounts in cents.\<close>

definition money_differs :: "money \<Rightarrow> money \<Rightarrow> bool" where
  "money_differs a b \<longleftrightarrow> 10 * \<bar>a - b\<bar> > 1"

definition require :: "bool \<Rightarrow> string \<Rightarrow> unit result" where
  "require b msg = (if b then Inr () else Inl (RuntimeError msg))"

definition CheckNoRows :: "'r list \<Rightarrow> unit result" where
  "CheckNoRows rows = (case take 1 rows of [] \<Rightarrow> Inr () | _ \<Rightarrow> Inl (RuntimeError ''Unexpected rows returned''))"

text \<open>\<open>min != lo || max != hi\<close> for a column.\<close>

definition check_range :: "int list \<Rightarrow> int \<Rightarrow> int \<Rightarrow> string \<Rightarrow> unit result" where
  "check_range xs lo hi msg = rbind (get_int (agg_min xs)) (\<lambda>mn. rbind (get_int (agg_max xs)) (\<lambda>mx.
     require (mn = lo \<and> mx = hi) msg))"

section \<open>Base checks\<close>

definition BaseCheckWarehouseTable :: "int \<Rightarrow> database \<Rightarrow> unit result" where
  "BaseCheckWarehouseTable n db = (let xs = map w_id (warehouse db) in
     rbind (get_int (agg_max xs)) (\<lambda>mx. rbind (get_int (agg_min xs)) (\<lambda>mn.
     require (int (length xs) = n \<and> mn = 1 \<and> mx = n) ''Inconsistent warehouse'')))"

definition BaseCheckDistrictTable :: "int \<Rightarrow> database \<Rightarrow> unit result" where
  "BaseCheckDistrictTable n db = rbind (imul n DISTRICT_COUNT) (\<lambda>expected.
     rbind (require (int (length (district db)) = expected) ''District count'') (\<lambda>_.
     rbind (check_range (map d_w_id (district db)) 1 n ''District warehouse range'') (\<lambda>_.
     check_range (map d_id (district db)) DISTRICT_LOW_ID DISTRICT_HIGH_ID ''District ID range'')))"

definition BaseCheckCustomerTable :: "int \<Rightarrow> database \<Rightarrow> unit result" where
  "BaseCheckCustomerTable n db = rbind (imul n CUSTOMERS_PER_DISTRICT) (\<lambda>m.
     rbind (imul m DISTRICT_COUNT) (\<lambda>expected.
     rbind (require (int (length (customer db)) = expected) ''Customer count'') (\<lambda>_.
     rbind (check_range (map c_w_id (customer db)) 1 n ''Customer warehouse range'') (\<lambda>_.
     rbind (check_range (map c_d_id (customer db)) DISTRICT_LOW_ID DISTRICT_HIGH_ID ''Customer district range'') (\<lambda>_.
     check_range (map c_id (customer db)) 1 CUSTOMERS_PER_DISTRICT ''Customer ID range'')))))"

definition BaseCheckItemTable :: "database \<Rightarrow> unit result" where
  "BaseCheckItemTable db =
     rbind (require (int (length (item db)) = ITEM_COUNT) ''Item count'') (\<lambda>_.
     check_range (map i_id (item db)) 1 ITEM_COUNT ''Item ID range'')"

definition BaseCheckStockTable :: "int \<Rightarrow> database \<Rightarrow> unit result" where
  "BaseCheckStockTable n db = rbind (imul n ITEM_COUNT) (\<lambda>expected.
     rbind (require (int (length (stock db)) = expected) ''Stock count'') (\<lambda>_.
     rbind (require (int (length (remdups (map s_w_id (stock db)))) = n) ''Stock warehouse count'') (\<lambda>_.
     rbind (check_range (map s_w_id (stock db)) 1 n ''Stock warehouse range'') (\<lambda>_.
     check_range (map s_i_id (stock db)) 1 ITEM_COUNT ''Stock item range''))))"

definition BaseCheckOorderTable :: "int \<Rightarrow> database \<Rightarrow> unit result" where
  "BaseCheckOorderTable n db = rbind (imul n CUSTOMERS_PER_DISTRICT) (\<lambda>m.
     rbind (imul m DISTRICT_COUNT) (\<lambda>expected.
     rbind (require (int (length (oorder db)) = expected) ''Order count'') (\<lambda>_.
     rbind (check_range (map o_w_id (oorder db)) 1 n ''Order warehouse range'') (\<lambda>_.
     rbind (check_range (map o_d_id (oorder db)) DISTRICT_LOW_ID DISTRICT_HIGH_ID ''Order district range'') (\<lambda>_.
     check_range (map o_id (oorder db)) 1 CUSTOMERS_PER_DISTRICT ''Order ID range'')))))"

definition BaseCheckNewOrderTable :: "int \<Rightarrow> database \<Rightarrow> unit result" where
  "BaseCheckNewOrderTable n db = (let perDistrict = CUSTOMERS_PER_DISTRICT - FIRST_UNPROCESSED_O_ID + 1 in
     rbind (imul n perDistrict) (\<lambda>m. rbind (imul m DISTRICT_COUNT) (\<lambda>expected.
     rbind (require (int (length (new_order db)) = expected) ''New order count'') (\<lambda>_.
     rbind (check_range (map no_w_id (new_order db)) 1 n ''New order warehouse range'') (\<lambda>_.
     rbind (check_range (map no_d_id (new_order db)) DISTRICT_LOW_ID DISTRICT_HIGH_ID ''New order district range'') (\<lambda>_.
     rbind (get_int (agg_min (map no_o_id (new_order db)))) (\<lambda>mn.
     rbind (get_int (agg_max (map no_o_id (new_order db)))) (\<lambda>mx.
     require (\<not> mn < FIRST_UNPROCESSED_O_ID \<and> mx = CUSTOMERS_PER_DISTRICT) ''New order ID range''))))))))"

definition BaseCheckOrderLineTable :: "int \<Rightarrow> database \<Rightarrow> unit result" where
  "BaseCheckOrderLineTable n db = (let sub = map (\<lambda>(k, g). int (length (remdups (map ol_o_id g))))
       (group_by (\<lambda>l. (ol_w_id l, ol_d_id l)) (order_line db)) in
     rbind (imul n DISTRICT_COUNT) (\<lambda>expected.
     rbind (require (int (length sub) = expected) ''Order line district count'') (\<lambda>_.
     check_range sub CUSTOMERS_PER_DISTRICT CUSTOMERS_PER_DISTRICT ''Order line orders per district'')))"

definition BaseCheckHistoryTable :: "int \<Rightarrow> database \<Rightarrow> unit result" where
  "BaseCheckHistoryTable n db = rbind (imul n CUSTOMERS_PER_DISTRICT) (\<lambda>m.
     rbind (imul m DISTRICT_COUNT) (\<lambda>expected.
     rbind (require (int (length (history db)) = expected) ''History count'') (\<lambda>_.
     check_range (map h_c_w_id (history db)) 1 n ''History warehouse range'')))"

section \<open>Consistency checks\<close>

definition ConsistencyCheck3321 :: "database \<Rightarrow> unit result" where
  "ConsistencyCheck3321 db = CheckNoRows (filter (\<lambda>(w, k, g). money_differs (w_ytd w) (sum_list (map d_ytd g)))
     (inner_join (\<lambda>w g. w_id w = fst g) (warehouse db) (group_by d_w_id (district db))))"

text \<open>A comparison with \<open>NULL\<close> is not true.\<close>

definition ConsistencyCheck3322 :: "database \<Rightarrow> unit result" where
  "ConsistencyCheck3322 db =
     (let os = map (\<lambda>(k, g). (k, Max (set (map o_id g)))) (group_by (\<lambda>r. (o_w_id r, o_d_id r)) (oorder db));
          ns = map (\<lambda>(k, g). (k, Max (set (map no_o_id g)))) (group_by (\<lambda>r. (no_w_id r, no_d_id r)) (new_order db)) in
      CheckNoRows (filter (\<lambda>((d, mo), mn).
          (case mo of None \<Rightarrow> False | Some (_, m) \<Rightarrow> d_next_o_id d - 1 \<noteq> m)
        \<or> (case (mo, mn) of (Some (_, m), Some (_, m')) \<Rightarrow> m \<noteq> m' | _ \<Rightarrow> False))
        (left_join (\<lambda>(d, _) n. d_key d = fst n) (left_join (\<lambda>d p. d_key d = fst p) (district db) os) ns)))"

definition ConsistencyCheck3323 :: "database \<Rightarrow> unit result" where
  "ConsistencyCheck3323 db = CheckNoRows (filter (\<lambda>(k, g).
       int (length g) - (Max (set (map no_o_id g)) - Min (set (map no_o_id g)) + 1) \<noteq> 0)
     (group_by (\<lambda>r. (no_w_id r, no_d_id r)) (new_order db)))"

text \<open>
  \<open>for (startWh = 1; startWh <= warehouseCount; startWh += kRangeSize)\<close> with the range
  \<open>[startWh, min(startWh + kRangeSize - 1, warehouseCount)]\<close>.
\<close>

function wh_ranges :: "nat \<Rightarrow> int \<Rightarrow> int \<Rightarrow> (int \<times> int) list" where
  "wh_ranges k s n = (if s \<le> n \<and> 0 < k then (s, min (s + int k - 1) n) # wh_ranges k (s + int k) n else [])"
  by auto
termination by (relation "measure (\<lambda>(k, s, n). nat (n - s + 1))") auto

declare wh_ranges.simps [simp del]

definition for_ranges :: "nat \<Rightarrow> int \<Rightarrow> (int \<Rightarrow> int \<Rightarrow> unit result) \<Rightarrow> unit result" where
  "for_ranges kRangeSize n check = rfold (\<lambda>(s, e) _. check s e) (wh_ranges kRangeSize 1 n) ()"

definition in_wh :: "int \<Rightarrow> int \<Rightarrow> int \<Rightarrow> bool" where
  "in_wh s e w \<longleftrightarrow> s \<le> w \<and> w \<le> e"

definition ConsistencyCheck3324 :: "int \<Rightarrow> database \<Rightarrow> unit result" where
  "ConsistencyCheck3324 n db = for_ranges 50 n (\<lambda>s e.
     let ords = map (\<lambda>(k, g). (k, sum_list (map o_ol_cnt g)))
           (group_by (\<lambda>r. (o_w_id r, o_d_id r)) (filter (\<lambda>r. in_wh s e (o_w_id r)) (oorder db)));
         ol = map (\<lambda>(k, g). (k, int (length g)))
           (group_by (\<lambda>r. (ol_w_id r, ol_d_id r)) (filter (\<lambda>r. in_wh s e (ol_w_id r)) (order_line db))) in
     CheckNoRows (
       map (\<lambda>(x, _). fst x) (filter (\<lambda>(x, y). snd x \<noteq> (case y of None \<Rightarrow> - 1 | Some y \<Rightarrow> snd y))
         (left_join (\<lambda>x y. fst x = fst y) ords ol))
     @ map (\<lambda>(x, _). fst x) (filter (\<lambda>(x, y). y = None) (left_join (\<lambda>x y. fst y = fst x) ol ords))))"

definition ConsistencyCheck3325 :: "int \<Rightarrow> database \<Rightarrow> unit result" where
  "ConsistencyCheck3325 n db = for_ranges 50 n (\<lambda>s e. CheckNoRows (
       map (\<lambda>(x, _). no_key x) (filter (\<lambda>(x, y). in_wh s e (no_w_id x)
           \<and> (case y of None \<Rightarrow> True | Some r \<Rightarrow> o_carrier_id r \<noteq> None \<and> o_carrier_id r \<noteq> Some 0))
         (left_join (\<lambda>x r. no_key x = o_key r) (new_order db) (oorder db)))
     @ map (\<lambda>(r, _). o_key r) (filter (\<lambda>(r, y). in_wh s e (o_w_id r)
           \<and> (o_carrier_id r = None \<or> o_carrier_id r = Some 0) \<and> y = None)
         (left_join (\<lambda>r x. o_key r = no_key x) (oorder db) (new_order db)))))"

definition ConsistencyCheck3326 :: "int \<Rightarrow> database \<Rightarrow> unit result" where
  "ConsistencyCheck3326 n db = for_ranges 50 n (\<lambda>s e.
     let lines = filter (\<lambda>l. in_wh s e (ol_w_id l)) (order_line db);
         l = map (\<lambda>(k, g). (k, int (length g))) (group_by ol_order lines) in
     CheckNoRows (
       map (\<lambda>(r, _). o_key r) (filter (\<lambda>(r, y). in_wh s e (o_w_id r)
           \<and> o_ol_cnt r \<noteq> (case y of None \<Rightarrow> 0 | Some y \<Rightarrow> snd y))
         (left_join (\<lambda>r y. o_key r = fst y) (oorder db) l))
     @ map fst (filter (\<lambda>(k, r). r = None)
         (left_join (\<lambda>k r. k = o_key r) (remdups (map ol_order lines)) (oorder db)))))"

definition ConsistencyCheck3327 :: "int \<Rightarrow> database \<Rightarrow> unit result" where
  "ConsistencyCheck3327 n db = for_ranges 10 n (\<lambda>s e.
     let l = map (\<lambda>(k, g). (k, list_all (\<lambda>x. ol_delivery_d x \<noteq> None) g, list_ex (\<lambda>x. ol_delivery_d x = None) g))
           (group_by ol_order (filter (\<lambda>l. in_wh s e (ol_w_id l)) (order_line db))) in
     CheckNoRows (filter (\<lambda>((k, all_delivered, some_null), r).
         (o_carrier_id r = None \<and> all_delivered) \<or> (o_carrier_id r \<noteq> None \<and> some_null))
       (inner_join (\<lambda>x r. fst x = o_key r) l (oorder db))))"

definition ConsistencyCheck3328 :: "database \<Rightarrow> unit result" where
  "ConsistencyCheck3328 db = CheckNoRows (filter (\<lambda>(w, k, g). money_differs (w_ytd w) (sum_list (map h_amount g)))
     (inner_join (\<lambda>w g. w_id w = fst g) (warehouse db) (group_by h_w_id (history db))))"

definition ConsistencyCheck3329 :: "database \<Rightarrow> unit result" where
  "ConsistencyCheck3329 db = CheckNoRows (filter (\<lambda>(d, k, g). money_differs (d_ytd d) (sum_list (map h_amount g)))
     (inner_join (\<lambda>d g. d_key d = fst g) (district db) (group_by (\<lambda>h. (h_w_id h, h_d_id h)) (history db))))"

text \<open>The delivered lines with their orders, per customer, in the warehouses \<open>[s, e]\<close>.\<close>

definition delivered_by_customer :: "int \<Rightarrow> int \<Rightarrow> database \<Rightarrow> ((int \<times> int \<times> int) \<times> money) list" where
  "delivered_by_customer s e db = map (\<lambda>(k, g). (k, sum_list (map (\<lambda>(r, l). ol_amount l) g)))
     (group_by (\<lambda>(r, l). o_cust r) (filter (\<lambda>(r, l). ol_delivery_d l \<noteq> None \<and> in_wh s e (o_w_id r))
       (inner_join (\<lambda>r l. ol_order l = o_key r) (oorder db) (order_line db))))"

definition ConsistencyCheck33210 :: "int \<Rightarrow> database \<Rightarrow> unit result" where
  "ConsistencyCheck33210 n db = for_ranges 10 n (\<lambda>s e.
     let hs = map (\<lambda>(k, g). (k, sum_list (map h_amount g)))
           (group_by h_cust (filter (\<lambda>h. in_wh s e (h_c_w_id h)) (history db))) in
     CheckNoRows (filter (\<lambda>((c, x), y). in_wh s e (c_w_id c)
         \<and> money_differs (c_balance c) ((case x of None \<Rightarrow> 0 | Some p \<Rightarrow> snd p) - (case y of None \<Rightarrow> 0 | Some p \<Rightarrow> snd p)))
       (left_join (\<lambda>(c, _) h. c_key c = fst h)
         (left_join (\<lambda>c x. c_key c = fst x) (customer db) (delivered_by_customer s e db)) hs)))"

definition ConsistencyCheck33211 :: "int \<Rightarrow> database \<Rightarrow> unit result" where
  "ConsistencyCheck33211 n db = for_ranges 50 n (\<lambda>s e.
     let ords = group_by (\<lambda>r. (o_w_id r, o_d_id r)) (filter (\<lambda>r. in_wh s e (o_w_id r)) (oorder db));
         ns = group_by (\<lambda>r. (no_w_id r, no_d_id r)) (filter (\<lambda>r. in_wh s e (no_w_id r)) (new_order db)) in
     CheckNoRows (filter (\<lambda>(x, y). int (length (snd x)) - int (length (snd y)) \<noteq> FIRST_UNPROCESSED_O_ID - 1)
       (inner_join (\<lambda>x y. fst x = fst y) ords ns)))"

definition ConsistencyCheck33212 :: "int \<Rightarrow> database \<Rightarrow> unit result" where
  "ConsistencyCheck33212 n db = for_ranges 10 n (\<lambda>s e.
     CheckNoRows (filter (\<lambda>(c, k, x). in_wh s e (c_w_id c) \<and> money_differs (c_balance c + c_ytd_payment c) x)
       (inner_join (\<lambda>c x. c_key c = fst x) (customer db) (delivered_by_customer s e db))))"

section \<open>Post-import checks\<close>

definition PostImportCheckNextOrderId :: "database \<Rightarrow> unit result" where
  "PostImportCheckNextOrderId db = CheckNoRows (filter (\<lambda>d. d_next_o_id d \<noteq> CUSTOMERS_PER_DISTRICT + 1) (district db))"

definition cents :: "rat \<Rightarrow> money" where
  "cents x = floor (100 * x)"

definition PostImportCheckWarehouseYtd :: "database \<Rightarrow> unit result" where
  "PostImportCheckWarehouseYtd db = CheckNoRows (filter (\<lambda>w.
     money_differs (w_ytd w) (cents (DISTRICT_INITIAL_YTD * of_int DISTRICT_COUNT))) (warehouse db))"

definition PostImportCheckDistrictYtd :: "database \<Rightarrow> unit result" where
  "PostImportCheckDistrictYtd db = CheckNoRows (filter (\<lambda>d. money_differs (d_ytd d) (cents DISTRICT_INITIAL_YTD)) (district db))"

definition PostImportCheckNoCarriers :: "database \<Rightarrow> unit result" where
  "PostImportCheckNoCarriers db = CheckNoRows (filter (\<lambda>r. FIRST_UNPROCESSED_O_ID \<le> o_id r \<and> o_carrier_id r \<noteq> None) (oorder db))"

definition PostImportCheckNoDeliveryDates :: "database \<Rightarrow> unit result" where
  "PostImportCheckNoDeliveryDates db = CheckNoRows (filter (\<lambda>l. FIRST_UNPROCESSED_O_ID \<le> ol_o_id l \<and> ol_delivery_d l \<noteq> None) (order_line db))"

section \<open>The checker\<close>

text \<open>\<open>runCheck\<close>: an exception counts as a failure; undefined behaviour is not an exception.\<close>

fun run_checks :: "unit result list \<Rightarrow> nat \<Rightarrow> nat result" where
  "run_checks [] failedCount = Inr failedCount"
| "run_checks (c # cs) failedCount = (case c of Inr _ \<Rightarrow> run_checks cs failedCount
     | Inl (UB m) \<Rightarrow> Inl (UB m) | Inl _ \<Rightarrow> run_checks cs (failedCount + 1))"

definition base_checks :: "int \<Rightarrow> database \<Rightarrow> unit result list" where
  "base_checks n db = [BaseCheckWarehouseTable n db, BaseCheckDistrictTable n db, BaseCheckCustomerTable n db,
     BaseCheckItemTable db, BaseCheckStockTable n db]"

definition base_checks_import :: "int \<Rightarrow> database \<Rightarrow> unit result list" where
  "base_checks_import n db = [BaseCheckOorderTable n db, BaseCheckNewOrderTable n db,
     BaseCheckOrderLineTable n db, BaseCheckHistoryTable n db]"

definition consistency_checks :: "int \<Rightarrow> database \<Rightarrow> unit result list" where
  "consistency_checks n db = [ConsistencyCheck3321 db, ConsistencyCheck3322 db, ConsistencyCheck3323 db,
     ConsistencyCheck3324 n db, ConsistencyCheck3325 n db, ConsistencyCheck3326 n db, ConsistencyCheck3327 n db,
     ConsistencyCheck3328 db, ConsistencyCheck3329 db, ConsistencyCheck33210 n db, ConsistencyCheck33212 n db]"

definition post_import_checks :: "int \<Rightarrow> database \<Rightarrow> unit result list" where
  "post_import_checks n db = [ConsistencyCheck33211 n db, PostImportCheckNextOrderId db,
     PostImportCheckWarehouseYtd db, PostImportCheckDistrictYtd db, PostImportCheckNoCarriers db,
     PostImportCheckNoDeliveryDates db]"

definition CheckSync :: "int \<Rightarrow> bool \<Rightarrow> database \<Rightarrow> unit result" where
  "CheckSync warehouseCount afterImport db = (if warehouseCount \<le> 0 then Inr () else
     rbind (run_checks (base_checks warehouseCount db
       @ (if afterImport then base_checks_import warehouseCount db else [])) 0) (\<lambda>failed.
     if 0 < failed then Inl (RuntimeError ''Base checks failed'') else
     rbind (run_checks (consistency_checks warehouseCount db
       @ (if afterImport then post_import_checks warehouseCount db else [])) 0) (\<lambda>failedCount.
     if failedCount = 0 then Inr () else Inl (RuntimeError ''checks failed''))))"

end
