(* ===== verification/CheckProofs.thy ===== *)
theory CheckProofs
  imports Check
begin

text \<open>
  The invariant \<open>consistent\<close> implies that the consistency checks of \<open>check.cpp\<close> find nothing, and
  the base checks depend only on the keys of the static tables.
\<close>

section \<open>The SQL operators\<close>

lemma CheckNoRows_ok [simp]: "CheckNoRows rows = Inr () \<longleftrightarrow> rows = []"
  by (cases rows) (simp_all add: CheckNoRows_def)

lemma CheckNoRows_filterI: "(\<And>x. x \<in> set xs \<Longrightarrow> \<not> P x) \<Longrightarrow> CheckNoRows (filter P xs) = Inr ()"
  by (simp add: filter_empty_conv)

lemma for_rangesI: "(\<And>s e. check s e = Inr ()) \<Longrightarrow> for_ranges k n check = Inr ()"
proof -
  assume "\<And>s e. check s e = Inr ()"
  then have "rfold (\<lambda>(s, e) _. check s e) xs () = Inr ()" for xs by (induction xs) auto
  then show ?thesis by (simp add: for_ranges_def)
qed

lemma group_by_mem: "x \<in> set (group_by key t) \<longleftrightarrow> fst x \<in> key ` set t \<and> snd x = sql_where key (fst x) t"
  by (cases x) (auto simp: group_by_def)

lemma group_map_mem:
  "p \<in> set (map (\<lambda>(k, g). (k, F g)) (group_by key t)) \<longleftrightarrow> fst p \<in> key ` set t \<and> snd p = F (sql_where key (fst p) t)"
  by (cases p) (auto simp: group_by_def image_iff)

lemma inner_join_mem: "x \<in> set (inner_join on a b) \<longleftrightarrow> fst x \<in> set a \<and> snd x \<in> set b \<and> on (fst x) (snd x)"
  by (cases x) (auto simp: inner_join_def)

lemma left_join_mem:
  "x \<in> set (left_join on a b) \<longleftrightarrow> fst x \<in> set a \<and> (case snd x of None \<Rightarrow> \<forall>z \<in> set b. \<not> on (fst x) z
     | Some z \<Rightarrow> z \<in> set b \<and> on (fst x) z)"
proof -
  have J: "(u, y) \<in> set (case filter (on v) b of [] \<Rightarrow> [(v, None)] | ys \<Rightarrow> map (\<lambda>y. (v, Some y)) ys)
      \<longleftrightarrow> u = v \<and> (case y of None \<Rightarrow> \<forall>z \<in> set b. \<not> on v z | Some z \<Rightarrow> z \<in> set b \<and> on v z)" for u v y
  proof (cases "filter (on v) b")
    case Nil
    then show ?thesis by (auto simp: filter_empty_conv split: option.splits)
  next
    case (Cons z zs)
    then have "set (z # zs) = {z \<in> set b. on v z}" by (metis set_filter)
    then show ?thesis using Cons by (auto split: option.splits)
  qed
  show ?thesis unfolding left_join_def set_concat set_map UN_iff bex_simps(7) by (cases x) (simp only: J fst_conv snd_conv, blast)
qed

lemma money_differs_refl [simp]: "\<not> money_differs a a"
  by (simp add: money_differs_def)

text \<open>A group's sum is the sum over the table.\<close>

lemma sum_group: "sum_list (map f (sql_where key k t)) = sum_where (\<lambda>r. key r = k) f t"
  by (simp add: sum_where_def sql_where_def)

lemma sum_where_disjoint:
  assumes "\<And>r. r \<in> set t \<Longrightarrow> \<not> (P r \<and> R r)"
  shows "sum_where P g t + sum_where R g t = sum_where (\<lambda>r. P r \<or> R r) g t"
  using assms by (induction t) auto

text \<open>Summing over the orders, then over the lines of each, is summing over the lines.\<close>

lemma sum_orders_lines:
  assumes "distinct (map o_key os)"
  shows "sum_list (map (\<lambda>r. sum_where (\<lambda>l. Q l \<and> ol_order l = o_key r) f ls) os)
    = sum_where (\<lambda>l. Q l \<and> ol_order l \<in> o_key ` set os) f ls"
  using assms
proof (induction os)
  case Nil
  show ?case by (simp add: sum_where_def)
next
  case (Cons r os)
  have "sum_list (map (\<lambda>r. sum_where (\<lambda>l. Q l \<and> ol_order l = o_key r) f ls) (r # os))
      = sum_where (\<lambda>l. Q l \<and> ol_order l = o_key r) f ls + sum_where (\<lambda>l. Q l \<and> ol_order l \<in> o_key ` set os) f ls"
    using Cons by simp
  also have "\<dots> = sum_where (\<lambda>l. Q l \<and> ol_order l \<in> o_key ` set (r # os)) f ls"
    by (subst sum_where_disjoint) (use Cons.prems in \<open>auto intro: sum_where_cong\<close>)
  finally show ?case .
qed

section \<open>Checks on the money columns\<close>

lemma check_3321: "consistent db \<Longrightarrow> ConsistencyCheck3321 db = Inr ()"
  using consistentD(6) [of db] unfolding ConsistencyCheck3321_def
  by (intro CheckNoRows_filterI) (auto simp: inner_join_mem group_by_mem sum_group ytd_ok_def)

lemma check_3328: "consistent db \<Longrightarrow> ConsistencyCheck3328 db = Inr ()"
  using consistentD(6) [of db] unfolding ConsistencyCheck3328_def
  by (intro CheckNoRows_filterI) (auto simp: inner_join_mem group_by_mem sum_group ytd_ok_def)

lemma check_3329: "consistent db \<Longrightarrow> ConsistencyCheck3329 db = Inr ()"
  using consistentD(6) [of db] unfolding ConsistencyCheck3329_def
  by (intro CheckNoRows_filterI) (auto simp: inner_join_mem group_by_mem sum_group ytd_ok_def d_key_def)

section \<open>Checks on the order tables\<close>

lemma Max_atLeastLessThan_int: "(a :: int) < b \<Longrightarrow> Max {a..<b} = b - 1"
  by (rule Max_eqI) auto

lemma Min_atLeastLessThan_int: "(a :: int) < b \<Longrightarrow> Min {a..<b} = a"
  by (rule Min_eqI) auto

lemma group_o_ids: "set (map o_id (sql_where (\<lambda>r. (o_w_id r, o_d_id r)) k (oorder db))) = o_ids db k"
  by (auto simp: o_ids_def)

lemma group_no_ids: "set (map no_o_id (sql_where (\<lambda>r. (no_w_id r, no_d_id r)) k (new_order db))) = no_ids db k"
  by (auto simp: no_ids_def)

lemma new_order_district:
  assumes "consistent db" "n \<in> set (new_order db)"
  obtains d where "d \<in> set (district db)" "d_key d = (no_w_id n, no_d_id n)"
proof -
  have "no_key n \<in> no_key ` set (new_order db)" using assms(2) by simp
  then obtain r where r: "r \<in> set (oorder db)" "o_key r = no_key n"
    using consistentD(3) [OF assms(1)] unfolding new_orders_ok_def by metis
  then have "(o_w_id r, o_d_id r) \<in> d_key ` set (district db)"
    using consistentD(2) [OF assms(1)] by (simp add: orders_ok_def)
  moreover have "(o_w_id r, o_d_id r) = (no_w_id n, no_d_id n)" using r(2) by (simp add: o_key_def no_key_def)
  ultimately show ?thesis using that by auto
qed

lemma check_3322:
  assumes "consistent db"
  shows "ConsistencyCheck3322 db = Inr ()"
  unfolding ConsistencyCheck3322_def Let_def
proof (rule CheckNoRows_filterI, goal_cases)
  case (1 x)
  let ?os = "map (\<lambda>(k, g). (k, Max (set (map o_id g)))) (group_by (\<lambda>r. (o_w_id r, o_d_id r)) (oorder db))"
  let ?ns = "map (\<lambda>(k, g). (k, Max (set (map no_o_id g)))) (group_by (\<lambda>r. (no_w_id r, no_d_id r)) (new_order db))"
  note ok = consistentD(2) [OF assms, unfolded orders_ok_def]
  obtain d mo mn where x: "x = ((d, mo), mn)" by (metis surj_pair)
  have d: "d \<in> set (district db)" and mo: "\<And>p. mo = Some p \<Longrightarrow> p \<in> set ?os \<and> d_key d = fst p"
    and mn: "\<And>p. mn = Some p \<Longrightarrow> p \<in> set ?ns \<and> d_key d = fst p"
    using 1 unfolding x left_join_mem by (simp_all del: set_map)
  obtain k where k: "no_ids db (d_key d) = {k..<d_next_o_id d}" and o: "o_ids db (d_key d) = {1..<d_next_o_id d}"
    using ok d by blast
  have m: "snd p = d_next_o_id d - 1" if "mo = Some p" for p
  proof -
    have "p \<in> set ?os" "d_key d = fst p" using mo [OF that] by auto
    then have "snd p = Max (o_ids db (d_key d))" "d_key d \<in> (\<lambda>r. (o_w_id r, o_d_id r)) ` set (oorder db)"
      unfolding group_map_mem group_o_ids by simp_all
    moreover from this(2) have "o_ids db (d_key d) \<noteq> {}" by (fastforce simp: o_ids_def)
    ultimately show ?thesis using o Max_atLeastLessThan_int [of 1 "d_next_o_id d"] by auto
  qed
  have n: "snd p = d_next_o_id d - 1" if "mn = Some p" for p
  proof -
    have "p \<in> set ?ns" "d_key d = fst p" using mn [OF that] by auto
    then have "snd p = Max (no_ids db (d_key d))" "d_key d \<in> (\<lambda>r. (no_w_id r, no_d_id r)) ` set (new_order db)"
      unfolding group_map_mem group_no_ids by simp_all
    moreover from this(2) have "no_ids db (d_key d) \<noteq> {}" by (fastforce simp: no_ids_def)
    ultimately show ?thesis using k Max_atLeastLessThan_int [of k "d_next_o_id d"] by auto
  qed
  show ?case
    using m n by (auto simp: x split: option.splits)
qed

lemma check_3323:
  assumes "consistent db"
  shows "ConsistencyCheck3323 db = Inr ()"
  unfolding ConsistencyCheck3323_def
proof (rule CheckNoRows_filterI)
  let ?key = "\<lambda>r. (no_w_id r, no_d_id r)"
  fix x assume x: "x \<in> set (group_by ?key (new_order db))"
  then obtain nr where nr: "nr \<in> set (new_order db)" "fst x = ?key nr" and g: "snd x = sql_where ?key (fst x) (new_order db)"
    by (auto simp: group_by_mem)
  obtain d where d: "d \<in> set (district db)" "d_key d = fst x"
    using new_order_district [OF assms nr(1)] nr(2) by metis
  obtain k where k: "no_ids db (fst x) = {k..<d_next_o_id d}"
    using consistentD(2) [OF assms] d by (auto simp: orders_ok_def)
  have ids: "set (map no_o_id (snd x)) = {k..<d_next_o_id d}" using g k group_no_ids by metis
  have "no_o_id nr \<in> no_ids db (fst x)" using nr by (auto simp: no_ids_def)
  then have lt: "k < d_next_o_id d" using k by auto
  have "inj_on no_key (set (new_order db))" "distinct (new_order db)"
    using consistentD(1) [OF assms] by (simp_all add: keys_ok_def distinct_map)
  then have "distinct (snd x)" "inj_on no_o_id (set (snd x))"
    by (auto simp: g sql_where_def inj_on_def no_key_def dest!: sym [of "(_, _)" "fst x"])
  then have "distinct (map no_o_id (snd x))" by (simp add: distinct_map)
  then have "length (snd x) = card {k..<d_next_o_id d}" using ids by (metis distinct_card length_map)
  then show "\<not> (case x of (k, g) \<Rightarrow> int (length g) - (Max (set (map no_o_id g)) - Min (set (map no_o_id g)) + 1) \<noteq> 0)"
    using lt Max_atLeastLessThan_int [OF lt] Min_atLeastLessThan_int [OF lt] unfolding case_prod_beta ids by simp
qed

lemma check_3325:
  assumes "consistent db"
  shows "ConsistencyCheck3325 n db = Inr ()"
proof -
  note ok = consistentD(3) [OF assms, unfolded new_orders_ok_def]
  have inj: "inj_on o_key (set (oorder db))" using consistentD(1) [OF assms] by (simp add: keys_ok_def distinct_map)
  have none: "o_carrier_id r = None" if "nr \<in> set (new_order db)" "r \<in> set (oorder db)" "no_key nr = o_key r" for nr r
  proof -
    have "no_key nr \<in> no_key ` set (new_order db)" using that(1) by simp
    then obtain q where q: "q \<in> set (oorder db)" "o_key q = no_key nr" "o_carrier_id q = None" using ok by metis
    then have "q = r" using inj that by (metis inj_onD)
    then show ?thesis using q by simp
  qed
  have ex: "\<forall>nr \<in> set (new_order db). \<exists>r \<in> set (oorder db). no_key nr = o_key r"
  proof
    fix nr assume "nr \<in> set (new_order db)"
    then have "no_key nr \<in> no_key ` set (new_order db)" by simp
    then show "\<exists>r \<in> set (oorder db). no_key nr = o_key r" using ok by metis
  qed
  have ex': "\<forall>r \<in> set (oorder db). o_carrier_id r = None \<or> o_carrier_id r = Some 0 \<longrightarrow>
      (\<exists>nr \<in> set (new_order db). o_key r = no_key nr)"
  proof (intro ballI impI)
    fix r assume "r \<in> set (oorder db)" "o_carrier_id r = None \<or> o_carrier_id r = Some 0"
    then have "o_key r \<in> no_key ` set (new_order db)" using ok by blast
    then show "\<exists>nr \<in> set (new_order db). o_key r = no_key nr" by auto
  qed
  show ?thesis unfolding ConsistencyCheck3325_def
  proof (rule for_rangesI, unfold CheckNoRows_ok append_is_Nil_conv map_is_Nil_conv filter_empty_conv, intro conjI ballI)
    fix s e x assume "x \<in> set (left_join (\<lambda>x r. no_key x = o_key r) (new_order db) (oorder db))"
    then show "\<not> (case x of (x, y) \<Rightarrow> in_wh s e (no_w_id x)
           \<and> (case y of None \<Rightarrow> True | Some r \<Rightarrow> o_carrier_id r \<noteq> None \<and> o_carrier_id r \<noteq> Some 0))"
      using ex none unfolding left_join_mem case_prod_beta by (auto split: option.splits)
  next
    fix s e x assume "x \<in> set (left_join (\<lambda>r x. o_key r = no_key x) (oorder db) (new_order db))"
    then show "\<not> (case x of (r, y) \<Rightarrow> in_wh s e (o_w_id r) \<and> (o_carrier_id r = None \<or> o_carrier_id r = Some 0) \<and> y = None)"
      using ex' unfolding left_join_mem case_prod_beta by (auto split: option.splits)
  qed
qed

lemma lines_in_range:
  "in_wh s e (o_w_id r) \<Longrightarrow>
   sql_where ol_order (o_key r) (filter (\<lambda>l. in_wh s e (ol_w_id l)) t) = sql_where ol_order (o_key r) t"
  by (auto simp: sql_where_def ol_order_def o_key_def intro!: filter_cong)

lemma check_3326:
  assumes "consistent db"
  shows "ConsistencyCheck3326 n db = Inr ()"
proof -
  note ok = consistentD(4) [OF assms, unfolded lines_ok_def]
  show ?thesis unfolding ConsistencyCheck3326_def Let_def
  proof (rule for_rangesI, unfold CheckNoRows_ok append_is_Nil_conv map_is_Nil_conv filter_empty_conv, intro conjI ballI, goal_cases)
    case (1 s e x)
    obtain r y where x: "x = (r, y)" by fastforce
    let ?l = "filter (\<lambda>l. in_wh s e (ol_w_id l)) (order_line db)"
    have r: "r \<in> set (oorder db)" using 1 by (simp add: x left_join_mem)
    then have cnt: "1 \<le> o_ol_cnt r" "o_ol_cnt r = int (length (sql_where ol_order (o_key r) (order_line db)))"
      using ok by auto
    have "o_ol_cnt r = (case y of None \<Rightarrow> 0 | Some y \<Rightarrow> snd y)" if w: "in_wh s e (o_w_id r)"
    proof (cases y)
      case None
      have "sql_where ol_order (o_key r) ?l \<noteq> []" using cnt lines_in_range [OF w] by auto
      then obtain l where "l \<in> set ?l" "ol_order l = o_key r" using sql_where_none by (metis imageE)
      then have "o_key r \<in> ol_order ` set ?l" by (metis imageI)
      then have "\<exists>p \<in> set (map (\<lambda>(k, g). (k, int (length g))) (group_by ol_order ?l)). o_key r = fst p"
        unfolding Bex_def group_map_mem by auto
      then show ?thesis using 1 None by (simp add: x left_join_mem)
    next
      case (Some p)
      then have "p \<in> set (map (\<lambda>(k, g). (k, int (length g))) (group_by ol_order ?l))" "o_key r = fst p"
        using 1 unfolding x left_join_mem by simp_all
      then show ?thesis using Some cnt(2) lines_in_range [OF w] unfolding group_map_mem by simp
    qed
    then show ?case by (simp add: x)
  next
    case (2 s e x)
    then have "fst x \<in> ol_order ` set (order_line db)" by (auto simp: left_join_mem)
    then obtain r where "r \<in> set (oorder db)" "fst x = o_key r" using ok by auto
    then show ?case using 2 by (cases "snd x") (auto simp: left_join_mem)
  qed
qed

lemma check_3327:
  assumes "consistent db"
  shows "ConsistencyCheck3327 n db = Inr ()"
proof -
  note ok = consistentD(5) [OF assms, unfolded delivery_ok_def]
  show ?thesis unfolding ConsistencyCheck3327_def Let_def
  proof (rule for_rangesI, rule CheckNoRows_filterI, goal_cases)
    case (1 s e x)
    obtain k all some r where x: "x = ((k, all, some), r)" by (metis surj_pair)
    let ?l = "filter (\<lambda>l. in_wh s e (ol_w_id l)) (order_line db)"
    let ?g = "sql_where ol_order k ?l"
    have p: "(k, all, some) \<in> set (map (\<lambda>(k, g). (k, list_all (\<lambda>x. ol_delivery_d x \<noteq> None) g,
        list_ex (\<lambda>x. ol_delivery_d x = None) g)) (group_by ol_order ?l))"
      and r: "r \<in> set (oorder db)" "k = o_key r"
      using 1 unfolding x inner_join_mem fst_conv snd_conv by blast+
    have g: "k \<in> ol_order ` set ?l" "all = list_all (\<lambda>x. ol_delivery_d x \<noteq> None) ?g"
      "some = list_ex (\<lambda>x. ol_delivery_d x = None) ?g"
      using p unfolding group_map_mem by simp_all
    then obtain l where l: "l \<in> set ?g" by auto
    have "(ol_delivery_d x \<noteq> None) = (o_carrier_id r \<noteq> None)" if "x \<in> set ?g" for x
      using that ok r by auto
    then show ?case using l by (auto simp: x g list_all_iff list_ex_iff)
  qed
qed

text \<open>Per district: the sum of \<open>o_ol_cnt\<close> is the number of lines.\<close>

lemma district_lines:
  assumes "consistent db"
  shows "sum_list (map o_ol_cnt (sql_where (\<lambda>r. (o_w_id r, o_d_id r)) k (oorder db)))
    = int (length (sql_where (\<lambda>l. (ol_w_id l, ol_d_id l)) k (order_line db)))"
proof -
  note ok = consistentD(4) [OF assms, unfolded lines_ok_def]
  let ?os = "sql_where (\<lambda>r. (o_w_id r, o_d_id r)) k (oorder db)"
  have cnt: "int (length (sql_where key c t)) = sum_where (\<lambda>l. key l = c) (\<lambda>_. 1) t" for key c and t :: "'a list"
    by (simp add: sum_where_def sql_where_def sum_list_triv)
  have m: "map o_ol_cnt ?os = map (\<lambda>r. sum_where (\<lambda>l. True \<and> ol_order l = o_key r) (\<lambda>_. 1) (order_line db)) ?os"
    using ok by (simp add: cnt)
  have "distinct (map o_key ?os)"
    using consistentD(1) [OF assms] by (simp add: keys_ok_def sql_where_def distinct_map_filter)
  from sum_orders_lines [OF this, of "\<lambda>_. True" "\<lambda>_. 1" "order_line db"]
  have "sum_list (map o_ol_cnt ?os) = sum_where (\<lambda>l. ol_order l \<in> o_key ` set ?os) (\<lambda>_. 1) (order_line db)"
    unfolding m by (simp del: sql_where_set)
  also have "\<dots> = sum_where (\<lambda>l. (ol_w_id l, ol_d_id l) = k) (\<lambda>_. 1) (order_line db)"
  proof (rule sum_where_cong)
    fix l assume "l \<in> set (order_line db)"
    then obtain r where r: "r \<in> set (oorder db)" "ol_order l = o_key r" using ok by auto
    then show "(ol_order l \<in> o_key ` set ?os) = ((ol_w_id l, ol_d_id l) = k)"
      by (auto simp: o_key_def ol_order_def image_iff)
  qed simp
  finally show ?thesis by (simp add: cnt)
qed

lemma range_group:
  "(\<And>r. key r = k \<Longrightarrow> P r) \<Longrightarrow> sql_where key k (filter P t) = sql_where key k t"
  by (auto simp: sql_where_def intro!: filter_cong)

lemma check_3324:
  assumes "consistent db"
  shows "ConsistencyCheck3324 n db = Inr ()"
proof -
  note ok = consistentD(4) [OF assms, unfolded lines_ok_def]
  let ?ok = "\<lambda>r. (o_w_id r, o_d_id r)" and ?lk = "\<lambda>l. (ol_w_id l, ol_d_id l)"
  have line: "\<exists>r \<in> set (oorder db). ol_order l = o_key r" if "l \<in> set (order_line db)" for l using ok that by auto
  have has: "\<exists>l \<in> set (order_line db). ol_order l = o_key r" if "r \<in> set (oorder db)" for r
  proof -
    have "sql_where ol_order (o_key r) (order_line db) \<noteq> []" using ok that by fastforce
    then show ?thesis using sql_where_none [of "o_key r" ol_order "order_line db"] by fastforce
  qed
  show ?thesis unfolding ConsistencyCheck3324_def Let_def
  proof (rule for_rangesI, unfold CheckNoRows_ok append_is_Nil_conv map_is_Nil_conv filter_empty_conv, intro conjI ballI, goal_cases)
    case (1 s e x)
    let ?O = "filter (\<lambda>r. in_wh s e (o_w_id r)) (oorder db)" and ?L = "filter (\<lambda>r. in_wh s e (ol_w_id r)) (order_line db)"
    obtain p y where x: "x = (p, y)" by fastforce
    have p: "fst p \<in> ?ok ` set ?O" "snd p = sum_list (map o_ol_cnt (sql_where ?ok (fst p) ?O))"
      using 1 unfolding x left_join_mem fst_conv group_map_mem by simp_all
    then obtain r where r: "r \<in> set (oorder db)" "in_wh s e (o_w_id r)" "fst p = ?ok r" by auto
    have w: "sql_where ?ok (fst p) ?O = sql_where ?ok (fst p) (oorder db)" "sql_where ?lk (fst p) ?L = sql_where ?lk (fst p) (order_line db)"
      unfolding r(3) by - (rule range_group; use r(2) in simp)+
    show ?case
    proof (cases y)
      case None
      obtain l where l: "l \<in> set (order_line db)" "ol_order l = o_key r" using has r(1) by blast
      then have "fst p \<in> ?lk ` set ?L" using r by (force simp: ol_order_def o_key_def)
      then have "\<exists>z \<in> set (map (\<lambda>(k, g). (k, int (length g))) (group_by ?lk ?L)). fst p = fst z"
        unfolding Bex_def group_map_mem by auto
      then show ?thesis using 1 None by (simp add: x left_join_mem)
    next
      case (Some z)
      then have "z \<in> set (map (\<lambda>(k, g). (k, int (length g))) (group_by ?lk ?L))" "fst p = fst z"
        using 1 unfolding x left_join_mem by simp_all
      then show ?thesis using Some p(2) w district_lines [OF assms, of "fst p"] unfolding group_map_mem by (simp add: x)
    qed
  next
    case (2 s e x)
    let ?O = "filter (\<lambda>r. in_wh s e (o_w_id r)) (oorder db)" and ?L = "filter (\<lambda>r. in_wh s e (ol_w_id r)) (order_line db)"
    obtain p y where x: "x = (p, y)" by fastforce
    have "fst p \<in> ?lk ` set ?L" using 2 unfolding x left_join_mem fst_conv group_map_mem by simp
    then obtain l where l: "l \<in> set (order_line db)" "in_wh s e (ol_w_id l)" "fst p = ?lk l" by auto
    then obtain r where "r \<in> set (oorder db)" "ol_order l = o_key r" using line by blast
    then have "fst p \<in> ?ok ` set ?O" using l by (force simp: ol_order_def o_key_def)
    then have "\<exists>z \<in> set (map (\<lambda>(k, g). (k, sum_list (map o_ol_cnt g))) (group_by ?ok ?O)). fst z = fst p"
      unfolding Bex_def group_map_mem by auto
    then show ?case using 2 by (cases y) (auto simp: x left_join_mem)
  qed
qed

section \<open>Checks on the customers\<close>

lemma sum_join:
  "sum_list (map (\<lambda>(r, l). f l) (sql_where (\<lambda>(r, l). o_cust r) c (filter (\<lambda>(r, l). Q l \<and> R r) (inner_join on os ls))))
    = sum_list (map (\<lambda>r. sum_where (\<lambda>l. Q l \<and> on r l) f ls) (filter (\<lambda>r. o_cust r = c \<and> R r) os))"
proof (induction os)
  case (Cons r os)
  have "sum_list (map (\<lambda>(r, l). f l) (sql_where (\<lambda>(r, l). o_cust r) c (filter (\<lambda>(r, l). Q l \<and> R r) (map (Pair r) (filter (on r) ls)))))
    = (if o_cust r = c \<and> R r then sum_where (\<lambda>l. Q l \<and> on r l) f ls else 0)"
    by (induction ls) (auto simp: sql_where_def)
  then show ?case using Cons.IH by (simp add: inner_join_def)
qed (simp add: inner_join_def sql_where_def)

lemma delivered_by_customer_sum:
  assumes "consistent db" "in_wh s e (fst c)"
  shows "sum_list (map (\<lambda>(r, l). ol_amount l) (sql_where (\<lambda>(r, l). o_cust r) c
     (filter (\<lambda>(r, l). ol_delivery_d l \<noteq> None \<and> in_wh s e (o_w_id r))
       (inner_join (\<lambda>r l. ol_order l = o_key r) (oorder db) (order_line db))))) = delivered_sum db c"
proof -
  let ?os = "filter (\<lambda>r. o_cust r = c) (oorder db)"
  have f: "filter (\<lambda>r. o_cust r = c \<and> in_wh s e (o_w_id r)) (oorder db) = ?os"
    using assms(2) by (auto simp: o_cust_def intro!: filter_cong)
  have "distinct (map o_key ?os)" using consistentD(1) [OF assms(1)] by (simp add: keys_ok_def distinct_map_filter)
  moreover have "o_key ` set ?os = orders_of db c" unfolding orders_of_def set_filter by blast
  ultimately show ?thesis
    unfolding sum_join f delivered_sum_def using sum_orders_lines [of ?os "\<lambda>l. ol_delivery_d l \<noteq> None" ol_amount "order_line db"]
    by simp
qed

lemma delivered_by_customer_lookup:
  assumes "consistent db" "in_wh s e (fst c)"
  shows "p \<in> set (delivered_by_customer s e db) \<Longrightarrow> fst p = c \<Longrightarrow> snd p = delivered_sum db c"
    and "\<forall>p \<in> set (delivered_by_customer s e db). fst p \<noteq> c \<Longrightarrow> delivered_sum db c = 0"
proof -
  let ?J = "filter (\<lambda>(r, l). ol_delivery_d l \<noteq> None \<and> in_wh s e (o_w_id r))
    (inner_join (\<lambda>r l. ol_order l = o_key r) (oorder db) (order_line db))"
  let ?key = "\<lambda>(r :: oorder_row, l :: order_line_row). o_cust r"
  note sum = delivered_by_customer_sum [OF assms]
  show "p \<in> set (delivered_by_customer s e db) \<Longrightarrow> fst p = c \<Longrightarrow> snd p = delivered_sum db c"
    unfolding delivered_by_customer_def group_map_mem using sum by simp
  assume "\<forall>p \<in> set (delivered_by_customer s e db). fst p \<noteq> c"
  then have "c \<notin> ?key ` set ?J"
    unfolding delivered_by_customer_def Ball_def group_map_mem by (metis fst_conv snd_conv)
  then have "sql_where ?key c ?J = []" by (rule sql_where_none)
  then show "delivered_sum db c = 0" using sum by simp
qed

lemma paid_lookup:
  assumes "in_wh s e (fst c)"
  shows "p \<in> set (map (\<lambda>(k, g). (k, sum_list (map h_amount g))) (group_by h_cust (filter (\<lambda>h. in_wh s e (h_c_w_id h)) (history db))))
      \<Longrightarrow> fst p = c \<Longrightarrow> snd p = paid db c"
    and "\<forall>p \<in> set (map (\<lambda>(k, g). (k, sum_list (map h_amount g))) (group_by h_cust (filter (\<lambda>h. in_wh s e (h_c_w_id h)) (history db)))).
      fst p \<noteq> c \<Longrightarrow> paid db c = 0"
proof -
  let ?H = "filter (\<lambda>h. in_wh s e (h_c_w_id h)) (history db)"
  have eq: "sql_where h_cust c ?H = sql_where h_cust c (history db)" using assms by (auto simp: h_cust_def intro!: range_group)
  show "p \<in> set (map (\<lambda>(k, g). (k, sum_list (map h_amount g))) (group_by h_cust ?H)) \<Longrightarrow> fst p = c \<Longrightarrow> snd p = paid db c"
    unfolding group_map_mem using eq by (simp add: paid_def sum_group)
  assume "\<forall>p \<in> set (map (\<lambda>(k, g). (k, sum_list (map h_amount g))) (group_by h_cust ?H)). fst p \<noteq> c"
  then have "c \<notin> h_cust ` set ?H" unfolding Ball_def group_map_mem by (metis fst_conv snd_conv)
  then have "sql_where h_cust c (history db) = []" using eq sql_where_none by metis
  then show "paid db c = 0" by (simp add: paid_def sum_where_def sql_where_def)
qed

lemma check_33212:
  assumes "consistent db"
  shows "ConsistencyCheck33212 n db = Inr ()"
  unfolding ConsistencyCheck33212_def
proof (rule for_rangesI, rule CheckNoRows_filterI, goal_cases)
  case (1 s e x)
  then have c: "fst x \<in> set (customer db)" "snd x \<in> set (delivered_by_customer s e db)" "c_key (fst x) = fst (snd x)"
    by (simp_all add: inner_join_mem)
  have "snd (snd x) = c_balance (fst x) + c_ytd_payment (fst x)" if "in_wh s e (c_w_id (fst x))"
    using delivered_by_customer_lookup(1) [OF assms _ c(2), of "c_key (fst x)"] c consistentD(7) [OF assms] that
    by (simp add: balance_ok_def c_key_def)
  then show ?case by (auto simp: case_prod_beta)
qed

lemma check_33210:
  assumes "consistent db"
  shows "ConsistencyCheck33210 n db = Inr ()"
  unfolding ConsistencyCheck33210_def Let_def
proof (rule for_rangesI, rule CheckNoRows_filterI, goal_cases)
  case (1 s e x)
  obtain c p q where x: "x = ((c, p), q)" by (metis surj_pair)
  let ?hs = "map (\<lambda>(k, g). (k, sum_list (map h_amount g))) (group_by h_cust (filter (\<lambda>h. in_wh s e (h_c_w_id h)) (history db)))"
  have c: "c \<in> set (customer db)"
    and p: "case p of None \<Rightarrow> \<forall>z \<in> set (delivered_by_customer s e db). \<not> c_key c = fst z
      | Some z \<Rightarrow> z \<in> set (delivered_by_customer s e db) \<and> c_key c = fst z"
    and q: "case q of None \<Rightarrow> \<forall>z \<in> set ?hs. \<not> c_key c = fst z | Some z \<Rightarrow> z \<in> set ?hs \<and> c_key c = fst z"
    using 1 unfolding x left_join_mem fst_conv snd_conv prod.case by blast+
  have "c_balance c = (case p of None \<Rightarrow> 0 | Some z \<Rightarrow> snd z) - (case q of None \<Rightarrow> 0 | Some z \<Rightarrow> snd z)"
    if w: "in_wh s e (c_w_id c)"
  proof -
    have w': "in_wh s e (fst (c_key c))" using w by (simp add: c_key_def)
    have "(case p of None \<Rightarrow> 0 | Some z \<Rightarrow> snd z) = delivered_sum db (c_key c)"
      using p delivered_by_customer_lookup [OF assms w'] by (cases p) fastforce+
    moreover have "(case q of None \<Rightarrow> 0 | Some z \<Rightarrow> snd z) = paid db (c_key c)"
      using q paid_lookup [OF w'] by (cases q) fastforce+
    ultimately show ?thesis using consistentD(7) [OF assms] c by (simp add: balance_ok_def)
  qed
  then show ?case by (auto simp: x)
qed

section \<open>The checker\<close>

lemma run_checks_ok: "(\<And>c. c \<in> set cs \<Longrightarrow> c = Inr ()) \<Longrightarrow> run_checks cs k = Inr k"
proof (induction cs)
  case (Cons a cs)
  have "run_checks cs k = Inr k" by (rule Cons.IH) (rule Cons.prems, simp)
  moreover have "a = Inr ()" by (rule Cons.prems) simp
  ultimately show ?case by simp
qed simp

lemma run_checks_zero: "run_checks cs 0 = Inr 0 \<longleftrightarrow> (\<forall>c \<in> set cs. c = Inr ())"
proof -
  have "run_checks cs k = Inr k \<Longrightarrow> c \<in> set cs \<Longrightarrow> c = Inr ()" for c k
  proof (induction cs arbitrary: k)
    case (Cons a cs)
    have mono: "run_checks cs k = Inr m \<Longrightarrow> k \<le> m" for k m
      by (induction cs arbitrary: k) (auto split: sum.splits exn.splits dest: Suc_leD)
    have "a = Inr ()" using Cons.prems(1) mono [of "k + 1" k] by (cases a) (auto split: exn.splits)
    then show ?case using Cons by auto
  qed simp
  then show ?thesis using run_checks_ok by blast
qed

lemma consistency_checks_pass: "consistent db \<Longrightarrow> c \<in> set (consistency_checks n db) \<Longrightarrow> c = Inr ()"
  using check_3321 check_3322 check_3323 check_3324 check_3325 check_3326 check_3327 check_3328 check_3329
    check_33210 check_33212 by (auto simp: consistency_checks_def)

text \<open>\<open>CheckSync\<close> without \<open>afterImport\<close> accepts a consistent database whose static tables are complete.\<close>

definition base_ok :: "int \<Rightarrow> database \<Rightarrow> bool" where
  "base_ok n db \<longleftrightarrow> (\<forall>c \<in> set (base_checks n db). c = Inr ())"

lemma CheckSync_accepts: "consistent db \<Longrightarrow> base_ok n db \<Longrightarrow> CheckSync n False db = Inr ()"
  using run_checks_ok [of "base_checks n db" 0] run_checks_ok [of "consistency_checks n db" 0] consistency_checks_pass
  by (simp add: CheckSync_def base_ok_def)

lemma CheckSync_base: "CheckSync n b db = Inr () \<Longrightarrow> 0 < n \<Longrightarrow> base_ok n db"
  by (auto simp: CheckSync_def base_ok_def run_checks_zero split: if_splits)

end
