(* ===== verification/TxContract.thy ===== *)
theory TxContract
  imports Consistency Transactions
begin

text \<open>
  What every transaction task promises its caller, as an interface: whatever the server does,
  the committed database is either untouched or the complete effect of the transaction,
  \<open>true\<close> is returned only after the effect is committed, and consistency survives.
\<close>

section \<open>Outcomes\<close>

text \<open>
  \<open>eff\<close> relates the database a transaction starts from to the one it commits. \<open>P\<close> is what the
  loaded data must provide for the lookups to succeed, \<open>E\<close> are the exceptions that are not
  the server's.
\<close>

definition results :: "(database \<Rightarrow> database \<Rightarrow> bool) \<Rightarrow> database set \<Rightarrow> database set" where
  "results eff D = D \<union> {db'. \<exists>db \<in> D. eff db db'}"

definition tx_outcome ::
  "bool \<Rightarrow> (database \<Rightarrow> bool) \<Rightarrow> exn set \<Rightarrow> (database \<Rightarrow> database \<Rightarrow> bool) \<Rightarrow> database set \<Rightarrow> bool result \<Rightarrow> world \<Rightarrow> bool" where
  "tx_outcome F P E eff D r w' = (case r of
     Inr True \<Rightarrow> idle F (results eff D) w' \<and> (\<exists>db \<in> D. eff db (committed w'))
   | Inr False \<Rightarrow> (idle F D w' \<or> (\<exists>db. active F D db w')) \<and> stopError w' \<and> \<not> (\<forall>db \<in> D. P db)
   | Inl e \<Rightarrow> idle F (results eff D) w' \<and> (F \<longrightarrow> e \<in> E))"

lemma results_mono: "D \<subseteq> results eff D"
  by (auto simp: results_def)

lemma tx_outcome_error:
  "idle F D w' \<Longrightarrow> F \<longrightarrow> e \<in> E \<Longrightarrow> tx_outcome F P E eff D (Inl e) w'"
  using idle_mono [OF _ results_mono] by (simp add: tx_outcome_def)

lemma tx_outcome_fault [simp]: "idle False D w' \<Longrightarrow> tx_outcome False P E eff D (Inl e) w'"
  by (simp add: tx_outcome_error)

lemma tx_outcome_stop:
  "idle F D w' \<or> (\<exists>db. active F D db w') \<Longrightarrow> stopError w' \<Longrightarrow> \<not> (\<forall>db \<in> D. P db) \<Longrightarrow> tx_outcome F P E eff D (Inr False) w'"
  by (simp add: tx_outcome_def)

lemma results_eff_mono:
  "(\<And>db db'. eff db db' \<Longrightarrow> eff' db db') \<Longrightarrow> results eff D \<subseteq> results eff' D"
  by (auto simp: results_def)

lemma tx_outcome_mono:
  assumes "tx_outcome F P E eff D r w'" "\<And>db db'. eff db db' \<Longrightarrow> eff' db db'"
  shows "tx_outcome F P E eff' D r w'"
proof -
  have "idle F (results eff D) w' \<Longrightarrow> idle F (results eff' D) w'"
    using idle_mono results_eff_mono [of eff eff' D] assms(2) by blast
  then show ?thesis using assms by (auto simp: tx_outcome_def split: sum.splits bool.splits)
qed

text \<open>The stop branch of a lookup that found nothing.\<close>

lemma wp_stop_false:
  assumes "active F D db w" "\<not> (\<forall>db \<in> D. P db)"
  shows "wp (tx_bind RequestStopWithError (\<lambda>_. tx_return False)) (tx_outcome F P E eff D) w"
  using assms by (intro wp_stop) (auto simp: tx_outcome_def)

text \<open>The commit at the end, with \<open>co_return true\<close> behind it.\<close>

lemma wp_commit_outcome:
  assumes "active F D db' w" "db \<in> D" "eff db db'"
  shows "wp (tx_bind Commit (\<lambda>_. tx_return True)) (tx_outcome F P E eff D) w"
proof (rule wp_commit_true [OF assms(1) results_mono])
  show "db' \<in> results eff D" using assms(2,3) by (auto simp: results_def)
qed (use assms(2,3) in \<open>auto simp: tx_outcome_def\<close>)

section \<open>The interface of a transaction\<close>

definition valid_ctx :: "TTransactionContext \<Rightarrow> bool" where
  "valid_ctx ctx \<longleftrightarrow> 1 \<le> WarehouseID ctx \<and> WarehouseID ctx \<le> WarehouseCount ctx \<and> WarehouseCount ctx < 2 ^ 31"

text \<open>The static data \<open>import\<close> loads for \<open>cnt\<close> warehouses.\<close>

definition populated :: "int \<Rightarrow> database \<Rightarrow> bool" where
  "populated cnt db \<longleftrightarrow> (\<forall>i \<in> {1..ITEM_COUNT}. i \<in> i_id ` set (item db)) \<and> (\<forall>w \<in> {1..cnt}. w \<in> w_id ` set (warehouse db)
     \<and> (\<forall>i \<in> {1..ITEM_COUNT}. (w, i) \<in> s_key ` set (stock db))
     \<and> (\<forall>d \<in> {DISTRICT_LOW_ID..DISTRICT_HIGH_ID}. (w, d) \<in> d_key ` set (district db)
       \<and> (\<forall>c \<in> {1..CUSTOMERS_PER_DISTRICT}. (w, d, c) \<in> c_key ` set (customer db))
       \<and> (\<forall>n \<in> {0..999}. \<exists>r \<in> set (customer db). (c_w_id r, c_d_id r) = (w, d) \<and> GetLastName n = Inr (c_last r))))"

text \<open>What no transaction changes: the keys of the static tables and the customers' names.\<close>

definition static_part :: "database \<Rightarrow> int list \<times> item_row list \<times> (int \<times> int) list \<times> (int \<times> int) list \<times> ((int \<times> int \<times> int) \<times> string) list" where
  "static_part db = (map w_id (warehouse db), item db, map s_key (stock db), map d_key (district db),
     map (\<lambda>r. (c_key r, c_last r)) (customer db))"

lemma populated_static:
  assumes "static_part db = static_part db'"
  shows "populated cnt db = populated cnt db'"
proof -
  have s: "w_id ` set (warehouse db) = w_id ` set (warehouse db')" "item db = item db'"
    "s_key ` set (stock db) = s_key ` set (stock db')" "d_key ` set (district db) = d_key ` set (district db')"
    "(\<lambda>r. (c_key r, c_last r)) ` set (customer db) = (\<lambda>r. (c_key r, c_last r)) ` set (customer db')"
    using assms by (simp_all add: static_part_def flip: set_map)
  have "c_key ` set (customer x) = fst ` (\<lambda>r. (c_key r, c_last r)) ` set (customer x)" for x :: database
    by (simp add: image_image)
  then have k: "c_key ` set (customer db) = c_key ` set (customer db')" using s(5) by simp
  have "(\<exists>r \<in> set (customer x). (c_w_id r, c_d_id r) = (w, d) \<and> GetLastName n = Inr (c_last r))
      \<longleftrightarrow> (\<exists>p \<in> (\<lambda>r. (c_key r, c_last r)) ` set (customer x). (fst (fst p), fst (snd (fst p))) = (w, d) \<and> GetLastName n = Inr (snd p))"
    for x :: database and w d n
    by (simp add: c_key_def)
  then show ?thesis unfolding populated_def by (simp only: s k)
qed

locale tx_task =
  fixes task :: "TTransactionContext \<Rightarrow> bool tx"
    and P :: "TTransactionContext \<Rightarrow> database \<Rightarrow> bool"
    and E :: "exn set"
    and eff :: "TTransactionContext \<Rightarrow> database \<Rightarrow> database \<Rightarrow> bool"
  assumes outcome: "valid_ctx ctx \<Longrightarrow> D \<subseteq> Collect consistent \<Longrightarrow> idle F D w \<Longrightarrow>
      wp (task ctx) (tx_outcome F (P ctx) E (eff ctx) D) w"
    and eff_consistent: "valid_ctx ctx \<Longrightarrow> consistent db \<Longrightarrow> eff ctx db db' \<Longrightarrow> consistent db'"
    and eff_static: "consistent db \<Longrightarrow> eff ctx db db' \<Longrightarrow> static_part db' = static_part db"
begin

lemma released:
  assumes "valid_ctx ctx" "D \<subseteq> Collect consistent" "idle F D w" "task ctx w = Some (r, w')"
  shows "idle F (results (eff ctx) D) (ReleaseConnection w')"
proof -
  have o: "tx_outcome F (P ctx) E (eff ctx) D r w'" using outcome [OF assms(1-3)] assms(4) by (rule wpD)
  then consider "idle F (results (eff ctx) D) w'" | "idle F D w'" | db where "active F D db w'"
    by (auto simp: tx_outcome_def split: sum.splits bool.splits)
  then show ?thesis
    by cases (auto simp: ReleaseConnection_idle(1) intro: idle_mono [OF _ results_mono] dest: ReleaseConnection_idle(2))
qed

lemma keeps_consistent:
  assumes "valid_ctx ctx" "idle F {db. consistent db \<and> static_part db = S} w" "task ctx w = Some (r, w')"
  shows "idle F {db. consistent db \<and> static_part db = S} (ReleaseConnection w')"
proof (rule idle_mono [OF released [OF assms(1) _ assms(2,3)]])
  show "results (eff ctx) {db. consistent db \<and> static_part db = S} \<subseteq> {db. consistent db \<and> static_part db = S}"
    using eff_consistent [OF assms(1)] eff_static by (auto simp: results_def)
qed auto

lemma all_or_nothing:
  assumes "valid_ctx ctx" "consistent db" "idle F {db} w" "task ctx w = Some (r, w')"
  shows "committed (ReleaseConnection w') = db \<or> eff ctx db (committed (ReleaseConnection w'))"
  using released [OF assms(1) _ assms(3,4)] assms(2) by (auto simp: idle_def results_def)

lemma true_means_committed:
  assumes "valid_ctx ctx" "consistent db" "idle F {db} w" "task ctx w = Some (Inr True, w')"
  shows "eff ctx db (committed w')"
  using wpD [OF outcome [OF assms(1) _ assms(3)] assms(4)] assms(2) by (auto simp: tx_outcome_def)

lemma fault_free_succeeds:
  assumes "valid_ctx ctx" "consistent db" "P ctx db" "idle True {db} w" "task ctx w = Some (r, w')"
  shows "r = Inr True \<or> (\<exists>e \<in> E. r = Inl e)"
  using wpD [OF outcome [OF assms(1) _ assms(4)] assms(5)] assms(2,3)
  by (auto simp: tx_outcome_def split: sum.splits bool.splits)

lemma atomic:
  assumes "valid_ctx ctx" "consistent db" "idle F {db} w"
  shows "wp (task ctx) (\<lambda>r w'. let db' = committed (ReleaseConnection w') in
     (db' = db \<or> eff ctx db db') \<and> consistent db' \<and> (r = Inr True \<longrightarrow> eff ctx db db')
     \<and> (F \<and> P ctx db \<longrightarrow> r = Inr True \<or> (\<exists>e \<in> E. r = Inl e))) w"
proof (rule wpI)
  fix r w' assume r: "task ctx w = Some (r, w')"
  have c: "committed (ReleaseConnection w') = committed w'" by (simp add: ReleaseConnection_def Conn_Rollback_def)
  have "eff ctx db (committed w')" if "r = Inr True" using true_means_committed [OF assms] r that by simp
  moreover have "r = Inr True \<or> (\<exists>e \<in> E. r = Inl e)" if "F" "P ctx db"
    using fault_free_succeeds [OF assms(1,2) that(2)] assms(3) r that(1) by simp
  moreover have "committed w' = db \<or> eff ctx db (committed w')" using all_or_nothing [OF assms r] c by simp
  ultimately show "let db' = committed (ReleaseConnection w') in
     (db' = db \<or> eff ctx db db') \<and> consistent db' \<and> (r = Inr True \<longrightarrow> eff ctx db db')
     \<and> (F \<and> P ctx db \<longrightarrow> r = Inr True \<or> (\<exists>e \<in> E. r = Inl e))"
    using c eff_consistent [OF assms(1,2)] assms(2) by (auto simp: Let_def)
qed

end

section \<open>A small database\<close>

text \<open>
  One warehouse with one district, a customer who paid 10.00, one delivered and one
  undelivered order, an item and its stock.
\<close>

definition sample_customer :: customer_row where
  "sample_customer = \<lparr>c_w_id = 1, c_d_id = 1, c_id = 1, c_discount = 0, c_credit = ''GC'', c_last = ''BARBARBAR'',
     c_first = ''ANN'', c_credit_lim = 5000000, c_balance = 500 - 1000, c_ytd_payment = 1000, c_payment_cnt = 1,
     c_delivery_cnt = 1, c_street_1 = [], c_street_2 = [], c_city = [], c_state = [], c_zip = [], c_phone = [],
     c_since = 0, c_middle = ''OE'', c_data = []\<rparr>"

definition sample_line :: "int \<Rightarrow> timestamp option \<Rightarrow> money \<Rightarrow> order_line_row" where
  "sample_line oid ts a = \<lparr>ol_w_id = 1, ol_d_id = 1, ol_o_id = oid, ol_number = 1, ol_i_id = 1, ol_delivery_d = ts,
     ol_amount = a, ol_supply_w_id = 1, ol_quantity = 5, ol_dist_info = []\<rparr>"

definition sample_order :: "int \<Rightarrow> int option \<Rightarrow> oorder_row" where
  "sample_order oid carrier = \<lparr>o_w_id = 1, o_d_id = 1, o_id = oid, o_c_id = 1, o_carrier_id = carrier, o_ol_cnt = 1,
     o_all_local = 1, o_entry_d = 0\<rparr>"

definition sample_db :: database where
  "sample_db = \<lparr>
     warehouse = [\<lparr>w_id = 1, w_ytd = 1000, w_tax = 0, w_name = ''W'', w_street_1 = [], w_street_2 = [], w_city = [],
       w_state = [], w_zip = []\<rparr>],
     item = [\<lparr>i_id = 1, i_name = ''item'', i_price = 250, i_data = [], i_im_id = 1\<rparr>],
     stock = [\<lparr>s_w_id = 1, s_i_id = 1, s_quantity = 12, s_ytd = 0, s_order_cnt = 0, s_remote_cnt = 0, s_data = [],
       s_dist_01 = ''d1'', s_dist_02 = [], s_dist_03 = [], s_dist_04 = [], s_dist_05 = [], s_dist_06 = [], s_dist_07 = [],
       s_dist_08 = [], s_dist_09 = [], s_dist_10 = []\<rparr>],
     district = [\<lparr>d_w_id = 1, d_id = 1, d_ytd = 1000, d_tax = 0, d_next_o_id = 3, d_name = ''D'', d_street_1 = [],
       d_street_2 = [], d_city = [], d_state = [], d_zip = []\<rparr>],
     customer = [sample_customer],
     history = [\<lparr>h_c_id = 1, h_c_d_id = 1, h_c_w_id = 1, h_d_id = 1, h_w_id = 1, h_date = 0, h_amount = 1000, h_data = []\<rparr>],
     oorder = [sample_order 1 (Some 4), sample_order 2 None],
     new_order = [\<lparr>no_w_id = 1, no_d_id = 1, no_o_id = 2\<rparr>],
     order_line = [sample_line 1 (Some 0) 500, sample_line 2 None 700]\<rparr>"

lemmas sample_defs = sample_db_def sample_customer_def sample_line_def sample_order_def

lemma sample_db_consistent: "consistent sample_db"
proof -
  have k: "keys_ok sample_db" by code_simp
  have oi: "o_ids sample_db (1, 1) = {1, 2}" "no_ids sample_db (1, 1) = {2}"
    by (auto simp: o_ids_def no_ids_def sample_defs)
  have "{1, 2} = {1..<3 :: int}" "{2} = {2..<3 :: int}" by auto
  then have o: "orders_ok sample_db"
    using oi by (auto simp: orders_ok_def d_key_def sample_db_def sample_order_def intro!: exI [of _ 2])
  have n: "new_orders_ok sample_db" by (auto simp: new_orders_ok_def sample_defs no_key_def o_key_def)
  have l: "lines_ok sample_db" "delivery_ok sample_db" "ytd_ok sample_db"
    by (simp_all add: lines_ok_def delivery_ok_def ytd_ok_def sample_defs sql_where_def o_key_def ol_order_def d_key_def)
  have "orders_of sample_db (1, 1, 1) = {(1, 1, 1), (1, 1, 2)}"
    by (auto simp: orders_of_def sample_defs o_cust_def o_key_def)
  then have "balance_ok sample_db"
    by (simp add: balance_ok_def delivered_sum_def paid_def c_key_def h_cust_def)
       (simp add: sample_defs ol_order_def)
  with k o n l show ?thesis by (simp add: consistent_def)
qed

definition sample_world :: "database \<Rightarrow> fault list \<Rightarrow> world" where
  "sample_world db fs = \<lparr>committed = db, working = db, srv_open = False, inTxn = False, shutdownFlag = False,
     faults = fs, now = 7, coll = length, rng = 1, stopError = False\<rparr>"

lemma sample_world_idle: "idle False {db} (sample_world db fs)" "idle True {db} (sample_world db [])"
  by (simp_all add: idle_def fault_free_def sample_world_def)

definition sample_ctx :: TTransactionContext where
  "sample_ctx = \<lparr>WarehouseID = 1, WarehouseCount = 1, SimulateTransactionMs = 0, SimulateTransactionSelect1 = 0\<rparr>"

lemma sample_ctx_valid: "valid_ctx sample_ctx"
  by (simp add: valid_ctx_def sample_ctx_def)

section \<open>A commit that fails\<close>

text \<open>
  (C19) A \<open>COMMIT\<close> that fails before taking effect is reported as an error, and the session forgets the
  transaction without rolling it back: giving the connection back does nothing, and the next transaction of
  the connection, opened by any statement, commits the writes that were reported as failed.
\<close>

theorem failed_commit_resurfaces:
  assumes "inTxn w" "srv_open w" "\<not> shutdownFlag w" "faults w = [FailBefore e]"
  shows "\<exists>w1 w2. Commit w = Some (Inl e, w1) \<and> committed w1 = committed w \<and> ReleaseConnection w1 = w1
     \<and> ExecuteQuery sel w1 = Some (Inr (sel (working w)), w2) \<and> committed w2 = working w"
  using assms
  by (simp add: Commit_def tx_on_error_def tx_bind_def CheckShutdown_def Conn_Commit_def statement_def take_fault_def
      ReleaseConnection_def ExecuteQuery_def EnsureTxn_def BeginRepeatableRead_def Conn_Query_def Let_def)

theorem failed_commit_resurfaces_witness:
  "\<exists>w1 w2. Commit ((sample_world sample_db [FailBefore (DbException 1205 [])])\<lparr>inTxn := True, srv_open := True,
        working := sample_db\<lparr>history := []\<rparr>\<rparr>) = Some (Inl (DbException 1205 []), w1)
     \<and> committed w1 = sample_db \<and> ExecuteQuery warehouse w1 = Some (Inr (warehouse sample_db), w2)
     \<and> committed w2 = sample_db\<lparr>history := []\<rparr>"
  using failed_commit_resurfaces [of "(sample_world sample_db [FailBefore (DbException 1205 [])])\<lparr>inTxn := True,
      srv_open := True, working := sample_db\<lparr>history := []\<rparr>\<rparr>" "DbException 1205 []" warehouse]
  by (auto simp: sample_world_def)

end
