(* ===== verification/Checker.thy ===== *)
theory Checker
  imports CheckProofs TxContract
begin

text \<open>
  What the checker of \<open>check.cpp\<close> establishes: it accepts every consistent database, it detects
  money that does not add up, its verdict on a consistent database depends only on the static
  tables, and its \<open>int\<close> arithmetic overflows on very large databases.
\<close>

section \<open>The base checks read only the static tables\<close>

lemma base_checks_static:
  assumes "static_part db = static_part db'"
  shows "base_checks n db = base_checks n db'"
proof -
  have s: "map w_id (warehouse db) = map w_id (warehouse db')" "item db = item db'"
    "map s_key (stock db) = map s_key (stock db')" "map d_key (district db) = map d_key (district db')"
    "map (\<lambda>r. (c_key r, c_last r)) (customer db) = map (\<lambda>r. (c_key r, c_last r)) (customer db')"
    using assms by (simp_all add: static_part_def)
  have p: "map s_w_id x = map fst (map s_key x)" "map s_i_id x = map snd (map s_key x)" for x
    by (simp_all add: s_key_def)
  have q: "map d_w_id x = map fst (map d_key x)" "map d_id x = map snd (map d_key x)" for x
    by (simp_all add: d_key_def)
  have r: "map c_w_id x = map (fst \<circ> fst) (map (\<lambda>r. (c_key r, c_last r)) x)"
    "map c_d_id x = map (fst \<circ> snd \<circ> fst) (map (\<lambda>r. (c_key r, c_last r)) x)"
    "map c_id x = map (snd \<circ> snd \<circ> fst) (map (\<lambda>r. (c_key r, c_last r)) x)" for x
    by (simp_all add: c_key_def)
  have l: "length (stock db) = length (stock db')" "length (district db) = length (district db')"
    "length (customer db) = length (customer db')"
    using s(3,4,5) [THEN arg_cong [where f = length]] by simp_all
  show ?thesis
    unfolding base_checks_def BaseCheckWarehouseTable_def BaseCheckDistrictTable_def BaseCheckCustomerTable_def
      BaseCheckItemTable_def BaseCheckStockTable_def l p q r s ..
qed

lemma CheckSync_static:
  assumes "consistent db" "consistent db'" "static_part db = static_part db'"
  shows "CheckSync n False db = CheckSync n False db'"
proof -
  have "run_checks (consistency_checks n db) 0 = Inr 0" "run_checks (consistency_checks n db') 0 = Inr 0"
    using run_checks_ok consistency_checks_pass assms(1,2) by blast+
  then show ?thesis using base_checks_static [OF assms(3), of n] by (simp add: CheckSync_def cong: if_cong)
qed

section \<open>Sums per group\<close>

lemma money_differs_iff: "money_differs a b \<longleftrightarrow> a \<noteq> b"
  by (simp add: money_differs_def) arith

lemma group_sum_check:
  "CheckNoRows (filter (\<lambda>(a, k, g). money_differs (f a) (sum_list (map amt g)))
     (inner_join (\<lambda>a g. ka a = fst g) A (group_by kb B))) = Inr ()
   \<longleftrightarrow> (\<forall>a \<in> set A. ka a \<in> kb ` set B \<longrightarrow> f a = sum_where (\<lambda>b. kb b = ka a) amt B)"
proof -
  let ?J = "inner_join (\<lambda>a g. ka a = fst g) A (group_by kb B)"
  have m: "(a, k, g) \<in> set ?J \<longleftrightarrow> a \<in> set A \<and> k = ka a \<and> ka a \<in> kb ` set B \<and> g = sql_where kb (ka a) B" for a k g
    unfolding inner_join_mem group_by_mem fst_conv snd_conv by auto
  have "(\<forall>x \<in> set ?J. \<not> (\<lambda>(a, k, g). money_differs (f a) (sum_list (map amt g))) x)
      \<longleftrightarrow> (\<forall>a k g. (a, k, g) \<in> set ?J \<longrightarrow> f a = sum_list (map amt g))"
    unfolding Ball_def split_paired_All prod.case money_differs_iff by auto
  then show ?thesis unfolding CheckNoRows_ok filter_empty_conv by (simp add: m sum_group) blast
qed

section \<open>Properties\<close>

text \<open>
  (C10) The consistency checks accept every consistent database: all eleven checks of the TPC-C
  consistency conditions, for any warehouse count, return without an error.
\<close>

theorem checker_accepts_consistent:
  assumes "consistent db"
  shows "run_checks (consistency_checks n db) 0 = Inr 0"
  using run_checks_ok consistency_checks_pass [OF assms] by blast

theorem checker_accepts_consistent_witness: "run_checks (consistency_checks 1 sample_db) 0 = Inr 0"
  by (rule checker_accepts_consistent [OF sample_db_consistent])

text \<open>
  (C22) What the money checks compare: 3.3.2.1 passes if and only if the year-to-date total of every warehouse that has at least one
  district is the sum over its districts; 3.3.2.8 and 3.3.2.9 pass if and only if the totals of every warehouse and every district
  that has at least one row in the history are the sums of the amounts there. The queries are inner joins: a warehouse without districts, and a warehouse or
  district without history, is not compared at all, so these checks accept any total there.
\<close>

theorem money_checks_exact:
  "(ConsistencyCheck3321 db = Inr () \<longleftrightarrow> (\<forall>w \<in> set (warehouse db). w_id w \<in> d_w_id ` set (district db) \<longrightarrow>
      w_ytd w = sum_where (\<lambda>d. d_w_id d = w_id w) d_ytd (district db)))
   \<and> (ConsistencyCheck3328 db = Inr () \<longleftrightarrow> (\<forall>w \<in> set (warehouse db). w_id w \<in> h_w_id ` set (history db) \<longrightarrow>
      w_ytd w = sum_where (\<lambda>h. h_w_id h = w_id w) h_amount (history db)))
   \<and> (ConsistencyCheck3329 db = Inr () \<longleftrightarrow> (\<forall>d \<in> set (district db). d_key d \<in> (\<lambda>h. (h_w_id h, h_d_id h)) ` set (history db) \<longrightarrow>
      d_ytd d = sum_where (\<lambda>h. (h_w_id h, h_d_id h) = d_key d) h_amount (history db)))"
  unfolding ConsistencyCheck3321_def ConsistencyCheck3328_def ConsistencyCheck3329_def group_sum_check
  by (intro conjI refl)

theorem money_checks_exact_witness:
  "ConsistencyCheck3321 (sample_db\<lparr>district := []\<rparr>) = Inr ()
   \<and> ConsistencyCheck3321 (sample_db\<lparr>district := map (\<lambda>d. d\<lparr>d_ytd := 1\<rparr>) (district sample_db)\<rparr>) \<noteq> Inr ()"
  using money_checks_exact [of "sample_db\<lparr>district := []\<rparr>"]
    money_checks_exact [of "sample_db\<lparr>district := map (\<lambda>d. d\<lparr>d_ytd := 1\<rparr>) (district sample_db)\<rparr>"]
  by (simp add: sample_db_def)

text \<open>
  The expected row counts are C++ \<open>int\<close> products: from 21475 warehouses on, the check of the stock
  table overflows, which is undefined behaviour, and so does \<open>CheckSync\<close> unless an earlier base check has
  overflowed already.
\<close>

theorem stock_check_overflows:
  assumes "21475 \<le> n"
  shows "\<exists>m. BaseCheckStockTable n db = Inl (UB m) \<and> (\<exists>m'. CheckSync n b db = Inl (UB m'))"
proof -
  have ub: "\<exists>m. BaseCheckStockTable n db = Inl (UB m)"
    using assms by (auto simp: BaseCheckStockTable_def imul_def const_defs)
  have "c = Inl (UB m) \<Longrightarrow> c \<in> set cs \<Longrightarrow> \<exists>m'. run_checks cs k = Inl (UB m')" for c cs k m
    by (induction cs arbitrary: k) (auto split: sum.splits exn.splits)
  then have "\<exists>m'. run_checks (base_checks n db @ xs) k = Inl (UB m')" for xs k
    using ub by (auto simp: base_checks_def simp del: run_checks.simps)
  then obtain m' where "run_checks (base_checks n db @ (if b then base_checks_import n db else [])) 0 = Inl (UB m')"
    by blast
  then show ?thesis using ub assms by (auto simp: CheckSync_def)
qed

theorem stock_check_overflows_witness: "\<exists>m. BaseCheckStockTable 21475 sample_db = Inl (UB m)
   \<and> (\<exists>m'. CheckSync 21475 False sample_db = Inl (UB m'))"
  by (rule stock_check_overflows) simp

end
