(* ===== verification/ImportProofs.thy ===== *)
theory ImportProofs
  imports BulkLoad Checker
begin

text \<open>
  The database an import builds. \<open>loaded_db n cnt L\<close> says which rows the tables hold when the shared tables and
  the loads in \<open>L\<close> are done; every load that returns normally adds itself to \<open>L\<close>; when all loads of
  \<open>n\<close> warehouses are done the database is consistent and \<open>CheckSync\<close> accepts it.
\<close>

section \<open>Tables described by their keys\<close>

definition table_ok :: "('r \<Rightarrow> 'k) \<Rightarrow> 'k set \<Rightarrow> ('r \<Rightarrow> bool) \<Rightarrow> 'r list \<Rightarrow> bool" where
  "table_ok key K P t \<longleftrightarrow> distinct (map key t) \<and> key ` set t = K \<and> (\<forall>r \<in> set t. P r)"

lemma table_ok_empty [simp]: "table_ok key K P [] \<longleftrightarrow> K = {}"
  by (auto simp: table_ok_def)

lemma list_all2_keys:
  "list_all2 (\<lambda>x r. key r = f x \<and> P r) xs rs \<Longrightarrow> map key rs = map f xs \<and> (\<forall>r \<in> set rs. P r)"
  by (induction rule: list_all2_induct) auto

lemma table_ok_append:
  assumes "table_ok key K P t" "list_all2 (\<lambda>x r. key r = f x \<and> P r) xs rs" "distinct (map key (t @ rs))"
  shows "table_ok key (K \<union> f ` set xs) P (t @ rs)"
proof -
  note k = list_all2_keys [OF assms(2)]
  then have "key ` set rs = f ` set xs" by (metis set_map)
  then show ?thesis using assms(1,3) k by (auto simp: table_ok_def)
qed

text \<open>Rows are counted by their keys.\<close>

lemma table_length:
  assumes "table_ok key K P t"
  shows "length t = card K"
  using assms distinct_card [of "map key t"] by (simp add: table_ok_def)

lemma table_filter:
  assumes "table_ok key K P t" "\<And>r. P r \<Longrightarrow> Q r \<longleftrightarrow> q (key r)"
  shows "table_ok key {k \<in> K. q k} P (filter Q t)"
  using assms by (auto simp: table_ok_def distinct_map inj_on_def)

lemma table_count:
  assumes "table_ok key K P t" "\<And>r. P r \<Longrightarrow> Q r \<longleftrightarrow> q (key r)"
  shows "length (filter Q t) = card {k \<in> K. q k}"
  by (rule table_length, rule table_filter [where q = q and key = key and P = P]) (use assms in auto)

lemma table_sum:
  assumes "table_ok key K P t" "\<And>r. P r \<Longrightarrow> Q r \<longleftrightarrow> q (key r)" "\<And>r. P r \<Longrightarrow> Q r \<Longrightarrow> g r = c"
  shows "sum_where Q g t = int (card {k \<in> K. q k}) * c"
proof -
  have "map g (filter Q t) = replicate (length (filter Q t)) c"
    using assms(1,3) by (auto simp: table_ok_def map_replicate_const [symmetric])
  moreover have "length (filter Q t) = card {k \<in> K. q k}"
    by (rule table_count [where q = q and key = key and P = P]) (use assms in auto)
  ultimately show ?thesis by (simp add: sum_where_def sum_list_replicate)
qed

lemma table_rowD: "table_ok key K P t \<Longrightarrow> r \<in> set t \<Longrightarrow> P r \<and> key r \<in> K"
  by (auto simp: table_ok_def)

lemma table_keyE: "table_ok key K P t \<Longrightarrow> k \<in> K \<Longrightarrow> \<exists>r \<in> set t. key r = k \<and> P r"
  by (auto simp: table_ok_def)

section \<open>The rows of an import\<close>

definition districts_of :: "int set \<Rightarrow> (int \<times> int) set" where
  "districts_of W = W \<times> {1..10}"

definition item_ok :: "item_row \<Rightarrow> bool" where
  "item_ok r \<longleftrightarrow> 100 \<le> i_price r \<and> i_price r \<le> 10000"

definition warehouse_ok :: "warehouse_row \<Rightarrow> bool" where
  "warehouse_ok r \<longleftrightarrow> w_ytd r = 30000000"

definition district_ok :: "district_row \<Rightarrow> bool" where
  "district_ok r \<longleftrightarrow> d_ytd r = 3000000 \<and> d_next_o_id r = 3001"

definition stock_ok :: "stock_row \<Rightarrow> bool" where
  "stock_ok r \<longleftrightarrow> 10 \<le> s_quantity r \<and> s_quantity r \<le> 100"

definition customer_ok :: "customer_row \<Rightarrow> bool" where
  "customer_ok r \<longleftrightarrow> c_balance r = - 1000 \<and> c_ytd_payment r = 1000 \<and> (c_id r \<le> 1000 \<longrightarrow> GetLastName (c_id r - 1) = Inr (c_last r))"

definition history_ok :: "history_row \<Rightarrow> bool" where
  "history_ok r \<longleftrightarrow> h_amount r = 1000 \<and> h_w_id r = h_c_w_id r \<and> h_d_id r = h_c_d_id r"

definition oorder_ok :: "(int \<Rightarrow> int \<Rightarrow> int \<Rightarrow> int) \<Rightarrow> oorder_row \<Rightarrow> bool" where
  "oorder_ok cnt r \<longleftrightarrow> o_ol_cnt r = cnt (o_w_id r) (o_id r) (o_d_id r)
     \<and> (o_carrier_id r = None \<longleftrightarrow> 2101 \<le> o_id r) \<and> o_carrier_id r \<noteq> Some 0 \<and> o_c_id r \<in> {1..3000}"

definition order_line_ok :: "order_line_row \<Rightarrow> bool" where
  "order_line_ok l \<longleftrightarrow> (ol_delivery_d l = None \<longleftrightarrow> 2101 \<le> ol_o_id l) \<and> (ol_o_id l < 2101 \<longrightarrow> ol_amount l = 0)"

definition loaded_db :: "nat \<Rightarrow> (int \<Rightarrow> int \<Rightarrow> int \<Rightarrow> int) \<Rightarrow> load set \<Rightarrow> database \<Rightarrow> bool" where
  "loaded_db n cnt L db \<longleftrightarrow>
       table_ok i_id {1..100000} item_ok (item db)
     \<and> table_ok w_id {1..int n} warehouse_ok (warehouse db)
     \<and> table_ok d_key (districts_of {1..int n}) district_ok (district db)
     \<and> table_ok s_key ({w. Stock w \<in> L} \<times> {1..100000}) stock_ok (stock db)
     \<and> table_ok c_key {(w, d, c). Customers w d \<in> L \<and> c \<in> {1..3000}} customer_ok (customer db)
     \<and> table_ok h_cust {(w, d, c). History w d \<in> L \<and> c \<in> {1..3000}} history_ok (history db)
     \<and> table_ok o_key {(w, d, k). Oorder w d \<in> L \<and> k \<in> {1..3000}} (oorder_ok cnt) (oorder db)
     \<and> table_ok no_key {(w, d, k). NewOrders w d \<in> L \<and> k \<in> {2101..3000}} (\<lambda>_. True) (new_order db)
     \<and> table_ok ol_key {(w, d, k, l). OrderLines w d \<in> L \<and> k \<in> {1..3000} \<and> l \<in> {1..cnt w k d}} order_line_ok (order_line db)"

definition all_loads :: "nat \<Rightarrow> load set" where
  "all_loads n = (\<Union>w \<in> {1..int n}. insert (Stock w) (\<Union>d \<in> {1..10}.
     {Customers w d, History w d, Oorder w d, NewOrders w d, OrderLines w d}))"

text \<open>Nothing in any table.\<close>

definition empty_db :: database where
  "empty_db = \<lparr>warehouse = [], item = [], stock = [], district = [], customer = [], history = [], oorder = [],
     new_order = [], order_line = []\<rparr>"

section \<open>The generators\<close>

lemma RandomInt_drawn: "(\<exists>s s'. RandomInt a b s = Some (x, s')) \<Longrightarrow> 0 \<le> a \<Longrightarrow> a \<le> b \<Longrightarrow> b < 2 ^ 31 \<Longrightarrow> a \<le> x \<and> x \<le> b"
  using RandomInt_range by blast

text \<open>A draw whose value does not matter.\<close>

lemma generates_any: "(\<And>x. generates (f x) Q) \<Longrightarrow> generates (tx_bind (draw r) f) Q"
  by (rule generates_bind [OF generates_draw])

lemma generates_int:
  "0 \<le> a \<Longrightarrow> a \<le> b \<Longrightarrow> b < 2 ^ 31 \<Longrightarrow> (\<And>x. a \<le> x \<Longrightarrow> x \<le> b \<Longrightarrow> generates (f x) Q) \<Longrightarrow> generates (tx_bind (draw (RandomInt a b)) f) Q"
  by (rule generates_bind [OF generates_draw]) (use RandomInt_drawn in blast)

lemma generates_item: "generates (gen_item i) (\<lambda>r. i_id r = i \<and> item_ok r)"
  unfolding gen_item_def
  by (rule generates_any, rule generates_any, rule generates_int, simp_all, rule generates_any, rule generates_return)
     (simp add: item_ok_def)

lemma generates_warehouse: "generates (gen_warehouse w) (\<lambda>r. w_id r = w \<and> warehouse_ok r)"
  unfolding gen_warehouse_def
  by (intro generates_any generates_return) (simp add: warehouse_ok_def const_defs)

lemma generates_district: "generates (gen_district k) (\<lambda>r. d_key r = k \<and> district_ok r)"
  unfolding gen_district_def
  by (split prod.split, intro allI impI generates_any generates_return) (simp add: district_ok_def d_key_def const_defs)

lemma generates_stock: "generates (gen_stock w i) (\<lambda>r. s_key r = (w, i) \<and> stock_ok r)"
  unfolding gen_stock_def
  by (rule generates_any, rule generates_int, simp_all, rule generates_any, rule generates_return)
     (simp add: stock_ok_def s_key_def)

lemma generates_customer_last: "generates (customer_last c) (\<lambda>x. c \<le> 1000 \<longrightarrow> GetLastName (c - 1) = Inr x)"
  unfolding customer_last_def
  by (auto intro!: generates_any intro: generates_mono [OF generates_lift])

lemma generates_customer: "generates (gen_customer w d ts c) (\<lambda>r. c_key r = (w, d, c) \<and> customer_ok r)"
  unfolding gen_customer_def
  by (rule generates_bind [OF generates_customer_last], intro generates_any generates_return)
     (simp add: customer_ok_def c_key_def)

lemma generates_history: "generates (gen_history w d ts c) (\<lambda>r. h_cust r = (w, d, c) \<and> history_ok r)"
  unfolding gen_history_def by (intro generates_any generates_return) (simp add: history_ok_def h_cust_def)

lemma generates_oorder:
  assumes "mset ids = mset [1..CUSTOMERS_PER_DISTRICT]" "k \<in> {1..3000}"
  shows "generates (gen_oorder cnt ids w d ts k) (\<lambda>r. o_key r = (w, d, k) \<and> oorder_ok cnt r)"
proof -
  have "length ids = 3000" "set ids = {1..3000}"
    using mset_eq_length [OF assms(1)] mset_eq_setD [OF assms(1)] by (simp_all add: const_defs)
  then have c: "ids ! nat (k - 1) \<in> {1..3000}" using assms(2) by (metis nth_mem atLeastAtMost_iff nat_less_iff zle_diff1_eq of_nat_numeral diff_ge_0_iff_ge le_less_trans order_refl less_le_trans)
  have "generates (if k < FIRST_UNPROCESSED_O_ID then tx_bind (draw (RandomInt 1 10)) (\<lambda>k. tx_return (Some k)) else tx_return None)
      (\<lambda>x. (x = None \<longleftrightarrow> 2101 \<le> k) \<and> x \<noteq> Some 0)"
    by (auto intro!: generates_int generates_return simp: const_defs)
  then show ?thesis unfolding gen_oorder_def
    by (rule generates_bind) (use c in \<open>auto intro!: generates_return simp: oorder_ok_def o_key_def\<close>)
qed

lemma generates_order_line: "generates (gen_order_line w d ts k) (\<lambda>r. ol_key r = (w, d, k) \<and> order_line_ok r)"
proof -
  have "generates (if oid < FIRST_UNPROCESSED_O_ID then tx_return (Some ts, 0)
       else tx_bind (draw (RandomInt 1 999999)) (\<lambda>a. tx_return (None, a)))
      (\<lambda>x. (fst x = None \<longleftrightarrow> 2101 \<le> oid) \<and> (oid < 2101 \<longrightarrow> snd x = 0))" for oid
    by (auto intro!: generates_any generates_return simp: const_defs)
  note date = this
  show ?thesis unfolding gen_order_line_def
  proof (split prod.split, intro allI impI generates_any)
    fix oid l i
    assume k: "k = (oid, l)"
    show "generates (tx_bind (if oid < FIRST_UNPROCESSED_O_ID then tx_return (Some ts, 0)
         else tx_bind (draw (RandomInt 1 999999)) (\<lambda>a. tx_return (None, a))) (\<lambda>(deliveryDate, amount).
       tx_bind (draw (RandomStringBenchbase 24 CHR ''a'')) (\<lambda>info.
       tx_return \<lparr>ol_w_id = w, ol_d_id = d, ol_o_id = oid, ol_number = l, ol_i_id = i, ol_delivery_d = deliveryDate,
         ol_amount = amount, ol_supply_w_id = w, ol_quantity = 5, ol_dist_info = info\<rparr>)))
       (\<lambda>r. ol_key r = (w, d, k) \<and> order_line_ok r)"
      by (rule generates_bind [OF date [of oid]], unfold case_prod_beta, intro generates_any generates_return)
         (simp add: k order_line_ok_def ol_key_def)
  qed
qed

section \<open>Every load adds its rows\<close>

lemma table_ok_extend:
  assumes "table_ok key K P t" "list_all2 (\<lambda>x r. key r = f x \<and> P r) xs rs"
    "distinct (map key t) \<longrightarrow> distinct (map key (t @ rs))" "K' = K \<union> f ` set xs"
  shows "table_ok key K' P (t @ rs)"
  using table_ok_append [OF assms(1,2)] assms(1,3,4) by (simp add: table_ok_def)

lemma load_stock_ok:
  assumes "LoadStock w cw = Some (Inr (), cw')" "ready cw" "loaded_db n cnt L (committed cw)"
  shows "loaded_db n cnt (insert (Stock w) L) (committed cw') \<and> ready cw'"
proof -
  obtain rs where rs: "list_all2 (\<lambda>i r. s_key r = (w, i) \<and> stock_ok r) [1..ITEM_COUNT] rs"
    "committed cw' = (committed cw)\<lparr>stock := stock (committed cw) @ rs\<rparr>" "ready cw'"
    "distinct (map s_key (stock (committed cw))) \<longrightarrow> distinct (map s_key (stock (committed cw) @ rs))"
    using stocks.load [OF assms(1) [unfolded LoadStock_def] assms(2) generates_stock] by blast
  have "table_ok s_key ({x. Stock x \<in> insert (Stock w) L} \<times> {1..100000}) stock_ok (stock (committed cw) @ rs)"
    by (rule table_ok_extend [OF _ rs(1,4)]) (use assms(3) in \<open>auto simp: loaded_db_def const_defs\<close>)
  then show ?thesis using assms(3) rs(2,3) by (simp add: loaded_db_def)
qed

lemma load_customers_ok:
  assumes "LoadCustomers w d cw = Some (Inr (), cw')" "ready cw" "loaded_db n cnt L (committed cw)"
  shows "loaded_db n cnt (insert (Customers w d) L) (committed cw') \<and> ready cw'"
proof -
  obtain rs where rs: "list_all2 (\<lambda>c r. c_key r = (w, d, c) \<and> customer_ok r) [C_FIRST_CUSTOMER_ID..CUSTOMERS_PER_DISTRICT] rs"
    "committed cw' = (committed cw)\<lparr>customer := customer (committed cw) @ rs\<rparr>" "ready cw'"
    "distinct (map c_key (customer (committed cw))) \<longrightarrow> distinct (map c_key (customer (committed cw) @ rs))"
    using customers.load [OF assms(1) [unfolded LoadCustomers_def] assms(2) generates_customer] by blast
  have "table_ok c_key {(x, y, c). Customers x y \<in> insert (Customers w d) L \<and> c \<in> {1..3000}} customer_ok (customer (committed cw) @ rs)"
    by (rule table_ok_extend [OF _ rs(1,4)]) (use assms(3) in \<open>auto simp: loaded_db_def const_defs\<close>)
  then show ?thesis using assms(3) rs(2,3) by (simp add: loaded_db_def)
qed

lemma load_history_ok:
  assumes "LoadHistory w d cw = Some (Inr (), cw')" "ready cw" "loaded_db n cnt L (committed cw)" "History w d \<notin> L"
  shows "loaded_db n cnt (insert (History w d) L) (committed cw') \<and> ready cw'"
proof -
  obtain rs where rs: "list_all2 (\<lambda>c r. h_cust r = (w, d, c) \<and> history_ok r) [C_FIRST_CUSTOMER_ID..CUSTOMERS_PER_DISTRICT] rs"
    "committed cw' = (committed cw)\<lparr>history := history (committed cw) @ rs\<rparr>" "ready cw'"
    using load_history [OF assms(1) [unfolded LoadHistory_def] assms(2) generates_history] by blast
  have h: "h_cust ` set (history (committed cw)) = {(x, y, c). History x y \<in> L \<and> c \<in> {1..3000}}"
    using assms(3) by (simp add: loaded_db_def table_ok_def)
  have k: "map h_cust rs = map (\<lambda>c. (w, d, c)) [C_FIRST_CUSTOMER_ID..CUSTOMERS_PER_DISTRICT]"
    using list_all2_keys [OF rs(1)] by blast
  then have "distinct (map h_cust rs)" by (simp add: distinct_map inj_on_def)
  moreover have "h_cust ` set rs = (\<lambda>c. (w, d, c)) ` {1..3000}" using arg_cong [OF k, of set] by (simp add: const_defs)
  ultimately have d: "distinct (map h_cust (history (committed cw))) \<longrightarrow> distinct (map h_cust (history (committed cw) @ rs))"
    using h assms(4) by auto
  have "table_ok h_cust {(x, y, c). History x y \<in> insert (History w d) L \<and> c \<in> {1..3000}} history_ok (history (committed cw) @ rs)"
    by (rule table_ok_extend [OF _ rs(1) d]) (use assms(3) in \<open>auto simp: loaded_db_def const_defs\<close>)
  then show ?thesis using assms(3) rs(2,3) by (simp add: loaded_db_def)
qed

lemma load_oorder_ok:
  assumes "LoadOorder cnt ids w d cw = Some (Inr (), cw')" "ready cw" "loaded_db n cnt L (committed cw)"
    "mset ids = mset [1..CUSTOMERS_PER_DISTRICT]"
  shows "loaded_db n cnt (insert (Oorder w d) L) (committed cw') \<and> ready cw'"
proof -
  have g: "generates (gen_oorder cnt ids w d (now cw) k) (\<lambda>r. o_key r = (w, d, k) \<and> oorder_ok cnt r)"
    if "k \<in> set [1..CUSTOMERS_PER_DISTRICT]" for k
    using generates_oorder [OF assms(4)] that by (simp add: const_defs)
  obtain rs where rs: "list_all2 (\<lambda>k r. o_key r = (w, d, k) \<and> oorder_ok cnt r) [1..CUSTOMERS_PER_DISTRICT] rs"
    "committed cw' = (committed cw)\<lparr>oorder := oorder (committed cw) @ rs\<rparr>" "ready cw'"
    "distinct (map o_key (oorder (committed cw))) \<longrightarrow> distinct (map o_key (oorder (committed cw) @ rs))"
    using oorders.load [OF assms(1) [unfolded LoadOorder_def] assms(2) g] by blast
  have "table_ok o_key {(x, y, k). Oorder x y \<in> insert (Oorder w d) L \<and> k \<in> {1..3000}} (oorder_ok cnt) (oorder (committed cw) @ rs)"
    by (rule table_ok_extend [OF _ rs(1,4)]) (use assms(3) in \<open>auto simp: loaded_db_def const_defs\<close>)
  then show ?thesis using assms(3) rs(2,3) by (simp add: loaded_db_def)
qed

lemma load_new_order_ok:
  assumes "LoadNewOrder w d cw = Some (Inr (), cw')" "ready cw" "loaded_db n cnt L (committed cw)"
  shows "loaded_db n cnt (insert (NewOrders w d) L) (committed cw') \<and> ready cw'"
proof -
  have g: "generates (tx_return \<lparr>no_w_id = w, no_d_id = d, no_o_id = k\<rparr>) (\<lambda>r. no_key r = (w, d, k) \<and> True)" for k
    by (rule generates_return) (simp add: no_key_def)
  obtain rs where rs: "list_all2 (\<lambda>k r. no_key r = (w, d, k) \<and> True) [FIRST_UNPROCESSED_O_ID..CUSTOMERS_PER_DISTRICT] rs"
    "committed cw' = (committed cw)\<lparr>new_order := new_order (committed cw) @ rs\<rparr>" "ready cw'"
    "distinct (map no_key (new_order (committed cw))) \<longrightarrow> distinct (map no_key (new_order (committed cw) @ rs))"
    using new_orders.load [OF assms(1) [unfolded LoadNewOrder_def] assms(2) g] by blast
  have "set [FIRST_UNPROCESSED_O_ID..CUSTOMERS_PER_DISTRICT] = {2101..3000}"
    by (simp only: set_upto const_defs)
  then have K: "{(x, y, k). NewOrders x y \<in> insert (NewOrders w d) L \<and> k \<in> {2101..3000}}
      = {(x, y, k). NewOrders x y \<in> L \<and> k \<in> {2101..3000}} \<union> (\<lambda>k. (w, d, k)) ` set [FIRST_UNPROCESSED_O_ID..CUSTOMERS_PER_DISTRICT]"
    by auto
  have "table_ok no_key {(x, y, k). NewOrders x y \<in> L \<and> k \<in> {2101..3000}} (\<lambda>_. True) (new_order (committed cw))"
    using assms(3) by (simp add: loaded_db_def)
  then have "table_ok no_key {(x, y, k). NewOrders x y \<in> insert (NewOrders w d) L \<and> k \<in> {2101..3000}} (\<lambda>_. True) (new_order (committed cw) @ rs)"
    by (rule table_ok_extend [where f = "\<lambda>k. (w, d, k)", OF _ rs(1,4) K])
  then show ?thesis using assms(3) rs(2,3) by (simp add: loaded_db_def)
qed

lemma load_order_line_ok:
  assumes "LoadOrderLine cnt w d cw = Some (Inr (), cw')" "ready cw" "loaded_db n cnt L (committed cw)"
  shows "loaded_db n cnt (insert (OrderLines w d) L) (committed cw') \<and> ready cw'"
proof -
  obtain rs where rs: "list_all2 (\<lambda>k r. ol_key r = (w, d, k) \<and> order_line_ok r) (line_numbers cnt w d) rs"
    "committed cw' = (committed cw)\<lparr>order_line := order_line (committed cw) @ rs\<rparr>" "ready cw'"
    "distinct (map ol_key (order_line (committed cw))) \<longrightarrow> distinct (map ol_key (order_line (committed cw) @ rs))"
    using order_lines.load [OF assms(1) [unfolded LoadOrderLine_def] assms(2) generates_order_line] by blast
  have "set (line_numbers cnt w d) = {(k, l). k \<in> {1..3000} \<and> l \<in> {1..cnt w k d}}"
    by (auto simp: line_numbers_def const_defs)
  then have "table_ok ol_key {(x, y, k, l). OrderLines x y \<in> insert (OrderLines w d) L \<and> k \<in> {1..3000} \<and> l \<in> {1..cnt x k y}}
      order_line_ok (order_line (committed cw) @ rs)"
    by (intro table_ok_extend [OF _ rs(1,4)]) (use assms(3) in \<open>auto simp: loaded_db_def\<close>)
  then show ?thesis using assms(3) rs(2,3) by (simp add: loaded_db_def)
qed

lemma exec_load_ok:
  assumes "exec_load cnt ids l cw = Some (Inr (), cw')" "ready cw" "loaded_db n cnt L (committed cw)" "l \<notin> L"
    "mset ids = mset [1..CUSTOMERS_PER_DISTRICT]"
  shows "loaded_db n cnt (insert l L) (committed cw') \<and> ready cw'"
  using assms load_stock_ok load_customers_ok load_history_ok load_oorder_ok load_new_order_ok load_order_line_ok
  by (cases l) auto

text \<open>The shared tables.\<close>

lemma load_shared_ok:
  assumes "load_shared n cw = Some (Inr (), cw')" "ready cw" "committed cw = empty_db"
  shows "loaded_db n cnt {} (committed cw') \<and> ready cw'"
proof -
  obtain w1 w2 where l: "LoadItems cw = Some (Inr (), w1)" "LoadWarehouses 1 (int n) w1 = Some (Inr (), w2)"
    "LoadDistricts 1 (int n) w2 = Some (Inr (), cw')"
    using assms(1) by (auto simp: load_shared_def tx_bind_def split: option.splits sum.splits)
  obtain i where i: "list_all2 (\<lambda>x r. i_id r = x \<and> item_ok r) [1..ITEM_COUNT] i" "committed w1 = empty_db\<lparr>item := i\<rparr>"
      "ready w1" "distinct (map i_id i)"
    using items.load [OF l(1) [unfolded LoadItems_def] assms(2) generates_item] assms(3) by (auto simp: empty_db_def)
  obtain ws where ws: "list_all2 (\<lambda>x r. w_id r = x \<and> warehouse_ok r) [1..int n] ws"
      "committed w2 = empty_db\<lparr>item := i, warehouse := ws\<rparr>" "ready w2" "distinct (map w_id ws)"
    using warehouses.load [OF l(2) [unfolded LoadWarehouses_def] i(3) generates_warehouse] i(2) by (auto simp: empty_db_def)
  obtain ds where ds: "list_all2 (\<lambda>x r. d_key r = x \<and> district_ok r) (List.product [1..int n] [DISTRICT_LOW_ID..DISTRICT_HIGH_ID]) ds"
      "committed cw' = empty_db\<lparr>item := i, warehouse := ws, district := ds\<rparr>" "ready cw'" "distinct (map d_key ds)"
    using districts.load [OF l(3) [unfolded LoadDistricts_def] ws(3) generates_district] ws(2) by (auto simp: empty_db_def)
  have "table_ok i_id {1..100000} item_ok ([] @ i)"
    by (rule table_ok_extend [OF _ i(1)]) (use i(4) in \<open>auto simp: const_defs\<close>)
  moreover have "table_ok w_id {1..int n} warehouse_ok ([] @ ws)"
    by (rule table_ok_extend [OF _ ws(1)]) (use ws(4) in auto)
  moreover have "table_ok d_key (districts_of {1..int n}) district_ok ([] @ ds)"
    by (rule table_ok_extend [OF _ ds(1)]) (use ds(4) in \<open>auto simp: const_defs districts_of_def\<close>)
  ultimately show ?thesis using ds(2,3) by (simp add: loaded_db_def empty_db_def)
qed

end
