(* ===== verification/Imported.thy ===== *)
theory Imported
  imports ImportProofs
begin

text \<open>
  A database in which all loads are done is consistent, holds the data the transactions need, and
  passes every check \<open>CheckSync\<close> makes after an import.
\<close>

definition imported :: "nat \<Rightarrow> (int \<Rightarrow> int \<Rightarrow> int \<Rightarrow> int) \<Rightarrow> database \<Rightarrow> bool" where
  "imported n cnt db \<longleftrightarrow> loaded_db n cnt (all_loads n) db"

lemma all_loads_mem [simp]:
  "Stock w \<in> all_loads n \<longleftrightarrow> w \<in> {1..int n}"
  "Customers w d \<in> all_loads n \<longleftrightarrow> w \<in> {1..int n} \<and> d \<in> {1..10}"
  "History w d \<in> all_loads n \<longleftrightarrow> w \<in> {1..int n} \<and> d \<in> {1..10}"
  "Oorder w d \<in> all_loads n \<longleftrightarrow> w \<in> {1..int n} \<and> d \<in> {1..10}"
  "NewOrders w d \<in> all_loads n \<longleftrightarrow> w \<in> {1..int n} \<and> d \<in> {1..10}"
  "OrderLines w d \<in> all_loads n \<longleftrightarrow> w \<in> {1..int n} \<and> d \<in> {1..10}"
  by (auto simp: all_loads_def)

lemma imported_tables:
  assumes "imported n cnt db"
  shows "table_ok i_id {1..100000} item_ok (item db)"
    and "table_ok w_id {1..int n} warehouse_ok (warehouse db)"
    and "table_ok d_key ({1..int n} \<times> {1..10}) district_ok (district db)"
    and "table_ok s_key ({1..int n} \<times> {1..100000}) stock_ok (stock db)"
    and "table_ok c_key ({1..int n} \<times> {1..10} \<times> {1..3000}) customer_ok (customer db)"
    and "table_ok h_cust ({1..int n} \<times> {1..10} \<times> {1..3000}) history_ok (history db)"
    and "table_ok o_key ({1..int n} \<times> {1..10} \<times> {1..3000}) (oorder_ok cnt) (oorder db)"
    and "table_ok no_key ({1..int n} \<times> {1..10} \<times> {2101..3000}) (\<lambda>_. True) (new_order db)"
    and "table_ok ol_key {(w, d, k, l). w \<in> {1..int n} \<and> d \<in> {1..10} \<and> k \<in> {1..3000} \<and> l \<in> {1..cnt w k d}} order_line_ok (order_line db)"
proof -
  have s: "{(w, d, c). w \<in> {1..int n} \<and> d \<in> {1..10} \<and> c \<in> A} = {1..int n} \<times> {1..10} \<times> A"
    "{w. w \<in> {1..int n}} = {1..int n}" for A :: "int set" by auto
  show "table_ok i_id {1..100000} item_ok (item db)"
    and "table_ok w_id {1..int n} warehouse_ok (warehouse db)"
    and "table_ok d_key ({1..int n} \<times> {1..10}) district_ok (district db)"
    and "table_ok s_key ({1..int n} \<times> {1..100000}) stock_ok (stock db)"
    and "table_ok c_key ({1..int n} \<times> {1..10} \<times> {1..3000}) customer_ok (customer db)"
    and "table_ok h_cust ({1..int n} \<times> {1..10} \<times> {1..3000}) history_ok (history db)"
    and "table_ok o_key ({1..int n} \<times> {1..10} \<times> {1..3000}) (oorder_ok cnt) (oorder db)"
    and "table_ok no_key ({1..int n} \<times> {1..10} \<times> {2101..3000}) (\<lambda>_. True) (new_order db)"
    and "table_ok ol_key {(w, d, k, l). w \<in> {1..int n} \<and> d \<in> {1..10} \<and> k \<in> {1..3000} \<and> l \<in> {1..cnt w k d}} order_line_ok (order_line db)"
    using assms unfolding imported_def loaded_db_def districts_of_def all_loads_mem conj_assoc unfolding s by blast+
qed

section \<open>Consistency\<close>

lemma imported_keys: "imported n cnt db \<Longrightarrow> keys_ok db"
  using imported_tables [of n cnt db] by (simp add: keys_ok_def table_ok_def)

lemma imported_o_ids: "imported n cnt db \<Longrightarrow> p \<in> {1..int n} \<times> {1..10} \<Longrightarrow> o_ids db p = {1..<3001}"
proof -
  assume a: "imported n cnt db" "p \<in> {1..int n} \<times> {1..10}"
  note t = imported_tables(7) [OF a(1)]
  have "k \<in> o_ids db p \<longleftrightarrow> (fst p, snd p, k) \<in> o_key ` set (oorder db)" for k
    by (cases p) (auto simp: o_ids_def o_key_def image_iff)
  then show ?thesis using t a(2) by (auto simp: table_ok_def)
qed

lemma imported_no_ids: "imported n cnt db \<Longrightarrow> p \<in> {1..int n} \<times> {1..10} \<Longrightarrow> no_ids db p = {2101..<3001}"
proof -
  assume a: "imported n cnt db" "p \<in> {1..int n} \<times> {1..10}"
  note t = imported_tables(8) [OF a(1)]
  have "k \<in> no_ids db p \<longleftrightarrow> (fst p, snd p, k) \<in> no_key ` set (new_order db)" for k
    by (cases p) (auto simp: no_ids_def no_key_def image_iff)
  then show ?thesis using t a(2) by (auto simp: table_ok_def)
qed

lemma imported_orders: "imported n cnt db \<Longrightarrow> orders_ok db"
proof -
  assume a: "imported n cnt db"
  have d: "d_key r \<in> {1..int n} \<times> {1..10} \<and> d_next_o_id r = 3001" if "r \<in> set (district db)" for r
    using table_rowD [OF imported_tables(3) [OF a] that] by (simp add: district_ok_def)
  have "(o_w_id r, o_d_id r) \<in> d_key ` set (district db)" if "r \<in> set (oorder db)" for r
    using table_rowD [OF imported_tables(7) [OF a] that] imported_tables(3) [OF a] by (auto simp: o_key_def table_ok_def)
  then show ?thesis
    using d imported_o_ids [OF a] imported_no_ids [OF a] unfolding orders_ok_def
    by (fastforce intro!: exI [of _ 2101])
qed

lemma imported_new_orders: "imported n cnt db \<Longrightarrow> new_orders_ok db"
proof -
  assume a: "imported n cnt db"
  have no: "no_key ` set (new_order db) = {1..int n} \<times> {1..10} \<times> {2101..3000}"
    using imported_tables(8) [OF a] by (simp add: table_ok_def)
  have r: "oorder_ok cnt r \<and> o_key r \<in> {1..int n} \<times> {1..10} \<times> {1..3000}" if "r \<in> set (oorder db)" for r
    using table_rowD [OF imported_tables(7) [OF a] that] .
  have ex: "\<exists>r \<in> set (oorder db). o_key r = k \<and> oorder_ok cnt r" if "k \<in> {1..int n} \<times> {1..10} \<times> {1..3000}" for k
    using table_keyE [OF imported_tables(7) [OF a] that] .
  have "k \<in> no_key ` set (new_order db) \<longleftrightarrow> (\<exists>r \<in> set (oorder db). o_key r = k \<and> o_carrier_id r = None)" for k
  proof
    assume "k \<in> no_key ` set (new_order db)"
    then have k: "k \<in> {1..int n} \<times> {1..10} \<times> {2101..3000}" using no by simp
    then obtain r where "r \<in> set (oorder db)" "o_key r = k" "oorder_ok cnt r" using ex [of k] by auto
    then show "\<exists>r \<in> set (oorder db). o_key r = k \<and> o_carrier_id r = None"
      using k by (intro bexI [of _ r]) (auto simp: oorder_ok_def o_key_def)
  next
    assume "\<exists>r \<in> set (oorder db). o_key r = k \<and> o_carrier_id r = None"
    then show "k \<in> no_key ` set (new_order db)" using no r by (fastforce simp: oorder_ok_def o_key_def)
  qed
  then show ?thesis using r by (auto simp: new_orders_ok_def oorder_ok_def)
qed

lemma ol_order_key: "ol_order l = (fst (ol_key l), fst (snd (ol_key l)), fst (snd (snd (ol_key l))))"
  by (simp add: ol_order_def ol_key_def)

lemma imported_line_count:
  assumes "imported n cnt db" "w \<in> {1..int n}" "d \<in> {1..10}" "k \<in> {1..3000}" "0 \<le> cnt w k d"
  shows "int (length (sql_where ol_order (w, d, k) (order_line db))) = cnt w k d"
proof -
  let ?K = "{(w, d, k, l). w \<in> {1..int n} \<and> d \<in> {1..10} \<and> k \<in> {1..3000} \<and> l \<in> {1..cnt w k d}}"
  have "length (filter (\<lambda>l. ol_order l = (w, d, k)) (order_line db))
      = card {p \<in> ?K. (fst p, fst (snd p), fst (snd (snd p))) = (w, d, k)}"
    by (rule table_count [OF imported_tables(9) [OF assms(1)]]) (simp add: ol_order_key)
  also have "{p \<in> ?K. (fst p, fst (snd p), fst (snd (snd p))) = (w, d, k)} = (\<lambda>l. (w, d, k, l)) ` {1..cnt w k d}"
    using assms(2-4) by auto
  also have "card \<dots> = nat (cnt w k d)" by (subst card_image) (auto simp: inj_on_def)
  finally show ?thesis using assms(5) by (simp add: sql_where_def)
qed

lemma imported_lines:
  assumes "imported n cnt db" "\<And>w k d. 1 \<le> cnt w k d"
  shows "lines_ok db"
proof -
  have "1 \<le> o_ol_cnt r \<and> o_ol_cnt r = int (length (sql_where ol_order (o_key r) (order_line db)))" if "r \<in> set (oorder db)" for r
  proof -
    have r: "oorder_ok cnt r" "o_key r \<in> {1..int n} \<times> {1..10} \<times> {1..3000}"
      using table_rowD [OF imported_tables(7) [OF assms(1)] that] by simp_all
    have "int (length (sql_where ol_order (o_key r) (order_line db))) = cnt (o_w_id r) (o_id r) (o_d_id r)"
      using r(2) assms(2) [of "o_w_id r" "o_id r" "o_d_id r"] unfolding o_key_def
      by (intro imported_line_count [OF assms(1)]) auto
    then show ?thesis using r(1) assms(2) by (simp add: oorder_ok_def)
  qed
  moreover have "ol_order l \<in> o_key ` set (oorder db)" if "l \<in> set (order_line db)" for l
    using table_rowD [OF imported_tables(9) [OF assms(1)] that] imported_tables(7) [OF assms(1)]
    by (auto simp: table_ok_def ol_order_def ol_key_def)
  ultimately show ?thesis unfolding lines_ok_def by blast
qed

lemma imported_delivery: "imported n cnt db \<Longrightarrow> delivery_ok db"
proof -
  assume a: "imported n cnt db"
  have "(ol_delivery_d l = None \<longleftrightarrow> o_carrier_id r = None)" if "r \<in> set (oorder db)" "l \<in> set (order_line db)" "ol_order l = o_key r" for r l
    using table_rowD [OF imported_tables(7) [OF a] that(1)] table_rowD [OF imported_tables(9) [OF a] that(2)] that(3)
    by (auto simp: oorder_ok_def order_line_ok_def ol_order_def o_key_def)
  then show ?thesis by (auto simp: delivery_ok_def)
qed

lemma imported_ytd: "imported n cnt db \<Longrightarrow> ytd_ok db"
proof -
  assume a: "imported n cnt db"
  have d: "sum_where (\<lambda>r. d_w_id r = w) d_ytd (district db) = 30000000" if "w \<in> {1..int n}" for w
  proof -
    have "sum_where (\<lambda>r. d_w_id r = w) d_ytd (district db) = int (card {k \<in> {1..int n} \<times> {1..10 :: int}. fst k = w}) * 3000000"
      by (rule table_sum [OF imported_tables(3) [OF a]]) (auto simp: d_key_def district_ok_def)
    also have "{k \<in> {1..int n} \<times> {1..10}. fst k = w} = {w} \<times> {1..10 :: int}" using that by auto
    finally show ?thesis by (simp add: card_cartesian_product)
  qed
  have h: "sum_where (\<lambda>h. h_w_id h = w) h_amount (history db) = 30000000" if "w \<in> {1..int n}" for w
  proof -
    have "sum_where (\<lambda>h. h_w_id h = w) h_amount (history db) = int (card {k \<in> {1..int n} \<times> {1..10 :: int} \<times> {1..3000 :: int}. fst k = w}) * 1000"
      by (rule table_sum [OF imported_tables(6) [OF a]]) (auto simp: h_cust_def history_ok_def)
    also have "{k \<in> {1..int n} \<times> {1..10} \<times> {1..3000}. fst k = w} = {w} \<times> {1..10 :: int} \<times> {1..3000 :: int}" using that by auto
    finally show ?thesis by (simp add: card_cartesian_product)
  qed
  have hd: "sum_where (\<lambda>h. (h_w_id h, h_d_id h) = p) h_amount (history db) = 3000000" if "p \<in> {1..int n} \<times> {1..10}" for p
  proof -
    have "sum_where (\<lambda>h. (h_w_id h, h_d_id h) = p) h_amount (history db)
        = int (card {k \<in> {1..int n} \<times> {1..10} \<times> {1..3000 :: int}. (fst k, fst (snd k)) = p}) * 1000"
      by (rule table_sum [OF imported_tables(6) [OF a]]) (auto simp: h_cust_def history_ok_def)
    also have "{k \<in> {1..int n} \<times> {1..10} \<times> {1..3000}. (fst k, fst (snd k)) = p} = {fst p} \<times> {snd p} \<times> {1..3000 :: int}"
      using that by auto
    finally show ?thesis by (simp add: card_cartesian_product)
  qed
  have w: "w_ytd r = 30000000 \<and> w_id r \<in> {1..int n}" if "r \<in> set (warehouse db)" for r
    using table_rowD [OF imported_tables(2) [OF a] that] by (simp add: warehouse_ok_def)
  have dd: "d_ytd r = 3000000 \<and> d_key r \<in> {1..int n} \<times> {1..10}" if "r \<in> set (district db)" for r
    using table_rowD [OF imported_tables(3) [OF a] that] by (simp add: district_ok_def)
  show ?thesis unfolding ytd_ok_def using w dd d h hd by auto
qed

lemma imported_balance: "imported n cnt db \<Longrightarrow> balance_ok db"
proof -
  assume a: "imported n cnt db"
  have p: "paid db c = 1000" if "c \<in> {1..int n} \<times> {1..10} \<times> {1..3000}" for c
  proof -
    have "paid db c = int (card {k \<in> {1..int n} \<times> {1..10} \<times> {1..3000}. k = c}) * 1000"
      unfolding paid_def by (rule table_sum [OF imported_tables(6) [OF a]]) (auto simp: history_ok_def)
    also have "{k \<in> {1..int n} \<times> {1..10} \<times> {1..3000}. k = c} = {c}" using that by auto
    finally show ?thesis by simp
  qed
  have "delivered_sum db c = 0" for c
  proof -
    have "ol_amount l = 0" if "l \<in> set (filter (\<lambda>l. ol_delivery_d l \<noteq> None \<and> ol_order l \<in> orders_of db c) (order_line db))" for l
      using table_rowD [OF imported_tables(9) [OF a], of l] that by (auto simp: order_line_ok_def)
    then show ?thesis unfolding delivered_sum_def sum_where_def
      by (intro sum_list_nonneg_eq_0_iff [THEN iffD2]) (auto simp del: not_None_eq)
  qed
  moreover have "customer_ok c \<and> c_key c \<in> {1..int n} \<times> {1..10} \<times> {1..3000}" if "c \<in> set (customer db)" for c
    using table_rowD [OF imported_tables(5) [OF a] that] .
  ultimately show ?thesis using p by (simp add: balance_ok_def customer_ok_def)
qed

lemma imported_consistent: "imported n cnt db \<Longrightarrow> (\<And>w k d. 1 \<le> cnt w k d) \<Longrightarrow> consistent db"
  unfolding consistent_def
  by (intro conjI imported_keys imported_orders imported_new_orders imported_lines imported_delivery imported_ytd imported_balance)

lemma imported_populated: "imported n cnt db \<Longrightarrow> populated (int n) db"
proof -
  assume a: "imported n cnt db"
  note t = imported_tables [OF a]
  have "\<exists>r \<in> set (customer db). (c_w_id r, c_d_id r) = (w, d) \<and> GetLastName k = Inr (c_last r)"
    if wd: "w \<in> {1..int n}" "d \<in> {1..10}" "k \<in> {0..999}" for w d k
  proof -
    obtain r where "r \<in> set (customer db)" "c_key r = (w, d, k + 1)" "customer_ok r"
      using table_keyE [OF t(5), of "(w, d, k + 1)"] wd by (auto simp del: bex_simps)
    then show ?thesis using wd(3) by (intro bexI [of _ r]) (auto simp: customer_ok_def c_key_def)
  qed
  then show ?thesis using t by (simp add: populated_def table_ok_def const_defs)
qed

section \<open>The checks after an import\<close>

lemma check_range_ok:
  assumes "set xs = {lo..hi}" "lo \<le> hi"
  shows "check_range xs lo hi msg = Inr ()"
proof -
  have "xs \<noteq> []" using assms by auto
  moreover have "Min (set xs) = lo" "Max (set xs) = hi" using assms by (auto intro: Min_eqI Max_eqI)
  ultimately show ?thesis by (simp add: check_range_def agg_min_def agg_max_def get_int_def require_def)
qed

text \<open>The values of a column.\<close>

lemma table_column:
  assumes "table_ok key K P t" "\<And>r. P r \<Longrightarrow> f r = g (key r)"
  shows "set (map f t) = g ` K"
proof -
  have "f r = g (key r)" if "r \<in> set t" for r using assms that by (auto simp: table_ok_def)
  then have "set (map f t) = g ` key ` set t" by (auto simp: image_iff)
  then show ?thesis using assms(1) by (simp add: table_ok_def)
qed

lemma image_first: "B \<noteq> {} \<Longrightarrow> fst ` (A \<times> B) = A"
  and image_second: "A \<noteq> {} \<Longrightarrow> snd ` (A \<times> B) = B"
  by auto

lemma imported_columns:
  assumes "imported n cnt db" "0 < n"
  shows "set (map w_id (warehouse db)) = {1..int n}" "set (map i_id (item db)) = {1..100000}"
    "set (map d_w_id (district db)) = {1..int n}" "set (map d_id (district db)) = {1..10}"
    "set (map s_w_id (stock db)) = {1..int n}" "set (map s_i_id (stock db)) = {1..100000}"
    "set (map c_w_id (customer db)) = {1..int n}" "set (map c_d_id (customer db)) = {1..10}" "set (map c_id (customer db)) = {1..3000}"
    "set (map h_c_w_id (history db)) = {1..int n}"
    "set (map o_w_id (oorder db)) = {1..int n}" "set (map o_d_id (oorder db)) = {1..10}" "set (map o_id (oorder db)) = {1..3000}"
    "set (map no_w_id (new_order db)) = {1..int n}" "set (map no_d_id (new_order db)) = {1..10}" "set (map no_o_id (new_order db)) = {2101..3000}"
proof -
  note t = imported_tables [OF assms(1)]
  have ne: "{1..int n} \<noteq> {}" "{1..10 :: int} \<noteq> {}" "{1..3000 :: int} \<noteq> {}" "{2101..3000 :: int} \<noteq> {}" "{1..100000 :: int} \<noteq> {}"
    using assms(2) by simp_all
  have f3: "(\<lambda>k. fst (snd k)) ` (A \<times> B \<times> C) = B" "(\<lambda>k. snd (snd k)) ` (A \<times> B \<times> C) = C"
    if "A \<noteq> {}" "B \<noteq> {}" "C \<noteq> {}" for A B C :: "int set" using that by force+
  show "set (map w_id (warehouse db)) = {1..int n}" "set (map i_id (item db)) = {1..100000}"
    using t(1,2) by (simp_all add: table_ok_def)
  show "set (map d_w_id (district db)) = {1..int n}" "set (map d_id (district db)) = {1..10}"
    using table_column [OF t(3), of d_w_id fst] table_column [OF t(3), of d_id snd] assms(2)
    by (simp_all add: d_key_def)
  show "set (map s_w_id (stock db)) = {1..int n}" "set (map s_i_id (stock db)) = {1..100000}"
    using table_column [OF t(4), of s_w_id fst] table_column [OF t(4), of s_i_id snd] assms(2)
    by (simp_all add: s_key_def)
  have ne2: "{1..10 :: int} \<times> {1..3000 :: int} \<noteq> {}" "{1..10 :: int} \<times> {2101..3000 :: int} \<noteq> {}" by auto
  show "set (map c_w_id (customer db)) = {1..int n}" "set (map c_d_id (customer db)) = {1..10}" "set (map c_id (customer db)) = {1..3000}"
    using table_column [OF t(5), of c_w_id fst] table_column [OF t(5), of c_d_id "\<lambda>k. fst (snd k)"]
      table_column [OF t(5), of c_id "\<lambda>k. snd (snd k)"] image_first [OF ne2(1)] f3 [OF ne(1-3)]
    by (simp_all add: c_key_def)
  show "set (map h_c_w_id (history db)) = {1..int n}"
    using table_column [OF t(6), of h_c_w_id fst] image_first [OF ne2(1)] by (simp add: h_cust_def)
  show "set (map o_w_id (oorder db)) = {1..int n}" "set (map o_d_id (oorder db)) = {1..10}" "set (map o_id (oorder db)) = {1..3000}"
    using table_column [OF t(7), of o_w_id fst] table_column [OF t(7), of o_d_id "\<lambda>k. fst (snd k)"]
      table_column [OF t(7), of o_id "\<lambda>k. snd (snd k)"] image_first [OF ne2(1)] f3 [OF ne(1-3)]
    by (simp_all add: o_key_def)
  show "set (map no_w_id (new_order db)) = {1..int n}" "set (map no_d_id (new_order db)) = {1..10}" "set (map no_o_id (new_order db)) = {2101..3000}"
    using table_column [OF t(8), of no_w_id fst] table_column [OF t(8), of no_d_id "\<lambda>k. fst (snd k)"]
      table_column [OF t(8), of no_o_id "\<lambda>k. snd (snd k)"] image_first [OF ne2(2)] f3 [OF ne(1,2,4)]
    by (simp_all add: no_key_def)
qed

lemma imported_lengths:
  assumes "imported n cnt db"
  shows "length (warehouse db) = n" "length (item db) = 100000" "length (district db) = n * 10" "length (stock db) = n * 100000"
    "length (customer db) = n * 30000" "length (history db) = n * 30000" "length (oorder db) = n * 30000" "length (new_order db) = n * 9000"
  using imported_tables(1-8) [OF assms, THEN table_length] by (simp_all add: card_cartesian_product)

lemma imul_small: "- (2 ^ 31) \<le> a * b \<Longrightarrow> a * b < 2 ^ 31 \<Longrightarrow> imul a b = Inr (a * b)"
  by (simp add: imul_def)

lemma imported_base_checks:
  assumes "imported n cnt db" "0 < n" "n \<le> 21474" "c \<in> set (base_checks (int n) db)"
  shows "c = Inr ()"
proof -
  note col = imported_columns [OF assms(1,2)] and len = imported_lengths [OF assms(1)]
  have r: "check_range xs 1 (int n) m = Inr ()" if "set xs = {1..int n}" for xs m
    using that assms(2) by (intro check_range_ok) simp_all
  have w: "BaseCheckWarehouseTable (int n) db = Inr ()"
  proof -
    have "map w_id (warehouse db) \<noteq> []" using len(1) assms(2) by auto
    moreover have "Min (set (map w_id (warehouse db))) = 1" "Max (set (map w_id (warehouse db))) = int n"
      unfolding col(1) using assms(2) by (auto intro: Min_eqI Max_eqI)
    ultimately show ?thesis
      by (simp add: BaseCheckWarehouseTable_def agg_min_def agg_max_def get_int_def require_def len(1) del: set_map)
  qed
  moreover have "BaseCheckDistrictTable (int n) db = Inr ()"
    using assms(3) len(3) by (simp add: BaseCheckDistrictTable_def imul_small require_def r [OF col(3)] check_range_ok [OF col(4)] const_defs)
  moreover have "BaseCheckCustomerTable (int n) db = Inr ()"
    using assms(3) len(5)
    by (simp add: BaseCheckCustomerTable_def imul_small require_def r [OF col(7)] check_range_ok [OF col(8)] check_range_ok [OF col(9)] const_defs)
  moreover have "BaseCheckItemTable db = Inr ()"
    using len(2) by (simp add: BaseCheckItemTable_def require_def check_range_ok [OF col(2)] const_defs)
  moreover have "length (remdups (map s_w_id (stock db))) = n"
    using col(5) by (metis length_remdups_card_conv card_atLeastAtMost_int diff_add_cancel nat_int add.commute)
  then have "BaseCheckStockTable (int n) db = Inr ()"
    using assms(3) len(4) by (simp add: BaseCheckStockTable_def imul_small require_def r [OF col(5)] check_range_ok [OF col(6)] const_defs)
  ultimately show ?thesis using assms(4) by (auto simp: base_checks_def)
qed

lemma group_by_length: "length (group_by key t) = card (key ` set t)"
  by (simp add: group_by_def length_remdups_card_conv)

lemma singleton_setI: "(\<And>x. x \<in> set xs \<Longrightarrow> x = c) \<Longrightarrow> set xs \<noteq> {} \<Longrightarrow> set xs = {c}"
  by (metis equals0I insertI1 singletonD subsetI subset_singletonD)

lemma imported_order_lines_check:
  assumes "imported n cnt db" "0 < n" "n \<le> 21474" "\<And>w k d. 1 \<le> cnt w k d"
  shows "BaseCheckOrderLineTable (int n) db = Inr ()"
proof -
  let ?key = "\<lambda>l. (ol_w_id l, ol_d_id l)" and ?t = "order_line db"
  let ?K = "{(w, d, k, l). w \<in> {1..int n} \<and> d \<in> {1..10} \<and> k \<in> {1..3000} \<and> l \<in> {1..cnt w k d}}"
  have K: "ol_key ` set ?t = ?K" using imported_tables(9) [OF assms(1)] by (simp add: table_ok_def)
  have mem: "(w, d, k, 1) \<in> ?K \<longleftrightarrow> w \<in> {1..int n} \<and> d \<in> {1..10} \<and> k \<in> {1..3000}" for w d k
    using assms(4) by auto
  have "?key ` set ?t = (\<lambda>p. (fst p, fst (snd p))) ` ?K" unfolding K [symmetric] by (auto simp: ol_key_def image_iff)
  also have "\<dots> = {1..int n} \<times> {1..10}"
  proof
    show "{1..int n} \<times> {1..10} \<subseteq> (\<lambda>p. (fst p, fst (snd p))) ` ?K"
    proof
      fix p assume "p \<in> {1..int n} \<times> {1..10 :: int}"
      then have "(fst p, snd p, 1, 1) \<in> ?K" using mem [of "fst p" "snd p" 1] by auto
      from imageI [OF this, of "\<lambda>p. (fst p, fst (snd p))"] show "p \<in> (\<lambda>p. (fst p, fst (snd p))) ` ?K" by simp
    qed
  qed auto
  finally have key: "?key ` set ?t = {1..int n} \<times> {1..10}" .
  have group: "length (remdups (map ol_o_id (sql_where ?key p ?t))) = 3000" if "p \<in> {1..int n} \<times> {1..10}" for p
  proof -
    have "set (map ol_o_id (sql_where ?key p ?t)) = {k. \<exists>l. (fst p, snd p, k, l) \<in> ol_key ` set ?t}"
      by (cases p) (auto simp: sql_where_def ol_key_def image_iff)
    also have "\<dots> = {1..3000}" unfolding K using that assms(4) by (cases p) (auto intro!: exI [of _ 1])
    finally show ?thesis by (simp add: length_remdups_card_conv del: set_map)
  qed
  let ?sub = "map (\<lambda>(k, g). int (length (remdups (map ol_o_id g)))) (group_by ?key ?t)"
  have sub: "set ?sub = {3000}"
  proof -
    have "x = 3000" if "x \<in> set ?sub" for x using that group by (auto simp: group_by_mem key [symmetric])
    moreover have "(1, 1) \<in> ?key ` set ?t" unfolding key using assms(2) by simp
    then have "group_by ?key ?t \<noteq> []" by (auto simp: group_by_def)
    then have "set ?sub \<noteq> {}" by simp
    ultimately show ?thesis using singleton_setI [of ?sub] by blast
  qed
  have "length ?sub = n * 10" using key by (simp add: group_by_length card_cartesian_product)
  moreover have "check_range ?sub 3000 3000 m = Inr ()" for m by (rule check_range_ok) (simp_all only: sub, auto)
  ultimately show ?thesis
    using assms(3) unfolding BaseCheckOrderLineTable_def Let_def
    by (simp add: imul_small require_def const_defs del: set_map length_map)
qed

lemma imported_base_checks_import:
  assumes "imported n cnt db" "0 < n" "n \<le> 21474" "\<And>w k d. 1 \<le> cnt w k d" "c \<in> set (base_checks_import (int n) db)"
  shows "c = Inr ()"
proof -
  note col = imported_columns [OF assms(1,2)] and len = imported_lengths [OF assms(1)]
  have r: "check_range xs 1 (int n) m = Inr ()" if "set xs = {1..int n}" for xs m
    using that assms(2) by (intro check_range_ok) simp_all
  have "BaseCheckOorderTable (int n) db = Inr ()"
    using assms(3) len(7)
    by (simp add: BaseCheckOorderTable_def imul_small require_def r [OF col(11)] check_range_ok [OF col(12)] check_range_ok [OF col(13)] const_defs)
  moreover have "new_order db \<noteq> []" using len(8) assms(2) by auto
  then have "agg_min (map no_o_id (new_order db)) = Some 2101" "agg_max (map no_o_id (new_order db)) = Some 3000"
    unfolding agg_min_def agg_max_def col(16) by (auto intro: Min_eqI Max_eqI)
  then have "BaseCheckNewOrderTable (int n) db = Inr ()"
    using assms(3) len(8)
    by (simp add: BaseCheckNewOrderTable_def Let_def imul_small require_def get_int_def r [OF col(14)] check_range_ok [OF col(15)] const_defs)
  moreover have "BaseCheckHistoryTable (int n) db = Inr ()"
    using assms(3) len(6) by (simp add: BaseCheckHistoryTable_def imul_small require_def r [OF col(10)] const_defs)
  ultimately show ?thesis using assms(5) imported_order_lines_check [OF assms(1-4)] by (auto simp: base_checks_import_def)
qed

lemma imported_33211:
  assumes "imported n cnt db"
  shows "ConsistencyCheck33211 m db = Inr ()"
  unfolding ConsistencyCheck33211_def Let_def
proof (rule for_rangesI, rule CheckNoRows_filterI, goal_cases)
  case (1 s e x)
  note t = imported_tables [OF assms]
  obtain p g h where x: "x = ((p, g), (p, h))" and g: "p \<in> (\<lambda>r. (o_w_id r, o_d_id r)) ` set (filter (\<lambda>r. in_wh s e (o_w_id r)) (oorder db))"
    "g = sql_where (\<lambda>r. (o_w_id r, o_d_id r)) p (filter (\<lambda>r. in_wh s e (o_w_id r)) (oorder db))"
    "h = sql_where (\<lambda>r. (no_w_id r, no_d_id r)) p (filter (\<lambda>r. in_wh s e (no_w_id r)) (new_order db))"
  proof -
    obtain p g q h where x: "x = ((p, g), (q, h))" by (metis surj_pair)
    show ?thesis using 1 that [of p g h] unfolding x inner_join_mem group_by_mem fst_conv snd_conv by metis
  qed
  obtain r where r: "r \<in> set (oorder db)" "p = (o_w_id r, o_d_id r)" "in_wh s e (fst p)" using g(1) by auto
  have p: "p \<in> {1..int n} \<times> {1..10}" using table_rowD [OF t(7) r(1)] r(2) by (auto simp: o_key_def)
  have go: "g = filter (\<lambda>r. (o_w_id r, o_d_id r) = p) (oorder db)" "h = filter (\<lambda>r. (no_w_id r, no_d_id r) = p) (new_order db)"
    using r(3) unfolding g(2,3) sql_where_def filter_filter by (auto intro!: filter_cong)
  have s: "{k \<in> {1..int n} \<times> {1..10} \<times> A. (fst k, fst (snd k)) = p} = {fst p} \<times> {snd p} \<times> A" for A :: "int set"
    using p by auto
  have "length g = card ({fst p} \<times> {snd p} \<times> {1..3000 :: int})"
    unfolding go(1) s [symmetric] by (rule table_count [OF t(7)]) (simp add: o_key_def)
  moreover have "length h = card ({fst p} \<times> {snd p} \<times> {2101..3000 :: int})"
    unfolding go(2) s [symmetric] by (rule table_count [OF t(8)]) (simp add: no_key_def)
  ultimately show ?case by (simp add: x card_cartesian_product const_defs)
qed

lemma imported_post_checks:
  assumes "imported n cnt db" "c \<in> set (post_import_checks m db)"
  shows "c = Inr ()"
proof -
  note t = imported_tables [OF assms(1)]
  have "PostImportCheckNextOrderId db = Inr ()" "PostImportCheckDistrictYtd db = Inr ()"
    using table_rowD [OF t(3)] unfolding PostImportCheckNextOrderId_def PostImportCheckDistrictYtd_def
    by (auto intro!: CheckNoRows_filterI simp: district_ok_def cents_def const_defs)
  moreover have "PostImportCheckWarehouseYtd db = Inr ()"
    using table_rowD [OF t(2)] unfolding PostImportCheckWarehouseYtd_def
    by (auto intro!: CheckNoRows_filterI simp: warehouse_ok_def cents_def const_defs)
  moreover have "PostImportCheckNoCarriers db = Inr ()"
    using table_rowD [OF t(7)] unfolding PostImportCheckNoCarriers_def
    by (intro CheckNoRows_filterI) (auto simp: oorder_ok_def const_defs)
  moreover have "PostImportCheckNoDeliveryDates db = Inr ()"
    using table_rowD [OF t(9)] unfolding PostImportCheckNoDeliveryDates_def
    by (intro CheckNoRows_filterI) (auto simp: order_line_ok_def const_defs)
  ultimately show ?thesis using assms(2) imported_33211 [OF assms(1)] by (auto simp: post_import_checks_def)
qed

lemma imported_accepted:
  assumes "imported n cnt db" "0 < n" "n \<le> 21474" "\<And>w k d. 1 \<le> cnt w k d"
  shows "CheckSync (int n) True db = Inr ()" "CheckSync (int n) False db = Inr ()"
proof -
  have b: "run_checks (base_checks (int n) db @ base_checks_import (int n) db) 0 = Inr 0" "run_checks (base_checks (int n) db) 0 = Inr 0"
    using imported_base_checks [OF assms(1-3)] imported_base_checks_import [OF assms(1-4)] by (auto intro!: run_checks_ok)
  have "run_checks (consistency_checks (int n) db @ post_import_checks (int n) db) 0 = Inr 0" "run_checks (consistency_checks (int n) db) 0 = Inr 0"
    using consistency_checks_pass [OF imported_consistent [OF assms(1,4)]] imported_post_checks [OF assms(1)]
    by (auto intro!: run_checks_ok)
  then show "CheckSync (int n) True db = Inr ()" "CheckSync (int n) False db = Inr ()" using assms(2) b by (simp_all add: CheckSync_def)
qed

end
