(* ===== verification/ImportRun.thy ===== *)
theory ImportRun
  imports Imported
begin

text \<open>
  The interleaved loader threads of \<open>ImportSync\<close>: the warehouses are split exactly, no load is lost or done
  twice in any interleaving, and \<open>ImportSync\<close> returns normally only with the complete database.
\<close>

section \<open>The split of the warehouses\<close>

lemma upto_append: "i \<le> j + 1 \<Longrightarrow> j \<le> k \<Longrightarrow> [i..j] @ [j + 1..k] = [i..k]"
proof (cases "i \<le> j")
  case True
  then show "j \<le> k \<Longrightarrow> ?thesis" using upto_split2 [of i j k] by simp
next
  case False
  moreover assume "i \<le> j + 1"
  ultimately have "i = j + 1" by simp
  then show ?thesis by simp
qed

lemma wh_ranges_prefix:
  assumes "0 < t" "t * n < 2 ^ 64" "m \<le> t"
  shows "concat (map (\<lambda>tid. [wh_start n t tid..wh_end n t tid]) [0..<m]) = [1..int (m * n div t)]"
  using assms(3)
proof (induction m)
  case (Suc m)
  have lt: "m * n < 2 ^ 64" "(m + 1) * n < 2 ^ 64"
    using Suc.prems assms(2) mult_le_mono1 [of "m + 1" t n] mult_le_mono1 [of m t n] by (simp_all add: Suc_leD)
  have "wh_start n t m = int (m * n div t) + 1" "wh_end n t m = int ((m + 1) * n div t)"
    using lt by (simp_all only: wh_start_def wh_end_def mod_less of_nat_add of_nat_1)
  moreover have "m * n div t \<le> (m + 1) * n div t" by (intro div_le_mono) simp
  ultimately show ?case using Suc upto_append [of 1 "int (m * n div t)" "int ((m + 1) * n div t)"] by simp
qed simp

lemma wh_ranges_split:
  assumes "0 < t" "t * n < 2 ^ 64"
  shows "concat (map (\<lambda>tid. [wh_start n t tid..wh_end n t tid]) [0..<t]) = [1..int n]"
  using wh_ranges_prefix [OF assms order_refl] assms(1) by simp

section \<open>What a thread has still to do\<close>

fun marks :: "action list \<Rightarrow> nat" where
  "marks [] = 0"
| "marks (a # as) = (if a = MarkLoaded then 1 else 0) + marks as"

fun bytes :: "action list \<Rightarrow> nat" where
  "bytes [] = 0"
| "bytes (a # as) = (case a of Progress k \<Rightarrow> k | _ \<Rightarrow> 0) + bytes as"

fun load_list :: "action list \<Rightarrow> load list" where
  "load_list [] = []"
| "load_list (a # as) = (case a of Load l \<Rightarrow> [l] | _ \<Rightarrow> []) @ load_list as"

lemma todo_append [simp]:
  "marks (as @ bs) = marks as + marks bs" "bytes (as @ bs) = bytes as + bytes bs"
  "load_list (as @ bs) = load_list as @ load_list bs"
  by (induction as) auto

lemma todo_concat:
  "marks (concat xs) = sum_list (map marks xs)" "bytes (concat xs) = sum_list (map bytes xs)"
  "load_list (concat xs) = concat (map load_list xs)"
  by (induction xs) auto

definition pending :: "(action list \<Rightarrow> 'a :: comm_monoid_add) \<Rightarrow> import_state \<Rightarrow> 'a" where
  "pending f s = sum_list (map (\<lambda>t. f (fst t)) (threads s))"

lemma pending_update:
  "i < length (threads s) \<Longrightarrow> pending f (s\<lparr>threads := (threads s)[i := (as, w)]\<rparr>) + f (fst (threads s ! i)) = pending f s + f as"
  using sum_list_update_eq [of i "threads s" "\<lambda>t. f (fst t)" "(as, w)"] by (simp add: pending_def)

lemma pending_cong: "threads s' = threads s \<Longrightarrow> pending f s' = pending f s"
  by (simp add: pending_def)

abbreviation todo :: "action list \<Rightarrow> load multiset" where
  "todo as \<equiv> mset (load_list as)"

lemma load_list_warehouse:
  "load_list (LoadWarehouse w) = Stock w # concat (map (\<lambda>d. [Customers w d, History w d, Oorder w d, NewOrders w d, OrderLines w d]) [1..10])"
  by (simp add: LoadWarehouse_def todo_concat load_district_def comp_def const_defs)

lemma marks_warehouse: "marks (LoadWarehouse w) = 1"
proof -
  have "marks (load_district w d) = 0" for d by (simp add: load_district_def)
  then show ?thesis by (simp add: LoadWarehouse_def todo_concat comp_def)
qed

lemma bytes_warehouse: "bytes (LoadWarehouse w) = EstimatePerWarehouseDataSize"
proof -
  have "bytes (load_district w d) = district_bytes" for d by (simp add: load_district_def)
  then show ?thesis by (simp add: LoadWarehouse_def todo_concat comp_def EstimatePerWarehouseDataSize_def const_defs sum_list_triv)
qed

section \<open>The start\<close>

definition whole_program :: "nat \<Rightarrow> action list" where
  "whole_program n = concat (map LoadWarehouse [1..int n])"

lemma pending_init:
  assumes "0 < t" "t * n < 2 ^ 64" "\<And>as bs. f (as @ bs) = f as + f bs" "f [] = 0"
  shows "pending f (import_init n t ws db) = f (whole_program n)"
proof -
  have c: "f (concat xs) = sum_list (map f xs)" for xs by (induction xs) (simp_all add: assms(3,4))
  have "pending f (import_init n t ws db) = f (concat (map (thread_program n t) [0..<t]))"
    by (simp add: pending_def import_init_def comp_def c)
  also have "concat (map (thread_program n t) [0..<t])
      = concat (map LoadWarehouse (concat (map (\<lambda>tid. [wh_start n t tid..wh_end n t tid]) [0..<t])))"
  proof -
    have "concat (map (\<lambda>x. concat (map g (h x))) xs) = concat (map g (concat (map h xs)))" for g :: "int \<Rightarrow> action list" and h :: "nat \<Rightarrow> int list" and xs
      by (induction xs) simp_all
    then show ?thesis by (simp only: thread_program_def [abs_def])
  qed
  finally show ?thesis by (simp only: wh_ranges_split [OF assms(1,2)] whole_program_def)
qed

lemma whole_program_todo:
  "marks (whole_program n) = n" "bytes (whole_program n) = n * EstimatePerWarehouseDataSize"
  "todo (whole_program n) = mset_set (all_loads n)"
proof -
  show "marks (whole_program n) = n" "bytes (whole_program n) = n * EstimatePerWarehouseDataSize"
    by (simp_all add: whole_program_def todo_concat comp_def marks_warehouse bytes_warehouse sum_list_triv)
  have ll: "load_list (whole_program n) = concat (map (load_list \<circ> LoadWarehouse) [1..int n])"
    by (simp add: whole_program_def todo_concat)
  have set_w: "set (load_list (LoadWarehouse w)) = insert (Stock w) (\<Union>d \<in> {1..10}. {Customers w d, History w d, Oorder w d, NewOrders w d, OrderLines w d})" for w
    by (simp add: load_list_warehouse del: upto_rec_numeral)
  have "distinct (concat (map (\<lambda>d. [Customers w d, History w d, Oorder w d, NewOrders w d, OrderLines w d]) ds))" if "distinct ds" for w ds
    using that by (induction ds) auto
  then have dw: "distinct (load_list (LoadWarehouse w))" for w by (auto simp: load_list_warehouse simp del: upto_rec_numeral)
  have "distinct (concat (map (load_list \<circ> LoadWarehouse) ws))" if "distinct ws" for ws
    using that by (induction ws) (auto simp: dw set_w)
  then have "distinct (load_list (whole_program n))" unfolding ll by simp
  moreover have "set (load_list (whole_program n)) = all_loads n" unfolding ll by (simp add: set_w all_loads_def)
  ultimately show "todo (whole_program n) = mset_set (all_loads n)" using mset_set_set by metis
qed

section \<open>The invariant\<close>

text \<open>
  \<open>all_running\<close>: no thread has given up. Then what is loaded and what is still to be loaded are
  together exactly everything.
\<close>

definition nothing_lost :: "nat \<Rightarrow> (int \<Rightarrow> int \<Rightarrow> int \<Rightarrow> int) \<Rightarrow> import_state \<Rightarrow> bool" where
  "nothing_lost n cnt s \<longleftrightarrow> pending todo s \<subseteq># mset_set (all_loads n)
     \<and> loaded_db n cnt (all_loads n - set_mset (pending todo s)) (shared s)
     \<and> (\<forall>t \<in> set (threads s). ready (snd t))
     \<and> DataSizeLoaded s + pending bytes s = EstimateSharedDataSize + n * EstimatePerWarehouseDataSize"

definition import_inv :: "nat \<Rightarrow> (int \<Rightarrow> int \<Rightarrow> int \<Rightarrow> int) \<Rightarrow> import_state \<Rightarrow> bool" where
  "import_inv n cnt s \<longleftrightarrow> (\<forall>t \<in> set (threads s). fst t = [] \<or> last (fst t) = MarkLoaded)
     \<and> WarehousesLoaded s + pending marks s \<le> n
     \<and> (WarehousesLoaded s + pending marks s = n \<longrightarrow> nothing_lost n cnt s)
     \<and> (main_at s = Testing \<longrightarrow> n \<le> WarehousesLoaded s \<or> stopFlag s)
     \<and> (main_at s \<in> {Joining False, Returned True} \<longrightarrow> n \<le> WarehousesLoaded s)"

lemma marks_pos: "as \<noteq> [] \<Longrightarrow> last as = MarkLoaded \<Longrightarrow> 0 < marks as"
  by (induction as) (auto split: if_splits)

lemma thread_program_last: "thread_program n t tid = [] \<or> last (thread_program n t tid) = MarkLoaded"
proof -
  have "concat (map LoadWarehouse ws) = [] \<or> last (concat (map LoadWarehouse ws)) = MarkLoaded" for ws
    by (induction ws) (auto simp: LoadWarehouse_def)
  then show ?thesis unfolding thread_program_def by blast
qed

lemma import_inv_init:
  assumes "0 < t" "t * n < 2 ^ 64" "loaded_db n cnt {} db" "\<And>w. w \<in> set ws \<Longrightarrow> ready w" "length ws = t"
  shows "import_inv n cnt (import_init n t ws db)"
proof -
  let ?s = "import_init n t ws db"
  have p: "pending marks ?s = n" "pending bytes ?s = n * EstimatePerWarehouseDataSize" "pending todo ?s = mset_set (all_loads n)"
    using pending_init [OF assms(1,2), of marks ws db] pending_init [OF assms(1,2), of bytes ws db]
      pending_init [OF assms(1,2), of todo ws db] whole_program_todo [of n] by simp_all
  have fin: "finite (all_loads n)" by (simp add: all_loads_def)
  have "fst x = [] \<or> last (fst x) = MarkLoaded" if "x \<in> set (threads ?s)" for x
    using that thread_program_last by (fastforce simp: import_init_def)
  moreover have "nothing_lost n cnt ?s"
    unfolding nothing_lost_def p using assms(3-5) fin by (auto simp: import_init_def)
  ultimately show ?thesis unfolding import_inv_def p by (simp add: import_init_def)
qed

section \<open>Every step keeps it\<close>

text \<open>
  A step of one thread: it does its first action and goes on, or gives up. Giving up loses a mark,
  so that the counter cannot reach the number of warehouses any more.
\<close>

abbreviation thread_step :: "import_state \<Rightarrow> nat \<Rightarrow> action list \<Rightarrow> world \<Rightarrow> import_state" where
  "thread_step s i as w \<equiv> s\<lparr>threads := (threads s)[i := (as, w)]\<rparr>"

lemma nth_fst: "threads s ! i = (as, w) \<Longrightarrow> i < length (threads s) \<Longrightarrow> (as, w) \<in> set (threads s)"
  by (metis nth_mem)

lemma give_up:
  assumes inv: "import_inv n cnt s" and i: "i < length (threads s)" "threads s ! i = (as, w)" "as \<noteq> []"
    and s': "threads s' = (threads s)[i := ([], w')]" "WarehousesLoaded s' = WarehousesLoaded s" "main_at s' = main_at s" "stopFlag s \<Longrightarrow> stopFlag s'"
  shows "import_inv n cnt s'"
proof -
  have "pending marks s' + marks as = pending marks s"
    using pending_update [OF i(1), of marks "[]" w'] i(2) pending_cong [of s' "thread_step s i [] w'" marks] s'(1) by simp
  moreover have "0 < marks as"
    using inv nth_fst [OF i(2,1)] i(3) by (intro marks_pos) (auto simp: import_inv_def)
  moreover have "fst t = [] \<or> last (fst t) = MarkLoaded" if "t \<in> set (threads s')" for t
    using that set_update_subset_insert [of "threads s" i "([], w')"] inv by (auto simp: s'(1) import_inv_def)
  ultimately show ?thesis using inv s'(2-4) by (auto simp: import_inv_def)
qed

lemma go_on:
  assumes inv: "import_inv n cnt s" and i: "i < length (threads s)" "threads s ! i = (a # as, w)"
    and s': "threads s' = (threads s)[i := (as, w')]" "WarehousesLoaded s' = WarehousesLoaded s + marks [a]"
      "main_at s' = main_at s" "stopFlag s' = stopFlag s"
    and keep: "nothing_lost n cnt s \<Longrightarrow> nothing_lost n cnt s'"
  shows "import_inv n cnt s'"
proof -
  have "pending marks s' + marks [a] = pending marks s"
    using pending_update [OF i(1), of marks as w'] i(2) pending_cong [of s' "thread_step s i as w'" marks] s'(1) by simp
  then have eq: "WarehousesLoaded s' + pending marks s' = WarehousesLoaded s + pending marks s" using s'(2) by simp
  have W: "\<forall>t \<in> set (threads s). fst t = [] \<or> last (fst t) = MarkLoaded" using inv by (simp add: import_inv_def)
  have "as = [] \<or> last as = MarkLoaded" using bspec [OF W nth_fst [OF i(2,1)]] by (auto split: if_splits)
  then have "fst t = [] \<or> last (fst t) = MarkLoaded" if "t \<in> set (threads s')" for t
    using that set_update_subset_insert [of "threads s" i "(as, w')"] W unfolding s'(1) by fastforce
  then show ?thesis using inv keep s'(2-4) unfolding import_inv_def eq by auto
qed

lemma nothing_lost_step:
  assumes nl: "nothing_lost n cnt s" and i: "i < length (threads s)" "threads s ! i = (a # as, w)"
    and s': "threads s' = (threads s)[i := (as, w')]" "DataSizeLoaded s' = DataSizeLoaded s + bytes [a]" "ready w'"
    and db: "loaded_db n cnt (all_loads n - set_mset (pending todo s) \<union> set (load_list [a])) (shared s')"
  shows "nothing_lost n cnt s'"
proof -
  have b: "pending bytes s' + bytes [a] = pending bytes s"
    using pending_update [OF i(1), of bytes as w'] i(2) pending_cong [of s' "thread_step s i as w'" bytes] s'(1) by simp
  have t: "pending todo s' + mset (load_list [a]) = pending todo s"
    using pending_update [OF i(1), of todo as w'] i(2) pending_cong [of s' "thread_step s i as w'" todo] s'(1)
    by (cases a) auto
  have sub: "pending todo s \<subseteq># mset_set (all_loads n)" using nl by (simp add: nothing_lost_def)
  have fin: "finite (all_loads n)" by (simp add: all_loads_def)
  have "set_mset (pending todo s') = set_mset (pending todo s) - set (load_list [a])"
  proof -
    have "set (load_list [a]) \<inter> set_mset (pending todo s') = {}"
    proof (rule ccontr)
      assume "set (load_list [a]) \<inter> set_mset (pending todo s') \<noteq> {}"
      then obtain l where "l \<in># pending todo s'" "l \<in># mset (load_list [a])" by (metis disjoint_iff set_mset_mset)
      then have "0 < count (pending todo s') l" "0 < count (mset (load_list [a])) l" unfolding count_greater_zero_iff .
      then have "2 \<le> count (pending todo s) l" unfolding t [symmetric] plus_multiset.rep_eq by linarith
      moreover have "count (pending todo s) l \<le> 1"
        using mset_subset_eq_count [OF sub, of l] count_mset_set(1) [OF fin, of l] count_mset_set(3) [of l "all_loads n"]
        by (cases "l \<in> all_loads n") auto
      ultimately show False by simp
    qed
    then show ?thesis using t [symmetric] by auto
  qed
  moreover have "set (load_list [a]) \<subseteq> all_loads n"
    using t set_mset_mono [OF sub] fin by (metis finite_set_mset_mset_set set_mset_mset set_mset_union sup_ge2 order_trans)
  ultimately have L: "all_loads n - set_mset (pending todo s') = all_loads n - set_mset (pending todo s) \<union> set (load_list [a])"
    by auto
  have "pending todo s' \<subseteq># mset_set (all_loads n)" using sub t by (metis mset_subset_eq_add_left subset_mset.order_trans)
  moreover have "ready (snd x)" if "x \<in> set (threads s')" for x
    using that set_update_subset_insert [of "threads s" i "(as, w')"] nl s'(3) by (auto simp: s'(1) nothing_lost_def)
  ultimately show ?thesis using nl db b s'(2) unfolding nothing_lost_def L by simp
qed

lemma member_le_sum_list_mset: "x \<in> set xs \<Longrightarrow> x \<subseteq># (sum_list xs :: 'a multiset)"
  by (induction xs) (auto intro: subset_mset.order_trans)

lemma next_load:
  assumes "nothing_lost n cnt s" "i < length (threads s)" "threads s ! i = (Load l # as, w)"
  shows "l \<in># pending todo s"
proof -
  have "l \<in># todo (fst (threads s ! i))" by (simp add: assms(3))
  moreover have "f (xs ! i) \<subseteq># sum_list (map f xs)" if "i < length xs" for f :: "action list \<times> world \<Rightarrow> load multiset" and xs
    using that member_le_sum_list_mset [of "f (xs ! i)" "map f xs"] by simp
  ultimately show ?thesis unfolding pending_def using assms(2) by (metis mset_subset_eqD)
qed

lemma import_step_inv:
  assumes "import_step cnt n s s'" "import_inv n cnt s"
  shows "import_inv n cnt s'"
  using assms
proof (induction rule: import_step.induct)
  case (check i s as w)
  show ?case
  proof (cases "stopFlag s")
    case True
    then show ?thesis using give_up [OF check(3,1,2), of "thread_step s i [] w" w] by simp
  next
    case False
    have "nothing_lost n cnt (thread_step s i as w)" if nl: "nothing_lost n cnt s"
      using nl nth_fst [OF check(2,1)] by (intro nothing_lost_step [OF nl check(1,2)]) (auto simp: nothing_lost_def)
    then show ?thesis using False by (intro go_on [OF check(3,1,2)]) auto
  qed
next
  case (no_session i s w)
  show ?case
  proof (cases "thread_program n (length (threads s)) i = []")
    case True
    then have "(threads s)[i := ([], w)] = threads s" using no_session(2) by (metis list_update_id)
    then show ?thesis using no_session(3) by (auto simp: import_inv_def nothing_lost_def pending_def)
  next
    case False
    show ?thesis by (rule give_up [OF no_session(3,1,2) False]) simp_all
  qed
next
  case (load i s l as w ids w')
  have "nothing_lost n cnt (s\<lparr>shared := committed w', threads := (threads s)[i := (as, w')]\<rparr>)" if nl: "nothing_lost n cnt s"
  proof -
    have "loaded_db n cnt (insert l (all_loads n - set_mset (pending todo s))) (committed w') \<and> ready w'"
      using nl nth_fst [OF load(2,1)] next_load [OF nl load(1,2)]
      by (intro exec_load_ok [OF load(4) _ _ _ load(3)]) (auto simp: nothing_lost_def ready_def)
    then show ?thesis by (intro nothing_lost_step [OF nl load(1,2)]) auto
  qed
  then show ?case by (intro go_on [OF load(5,1,2)]) auto
next
  case (fail i s l as w ids e w')
  show ?case by (rule give_up [OF fail(5,1,2)]) simp_all
next
  case (progress i s k as w)
  have "nothing_lost n cnt (s\<lparr>DataSizeLoaded := DataSizeLoaded s + k, threads := (threads s)[i := (as, w)]\<rparr>)" if nl: "nothing_lost n cnt s"
    using nl nth_fst [OF progress(2,1)] by (intro nothing_lost_step [OF nl progress(1,2)]) (auto simp: nothing_lost_def)
  then show ?case by (intro go_on [OF progress(3,1,2)]) auto
next
  case (mark i s as w)
  have "nothing_lost n cnt (s\<lparr>WarehousesLoaded := WarehousesLoaded s + 1, threads := (threads s)[i := (as, w)]\<rparr>)" if nl: "nothing_lost n cnt s"
    using nl nth_fst [OF mark(2,1)] by (intro nothing_lost_step [OF nl mark(1,2)]) (auto simp: nothing_lost_def)
  then show ?case by (intro go_on [OF mark(3,1,2)]) auto
qed (auto simp: import_inv_def nothing_lost_def pending_def)

lemma import_run_inv: "(import_step cnt n)\<^sup>*\<^sup>* s s' \<Longrightarrow> import_inv n cnt s \<Longrightarrow> import_inv n cnt s'"
  by (induction rule: rtranclp_induct) (auto intro: import_step_inv)

lemma pending_done:
  assumes "\<forall>t \<in> set (threads s). fst t = []" "f [] = (0 :: 'a :: comm_monoid_add)"
  shows "pending f s = 0"
proof -
  have "\<forall>t \<in> set ts. fst t = [] \<Longrightarrow> sum_list (map (\<lambda>t. f (fst t)) ts) = 0" for ts :: "(action list \<times> world) list"
    using assms(2) by (induction ts) simp_all
  then show ?thesis using assms(1) by (simp add: pending_def)
qed

lemma Returned_complete:
  assumes inv: "import_inv n cnt s" and ret: "main_at s = Returned True"
  shows "imported n cnt (shared s) \<and> DataSizeLoaded s = EstimateSharedDataSize + n * EstimatePerWarehouseDataSize"
proof -
  have z: "pending marks s = 0" and nl: "nothing_lost n cnt s" using inv ret by (auto simp: import_inv_def)
  have "as = []" if "(as, w) \<in> set (threads s)" for as w
  proof (rule ccontr)
    assume "as \<noteq> []"
    then have "0 < marks as" using inv that by (intro marks_pos) (auto simp: import_inv_def)
    then show False using z member_le_sum_list [of "marks as" "map (\<lambda>t. marks (fst t)) (threads s)"] that
      by (force simp: pending_def)
  qed
  then have "pending todo s = {#}" "pending bytes s = 0" by (auto intro!: pending_done)
  then show ?thesis using nl by (simp add: nothing_lost_def imported_def)
qed

lemma loader_threads_bounds: "0 < n \<Longrightarrow> 0 < loader_threads n k cpus \<and> loader_threads n k cpus \<le> n"
  by (simp add: loader_threads_def Let_def)

lemma loader_threads_product: "0 < n \<Longrightarrow> n < 2 ^ 31 \<Longrightarrow> loader_threads n k cpus * n < 2 ^ 64"
proof -
  assume n: "0 < n" "n < 2 ^ 31"
  have "loader_threads n k cpus * n \<le> n * n" using loader_threads_bounds [OF n(1)] by simp
  also have "\<dots> < 2 ^ 31 * 2 ^ 31" using n(2) by (intro mult_strict_mono) auto
  finally show ?thesis by simp
qed

section \<open>A sample database\<close>

lemma table_ok_map:
  assumes "distinct xs" "\<And>x. x \<in> set xs \<Longrightarrow> key (f x) = x \<and> P (f x)"
  shows "table_ok key (set xs) P (map f xs)"
proof -
  have "map (key \<circ> f) xs = xs" using assms(2) by (simp add: map_idI)
  then show ?thesis using assms by (auto simp: table_ok_def image_iff)
qed

definition some_item :: "int \<Rightarrow> item_row" where
  "some_item i = \<lparr>i_id = i, i_name = ''ab'', i_price = 100, i_data = ''ab'', i_im_id = 1\<rparr>"

definition some_warehouse :: "int \<Rightarrow> warehouse_row" where
  "some_warehouse w = \<lparr>w_id = w, w_ytd = 30000000, w_tax = 0, w_name = ''w'', w_street_1 = ''s'', w_street_2 = ''s'',
     w_city = ''c'', w_state = ''AA'', w_zip = ''123456789''\<rparr>"

definition some_district :: "int \<times> int \<Rightarrow> district_row" where
  "some_district k = \<lparr>d_w_id = fst k, d_id = snd k, d_ytd = 3000000, d_tax = 0, d_next_o_id = 3001, d_name = ''d'',
     d_street_1 = ''s'', d_street_2 = ''s'', d_city = ''c'', d_state = ''AA'', d_zip = ''123456789''\<rparr>"

definition some_stock :: "int \<times> int \<Rightarrow> stock_row" where
  "some_stock k = \<lparr>s_w_id = fst k, s_i_id = snd k, s_quantity = 10, s_ytd = 0, s_order_cnt = 0, s_remote_cnt = 0, s_data = ''x'',
     s_dist_01 = [], s_dist_02 = [], s_dist_03 = [], s_dist_04 = [], s_dist_05 = [], s_dist_06 = [], s_dist_07 = [],
     s_dist_08 = [], s_dist_09 = [], s_dist_10 = []\<rparr>"

definition some_customer :: "int \<times> int \<times> int \<Rightarrow> customer_row" where
  "some_customer k = \<lparr>c_w_id = fst k, c_d_id = fst (snd k), c_id = snd (snd k), c_discount = 1, c_credit = ''GC'',
     c_last = (case GetLastName (snd (snd k) - 1) of Inr l \<Rightarrow> l | Inl _ \<Rightarrow> []), c_first = ''f'',
     c_credit_lim = 5000000, c_balance = - 1000, c_ytd_payment = 1000, c_payment_cnt = 1, c_delivery_cnt = 0,
     c_street_1 = ''s'', c_street_2 = ''s'', c_city = ''c'', c_state = ''AA'', c_zip = ''123411111'',
     c_phone = ''0123456789012345'', c_since = 0, c_middle = ''OE'', c_data = ''x''\<rparr>"

definition some_history :: "int \<times> int \<times> int \<Rightarrow> history_row" where
  "some_history k = \<lparr>h_c_id = snd (snd k), h_c_d_id = fst (snd k), h_c_w_id = fst k, h_d_id = fst (snd k), h_w_id = fst k,
     h_date = 0, h_amount = 1000, h_data = []\<rparr>"

definition some_oorder :: "(int \<Rightarrow> int \<Rightarrow> int \<Rightarrow> int) \<Rightarrow> int \<times> int \<times> int \<Rightarrow> oorder_row" where
  "some_oorder cnt k = \<lparr>o_w_id = fst k, o_d_id = fst (snd k), o_id = snd (snd k), o_c_id = snd (snd k),
     o_carrier_id = (if snd (snd k) < 2101 then Some 1 else None), o_ol_cnt = cnt (fst k) (snd (snd k)) (fst (snd k)),
     o_all_local = 1, o_entry_d = 0\<rparr>"

definition some_new_order :: "int \<times> int \<times> int \<Rightarrow> new_order_row" where
  "some_new_order k = \<lparr>no_w_id = fst k, no_d_id = fst (snd k), no_o_id = snd (snd k)\<rparr>"

definition some_order_line :: "int \<times> int \<times> int \<times> int \<Rightarrow> order_line_row" where
  "some_order_line k = \<lparr>ol_w_id = fst k, ol_d_id = fst (snd k), ol_o_id = fst (snd (snd k)), ol_number = snd (snd (snd k)), ol_i_id = 1,
     ol_delivery_d = (if fst (snd (snd k)) < 2101 then Some 0 else None), ol_amount = 0, ol_supply_w_id = fst k,
     ol_quantity = 5, ol_dist_info = []\<rparr>"

lemmas some_row_defs = some_item_def some_warehouse_def some_district_def some_stock_def some_customer_def some_history_def
  some_oorder_def some_new_order_def some_order_line_def

definition sample_shared :: "int \<Rightarrow> database" where
  "sample_shared n = empty_db\<lparr>item := map some_item [1..100000], warehouse := map some_warehouse [1..n],
     district := map some_district (List.product [1..n] [1..10])\<rparr>"

definition sample_imported :: "int \<Rightarrow> (int \<Rightarrow> int \<Rightarrow> int \<Rightarrow> int) \<Rightarrow> database" where
  "sample_imported n cnt = (let keys = (\<lambda>a. List.product [1..n] (List.product [1..10] [a..3000])) in (sample_shared n)\<lparr>
     stock := map some_stock (List.product [1..n] [1..100000]), customer := map some_customer (keys 1),
     history := map some_history (keys 1), oorder := map (some_oorder cnt) (keys 1), new_order := map some_new_order (keys 2101),
     order_line := map some_order_line (concat (map (\<lambda>(w, d, k). map (\<lambda>l. (w, d, k, l)) [1..cnt w k d]) (keys 1)))\<rparr>)"

lemma sample_tables:
  "table_ok i_id {1..100000} item_ok (map some_item [1..100000])"
  "table_ok w_id {1..n} warehouse_ok (map some_warehouse [1..n])"
  "table_ok d_key ({1..n} \<times> {1..10}) district_ok (map some_district (List.product [1..n] [1..10]))"
  "table_ok s_key ({1..n} \<times> {1..100000}) stock_ok (map some_stock (List.product [1..n] [1..100000]))"
  using table_ok_map [of "[1..100000]" i_id some_item item_ok] table_ok_map [of "[1..n]" w_id some_warehouse warehouse_ok]
    table_ok_map [of "List.product [1..n] [1..10]" d_key some_district district_ok]
    table_ok_map [of "List.product [1..n] [1..100000]" s_key some_stock stock_ok]
  by (auto simp: some_row_defs item_ok_def warehouse_ok_def district_ok_def stock_ok_def d_key_def s_key_def distinct_product
      simp del: upto_rec_numeral)

lemma sample_shared_loaded: "loaded_db n cnt {} (sample_shared (int n))"
  using sample_tables(1) sample_tables(2-4) [where n = "int n"]
  by (simp add: loaded_db_def districts_of_def sample_shared_def empty_db_def del: upto_rec_numeral)

lemma sample_customer_tables:
  fixes n :: int
  defines "keys \<equiv> \<lambda>a. List.product [1..n] (List.product [1..10] [a..3000])"
  shows "table_ok c_key ({1..n} \<times> {1..10} \<times> {1..3000}) customer_ok (map some_customer (keys 1))"
    "table_ok h_cust ({1..n} \<times> {1..10} \<times> {1..3000}) history_ok (map some_history (keys 1))"
    "table_ok o_key ({1..n} \<times> {1..10} \<times> {1..3000}) (oorder_ok cnt) (map (some_oorder cnt) (keys 1))"
    "table_ok no_key ({1..n} \<times> {1..10} \<times> {2101..3000}) (\<lambda>_. True) (map some_new_order (keys 2101))"
proof -
  have k: "distinct (keys a)" "set (keys a) = {1..n} \<times> {1..10} \<times> {a..3000}" for a
    by (simp_all add: keys_def distinct_product del: upto_rec_numeral)
  have "customer_ok (some_customer x)" if "x \<in> set (keys 1)" for x
    using that k(2) GetLastName_digits [of "snd (snd x) - 1"] by (auto simp: customer_ok_def some_customer_def)
  then show "table_ok c_key ({1..n} \<times> {1..10} \<times> {1..3000}) customer_ok (map some_customer (keys 1))"
    using table_ok_map [OF k(1), of 1 c_key some_customer customer_ok] k(2) by (auto simp: c_key_def some_customer_def)
  show "table_ok h_cust ({1..n} \<times> {1..10} \<times> {1..3000}) history_ok (map some_history (keys 1))"
    using table_ok_map [OF k(1), of 1 h_cust some_history history_ok] k(2) by (auto simp: history_ok_def h_cust_def some_history_def)
  show "table_ok o_key ({1..n} \<times> {1..10} \<times> {1..3000}) (oorder_ok cnt) (map (some_oorder cnt) (keys 1))"
    using table_ok_map [OF k(1), of 1 o_key "some_oorder cnt" "oorder_ok cnt"] k(2) by (auto simp: oorder_ok_def o_key_def some_oorder_def)
  show "table_ok no_key ({1..n} \<times> {1..10} \<times> {2101..3000}) (\<lambda>_. True) (map some_new_order (keys 2101))"
    using table_ok_map [OF k(1), of 2101 no_key some_new_order "\<lambda>_. True"] k(2) by (auto simp: no_key_def some_new_order_def)
qed

lemma sample_line_table:
  "table_ok ol_key {(w, d, k, l). w \<in> {1..n} \<and> d \<in> {1..10} \<and> k \<in> {1..3000} \<and> l \<in> {1..cnt w k d}} order_line_ok
     (map some_order_line (concat (map (\<lambda>(w, d, k). map (\<lambda>l. (w, d, k, l)) [1..cnt w k d])
       (List.product [1..n] (List.product [1..10] [1..3000])))))"
proof -
  let ?f = "\<lambda>(w, d, k). map (\<lambda>l. (w, d, k, l)) [1..cnt w k d]"
  let ?ks = "List.product [1..n] (List.product [1..10] [1..3000])"
  have "distinct (concat (map ?f ks))" if "distinct ks" for ks
    using that by (induction ks) (auto simp: distinct_map inj_on_def)
  moreover have "distinct ?ks" by (simp add: distinct_product del: upto_rec_numeral)
  ultimately have d: "distinct (concat (map ?f ?ks))" by blast
  have "set (concat (map ?f ?ks)) = {(w, d, k, l). w \<in> {1..n} \<and> d \<in> {1..10} \<and> k \<in> {1..3000} \<and> l \<in> {1..cnt w k d}}"
    by (force simp del: upto_rec_numeral)
  then show ?thesis
    using table_ok_map [OF d, of ol_key some_order_line order_line_ok]
    by (auto simp: ol_key_def order_line_ok_def some_order_line_def simp del: upto_rec_numeral set_concat)
qed

lemma sample_imported_ok: "imported n cnt (sample_imported (int n) cnt)"
proof -
  have s: "{(w, d, c). w \<in> {1..int n} \<and> d \<in> {1..10} \<and> c \<in> A} = {1..int n} \<times> {1..10} \<times> A"
    "{w. w \<in> {1..int n}} = {1..int n}" for A :: "int set" by auto
  note t = sample_tables(1) sample_tables(2-4) [where n = "int n"] sample_customer_tables(1,2,4) [where n = "int n"] sample_customer_tables(3) [where n = "int n" and cnt = cnt] sample_line_table [where n = "int n" and cnt = cnt]
  show ?thesis
    unfolding imported_def loaded_db_def all_loads_mem conj_assoc districts_of_def unfolding s
    using t by (simp add: sample_imported_def sample_shared_def empty_db_def Let_def del: upto_rec_numeral)
qed

section \<open>Properties\<close>

text \<open>
  The loader threads share the warehouses exactly: the ranges of the threads, in order, are the warehouses
  \<open>1..WarehouseCount\<close>, each once, whatever number of threads is configured.
\<close>

theorem loader_split_exact:
  assumes "0 < n" "n < 2 ^ 31"
  shows "concat (map (\<lambda>tid. [wh_start n (loader_threads n k cpus) tid..wh_end n (loader_threads n k cpus) tid])
      [0..<loader_threads n k cpus]) = [1..int n]"
  using wh_ranges_split [OF _ loader_threads_product [OF assms]] loader_threads_bounds [OF assms(1)] by blast

theorem loader_split_exact_witness:
  "concat (map (\<lambda>tid. [wh_start 7 (loader_threads 7 0 3) tid..wh_end 7 (loader_threads 7 0 3) tid])
      [0..<loader_threads 7 0 3]) = [1..int 7]"
  by (rule loader_split_exact) simp_all

text \<open>
  (C12) The import reports success only for a complete database: in every interleaving of the loader
  threads, of failures and of an interrupt, \<open>ImportSync\<close> does not return normally as long as a row of a
  warehouse is missing, doubled or malformed, or the progress counter is off the estimate.
\<close>

theorem import_reports_only_complete:
  assumes "0 < n" "n < 2 ^ 31" "length ws = loader_threads n k cpus" "\<forall>w \<in> set ws. ready w" "loaded_db n cnt {} db"
    and "(import_step cnt n)\<^sup>*\<^sup>* (import_init n (loader_threads n k cpus) ws db) s"
    and "\<not> (imported n cnt (shared s) \<and> DataSizeLoaded s = EstimateSharedDataSize + n * EstimatePerWarehouseDataSize)"
  shows "main_at s \<noteq> Returned True"
proof -
  have "import_inv n cnt s"
    by (rule import_run_inv [OF assms(6)])
       (use import_inv_init [OF _ loader_threads_product [OF assms(1,2)] assms(5)] loader_threads_bounds [OF assms(1)] assms(3,4) in blast)
  then show ?thesis using Returned_complete assms(7) by blast
qed

text \<open>One thread, interrupted before it has loaded anything.\<close>

theorem import_reports_only_complete_witness:
  "\<exists>s. (import_step (GetRandomCount (\<lambda>i. of_int i) (\<lambda>_. 5)) 1)\<^sup>*\<^sup>*
      (import_init 1 (loader_threads 1 1 4) [sample_world empty_db []] (sample_shared 1)) s \<and> main_at s = Returned False
      \<and> main_at s \<noteq> Returned True"
proof -
  let ?cnt = "GetRandomCount (\<lambda>i. of_int i) (\<lambda>_. 5)" and ?w = "sample_world empty_db []"
  let ?init = "import_init 1 (loader_threads 1 1 4) [?w] (sample_shared 1)"
  let ?stopped = "?init\<lparr>stopFlag := True\<rparr>" and ?ended = "?init\<lparr>stopFlag := True, threads := [([], ?w)]\<rparr>"
  let ?last = "?ended\<lparr>main_at := Returned False\<rparr>"
  have t: "loader_threads 1 1 4 = 1" by (simp add: loader_threads_def Let_def)
  have "wh_start 1 1 0 = 1" "wh_end 1 1 0 = 1" by (simp_all add: wh_start_def wh_end_def)
  then have "thread_program 1 1 0 = LoadWarehouse 1" by (simp add: thread_program_def del: One_nat_def)
  moreover have "threads ?init = [(thread_program 1 1 0, ?w)]" unfolding import_init_def t import_state.simps by simp
  ultimately have "threads ?init = [(LoadWarehouse 1, ?w)]" by metis
  then have "\<exists>as. threads ?init = [(CheckStop # as, ?w)]" by (simp add: LoadWarehouse_def)
  then obtain as where as: "threads ?init = [(CheckStop # as, ?w)]" ..
  have "import_step ?cnt 1 ?init ?stopped" by (rule import_step.interrupt)
  moreover have "import_step ?cnt 1 ?stopped ?ended"
    using import_step.check [of 0 ?stopped as ?w ?cnt 1] as by simp
  moreover have "import_step ?cnt 1 ?ended (?ended\<lparr>main_at := Testing\<rparr>)"
    by (rule import_step.leave_loop) (simp_all add: import_init_def)
  moreover have "import_step ?cnt 1 (?ended\<lparr>main_at := Testing\<rparr>) (?ended\<lparr>main_at := Joining True\<rparr>)"
    using import_step.test_flag [of "?ended\<lparr>main_at := Testing\<rparr>" ?cnt 1] by simp
  moreover have "import_step ?cnt 1 (?ended\<lparr>main_at := Joining True\<rparr>) ?last"
    using import_step.join [of "?ended\<lparr>main_at := Joining True\<rparr>" True ?cnt 1] by simp
  ultimately have run: "(import_step ?cnt 1)\<^sup>*\<^sup>* ?init ?last" by (meson converse_rtranclp_into_rtranclp rtranclp.rtrancl_refl)
  have "stock (shared ?last) = []" by (simp add: import_init_def sample_shared_def empty_db_def)
  then have "\<not> imported 1 ?cnt (shared ?last)" using imported_lengths(4) [of 1 ?cnt "shared ?last"] by auto
  then have "main_at ?last \<noteq> Returned True"
    using t by (intro import_reports_only_complete [OF _ _ _ _ _ run])
      (simp_all add: ready_def sample_world_def sample_shared_loaded [of 1 ?cnt, simplified])
  then show ?thesis using run by (intro exI [of _ ?last]) simp
qed

end
