(* ===== verification/Connection.thy ===== *)
theory Connection
  imports Constants
begin

text \<open>
  Connection strings and identifiers (the first part of \<open>src/src/db/connection.cpp\<close>), and the
  flag of \<open>src/src/schema_info.cpp\<close>. What talks to the server through the client library is not here.
\<close>

section \<open>Characters\<close>

text \<open>\<open>isspace\<close>, \<open>isdigit\<close>, \<open>isalnum\<close>, \<open>tolower\<close> of the C locale.\<close>

definition isspace :: "char \<Rightarrow> bool" where
  "isspace c \<longleftrightarrow> c = CHR '' '' \<or> 9 \<le> (of_char c :: nat) \<and> (of_char c :: nat) \<le> 13"

definition isdigit :: "char \<Rightarrow> bool" where
  "isdigit c \<longleftrightarrow> 48 \<le> (of_char c :: nat) \<and> (of_char c :: nat) \<le> 57"

definition isalnum :: "char \<Rightarrow> bool" where
  "isalnum c \<longleftrightarrow> isdigit c \<or> 65 \<le> (of_char c :: nat) \<and> (of_char c :: nat) \<le> 90
     \<or> 97 \<le> (of_char c :: nat) \<and> (of_char c :: nat) \<le> 122"

definition tolower :: "char \<Rightarrow> char" where
  "tolower c = (if 65 \<le> (of_char c :: nat) \<and> (of_char c :: nat) \<le> 90 then char_of (of_char c + 32 :: nat) else c)"

section \<open>Configuration\<close>

record ObConnectionConfig =
  cfg_host :: string
  cfg_port :: int
  cfg_user :: string
  cfg_password :: string
  cfg_database :: string
  cfg_path :: string

definition default_config :: ObConnectionConfig where
  "default_config = \<lparr>cfg_host = ''127.0.0.1'', cfg_port = 2881, cfg_user = ''root@test'', cfg_password = [],
     cfg_database = ''tpcc'', cfg_path = []\<rparr>"

definition Trim :: "string \<Rightarrow> string" where
  "Trim s = rev (dropWhile isspace (rev (dropWhile isspace s)))"

text \<open>
  \<open>std::stoi\<close>: leading white space, a sign, as many digits as there are; what follows is ignored.
\<close>

definition digits_value :: "string \<Rightarrow> int" where
  "digits_value ds = foldl (\<lambda>n c. 10 * n + (of_char c - 48)) 0 ds"

definition stoi :: "string \<Rightarrow> int result" where
  "stoi s = (let t = dropWhile isspace s;
       neg = (t \<noteq> [] \<and> hd t = CHR ''-'');
       u = (if t \<noteq> [] \<and> (hd t = CHR ''-'' \<or> hd t = CHR ''+'') then tl t else t);
       ds = takeWhile isdigit u;
       v = (if neg then - digits_value ds else digits_value ds)
     in if ds = [] then Inl (InvalidArgument ''stoi'')
        else if v < - (2 ^ 31) \<or> 2 ^ 31 \<le> v then Inl (OutOfRange ''stoi'')
        else Inr v)"

definition SetKv :: "ObConnectionConfig \<Rightarrow> string \<Rightarrow> string \<Rightarrow> ObConnectionConfig result" where
  "SetKv cfg key val =
     (if key = ''host'' \<or> key = ''hostname'' then Inr (cfg\<lparr>cfg_host := val\<rparr>)
      else if key = ''port'' then rbind (stoi val) (\<lambda>p. Inr (cfg\<lparr>cfg_port := p\<rparr>))
      else if key = ''user'' \<or> key = ''uid'' then Inr (cfg\<lparr>cfg_user := val\<rparr>)
      else if key = ''password'' \<or> key = ''pwd'' \<or> key = ''passwd'' then Inr (cfg\<lparr>cfg_password := val\<rparr>)
      else if key = ''database'' \<or> key = ''db'' \<or> key = ''dbname'' then Inr (cfg\<lparr>cfg_database := val\<rparr>)
      else if key = ''path'' then Inr (cfg\<lparr>cfg_path := val\<rparr>)
      else Inr cfg)"

text \<open>The tokens \<open>std::getline\<close> delivers; after a final separator there is no further, empty one.\<close>

function getlines :: "char \<Rightarrow> string \<Rightarrow> string list" where
  "getlines sep s = (if s = [] then []
     else takeWhile (\<lambda>c. c \<noteq> sep) s # getlines sep (tl (dropWhile (\<lambda>c. c \<noteq> sep) s)))"
  by pat_completeness auto

termination getlines
proof (relation "measure (\<lambda>(sep, s). length s)")
  fix sep :: char and s :: string
  assume "s \<noteq> []"
  then have "length (tl (dropWhile (\<lambda>c. c \<noteq> sep) s)) < length s"
    using length_dropWhile_le [of "\<lambda>c. c \<noteq> sep" s] by (cases s) (auto simp: le_imp_less_Suc less_imp_diff_less)
  then show "((sep, tl (dropWhile (\<lambda>c. c \<noteq> sep) s)), sep, s) \<in> measure (\<lambda>(sep, s). length s)" by simp
qed simp

declare getlines.simps [simp del]

definition parse_token :: "string \<Rightarrow> ObConnectionConfig \<Rightarrow> ObConnectionConfig result" where
  "parse_token token cfg = (let t = Trim token in
     if t = [] \<or> CHR ''='' \<notin> set t then Inr cfg
     else SetKv cfg (Trim (takeWhile (\<lambda>c. c \<noteq> CHR ''='') t)) (Trim (tl (dropWhile (\<lambda>c. c \<noteq> CHR ''='') t))))"

definition ParseConnectionString :: "string \<Rightarrow> ObConnectionConfig result" where
  "ParseConnectionString connection = (if connection = [] then Inr default_config
     else rfold parse_token (getlines (if CHR '';'' \<in> set connection then CHR '';'' else CHR '' '') connection) default_config)"

definition EffectiveDatabase :: "ObConnectionConfig \<Rightarrow> string" where
  "EffectiveDatabase cfg = (if cfg_path cfg \<noteq> [] then cfg_path cfg else cfg_database cfg)"

definition ConfigWithPath :: "string \<Rightarrow> string \<Rightarrow> ObConnectionConfig result" where
  "ConfigWithPath connectionString path = rbind (ParseConnectionString connectionString) (\<lambda>cfg.
     Inr (if path \<noteq> [] then cfg\<lparr>cfg_path := path\<rparr> else cfg))"

definition QuoteIdent :: "string \<Rightarrow> string result" where
  "QuoteIdent ident = (if ident = [] then Inl (InvalidArgument ''empty SQL identifier'')
     else if \<exists>ch \<in> set ident. \<not> (isalnum ch \<or> ch = CHR ''_'')
     then Inl (InvalidArgument (''invalid SQL identifier '' @ ident))
     else Inr (''`'' @ ident @ ''`''))"

text \<open>A path given on the command line is the database, whatever the connection string says.\<close>

lemma path_wins: "path \<noteq> [] \<Longrightarrow> ConfigWithPath c path = Inr cfg \<Longrightarrow> EffectiveDatabase cfg = path"
  by (auto simp: ConfigWithPath_def EffectiveDatabase_def)

text \<open>A quoted identifier cannot end its quotation early.\<close>

lemma QuoteIdent_safe:
  assumes "QuoteIdent ident = Inr q"
  shows "q = ''`'' @ ident @ ''`'' \<and> CHR ''`'' \<notin> set ident"
proof -
  have "\<not> (isalnum CHR ''`'' \<or> CHR ''`'' = CHR ''_'')" by (simp add: isalnum_def isdigit_def)
  then show ?thesis using assms by (auto simp: QuoteIdent_def split: if_splits)
qed

text \<open>Without a separator of its own, a semicolon anywhere changes the meaning of spaces.\<close>

lemma parse_sample:
  "ParseConnectionString ''host=h; port = 12 ;junk;db=t'' = Inr (default_config\<lparr>cfg_host := ''h'', cfg_port := 12, cfg_database := ''t''\<rparr>)"
  "ParseConnectionString ''port=1x uid=u'' = Inr (default_config\<lparr>cfg_port := 1, cfg_user := ''u''\<rparr>)"
  "ParseConnectionString ''port=x'' = Inl (InvalidArgument ''stoi'')"
  by code_simp+

section \<open>The foreign key flag\<close>

definition ToLower :: "string \<Rightarrow> string" where
  "ToLower s = map tolower s"

definition ResolveForeignKeysFlag :: "string \<Rightarrow> bool \<Rightarrow> bool result" where
  "ResolveForeignKeysFlag val defaultEnabled = (if val = [] then Inr defaultEnabled
     else let normalized = ToLower val in
       if normalized = ''on'' \<or> normalized = ''1'' \<or> normalized = ''true'' then Inr True
       else if normalized = ''off'' \<or> normalized = ''0'' \<or> normalized = ''false'' then Inr False
       else Inl (RuntimeError (''Invalid --foreign-keys value '' @ val @ '' (expected on|off)'')))"

definition ForeignKeysModeLabel :: "bool \<Rightarrow> string" where
  "ForeignKeysModeLabel enabled = (if enabled then ''on'' else ''off'')"

lemma flag_label: "ResolveForeignKeysFlag (ForeignKeysModeLabel b) d = Inr b"
  by (cases b) (simp_all add: ResolveForeignKeysFlag_def ForeignKeysModeLabel_def ToLower_def tolower_def)

text \<open>
  Which warnings are logged about the number of partitions. The products are on \<open>int\<close>; the counts of warehouses and
  units are far below \<open>2\<^sup>2\<^sup>9\<close>, from where they would overflow.
\<close>

datatype topology_warning = ManyPartitionsPerWarehouse | IdlePartitions | ManyPartitionsPerUnit

definition WarnPartitionTopology :: "int \<Rightarrow> int \<Rightarrow> int option \<Rightarrow> topology_warning list" where
  "WarnPartitionTopology partitionCount warehouseCount tenantUnitCount = (let warehouses = max warehouseCount 1 in
     (if warehouses * 4 < partitionCount then [ManyPartitionsPerWarehouse]
      else if warehouses * 2 < partitionCount then [IdlePartitions] else [])
     @ (case tenantUnitCount of None \<Rightarrow> []
        | Some u \<Rightarrow> if 0 < u \<and> u * 4 < partitionCount then [ManyPartitionsPerUnit] else []))"

lemma one_partition_per_warehouse: "1 \<le> w \<Longrightarrow> WarnPartitionTopology w w None = []"
  by (simp add: WarnPartitionTopology_def Let_def)

end
