(* ===== verification/Init.thy ===== *)
theory Init
  imports Connection
begin

text \<open>
  The schema: \<open>src/src/init.cpp\<close> (tables, table group, secondary indexes), \<open>src/src/clean.cpp\<close> and
  the pre-flight checks of \<open>src/src/path_checker.cpp\<close>. A statement is its syntax tree instead of its
  text. The server is a parameter: \<open>exec\<close> runs one statement on the server's state and returns what the
  client sees, and a few functions answer the queries of the data dictionary. What
  the server promises for \<open>DROP TABLE\<close> and \<open>CREATE TABLE\<close> is the predicate \<open>ddl_laws\<close>.
\<close>

section \<open>Statements\<close>

datatype sql_type = SQL_INT | SQL_DECIMAL nat nat | SQL_VARCHAR nat | SQL_CHAR nat | SQL_TIMESTAMP

datatype column_default = NoDefault | DefaultNow | DefaultNull | AutoIncrement

record column =
  col_name :: string
  col_type :: sql_type
  not_null :: bool
  col_default :: column_default

datatype table_constraint =
    PrimaryKey "string list"
  | Unique "string list"
  | ForeignKey "string list" string "string list"

record table_suffix =
  bloom_filter :: bool
  tablegroup :: string
  hash_column :: string
  partition_count :: int

record create_table =
  table_name :: string
  table_columns :: "column list"
  table_constraints :: "table_constraint list"
  suffix :: "table_suffix option"

datatype ddl =
    DropTable string
  | CreateTable create_table
  | CreateTableGroup string int
  | DropTableGroup string
  | CreateDatabase string
  | DropDatabase string
  | UseDatabase string
  | CreateIndex string string "string list" bool

section \<open>Options and layout\<close>

record TInitOptions =
  opt_PartitionCount :: int
  opt_WarehouseCount :: int
  opt_EnableForeignKeys :: bool

record TSchemaLayout =
  UseClusterLayout :: bool
  layout_PartitionCount :: int

definition kDropTables :: "string list" where
  "kDropTables = [''history'', ''new_order'', ''order_line'', ''oorder'', ''customer'', ''district'', ''stock'',
     ''item'', ''warehouse'']"

text \<open>The version string the server answers with, if it answers with a row.\<close>

fun infix_of :: "string \<Rightarrow> string \<Rightarrow> bool" where
  "infix_of p [] \<longleftrightarrow> p = []"
| "infix_of p (c # cs) \<longleftrightarrow> take (length p) (c # cs) = p \<or> infix_of p cs"

definition IsOceanBaseServer :: "string option \<Rightarrow> bool" where
  "IsOceanBaseServer version = (case version of None \<Rightarrow> False
     | Some v \<Rightarrow> infix_of ''OceanBase'' v \<or> infix_of ''oceanbase'' v)"

definition ResolvePartitionCount :: "TInitOptions \<Rightarrow> int" where
  "ResolvePartitionCount options = (if 0 < opt_PartitionCount options then opt_PartitionCount options
     else max 1 (opt_WarehouseCount options))"

definition ResolveSchemaLayout :: "string option \<Rightarrow> TInitOptions \<Rightarrow> TSchemaLayout" where
  "ResolveSchemaLayout version options = (let layout = \<lparr>UseClusterLayout = False, layout_PartitionCount = 1\<rparr> in
     if opt_PartitionCount options < 0 then layout
     else if \<not> IsOceanBaseServer version then layout
     else \<lparr>UseClusterLayout = True, layout_PartitionCount = ResolvePartitionCount options\<rparr>)"

definition ClusterTableSuffix :: "TSchemaLayout \<Rightarrow> bool \<Rightarrow> string \<Rightarrow> table_suffix option" where
  "ClusterTableSuffix layout bloom hashColumn = (if \<not> UseClusterLayout layout then None
     else Some \<lparr>bloom_filter = bloom, tablegroup = TABLEGROUP_TPCC, hash_column = hashColumn,
       partition_count = layout_PartitionCount layout\<rparr>)"

section \<open>The nine tables\<close>

definition req :: "string \<Rightarrow> sql_type \<Rightarrow> column" where
  "req n t = \<lparr>col_name = n, col_type = t, not_null = True, col_default = NoDefault\<rparr>"

definition stamp :: "string \<Rightarrow> column" where
  "stamp n = \<lparr>col_name = n, col_type = SQL_TIMESTAMP, not_null = True, col_default = DefaultNow\<rparr>"

definition opt :: "string \<Rightarrow> sql_type \<Rightarrow> column" where
  "opt n t = \<lparr>col_name = n, col_type = t, not_null = False, col_default = DefaultNull\<rparr>"

definition fk :: "TInitOptions \<Rightarrow> string list \<Rightarrow> string \<Rightarrow> string list \<Rightarrow> table_constraint list" where
  "fk options cs t rs = (if opt_EnableForeignKeys options then [ForeignKey cs t rs] else [])"

definition warehouse_columns :: "column list" where
  "warehouse_columns = [req ''w_id'' SQL_INT, req ''w_ytd'' (SQL_DECIMAL 12 2), req ''w_tax'' (SQL_DECIMAL 4 4),
     req ''w_name'' (SQL_VARCHAR 10), req ''w_street_1'' (SQL_VARCHAR 20), req ''w_street_2'' (SQL_VARCHAR 20),
     req ''w_city'' (SQL_VARCHAR 20), req ''w_state'' (SQL_CHAR 2), req ''w_zip'' (SQL_CHAR 9)]"

definition item_columns :: "column list" where
  "item_columns = [req ''i_id'' SQL_INT, req ''i_name'' (SQL_VARCHAR 24), req ''i_price'' (SQL_DECIMAL 5 2),
     req ''i_data'' (SQL_VARCHAR 50), req ''i_im_id'' SQL_INT]"

definition stock_columns :: "column list" where
  "stock_columns = [req ''s_w_id'' SQL_INT, req ''s_i_id'' SQL_INT, req ''s_quantity'' SQL_INT, req ''s_ytd'' (SQL_DECIMAL 8 2),
     req ''s_order_cnt'' SQL_INT, req ''s_remote_cnt'' SQL_INT, req ''s_data'' (SQL_VARCHAR 50),
     req ''s_dist_01'' (SQL_CHAR 24), req ''s_dist_02'' (SQL_CHAR 24), req ''s_dist_03'' (SQL_CHAR 24), req ''s_dist_04'' (SQL_CHAR 24),
     req ''s_dist_05'' (SQL_CHAR 24), req ''s_dist_06'' (SQL_CHAR 24), req ''s_dist_07'' (SQL_CHAR 24), req ''s_dist_08'' (SQL_CHAR 24),
     req ''s_dist_09'' (SQL_CHAR 24), req ''s_dist_10'' (SQL_CHAR 24)]"

definition district_columns :: "column list" where
  "district_columns = [req ''d_w_id'' SQL_INT, req ''d_id'' SQL_INT, req ''d_ytd'' (SQL_DECIMAL 12 2), req ''d_tax'' (SQL_DECIMAL 4 4),
     req ''d_next_o_id'' SQL_INT, req ''d_name'' (SQL_VARCHAR 10), req ''d_street_1'' (SQL_VARCHAR 20), req ''d_street_2'' (SQL_VARCHAR 20),
     req ''d_city'' (SQL_VARCHAR 20), req ''d_state'' (SQL_CHAR 2), req ''d_zip'' (SQL_CHAR 9)]"

definition customer_columns :: "column list" where
  "customer_columns = [req ''c_w_id'' SQL_INT, req ''c_d_id'' SQL_INT, req ''c_id'' SQL_INT, req ''c_discount'' (SQL_DECIMAL 4 4),
     req ''c_credit'' (SQL_CHAR 2), req ''c_last'' (SQL_VARCHAR 16), req ''c_first'' (SQL_VARCHAR 16),
     req ''c_credit_lim'' (SQL_DECIMAL 12 2), req ''c_balance'' (SQL_DECIMAL 12 2), req ''c_ytd_payment'' (SQL_DECIMAL 12 2),
     req ''c_payment_cnt'' SQL_INT, req ''c_delivery_cnt'' SQL_INT, req ''c_street_1'' (SQL_VARCHAR 20), req ''c_street_2'' (SQL_VARCHAR 20),
     req ''c_city'' (SQL_VARCHAR 20), req ''c_state'' (SQL_CHAR 2), req ''c_zip'' (SQL_CHAR 9), req ''c_phone'' (SQL_CHAR 16),
     stamp ''c_since'', req ''c_middle'' (SQL_CHAR 2), req ''c_data'' (SQL_VARCHAR 500)]"

definition history_columns :: "TSchemaLayout \<Rightarrow> column list" where
  "history_columns layout =
     (if UseClusterLayout layout
      then [\<lparr>col_name = ''hist_id'', col_type = SQL_INT, not_null = True, col_default = AutoIncrement\<rparr>] else [])
     @ [req ''h_c_id'' SQL_INT, req ''h_c_d_id'' SQL_INT, req ''h_c_w_id'' SQL_INT, req ''h_d_id'' SQL_INT, req ''h_w_id'' SQL_INT,
        stamp ''h_date'', req ''h_amount'' (SQL_DECIMAL 6 2), req ''h_data'' (SQL_VARCHAR 24)]"

definition oorder_columns :: "column list" where
  "oorder_columns = [req ''o_w_id'' SQL_INT, req ''o_d_id'' SQL_INT, req ''o_id'' SQL_INT, req ''o_c_id'' SQL_INT, opt ''o_carrier_id'' SQL_INT,
     req ''o_ol_cnt'' SQL_INT, req ''o_all_local'' SQL_INT, stamp ''o_entry_d'']"

definition new_order_columns :: "column list" where
  "new_order_columns = [req ''no_w_id'' SQL_INT, req ''no_d_id'' SQL_INT, req ''no_o_id'' SQL_INT]"

definition order_line_columns :: "column list" where
  "order_line_columns = [req ''ol_w_id'' SQL_INT, req ''ol_d_id'' SQL_INT, req ''ol_o_id'' SQL_INT, req ''ol_number'' SQL_INT,
     req ''ol_i_id'' SQL_INT, opt ''ol_delivery_d'' SQL_TIMESTAMP, req ''ol_amount'' (SQL_DECIMAL 6 2), req ''ol_supply_w_id'' SQL_INT,
     req ''ol_quantity'' (SQL_DECIMAL 6 2), req ''ol_dist_info'' (SQL_CHAR 24)]"

lemmas column_defs = req_def stamp_def opt_def warehouse_columns_def item_columns_def stock_columns_def district_columns_def
  customer_columns_def history_columns_def oorder_columns_def new_order_columns_def order_line_columns_def

definition BuildCreateStatements :: "TSchemaLayout \<Rightarrow> TInitOptions \<Rightarrow> create_table list" where
  "BuildCreateStatements layout options =
    [\<lparr>table_name = ''warehouse'', table_columns = warehouse_columns, table_constraints = [PrimaryKey [''w_id'']],
      suffix = ClusterTableSuffix layout False ''w_id''\<rparr>,
     \<lparr>table_name = ''item'', table_columns = item_columns, table_constraints = [PrimaryKey [''i_id'']], suffix = None\<rparr>,
     \<lparr>table_name = ''stock'', table_columns = stock_columns,
      table_constraints = fk options [''s_w_id''] ''warehouse'' [''w_id''] @ fk options [''s_i_id''] ''item'' [''i_id'']
        @ [PrimaryKey [''s_w_id'', ''s_i_id'']],
      suffix = ClusterTableSuffix layout True ''s_w_id''\<rparr>,
     \<lparr>table_name = ''district'', table_columns = district_columns,
      table_constraints = fk options [''d_w_id''] ''warehouse'' [''w_id''] @ [PrimaryKey [''d_w_id'', ''d_id'']],
      suffix = ClusterTableSuffix layout False ''d_w_id''\<rparr>,
     \<lparr>table_name = ''customer'', table_columns = customer_columns,
      table_constraints = fk options [''c_w_id'', ''c_d_id''] ''district'' [''d_w_id'', ''d_id'']
        @ [PrimaryKey [''c_w_id'', ''c_d_id'', ''c_id'']],
      suffix = ClusterTableSuffix layout False ''c_w_id''\<rparr>,
     \<lparr>table_name = ''history'', table_columns = history_columns layout,
      table_constraints = fk options [''h_c_w_id'', ''h_c_d_id'', ''h_c_id''] ''customer'' [''c_w_id'', ''c_d_id'', ''c_id'']
        @ fk options [''h_w_id'', ''h_d_id''] ''district'' [''d_w_id'', ''d_id'']
        @ (if UseClusterLayout layout then [PrimaryKey [''h_w_id'', ''hist_id'']] else []),
      suffix = ClusterTableSuffix layout False ''h_w_id''\<rparr>,
     \<lparr>table_name = ''oorder'', table_columns = oorder_columns,
      table_constraints = [PrimaryKey [''o_w_id'', ''o_d_id'', ''o_id'']]
        @ fk options [''o_w_id'', ''o_d_id'', ''o_c_id''] ''customer'' [''c_w_id'', ''c_d_id'', ''c_id'']
        @ [Unique [''o_w_id'', ''o_d_id'', ''o_c_id'', ''o_id'']],
      suffix = ClusterTableSuffix layout False ''o_w_id''\<rparr>,
     \<lparr>table_name = ''new_order'', table_columns = new_order_columns,
      table_constraints = fk options [''no_w_id'', ''no_d_id'', ''no_o_id''] ''oorder'' [''o_w_id'', ''o_d_id'', ''o_id'']
        @ [PrimaryKey [''no_w_id'', ''no_d_id'', ''no_o_id'']],
      suffix = ClusterTableSuffix layout False ''no_w_id''\<rparr>,
     \<lparr>table_name = ''order_line'', table_columns = order_line_columns,
      table_constraints = fk options [''ol_w_id'', ''ol_d_id'', ''ol_o_id''] ''oorder'' [''o_w_id'', ''o_d_id'', ''o_id'']
        @ fk options [''ol_supply_w_id'', ''ol_i_id''] ''stock'' [''s_w_id'', ''s_i_id'']
        @ [PrimaryKey [''ol_w_id'', ''ol_d_id'', ''ol_o_id'', ''ol_number'']],
      suffix = ClusterTableSuffix layout False ''ol_w_id''\<rparr>]"

section \<open>Commands\<close>

text \<open>
  A statement changes the server's state even when a later one fails: DDL is not transactional.
\<close>

type_synonym 's server = "ddl \<Rightarrow> 's \<Rightarrow> unit result \<times> 's"

definition seq_stmt :: "unit result \<times> 's \<Rightarrow> ('s \<Rightarrow> unit result \<times> 's) \<Rightarrow> unit result \<times> 's" where
  "seq_stmt r k = (case r of (Inl e, s) \<Rightarrow> (Inl e, s) | (Inr _, s) \<Rightarrow> k s)"

fun ExecAll :: "'s server \<Rightarrow> ddl list \<Rightarrow> 's \<Rightarrow> unit result \<times> 's" where
  "ExecAll exec [] s = (Inr (), s)"
| "ExecAll exec (d # ds) s = seq_stmt (exec d s) (ExecAll exec ds)"

definition ConnectToTargetDatabase :: "'s server \<Rightarrow> (string \<Rightarrow> 's \<Rightarrow> bool) \<Rightarrow> ObConnectionConfig \<Rightarrow> 's \<Rightarrow> unit result \<times> 's" where
  "ConnectToTargetDatabase exec db_exists cfg s = (let db = EffectiveDatabase cfg in
     if db = [] then (Inl (RuntimeError ''No database specified''), s)
     else seq_stmt (if db_exists db s then (Inr (), s)
         else case QuoteIdent db of
             Inl e \<Rightarrow> (Inl (RuntimeError ''CREATE DATABASE failed''), s)
           | Inr _ \<Rightarrow> (case exec (CreateDatabase db) s of
               (Inl e, s') \<Rightarrow> (Inl (RuntimeError ''CREATE DATABASE failed''), s') | r \<Rightarrow> r))
       (exec (UseDatabase db)))"

definition CreateTableGroup_stmts :: "TSchemaLayout \<Rightarrow> ddl list" where
  "CreateTableGroup_stmts layout = (if \<not> UseClusterLayout layout then []
     else [CreateTableGroup TABLEGROUP_TPCC (layout_PartitionCount layout)])"

definition InitSync :: "'s server \<Rightarrow> (string \<Rightarrow> 's \<Rightarrow> bool) \<Rightarrow> string option \<Rightarrow> string \<Rightarrow> string \<Rightarrow> TInitOptions
    \<Rightarrow> 's \<Rightarrow> unit result \<times> 's" where
  "InitSync exec db_exists version connectionString path options s = (case ConfigWithPath connectionString path of
       Inl e \<Rightarrow> (Inl e, s)
     | Inr cfg \<Rightarrow> seq_stmt (ConnectToTargetDatabase exec db_exists cfg s) (\<lambda>s1.
         let layout = ResolveSchemaLayout version options in
         seq_stmt (ExecAll exec (map DropTable kDropTables) s1) (\<lambda>s2.
         seq_stmt (ExecAll exec (CreateTableGroup_stmts layout) s2) (\<lambda>s3.
         ExecAll exec (map CreateTable (BuildCreateStatements layout options)) s3))))"

definition index_list :: "bool \<Rightarrow> (string \<times> ddl) list" where
  "index_list local =
     [(INDEX_CUSTOMER_NAME, CreateIndex INDEX_CUSTOMER_NAME ''customer'' [''c_w_id'', ''c_d_id'', ''c_last'', ''c_first''] local),
      (INDEX_ORDER, CreateIndex INDEX_ORDER ''oorder'' [''o_w_id'', ''o_d_id'', ''o_c_id'', ''o_id''] local)]"

text \<open>An index that is there already is skipped, also when it appears between the query and the statement.\<close>

fun create_indexes :: "'s server \<Rightarrow> (string \<Rightarrow> string \<Rightarrow> 's \<Rightarrow> bool) \<Rightarrow> string \<Rightarrow> (string \<times> ddl) list \<Rightarrow> 's \<Rightarrow> unit result \<times> 's" where
  "create_indexes exec index_exists db [] s = (Inr (), s)"
| "create_indexes exec index_exists db ((name, sql) # rest) s =
     (if index_exists db name s then create_indexes exec index_exists db rest s
      else case exec sql s of
          (Inr _, s') \<Rightarrow> create_indexes exec index_exists db rest s'
        | (Inl (DbException code m), s') \<Rightarrow> (if code = 1061 then create_indexes exec index_exists db rest s' else (Inl (DbException code m), s'))
        | (Inl e, s') \<Rightarrow> (Inl e, s'))"

definition CreateIndexes :: "'s server \<Rightarrow> (string \<Rightarrow> 's \<Rightarrow> bool) \<Rightarrow> (string \<Rightarrow> string \<Rightarrow> 's \<Rightarrow> bool) \<Rightarrow> string option
    \<Rightarrow> string \<Rightarrow> string \<Rightarrow> bool \<Rightarrow> 's \<Rightarrow> unit result \<times> 's" where
  "CreateIndexes exec db_exists index_exists version connectionString path useLocalIndexes s = (case ConfigWithPath connectionString path of
       Inl e \<Rightarrow> (Inl e, s)
     | Inr cfg \<Rightarrow> seq_stmt (ConnectToTargetDatabase exec db_exists cfg s)
         (create_indexes exec index_exists (EffectiveDatabase cfg) (index_list (useLocalIndexes \<or> IsOceanBaseServer version))))"

section \<open>Cleaning up\<close>

text \<open>Every error of a \<open>DROP\<close> is logged and ignored.\<close>

definition try_stmt :: "'s server \<Rightarrow> ddl \<Rightarrow> 's \<Rightarrow> 's" where
  "try_stmt exec d s = snd (exec d s)"

definition clean_tables :: "string list" where
  "clean_tables = [TABLE_ORDER_LINE, TABLE_NEW_ORDER, TABLE_OORDER, TABLE_HISTORY, TABLE_CUSTOMER, TABLE_DISTRICT, TABLE_STOCK,
     TABLE_ITEM, TABLE_WAREHOUSE]"

definition CleanSync :: "'s server \<Rightarrow> (string \<Rightarrow> 's \<Rightarrow> bool) \<Rightarrow> string \<Rightarrow> string \<Rightarrow> 's \<Rightarrow> unit result \<times> 's" where
  "CleanSync exec db_exists connectionString path s = (case ConfigWithPath connectionString path of
       Inl e \<Rightarrow> (Inl e, s)
     | Inr cfg \<Rightarrow> let db = EffectiveDatabase cfg in
         if db = [] then (Inl (RuntimeError ''No database specified''), s)
         else if \<not> db_exists db s then (Inr (), s)
         else seq_stmt (exec (UseDatabase db) s) (\<lambda>s1.
           let s2 = fold (\<lambda>t. try_stmt exec (DropTable t)) clean_tables s1;
               s3 = try_stmt exec (DropTableGroup TABLEGROUP_TPCC) s2
           in (Inr (), if path = [] then s3
               else snd (seq_stmt (exec (UseDatabase ''information_schema'') s3)
                 (\<lambda>s4. case QuoteIdent path of Inl e \<Rightarrow> (Inl e, s4) | Inr _ \<Rightarrow> exec (DropDatabase path) s4)))))"

section \<open>Pre-flight checks\<close>

text \<open>The answers to the data dictionary queries; \<open>exit(1)\<close> is the error value.\<close>

definition exit_if :: "bool \<Rightarrow> string \<Rightarrow> unit result" where
  "exit_if b what = (if b then Inl (RuntimeError what) else Inr ())"

definition CheckTablesExist :: "string set \<Rightarrow> unit result" where
  "CheckTablesExist tables = exit_if (\<exists>t \<in> set TPCC_TABLES. t \<notin> tables) ''table is missing''"

definition CheckNoTablesExist :: "string set \<Rightarrow> unit result" where
  "CheckNoTablesExist tables = exit_if (\<exists>t \<in> set TPCC_TABLES. t \<in> tables) ''table already exists''"

definition CheckIndexExists :: "string set \<Rightarrow> string \<Rightarrow> unit result" where
  "CheckIndexExists indexes expectedIndex = exit_if (expectedIndex \<notin> indexes) ''missing expected index''"

definition ConnectChecked :: "string \<Rightarrow> string \<Rightarrow> string result" where
  "ConnectChecked connectionString path = rbind (ConfigWithPath connectionString path) (\<lambda>cfg.
     if EffectiveDatabase cfg = [] then Inl (RuntimeError ''No database specified'') else Inr (EffectiveDatabase cfg))"

definition CheckDbForInit :: "(string \<Rightarrow> string set) \<Rightarrow> string \<Rightarrow> string \<Rightarrow> unit result" where
  "CheckDbForInit tables connectionString path = rbind (ConnectChecked connectionString path) (\<lambda>db. CheckNoTablesExist (tables db))"

definition CheckDbForImport :: "(string \<Rightarrow> string set) \<Rightarrow> int \<Rightarrow> string \<Rightarrow> string \<Rightarrow> unit result" where
  "CheckDbForImport tables whCount connectionString path = rbind (ConnectChecked connectionString path) (\<lambda>db.
     rbind (CheckTablesExist (tables db)) (\<lambda>_. exit_if (whCount \<noteq> 0) ''already has warehouses''))"

definition CheckDbForRun :: "(string \<Rightarrow> string set) \<Rightarrow> (string \<Rightarrow> string \<Rightarrow> string set) \<Rightarrow> int \<Rightarrow> string \<Rightarrow> int \<Rightarrow> string \<Rightarrow> unit result" where
  "CheckDbForRun tables indexes whCount connectionString expectedWhCount path = rbind (ConnectChecked connectionString path) (\<lambda>db.
     rbind (CheckTablesExist (tables db)) (\<lambda>_.
     rbind (CheckIndexExists (indexes db TABLE_CUSTOMER) INDEX_CUSTOMER_NAME) (\<lambda>_.
     rbind (CheckIndexExists (indexes db TABLE_OORDER) INDEX_ORDER) (\<lambda>_.
     rbind (exit_if (whCount = 0) ''Empty warehouse table'') (\<lambda>_.
     exit_if (whCount < expectedWhCount) ''missing warehouses'')))))"

end
