(* ===== verification/InitProofs.thy ===== *)
theory InitProofs
  imports Init
begin

text \<open>
  The schema is well formed for every layout and every choice of options, and \<open>InitSync\<close> rebuilds it
  from whatever an earlier, possibly failed, initialisation has left.
\<close>

section \<open>Well-formed schemas\<close>

definition column_names :: "create_table \<Rightarrow> string list" where
  "column_names t = map col_name (table_columns t)"

definition column_type :: "create_table \<Rightarrow> string \<Rightarrow> sql_type option" where
  "column_type t c = map_of (map (\<lambda>x. (col_name x, col_type x)) (table_columns t)) c"

definition keys_of :: "create_table \<Rightarrow> string list list" where
  "keys_of t = concat (map (\<lambda>c. case c of PrimaryKey cs \<Rightarrow> [cs] | Unique cs \<Rightarrow> [cs] | ForeignKey _ _ _ \<Rightarrow> []) (table_constraints t))"

definition refs :: "create_table \<Rightarrow> string list" where
  "refs t = concat (map (\<lambda>c. case c of ForeignKey _ r _ \<Rightarrow> [r] | _ \<Rightarrow> []) (table_constraints t))"

text \<open>
  A constraint of table \<open>t\<close> after the tables \<open>ts\<close>: a key names columns that cannot be null; a foreign key names
  columns of \<open>t\<close>, and its target is the primary key of a table among \<open>ts\<close>, column by column of the same type.
\<close>

definition constraint_ok :: "create_table list \<Rightarrow> create_table \<Rightarrow> table_constraint \<Rightarrow> bool" where
  "constraint_ok ts t c = (case c of
       PrimaryKey cs \<Rightarrow> list_all (\<lambda>n. \<exists>x \<in> set (table_columns t). col_name x = n \<and> not_null x) cs \<and> distinct cs
     | Unique cs \<Rightarrow> list_all (\<lambda>n. \<exists>x \<in> set (table_columns t). col_name x = n \<and> not_null x) cs \<and> distinct cs
     | ForeignKey cs r rs \<Rightarrow> (\<exists>u \<in> set ts. table_name u = r \<and> PrimaryKey rs \<in> set (table_constraints u)
         \<and> length cs = length rs \<and> list_all2 (\<lambda>a b. column_type t a \<noteq> None \<and> column_type t a = column_type u b) cs rs))"

text \<open>A partitioned table is partitioned by an integer column that is part of every key.\<close>

definition suffix_ok :: "create_table \<Rightarrow> bool" where
  "suffix_ok t = (case suffix t of None \<Rightarrow> True
     | Some p \<Rightarrow> column_type t (hash_column p) = Some SQL_INT \<and> list_all (\<lambda>k. hash_column p \<in> set k) (keys_of t) \<and> keys_of t \<noteq> []
         \<and> 1 \<le> partition_count p)"

text \<open>A table that can be created after the tables \<open>ts\<close>.\<close>

definition creatable :: "create_table list \<Rightarrow> create_table \<Rightarrow> bool" where
  "creatable ts t \<longleftrightarrow> table_name t \<notin> table_name ` set ts \<and> distinct (column_names t)
     \<and> list_all (constraint_ok ts t) (table_constraints t) \<and> suffix_ok t"

fun schema_ok :: "create_table list \<Rightarrow> create_table list \<Rightarrow> bool" where
  "schema_ok ts [] = True"
| "schema_ok ts (t # us) = (creatable ts t \<and> schema_ok (ts @ [t]) us)"

text \<open>
  The schema is well formed whatever the layout and the options: nine tables with distinct column names; keys
  over columns that exist and cannot be null; every foreign key refers to the primary key of a table created
  before it, with equal column types; and a partitioned table is partitioned by an integer column that
  belongs to all of its keys, into at least one partition.
\<close>

lemma schema_well_formed:
  "schema_ok [] (BuildCreateStatements (ResolveSchemaLayout version options) options)"
proof -
  have "1 \<le> layout_PartitionCount (ResolveSchemaLayout version options)"
    by (simp add: ResolveSchemaLayout_def ResolvePartitionCount_def Let_def)
  then show ?thesis
    by (cases "UseClusterLayout (ResolveSchemaLayout version options)"; cases "opt_EnableForeignKeys options")
      (simp_all add: BuildCreateStatements_def fk_def ClusterTableSuffix_def creatable_def constraint_ok_def suffix_ok_def keys_of_def
        column_type_def column_names_def column_defs)
qed

text \<open>More tables do no harm as long as the names stay free.\<close>

lemma creatable_more:
  assumes "creatable ts t" "set ts \<subseteq> set ts'" "table_name t \<notin> table_name ` set ts'"
  shows "creatable ts' t"
proof -
  have "constraint_ok ts t c \<Longrightarrow> constraint_ok ts' t c" for c
    using assms(2) by (cases c) (auto simp: constraint_ok_def)
  then show ?thesis using assms(1,3) by (auto simp: creatable_def list_all_iff)
qed

text \<open>The partitioned tables of a layout are in the table group, with its number of partitions.\<close>

lemma build_suffix:
  assumes "t \<in> set (BuildCreateStatements layout options)" "suffix t = Some p"
  shows "UseClusterLayout layout \<and> tablegroup p = TABLEGROUP_TPCC \<and> partition_count p = layout_PartitionCount layout"
  using assms by (auto simp: BuildCreateStatements_def ClusterTableSuffix_def split: if_splits)

lemma build_names: "t \<in> set (BuildCreateStatements layout options) \<Longrightarrow> table_name t \<in> set kDropTables"
  by (auto simp: BuildCreateStatements_def kDropTables_def)

section \<open>The server's promises\<close>

text \<open>
  What MySQL and OceanBase document of these statements, for the database \<open>db\<close>. \<open>tables\<close> are its tables, \<open>groups\<close> the table groups of the tenant with
  their numbers of partitions, \<open>pinned\<close> says that a table of another database refers to one of its tables. A table that no other table refers
  to can be dropped; a table that is well formed over the tables that exist, and whose table group exists with the same number of
  partitions, can be created; \<open>CREATE TABLEGROUP IF NOT EXISTS\<close> leaves a group that exists as it is; a database that exists can be
  selected, and dropped with all its tables.
\<close>

definition group_ok :: "(string \<rightharpoonup> int) \<Rightarrow> create_table \<Rightarrow> bool" where
  "group_ok gs t \<longleftrightarrow> (\<forall>p. suffix t = Some p \<longrightarrow> gs (tablegroup p) = Some (partition_count p))"

definition ddl_laws :: "'s server \<Rightarrow> (string \<Rightarrow> 's \<Rightarrow> bool) \<Rightarrow> string \<Rightarrow> ('s \<Rightarrow> create_table list) \<Rightarrow> ('s \<Rightarrow> string \<rightharpoonup> int) \<Rightarrow> ('s \<Rightarrow> bool) \<Rightarrow> bool" where
  "ddl_laws exec db_exists db tables groups pinned \<longleftrightarrow>
     (\<forall>n s. \<not> pinned s \<longrightarrow> (\<forall>t \<in> set (tables s). n \<in> set (refs t) \<longrightarrow> table_name t = n) \<longrightarrow>
        (\<exists>s'. exec (DropTable n) s = (Inr (), s') \<and> tables s' = filter (\<lambda>t. table_name t \<noteq> n) (tables s)
          \<and> groups s' = groups s \<and> \<not> pinned s' \<and> db_exists db s' = db_exists db s))
   \<and> (\<forall>t s. creatable (tables s) t \<longrightarrow> group_ok (groups s) t \<longrightarrow>
        (\<exists>s'. exec (CreateTable t) s = (Inr (), s') \<and> tables s' = tables s @ [t] \<and> groups s' = groups s))
   \<and> (\<forall>g k s. \<exists>s'. exec (CreateTableGroup g k) s = (Inr (), s') \<and> tables s' = tables s
        \<and> groups s' = (if groups s g = None then (groups s)(g \<mapsto> k) else groups s))
   \<and> (\<forall>g s. let s' = snd (exec (DropTableGroup g) s) in tables s' = tables s \<and> pinned s' = pinned s \<and> db_exists db s' = db_exists db s)
   \<and> (\<forall>s. \<exists>s'. exec (UseDatabase ''information_schema'') s = (Inr (), s')
        \<and> tables s' = tables s \<and> groups s' = groups s \<and> pinned s' = pinned s \<and> db_exists db s' = db_exists db s)
   \<and> (\<forall>s. db_exists db s \<longrightarrow> (\<exists>s'. exec (UseDatabase db) s = (Inr (), s')
        \<and> tables s' = tables s \<and> groups s' = groups s \<and> pinned s' = pinned s \<and> db_exists db s'))
   \<and> (\<forall>s. db_exists db s \<longrightarrow> \<not> pinned s \<longrightarrow>
        (\<exists>s'. exec (DropDatabase db) s = (Inr (), s') \<and> tables s' = [] \<and> \<not> db_exists db s'))"

lemma drop_law:
  "ddl_laws exec ex db tables groups pinned \<Longrightarrow> \<not> pinned s \<Longrightarrow> \<forall>t \<in> set (tables s). n \<in> set (refs t) \<longrightarrow> table_name t = n \<Longrightarrow>
    \<exists>s'. exec (DropTable n) s = (Inr (), s') \<and> tables s' = filter (\<lambda>t. table_name t \<noteq> n) (tables s)
      \<and> groups s' = groups s \<and> \<not> pinned s' \<and> ex db s' = ex db s"
  by (simp add: ddl_laws_def)

lemma create_law:
  "ddl_laws exec ex db tables groups pinned \<Longrightarrow> creatable (tables s) t \<Longrightarrow> group_ok (groups s) t \<Longrightarrow>
    \<exists>s'. exec (CreateTable t) s = (Inr (), s') \<and> tables s' = tables s @ [t] \<and> groups s' = groups s"
  by (simp add: ddl_laws_def)

lemma group_law: "ddl_laws exec ex db tables groups pinned \<Longrightarrow> \<exists>s'. exec (CreateTableGroup g k) s = (Inr (), s') \<and> tables s' = tables s
    \<and> groups s' = (if groups s g = None then (groups s)(g \<mapsto> k) else groups s)"
  and drop_group_law: "ddl_laws exec ex db tables groups pinned \<Longrightarrow> s' = snd (exec (DropTableGroup g) s) \<Longrightarrow>
    tables s' = tables s \<and> pinned s' = pinned s \<and> ex db s' = ex db s"
  and use_info_law: "ddl_laws exec ex db tables groups pinned \<Longrightarrow> \<exists>s'. exec (UseDatabase ''information_schema'') s = (Inr (), s')
    \<and> tables s' = tables s \<and> groups s' = groups s \<and> pinned s' = pinned s \<and> ex db s' = ex db s"
  and use_law: "ddl_laws exec ex db tables groups pinned \<Longrightarrow> ex db s \<Longrightarrow>
    \<exists>s'. exec (UseDatabase db) s = (Inr (), s') \<and> tables s' = tables s \<and> groups s' = groups s \<and> pinned s' = pinned s \<and> ex db s'"
  and drop_database_law: "ddl_laws exec ex db tables groups pinned \<Longrightarrow> ex db s \<Longrightarrow> \<not> pinned s \<Longrightarrow>
    \<exists>s'. exec (DropDatabase db) s = (Inr (), s') \<and> tables s' = [] \<and> \<not> ex db s'"
  by (simp_all add: ddl_laws_def Let_def)

section \<open>Dropping in an order that respects the references\<close>

fun drop_order_ok :: "string list \<Rightarrow> create_table list \<Rightarrow> bool" where
  "drop_order_ok [] ts \<longleftrightarrow> True"
| "drop_order_ok (d # ds) ts \<longleftrightarrow> (\<forall>t \<in> set ts. d \<in> set (refs t) \<longrightarrow> table_name t = d)
     \<and> drop_order_ok ds (filter (\<lambda>t. table_name t \<noteq> d) ts)"

lemma drop_order_pointwise: "drop_order_ok ds ts \<longleftrightarrow> (\<forall>t \<in> set ts. drop_order_ok ds [t])"
proof (induction ds arbitrary: ts)
  case (Cons d ds)
  have n: "drop_order_ok ds []" using Cons.IH [of "[]"] by simp
  show ?case using Cons.IH [of "filter (\<lambda>t. table_name t \<noteq> d) ts"] n by auto
qed simp

lemma drops:
  assumes "ddl_laws exec ex db tables groups pinned" "drop_order_ok ds (tables s)" "\<not> pinned s"
  shows "\<exists>s'. ExecAll exec (map DropTable ds) s = (Inr (), s') \<and> tables s' = filter (\<lambda>t. table_name t \<notin> set ds) (tables s)
    \<and> groups s' = groups s \<and> \<not> pinned s' \<and> ex db s' = ex db s
    \<and> fold (\<lambda>t. try_stmt exec (DropTable t)) ds s = s'"
  using assms(2,3)
proof (induction ds arbitrary: s)
  case (Cons d ds)
  have "\<forall>t \<in> set (tables s). d \<in> set (refs t) \<longrightarrow> table_name t = d" using Cons.prems by simp
  from drop_law [OF assms(1) Cons.prems(2) this] obtain s' where
    s': "exec (DropTable d) s = (Inr (), s')" "tables s' = filter (\<lambda>t. table_name t \<noteq> d) (tables s)"
    "groups s' = groups s" "\<not> pinned s'" "ex db s' = ex db s" by blast
  then have "drop_order_ok ds (tables s')" using Cons.prems by simp
  from Cons.IH [OF this s'(4)] show ?case using s' by (auto simp: seq_stmt_def try_stmt_def conj_commute)
qed simp

text \<open>
  Tables an earlier initialisation, with whatever options, may have left, beside tables that do not refer to
  any of the benchmark's.
\<close>

definition leftover :: "create_table list \<Rightarrow> bool" where
  "leftover ts \<longleftrightarrow> (\<forall>t \<in> set ts. (\<exists>layout options. t \<in> set (BuildCreateStatements layout options))
     \<or> table_name t \<notin> set kDropTables \<and> set (refs t) \<inter> set kDropTables = {})"

lemma foreign_drop_ok: "table_name t \<notin> set ds \<Longrightarrow> set (refs t) \<inter> set ds = {} \<Longrightarrow> drop_order_ok ds [t]"
  by (induction ds) auto

lemma own_drop_ok:
  assumes "t \<in> set (BuildCreateStatements layout options)"
  shows "drop_order_ok kDropTables [t]" "drop_order_ok clean_tables [t]"
proof -
  have "list_all (\<lambda>t. drop_order_ok kDropTables [t] \<and> drop_order_ok clean_tables [t]) (BuildCreateStatements layout options)"
    by (cases "opt_EnableForeignKeys options"; cases "UseClusterLayout layout")
       (simp_all add: BuildCreateStatements_def fk_def refs_def kDropTables_def clean_tables_def const_defs)
  then show "drop_order_ok kDropTables [t]" "drop_order_ok clean_tables [t]" using assms by (auto simp: list_all_iff)
qed

lemma leftover_drop_ok: "leftover ts \<Longrightarrow> drop_order_ok kDropTables ts \<and> drop_order_ok clean_tables ts"
proof -
  assume a: "leftover ts"
  have "set clean_tables = set kDropTables" by (auto simp: clean_tables_def const_defs kDropTables_def)
  then have "drop_order_ok kDropTables [t]" "drop_order_ok clean_tables [t]" if "t \<in> set ts" for t
    using that a own_drop_ok foreign_drop_ok unfolding leftover_def by metis+
  then show ?thesis using drop_order_pointwise by blast
qed

section \<open>Creating in order\<close>

lemma creates:
  assumes "ddl_laws exec ex db tables groups pinned" "schema_ok ts us" "tables s = others @ ts"
    and "table_name ` set us \<inter> table_name ` set others = {}" "\<forall>t \<in> set us. group_ok (groups s) t"
  shows "\<exists>s'. ExecAll exec (map CreateTable us) s = (Inr (), s') \<and> tables s' = tables s @ us"
  using assms(2-5)
proof (induction us arbitrary: s ts)
  case (Cons t us)
  have "table_name t \<notin> table_name ` set (tables s)" using Cons.prems(1,2,3) by (auto simp: creatable_def)
  then have "creatable (tables s) t"
    using creatable_more [of ts t "tables s"] Cons.prems(1,2) by simp
  then obtain s' where s': "exec (CreateTable t) s = (Inr (), s')" "tables s' = tables s @ [t]" "groups s' = groups s"
    using create_law [OF assms(1), of s t] Cons.prems(4) by auto
  from Cons.IH [of "ts @ [t]" s'] Cons.prems s' show ?case by (auto simp: seq_stmt_def)
qed simp

text \<open>
  The table group after its creation has the layout's number of partitions, if it was missing or had that number before.
\<close>

lemma layout_group:
  assumes "ddl_laws exec ex db tables groups pinned"
    and "UseClusterLayout layout \<Longrightarrow> groups s TABLEGROUP_TPCC \<in> {None, Some (layout_PartitionCount layout)}"
  shows "\<exists>s'. ExecAll exec (CreateTableGroup_stmts layout) s = (Inr (), s') \<and> tables s' = tables s
    \<and> (\<forall>t \<in> set (BuildCreateStatements layout options). group_ok (groups s') t)"
proof (cases "UseClusterLayout layout")
  case True
  from group_law [OF assms(1), of TABLEGROUP_TPCC "layout_PartitionCount layout" s]
  obtain s' where s': "exec (CreateTableGroup TABLEGROUP_TPCC (layout_PartitionCount layout)) s = (Inr (), s')" "tables s' = tables s"
    "groups s' = (if groups s TABLEGROUP_TPCC = None then (groups s)(TABLEGROUP_TPCC \<mapsto> layout_PartitionCount layout) else groups s)"
    by blast
  have "groups s' TABLEGROUP_TPCC = Some (layout_PartitionCount layout)" using s'(3) assms(2) [OF True] by auto
  then show ?thesis using s' True by (auto simp: CreateTableGroup_stmts_def seq_stmt_def group_ok_def dest: build_suffix)
next
  case False
  then show ?thesis by (auto simp: CreateTableGroup_stmts_def group_ok_def dest: build_suffix)
qed

section \<open>Init and clean\<close>

lemma init_works:
  assumes "ddl_laws exec ex db tables groups pinned" "ConfigWithPath conn path = Inr cfg" "EffectiveDatabase cfg = db" "db \<noteq> []"
    and "ex db s" "leftover (tables s)" "\<not> pinned s"
    and "layout = ResolveSchemaLayout version options"
    and "UseClusterLayout layout \<Longrightarrow> groups s TABLEGROUP_TPCC \<in> {None, Some (layout_PartitionCount layout)}"
  shows "\<exists>s'. InitSync exec ex version conn path options s = (Inr (), s')
    \<and> tables s' = filter (\<lambda>t. table_name t \<notin> set kDropTables) (tables s) @ BuildCreateStatements layout options"
proof -
  obtain s1 where s1: "exec (UseDatabase db) s = (Inr (), s1)" "tables s1 = tables s" "groups s1 = groups s" "\<not> pinned s1"
    using use_law [OF assms(1,5)] assms(7) by auto
  obtain s2 where s2: "ExecAll exec (map DropTable kDropTables) s1 = (Inr (), s2)"
    "tables s2 = filter (\<lambda>t. table_name t \<notin> set kDropTables) (tables s)" "groups s2 = groups s"
    using drops [OF assms(1) _ s1(4), of kDropTables] leftover_drop_ok [OF assms(6)] s1(2,3) by auto
  have "UseClusterLayout layout \<Longrightarrow> groups s2 TABLEGROUP_TPCC \<in> {None, Some (layout_PartitionCount layout)}"
    using assms(9) s2(3) by simp
  from layout_group [OF assms(1) this] obtain s3 where s3: "ExecAll exec (CreateTableGroup_stmts layout) s2 = (Inr (), s3)" "tables s3 = tables s2"
    "\<forall>t \<in> set (BuildCreateStatements layout options). group_ok (groups s3) t" by blast
  have n: "table_name ` set (BuildCreateStatements layout options) \<inter> table_name ` set (tables s3) = {}"
    using build_names [of _ layout options] unfolding s2(2) s3(2) by fastforce
  obtain s4 where s4: "ExecAll exec (map CreateTable (BuildCreateStatements layout options)) s3 = (Inr (), s4)"
    "tables s4 = tables s3 @ BuildCreateStatements layout options"
    using creates [OF assms(1) schema_well_formed, of s3 "tables s3" version options] n s3(3) assms(8) by auto
  have "InitSync exec ex version conn path options s = (Inr (), s4)"
    using assms(2-5,8) s1(1) s2(1) s3(1) s4(1) by (simp add: InitSync_def ConnectToTargetDatabase_def seq_stmt_def Let_def)
  then show ?thesis using s4(2) s3(2) s2(2) by simp
qed

lemma clean_works:
  assumes "ddl_laws exec ex db tables groups pinned" "ConfigWithPath conn path = Inr cfg" "EffectiveDatabase cfg = db" "db \<noteq> []"
    and "ex db s" "leftover (tables s)" "\<not> pinned s"
  shows "\<exists>s'. CleanSync exec ex conn path s = (Inr (), s')
    \<and> (if path = [] \<or> isl (QuoteIdent path) then tables s' = filter (\<lambda>t. table_name t \<notin> set kDropTables) (tables s)
       else tables s' = [] \<and> \<not> ex db s')"
proof -
  obtain s1 where s1: "exec (UseDatabase db) s = (Inr (), s1)" "tables s1 = tables s" "\<not> pinned s1" "ex db s1"
    using use_law [OF assms(1,5)] assms(7) by auto
  have same: "set clean_tables = set kDropTables" by (auto simp: clean_tables_def const_defs kDropTables_def)
  let ?s2 = "fold (\<lambda>t. try_stmt exec (DropTable t)) clean_tables s1"
  let ?s3 = "try_stmt exec (DropTableGroup TABLEGROUP_TPCC) ?s2"
  have "tables ?s2 = filter (\<lambda>t. table_name t \<notin> set kDropTables) (tables s) \<and> \<not> pinned ?s2 \<and> ex db ?s2"
    using drops [OF assms(1) _ s1(3), of clean_tables] leftover_drop_ok [OF assms(6)] s1(2,4) same by auto
  then have s3: "tables ?s3 = filter (\<lambda>t. table_name t \<notin> set kDropTables) (tables s)" "\<not> pinned ?s3" "ex db ?s3"
    using drop_group_law [OF assms(1), of ?s3] by (auto simp: try_stmt_def)
  obtain s4 where s4: "exec (UseDatabase ''information_schema'') ?s3 = (Inr (), s4)" "tables s4 = tables ?s3" "\<not> pinned s4" "ex db s4"
    using use_info_law [OF assms(1), of ?s3] s3(2,3) by auto
  obtain s5 where s5: "exec (DropDatabase db) s4 = (Inr (), s5)" "tables s5 = []" "\<not> ex db s5"
    using drop_database_law [OF assms(1) s4(4,3)] by blast
  have db: "path \<noteq> [] \<Longrightarrow> db = path" using assms(2,3) by (auto simp: ConfigWithPath_def EffectiveDatabase_def rbind_def split: sum.splits)
  let ?s' = "if path = [] then ?s3 else if isl (QuoteIdent path) then s4 else s5"
  have "CleanSync exec ex conn path s = (Inr (), ?s')"
    unfolding CleanSync_def assms(2) using db assms(3-5) s1(1) s4(1) s5(1)
    by (cases "QuoteIdent path") (auto simp: seq_stmt_def Let_def)
  then show ?thesis using s3(1) s4(2) s5 by auto
qed


text \<open>A server that keeps the tables of one database, the table groups, and whether the database exists.\<close>

record catalog =
  cat_tables :: "create_table list"
  cat_groups :: "string \<rightharpoonup> int"
  cat_exists :: bool

fun catalog_exec :: "catalog server" where
  "catalog_exec (DropTable n) s = (if \<exists>t \<in> set (cat_tables s). n \<in> set (refs t) \<and> table_name t \<noteq> n
     then (Inl (DbException 3730 ''table is referenced''), s)
     else (Inr (), s\<lparr>cat_tables := filter (\<lambda>t. table_name t \<noteq> n) (cat_tables s)\<rparr>))"
| "catalog_exec (CreateTable t) s = (if \<not> creatable (cat_tables s) t then (Inl (DbException 1050 ''table cannot be created''), s)
     else if \<not> group_ok (cat_groups s) t then (Inl (DbException 4179 ''partitions differ from the table group''), s)
     else (Inr (), s\<lparr>cat_tables := cat_tables s @ [t]\<rparr>))"
| "catalog_exec (CreateTableGroup g k) s = (Inr (), if cat_groups s g = None then s\<lparr>cat_groups := (cat_groups s)(g \<mapsto> k)\<rparr> else s)"
| "catalog_exec (DropTableGroup g) s = (Inr (), s\<lparr>cat_groups := (cat_groups s)(g := None)\<rparr>)"
| "catalog_exec (DropDatabase d) s = (Inr (), s\<lparr>cat_tables := [], cat_exists := False\<rparr>)"
| "catalog_exec _ s = (Inr (), s)"

lemma catalog_laws: "ddl_laws catalog_exec (\<lambda>_ s. cat_exists s) db cat_tables cat_groups (\<lambda>_. False)"
  by (auto simp: ddl_laws_def)

definition sample_options :: "int \<Rightarrow> bool \<Rightarrow> TInitOptions" where
  "sample_options p f = \<lparr>opt_PartitionCount = p, opt_WarehouseCount = 10, opt_EnableForeignKeys = f\<rparr>"

definition old_tables :: catalog where
  "old_tables = \<lparr>cat_tables = drop 2 (BuildCreateStatements (ResolveSchemaLayout None (sample_options 0 True)) (sample_options 0 True)),
     cat_groups = Map.empty, cat_exists = True\<rparr>"


end
