(* ===== verification/RowTypes.thy ===== *)
theory RowTypes
  imports ImportProofs InitProofs
begin

text \<open>
  The rows the import generates, as the cells \<open>import.cpp\<close> emits under its column lists, and that they fit the columns
  \<open>init.cpp\<close> creates: names and order, types, lengths and precisions, and nullability.
\<close>

section \<open>Cells and columns\<close>

text \<open>A decimal is given in units of the last place of its column.\<close>

datatype cell = CInt int | CDec int | CText string | CTime timestamp | CNull

fun type_fits :: "sql_type \<Rightarrow> cell \<Rightarrow> bool" where
  "type_fits SQL_INT (CInt i) \<longleftrightarrow> - (2 ^ 31) \<le> i \<and> i < 2 ^ 31"
| "type_fits (SQL_DECIMAL p s) (CDec i) \<longleftrightarrow> \<bar>i\<bar> < 10 ^ p"
| "type_fits (SQL_VARCHAR n) (CText t) \<longleftrightarrow> length t \<le> n"
| "type_fits (SQL_CHAR n) (CText t) \<longleftrightarrow> length t \<le> n"
| "type_fits SQL_TIMESTAMP (CTime t) \<longleftrightarrow> True"
| "type_fits _ _ \<longleftrightarrow> False"

definition cell_fits :: "column \<Rightarrow> string \<times> cell \<Rightarrow> bool" where
  "cell_fits c x \<longleftrightarrow> col_name c = fst x \<and> (if snd x = CNull then \<not> not_null c else type_fits (col_type c) (snd x))"

text \<open>All columns but the generated one are given.\<close>

definition row_fits :: "create_table list \<Rightarrow> string \<Rightarrow> (string \<times> cell) list \<Rightarrow> bool" where
  "row_fits ts name row \<longleftrightarrow> (case find (\<lambda>t. table_name t = name) ts of None \<Rightarrow> False
     | Some t \<Rightarrow> list_all2 cell_fits (filter (\<lambda>c. col_default c \<noteq> AutoIncrement) (table_columns t)) row)"

section \<open>The emitted rows\<close>

definition item_cells :: "item_row \<Rightarrow> (string \<times> cell) list" where
  "item_cells r = [(''i_id'', CInt (i_id r)), (''i_name'', CText (i_name r)), (''i_price'', CDec (i_price r)),
     (''i_data'', CText (i_data r)), (''i_im_id'', CInt (i_im_id r))]"

definition warehouse_cells :: "warehouse_row \<Rightarrow> (string \<times> cell) list" where
  "warehouse_cells r = [(''w_id'', CInt (w_id r)), (''w_ytd'', CDec (w_ytd r)), (''w_tax'', CDec (w_tax r)),
     (''w_name'', CText (w_name r)), (''w_street_1'', CText (w_street_1 r)), (''w_street_2'', CText (w_street_2 r)),
     (''w_city'', CText (w_city r)), (''w_state'', CText (w_state r)), (''w_zip'', CText (w_zip r))]"

definition district_cells :: "district_row \<Rightarrow> (string \<times> cell) list" where
  "district_cells r = [(''d_w_id'', CInt (d_w_id r)), (''d_id'', CInt (d_id r)), (''d_ytd'', CDec (d_ytd r)),
     (''d_tax'', CDec (d_tax r)), (''d_next_o_id'', CInt (d_next_o_id r)), (''d_name'', CText (d_name r)),
     (''d_street_1'', CText (d_street_1 r)), (''d_street_2'', CText (d_street_2 r)), (''d_city'', CText (d_city r)),
     (''d_state'', CText (d_state r)), (''d_zip'', CText (d_zip r))]"

definition stock_cells :: "stock_row \<Rightarrow> (string \<times> cell) list" where
  "stock_cells r = [(''s_w_id'', CInt (s_w_id r)), (''s_i_id'', CInt (s_i_id r)), (''s_quantity'', CInt (s_quantity r)),
     (''s_ytd'', CDec (100 * s_ytd r)), (''s_order_cnt'', CInt (s_order_cnt r)), (''s_remote_cnt'', CInt (s_remote_cnt r)),
     (''s_data'', CText (s_data r)),
     (''s_dist_01'', CText (s_dist_01 r)), (''s_dist_02'', CText (s_dist_02 r)), (''s_dist_03'', CText (s_dist_03 r)),
     (''s_dist_04'', CText (s_dist_04 r)), (''s_dist_05'', CText (s_dist_05 r)), (''s_dist_06'', CText (s_dist_06 r)),
     (''s_dist_07'', CText (s_dist_07 r)), (''s_dist_08'', CText (s_dist_08 r)), (''s_dist_09'', CText (s_dist_09 r)),
     (''s_dist_10'', CText (s_dist_10 r))]"

definition customer_cells :: "customer_row \<Rightarrow> (string \<times> cell) list" where
  "customer_cells r = [(''c_w_id'', CInt (c_w_id r)), (''c_d_id'', CInt (c_d_id r)), (''c_id'', CInt (c_id r)),
     (''c_discount'', CDec (c_discount r)), (''c_credit'', CText (c_credit r)), (''c_last'', CText (c_last r)),
     (''c_first'', CText (c_first r)), (''c_credit_lim'', CDec (c_credit_lim r)), (''c_balance'', CDec (c_balance r)),
     (''c_ytd_payment'', CDec (c_ytd_payment r)), (''c_payment_cnt'', CInt (c_payment_cnt r)),
     (''c_delivery_cnt'', CInt (c_delivery_cnt r)), (''c_street_1'', CText (c_street_1 r)),
     (''c_street_2'', CText (c_street_2 r)), (''c_city'', CText (c_city r)), (''c_state'', CText (c_state r)),
     (''c_zip'', CText (c_zip r)), (''c_phone'', CText (c_phone r)), (''c_since'', CTime (c_since r)),
     (''c_middle'', CText (c_middle r)), (''c_data'', CText (c_data r))]"

definition history_cells :: "history_row \<Rightarrow> (string \<times> cell) list" where
  "history_cells r = [(''h_c_id'', CInt (h_c_id r)), (''h_c_d_id'', CInt (h_c_d_id r)), (''h_c_w_id'', CInt (h_c_w_id r)),
     (''h_d_id'', CInt (h_d_id r)), (''h_w_id'', CInt (h_w_id r)), (''h_date'', CTime (h_date r)),
     (''h_amount'', CDec (h_amount r)), (''h_data'', CText (h_data r))]"

definition oorder_cells :: "oorder_row \<Rightarrow> (string \<times> cell) list" where
  "oorder_cells r = [(''o_w_id'', CInt (o_w_id r)), (''o_d_id'', CInt (o_d_id r)), (''o_id'', CInt (o_id r)),
     (''o_c_id'', CInt (o_c_id r)), (''o_carrier_id'', case o_carrier_id r of None \<Rightarrow> CNull | Some k \<Rightarrow> CInt k),
     (''o_ol_cnt'', CInt (o_ol_cnt r)), (''o_all_local'', CInt (o_all_local r)), (''o_entry_d'', CTime (o_entry_d r))]"

definition new_order_cells :: "new_order_row \<Rightarrow> (string \<times> cell) list" where
  "new_order_cells r = [(''no_w_id'', CInt (no_w_id r)), (''no_d_id'', CInt (no_d_id r)), (''no_o_id'', CInt (no_o_id r))]"

definition order_line_cells :: "order_line_row \<Rightarrow> (string \<times> cell) list" where
  "order_line_cells r = [(''ol_w_id'', CInt (ol_w_id r)), (''ol_d_id'', CInt (ol_d_id r)), (''ol_o_id'', CInt (ol_o_id r)),
     (''ol_number'', CInt (ol_number r)), (''ol_i_id'', CInt (ol_i_id r)),
     (''ol_delivery_d'', case ol_delivery_d r of None \<Rightarrow> CNull | Some t \<Rightarrow> CTime t), (''ol_amount'', CDec (ol_amount r)),
     (''ol_supply_w_id'', CInt (ol_supply_w_id r)), (''ol_quantity'', CDec (100 * ol_quantity r)),
     (''ol_dist_info'', CText (ol_dist_info r))]"

section \<open>Lengths of random strings\<close>

lemma rnd_list_length: "rnd_list n r s = Some (xs, s') \<Longrightarrow> length xs = n"
  by (induction n arbitrary: s xs) (auto simp: rnd_bind_def ret_def split: option.splits)

lemma rnd_list_elems: "rnd_list n r s = Some (xs, s') \<Longrightarrow> x \<in> set xs \<Longrightarrow> \<exists>t t'. r t = Some (x, t')"
  by (induction n arbitrary: s xs) (fastforce simp: rnd_bind_Some ret_def)+

lemma Benchbase_length: "RandomStringBenchbase k c s = Some (t, s') \<Longrightarrow> int (length t) = max 0 (k - 1)"
  by (auto simp: RandomStringBenchbase_def ret_def dest!: rnd_list_length split: if_splits)

lemma Alpha_length:
  assumes "(\<exists>s s'. RandomAlphaString a b s = Some (t, s')) \<or> (\<exists>s s'. RandomUpperAlphaString a b s = Some (t, s'))" "1 \<le> a" "a \<le> b" "b < 2 ^ 31"
  shows "int (length t) < b"
proof -
  obtain k s s' s'' c where k: "RandomInt a b s = Some (k, s')" "RandomStringBenchbase k c s' = Some (t, s'')"
    using assms(1) by (auto simp: RandomAlphaString_def RandomUpperAlphaString_def rnd_bind_def split: option.splits)
  then have "a \<le> k \<and> k \<le> b" using RandomInt_range assms(2-4) by fastforce
  then show ?thesis using Benchbase_length [OF k(2)] assms(2) by auto
qed

lemma Numeric_length: "\<exists>s s'. RandomNumericString k s = Some (t, s') \<Longrightarrow> length t = nat k"
  by (auto simp: RandomNumericString_def dest: rnd_list_length)

lemma original_length: "\<exists>s s'. original_data s = Some (t, s') \<Longrightarrow> length t < 50"
proof -
  assume "\<exists>s s'. original_data s = Some (t, s')"
  then obtain s p s1 l s2 s' where d: "RandomInt 1 100 s = Some (p, s1)" "RandomInt 26 50 s1 = Some (l, s2)"
    and t: "(if 10 < p then RandomStringBenchbase l CHR ''a'' else rnd_bind (RandomInt 2 (l - 8)) (\<lambda>startOrig.
       rnd_bind (RandomStringBenchbase startOrig CHR ''a'') (\<lambda>a.
       rnd_bind (RandomStringBenchbase (l - startOrig - 8) CHR ''a'') (\<lambda>b.
       ret (a @ ''ORIGINAL'' @ b))))) s2 = Some (t, s')"
    unfolding original_data_def rnd_bind_Some [of "RandomInt 1 100"] rnd_bind_Some [of "RandomInt 26 50"] by blast
  have l: "26 \<le> l" "l \<le> 50" using RandomInt_range [OF d(2)] by simp_all
  show ?thesis
  proof (cases "10 < p")
    case True
    then have "int (length t) = max 0 (l - 1)" using t Benchbase_length by simp
    then show ?thesis using l by simp
  next
    case False
    then obtain k s3 a s4 b s5 where k: "RandomInt 2 (l - 8) s2 = Some (k, s3)" "RandomStringBenchbase k CHR ''a'' s3 = Some (a, s4)"
      "RandomStringBenchbase (l - k - 8) CHR ''a'' s4 = Some (b, s5)" "t = a @ ''ORIGINAL'' @ b"
      using t by (auto simp: rnd_bind_def ret_def split: option.splits)
    have "2 \<le> k" "k \<le> l - 8" using RandomInt_range [OF k(1)] l by simp_all
    then show ?thesis using Benchbase_length [OF k(2)] Benchbase_length [OF k(3)] k(4) l by simp
  qed
qed

section \<open>Generators of well-typed rows\<close>

lemma generates_drawn:
  assumes "\<And>x. \<exists>s s'. r s = Some (x, s') \<Longrightarrow> P x" "\<And>x. P x \<Longrightarrow> generates (f x) Q"
  shows "generates (tx_bind (draw r) f) Q"
  by (rule generates_bind [OF generates_draw]) (use assms in blast)

lemma generates_alpha:
  assumes "1 \<le> a" "a \<le> b" "b < 2 ^ 31" "\<And>t. int (length t) < b \<Longrightarrow> generates (f t) Q"
  shows "generates (tx_bind (draw (RandomAlphaString a b)) f) Q" "generates (tx_bind (draw (RandomUpperAlphaString a b)) f) Q"
  by (rule generates_drawn [of _ "\<lambda>t. int (length t) < b"], use Alpha_length assms in blast, use assms(4) in blast)+

lemma generates_original: "(\<And>t. length t < 50 \<Longrightarrow> generates (f t) Q) \<Longrightarrow> generates (tx_bind (draw original_data) f) Q"
  by (rule generates_drawn [of _ "\<lambda>t. length t < 50"]) (use original_length in blast)+

lemma generates_numeric: "(\<And>t. length t = nat k \<Longrightarrow> generates (f t) Q) \<Longrightarrow> generates (tx_bind (draw (RandomNumericString k)) f) Q"
  by (rule generates_drawn [of _ "\<lambda>t. length t = nat k"]) (use Numeric_length in blast)+

lemma generates_dists:
  assumes "\<And>ts. length ts = 10 \<Longrightarrow> (\<And>i. i < 10 \<Longrightarrow> length (ts ! i) = 23) \<Longrightarrow> generates (f ts) Q"
  shows "generates (tx_bind (draw (rnd_list 10 (RandomStringBenchbase 24 CHR ''a''))) f) Q"
proof (rule generates_drawn [of _ "\<lambda>ts. length ts = 10 \<and> (\<forall>i < 10. length (ts ! i) = 23)"])
  fix ts
  assume "\<exists>s s'. rnd_list 10 (RandomStringBenchbase 24 CHR ''a'') s = Some (ts, s')"
  then obtain s s' where d: "rnd_list 10 (RandomStringBenchbase 24 CHR ''a'') s = Some (ts, s')" by blast
  have "length t = 23" if "t \<in> set ts" for t using rnd_list_elems [OF d that] Benchbase_length by fastforce
  then show "length ts = 10 \<and> (\<forall>i < 10. length (ts ! i) = 23)" using rnd_list_length [OF d] by simp
qed (use assms in blast)

lemma generates_info:
  "(\<And>t. length t = 23 \<Longrightarrow> generates (f t) Q) \<Longrightarrow> generates (tx_bind (draw (RandomStringBenchbase 24 CHR ''a'')) f) Q"
  by (rule generates_drawn [of _ "\<lambda>t. length t = 23"]) (use Benchbase_length in fastforce)+

text \<open>Last names have at most fifteen letters.\<close>

lemma last_name_length: "0 \<le> n \<Longrightarrow> n < 1000 \<Longrightarrow> GetLastName n = Inr x \<Longrightarrow> length x \<le> 15"
proof -
  assume n: "0 \<le> n" "n < 1000" "GetLastName n = Inr x"
  have "nat (n div 100) < 10" "nat (n div 10 mod 10) < 10" "nat (n mod 10) < 10" using n(1,2) by auto
  note t = this [THEN NameTokens_nth]
  have "x = NameTokens ! nat (n div 100) @ NameTokens ! nat (n div 10 mod 10) @ NameTokens ! nat (n mod 10)"
    using GetLastName_digits [OF n(1,2)] n(3) by (simp only: sum.inject)
  then have "length x = length (NameTokens ! nat (n div 100)) + length (NameTokens ! nat (n div 10 mod 10))
     + length (NameTokens ! nat (n mod 10))" by (simp only: length_append add.assoc)
  then show ?thesis using t by linarith
qed

lemma generates_last_name: "1 \<le> c \<Longrightarrow> generates (customer_last c) (\<lambda>x. length x \<le> 15)"
proof -
  assume c: "1 \<le> c"
  have "generates (tx_bind (draw GetNonUniformRandomLastNameForLoad) tx_lift) (\<lambda>x. length x \<le> 15)"
  proof (rule generates_drawn [of _ "\<lambda>r. \<exists>k. 0 \<le> k \<and> k < 1000 \<and> r = GetLastName k"])
    fix r
    assume "\<exists>s s'. GetNonUniformRandomLastNameForLoad s = Some (r, s')"
    then obtain s k s' where "NonUniformRandom 255 C_LAST_LOAD_C 0 999 s = Some (k, s')" "r = GetLastName k"
      by (auto simp: GetNonUniformRandomLastNameForLoad_def rnd_bind_Some ret_def)
    moreover from NonUniformRandom_range [OF this(1)] have "0 \<le> k \<and> k \<le> 999" by (simp add: const_defs)
    ultimately show "\<exists>k. 0 \<le> k \<and> k < 1000 \<and> r = GetLastName k" by force
  next
    fix r
    assume "\<exists>k. 0 \<le> k \<and> k < 1000 \<and> r = GetLastName k"
    then obtain k where k: "0 \<le> k" "k < 1000" "r = GetLastName k" by blast
    show "generates (tx_lift r) (\<lambda>x. length x \<le> 15)"
      by (rule generates_mono [OF generates_lift]) (use last_name_length [OF k(1,2)] k(3) in simp)
  qed
  moreover have "generates (tx_lift (GetLastName (c - 1))) (\<lambda>x. length x \<le> 15)" if "c \<le> 1000"
    by (rule generates_mono [OF generates_lift], rule last_name_length [of "c - 1"]) (use that c in simp_all)
  ultimately show ?thesis by (simp add: customer_last_def)
qed

lemma find_tables:
  "row_fits (BuildCreateStatements L o') ''item'' row \<longleftrightarrow> list_all2 cell_fits item_columns row"
  "row_fits (BuildCreateStatements L o') ''warehouse'' row \<longleftrightarrow> list_all2 cell_fits warehouse_columns row"
  "row_fits (BuildCreateStatements L o') ''district'' row \<longleftrightarrow> list_all2 cell_fits district_columns row"
  "row_fits (BuildCreateStatements L o') ''stock'' row \<longleftrightarrow> list_all2 cell_fits stock_columns row"
  "row_fits (BuildCreateStatements L o') ''customer'' row \<longleftrightarrow> list_all2 cell_fits customer_columns row"
  "row_fits (BuildCreateStatements L o') ''history'' row \<longleftrightarrow> list_all2 cell_fits (history_columns (L\<lparr>UseClusterLayout := False\<rparr>)) row"
  "row_fits (BuildCreateStatements L o') ''oorder'' row \<longleftrightarrow> list_all2 cell_fits oorder_columns row"
  "row_fits (BuildCreateStatements L o') ''new_order'' row \<longleftrightarrow> list_all2 cell_fits new_order_columns row"
  "row_fits (BuildCreateStatements L o') ''order_line'' row \<longleftrightarrow> list_all2 cell_fits order_line_columns row"
  by (simp_all add: row_fits_def BuildCreateStatements_def column_defs)

lemma cell_fits_simps [simp]:
  "cell_fits (req n t) (m, v) \<longleftrightarrow> n = m \<and> v \<noteq> CNull \<and> type_fits t v"
  "cell_fits (stamp n) (m, v) \<longleftrightarrow> n = m \<and> v \<noteq> CNull \<and> type_fits SQL_TIMESTAMP v"
  "cell_fits (opt n t) (m, v) \<longleftrightarrow> n = m \<and> (v = CNull \<or> type_fits t v)"
  by (auto simp: cell_fits_def req_def stamp_def opt_def)

lemma item_row_fits:
  assumes "i \<in> {1..100000}"
  shows "generates (gen_item i) (\<lambda>r. list_all2 cell_fits item_columns (item_cells r))"
  unfolding gen_item_def
  by (rule generates_original, rule generates_alpha, simp, simp, simp, rule generates_int, simp, simp, simp,
      rule generates_int, simp, simp, simp, rule generates_return)
     (use assms in \<open>simp add: item_cells_def item_columns_def\<close>)

lemma address_rules:
  assumes "\<And>s1 s2 city state. length s1 < 20 \<Longrightarrow> length s2 < 20 \<Longrightarrow> length city < 20 \<Longrightarrow> length state < 3 \<Longrightarrow> generates (f s1 s2 city state) Q"
  shows "generates (tx_bind (draw (RandomAlphaString 10 20)) (\<lambda>s1. tx_bind (draw (RandomAlphaString 10 20)) (\<lambda>s2.
     tx_bind (draw (RandomAlphaString 10 20)) (\<lambda>city. tx_bind (draw (RandomUpperAlphaString 3 3)) (f s1 s2 city))))) Q"
  by (rule generates_alpha(1), simp, simp, simp, rule generates_alpha(1), simp, simp, simp, rule generates_alpha(1), simp, simp, simp,
      rule generates_alpha(2), simp, simp, simp, rule assms) simp_all

lemma warehouse_row_fits:
  assumes "w \<in> {1..<2 ^ 31}"
  shows "generates (gen_warehouse w) (\<lambda>r. list_all2 cell_fits warehouse_columns (warehouse_cells r))"
  unfolding gen_warehouse_def
  by (rule generates_int, simp, simp, simp, rule generates_alpha(1), simp, simp, simp, rule address_rules, rule generates_return)
     (use assms in \<open>simp add: warehouse_cells_def warehouse_columns_def const_defs\<close>)

lemma district_row_fits:
  assumes "w \<in> {1..<2 ^ 31}" "d \<in> {1..10}"
  shows "generates (gen_district (w, d)) (\<lambda>r. list_all2 cell_fits district_columns (district_cells r))"
  unfolding gen_district_def prod.case
  by (rule generates_int, simp, simp, simp, rule generates_alpha(1), simp, simp, simp, rule address_rules, rule generates_return)
     (use assms in \<open>simp add: district_cells_def district_columns_def const_defs\<close>)

lemma stock_row_fits:
  assumes "w \<in> {1..<2 ^ 31}" "i \<in> {1..100000}"
  shows "generates (gen_stock w i) (\<lambda>r. list_all2 cell_fits stock_columns (stock_cells r))"
  unfolding gen_stock_def
  by (rule generates_original, rule generates_int, simp, simp, simp, rule generates_dists, rule generates_return)
     (use assms in \<open>simp add: stock_cells_def stock_columns_def\<close>)

lemma customer_row_fits:
  assumes "w \<in> {1..<2 ^ 31}" "d \<in> {1..10}" "c \<in> {1..3000}"
  shows "generates (gen_customer w d ts c) (\<lambda>r. list_all2 cell_fits customer_columns (customer_cells r))"
  unfolding gen_customer_def
  by (rule generates_bind [OF generates_last_name], use assms in simp, rule generates_any, rule generates_int, simp, simp, simp,
      rule generates_alpha(1), simp, simp, simp, rule address_rules, rule generates_numeric, rule generates_numeric,
      rule generates_alpha(1), simp, simp, simp, rule generates_return)
     (use assms in \<open>simp add: customer_cells_def customer_columns_def\<close>)

lemma history_row_fits:
  assumes "w \<in> {1..<2 ^ 31}" "d \<in> {1..10}" "c \<in> {1..3000}" "\<not> UseClusterLayout L"
  shows "generates (gen_history w d ts c) (\<lambda>r. list_all2 cell_fits (history_columns L) (history_cells r))"
  unfolding gen_history_def
  by (rule generates_alpha(1), simp, simp, simp, rule generates_return)
     (use assms in \<open>simp add: history_cells_def history_columns_def\<close>)

lemma oorder_row_fits:
  assumes "w \<in> {1..<2 ^ 31}" "d \<in> {1..10}" "k \<in> {1..3000}" "mset ids = mset [1..CUSTOMERS_PER_DISTRICT]"
    "5 \<le> cnt w k d" "cnt w k d \<le> 15"
  shows "generates (gen_oorder cnt ids w d ts k) (\<lambda>r. list_all2 cell_fits oorder_columns (oorder_cells r))"
proof -
  have "generates (if k < FIRST_UNPROCESSED_O_ID then tx_bind (draw (RandomInt 1 10)) (\<lambda>k. tx_return (Some k)) else tx_return None)
      (\<lambda>x. \<forall>y. x = Some y \<longrightarrow> 1 \<le> y \<and> y \<le> 10)"
    by (auto intro!: generates_int generates_return)
  moreover have "ids ! nat (k - 1) \<in> {1..3000}"
  proof -
    have "length ids = 3000" "set ids = {1..3000}"
      using mset_eq_length [OF assms(4)] mset_eq_setD [OF assms(4)] by (simp_all add: const_defs)
    then show ?thesis using assms(3) nth_mem [of "nat (k - 1)" ids] by auto
  qed
  ultimately show ?thesis unfolding gen_oorder_def
    by (elim generates_bind) (use assms in \<open>auto intro!: generates_return simp: oorder_cells_def oorder_columns_def split: option.splits\<close>)
qed

lemma order_line_row_fits:
  assumes "w \<in> {1..<2 ^ 31}" "d \<in> {1..10}" "k \<in> {1..3000}" "l \<in> {1..15}"
  shows "generates (gen_order_line w d ts (k, l)) (\<lambda>r. list_all2 cell_fits order_line_columns (order_line_cells r))"
proof -
  have "generates (if k < FIRST_UNPROCESSED_O_ID then tx_return (Some ts, 0)
       else tx_bind (draw (RandomInt 1 999999)) (\<lambda>a. tx_return (None, a))) (\<lambda>x. 0 \<le> snd x \<and> snd x \<le> 999999)"
    by (auto intro!: generates_int generates_return)
  note amount = generates_bind [OF this]
  show ?thesis unfolding gen_order_line_def prod.case
    by (rule generates_int, simp, simp add: const_defs, simp add: const_defs, rule amount, unfold case_prod_beta,
        rule generates_info, rule generates_return)
       (use assms in \<open>auto simp: order_line_cells_def order_line_columns_def const_defs split: option.splits\<close>)
qed

section \<open>Properties\<close>

text \<open>
  (C24) Every row the import generates fits the table the initialisation has created, for every layout and choice of
  options: the emitted columns are the table's columns in order, integers are in range, decimals within their
  precision, strings no longer than the column, and only nullable columns are null.
\<close>

theorem generated_rows_fit:
  assumes "wh \<in> {1..<2 ^ 31}" "did \<in> {1..10}" "cid \<in> {1..3000}" "oid \<in> {1..3000}" "i \<in> {1..100000}" "l \<in> {1..15}"
    and "\<forall>s. 5 \<le> unif s \<and> unif s \<le> 15" "mset ids = mset [1..CUSTOMERS_PER_DISTRICT]" "ts = BuildCreateStatements layout options"
  shows "generates (gen_item i) (\<lambda>r. row_fits ts ''item'' (item_cells r))
    \<and> generates (gen_warehouse wh) (\<lambda>r. row_fits ts ''warehouse'' (warehouse_cells r))
    \<and> generates (gen_district (wh, did)) (\<lambda>r. row_fits ts ''district'' (district_cells r))
    \<and> generates (gen_stock wh i) (\<lambda>r. row_fits ts ''stock'' (stock_cells r))
    \<and> generates (gen_customer wh did t cid) (\<lambda>r. row_fits ts ''customer'' (customer_cells r))
    \<and> generates (gen_history wh did t cid) (\<lambda>r. row_fits ts ''history'' (history_cells r))
    \<and> generates (gen_oorder (GetRandomCount hash unif) ids wh did t oid) (\<lambda>r. row_fits ts ''oorder'' (oorder_cells r))
    \<and> row_fits ts ''new_order'' (new_order_cells \<lparr>no_w_id = wh, no_d_id = did, no_o_id = oid\<rparr>)
    \<and> generates (gen_order_line wh did t (oid, l)) (\<lambda>r. row_fits ts ''order_line'' (order_line_cells r))"
proof -
  have c: "5 \<le> GetRandomCount hash unif wh oid did" "GetRandomCount hash unif wh oid did \<le> 15"
    using assms(7) by (simp_all add: GetRandomCount_def)
  have n: "list_all2 cell_fits new_order_columns (new_order_cells \<lparr>no_w_id = wh, no_d_id = did, no_o_id = oid\<rparr>)"
    using assms(1,2,4) by (simp add: new_order_cells_def new_order_columns_def)
  show ?thesis unfolding assms(9) find_tables
    by (intro conjI item_row_fits warehouse_row_fits district_row_fits stock_row_fits customer_row_fits history_row_fits
        oorder_row_fits order_line_row_fits n) (use assms(1-6,8) c in simp_all)
qed

theorem generated_rows_fit_witness:
  "generates (gen_item 100000) (\<lambda>r. row_fits (BuildCreateStatements (ResolveSchemaLayout None (sample_options 0 True)) (sample_options 0 True))
     ''item'' (item_cells r))"
  using generated_rows_fit [of 1 10 3000 3000 100000 15 "\<lambda>_. 5" "[1..CUSTOMERS_PER_DISTRICT]" _
      "ResolveSchemaLayout None (sample_options 0 True)" "sample_options 0 True"] by simp

end
