(* ===== verification/CustomerLookup.thy ===== *)
theory CustomerLookup
  imports TxContract
begin

text \<open>
  The customer lookups Payment and OrderStatus share (\<open>src/src/common_queries.cpp\<close> and the
  lookup part of the two transactions): which customer they select.
\<close>

section \<open>Queries as the first or a later statement\<close>

text \<open>\<open>S\<close> are the databases the next statement may read.\<close>

definition at_db :: "bool \<Rightarrow> database set \<Rightarrow> database set \<Rightarrow> world \<Rightarrow> bool" where
  "at_db F D S w \<longleftrightarrow> (idle F D w \<and> S = D) \<or> (\<exists>db. active F D db w \<and> S = {db})"

lemma at_db_rng [simp]: "at_db F D S (w\<lparr>rng := s\<rparr>) = at_db F D S w"
  by (simp add: at_db_def)

lemma at_db_idle: "idle F D w \<Longrightarrow> at_db F D D w"
  and at_db_active: "active F D db w \<Longrightarrow> at_db F D {db} w"
  by (auto simp: at_db_def)

lemma wp_query_at:
  assumes "at_db F D S w" "\<And>e w'. \<not> F \<Longrightarrow> idle F D w' \<Longrightarrow> Q (Inl e) w'"
    and "\<And>db w'. db \<in> S \<Longrightarrow> active F D db w' \<Longrightarrow> wp (f (sel db)) Q w'"
  shows "wp (tx_bind (ExecuteQuery sel) f) Q w"
  using assms(1) unfolding at_db_def
proof
  assume "idle F D w \<and> S = D"
  then show ?thesis using assms(2,3) by (intro wp_query_idle) auto
next
  assume "\<exists>db. active F D db w \<and> S = {db}"
  then obtain db where "active F D db w" "S = {db}" by blast
  then show ?thesis using assms(2,3) by (intro wp_query [of F D db]) auto
qed

section \<open>Which customer is selected\<close>

lemma middle_index_position: "0 < n \<Longrightarrow> middle_index n + 1 = (n + 1) div 2"
  by (auto simp: middle_index_def Let_def) presburger+

lemma middle_index_less: "0 < n \<Longrightarrow> middle_index n < n"
  using middle_index_position [of n] by linarith

lemma SelectCustomer_Some:
  assumes "rows \<noteq> []"
  shows "SelectCustomerFromResultSet rows =
    Some (let r = rows ! middle_index (length rows) in (ParseCustomerFromResult r)\<lparr>tc_id := c_id r, tc_last := c_last r\<rparr>)"
  using assms middle_index_less [of "length rows"] by (simp add: SelectCustomerFromResultSet_def Let_def)

text \<open>\<open>cust\<close> was read from the row \<open>r\<close> of district \<open>(wid, did)\<close>.\<close>

definition read_from :: "int \<Rightarrow> int \<Rightarrow> database \<Rightarrow> TCustomer \<Rightarrow> customer_row \<Rightarrow> bool" where
  "read_from wid did db cust r \<longleftrightarrow> r \<in> set (customer db) \<and> c_key r = (wid, did, tc_id cust) \<and> tc_credit cust = c_credit r"

definition has_customers :: "int \<Rightarrow> int \<Rightarrow> database \<Rightarrow> bool" where
  "has_customers wid did db \<longleftrightarrow> (\<forall>c \<in> {1..CUSTOMERS_PER_DISTRICT}. (wid, did, c) \<in> c_key ` set (customer db))
     \<and> (\<forall>n \<in> {0..999}. \<exists>r \<in> set (customer db). (c_w_id r, c_d_id r) = (wid, did) \<and> GetLastName n = Inr (c_last r))"

lemma LastNameForRun_range:
  assumes "GetNonUniformRandomLastNameForRun s = Some (res, s')"
  shows "\<exists>n \<in> {0..999}. \<exists>x. res = Inr x \<and> GetLastName n = Inr x"
proof -
  obtain n where n: "NonUniformRandom 255 C_LAST_RUN_C 0 999 s = Some (n, s')" "res = GetLastName n"
    using assms by (auto simp: GetNonUniformRandomLastNameForRun_def rnd_bind_def ret_def split: option.splits)
  have "0 \<le> n \<and> n \<le> 999" by (rule NonUniformRandom_range [OF n(1)]) (simp_all add: const_defs)
  then show ?thesis using GetLastName_digits [of n] n(2) by auto
qed

lemma GetRandomCustomerID_range: "GetRandomCustomerID s = Some (i, s') \<Longrightarrow> 1 \<le> i \<and> i \<le> CUSTOMERS_PER_DISTRICT"
  unfolding GetRandomCustomerID_def by (drule NonUniformRandom_range) (simp_all add: const_defs)

text \<open>The statements of the two lookups, whatever the locking clause.\<close>

definition by_last_name :: "(string \<Rightarrow> nat) \<Rightarrow> int \<Rightarrow> int \<Rightarrow> string \<Rightarrow> database \<Rightarrow> customer_row list" where
  "by_last_name weight w d name db = sort_key (\<lambda>r. weight (c_first r))
     (filter (\<lambda>r. c_w_id r = w \<and> c_d_id r = d \<and> c_last r = name) (customer db))"

lemma by_last_name_set [simp]:
  "set (by_last_name weight w d name db) = {r \<in> set (customer db). c_w_id r = w \<and> c_d_id r = d \<and> c_last r = name}"
  by (auto simp: by_last_name_def)

lemma GetCustomersByLastName_eq:
  "GetCustomersByLastName w d name fu world = ExecuteQuery (by_last_name (coll world) w d name) world"
proof -
  have "sem_CustomerSelectByLastName = by_last_name" "sem_CustomerSelectByLastNameForUpdate = by_last_name"
    by (simp_all add: fun_eq_iff sem_CustomerSelectByLastName_def sem_CustomerSelectByLastNameForUpdate_def by_last_name_def)
  then show ?thesis by (simp add: GetCustomersByLastName_def)
qed

lemma GetCustomerById_eq: "GetCustomerById w d c fu = ExecuteQuery (\<lambda>db. sql_where c_key (w, d, c) (customer db))"
  by (simp add: GetCustomerById_def sem_CustomerSelectById_def [abs_def] sem_CustomerSelectByIdForUpdate_def [abs_def])

lemma wp_lookup_by_name:
  assumes a: "at_db F D S w" and n: "n \<in> {0..999}" "GetLastName n = Inr name"
    and err: "\<And>e w'. \<not> F \<Longrightarrow> idle F D w' \<Longrightarrow> Q (Inl e) w'"
    and none: "\<And>db w'. db \<in> S \<Longrightarrow> active F D db w' \<Longrightarrow> stopError w' \<Longrightarrow> \<not> has_customers wid did db \<Longrightarrow> Q (Inr None) w'"
    and some: "\<And>db c r w'. db \<in> S \<Longrightarrow> active F D db w' \<Longrightarrow> read_from wid did db c r \<Longrightarrow> Q (Inr (Some c)) w'"
  shows "wp (tx_bind (GetCustomersByLastName wid did name fu) (\<lambda>rows.
     case SelectCustomerFromResultSet rows of
       None \<Rightarrow> tx_bind RequestStopWithError (\<lambda>_. tx_return None) | Some c \<Rightarrow> tx_return (Some c))) Q w"
    (is "wp (tx_bind _ ?f) Q w")
proof -
  have "wp (tx_bind (ExecuteQuery (by_last_name (coll w) wid did name)) ?f) Q w"
  proof (rule wp_query_at [OF a], rule err, assumption+)
    fix db w' assume db: "db \<in> S" "active F D db w'"
    let ?rows = "by_last_name (coll w) wid did name db"
    show "wp (?f ?rows) Q w'"
    proof (cases "?rows = []")
      case True
      then have "{r \<in> set (customer db). c_w_id r = wid \<and> c_d_id r = did \<and> c_last r = name} = {}"
        using by_last_name_set [of "coll w" wid did name db] by simp
      then have "\<forall>r \<in> set (customer db). (c_w_id r, c_d_id r) = (wid, did) \<longrightarrow> GetLastName n \<noteq> Inr (c_last r)"
        using n(2) by auto
      then have "\<not> has_customers wid did db" using n(1) unfolding has_customers_def by blast
      then have "wp (tx_bind RequestStopWithError (\<lambda>_. tx_return None)) Q w'"
        using db by (intro wp_stop) (auto intro!: none)
      then show ?thesis using True by (simp add: SelectCustomerFromResultSet_def)
    next
      case False
      let ?r = "?rows ! middle_index (length ?rows)"
      have "?r \<in> set ?rows" using False middle_index_less by (intro nth_mem) simp
      then have "read_from wid did db ((ParseCustomerFromResult ?r)\<lparr>tc_id := c_id ?r, tc_last := c_last ?r\<rparr>) ?r"
        by (auto simp: read_from_def c_key_def ParseCustomerFromResult_def)
      then show ?thesis using False db some by (simp add: SelectCustomer_Some Let_def)
    qed
  qed
  then show ?thesis by (simp add: wp_def tx_bind_def GetCustomersByLastName_eq)
qed

lemma wp_lookup_by_id:
  assumes a: "at_db F D S w" and c: "c \<in> {1..CUSTOMERS_PER_DISTRICT}"
    and err: "\<And>e w'. \<not> F \<Longrightarrow> idle F D w' \<Longrightarrow> Q (Inl e) w'"
    and none: "\<And>db w'. db \<in> S \<Longrightarrow> active F D db w' \<Longrightarrow> stopError w' \<Longrightarrow> \<not> has_customers wid did db \<Longrightarrow> Q (Inr None) w'"
    and some: "\<And>db c r w'. db \<in> S \<Longrightarrow> active F D db w' \<Longrightarrow> read_from wid did db c r \<Longrightarrow> Q (Inr (Some c)) w'"
  shows "wp (tx_bind (GetCustomerById wid did c fu) (\<lambda>rows.
     case rows of [] \<Rightarrow> tx_bind RequestStopWithError (\<lambda>_. tx_return None)
     | r # _ \<Rightarrow> tx_return (Some ((ParseCustomerFromResult r)\<lparr>tc_id := c\<rparr>)))) Q w"
  unfolding GetCustomerById_eq
proof (rule wp_query_at [OF a], rule err, assumption+)
  fix db w' assume db: "db \<in> S" "active F D db w'"
  show "wp (case sql_where c_key (wid, did, c) (customer db) of [] \<Rightarrow> tx_bind RequestStopWithError (\<lambda>_. tx_return None)
     | r # _ \<Rightarrow> tx_return (Some ((ParseCustomerFromResult r)\<lparr>tc_id := c\<rparr>))) Q w'"
  proof (cases "sql_where c_key (wid, did, c) (customer db)")
    case Nil
    then have "(wid, did, c) \<notin> c_key ` set (customer db)"
      using sql_where_set [of c_key "(wid, did, c)" "customer db"] by (auto simp del: sql_where_set)
    then have "\<not> has_customers wid did db" using c by (auto simp: has_customers_def)
    then have "wp (tx_bind RequestStopWithError (\<lambda>_. tx_return None)) Q w'"
      using db by (intro wp_stop) (auto intro!: none)
    then show ?thesis using Nil by simp
  next
    case (Cons r rest)
    then have "r \<in> set (customer db)" "c_key r = (wid, did, c)"
      using sql_where_set [of c_key "(wid, did, c)" "customer db"] by (auto simp del: sql_where_set)
    then have "read_from wid did db ((ParseCustomerFromResult r)\<lparr>tc_id := c\<rparr>) r"
      by (simp add: read_from_def ParseCustomerFromResult_def)
    then show ?thesis using Cons db some by simp
  qed
qed

lemma wp_lookup_customer:
  assumes a: "at_db F D S w"
    and err: "\<And>e w'. \<not> F \<Longrightarrow> idle F D w' \<Longrightarrow> Q (Inl e) w'"
    and none: "\<And>db w'. db \<in> S \<Longrightarrow> active F D db w' \<Longrightarrow> stopError w' \<Longrightarrow> \<not> has_customers wid did db \<Longrightarrow> Q (Inr None) w'"
    and some: "\<And>db c r w'. db \<in> S \<Longrightarrow> active F D db w' \<Longrightarrow> read_from wid did db c r \<Longrightarrow> Q (Inr (Some c)) w'"
  shows "wp (lookup_customer wid did byName fu) Q w"
proof (cases byName)
  case True
  show ?thesis unfolding lookup_customer_def if_P [OF True]
  proof (rule wp_drawI)
    fix res s assume "GetNonUniformRandomLastNameForRun (rng w) = Some (res, s)"
    then obtain n name where n: "n \<in> {0..999}" "res = Inr name" "GetLastName n = Inr name"
      using LastNameForRun_range by blast
    show "wp (tx_bind (tx_lift res) (\<lambda>lastName. tx_bind (GetCustomersByLastName wid did lastName fu) (\<lambda>rows.
        case SelectCustomerFromResultSet rows of None \<Rightarrow> tx_bind RequestStopWithError (\<lambda>_. tx_return None)
        | Some c \<Rightarrow> tx_return (Some c)))) Q (w\<lparr>rng := s\<rparr>)"
      unfolding n(2) by (rule wp_bindI, unfold wp_lift sum.case)
        (use a n(1,3) err none some in \<open>auto intro!: wp_lookup_by_name [of F D S]\<close>)
  qed
next
  case False
  show ?thesis unfolding lookup_customer_def if_not_P [OF False]
  proof (rule wp_drawI)
    fix c s assume "GetRandomCustomerID (rng w) = Some (c, s)"
    then have "c \<in> {1..CUSTOMERS_PER_DISTRICT}" using GetRandomCustomerID_range by simp
    then show "wp (tx_bind (GetCustomerById wid did c fu) (\<lambda>rows.
       case rows of [] \<Rightarrow> tx_bind RequestStopWithError (\<lambda>_. tx_return None)
       | r # _ \<Rightarrow> tx_return (Some ((ParseCustomerFromResult r)\<lparr>tc_id := c\<rparr>)))) Q (w\<lparr>rng := s\<rparr>)"
      using a err none some by (intro wp_lookup_by_id [of F D S]) auto
  qed
qed

end
