(* ===== verification/NewOrderTx.thy ===== *)
theory NewOrderTx
  imports CustomerLookup
begin

text \<open>
  The NewOrder transaction against its specification: one order placed directly on the
  tables, without the price and stock caches of the code and without a session.
\<close>

section \<open>Specification\<close>

definition order_row :: "timestamp \<Rightarrow> int \<Rightarrow> int \<Rightarrow> int \<Rightarrow> int \<Rightarrow> int \<Rightarrow> int \<Rightarrow> oorder_row" where
  "order_row ts wid did oid cid n allLocal = \<lparr>o_w_id = wid, o_d_id = did, o_id = oid, o_c_id = cid,
     o_carrier_id = None, o_ol_cnt = n, o_all_local = allLocal, o_entry_d = ts\<rparr>"

definition line_row :: "int \<Rightarrow> int \<Rightarrow> int \<Rightarrow> int \<Rightarrow> int \<times> int \<times> int \<Rightarrow> money \<Rightarrow> string \<Rightarrow> order_line_row" where
  "line_row wid did oid n l price info = (case l of (iid, supw, qty) \<Rightarrow>
     \<lparr>ol_w_id = wid, ol_d_id = did, ol_o_id = oid, ol_number = n, ol_i_id = iid, ol_delivery_d = None,
      ol_amount = qty * price, ol_supply_w_id = supw, ol_quantity = qty, ol_dist_info = info\<rparr>)"

definition take_stock :: "int \<Rightarrow> int \<times> int \<times> int \<Rightarrow> stock_row list \<Rightarrow> stock_row list" where
  "take_stock wid l = (case l of (iid, supw, qty) \<Rightarrow> sql_update s_key (supw, iid) (\<lambda>r. r\<lparr>
     s_quantity := new_quantity (s_quantity r) qty, s_ytd := s_ytd r + qty, s_order_cnt := s_order_cnt r + 1,
     s_remote_cnt := s_remote_cnt r + (if supw = wid then 0 else 1)\<rparr>))"

definition item_of :: "database \<Rightarrow> int \<times> int \<times> int \<Rightarrow> item_row option" where
  "item_of db l = sql_first i_id (fst l) (item db)"

definition stock_of :: "database \<Rightarrow> int \<times> int \<times> int \<Rightarrow> stock_row option" where
  "stock_of db l = sql_first s_key (fst (snd l), fst l) (stock db)"

definition place_line :: "int \<Rightarrow> int \<Rightarrow> int \<Rightarrow> int \<Rightarrow> int \<times> int \<times> int \<Rightarrow> database \<Rightarrow> database" where
  "place_line wid did oid n l db = (case (item_of db l, stock_of db l) of
     (Some it, Some st) \<Rightarrow> db\<lparr>stock := take_stock wid l (stock db),
       order_line := order_line db @ [line_row wid did oid n l (i_price it) (GetDistInfo did st)]\<rparr>
   | _ \<Rightarrow> db)"

fun place_lines :: "int \<Rightarrow> int \<Rightarrow> int \<Rightarrow> int \<Rightarrow> (int \<times> int \<times> int) list \<Rightarrow> database \<Rightarrow> database" where
  "place_lines wid did oid n [] db = db"
| "place_lines wid did oid n (l # ls) db = place_lines wid did oid (n + 1) ls (place_line wid did oid n l db)"

definition order_header :: "timestamp \<Rightarrow> int \<Rightarrow> int \<Rightarrow> int \<Rightarrow> int \<Rightarrow> int \<Rightarrow> int \<Rightarrow> database \<Rightarrow> database" where
  "order_header ts wid did oid cid n allLocal db = db\<lparr>
     district := sql_update d_key (wid, did) (\<lambda>x. x\<lparr>d_next_o_id := d_next_o_id x + 1\<rparr>) (district db),
     oorder := oorder db @ [order_row ts wid did oid cid n allLocal],
     new_order := new_order db @ [\<lparr>no_w_id = wid, no_d_id = did, no_o_id = oid\<rparr>]\<rparr>"

definition new_order_spec ::
  "timestamp \<Rightarrow> int \<Rightarrow> int \<Rightarrow> int \<Rightarrow> (int \<times> int \<times> int) list \<Rightarrow> int \<Rightarrow> database \<Rightarrow> database" where
  "new_order_spec ts wid did cid ls allLocal db = (case sql_first d_key (wid, did) (district db) of
     None \<Rightarrow> db
   | Some dr \<Rightarrow> place_lines wid did (d_next_o_id dr) 1 ls
       (order_header ts wid did (d_next_o_id dr) cid (int (length ls)) allLocal db))"

text \<open>The items and the stock the lines ask for exist.\<close>

definition available :: "(int \<times> int \<times> int) list \<Rightarrow> database \<Rightarrow> bool" where
  "available ls db \<longleftrightarrow> (\<forall>l \<in> set ls. fst l \<noteq> INVALID_ITEM_ID \<and> item_of db l \<noteq> None \<and> stock_of db l \<noteq> None)"

section \<open>Placing lines\<close>

lemma map_s_key_take_stock [simp]: "map s_key (take_stock wid l t) = map s_key t"
  by (cases l) (simp add: take_stock_def s_key_def)

lemma stock_of_place_line:
  "(stock_of (place_line wid did oid n l db) l' = None) = (stock_of db l' = None)"
proof -
  have "s_key ` set (take_stock wid l (stock db)) = s_key ` set (stock db)"
    by (metis map_s_key_take_stock list.set_map)
  then show ?thesis by (simp add: stock_of_def place_line_def sql_first_None split: option.splits)
qed

lemma item_of_place_line [simp]: "item_of (place_line wid did oid n l db) l' = item_of db l'"
  by (simp add: item_of_def place_line_def split: option.splits)

lemma available_place_line: "available ls (place_line wid did oid n l db) = available ls db"
  by (simp add: available_def stock_of_place_line del: not_None_eq)

lemma place_lines_rows:
  assumes "available ls db"
  shows "\<exists>L st. place_lines wid did oid n ls db = db\<lparr>stock := st, order_line := order_line db @ L\<rparr>
     \<and> map s_key st = map s_key (stock db) \<and> map ol_number L = [n..n + int (length ls) - 1]
     \<and> (\<forall>l \<in> set L. ol_order l = (wid, did, oid) \<and> ol_delivery_d l = None)"
  using assms
proof (induction ls arbitrary: n db)
  case Nil
  show ?case by (intro exI [of _ "[]"] exI [of _ "stock db"]) simp
next
  case (Cons l ls)
  obtain it st0 where s: "item_of db l = Some it" "stock_of db l = Some st0"
    using Cons.prems by (auto simp: available_def)
  let ?r = "line_row wid did oid n l (i_price it) (GetDistInfo did st0)"
  let ?db = "db\<lparr>stock := take_stock wid l (stock db), order_line := order_line db @ [?r]\<rparr>"
  have p: "place_line wid did oid n l db = ?db" using s by (simp add: place_line_def)
  have "available ls ?db" using Cons.prems p by (metis available_place_line available_def list.set_intros(2))
  from Cons.IH [OF this, of "n + 1"] obtain L st where IH:
    "place_lines wid did oid (n + 1) ls ?db = ?db\<lparr>stock := st, order_line := order_line ?db @ L\<rparr>"
    "map s_key st = map s_key (stock ?db)" "map ol_number L = [n + 1..n + 1 + int (length ls) - 1]"
    "\<forall>l \<in> set L. ol_order l = (wid, did, oid) \<and> ol_delivery_d l = None" by blast
  have r: "ol_number ?r = n" "ol_order ?r = (wid, did, oid)" "ol_delivery_d ?r = None"
    by (simp_all add: line_row_def ol_order_def split: prod.splits)
  have "[n..n + int (length (l # ls)) - 1] = n # [n + 1..n + 1 + int (length ls) - 1]"
    by (simp add: upto_rec1 [of n] add.commute add.left_commute)
  then show ?case
    using IH r p by (intro exI [of _ "?r # L"] exI [of _ st]) (simp add: add.commute)
qed

lemma new_order_spec_consistent:
  assumes c: "consistent db" and ls: "ls \<noteq> []" "available ls db"
  shows "consistent (new_order_spec ts wid did cid ls allLocal db)"
proof (cases "sql_first d_key (wid, did) (district db)")
  case None
  then show ?thesis using c by (simp add: new_order_spec_def)
next
  case (Some dr)
  note dr = sql_first_SomeD [OF Some]
  let ?r = "order_row ts wid did (d_next_o_id dr) cid (int (length ls)) allLocal"
  let ?h = "order_header ts wid did (d_next_o_id dr) cid (int (length ls)) allLocal db"
  have "available ls ?h" using ls(2) by (simp add: available_def item_of_def stock_of_def order_header_def)
  from place_lines_rows [OF this, of wid did "d_next_o_id dr" 1] obtain L st where L:
    "place_lines wid did (d_next_o_id dr) 1 ls ?h = ?h\<lparr>stock := st, order_line := order_line ?h @ L\<rparr>"
    "map s_key st = map s_key (stock db)" "map ol_number L = [1..int (length ls)]"
    "\<forall>l \<in> set L. ol_order l = (wid, did, d_next_o_id dr) \<and> ol_delivery_d l = None"
    by (auto simp: order_header_def)
  have "new_order_spec ts wid did cid ls allLocal db = order_added wid did ?r L st db"
    using Some L(1) by (simp add: new_order_spec_def order_added_def order_header_def order_row_def)
  moreover have "length L = length ls" using arg_cong [OF L(3), of length] by simp
  then have "new_order_rows wid did db ?r L"
    using L(3,4) ls(1) dr by (auto simp: new_order_rows_def order_row_def o_key_def)
  ultimately show ?thesis using order_added_consistent [OF c _ L(2)] by simp
qed

section \<open>The loops of the transaction\<close>

definition price_cache :: "database \<Rightarrow> (int \<rightharpoonup> money) \<Rightarrow> bool" where
  "price_cache db ps \<longleftrightarrow> (\<forall>i p. ps i = Some p \<longrightarrow>
     i \<noteq> INVALID_ITEM_ID \<and> (\<exists>r. sql_first i_id i (item db) = Some r \<and> p = i_price r))"

definition same_stock :: "stock_row \<Rightarrow> stock_row \<Rightarrow> bool" where
  "same_stock r s \<longleftrightarrow> s_quantity r = s_quantity s \<and> (\<forall>d. GetDistInfo d r = GetDistInfo d s)"

definition stock_cache :: "database \<Rightarrow> (int \<times> int \<rightharpoonup> stock_row) \<Rightarrow> bool" where
  "stock_cache db ss \<longleftrightarrow> (\<forall>k s. ss k = Some s \<longrightarrow> (\<exists>r. sql_first s_key k (stock db) = Some r \<and> same_stock r s))"

lemma wp_item_loop:
  assumes "active F D db w" "price_cache db prices"
    and "\<And>e w'. \<not> F \<Longrightarrow> idle F D w' \<Longrightarrow> Q (Inl e) w'"
    and "\<And>ps w'. active F D db w' \<Longrightarrow> price_cache db ps \<Longrightarrow> dom prices \<subseteq> dom ps \<Longrightarrow>
       (\<forall>l \<in> set ls. fst l \<noteq> INVALID_ITEM_ID \<and> item_of db l \<noteq> None \<longrightarrow> fst l \<in> dom ps) \<Longrightarrow> Q (Inr ps) w'"
  shows "wp (item_loop ls prices) Q w"
  using assms(1,2,4)
proof (induction ls arbitrary: prices w)
  case (Cons l ls)
  obtain iid supw qty where l: "l = (iid, supw, qty)" by (cases l)
  show ?case
  proof (cases "iid = INVALID_ITEM_ID")
    case True
    then show ?thesis using Cons.prems by (simp add: l) (rule Cons.IH; simp)
  next
    case False
    let ?ps = "case sql_first i_id iid (item db) of None \<Rightarrow> prices | Some r \<Rightarrow> prices(iid \<mapsto> i_price r)"
    have eq: "(case sem_NewOrderSelectItem iid db of [] \<Rightarrow> prices | r # x \<Rightarrow> prices(iid \<mapsto> i_price r)) = ?ps"
      by (simp add: sem_NewOrderSelectItem_def sql_first_def split: list.splits)
    have pc: "price_cache db ?ps"
      using Cons.prems(2) False by (auto simp: price_cache_def split: option.splits)
    have "wp (tx_bind (ExecuteQuery (sem_NewOrderSelectItem iid))
        (\<lambda>rows. item_loop ls (case rows of [] \<Rightarrow> prices | r # _ \<Rightarrow> prices(iid \<mapsto> i_price r)))) Q w"
    proof (rule wp_query [OF Cons.prems(1)])
      fix w' assume "active F D db w'"
      then have "wp (item_loop ls ?ps) Q w'"
      proof (rule Cons.IH [OF _ pc], goal_cases)
        case (1 ps w')
        then show ?case
          by (intro Cons.prems(3)) (auto simp: l item_of_def split: option.splits if_splits)
      qed
      then show "wp (item_loop ls (case sem_NewOrderSelectItem iid db of [] \<Rightarrow> prices | r # x \<Rightarrow> prices(iid \<mapsto> i_price r))) Q w'"
        by (simp only: eq)
    qed (rule assms(3))
    then show ?thesis using False by (simp add: l)
  qed
qed simp

lemma wp_stock_loop:
  assumes "active F D db w" "stock_cache db stocks"
    and "\<And>e w'. \<not> F \<Longrightarrow> idle F D w' \<Longrightarrow> Q (Inl e) w'"
    and "\<And>ss w'. active F D db w' \<Longrightarrow> stock_cache db ss \<Longrightarrow> dom stocks \<subseteq> dom ss \<Longrightarrow>
       (\<forall>l \<in> set ls. stock_of db l \<noteq> None \<longrightarrow> (fst (snd l), fst l) \<in> dom ss) \<Longrightarrow> Q (Inr ss) w'"
  shows "wp (stock_loop ls stocks) Q w"
  using assms(1,2,4)
proof (induction ls arbitrary: stocks w)
  case (Cons l ls)
  obtain iid supw qty where l: "l = (iid, supw, qty)" by (cases l)
  show ?case
  proof (cases "stocks (supw, iid) = None")
    case False
    then have d: "(supw, iid) \<in> dom stocks" by auto
    have "wp (stock_loop ls stocks) Q w"
    proof (rule Cons.IH [OF Cons.prems(1,2)], goal_cases)
      case (1 ss w')
      then show ?case using d by (intro Cons.prems(3)) (auto simp: l)
    qed
    then show ?thesis using False by (simp add: l)
  next
    case True
    let ?ss = "case sql_first s_key (supw, iid) (stock db) of None \<Rightarrow> stocks | Some r \<Rightarrow> stocks((supw, iid) \<mapsto> r)"
    have eq: "(case sem_NewOrderSelectStockForUpdate supw iid db of [] \<Rightarrow> stocks | r # x \<Rightarrow> stocks((supw, iid) \<mapsto> r)) = ?ss"
      by (simp add: sem_NewOrderSelectStockForUpdate_def sql_first_def split: list.splits)
    have sc: "stock_cache db ?ss"
      using Cons.prems(2) by (auto simp: stock_cache_def same_stock_def split: option.splits)
    have "wp (tx_bind (ExecuteQuery (sem_NewOrderSelectStockForUpdate supw iid))
        (\<lambda>rows. stock_loop ls (case rows of [] \<Rightarrow> stocks | r # _ \<Rightarrow> stocks((supw, iid) \<mapsto> r)))) Q w"
    proof (rule wp_query [OF Cons.prems(1)])
      fix w' assume "active F D db w'"
      then have "wp (stock_loop ls ?ss) Q w'"
      proof (rule Cons.IH [OF _ sc], goal_cases)
        case (1 ss w')
        then show ?case
          by (intro Cons.prems(3)) (auto simp: l stock_of_def split: option.splits if_splits)
      qed
      then show "wp (stock_loop ls (case sem_NewOrderSelectStockForUpdate supw iid db of [] \<Rightarrow> stocks | r # x \<Rightarrow> stocks((supw, iid) \<mapsto> r))) Q w'"
        by (simp only: eq)
    qed (rule assms(3))
    then show ?thesis using True by (simp add: l)
  qed
qed simp

text \<open>
  The cache the line loop works on stays in step with the tables: the stock row it
  writes is the one \<open>place_line\<close> computes from the table.
\<close>

lemma GetDistInfo_quantity [simp]:
  "GetDistInfo d (r\<lparr>s_quantity := q\<rparr>) = GetDistInfo d r"
  "GetDistInfo d (r\<lparr>s_ytd := y\<rparr>) = GetDistInfo d r"
  "GetDistInfo d (r\<lparr>s_order_cnt := a\<rparr>) = GetDistInfo d r"
  "GetDistInfo d (r\<lparr>s_remote_cnt := b\<rparr>) = GetDistInfo d r"
  by (simp_all add: GetDistInfo_def)

lemma update_stock_take:
  assumes "distinct (map s_key (stock db))" "stock_of db (iid, supw, qty) = Some r"
  shows "sem_NewOrderUpdateStock (new_quantity (s_quantity r) qty) qty (if supw = wid then 0 else 1) supw iid db
     = Inr (db\<lparr>stock := take_stock wid (iid, supw, qty) (stock db)\<rparr>)"
proof -
  have r: "r \<in> set (stock db)" "s_key r = (supw, iid)"
    using sql_first_SomeD [of s_key "(supw, iid)" "stock db" r] assms(2) by (auto simp: stock_of_def)
  have "x = r" if "x \<in> set (stock db)" "s_key x = (supw, iid)" for x
    using that r assms(1) by (auto simp: distinct_map inj_on_def)
  then have "sql_update s_key (supw, iid) (\<lambda>x. x\<lparr>s_quantity := new_quantity (s_quantity r) qty, s_ytd := s_ytd x + qty,
        s_order_cnt := s_order_cnt x + 1, s_remote_cnt := s_remote_cnt x + (if supw = wid then 0 else 1)\<rparr>) (stock db)
     = take_stock wid (iid, supw, qty) (stock db)"
    unfolding take_stock_def prod.case by (intro sql_update_cong) auto
  then show ?thesis by (simp add: sem_NewOrderUpdateStock_def)
qed

lemma stock_cache_step:
  assumes "stock_cache db ss" "stock_of db (iid, supw, qty) = Some r" "same_stock r s0"
    and "stock db' = take_stock wid (iid, supw, qty) (stock db)"
  shows "stock_cache db' (ss((supw, iid) \<mapsto> s0\<lparr>s_quantity := new_quantity (s_quantity s0) qty\<rparr>))"
proof -
  let ?f = "\<lambda>x. x\<lparr>s_quantity := new_quantity (s_quantity x) qty, s_ytd := s_ytd x + qty, s_order_cnt := s_order_cnt x + 1,
     s_remote_cnt := s_remote_cnt x + (if supw = wid then 0 else 1)\<rparr>"
  have first: "sql_first s_key k (stock db') = map_option (\<lambda>x. if s_key x = (supw, iid) then ?f x else x) (sql_first s_key k (stock db))" for k
    unfolding assms(4) take_stock_def by (simp add: sql_first_update s_key_def)
  have r: "s_key r = (supw, iid)" "sql_first s_key (supw, iid) (stock db) = Some r"
    using sql_first_SomeD [of s_key "(supw, iid)" "stock db" r] assms(2) by (auto simp: stock_of_def)
  show ?thesis unfolding stock_cache_def
  proof (intro allI impI)
    fix k s assume "(ss((supw, iid) \<mapsto> s0\<lparr>s_quantity := new_quantity (s_quantity s0) qty\<rparr>)) k = Some s"
    then consider "k = (supw, iid)" "s = s0\<lparr>s_quantity := new_quantity (s_quantity s0) qty\<rparr>"
      | "k \<noteq> (supw, iid)" "ss k = Some s" by (auto split: if_splits)
    then show "\<exists>r. sql_first s_key k (stock db') = Some r \<and> same_stock r s"
    proof cases
      case 1
      then show ?thesis using r assms(3) by (simp add: first same_stock_def)
    next
      case 2
      then obtain x where x: "sql_first s_key k (stock db) = Some x" "same_stock x s"
        using assms(1) unfolding stock_cache_def by blast
      moreover have "s_key x \<noteq> (supw, iid)" using sql_first_SomeD [OF x(1)] 2(1) by simp
      ultimately show ?thesis by (simp add: first)
    qed
  qed
qed

definition cached :: "(int \<rightharpoonup> money) \<Rightarrow> (int \<times> int \<rightharpoonup> stock_row) \<Rightarrow> int \<times> int \<times> int \<Rightarrow> bool" where
  "cached prices stocks l \<longleftrightarrow> fst l \<in> dom prices \<and> (fst (snd l), fst l) \<in> dom stocks"

lemma cached_update: "cached prices stocks l \<Longrightarrow> cached prices (stocks(k \<mapsto> s)) l"
  by (auto simp: cached_def)

lemma wp_line_loop:
  assumes "active F D db w" "price_cache db prices" "stock_cache db stocks" "distinct (map s_key (stock db))"
    and "\<forall>r \<in> set (order_line db). ol_order r = (wid, did, oid) \<longrightarrow> ol_number r < n"
    and err: "\<And>e w'. \<not> F \<Longrightarrow> idle F D w' \<Longrightarrow> Q (Inl e) w'"
    and stop: "\<And>db' w'. active F D db' w' \<Longrightarrow> stopError w' \<Longrightarrow> \<not> (\<forall>l \<in> set ls. cached prices stocks l) \<Longrightarrow> Q (Inr False) w'"
    and ok: "\<And>w'. active F D (place_lines wid did oid n ls db) w' \<Longrightarrow> available ls db \<Longrightarrow> Q (Inr True) w'"
  shows "wp (line_loop wid did oid prices n ls stocks) Q w"
  using assms(1-5) stop ok
proof (induction ls arbitrary: n db w stocks)
  case (Cons l ls)
  obtain iid supw qty where l: "l = (iid, supw, qty)" by (cases l)
  show ?case
  proof (cases "cached prices stocks l")
    case False
    have "wp (tx_bind RequestStopWithError (\<lambda>_. tx_return False)) Q w"
      using Cons.prems(1) False by (intro wp_stop) (auto intro!: Cons.prems(6))
    then show ?thesis using False by (auto simp: l cached_def split: option.splits)
  next
    case True
    then obtain p s0 where ps: "prices iid = Some p" "stocks (supw, iid) = Some s0"
      by (auto simp: l cached_def)
    obtain it where it: "item_of db l = Some it" "p = i_price it" "iid \<noteq> INVALID_ITEM_ID"
      using Cons.prems(2) ps(1) by (auto simp: price_cache_def item_of_def l)
    obtain r where r: "stock_of db l = Some r" "same_stock r s0"
      using Cons.prems(3) ps(2) unfolding stock_cache_def stock_of_def l by (metis fst_conv snd_conv)
    let ?s1 = "s0\<lparr>s_quantity := new_quantity (s_quantity s0) qty\<rparr>"
    let ?db1 = "db\<lparr>stock := take_stock wid l (stock db)\<rparr>"
    let ?row = "line_row wid did oid n l (i_price it) (GetDistInfo did r)"
    let ?db2 = "place_line wid did oid n l db"
    have db2: "?db2 = ?db1\<lparr>order_line := order_line db @ [?row]\<rparr>"
      using it(1) r(1) by (simp add: place_line_def)
    have q: "s_quantity s0 = s_quantity r" "GetDistInfo did ?s1 = GetDistInfo did r"
      using r(2) by (simp_all add: same_stock_def)
    have upd: "sem_NewOrderUpdateStock (s_quantity ?s1) qty (if supw = wid then 0 else 1) supw iid db = Inr ?db1"
      using update_stock_take [OF Cons.prems(4), of iid supw qty r wid] r(1) q(1) by (simp add: l)
    have "ol_key ?row \<notin> ol_key ` set (order_line db)"
      using Cons.prems(5) by (force simp: ol_key_def ol_order_def line_row_def l)
    then have ins: "sem_NewOrderInsertOrderLine wid did oid n iid (qty * p) supw qty (GetDistInfo did ?s1) ?db1 = Inr ?db2"
      using q(2) it(2) unfolding db2 by (simp add: sem_NewOrderInsertOrderLine_def sql_insert_def line_row_def l)
    have av: "available ls ?db2 = available ls db" by (rule available_place_line)
    have next_wp: "wp (line_loop wid did oid prices (n + 1) ls (stocks((supw, iid) \<mapsto> ?s1))) Q w'"
      if "active F D ?db2 w'" for w'
    proof (rule Cons.IH [OF that], goal_cases)
      case 1
      show ?case using Cons.prems(2) by (simp add: price_cache_def db2)
    next
      case 2
      show ?case by (rule stock_cache_step [where wid = wid, OF Cons.prems(3) _ r(2)]) (use r(1) db2 in \<open>simp_all add: l\<close>)
    next
      case 3
      show ?case using Cons.prems(4) by (simp add: db2)
    next
      case 4
      show ?case using Cons.prems(5) db2 by (auto simp: line_row_def l)
    next
      case (5 db' w'')
      then have "\<not> (\<forall>l \<in> set (l # ls). cached prices stocks l)"
        using cached_update by (metis list.set_intros(2))
      then show ?case by (rule Cons.prems(6) [OF 5(1,2)])
    next
      case (6 w'')
      then show ?case using it r av by (intro Cons.prems(7)) (auto simp: available_def l)
    qed
    have "wp (tx_bind (ExecuteModify (sem_NewOrderUpdateStock (s_quantity ?s1) qty (if supw = wid then 0 else 1) supw iid)) (\<lambda>_.
        tx_bind (ExecuteModify (sem_NewOrderInsertOrderLine wid did oid n iid (qty * p) supw qty (GetDistInfo did ?s1))) (\<lambda>_.
        line_loop wid did oid prices (n + 1) ls (stocks((supw, iid) \<mapsto> ?s1))))) Q w"
    proof (rule wp_modify [OF Cons.prems(1)], goal_cases)
      case (1 e w')
      then show ?case using upd err by auto
    next
      case (2 db' w')
      then have "active F D ?db1 w'" using upd by simp
      then show ?case
      proof (rule wp_modify, goal_cases)
        case (1 e w')
        then show ?case using ins err by auto
      next
        case (2 db' w')
        then show ?case using ins next_wp by simp
      qed
    qed
    then show ?thesis by (simp add: l ps Let_def)
  qed
qed (simp add: available_def)

section \<open>The transaction\<close>

definition new_order_eff :: "int \<Rightarrow> int \<Rightarrow> int \<Rightarrow> (int \<times> int \<times> int) list \<Rightarrow> int \<Rightarrow> database \<Rightarrow> database \<Rightarrow> bool" where
  "new_order_eff wid did cid ls allLocal db db' \<longleftrightarrow> ls \<noteq> [] \<and> available ls db
     \<and> (wid, did) \<in> d_key ` set (district db) \<and> (\<exists>ts. db' = new_order_spec ts wid did cid ls allLocal db)"

definition new_order_data :: "int \<Rightarrow> int \<Rightarrow> (int \<times> int \<times> int) list \<Rightarrow> database \<Rightarrow> bool" where
  "new_order_data wid did ls db \<longleftrightarrow> (wid, did) \<in> d_key ` set (district db) \<and> available ls db"

lemma available_header [simp]: "available ls (order_header ts wid did oid cid n al db) = available ls db"
  by (simp add: available_def item_of_def stock_of_def order_header_def)

lemma wp_new_order_body:
  assumes a: "active F D hdr w" and db: "db \<in> D" "consistent db" "ls \<noteq> []"
    and dr: "sql_first d_key (wid, did) (district db) = Some dr" "oid = d_next_o_id dr"
    and hdr: "hdr = order_header ts wid did oid cid (int (length ls)) al db"
    and P: "hasInvalidItem \<or> (\<forall>db. P db \<longrightarrow> new_order_data wid did ls db)" and E: "hasInvalidItem \<longrightarrow> UserAborted \<in> E"
  shows "wp (new_order_body wid did oid ls hasInvalidItem)
     (tx_outcome F P E (new_order_eff wid did cid ls al) D) w"
proof -
  let ?Q = "tx_outcome F P E (new_order_eff wid did cid ls al) D"
  have keys: "distinct (map s_key (stock hdr))" "item hdr = item db" "order_line hdr = order_line db"
    using consistentD(1) [OF db(2)] by (simp_all add: hdr order_header_def keys_ok_def)
  have "new_order_rows wid did db (order_row ts wid did oid cid 1 al)
      [line_row wid did oid 1 (hd ls) 0 []]"
    using sql_first_SomeD [OF dr(1)] dr(2)
    by (auto simp: new_order_rows_def order_row_def line_row_def o_key_def ol_order_def split: prod.splits)
  from new_order_fresh(3) [OF db(2) this]
  have fresh: "\<forall>r \<in> set (order_line hdr). ol_order r = (wid, did, oid) \<longrightarrow> ol_number r < 1"
    by (auto simp: keys(3) order_row_def o_key_def image_iff)
  have spec: "place_lines wid did oid 1 ls hdr = new_order_spec ts wid did cid ls al db"
    using dr by (simp add: new_order_spec_def hdr)
  have avail: "available ls hdr = available ls db" by (simp add: hdr)
  show ?thesis unfolding new_order_body_def
  proof (rule wp_bindI, rule wp_item_loop [OF a], goal_cases)
    case 1
    show ?case by (simp add: price_cache_def)
  next
    case (2 e w')
    then show ?case by simp
  next
    case (3 ps w1)
    note ps = 3
    show ?case
    proof (cases hasInvalidItem)
      case True
      have "wp (tx_bind Rollback (\<lambda>_. tx_throw UserAborted)) ?Q w1"
        using True E by (intro wp_rollback [OF ps(1)]) (auto intro: tx_outcome_error)
      then show ?thesis using True by simp
    next
      case False
      have "wp (tx_bind (stock_loop ls Map.empty) (\<lambda>stocks. tx_bind (line_loop wid did oid ps 1 ls stocks)
          (\<lambda>ok. if ok then tx_bind Commit (\<lambda>_. tx_return True) else tx_return False))) ?Q w1"
      proof (rule wp_bindI, rule wp_stock_loop [OF ps(1)], goal_cases)
        case 1
        show ?case by (simp add: stock_cache_def)
      next
        case (2 e w')
        then show ?case by simp
      next
        case (3 ss w2)
        have "wp (tx_bind (line_loop wid did oid ps 1 ls ss) (\<lambda>ok. if ok then tx_bind Commit (\<lambda>_. tx_return True) else tx_return False)) ?Q w2"
        proof (rule wp_bindI, rule wp_line_loop [OF 3(1) ps(2) 3(2) keys(1) fresh], goal_cases)
          case (1 e w')
          then show ?case by simp
        next
          case (2 db' w')
          then have "\<not> available ls hdr" using ps(4) 3(4) by (auto simp: cached_def available_def)
          then have "\<not> (\<forall>db \<in> D. P db)" using P False db(1) avail by (auto simp: new_order_data_def)
          then show ?case using 2 by (auto intro!: tx_outcome_stop)
        next
          case (3 w')
          then have "new_order_eff wid did cid ls al db (place_lines wid did oid 1 ls hdr)"
            using db(3) avail spec sql_first_SomeD [OF dr(1)] by (force simp: new_order_eff_def image_iff)
          then show ?case using 3(1) db(1) by (simp add: wp_commit_outcome)
        qed
        then show ?case by simp
      qed
      then show ?thesis using False by simp
    qed
  qed
qed

lemma wp_new_order_tx:
  assumes i: "idle F D w" and D: "D \<subseteq> Collect consistent" and ls: "ls \<noteq> []"
    and P: "\<forall>db. P db \<longrightarrow> (wid, did) \<in> d_key ` set (district db)"
    and P': "hasInvalidItem \<or> (\<forall>db. P db \<longrightarrow> available ls db)" and E: "hasInvalidItem \<longrightarrow> UserAborted \<in> E"
  shows "wp (new_order_tx wid did cid ls al hasInvalidItem) (tx_outcome F P E (new_order_eff wid did cid ls al) D) w"
  unfolding new_order_tx_def
proof (rule wp_query_idle [OF i], goal_cases)
  case (2 db w1)
  have c: "consistent db" using D 2(1) by auto
  show ?case
  proof (rule wp_query [OF 2(2)], goal_cases)
    case (2 w2)
    show ?case
    proof (rule wp_query [OF 2], goal_cases)
      case (2 w3)
      show ?case
      proof (cases "sem_NewOrderSelectDistrictForUpdate wid did db")
        case Nil
        then have "(wid, did) \<notin> d_key ` set (district db)"
          using sql_first_None [of d_key "(wid, did)" "district db"]
          by (simp add: sem_NewOrderSelectDistrictForUpdate_def sql_first_def)
        then have "\<not> (\<forall>db \<in> D. P db)" using P \<open>db \<in> D\<close> by auto
        then show ?thesis using wp_stop_false [OF 2] Nil by simp
      next
        case (Cons dr rest)
        then have dr: "sql_first d_key (wid, did) (district db) = Some dr"
          by (simp add: sem_NewOrderSelectDistrictForUpdate_def sql_first_def)
        let ?oid = "d_next_o_id dr"
        have "new_order_rows wid did db (order_row 0 wid did ?oid cid 1 al) [line_row wid did ?oid 1 (hd ls) 0 []]"
          using sql_first_SomeD [OF dr]
          by (auto simp: new_order_rows_def order_row_def line_row_def o_key_def ol_order_def split: prod.splits)
        from new_order_fresh(1,2) [OF c this]
        have fresh: "(wid, did, ?oid) \<notin> o_key ` set (oorder db)" "(wid, did, ?oid) \<notin> no_key ` set (new_order db)"
          by (simp_all add: order_row_def o_key_def)
        let ?db1 = "db\<lparr>district := sql_update d_key (wid, did) (\<lambda>r. r\<lparr>d_next_o_id := d_next_o_id r + 1\<rparr>) (district db)\<rparr>"
        let ?db2 = "\<lambda>ts. ?db1\<lparr>oorder := oorder db @ [order_row ts wid did ?oid cid (int (length ls)) al]\<rparr>"
        have upd: "sem_NewOrderUpdateDistrict wid did db = Inr ?db1" by (simp add: sem_NewOrderUpdateDistrict_def)
        have ins: "sem_NewOrderInsertOorder ts wid did ?oid cid (int (length ls)) al ?db1 = Inr (?db2 ts)" for ts
          using fresh(1) by (simp add: sem_NewOrderInsertOorder_def sql_insert_def order_row_def o_key_def)
        have ins2: "sem_NewOrderInsertNewOrder wid did ?oid (?db2 ts)
            = Inr (order_header ts wid did ?oid cid (int (length ls)) al db)" for ts
          using fresh(2) by (simp add: sem_NewOrderInsertNewOrder_def sql_insert_def order_header_def no_key_def)
        have "wp (tx_bind (ExecuteModify (sem_NewOrderUpdateDistrict wid did)) (\<lambda>_.
            tx_bind (\<lambda>w. ExecuteModify (sem_NewOrderInsertOorder (now w) wid did ?oid cid (int (length ls)) al) w) (\<lambda>_.
            tx_bind (ExecuteModify (sem_NewOrderInsertNewOrder wid did ?oid)) (\<lambda>_.
            new_order_body wid did ?oid ls hasInvalidItem)))) (tx_outcome F P E (new_order_eff wid did cid ls al) D) w3"
        proof (rule wp_modify [OF 2], goal_cases)
          case (2 db' w4)
          then have "active F D ?db1 w4" using upd by simp
          then show ?case
          proof (rule wp_modify_now, goal_cases)
            case (2 db' w5)
            then have "active F D (?db2 (now w4)) w5" using ins by simp
            then show ?case
            proof (rule wp_modify, goal_cases)
              case (2 db' w6)
              then have a: "active F D (order_header (now w4) wid did ?oid cid (int (length ls)) al db) w6"
                using ins2 by simp
              show ?case
                by (rule wp_new_order_body [OF a \<open>db \<in> D\<close> c ls dr refl refl])
                  (use P P' E in \<open>auto simp: new_order_data_def\<close>)
            qed (use ins2 in auto)
          qed (use ins in auto)
        qed (use upd in auto)
        then show ?thesis using Cons by (simp add: Let_def)
      qed
    qed simp
  qed simp
qed simp

section \<open>The random order\<close>

lemma other_warehouse_range:
  assumes "other_warehouse own cnt s = Some (x, s')" "1 \<le> cnt" "cnt < 2 ^ 31"
  shows "1 \<le> x \<and> x \<le> cnt \<and> (1 < cnt \<longrightarrow> x \<noteq> own)"
proof -
  have "1 \<le> cnt \<longrightarrow> cnt < 2 ^ 31 \<longrightarrow> 1 \<le> fst r \<and> fst r \<le> cnt \<and> (1 < cnt \<longrightarrow> fst r \<noteq> own)"
    if "other_warehouse own cnt s = Some r" for r
  proof (rule other_warehouse.raw_induct [where P =
      "\<lambda>own cnt s r. 1 \<le> cnt \<longrightarrow> cnt < 2 ^ 31 \<longrightarrow> 1 \<le> fst r \<and> fst r \<le> cnt \<and> (1 < cnt \<longrightarrow> fst r \<noteq> own)", OF _ that])
    fix ow own cnt s r
    assume IH: "\<And>own cnt s r. ow own cnt s = Some r \<Longrightarrow> 1 \<le> cnt \<longrightarrow> cnt < 2 ^ 31 \<longrightarrow>
        1 \<le> fst r \<and> fst r \<le> cnt \<and> (1 < cnt \<longrightarrow> fst r \<noteq> own)"
      and step: "(case RandomInt 1 cnt s of None \<Rightarrow> None
        | Some (x, s') \<Rightarrow> if x = own \<and> 1 < cnt then ow own cnt s' else Some (x, s')) = Some r"
    obtain x s' where x: "RandomInt 1 cnt s = Some (x, s')" using step by (auto split: option.splits)
    show "1 \<le> cnt \<longrightarrow> cnt < 2 ^ 31 \<longrightarrow> 1 \<le> fst r \<and> fst r \<le> cnt \<and> (1 < cnt \<longrightarrow> fst r \<noteq> own)"
      using step x RandomInt_range [OF x] IH [of own cnt s' r] by (auto split: if_splits)
  qed
  then show ?thesis using assms by auto
qed

definition valid_line :: "int \<Rightarrow> int \<times> int \<times> int \<Rightarrow> bool" where
  "valid_line cnt l \<longleftrightarrow> fst l \<in> {1..ITEM_COUNT} \<and> fst (snd l) \<in> {1..cnt} \<and> snd (snd l) \<in> {1..10}"

lemma GetRandomItemID_range: "GetRandomItemID s = Some (i, s') \<Longrightarrow> 1 \<le> i \<and> i \<le> ITEM_COUNT"
  unfolding GetRandomItemID_def by (drule NonUniformRandom_range) (simp_all add: const_defs)

lemma gen_lines_valid:
  assumes "gen_lines own cnt n s = Some ((ls, al), s')" "1 \<le> own" "own \<le> cnt" "cnt < 2 ^ 31"
  shows "length ls = n \<and> (\<forall>l \<in> set ls. valid_line cnt l) \<and> al \<in> {0, 1}
    \<and> (al = 1 \<longrightarrow> (\<forall>l \<in> set ls. fst (snd l) = own)) \<and> (al = 0 \<and> 1 < cnt \<longrightarrow> (\<exists>l \<in> set ls. fst (snd l) \<noteq> own))"
  using assms(1)
proof (induction n arbitrary: ls al s)
  case 0
  then show ?case by (simp add: ret_def)
next
  case (Suc n)
  from Suc.prems obtain iid s1 p s2 supw s3 qty s4 ls0 al0 where g:
    "GetRandomItemID s = Some (iid, s1)" "RandomInt 1 100 s1 = Some (p, s2)"
    "(if 1 < p then ret own else other_warehouse own cnt) s2 = Some (supw, s3)"
    "RandomInt 1 10 s3 = Some (qty, s4)" "gen_lines own cnt n s4 = Some ((ls0, al0), s')"
    "ls = (iid, supw, qty) # ls0" "al = (if 1 < p then al0 else 0)"
    by (auto simp: rnd_bind_Some ret_def)
  have w: "1 \<le> supw \<and> supw \<le> cnt" "1 < p \<longrightarrow> supw = own" "\<not> 1 < p \<and> 1 < cnt \<longrightarrow> supw \<noteq> own"
    using g(3) other_warehouse_range [of own cnt s2 supw s3] assms(2-4) by (auto simp: ret_def split: if_splits)
  have "1 \<le> qty" "qty \<le> 10" using RandomInt_range [OF g(4)] by simp_all
  then show ?case
    using Suc.IH [OF g(5)] GetRandomItemID_range [OF g(1)] w by (auto simp: g(6,7) valid_line_def)
qed

section \<open>The task\<close>

definition order_lines_ok :: "TTransactionContext \<Rightarrow> (int \<times> int \<times> int) list \<Rightarrow> int \<Rightarrow> bool" where
  "order_lines_ok ctx ls al \<longleftrightarrow> MIN_ITEMS \<le> int (length ls) \<and> int (length ls) \<le> MAX_ITEMS
     \<and> (\<forall>l \<in> set ls. valid_line (WarehouseCount ctx) l)
     \<and> (al = 1 \<longrightarrow> (\<forall>l \<in> set ls. fst (snd l) = WarehouseID ctx))"

definition new_order_task_eff :: "TTransactionContext \<Rightarrow> database \<Rightarrow> database \<Rightarrow> bool" where
  "new_order_task_eff ctx db db' \<longleftrightarrow> (\<exists>did cid ls al. did \<in> {DISTRICT_LOW_ID..DISTRICT_HIGH_ID}
     \<and> cid \<in> {1..CUSTOMERS_PER_DISTRICT} \<and> order_lines_ok ctx ls al
     \<and> new_order_eff (WarehouseID ctx) did cid ls al db db')"

lemma wp_new_order_task:
  assumes ctx: "valid_ctx ctx" and D: "D \<subseteq> Collect consistent" and i: "idle F D w"
  shows "wp (GetNewOrderTask ctx) (tx_outcome F (populated (WarehouseCount ctx)) {UserAborted} (new_order_task_eff ctx) D) w"
  unfolding GetNewOrderTask_def
proof (rule wp_drawI, rule wp_drawI, rule wp_drawI, rule wp_drawI2, rule wp_drawI, goal_cases)
  case (1 did s1 cid s2 n s3 ls al s4 p s5)
  let ?w = "w\<lparr>rng := s1, rng := s2, rng := s3, rng := s4, rng := s5\<rparr>"
  have did: "1 \<le> did" "did \<le> 10" using RandomInt_range [OF 1(1)] by (simp_all add: const_defs)
  have cid: "cid \<in> {1..CUSTOMERS_PER_DISTRICT}" using GetRandomCustomerID_range [OF 1(2)] by simp
  have n: "MIN_ITEMS \<le> n" "n \<le> MAX_ITEMS" using RandomInt_range [OF 1(3)] by (simp_all add: const_defs)
  have g: "gen_lines (WarehouseID ctx) (WarehouseCount ctx) (nat n) s3 = Some ((ls, al), s4)" using 1(4) by simp
  have ls: "order_lines_ok ctx ls al" "ls \<noteq> []"
    using gen_lines_valid [OF g] ctx n by (auto simp: order_lines_ok_def valid_ctx_def const_defs)
  have d: "did \<in> {DISTRICT_LOW_ID..DISTRICT_HIGH_ID}" using did by (simp add: const_defs)
  have av: "available ls db" if "populated (WarehouseCount ctx) db" for db
    using that ls(1) unfolding populated_def order_lines_ok_def available_def valid_line_def item_of_def stock_of_def
    by (auto simp: sql_first_None const_defs)
  let ?ls = "if p = 1 then invalidate_last ls else ls"
  let ?P = "populated (WarehouseCount ctx)"
  have ne: "?ls \<noteq> []" using ls(2) by (simp add: invalidate_last_def)
  have "wp (new_order_tx (WarehouseID ctx) did cid ?ls al (p = 1))
      (tx_outcome F ?P {UserAborted} (new_order_eff (WarehouseID ctx) did cid ?ls al) D) ?w"
    by (rule wp_new_order_tx [OF _ D ne])
      (use i d ctx av in \<open>auto simp: populated_def valid_ctx_def\<close>)
  then have "wp (new_order_tx (WarehouseID ctx) did cid ?ls al (p = 1))
      (tx_outcome F ?P {UserAborted} (new_order_task_eff ctx) D) ?w"
  proof (rule wp_mono, goal_cases)
    case (1 r w')
    show ?case
    proof (rule tx_outcome_mono [OF 1])
      fix db db' assume e: "new_order_eff (WarehouseID ctx) did cid ?ls al db db'"
      then have "p \<noteq> 1" by (auto simp: new_order_eff_def available_def invalidate_last_def split: if_splits)
      then show "new_order_task_eff ctx db db'" using e d cid ls(1) unfolding new_order_task_eff_def by auto
    qed
  qed
  then show ?case by (simp add: Let_def)
qed

lemma new_order_task_consistent:
  "consistent db \<Longrightarrow> new_order_task_eff ctx db db' \<Longrightarrow> consistent db'"
  by (auto simp: new_order_task_eff_def new_order_eff_def new_order_spec_consistent)

lemma new_order_task_static:
  assumes "consistent db" "new_order_task_eff ctx db db'"
  shows "static_part db' = static_part db"
proof -
  obtain did cid ls al ts where e: "available ls db" "db' = new_order_spec ts (WarehouseID ctx) did cid ls al db"
    using assms(2) by (auto simp: new_order_task_eff_def new_order_eff_def)
  show ?thesis
  proof (cases "sql_first d_key (WarehouseID ctx, did) (district db)")
    case None
    then show ?thesis using e(2) by (simp add: new_order_spec_def)
  next
    case (Some dr)
    let ?h = "order_header ts (WarehouseID ctx) did (d_next_o_id dr) cid (int (length ls)) al db"
    have "available ls ?h" using e(1) by simp
    from place_lines_rows [OF this, of "WarehouseID ctx" did "d_next_o_id dr" 1] e(2) Some
    show ?thesis by (auto simp: new_order_spec_def static_part_def order_header_def d_key_def)
  qed
qed

interpretation new_order_task: tx_task GetNewOrderTask "\<lambda>ctx. populated (WarehouseCount ctx)" "{UserAborted}" new_order_task_eff
  using wp_new_order_task new_order_task_consistent new_order_task_static by unfold_locales

section \<open>The transaction returns\<close>

lemma returns_option:
  "returns m \<Longrightarrow> (\<And>x. returns (f x)) \<Longrightarrow> returns (case v of None \<Rightarrow> m | Some x \<Rightarrow> f x)"
  by (simp split: option.split)

lemma returnsE:
  assumes "returns m"
  obtains r w' where "m w = Some (r, w')"
  using assms unfolding returns_def by (cases "m w") (auto simp del: not_None_eq not_Some_eq)

lemma returns_item_loop [returns_rules]: "returns (item_loop ls ps)"
  by (induction ls ps rule: item_loop.induct) (auto intro!: returns_rules)

lemma returns_stock_loop [returns_rules]: "returns (stock_loop ls ss)"
  by (induction ls ss rule: stock_loop.induct) (auto intro!: returns_rules)

lemma returns_line_loop [returns_rules]: "returns (line_loop wid did oid ps n ls ss)"
proof (induction ls arbitrary: n ss)
  case Nil
  show ?case by (simp add: returns_rules)
next
  case (Cons l ls)
  obtain iid supw qty where l: "l = (iid, supw, qty)" by (cases l)
  show ?case
    unfolding l line_loop.simps Let_def
    by (intro returns_option returns_rules Cons.IH)
qed

lemma returns_new_order_tx: "returns (new_order_tx wid did cid ls al hasInvalidItem)"
  unfolding new_order_tx_def new_order_body_def
  by (auto intro!: returns_rules simp: Let_def split: list.splits)

section \<open>Stock levels\<close>

definition stock_in_range :: "database \<Rightarrow> bool" where
  "stock_in_range db \<longleftrightarrow> (\<forall>r \<in> set (stock db). 10 \<le> s_quantity r \<and> s_quantity r \<le> 100)"

lemma new_quantity_range:
  "10 \<le> q \<Longrightarrow> q \<le> 100 \<Longrightarrow> 1 \<le> n \<Longrightarrow> n \<le> 10 \<Longrightarrow> 10 \<le> new_quantity q n \<and> new_quantity q n \<le> 100"
  by (simp add: new_quantity_def)

lemma place_lines_stock_range:
  assumes "stock_in_range db" "\<forall>l \<in> set ls. snd (snd l) \<in> {1..10}"
  shows "stock_in_range (place_lines wid did oid n ls db)"
  using assms
proof (induction wid did oid n ls db rule: place_lines.induct)
  case (2 wid did oid n l ls db)
  have "stock_in_range (place_line wid did oid n l db)"
    using 2(2,3) new_quantity_range
    by (auto simp: stock_in_range_def place_line_def take_stock_def ball_sql_update split: option.splits prod.splits)
  then show ?case using 2 by simp
qed simp

section \<open>Properties\<close>

text \<open>
  (C1) NewOrder refines its specification under any server behaviour: whatever statements fail,
  before or after taking effect, the database committed when the session is released is the
  old one or the one with exactly one complete order placed (5 to 15 valid lines, priced
  from the item table, the stock taken per line); it is consistent; the task returns \<open>true\<close> only when
  the order is placed, and on a populated database without faults it places it or ends with the user abort.
\<close>

theorem new_order_atomic:
  assumes "valid_ctx ctx" "consistent db" "idle F {db} w"
  shows "wp (GetNewOrderTask ctx) (\<lambda>r w'. let db' = committed (ReleaseConnection w') in
     (db' = db \<or> new_order_task_eff ctx db db') \<and> consistent db' \<and> (r = Inr True \<longrightarrow> new_order_task_eff ctx db db')
     \<and> (F \<and> populated (WarehouseCount ctx) db \<longrightarrow> r = Inr True \<or> (\<exists>e \<in> {UserAborted}. r = Inl e))) w"
  by (rule new_order_task.atomic [OF assms])

theorem new_order_atomic_witness:
  "wp (GetNewOrderTask sample_ctx) (\<lambda>r w'. let db' = committed (ReleaseConnection w') in
     (db' = sample_db \<or> new_order_task_eff sample_ctx sample_db db') \<and> consistent db'
     \<and> (r = Inr True \<longrightarrow> new_order_task_eff sample_ctx sample_db db')
     \<and> (False \<and> populated (WarehouseCount sample_ctx) sample_db \<longrightarrow> r = Inr True \<or> (\<exists>e \<in> {UserAborted}. r = Inl e)))
   (sample_world sample_db [NoFault, FailAfter (DbException 1205 [])])"
  by (rule new_order_atomic [OF sample_ctx_valid sample_db_consistent sample_world_idle(1)])

text \<open>
  (C13) Without server faults and with the district, items and stock it names in the database, the
  NewOrder transaction always returns, returns \<open>true\<close>, and has committed the specified order:
  the price and stock caches of the code compute what the specification reads from the tables.
\<close>

theorem new_order_places_order:
  assumes "idle True {db} w" "consistent db" "ls \<noteq> []" "(wid, did) \<in> d_key ` set (district db)" "available ls db"
  shows "\<exists>w'. new_order_tx wid did cid ls allLocal False w = Some (Inr True, w')
     \<and> (\<exists>ts. committed w' = new_order_spec ts wid did cid ls allLocal db) \<and> consistent (committed w')"
proof -
  let ?P = "\<lambda>x. x = db"
  have "wp (new_order_tx wid did cid ls allLocal False) (tx_outcome True ?P {} (new_order_eff wid did cid ls allLocal) {db}) w"
    by (rule wp_new_order_tx [OF assms(1)]) (use assms in auto)
  moreover obtain r w' where r: "new_order_tx wid did cid ls allLocal False w = Some (r, w')"
    by (rule returnsE [OF returns_new_order_tx])
  ultimately have "tx_outcome True ?P {} (new_order_eff wid did cid ls allLocal) {db} r w'" by (rule wpD)
  then have "r = Inr True \<and> new_order_eff wid did cid ls allLocal db (committed w')"
    by (auto simp: tx_outcome_def split: sum.splits bool.splits)
  then show ?thesis
    using r assms(2,3) by (auto simp: new_order_eff_def new_order_spec_consistent)
qed

theorem new_order_places_order_witness:
  "\<exists>w'. new_order_tx 1 1 1 [(1, 1, 4), (1, 1, 2)] 1 False (sample_world sample_db []) = Some (Inr True, w')
     \<and> (\<exists>ts. committed w' = new_order_spec ts 1 1 1 [(1, 1, 4), (1, 1, 2)] 1 sample_db) \<and> consistent (committed w')"
  by (rule new_order_places_order [OF sample_world_idle(2) sample_db_consistent])
     (simp_all add: sample_db_def d_key_def available_def item_of_def stock_of_def sql_first_def sql_where_def s_key_def const_defs)

text \<open>
  (C14) A NewOrder with the invalid item leaves no trace, whatever the server does: it never returns
  normally with \<open>true\<close>, the database stays what it was, and without faults it ends with the user abort.
\<close>

theorem new_order_invalid_item_rolls_back:
  assumes "idle F {db} w" "consistent db" "ls \<noteq> []" "(wid, did) \<in> d_key ` set (district db)"
  shows "\<exists>r w'. new_order_tx wid did cid (invalidate_last ls) allLocal True w = Some (r, w')
     \<and> committed (ReleaseConnection w') = db \<and> r \<noteq> Inr True \<and> (F \<longrightarrow> r = Inl UserAborted)"
proof -
  let ?ls = "invalidate_last ls" and ?P = "\<lambda>x. x = db"
  have ne: "?ls \<noteq> []" using assms(3) by (simp add: invalidate_last_def)
  have none: "\<not> new_order_eff wid did cid ?ls allLocal db db'" for db'
    using assms(3) by (auto simp: new_order_eff_def available_def invalidate_last_def)
  have "wp (new_order_tx wid did cid ?ls allLocal True) (tx_outcome F ?P {UserAborted} (new_order_eff wid did cid ?ls allLocal) {db}) w"
    by (rule wp_new_order_tx [OF assms(1) _ ne]) (use assms in auto)
  moreover obtain r w' where r: "new_order_tx wid did cid ?ls allLocal True w = Some (r, w')"
    by (rule returnsE [OF returns_new_order_tx])
  ultimately have o: "tx_outcome F ?P {UserAborted} (new_order_eff wid did cid ?ls allLocal) {db} r w'" by (rule wpD)
  then obtain e where e: "r = Inl e" "idle F {db} w'" "F \<longrightarrow> e = UserAborted"
    using none by (auto simp: tx_outcome_def results_def split: sum.splits bool.splits)
  then have "committed (ReleaseConnection w') = db" using ReleaseConnection_idle(1) [OF e(2)] by (simp add: idle_def)
  then show ?thesis using r e by auto
qed

theorem new_order_invalid_item_rolls_back_witness:
  "\<exists>r w'. new_order_tx 1 1 1 (invalidate_last [(1, 1, 4)]) 1 True (sample_world sample_db []) = Some (r, w')
     \<and> committed (ReleaseConnection w') = sample_db \<and> r \<noteq> Inr True \<and> (True \<longrightarrow> r = Inl UserAborted)"
  by (rule new_order_invalid_item_rolls_back [OF sample_world_idle(2) sample_db_consistent])
     (simp_all add: sample_db_def d_key_def)

text \<open>
  (C21) Stock levels stay between 10 and 100: the refill rule of NewOrder keeps every stock row in
  that range, for every order the task can place.
\<close>

theorem stock_stays_in_range:
  assumes "stock_in_range db" "new_order_task_eff ctx db db'"
  shows "stock_in_range db'"
proof -
  obtain did cid ls al ts where e: "order_lines_ok ctx ls al" "db' = new_order_spec ts (WarehouseID ctx) did cid ls al db"
    using assms(2) by (auto simp: new_order_task_eff_def new_order_eff_def)
  have "\<forall>l \<in> set ls. snd (snd l) \<in> {1..10}" using e(1) by (auto simp: order_lines_ok_def valid_line_def)
  moreover have "stock_in_range (order_header ts w d oid c n al db) = stock_in_range db" for ts w d oid c n al
    by (simp add: stock_in_range_def order_header_def)
  ultimately show ?thesis
    using assms(1) e(2) by (auto simp: new_order_spec_def place_lines_stock_range split: option.splits)
qed

theorem stock_stays_in_range_witness:
  "stock_in_range (new_order_spec 7 1 1 1 (replicate 5 (1, 1, 9)) 1 sample_db)"
proof (rule stock_stays_in_range [of sample_db sample_ctx])
  show "stock_in_range sample_db" by (simp add: stock_in_range_def sample_db_def)
  have "order_lines_ok sample_ctx (replicate 5 (1, 1, 9)) 1"
    by (simp add: order_lines_ok_def valid_line_def sample_ctx_def const_defs)
  moreover have "new_order_eff 1 1 1 (replicate 5 (1, 1, 9)) 1 sample_db (new_order_spec 7 1 1 1 (replicate 5 (1, 1, 9)) 1 sample_db)"
    by (auto simp: new_order_eff_def available_def item_of_def stock_of_def sql_first_def sql_where_def s_key_def sample_db_def
        d_key_def const_defs)
  ultimately show "new_order_task_eff sample_ctx sample_db (new_order_spec 7 1 1 1 (replicate 5 (1, 1, 9)) 1 sample_db)"
    unfolding new_order_task_eff_def
    by (intro exI [of _ 1] exI [of _ "replicate 5 (1, 1, 9)"] conjI) (simp_all add: const_defs sample_ctx_def)
qed

text \<open>
  The generated lines name existing items, warehouses and quantities from 1 to 10, and with
  more than one warehouse \<open>allLocal\<close> is 1 exactly when every line is supplied by the home warehouse.
\<close>

theorem all_local_correct:
  assumes "gen_lines own cnt n s = Some ((ls, al), s')" "1 \<le> own" "own \<le> cnt" "1 < cnt" "cnt < 2 ^ 31"
  shows "length ls = n \<and> (\<forall>l \<in> set ls. valid_line cnt l)
    \<and> al \<in> {0, 1} \<and> (al = 1 \<longleftrightarrow> (\<forall>l \<in> set ls. fst (snd l) = own))"
  using gen_lines_valid [OF assms(1-3,5)] assms(4) by auto

theorem all_local_correct_witness:
  "gen_lines 2 7 1 1 = Some (([(77286, 2, 4)], 1), 2306758490171379329) \<and> valid_line 7 (77286, 2, 4)"
proof -
  have "GetRandomItemID 1 = Some (77286, 1126174793148417)"
    "RandomInt 1 100 1126174793148417 = Some (73, 3659449627584515)"
    "RandomInt 1 10 3659449627584515 = Some (4, 2306758490171379329)"
    by code_simp+
  then have g: "gen_lines 2 7 1 1 = Some (([(77286, 2, 4)], 1), 2306758490171379329)"
    by (simp add: rnd_bind_def ret_def)
  then show ?thesis using all_local_correct [OF g] by simp
qed

end
