(* ===== verification/PaymentTx.thy ===== *)
theory PaymentTx
  imports CustomerLookup NewOrderTx
begin

text \<open>
  Payment and the transactions that only read (OrderStatus, StockLevel, the simulated one)
  against their specifications.
\<close>

section \<open>Payment\<close>

text \<open>\<open>C_DATA\<close> after a payment: only bad-credit customers get the payment prepended.\<close>

definition new_c_data :: "int \<Rightarrow> int \<Rightarrow> money \<Rightarrow> customer_row \<Rightarrow> string" where
  "new_c_data wid did amount r = (if c_credit r = ''BC''
     then bc_data (c_id r) (c_d_id r) (c_w_id r) did wid amount (c_data r) else c_data r)"

definition history_of ::
  "timestamp \<Rightarrow> int \<Rightarrow> int \<Rightarrow> int \<times> int \<times> int \<Rightarrow> money \<Rightarrow> string \<Rightarrow> history_row" where
  "history_of ts wid did c amount info = (case c of (cw, cd, ci) \<Rightarrow>
     \<lparr>h_c_id = ci, h_c_d_id = cd, h_c_w_id = cw, h_d_id = did, h_w_id = wid, h_date = ts, h_amount = amount, h_data = info\<rparr>)"

definition payment_eff :: "int \<Rightarrow> int \<Rightarrow> int \<Rightarrow> int \<Rightarrow> money \<Rightarrow> database \<Rightarrow> database \<Rightarrow> bool" where
  "payment_eff wid did cwid cdid amount db db' \<longleftrightarrow> (\<exists>wr dr cr ts.
     sql_first w_id wid (warehouse db) = Some wr \<and> sql_first d_key (wid, did) (district db) = Some dr
     \<and> cr \<in> set (customer db) \<and> (c_w_id cr, c_d_id cr) = (cwid, cdid)
     \<and> db' = payment_made wid did (c_key cr) amount (new_c_data wid did amount)
         (history_of ts wid did (c_key cr) amount (history_data (w_name wr) (d_name dr))) db)"

definition payment_task_eff :: "TTransactionContext \<Rightarrow> database \<Rightarrow> database \<Rightarrow> bool" where
  "payment_task_eff ctx db db' \<longleftrightarrow> (\<exists>did cwid cdid amount. did \<in> {DISTRICT_LOW_ID..DISTRICT_HIGH_ID}
     \<and> cdid \<in> {DISTRICT_LOW_ID..DISTRICT_HIGH_ID} \<and> cwid \<in> {1..WarehouseCount ctx} \<and> amount \<in> {100..500000}
     \<and> payment_eff (WarehouseID ctx) did cwid cdid amount db db')"

lemma payment_task_consistent:
  assumes "consistent db" "payment_task_eff ctx db db'"
  shows "consistent db'"
proof -
  obtain did cwid cdid amount where "payment_eff (WarehouseID ctx) did cwid cdid amount db db'"
    using assms(2) by (auto simp: payment_task_eff_def)
  then obtain dr cr ts info where e: "sql_first d_key (WarehouseID ctx, did) (district db) = Some dr"
    "db' = payment_made (WarehouseID ctx) did (c_key cr) amount (new_c_data (WarehouseID ctx) did amount)
       (history_of ts (WarehouseID ctx) did (c_key cr) amount info) db"
    unfolding payment_eff_def by blast
  have "(WarehouseID ctx, did) \<in> d_key ` set (district db)" using sql_first_SomeD [OF e(1)] by force
  moreover have "payment_row (WarehouseID ctx) did (c_key cr) amount (history_of ts (WarehouseID ctx) did (c_key cr) amount info)"
    by (simp add: payment_row_def history_of_def h_cust_def split: prod.splits)
  ultimately show ?thesis using payment_consistent [OF assms(1)] e(2) by simp
qed

text \<open>The update of the customer, with or without new \<open>C_DATA\<close>, is one update of its row.\<close>

definition pay_row :: "int \<Rightarrow> int \<Rightarrow> money \<Rightarrow> customer_row \<Rightarrow> customer_row" where
  "pay_row wid did amount r = r\<lparr>c_balance := c_balance r - amount, c_ytd_payment := c_ytd_payment r + amount,
     c_payment_cnt := c_payment_cnt r + 1, c_data := new_c_data wid did amount r\<rparr>"

lemma wp_payment_update_customer:
  assumes a: "active F D db w" and k: "distinct (map c_key (customer db))"
    and r: "read_from cwid cdid db cust r"
    and err: "\<And>e w'. \<not> F \<Longrightarrow> idle F D w' \<Longrightarrow> Q (Inl e) w'"
    and ok: "\<And>w'. active F D (db\<lparr>customer := sql_update c_key (c_key r) (pay_row wid did amount) (customer db)\<rparr>) w' \<Longrightarrow>
       wp f Q w'"
  shows "wp (tx_bind (payment_update_customer cust cwid cdid wid did amount) (\<lambda>_. f)) Q w"
proof -
  have r: "r \<in> set (customer db)" "c_key r = (cwid, cdid, tc_id cust)" "tc_credit cust = c_credit r"
    using assms(3) by (auto simp: read_from_def)
  have u: "x = r" if "x \<in> set (customer db)" "c_key x = (cwid, cdid, tc_id cust)" for x
    using that r k by (auto simp: distinct_map inj_on_def)
  have one: "sql_where c_key (cwid, cdid, tc_id cust) (customer db) = [r]"
    using sql_where_unique [OF k r(1)] r(2) by simp
  have key: "c_id r = tc_id cust" "c_d_id r = cdid" "c_w_id r = cwid" using r(2) by (simp_all add: c_key_def)
  show ?thesis
  proof (cases "tc_credit cust = ''BC''")
    case True
    let ?data = "bc_data (tc_id cust) cdid cwid did wid amount (c_data r)"
    have "sql_update c_key (cwid, cdid, tc_id cust) (\<lambda>r. r\<lparr>c_balance := c_balance r - amount,
        c_ytd_payment := c_ytd_payment r + amount, c_payment_cnt := c_payment_cnt r + 1, c_data := ?data\<rparr>) (customer db)
      = sql_update c_key (c_key r) (pay_row wid did amount) (customer db)"
      unfolding r(2)
    proof (rule sql_update_cong)
      fix x assume "x \<in> set (customer db)" "c_key x = (cwid, cdid, tc_id cust)"
      then have "x = r" by (rule u)
      then show "x\<lparr>c_balance := c_balance x - amount, c_ytd_payment := c_ytd_payment x + amount,
          c_payment_cnt := c_payment_cnt x + 1, c_data := ?data\<rparr> = pay_row wid did amount x"
        using True r(3) key by (simp add: pay_row_def new_c_data_def)
    qed
    then have upd: "sem_PaymentUpdateCustomerBc amount amount ?data cwid cdid (tc_id cust) db
        = Inr (db\<lparr>customer := sql_update c_key (c_key r) (pay_row wid did amount) (customer db)\<rparr>)"
      by (simp add: sem_PaymentUpdateCustomerBc_def)
    have "wp (tx_bind (ExecuteQuery (sem_PaymentSelectCustomerData cwid cdid (tc_id cust))) (\<lambda>rows.
        tx_bind (ExecuteModify (sem_PaymentUpdateCustomerBc amount amount
          (bc_data (tc_id cust) cdid cwid did wid amount (case rows of [] \<Rightarrow> [] | r # _ \<Rightarrow> c_data r)) cwid cdid (tc_id cust)))
        (\<lambda>_. f))) Q w"
    proof (rule wp_query [OF a], rule err, assumption+)
      fix w' assume "active F D db w'"
      then show "wp (tx_bind (ExecuteModify (sem_PaymentUpdateCustomerBc amount amount
          (bc_data (tc_id cust) cdid cwid did wid amount
            (case sem_PaymentSelectCustomerData cwid cdid (tc_id cust) db of [] \<Rightarrow> [] | r # _ \<Rightarrow> c_data r)) cwid cdid (tc_id cust)))
        (\<lambda>_. f)) Q w'"
        using err ok upd by (intro wp_modify) (auto simp: sem_PaymentSelectCustomerData_def one)
    qed
    then show ?thesis using True
      by (simp add: payment_update_customer_def tx_bind_assoc Let_def)
  next
    case False
    have "sql_update c_key (cwid, cdid, tc_id cust) (\<lambda>r. r\<lparr>c_balance := c_balance r - amount,
        c_ytd_payment := c_ytd_payment r + amount, c_payment_cnt := c_payment_cnt r + 1\<rparr>) (customer db)
      = sql_update c_key (c_key r) (pay_row wid did amount) (customer db)"
      unfolding r(2)
    proof (rule sql_update_cong)
      fix x assume "x \<in> set (customer db)" "c_key x = (cwid, cdid, tc_id cust)"
      then have "x = r" by (rule u)
      then show "x\<lparr>c_balance := c_balance x - amount, c_ytd_payment := c_ytd_payment x + amount,
          c_payment_cnt := c_payment_cnt x + 1\<rparr> = pay_row wid did amount x"
        using False r(3) key by (simp add: pay_row_def new_c_data_def)
    qed
    then have upd: "sem_PaymentUpdateCustomer amount amount cwid cdid (tc_id cust) db
        = Inr (db\<lparr>customer := sql_update c_key (c_key r) (pay_row wid did amount) (customer db)\<rparr>)"
      by (simp add: sem_PaymentUpdateCustomer_def)
    have "wp (tx_bind (ExecuteModify (sem_PaymentUpdateCustomer amount amount cwid cdid (tc_id cust))) (\<lambda>_. f)) Q w"
      using err ok upd by (intro wp_modify [OF a]) auto
    then show ?thesis using False by (simp add: payment_update_customer_def)
  qed
qed

lemma wp_payment_finish:
  assumes a: "active F D db2 w" and db: "db \<in> D" "consistent db"
    and wr: "sql_first w_id wid (warehouse db) = Some wr" and dr: "sql_first d_key (wid, did) (district db) = Some dr"
    and db2: "db2 = db\<lparr>warehouse := sql_update w_id wid (\<lambda>r. r\<lparr>w_ytd := w_ytd r + amount\<rparr>) (warehouse db),
       district := sql_update d_key (wid, did) (\<lambda>r. r\<lparr>d_ytd := d_ytd r + amount\<rparr>) (district db)\<rparr>"
    and r: "read_from cwid cdid db2 cust r"
  shows "wp (payment_finish cust cwid cdid wid did amount (w_name wr) (d_name dr))
     (tx_outcome F P E (payment_eff wid did cwid cdid amount) D) w"
proof -
  let ?cust = "cust\<lparr>tc_balance := tc_balance cust - amount, tc_ytd_payment := tc_ytd_payment cust + amount,
     tc_payment_cnt := tc_payment_cnt cust + 1\<rparr>"
  let ?info = "history_data (w_name wr) (d_name dr)"
  have cust: "customer db2 = customer db" "history db2 = history db" by (simp_all add: db2)
  have k: "distinct (map c_key (customer db2))" using consistentD(1) [OF db(2)] by (simp add: keys_ok_def cust)
  have r': "read_from cwid cdid db2 ?cust r" using r by (simp add: read_from_def)
  have rk: "r \<in> set (customer db)" "c_key r = (cwid, cdid, tc_id cust)" using r by (auto simp: read_from_def cust)
  let ?db3 = "db2\<lparr>customer := sql_update c_key (c_key r) (pay_row wid did amount) (customer db2)\<rparr>"
  let ?fin = "\<lambda>ts. payment_made wid did (c_key r) amount (new_c_data wid did amount) (history_of ts wid did (c_key r) amount ?info) db"
  have ins: "sem_PaymentInsertHistory ts (tc_id cust) cdid cwid did wid amount ?info ?db3 = Inr (?fin ts)" for ts
    by (simp add: sem_PaymentInsertHistory_def payment_made_def db2 history_of_def rk(2) pay_row_def [abs_def])
  have eff: "payment_eff wid did cwid cdid amount db (?fin ts)" for ts
    unfolding payment_eff_def using wr dr rk by (intro exI conjI) (auto simp: c_key_def)
  show ?thesis unfolding payment_finish_def Let_def
  proof (rule wp_payment_update_customer [OF a k r'], goal_cases)
    case (2 w1)
    then show ?case
    proof (rule wp_modify_now, goal_cases)
      case (2 db' w2)
      then have "active F D (?fin (now w1)) w2" using ins by simp
      then show ?case using db(1) eff by (intro wp_commit_outcome)
    qed (use ins in auto)
  qed simp
qed

lemma payment_customer_home_range:
  assumes "payment_customer_home wid did cnt s = Some ((cw, cd), s')" "1 \<le> wid" "wid \<le> cnt" "cnt < 2 ^ 31"
    "did \<in> {DISTRICT_LOW_ID..DISTRICT_HIGH_ID}"
  shows "cw \<in> {1..cnt} \<and> cd \<in> {DISTRICT_LOW_ID..DISTRICT_HIGH_ID}"
proof -
  obtain p s1 where p: "RandomInt 1 100 s = Some (p, s1)"
    "(if p \<le> 85 then ret (wid, did) else rnd_bind (RandomInt DISTRICT_LOW_ID DISTRICT_HIGH_ID) (\<lambda>cd.
       rnd_bind (other_warehouse wid cnt) (\<lambda>cw. ret (cw, cd)))) s1 = Some ((cw, cd), s')"
    using assms(1) by (auto simp: payment_customer_home_def rnd_bind_Some)
  show ?thesis
  proof (cases "p \<le> 85")
    case True
    then show ?thesis using p(2) assms by (simp add: ret_def)
  next
    case False
    then obtain s2 where "RandomInt DISTRICT_LOW_ID DISTRICT_HIGH_ID s1 = Some (cd, s2)"
      "other_warehouse wid cnt s2 = Some (cw, s')"
      using p(2) by (auto simp: rnd_bind_Some ret_def)
    then show ?thesis using RandomInt_range [of _ _ s1 cd s2] other_warehouse_range [of wid cnt s2 cw s'] assms(2-4)
      by (auto simp: const_defs)
  qed
qed

lemma populated_has_customers:
  "populated cnt db \<Longrightarrow> w \<in> {1..cnt} \<Longrightarrow> d \<in> {DISTRICT_LOW_ID..DISTRICT_HIGH_ID} \<Longrightarrow> has_customers w d db"
  unfolding populated_def has_customers_def by blast

lemma populated_district:
  "populated cnt db \<Longrightarrow> w \<in> {1..cnt} \<Longrightarrow> d \<in> {DISTRICT_LOW_ID..DISTRICT_HIGH_ID} \<Longrightarrow>
   w \<in> w_id ` set (warehouse db) \<and> (w, d) \<in> d_key ` set (district db)"
  unfolding populated_def by blast

lemma wp_payment_customer:
  assumes ctx: "valid_ctx ctx" and a: "active F D db2 w" and db: "db \<in> D" "consistent db"
    and did: "did \<in> {DISTRICT_LOW_ID..DISTRICT_HIGH_ID}" and amount: "amount \<in> {100..500000}"
    and wr: "sql_first w_id (WarehouseID ctx) (warehouse db) = Some wr"
    and dr: "sql_first d_key (WarehouseID ctx, did) (district db) = Some dr"
    and db2: "db2 = db\<lparr>warehouse := sql_update w_id (WarehouseID ctx) (\<lambda>r. r\<lparr>w_ytd := w_ytd r + amount\<rparr>) (warehouse db),
       district := sql_update d_key (WarehouseID ctx, did) (\<lambda>r. r\<lparr>d_ytd := d_ytd r + amount\<rparr>) (district db)\<rparr>"
  shows "wp (tx_bind (draw (payment_customer_home (WarehouseID ctx) did (WarehouseCount ctx))) (\<lambda>(cwid, cdid).
          tx_bind (draw (RandomInt 1 100)) (\<lambda>p.
          tx_bind (lookup_customer cwid cdid (p \<le> 60) True) (\<lambda>cust.
          case cust of None \<Rightarrow> tx_return False
          | Some c \<Rightarrow> payment_finish c cwid cdid (WarehouseID ctx) did amount (w_name wr) (d_name dr)))))
     (tx_outcome F (populated (WarehouseCount ctx)) {} (payment_task_eff ctx) D) w"
proof (rule wp_drawI2, rule wp_drawI, rule wp_bindI, goal_cases)
  case (1 cwid cdid s p s2)
  have home: "cwid \<in> {1..WarehouseCount ctx}" "cdid \<in> {DISTRICT_LOW_ID..DISTRICT_HIGH_ID}"
    using payment_customer_home_range [OF 1(1)] ctx did by (auto simp: valid_ctx_def)
  have "at_db F D {db2} (w\<lparr>rng := s, rng := s2\<rparr>)" using a by (auto simp: at_db_def)
  then show ?case
  proof (rule wp_lookup_customer, goal_cases)
    case (1 e w')
    then show ?case by simp
  next
    case (2 db' w')
    then have "\<not> has_customers cwid cdid db" by (auto simp: db2 has_customers_def)
    then have "\<not> populated (WarehouseCount ctx) db" using populated_has_customers home by blast
    then show ?case using 2 db(1) by (auto intro!: tx_outcome_stop)
  next
    case (3 db' c r w')
    then have "wp (payment_finish c cwid cdid (WarehouseID ctx) did amount (w_name wr) (d_name dr))
        (tx_outcome F (populated (WarehouseCount ctx)) {} (payment_eff (WarehouseID ctx) did cwid cdid amount) D) w'"
      using wp_payment_finish [OF _ db wr dr db2] by simp
    then show ?case
      unfolding sum.case option.case
    proof (rule wp_mono)
      fix r w' assume "tx_outcome F (populated (WarehouseCount ctx)) {} (payment_eff (WarehouseID ctx) did cwid cdid amount) D r w'"
      then show "tx_outcome F (populated (WarehouseCount ctx)) {} (payment_task_eff ctx) D r w'"
        by (rule tx_outcome_mono) (use did home amount in \<open>auto simp: payment_task_eff_def\<close>)
    qed
  qed
qed

lemma wp_payment_task:
  assumes ctx: "valid_ctx ctx" and D: "D \<subseteq> Collect consistent" and i: "idle F D w"
  shows "wp (GetPaymentTask ctx) (tx_outcome F (populated (WarehouseCount ctx)) {} (payment_task_eff ctx) D) w"
  unfolding GetPaymentTask_def Let_def
proof (rule wp_drawI, rule wp_drawI, goal_cases)
  case (1 did s1 amount s2)
  let ?wid = "WarehouseID ctx"
  have did: "did \<in> {DISTRICT_LOW_ID..DISTRICT_HIGH_ID}" using RandomInt_range [OF 1(1)] by (simp add: const_defs)
  have amount: "amount \<in> {100..500000}" using RandomInt_range [OF 1(2)] by simp
  have wid: "?wid \<in> {1..WarehouseCount ctx}" using ctx by (simp add: valid_ctx_def)
  have "idle F D (w\<lparr>rng := s1, rng := s2\<rparr>)" using i by simp
  then show ?case
  proof (rule wp_query_idle, goal_cases)
    case (2 db w1)
    have c: "consistent db" using D 2(1) by auto
    show ?case
    proof (cases "sem_PaymentSelectWarehouseForUpdate ?wid db")
      case Nil
      then have "?wid \<notin> w_id ` set (warehouse db)"
        using sql_first_None [of w_id ?wid "warehouse db"] by (simp add: sem_PaymentSelectWarehouseForUpdate_def sql_first_def)
      then have "\<not> (\<forall>db \<in> D. populated (WarehouseCount ctx) db)" using populated_district [OF _ wid did] 2(1) by auto
      then show ?thesis using wp_stop_false [OF 2(2)] Nil by simp
    next
      case (Cons wr rest)
      then have wr: "sql_first w_id ?wid (warehouse db) = Some wr"
        by (simp add: sem_PaymentSelectWarehouseForUpdate_def sql_first_def)
      let ?db1 = "db\<lparr>warehouse := sql_update w_id ?wid (\<lambda>r. r\<lparr>w_ytd := w_ytd r + amount\<rparr>) (warehouse db)\<rparr>"
      show ?thesis unfolding Cons list.case
      proof (rule wp_modify [OF 2(2)], goal_cases)
        case (2 db' w2)
        then have "active F D ?db1 w2" by (simp add: sem_PaymentUpdateWarehouseYtd_def)
        then show ?case
        proof (rule wp_query, goal_cases)
          case (2 w3)
          show ?case
          proof (cases "sem_PaymentSelectDistrictForUpdate ?wid did ?db1")
            case Nil
            then have "(?wid, did) \<notin> d_key ` set (district db)"
              using sql_first_None [of d_key "(?wid, did)" "district db"]
              by (simp add: sem_PaymentSelectDistrictForUpdate_def sql_first_def)
            then have "\<not> (\<forall>db \<in> D. populated (WarehouseCount ctx) db)"
              using populated_district [OF _ wid did] \<open>db \<in> D\<close> by auto
            then show ?thesis using wp_stop_false [OF 2] Nil by simp
          next
            case (Cons dr rest)
            then have dr: "sql_first d_key (?wid, did) (district db) = Some dr"
              by (simp add: sem_PaymentSelectDistrictForUpdate_def sql_first_def)
            show ?thesis unfolding Cons list.case
            proof (rule wp_modify [OF 2], goal_cases)
              case (2 db' w4)
              then show ?case
                by (intro wp_payment_customer [OF ctx _ \<open>db \<in> D\<close> c did amount wr dr refl])
                  (simp add: sem_PaymentUpdateDistrictYtd_def)
            qed (auto simp: sem_PaymentUpdateDistrictYtd_def)
          qed
        qed simp
      qed (auto simp: sem_PaymentUpdateWarehouseYtd_def)
    qed
  qed simp
qed

lemma payment_task_static: "payment_task_eff ctx db db' \<Longrightarrow> static_part db' = static_part db"
  by (auto simp: payment_task_eff_def payment_eff_def payment_made_def static_part_def d_key_def c_key_def)

interpretation payment_task: tx_task GetPaymentTask "\<lambda>ctx. populated (WarehouseCount ctx)" "{}" payment_task_eff
  using wp_payment_task payment_task_consistent payment_task_static by unfold_locales

section \<open>The reading transactions\<close>

definition unchanged :: "TTransactionContext \<Rightarrow> database \<Rightarrow> database \<Rightarrow> bool" where
  "unchanged ctx db db' \<longleftrightarrow> db' = db"

lemma wp_commit_unchanged:
  "active F D db w \<Longrightarrow> db \<in> D \<Longrightarrow> wp (tx_bind Commit (\<lambda>_. tx_return True)) (tx_outcome F P E (unchanged ctx) D) w"
  by (rule wp_commit_outcome) (simp_all add: unchanged_def)

lemma wp_order_status_task:
  assumes ctx: "valid_ctx ctx" and D: "D \<subseteq> Collect consistent" and i: "idle F D w"
  shows "wp (GetOrderStatusTask ctx) (tx_outcome F (populated (WarehouseCount ctx)) {} (unchanged ctx) D) w"
  unfolding GetOrderStatusTask_def Let_def
proof (rule wp_drawI, rule wp_drawI, rule wp_bindI, goal_cases)
  case (1 did s1 p s2)
  have did: "did \<in> {DISTRICT_LOW_ID..DISTRICT_HIGH_ID}" using RandomInt_range [OF 1(1)] by (simp add: const_defs)
  have wid: "WarehouseID ctx \<in> {1..WarehouseCount ctx}" using ctx by (simp add: valid_ctx_def)
  have "at_db F D D (w\<lparr>rng := s1, rng := s2\<rparr>)" using i by (simp add: at_db_idle)
  then show ?case
  proof (rule wp_lookup_customer, goal_cases)
    case (1 e w')
    then show ?case by simp
  next
    case (2 db w')
    then show ?case using populated_has_customers [OF _ wid did] by (auto intro!: tx_outcome_stop)
  next
    case (3 db c r w')
    show ?case unfolding sum.case option.case
    proof (rule wp_query [OF 3(2)], goal_cases)
      case (2 w1)
      show ?case
      proof (cases "sem_OrderStatusSelectLatestOrder (WarehouseID ctx) did (tc_id c) db")
        case Nil
        then show ?thesis using wp_commit_unchanged [OF 2 3(1)] by simp
      next
        case (Cons q rest)
        show ?thesis unfolding Cons list.case
          by (rule wp_query [OF 2]) (use wp_commit_unchanged 3(1) in auto)
      qed
    qed simp
  qed
qed

lemma wp_stock_level_task:
  assumes ctx: "valid_ctx ctx" and D: "D \<subseteq> Collect consistent" and i: "idle F D w"
  shows "wp (GetStockLevelTask ctx) (tx_outcome F (populated (WarehouseCount ctx)) {} (unchanged ctx) D) w"
  unfolding GetStockLevelTask_def Let_def
proof (rule wp_drawI, rule wp_drawI, goal_cases)
  case (1 did s1 th s2)
  have did: "did \<in> {DISTRICT_LOW_ID..DISTRICT_HIGH_ID}" using RandomInt_range [OF 1(1)] by (simp add: const_defs)
  have wid: "WarehouseID ctx \<in> {1..WarehouseCount ctx}" using ctx by (simp add: valid_ctx_def)
  have "idle F D (w\<lparr>rng := s1, rng := s2\<rparr>)" using i by simp
  then show ?case
  proof (rule wp_query_idle, goal_cases)
    case (2 db w1)
    show ?case
    proof (cases "sem_StockLevelSelectDistrict (WarehouseID ctx) did db")
      case Nil
      then have "(WarehouseID ctx, did) \<notin> d_key ` set (district db)"
        using sql_first_None [of d_key "(WarehouseID ctx, did)" "district db"]
        by (simp add: sem_StockLevelSelectDistrict_def sql_first_def)
      then have "\<not> (\<forall>db \<in> D. populated (WarehouseCount ctx) db)" using populated_district [OF _ wid did] 2(1) by auto
      then show ?thesis using wp_stop_false [OF 2(2)] Nil by simp
    next
      case (Cons n rest)
      show ?thesis unfolding Cons list.case
        by (rule wp_query [OF 2(2)]) (use wp_commit_unchanged 2(1) in auto)
    qed
  qed simp
qed

interpretation order_status_task: tx_task GetOrderStatusTask "\<lambda>ctx. populated (WarehouseCount ctx)" "{}" unchanged
  using wp_order_status_task by unfold_locales (simp_all add: unchanged_def)

interpretation stock_level_task: tx_task GetStockLevelTask "\<lambda>ctx. populated (WarehouseCount ctx)" "{}" unchanged
  using wp_stock_level_task by unfold_locales (simp_all add: unchanged_def)

section \<open>Properties\<close>

text \<open>
  (C2) Payment refines its specification under any server behaviour: the committed database is the
  old one or the one in which exactly one payment of 1.00 to 5000.00 has moved into the year-to-date
  totals of the warehouse and the district, out of the balance of one customer of the paying
  district, and into the history; it is consistent; \<open>true\<close> is returned only when the payment is made,
  and without faults on a populated database the payment is made.
\<close>

theorem payment_atomic:
  assumes "valid_ctx ctx" "consistent db" "idle F {db} w"
  shows "wp (GetPaymentTask ctx) (\<lambda>r w'. let db' = committed (ReleaseConnection w') in
     (db' = db \<or> payment_task_eff ctx db db') \<and> consistent db' \<and> (r = Inr True \<longrightarrow> payment_task_eff ctx db db')
     \<and> (F \<and> populated (WarehouseCount ctx) db \<longrightarrow> r = Inr True \<or> (\<exists>e \<in> {}. r = Inl e))) w"
  by (rule payment_task.atomic [OF assms])

theorem payment_atomic_witness:
  "wp (GetPaymentTask sample_ctx) (\<lambda>r w'. let db' = committed (ReleaseConnection w') in
     (db' = sample_db \<or> payment_task_eff sample_ctx sample_db db') \<and> consistent db'
     \<and> (r = Inr True \<longrightarrow> payment_task_eff sample_ctx sample_db db')
     \<and> (False \<and> populated (WarehouseCount sample_ctx) sample_db \<longrightarrow> r = Inr True \<or> (\<exists>e \<in> {}. r = Inl e)))
   (sample_world sample_db [NoFault, FailBefore (DbException 1213 [])])"
  by (rule payment_atomic [OF sample_ctx_valid sample_db_consistent sample_world_idle(1)])

text \<open>
  (C20) OrderStatus and StockLevel never change the database, whatever the server does, and without
  faults on a populated database they return \<open>true\<close>.
\<close>

theorem readers_change_nothing:
  assumes "valid_ctx ctx" "consistent db" "idle F {db} w" "task \<in> {GetOrderStatusTask, GetStockLevelTask}"
  shows "wp (task ctx) (\<lambda>r w'. committed (ReleaseConnection w') = db
     \<and> (F \<and> populated (WarehouseCount ctx) db \<longrightarrow> r = Inr True)) w"
  using assms(4) order_status_task.atomic [OF assms(1-3)] stock_level_task.atomic [OF assms(1-3)]
  by (auto simp: unchanged_def Let_def elim!: wp_mono)

theorem readers_change_nothing_witness:
  "wp (GetStockLevelTask sample_ctx) (\<lambda>r w'. committed (ReleaseConnection w') = sample_db
     \<and> (False \<and> populated (WarehouseCount sample_ctx) sample_db \<longrightarrow> r = Inr True))
   (sample_world sample_db [FailAfter (DbException 1205 [])])"
  by (rule readers_change_nothing [OF sample_ctx_valid sample_db_consistent sample_world_idle(1)]) simp

end
