(* ===== verification/DeliveryTx.thy ===== *)
theory DeliveryTx
  imports PaymentTx
begin

text \<open>
  Delivery and the simulated transaction against their specifications.
\<close>

section \<open>The reading part\<close>

definition order_read :: "int \<Rightarrow> database \<Rightarrow> int \<Rightarrow> TOrderData option \<Rightarrow> bool" where
  "order_read wid db did ord = (case ord of None \<Rightarrow> no_ids db (wid, did) = {}
     | Some od \<Rightarrow> deliverable wid did (OrderID od) (TotalAmount od) (CustomerId od) db)"

definition orders_read :: "int \<Rightarrow> int list \<Rightarrow> (int \<times> TOrderData option) list \<Rightarrow> database \<Rightarrow> bool" where
  "orders_read wid dids os db \<longleftrightarrow> map fst os = dids \<and> (\<forall>x \<in> set os. order_read wid db (fst x) (snd x))"

lemma oldest_new_order:
  "sem_DeliverySelectNewOrderForUpdate did wid db = [] \<longleftrightarrow> no_ids db (wid, did) = {}"
  "sem_DeliverySelectNewOrderForUpdate did wid db = oid # rest \<Longrightarrow>
     oid \<in> no_ids db (wid, did) \<and> (\<forall>n \<in> no_ids db (wid, did). oid \<le> n)"
proof -
  let ?t = "map no_o_id (filter (\<lambda>r. no_d_id r = did \<and> no_w_id r = wid) (new_order db))"
  have s: "set ?t = no_ids db (wid, did)" by (auto simp: no_ids_def)
  show "sem_DeliverySelectNewOrderForUpdate did wid db = [] \<longleftrightarrow> no_ids db (wid, did) = {}"
  proof -
    have "sort xs = [] \<longleftrightarrow> set xs = {}" for xs :: "int list"
      using length_sort [of "\<lambda>x. x" xs] by (metis length_0_conv set_empty)
    from this [of ?t] have "sort ?t = [] \<longleftrightarrow> no_ids db (wid, did) = {}" unfolding s .
    then show ?thesis unfolding sem_DeliverySelectNewOrderForUpdate_def take_eq_Nil by simp
  qed
  assume "sem_DeliverySelectNewOrderForUpdate did wid db = oid # rest"
  then obtain xs where "sort ?t = oid # xs"
    unfolding sem_DeliverySelectNewOrderForUpdate_def by (cases "sort ?t") auto
  moreover have "sorted (sort ?t)" "set (sort ?t) = no_ids db (wid, did)" using s by simp_all
  ultimately show "oid \<in> no_ids db (wid, did) \<and> (\<forall>n \<in> no_ids db (wid, did). oid \<le> n)"
    by (metis list.set_intros(1) set_ConsD order_refl sorted_simps(2))
qed

text \<open>On a consistent database the oldest new order has its order and its lines.\<close>

lemma new_order_complete:
  assumes "consistent db" "oid \<in> no_ids db (wid, did)"
  obtains cid where "sem_DeliverySelectOrderCustomer wid did oid db = [cid]"
    "\<exists>r \<in> set (oorder db). o_key r = (wid, did, oid) \<and> o_c_id r = cid"
    "sem_DeliverySelectOrderLines wid did oid db \<noteq> []"
proof -
  have "(wid, did, oid) \<in> no_key ` set (new_order db)" using assms(2) by (simp add: no_ids_key)
  then obtain r where r: "r \<in> set (oorder db)" "o_key r = (wid, did, oid)"
    using consistentD(3) [OF assms(1)] unfolding new_orders_ok_def by blast
  have "distinct (map o_key (oorder db))" using consistentD(1) [OF assms(1)] by (simp add: keys_ok_def)
  from sql_where_unique [OF this r(1)] r(2)
  have "sem_DeliverySelectOrderCustomer wid did oid db = [o_c_id r]"
    by (simp add: sem_DeliverySelectOrderCustomer_def)
  moreover have "sem_DeliverySelectOrderLines wid did oid db \<noteq> []"
    using consistentD(4) [OF assms(1)] r by (auto simp: lines_ok_def sem_DeliverySelectOrderLines_def)
  ultimately show ?thesis using that r by blast
qed

lemma lines_total:
  "sum_list (map snd (sem_DeliverySelectOrderLines wid did oid db))
    = sum_where (\<lambda>l. ol_order l = (wid, did, oid)) ol_amount (order_line db)"
  by (simp add: sem_DeliverySelectOrderLines_def sum_where_def sql_where_def comp_def)

lemma wp_delivery_read_step:
  assumes a: "at_db F D S w" and S: "S \<subseteq> Collect consistent"
    and err: "\<And>e w'. \<not> F \<Longrightarrow> idle F D w' \<Longrightarrow> Q (Inl e) w'"
    and rest: "\<And>db ord w'. db \<in> S \<Longrightarrow> active F D db w' \<Longrightarrow> order_read wid db did ord \<Longrightarrow>
       wp (tx_bind (delivery_read wid dids) (\<lambda>rest. tx_return (map_option ((#) (did, ord)) rest))) Q w'"
  shows "wp (delivery_read wid (did # dids)) Q w"
  unfolding delivery_read.simps
proof (rule wp_query_at [OF a], rule err, assumption+, goal_cases)
  case (1 db w1)
  have c: "consistent db" using S 1(1) by auto
  show ?case
  proof (cases "sem_DeliverySelectNewOrderForUpdate did wid db")
    case Nil
    then have "order_read wid db did None" by (simp add: oldest_new_order order_read_def)
    then show ?thesis using Nil rest [OF 1] by simp
  next
    case (Cons oid tail)
    note old = oldest_new_order(2) [OF Cons]
    obtain cid where cid: "sem_DeliverySelectOrderCustomer wid did oid db = [cid]"
      "\<exists>r \<in> set (oorder db). o_key r = (wid, did, oid) \<and> o_c_id r = cid"
      "sem_DeliverySelectOrderLines wid did oid db \<noteq> []"
      using new_order_complete [OF c] old by blast
    let ?lines = "sem_DeliverySelectOrderLines wid did oid db"
    let ?od = "\<lparr>OrderID = oid, CustomerId = cid, TotalAmount = sum_list (map snd ?lines), OrderLineNumbers = map fst ?lines\<rparr>"
    have "order_read wid db did (Some ?od)" using old cid(2) by (simp add: order_read_def deliverable_def lines_total)
    note fin = rest [OF 1(1) _ this]
    show ?thesis unfolding Cons list.case
    proof (rule wp_query [OF 1(2)], rule err, assumption+, goal_cases)
      case (1 w2)
      show ?case unfolding cid(1) list.case
      proof (rule wp_query [OF 1], rule err, assumption+, goal_cases)
        case (1 w3)
        then show ?case using fin cid(3) by (simp add: Let_def)
      qed
    qed
  qed
qed

lemma wp_delivery_read:
  assumes "active F D db w" and c: "consistent db"
    and err: "\<And>e w'. \<not> F \<Longrightarrow> idle F D w' \<Longrightarrow> Q (Inl e) w'"
    and "\<And>os w'. active F D db w' \<Longrightarrow> orders_read wid dids os db \<Longrightarrow> Q (Inr (Some os)) w'"
  shows "wp (delivery_read wid dids) Q w"
  using assms(1,3,4)
proof (induction dids arbitrary: w Q)
  case Nil
  then show ?case by (simp add: orders_read_def)
next
  case (Cons did dids)
  show ?case
  proof (rule wp_delivery_read_step [OF at_db_active [OF Cons.prems(1)]], goal_cases)
    case 1
    then show ?case using c by simp
  next
    case (2 e w')
    then show ?case by (rule Cons.prems(2))
  next
    case (3 db' ord w')
    then have "active F D db w'" "order_read wid db did ord" by simp_all
    then show ?case
      by (intro wp_bindI Cons.IH) (auto intro!: Cons.prems(2,3) simp: orders_read_def)
  qed
qed

section \<open>The writing part\<close>

fun delivered_all :: "int \<Rightarrow> int \<Rightarrow> (int \<times> TOrderData option) list \<Rightarrow> database \<Rightarrow> database \<Rightarrow> bool" where
  "delivered_all wid carrier [] db db' \<longleftrightarrow> db' = db"
| "delivered_all wid carrier ((did, None) # os) db db' \<longleftrightarrow> delivered_all wid carrier os db db'"
| "delivered_all wid carrier ((did, Some od) # os) db db' \<longleftrightarrow> (\<exists>ts. delivered_all wid carrier os
     (order_delivered wid did (OrderID od) carrier ts (TotalAmount od) (CustomerId od) db) db')"

definition delivery_task_eff :: "TTransactionContext \<Rightarrow> database \<Rightarrow> database \<Rightarrow> bool" where
  "delivery_task_eff ctx db db' \<longleftrightarrow> (\<exists>carrier \<in> {1..10}. \<exists>os.
     orders_read (WarehouseID ctx) [DISTRICT_LOW_ID..DISTRICT_HIGH_ID] os db \<and> delivered_all (WarehouseID ctx) carrier os db db')"

lemma delivered_all_consistent:
  assumes "delivered_all wid carrier os db db'" "consistent db" "carrier \<noteq> 0" "distinct (map fst os)"
    "\<forall>x \<in> set os. \<forall>od. snd x = Some od \<longrightarrow> deliverable wid (fst x) (OrderID od) (TotalAmount od) (CustomerId od) db"
  shows "consistent db'"
  using assms
proof (induction wid carrier os db db' rule: delivered_all.induct)
  case (3 wid carrier did od os db db')
  from 3(2) obtain ts where ts: "delivered_all wid carrier os
     (order_delivered wid did (OrderID od) carrier ts (TotalAmount od) (CustomerId od) db) db'"
    (is "delivered_all _ _ _ ?db db'") by auto
  have "consistent ?db"
    using 3(3,4,6) by (intro delivered_consistent) (simp add: delivery_step_def)
  moreover have "\<forall>x \<in> set os. \<forall>od. snd x = Some od \<longrightarrow> deliverable wid (fst x) (OrderID od) (TotalAmount od) (CustomerId od) ?db"
  proof (intro ballI allI impI)
    fix x od' assume x: "x \<in> set os" "snd x = Some od'"
    then have "fst x \<noteq> did" using 3(5) by auto
    moreover have "deliverable wid (fst x) (OrderID od') (TotalAmount od') (CustomerId od') db" using 3(6) x by simp
    ultimately show "deliverable wid (fst x) (OrderID od') (TotalAmount od') (CustomerId od') ?db"
      by (intro deliverable_other)
  qed
  ultimately show ?case using 3(1) [OF ts] 3(4,5) by simp
qed auto

lemma delivery_task_consistent:
  assumes "consistent db" "delivery_task_eff ctx db db'"
  shows "consistent db'"
proof -
  obtain carrier os where e: "carrier \<in> {1..10}" "orders_read (WarehouseID ctx) [DISTRICT_LOW_ID..DISTRICT_HIGH_ID] os db"
    "delivered_all (WarehouseID ctx) carrier os db db'"
    using assms(2) by (auto simp: delivery_task_eff_def)
  show ?thesis
    by (rule delivered_all_consistent [OF e(3) assms(1)])
      (use e(1,2) in \<open>auto simp: orders_read_def order_read_def split: option.splits\<close>)
qed

lemma wp_delivery_write:
  assumes "active F D db w"
    and err: "\<And>e w'. \<not> F \<Longrightarrow> idle F D w' \<Longrightarrow> Q (Inl e) w'"
    and "\<And>db' w'. active F D db' w' \<Longrightarrow> delivered_all wid carrier os db db' \<Longrightarrow> Q (Inr ()) w'"
  shows "wp (delivery_write wid carrier os) Q w"
  using assms(1,3)
proof (induction wid carrier os arbitrary: db w rule: delivery_write.induct)
  case (3 wid carrier did od os)
  note defs = sem_DeliveryDeleteNewOrder_def sem_DeliveryUpdateCarrier_def
    sem_DeliveryUpdateOrderLineDelivery_def sem_DeliveryUpdateCustomerBalance_def
  let ?fin = "\<lambda>ts. order_delivered wid did (OrderID od) carrier ts (TotalAmount od) (CustomerId od) db"
  show ?case unfolding delivery_write.simps
  proof (rule wp_modify [OF 3(2)], goal_cases)
    case (2 db1 w1)
    show ?case
    proof (rule wp_modify [OF 2(2)], goal_cases)
      case (2 db2 w2)
      show ?case
      proof (rule wp_modify_now [OF 2(2)], goal_cases)
        case (2 db3 w3)
        show ?case
        proof (rule wp_modify [OF 2(2)], goal_cases)
          case (2 db4 w4)
          have "db4 = ?fin (now w2)"
            using 2(1) \<open>sem_DeliveryUpdateOrderLineDelivery (now w2) wid did (OrderID od) db2 = Inr db3\<close>
              \<open>sem_DeliveryUpdateCarrier carrier wid did (OrderID od) db1 = Inr db2\<close>
              \<open>sem_DeliveryDeleteNewOrder wid did (OrderID od) db = Inr db1\<close>
            by (auto simp: defs order_delivered_def)
          then have a: "active F D (?fin (now w2)) w4" using 2(2) by simp
          show ?case
          proof (rule 3(1) [OF a])
            fix db' w' assume "active F D db' w'" "delivered_all wid carrier os (?fin (now w2)) db'"
            then show "Q (Inr ()) w'" by (intro 3(3)) auto
          qed
        qed (auto simp: defs intro: err)
      qed (auto simp: defs intro: err)
    qed (auto simp: defs intro: err)
  qed (auto simp: defs intro: err)
qed auto

section \<open>The task\<close>

lemma wp_delivery_task:
  assumes ctx: "valid_ctx ctx" and D: "D \<subseteq> Collect consistent" and i: "idle F D w"
  shows "wp (GetDeliveryTask ctx) (tx_outcome F (\<lambda>_. True) {} (delivery_task_eff ctx) D) w"
  unfolding GetDeliveryTask_def
proof (rule wp_drawI, goal_cases)
  case (1 carrier s)
  let ?wid = "WarehouseID ctx"
  let ?Q = "tx_outcome F (\<lambda>_. True) {} (delivery_task_eff ctx) D"
  let ?f = "\<lambda>orders. case orders of None \<Rightarrow> tx_return False
     | Some os \<Rightarrow> tx_bind (delivery_write ?wid carrier os) (\<lambda>_. tx_bind Commit (\<lambda>_. tx_return True))"
  have carrier: "carrier \<in> {1..10}" using RandomInt_range [OF 1] by simp
  have dids: "[DISTRICT_LOW_ID..DISTRICT_HIGH_ID] = DISTRICT_LOW_ID # [DISTRICT_LOW_ID + 1..DISTRICT_HIGH_ID]"
    by (simp add: const_defs upto_rec1)
  have fin: "wp (?f (Some os)) ?Q w'"
    if "db \<in> D" "active F D db w'" "orders_read ?wid [DISTRICT_LOW_ID..DISTRICT_HIGH_ID] os db" for os db w'
    unfolding option.case
  proof (rule wp_bindI, rule wp_delivery_write [OF that(2)], goal_cases)
    case (2 db' w'')
    then have "delivery_task_eff ctx db db'" using that(3) carrier by (auto simp: delivery_task_eff_def)
    then show ?case using wp_commit_outcome [OF 2(1) that(1)] by simp
  qed simp
  have "wp (delivery_read ?wid (DISTRICT_LOW_ID # [DISTRICT_LOW_ID + 1..DISTRICT_HIGH_ID]))
      (\<lambda>r w'. case r of Inl e \<Rightarrow> ?Q (Inl e) w' | Inr x \<Rightarrow> wp (?f x) ?Q w') (w\<lparr>rng := s\<rparr>)"
  proof (rule wp_delivery_read_step [OF at_db_idle [of F D] D], goal_cases)
    case 1
    then show ?case using i by simp
  next
    case (3 db ord w')
    have c: "consistent db" using D 3(1) by auto
    show ?case
    proof (rule wp_bindI, rule wp_delivery_read [OF 3(2) c], goal_cases)
      case (2 os w'')
      then have "orders_read ?wid [DISTRICT_LOW_ID..DISTRICT_HIGH_ID] ((DISTRICT_LOW_ID, ord) # os) db"
        using 3(3) by (auto simp: dids orders_read_def)
      then show ?case using fin [OF 3(1) 2(1)] by simp
    qed simp
  qed simp
  then show ?case by (intro wp_bindI) (simp add: dids)
qed

lemma delivered_all_static: "delivered_all wid carrier os db db' \<Longrightarrow> static_part db' = static_part db"
  by (induction wid carrier os db db' rule: delivered_all.induct)
     (auto simp: order_delivered_def static_part_def c_key_def)

interpretation delivery_task: tx_task GetDeliveryTask "\<lambda>_ _. True" "{}" delivery_task_eff
  using wp_delivery_task delivery_task_consistent
  by unfold_locales (auto simp: delivery_task_eff_def dest: delivered_all_static)

section \<open>The simulated transaction\<close>

lemma wp_select1_loop:
  assumes "at_db F D S w" and err: "\<And>e w'. \<not> F \<Longrightarrow> idle F D w' \<Longrightarrow> Q (Inl e) w'"
    and "\<And>S' w'. at_db F D S' w' \<Longrightarrow> S' \<subseteq> S \<Longrightarrow> Q (Inr ()) w'"
  shows "wp (select1_loop n) Q w"
  using assms(1,3)
proof (induction n arbitrary: S w)
  case (Suc n)
  show ?case unfolding select1_loop.simps
  proof (rule wp_query_at [OF Suc.prems(1)], rule err, assumption+, goal_cases)
    case (1 db w')
    then show ?case by (intro Suc.IH [OF at_db_active]) (auto intro: Suc.prems(2))
  qed
qed auto

text \<open>A commit outside a transaction does nothing.\<close>

lemma wp_commit_idle:
  assumes "idle F D w" "\<And>e w'. \<not> F \<Longrightarrow> idle F D w' \<Longrightarrow> Q (Inl e) w'" "\<And>w'. w' = w \<Longrightarrow> wp (f ()) Q w'"
  shows "wp (tx_bind Commit f) Q w"
proof (cases "shutdownFlag w")
  case True
  then have "\<not> F" "w\<lparr>inTxn := False\<rparr> = w" using assms(1) by (auto simp: idle_def fault_free_def)
  then show ?thesis
    using assms(1,2) True by (simp add: wp_def tx_bind_def Commit_def tx_on_error_def CheckShutdown_def)
next
  case False
  then show ?thesis
    using assms(1,3) by (simp add: wp_def tx_bind_def Commit_def tx_on_error_def CheckShutdown_def idle_def)
qed

lemma wp_simulation_task:
  assumes D: "D \<subseteq> Collect consistent" and i: "idle F D w"
  shows "wp (GetSimulationTask ctx) (tx_outcome F (\<lambda>_. True) {} (unchanged ctx) D) w"
proof -
  have done_idle: "tx_outcome F (\<lambda>_. True) {} (unchanged ctx) D (Inr True) w'" if "idle F D w'" for w'
    using that by (auto simp: tx_outcome_def unchanged_def results_def idle_def)
  show ?thesis unfolding GetSimulationTask_def
  proof (rule wp_drawI, goal_cases)
    case (1 u s)
    show ?case
    proof (cases "SimulateTransactionMs ctx = 0")
      case False
      then show ?thesis using done_idle i by simp
    next
      case True
      have "wp (tx_bind (select1_loop (nat (SimulateTransactionSelect1 ctx))) (\<lambda>_. tx_bind Commit (\<lambda>_. tx_return True)))
          (tx_outcome F (\<lambda>_. True) {} (unchanged ctx) D) (w\<lparr>rng := s\<rparr>)"
      proof (rule wp_bindI, rule wp_select1_loop [OF at_db_idle [of F D]], goal_cases)
        case 1
        then show ?case using i by simp
      next
        case (3 S' w')
        then consider "idle F D w'" | db where "active F D db w'" "db \<in> D" by (auto simp: at_db_def)
        then show ?case
        proof cases
          case 1
          then have "wp (tx_bind Commit (\<lambda>_. tx_return True)) (tx_outcome F (\<lambda>_. True) {} (unchanged ctx) D) w'"
            by (rule wp_commit_idle) (use done_idle 1 in auto)
          then show ?thesis by simp
        next
          case 2
          then show ?thesis using wp_commit_unchanged by simp
        qed
      qed simp
      then show ?thesis using True by simp
    qed
  qed
qed

interpretation simulation_task: tx_task GetSimulationTask "\<lambda>_ _. True" "{}" unchanged
  using wp_simulation_task by unfold_locales (simp_all add: unchanged_def)

section \<open>Properties\<close>

text \<open>
  (C3) Delivery refines its specification under any server behaviour: the committed database is the
  old one or the one in which, in every district of the warehouse that has one, exactly the oldest
  undelivered order is delivered (its entry of the new-order table removed, carrier and delivery date
  set, the sum of its lines added to the balance of its customer); it is consistent; \<open>true\<close> is
  returned only when this is committed, and without faults it always is.
\<close>

theorem delivery_atomic:
  assumes "valid_ctx ctx" "consistent db" "idle F {db} w"
  shows "wp (GetDeliveryTask ctx) (\<lambda>r w'. let db' = committed (ReleaseConnection w') in
     (db' = db \<or> delivery_task_eff ctx db db') \<and> consistent db' \<and> (r = Inr True \<longrightarrow> delivery_task_eff ctx db db')
     \<and> (F \<and> True \<longrightarrow> r = Inr True \<or> (\<exists>e \<in> {}. r = Inl e))) w"
  by (rule delivery_task.atomic [OF assms])

theorem delivery_atomic_witness:
  "wp (GetDeliveryTask sample_ctx) (\<lambda>r w'. let db' = committed (ReleaseConnection w') in
     (db' = sample_db \<or> delivery_task_eff sample_ctx sample_db db') \<and> consistent db'
     \<and> (r = Inr True \<longrightarrow> delivery_task_eff sample_ctx sample_db db')
     \<and> (True \<and> True \<longrightarrow> r = Inr True \<or> (\<exists>e \<in> {}. r = Inl e))) (sample_world sample_db [])"
  by (rule delivery_atomic [OF sample_ctx_valid sample_db_consistent sample_world_idle(2)])

end
