(* ===== verification/Double.thy ===== *)
theory Double
  imports Prelude "HOL-Library.Log_Nat"
begin

text \<open>
  IEEE-754 binary64 arithmetic, as far as the code uses it: \<open>fl\<close> rounds an exact
  rational to the nearest value with a 53-bit significand, ties to even. A C++
  \<open>double\<close> is a rational of the form \<open>fl x\<close> and every operation is the exact one
  followed by \<open>fl\<close>. Exponent range is not bounded: no computation of the program comes
  near the subnormal or overflow range.
\<close>

section \<open>Rounding to 53 bits\<close>

text \<open>Round to the nearest integer, ties to even.\<close>

definition rne :: "rat \<Rightarrow> int" where
  "rne x = (let f = \<lfloor>x\<rfloor>; d = x - of_int f in
     if d < 1 / 2 then f
     else if d > 1 / 2 then f + 1
     else if even f then f else f + 1)"

text \<open>Powers of two with an integer exponent, kept as the ratio of two natural powers.\<close>

definition pow2 :: "int \<Rightarrow> rat" where
  "pow2 e = (if 0 \<le> e then 2 ^ nat e else 1 / 2 ^ nat (- e))"

text \<open>The binary exponent of a positive rational: \<open>2\<^sup>e \<le> x < 2\<^sup>e\<^sup>+\<^sup>1\<close>.\<close>

definition ilog2 :: "rat \<Rightarrow> int" where
  "ilog2 x = (let (n, d) = quotient_of x; k = bitlen n - bitlen d in
     if pow2 k \<le> x then k else k - 1)"

definition fl_pos :: "rat \<Rightarrow> rat" where
  "fl_pos x = (let e = ilog2 x - 52 in of_int (rne (x / pow2 e)) * pow2 e)"

definition fl :: "rat \<Rightarrow> rat" where
  "fl x = (if x = 0 then 0 else if 0 < x then fl_pos x else - fl_pos (- x))"


section \<open>Rounding is monotone and exact on 53-bit integers\<close>

lemma rne_of_int [simp]: "rne (of_int n) = n"
  by (simp add: rne_def)

lemma rne_lower: "\<lfloor>x\<rfloor> \<le> rne x"
  by (simp add: rne_def Let_def)

lemma rne_upper: "rne x \<le> \<lfloor>x\<rfloor> + 1"
  by (simp add: rne_def Let_def)

lemma rne_mono:
  assumes "x \<le> y"
  shows "rne x \<le> rne y"
proof (cases "\<lfloor>x\<rfloor> = \<lfloor>y\<rfloor>")
  case True
  with assms show ?thesis by (simp add: rne_def Let_def)
next
  case False
  moreover have "\<lfloor>x\<rfloor> \<le> \<lfloor>y\<rfloor>" using assms by (rule floor_mono)
  ultimately have "\<lfloor>x\<rfloor> + 1 \<le> \<lfloor>y\<rfloor>" by simp
  then show ?thesis using rne_upper [of x] rne_lower [of y] by linarith
qed

lemma rne_le: "x \<le> of_int n \<Longrightarrow> rne x \<le> n"
  using rne_mono [of x "of_int n"] by simp

lemma rne_ge: "of_int n \<le> x \<Longrightarrow> n \<le> rne x"
  using rne_mono [of "of_int n" x] by simp

lemma pow2_pos [simp]: "0 < pow2 e"
  by (simp add: pow2_def)

lemma pow2_nat [simp]: "pow2 (int n) = 2 ^ n"
  by (simp add: pow2_def)

lemma pow2_Suc: "pow2 (e + 1) = 2 * pow2 e"
proof (cases "0 \<le> e")
  case True
  then show ?thesis by (simp add: pow2_def nat_add_distrib)
next
  case False
  then have "nat (- e) = Suc (nat (- (e + 1)))" by simp
  with False show ?thesis by (auto simp: pow2_def)
qed

lemma pow2_add_nat: "pow2 (e + int n) = 2 ^ n * pow2 e"
proof (induction n)
  case (Suc n)
  have "pow2 (e + int (Suc n)) = pow2 ((e + int n) + 1)"
    by (simp add: algebra_simps)
  then show ?case by (simp add: pow2_Suc Suc.IH)
qed simp

lemma pow2_mono: "e \<le> e' \<Longrightarrow> pow2 e \<le> pow2 e'"
  using pow2_add_nat [of e "nat (e' - e)"] pow2_pos [of e]
    mult_right_mono [of 1 "2 ^ nat (e' - e)" "pow2 e"] by simp

lemma pow2_diff: "pow2 (int a - int b) = 2 ^ a / 2 ^ b"
  using pow2_add_nat [of "int a - int b" b]
  by (simp add: field_simps)

lemma bitlen_bounds_nat:
  assumes "0 < n"
  obtains k where "bitlen n = int (Suc k)" "2 ^ k \<le> n" "n < 2 ^ Suc k"
proof -
  have b: "2 ^ nat (bitlen n - 1) \<le> n \<and> n < 2 ^ nat (bitlen n)"
    using assms by (rule bitlen_bounds)
  have "0 < bitlen n" using bitlen_nonneg [of n] bitlen_eq_zero_iff [of n] assms by linarith
  then have k: "nat (bitlen n) = Suc (nat (bitlen n - 1))" by simp
  with \<open>0 < bitlen n\<close> have "bitlen n = int (Suc (nat (bitlen n - 1)))" by simp
  moreover have "2 ^ nat (bitlen n - 1) \<le> n" "n < 2 ^ Suc (nat (bitlen n - 1))"
    using b unfolding k by blast+
  ultimately show ?thesis by (rule that)
qed

lemma ilog2_bounds:
  assumes "0 < x"
  shows "pow2 (ilog2 x) \<le> x \<and> x < pow2 (ilog2 x + 1)"
proof -
  obtain n d where q: "quotient_of x = (n, d)" by (cases "quotient_of x")
  have d: "0 < d" using q by (rule quotient_of_denom_pos)
  have x: "x = of_int n / of_int d" using q by (rule quotient_of_div)
  have n: "0 < n" using assms d by (simp add: x zero_less_divide_iff)
  obtain a where a: "bitlen n = int (Suc a)" "2 ^ a \<le> n" "n < 2 ^ Suc a"
    using n by (rule bitlen_bounds_nat)
  obtain b where b: "bitlen d = int (Suc b)" "2 ^ b \<le> d" "d < 2 ^ Suc b"
    using d by (rule bitlen_bounds_nat)
  let ?n = "of_int n :: rat" and ?d = "of_int d :: rat"
  have rn: "2 ^ a \<le> ?n" "?n < 2 ^ Suc a"
    using a(2,3) of_int_le_iff [of "2 ^ a" n, where 'a = rat]
      of_int_less_iff [of n "2 ^ Suc a", where 'a = rat] by simp_all
  have rd: "2 ^ b \<le> ?d" "?d < 2 ^ Suc b"
    using b(2,3) of_int_le_iff [of "2 ^ b" d, where 'a = rat]
      of_int_less_iff [of d "2 ^ Suc b", where 'a = rat] by simp_all
  have hi: "x < pow2 (int a - int b + 1)"
  proof -
    have "?n * 2 ^ b < 2 ^ Suc a * ?d"
      using rn rd n by (intro mult_less_le_imp_less) auto
    then have "x < 2 * (2 ^ a / 2 ^ b)"
      using d by (simp add: x field_simps)
    then show ?thesis by (simp only: pow2_Suc pow2_diff)
  qed
  have lo: "pow2 (int a - int b - 1) \<le> x"
  proof -
    have "2 ^ a * ?d \<le> ?n * 2 ^ Suc b"
      using rn rd d n by (intro mult_mono) auto
    then have "2 ^ a / 2 ^ b / 2 \<le> x"
      using d by (simp add: x field_simps)
    moreover have "pow2 (int a - int b) = 2 * pow2 (int a - int b - 1)"
      using pow2_Suc [of "int a - int b - 1"] by simp
    ultimately show ?thesis by (simp add: pow2_diff)
  qed
  have "ilog2 x = (if pow2 (int a - int b) \<le> x then int a - int b else int a - int b - 1)"
    by (simp add: ilog2_def q a(1) b(1))
  then show ?thesis using lo hi by auto
qed

lemma ilog2_unique:
  assumes "pow2 k \<le> x" "x < pow2 (k + 1)"
  shows "ilog2 x = k"
proof -
  have "0 < x" using assms(1) pow2_pos [of k] by linarith
  from ilog2_bounds [OF this] have b: "pow2 (ilog2 x) \<le> x" "x < pow2 (ilog2 x + 1)" by auto
  have "\<not> ilog2 x + 1 \<le> k" "\<not> k + 1 \<le> ilog2 x"
    using pow2_mono [of "ilog2 x + 1" k] pow2_mono [of "k + 1" "ilog2 x"] assms b by linarith+
  then show ?thesis by linarith
qed

lemma fl_pos_bounds:
  assumes "0 < x"
  shows "pow2 (ilog2 x) \<le> fl_pos x \<and> fl_pos x \<le> pow2 (ilog2 x + 1)"
proof -
  let ?e = "ilog2 x - 52"
  have p: "pow2 (ilog2 x) = 2 ^ 52 * pow2 ?e" "pow2 (ilog2 x + 1) = 2 ^ 53 * pow2 ?e"
    using pow2_add_nat [of ?e 52] pow2_add_nat [of ?e 53] by (simp_all add: add.commute)
  have "of_int (2 ^ 52) \<le> x / pow2 ?e" "x / pow2 ?e \<le> of_int (2 ^ 53)"
    using ilog2_bounds [OF assms] p by (simp_all add: field_simps)
  then have "2 ^ 52 \<le> rne (x / pow2 ?e)" "rne (x / pow2 ?e) \<le> 2 ^ 53"
    by (auto intro: rne_ge rne_le)
  then have "(2 :: rat) ^ 52 \<le> of_int (rne (x / pow2 ?e))"
    "of_int (rne (x / pow2 ?e)) \<le> (2 :: rat) ^ 53"
    by (simp_all add: of_int_le_iff [symmetric] del: of_int_le_iff)
  then show ?thesis by (simp add: fl_pos_def Let_def p mult_right_mono)
qed

lemma fl_pos_mono:
  assumes "0 < x" "x \<le> y"
  shows "fl_pos x \<le> fl_pos y"
proof (cases "ilog2 x = ilog2 y")
  case True
  have "rne (x / pow2 (ilog2 y - 52)) \<le> rne (y / pow2 (ilog2 y - 52))"
    using assms by (intro rne_mono divide_right_mono) (auto intro: less_imp_le)
  with True show ?thesis
    by (simp add: fl_pos_def Let_def mult_right_mono less_imp_le)
next
  case False
  have y: "0 < y" using assms by linarith
  have "\<not> ilog2 y + 1 \<le> ilog2 x"
    using pow2_mono [of "ilog2 y + 1" "ilog2 x"] ilog2_bounds [OF assms(1)]
      ilog2_bounds [OF y] assms(2) by linarith
  with False have "ilog2 x + 1 \<le> ilog2 y" by linarith
  then have "pow2 (ilog2 x + 1) \<le> pow2 (ilog2 y)" by (rule pow2_mono)
  then show ?thesis using fl_pos_bounds [OF assms(1)] fl_pos_bounds [OF y] by linarith
qed

lemma fl_pos_gt_0: "0 < x \<Longrightarrow> 0 < fl_pos x"
  using fl_pos_bounds [of x] pow2_pos [of "ilog2 x"] by linarith

lemma fl_0 [simp]: "fl 0 = 0"
  by (simp add: fl_def)

lemma fl_mono:
  assumes "x \<le> y"
  shows "fl x \<le> fl y"
proof -
  consider "0 < x" | "y < 0" | "x \<le> 0" "0 \<le> y" by linarith
  then show ?thesis
  proof cases
    case 1
    with assms show ?thesis by (simp add: fl_def fl_pos_mono)
  next
    case 2
    with assms show ?thesis by (simp add: fl_def fl_pos_mono)
  next
    case 3
    then have "fl x \<le> 0" "0 \<le> fl y"
      using fl_pos_gt_0 [of "- x"] fl_pos_gt_0 [of y] by (auto simp: fl_def)
    then show ?thesis by linarith
  qed
qed

lemma fl_nonneg: "0 \<le> x \<Longrightarrow> 0 \<le> fl x"
  using fl_mono [of 0 x] by simp

lemma fl_of_nat:
  assumes "n < 2 ^ 53"
  shows "fl (of_nat n) = of_nat n"
proof (cases "n = 0")
  case False
  let ?x = "of_nat n :: rat"
  have pos: "0 < ?x" using False by simp
  have "?x < 2 ^ 53"
    using assms of_nat_less_iff [of n "2 ^ 53", where 'a = rat] by simp
  then have le: "ilog2 ?x \<le> 52"
    using ilog2_bounds [OF pos] pow2_mono [of 53 "ilog2 ?x"] pow2_nat [of 53] by force
  define m where "m = nat (52 - ilog2 ?x)"
  have e: "ilog2 ?x - 52 = - int m" using le by (simp add: m_def)
  have p: "pow2 (- int m) = 1 / 2 ^ m" using pow2_diff [of 0 m] by simp
  have "?x / pow2 (- int m) = of_int (int n * 2 ^ m)" by (simp add: p)
  then have "fl_pos ?x = of_int (int n * 2 ^ m) * pow2 (- int m)"
    by (simp only: fl_pos_def Let_def e rne_of_int)
  then show ?thesis using pos by (simp add: fl_def p)
qed simp

lemma fl_of_nat_le:
  assumes "x \<le> of_nat n" "n < 2 ^ 53"
  shows "fl x \<le> of_nat n"
  using fl_mono [OF assms(1)] fl_of_nat [OF assms(2)] by simp

lemma fl_numeral: "numeral k < (2 ^ 53 :: nat) \<Longrightarrow> fl (numeral k) = numeral k"
  using fl_of_nat [of "numeral k"] by simp

end
