(* ===== verification/Histogram.thy ===== *)
theory Histogram
  imports Double
begin

text \<open>
  The latency histogram, \<open>src/src/histogram.h\<close> and \<open>src/src/histogram.cpp\<close>: one bucket
  per value below \<open>HdrTill_\<close>, then buckets of doubling width, then one overflow bucket.
  All counters and indices are 64-bit words, as in the code. The specification is a
  partition of the natural numbers into intervals (\<open>bucket_range\<close>) and the multiset of
  recorded values.
\<close>

section \<open>State and operations\<close>

record THistogram =
  HdrTill :: u64
  MaxValue :: u64
  Buckets :: "u64 list"
  TotalCount :: u64
  MaxRecordedValue :: u64

text \<open>
  The loop of \<open>GetExponentialBucketCount\<close> doubles a 64-bit \<open>range\<close> until it passes
  \<open>MaxValue_\<close>; it need not end, so not returning is \<open>None\<close>.
\<close>

partial_function (option) exp_bucket_loop :: "u64 \<Rightarrow> u64 \<Rightarrow> u64 \<Rightarrow> u64 option" where
  "exp_bucket_loop maxValue rng cnt =
     (if rng \<le> maxValue then exp_bucket_loop maxValue (rng * 2) (cnt + 1)
      else Some cnt)"

declare exp_bucket_loop.simps [code]

definition GetExponentialBucketCount :: "THistogram \<Rightarrow> u64 option" where
  "GetExponentialBucketCount h = exp_bucket_loop (MaxValue h) (HdrTill h * 2) 0"

definition GetTotalBuckets :: "THistogram \<Rightarrow> u64 option" where
  "GetTotalBuckets h = map_option (\<lambda>c. HdrTill h + c + 1) (GetExponentialBucketCount h)"

definition new_THistogram :: "u64 \<Rightarrow> u64 \<Rightarrow> THistogram result option" where
  "new_THistogram hdrTill maxValue =
     (let h = \<lparr>HdrTill = hdrTill, MaxValue = maxValue, Buckets = [], TotalCount = 0,
               MaxRecordedValue = 0\<rparr> in
      if hdrTill = 0 \<or> maxValue = 0 \<or> hdrTill > maxValue
      then Some (Inl (InvalidArgument ''Invalid histogram parameters''))
      else (case GetTotalBuckets h of
              None \<Rightarrow> None
            | Some totalBuckets \<Rightarrow>
                Some (Inr (h\<lparr>Buckets := replicate (unat totalBuckets) 0\<rparr>))))"

function bucket_index_loop :: "u64 \<Rightarrow> u64 \<Rightarrow> u64 \<Rightarrow> u64 \<Rightarrow> u64 \<Rightarrow> u64" where
  "bucket_index_loop v sz bucketStart bucketSize bucketIndex =
     (if bucketIndex < sz - 1 then
        (let bucketEnd = bucketStart + bucketSize in
         if v < bucketEnd then bucketIndex
         else bucket_index_loop v sz bucketEnd (bucketSize * 2) (bucketIndex + 1))
      else sz - 1)"
  by pat_completeness auto
termination
  by (relation "measure (\<lambda>(v, sz, st, bs, i). unat (sz - 1) - unat i)")
     (auto simp: unat_Suc_u64 word_less_nat_alt)

definition GetBucketIndex :: "THistogram \<Rightarrow> u64 \<Rightarrow> u64" where
  "GetBucketIndex h v =
     (if v < HdrTill h then v
      else bucket_index_loop v (vsize (Buckets h)) (HdrTill h) (HdrTill h) (HdrTill h))"

function upper_bound_loop :: "u64 \<Rightarrow> u64 \<Rightarrow> u64 \<Rightarrow> u64 \<Rightarrow> u64" where
  "upper_bound_loop bucketIndex bucketStart bucketSize currentBucket =
     (if currentBucket < bucketIndex then
        upper_bound_loop bucketIndex (bucketStart + bucketSize) (bucketSize * 2)
          (currentBucket + 1)
      else bucketStart + bucketSize)"
  by pat_completeness auto
termination
  by (relation "measure (\<lambda>(i, st, bs, c). unat i - unat c)")
     (auto simp: unat_Suc_u64 word_less_nat_alt)

definition GetBucketUpperBound :: "THistogram \<Rightarrow> u64 \<Rightarrow> u64" where
  "GetBucketUpperBound h bucketIndex =
     (if bucketIndex < HdrTill h then bucketIndex + 1
      else if bucketIndex = vsize (Buckets h) - 1
      then (if MaxRecordedValue h > 0 then MaxRecordedValue h else u64_max)
      else upper_bound_loop bucketIndex (HdrTill h) (HdrTill h) (HdrTill h))"

definition RecordValue :: "u64 \<Rightarrow> THistogram \<Rightarrow> THistogram result" where
  "RecordValue v h =
     (let bucketIndex = GetBucketIndex h v in
      if bucketIndex \<ge> vsize (Buckets h)
      then Inl (RuntimeError ''THistogram internal error'')
      else Inr (h\<lparr>Buckets := (Buckets h)[unat bucketIndex := Buckets h ! unat bucketIndex + 1],
                  TotalCount := TotalCount h + 1,
                  MaxRecordedValue := max (MaxRecordedValue h) v\<rparr>))"

text \<open>
  The loops of \<open>Add\<close> and \<open>Sub\<close> run over the indices both vectors have.
\<close>

definition combine_buckets :: "(u64 \<Rightarrow> u64 \<Rightarrow> u64) \<Rightarrow> u64 list \<Rightarrow> u64 list \<Rightarrow> u64 list" where
  "combine_buckets f xs ys = map2 f xs ys @ drop (length ys) xs"

definition Add :: "THistogram \<Rightarrow> THistogram \<Rightarrow> THistogram result" where
  "Add h other =
     (if HdrTill h \<noteq> HdrTill other \<or> MaxValue h \<noteq> MaxValue other
      then Inl (InvalidArgument ''Cannot add histograms with different parameters'')
      else Inr (h\<lparr>Buckets := combine_buckets (+) (Buckets h) (Buckets other),
                  TotalCount := TotalCount h + TotalCount other,
                  MaxRecordedValue := max (MaxRecordedValue h) (MaxRecordedValue other)\<rparr>))"

definition Sub :: "THistogram \<Rightarrow> THistogram \<Rightarrow> THistogram result" where
  "Sub h other =
     (if HdrTill h \<noteq> HdrTill other \<or> MaxValue h \<noteq> MaxValue other
      then Inl (InvalidArgument ''Cannot sub histograms with different parameters'')
      else Inr (h\<lparr>Buckets := combine_buckets (-) (Buckets h) (Buckets other),
                  TotalCount := TotalCount h - TotalCount other\<rparr>))"

text \<open>
  \<open>targetCount\<close>: the percentile is a \<open>double\<close>, the count is converted to one, and
  each operation rounds.
\<close>

definition percentile_target :: "rat \<Rightarrow> u64 \<Rightarrow> u64" where
  "percentile_target percentile cnt =
     word_of_int \<lceil>fl (fl (percentile * fl (of_nat (unat cnt))) / 100)\<rceil>"

fun percentile_loop :: "u64 \<Rightarrow> u64 \<Rightarrow> u64 \<Rightarrow> u64 list \<Rightarrow> u64 option" where
  "percentile_loop targetCount currentCount i [] = None"
| "percentile_loop targetCount currentCount i (b # bs) =
     (let currentCount' = currentCount + b in
      if currentCount' \<ge> targetCount then Some i
      else percentile_loop targetCount currentCount' (i + 1) bs)"

definition GetValueAtPercentile :: "THistogram \<Rightarrow> rat \<Rightarrow> u64 result" where
  "GetValueAtPercentile h percentile =
     (if percentile < 0 \<or> percentile > 100
      then Inl (InvalidArgument ''Percentile must be between 0 and 100'')
      else if TotalCount h = 0 then Inr 0
      else (case percentile_loop (percentile_target percentile (TotalCount h)) 0 0 (Buckets h) of
              Some i \<Rightarrow> Inr (GetBucketUpperBound h i)
            | None \<Rightarrow> Inr u64_max))"

definition Reset :: "THistogram \<Rightarrow> THistogram" where
  "Reset h = h\<lparr>Buckets := map (\<lambda>_. 0) (Buckets h), TotalCount := 0, MaxRecordedValue := 0\<rparr>"

declare bucket_index_loop.simps [simp del] upper_bound_loop.simps [simp del]

text \<open>The loops' equations, one per outcome of the guards: they evaluate closed terms.\<close>

lemma bucket_index_loop_eval:
  "i < sz - 1 \<Longrightarrow> v < st + bs \<Longrightarrow> bucket_index_loop v sz st bs i = i"
  "i < sz - 1 \<Longrightarrow> st + bs \<le> v \<Longrightarrow>
     bucket_index_loop v sz st bs i = bucket_index_loop v sz (st + bs) (bs * 2) (i + 1)"
  "sz - 1 \<le> i \<Longrightarrow> bucket_index_loop v sz st bs i = sz - 1"
  by (simp_all add: bucket_index_loop.simps [of v sz st bs i] not_less [symmetric])

lemma upper_bound_loop_eval:
  "c < i \<Longrightarrow> upper_bound_loop i st bs c = upper_bound_loop i (st + bs) (bs * 2) (c + 1)"
  "i \<le> c \<Longrightarrow> upper_bound_loop i st bs c = st + bs"
  by (simp_all add: upper_bound_loop.simps [of i st bs c] not_less [symmetric])


section \<open>Shape invariant\<close>

text \<open>
  The number of doubling buckets, read off the vector, and the invariant: the vector has
  one slot per small value, one per doubling bucket and one for the overflow, and the
  overflow bucket starts at \<open>HdrTill_ * 2\<^sup>E\<close>, the last such value that does not pass
  \<open>MaxValue_\<close>. \<open>MaxValue_\<close> below \<open>2\<^sup>6\<^sup>3\<close> is what keeps the doublings from wrapping.
\<close>

definition nexp :: "THistogram \<Rightarrow> nat" where
  "nexp h = length (Buckets h) - unat (HdrTill h) - 1"

definition wf_hist :: "THistogram \<Rightarrow> bool" where
  "wf_hist h \<longleftrightarrow> 0 < HdrTill h \<and> HdrTill h \<le> MaxValue h \<and> unat (MaxValue h) < 2 ^ 63
     \<and> unat (HdrTill h) < length (Buckets h)
     \<and> unat (HdrTill h) * 2 ^ nexp h \<le> unat (MaxValue h)
     \<and> unat (MaxValue h) < unat (HdrTill h) * 2 ^ Suc (nexp h)"

lemma exp_bucket_loop_returns:
  assumes "unat maxValue < 2 ^ 63" "0 < unat r"
  shows "\<exists>e. exp_bucket_loop maxValue r c = Some (c + word_of_nat e)
     \<and> (\<forall>j < e. unat r * 2 ^ j \<le> unat maxValue) \<and> unat maxValue < unat r * 2 ^ e"
  using assms(2)
proof (induction "Suc (unat maxValue) - unat r" arbitrary: r c rule: less_induct)
  case less
  show ?case
  proof (cases "r \<le> maxValue")
    case False
    then show ?thesis
      by (intro exI [of _ 0]) (simp add: exp_bucket_loop.simps word_le_nat_alt)
  next
    case True
    then have rm: "unat r \<le> unat maxValue" by (simp add: word_le_nat_alt)
    then have r2: "unat (r * 2) = 2 * unat r"
      using assms(1) by (intro unat_double_u64) simp
    have "Suc (unat maxValue) - unat (r * 2) < Suc (unat maxValue) - unat r"
      using rm less.prems by (simp add: r2)
    from less.hyps [OF this, of "c + 1"] obtain e where
      e: "exp_bucket_loop maxValue (r * 2) (c + 1) = Some (c + 1 + word_of_nat e)"
         "\<forall>j < e. 2 * unat r * 2 ^ j \<le> unat maxValue"
         "unat maxValue < 2 * unat r * 2 ^ e"
      using less.prems by (auto simp: r2)
    have "\<forall>j < Suc e. unat r * 2 ^ j \<le> unat maxValue"
      using e(2) rm by (auto simp: less_Suc_eq_0_disj mult.assoc mult.left_commute)
    with e True show ?thesis
      by (intro exI [of _ "Suc e"]) (simp add: exp_bucket_loop.simps [of _ r] algebra_simps)
  qed
qed

lemma pow2_exponent_bound:
  assumes "H * 2 ^ E < (2 :: nat) ^ 63" "0 < H"
  shows "E < 63"
proof (rule ccontr)
  assume "\<not> E < 63"
  then have "(2 :: nat) ^ 63 \<le> 2 ^ E" by (intro power_increasing) auto
  also have "\<dots> \<le> H * 2 ^ E" using assms(2) by simp
  finally show False using assms(1) by simp
qed

lemma new_THistogram_ok:
  assumes "0 < H" "H \<le> M" "unat M < 2 ^ 63"
  shows "\<exists>h. new_THistogram H M = Some (Inr h) \<and> wf_hist h \<and> HdrTill h = H \<and> MaxValue h = M
     \<and> (\<forall>b \<in> set (Buckets h). b = 0) \<and> TotalCount h = 0 \<and> MaxRecordedValue h = 0"
proof -
  have H: "0 < unat H" "unat H \<le> unat M"
    using assms by (simp_all add: word_le_nat_alt word_less_nat_alt unat_gt_0)
  have h2: "unat (H * 2) = 2 * unat H" using H assms(3) by (intro unat_double_u64) simp
  obtain e where e: "exp_bucket_loop M (H * 2) 0 = Some (word_of_nat e)"
    "\<forall>j < e. 2 * unat H * 2 ^ j \<le> unat M" "unat M < 2 * unat H * 2 ^ e"
    using exp_bucket_loop_returns [OF assms(3), of "H * 2" 0] H h2 by auto
  have lo: "unat H * 2 ^ e \<le> unat M"
    using e(2) H by (cases e) (auto simp: mult.assoc mult.left_commute)
  then have e63: "e < 63" using assms(3) H by (intro pow2_exponent_bound [of "unat H"]) auto
  have tot: "unat (H + word_of_nat e + 1) = unat H + e + 1"
    using e63 H assms(3)
    by (subst unat_add_u64; simp add: unat_add_u64 unat_of_nat)
  have "M \<noteq> 0" "H \<noteq> 0" "\<not> M < H" using assms by auto
  with e tot lo H assms show ?thesis
    by (auto simp: new_THistogram_def Let_def GetTotalBuckets_def GetExponentialBucketCount_def
        wf_hist_def nexp_def)
qed

lemma new_THistogram_rejects:
  "H = 0 \<or> M = 0 \<or> M < H \<Longrightarrow>
     new_THistogram H M = Some (Inl (InvalidArgument ''Invalid histogram parameters''))"
  by (auto simp: new_THistogram_def Let_def)

lemma wf_hist_length:
  assumes "wf_hist h"
  shows "length (Buckets h) = unat (HdrTill h) + nexp h + 1" "length (Buckets h) < 2 ^ 64"
    "nexp h < 63" "unat (vsize (Buckets h)) = unat (HdrTill h) + nexp h + 1"
    "unat (vsize (Buckets h) - 1) = unat (HdrTill h) + nexp h"
proof -
  show l: "length (Buckets h) = unat (HdrTill h) + nexp h + 1"
    using assms by (auto simp: wf_hist_def nexp_def)
  have H: "0 < unat (HdrTill h)" "unat (HdrTill h) * 2 ^ nexp h < 2 ^ 63"
    using assms by (auto simp: wf_hist_def word_less_nat_alt)
  then show e: "nexp h < 63" by (intro pow2_exponent_bound) auto
  have "unat (HdrTill h) \<le> unat (HdrTill h) * 2 ^ nexp h" by simp
  with H have "unat (HdrTill h) < 2 ^ 63" by linarith
  with e show b: "length (Buckets h) < 2 ^ 64" by (simp add: l)
  then show s: "unat (vsize (Buckets h)) = unat (HdrTill h) + nexp h + 1"
    by (simp add: unat_vsize l)
  then have "1 \<le> vsize (Buckets h)" by (simp add: word_le_nat_alt)
  then show "unat (vsize (Buckets h) - 1) = unat (HdrTill h) + nexp h"
    by (simp add: unat_sub s)
qed


section \<open>Bucket arithmetic\<close>

text \<open>The specification: which values bucket \<open>i\<close> of a histogram with \<open>H\<close> unit buckets
  and \<open>E\<close> doubling buckets stands for.\<close>

definition bucket_range :: "nat \<Rightarrow> nat \<Rightarrow> nat \<Rightarrow> nat set" where
  "bucket_range H E i =
     (if i < H then {i}
      else if i < H + E then {H * 2 ^ (i - H) ..< H * 2 ^ Suc (i - H)}
      else {H * 2 ^ E ..})"

definition range_of :: "THistogram \<Rightarrow> u64 \<Rightarrow> nat set" where
  "range_of h i = bucket_range (unat (HdrTill h)) (nexp h) (unat i)"

lemma bucket_range_ordered:
  assumes "i < j" "j \<le> H + E" "x \<in> bucket_range H E i" "y \<in> bucket_range H E j"
  shows "x < y"
proof -
  have lo: "H * 2 ^ min (j - H) E \<le> y" if "H \<le> j"
    using assms(2,4) that by (auto simp: bucket_range_def min_def split: if_splits)
  show ?thesis
  proof (cases "i < H")
    case True
    have "H \<le> H * 2 ^ min (j - H) E" by simp
    then have "H \<le> y" if "H \<le> j" using lo [OF that] by (rule order_trans)
    with True assms show ?thesis by (cases "H \<le> j") (auto simp: bucket_range_def)
  next
    case False
    then have "x < H * 2 ^ Suc (i - H)" using assms by (simp add: bucket_range_def)
    also have "\<dots> \<le> H * 2 ^ min (j - H) E"
      using False assms(1,2) by (intro mult_le_mono power_increasing) auto
    also have "\<dots> \<le> y" using False assms(1) by (intro lo) simp
    finally show ?thesis .
  qed
qed

text \<open>Doubling a bucket that ends below \<open>2\<^sup>6\<^sup>3\<close> does not wrap.\<close>

lemma doubling_step:
  assumes "unat (st :: u64) = H * 2 ^ j" "unat (bs :: u64) = H * 2 ^ j" "H * 2 ^ Suc j < 2 ^ 63"
  shows "unat (st + bs) = H * 2 ^ Suc j" "unat (bs * 2) = H * 2 ^ Suc j"
proof -
  have "H * 2 ^ Suc j = H * 2 ^ j + H * 2 ^ j" by simp
  with assms show "unat (st + bs) = H * 2 ^ Suc j" "unat (bs * 2) = H * 2 ^ Suc j"
    by (simp_all add: unat_add_u64 unat_double_u64)
qed

lemma bucket_index_loop_spec:
  assumes "unat sz = H + E + 1" "H * 2 ^ E < 2 ^ 63" "0 < H"
    and "j \<le> E" "unat st = H * 2 ^ j" "unat bs = H * 2 ^ j" "unat i = H + j" "H * 2 ^ j \<le> unat v"
  shows "\<exists>k \<le> E. unat (bucket_index_loop v sz st bs i) = H + k
     \<and> H * 2 ^ k \<le> unat v \<and> (k < E \<longrightarrow> unat v < H * 2 ^ Suc k)"
  using assms(4-8)
proof (induction "E - j" arbitrary: j st bs i)
  case 0
  have "1 \<le> sz" using assms(1) by (simp add: word_le_nat_alt)
  then have "unat (sz - 1) = H + E" using assms(1) by (simp add: unat_sub)
  with 0 show ?case
    by (intro exI [of _ E]) (auto simp: bucket_index_loop.simps [of v sz st bs i] word_less_nat_alt)
next
  case (Suc n)
  have "1 \<le> sz" using assms(1) by (simp add: word_le_nat_alt)
  then have sz1: "unat (sz - 1) = H + E" using assms(1) by (simp add: unat_sub)
  have jE: "j < E" using Suc.hyps(2) by simp
  have le: "H * 2 ^ Suc j \<le> H * 2 ^ E"
    using jE by (intro mult_le_mono power_increasing) auto
  have lt: "i < sz - 1" using jE Suc.prems by (simp add: word_less_nat_alt sz1)
  have e: "unat (st + bs) = H * 2 ^ Suc j" and b: "unat (bs * 2) = H * 2 ^ Suc j"
    using doubling_step [OF Suc.prems(2,3)] order_le_less_trans [OF le assms(2)] by blast+
  have i: "unat (i + 1) = H + Suc j" using lt Suc.prems by (simp add: unat_Suc_u64)
  show ?case
  proof (cases "v < st + bs")
    case True
    with lt jE e Suc.prems show ?thesis
      by (intro exI [of _ j]) (simp add: bucket_index_loop.simps [of v sz st bs i] word_less_nat_alt)
  next
    case False
    then have "H * 2 ^ Suc j \<le> unat v" using e by (simp add: word_less_nat_alt)
    with Suc.hyps(1) [of "Suc j" "st + bs" "bs * 2" "i + 1"] Suc.hyps(2) e b i jE
    show ?thesis using False lt by (simp add: bucket_index_loop.simps [of v sz st bs i])
  qed
qed

lemma GetBucketIndex_in_range:
  assumes "wf_hist h"
  shows "unat (GetBucketIndex h v) \<le> unat (HdrTill h) + nexp h
     \<and> unat v \<in> range_of h (GetBucketIndex h v)"
proof (cases "v < HdrTill h")
  case True
  then show ?thesis by (simp add: GetBucketIndex_def range_of_def bucket_range_def word_less_nat_alt)
next
  case False
  let ?H = "unat (HdrTill h)"
  have "0 < ?H" "?H * 2 ^ nexp h < 2 ^ 63"
    using assms by (auto simp: wf_hist_def word_less_nat_alt)
  with bucket_index_loop_spec [of "vsize (Buckets h)" ?H "nexp h" 0 "HdrTill h" "HdrTill h"
      "HdrTill h" v] False wf_hist_length [OF assms]
  show ?thesis
    by (auto simp: GetBucketIndex_def range_of_def bucket_range_def word_less_nat_alt)
qed

lemma GetBucketIndex_mono:
  assumes "wf_hist h" "v \<le> w"
  shows "GetBucketIndex h v \<le> GetBucketIndex h w"
proof (rule ccontr)
  assume "\<not> ?thesis"
  then have "unat (GetBucketIndex h w) < unat (GetBucketIndex h v)"
    by (simp add: word_less_nat_alt not_le)
  then have "unat w < unat v"
    using GetBucketIndex_in_range [OF assms(1), of v] GetBucketIndex_in_range [OF assms(1), of w]
      bucket_range_ordered [of "unat (GetBucketIndex h w)" "unat (GetBucketIndex h v)"]
    by (auto simp: range_of_def)
  with assms(2) show False by (simp add: word_le_nat_alt)
qed

lemma GetBucketIndex_lt_size:
  "wf_hist h \<Longrightarrow> GetBucketIndex h v < vsize (Buckets h)"
  using GetBucketIndex_in_range [of h v] wf_hist_length(4) [of h]
  by (simp add: word_less_nat_alt)

lemma upper_bound_loop_spec:
  assumes "H * 2 ^ Suc (unat i - H) < 2 ^ 63"
    and "unat st = H * 2 ^ j" "unat bs = H * 2 ^ j" "unat c = H + j" "unat c \<le> unat i"
  shows "unat (upper_bound_loop i st bs c) = H * 2 ^ Suc (unat i - H)"
  using assms(2-5)
proof (induction "unat i - unat c" arbitrary: j st bs c)
  case 0
  then have i: "unat i = H + j" by simp
  then have "H * 2 ^ Suc j < 2 ^ 63" using assms(1) by simp
  then have "unat (st + bs) = H * 2 ^ Suc j"
    using doubling_step(1) [OF "0.prems"(1,2)] by blast
  with 0 i show ?case
    by (subst upper_bound_loop.simps) (simp add: word_less_nat_alt)
next
  case (Suc n)
  have lt: "c < i" using Suc.hyps(2) by (simp add: word_less_nat_alt)
  then have "H * 2 ^ Suc j \<le> H * 2 ^ Suc (unat i - H)"
    using Suc.prems Suc.hyps(2) by (intro mult_le_mono power_increasing) auto
  then have s: "unat (st + bs) = H * 2 ^ Suc j" "unat (bs * 2) = H * 2 ^ Suc j"
    using doubling_step [OF Suc.prems(1,2)] order_le_less_trans [OF _ assms(1)] by blast+
  have c: "unat (c + 1) = H + Suc j" using lt Suc.prems by (simp add: unat_Suc_u64)
  have "unat (upper_bound_loop i (st + bs) (bs * 2) (c + 1)) = H * 2 ^ Suc (unat i - H)"
    using Suc.hyps(2) Suc.prems lt by (intro Suc.hyps(1) [OF _ s c]) (auto simp: c)
  with lt show ?case by (subst upper_bound_loop.simps) simp
qed

text \<open>Every bucket but the overflow one is bounded by its upper bound, exclusively.\<close>

lemma GetBucketUpperBound_exact:
  assumes "wf_hist h" "unat i < unat (HdrTill h) + nexp h"
  shows "(\<forall>v \<in> range_of h i. v < unat (GetBucketUpperBound h i))
     \<and> unat (GetBucketUpperBound h i) - 1 \<in> range_of h i
     \<and> 0 < unat (GetBucketUpperBound h i)"
proof (cases "i < HdrTill h")
  case True
  then show ?thesis
    by (auto simp: GetBucketUpperBound_def range_of_def bucket_range_def word_less_nat_alt
        unat_Suc_u64)
next
  case False
  let ?H = "unat (HdrTill h)"
  have H: "0 < ?H" "?H * 2 ^ nexp h < 2 ^ 63"
    using assms by (auto simp: wf_hist_def word_less_nat_alt)
  have "?H * 2 ^ Suc (unat i - ?H) \<le> ?H * 2 ^ nexp h"
    using assms(2) False by (intro mult_le_mono power_increasing) (auto simp: word_less_nat_alt)
  with H have "?H * 2 ^ Suc (unat i - ?H) < 2 ^ 63" by linarith
  then have "unat (upper_bound_loop i (HdrTill h) (HdrTill h) (HdrTill h)) = ?H * 2 ^ Suc (unat i - ?H)"
    using False upper_bound_loop_spec [of ?H i "HdrTill h" 0 "HdrTill h" "HdrTill h"]
    by (simp add: word_less_nat_alt)
  moreover have "i \<noteq> vsize (Buckets h) - 1"
    using assms wf_hist_length(5) [OF assms(1)] by auto
  ultimately show ?thesis using False assms(2) H
    by (auto simp: GetBucketUpperBound_def range_of_def bucket_range_def word_less_nat_alt)
qed


section \<open>The recorded multiset\<close>

text \<open>
  A histogram represents the multiset \<open>M\<close> of values recorded into it: each bucket
  counts the values of its range, the total is the number of values, and the maximum is
  the largest value (0 for none).
\<close>

definition bucket_content :: "THistogram \<Rightarrow> u64 multiset \<Rightarrow> nat \<Rightarrow> nat" where
  "bucket_content h M i = size {#v \<in># M. unat (GetBucketIndex h v) = i#}"

definition represents :: "THistogram \<Rightarrow> u64 multiset \<Rightarrow> bool" where
  "represents h M \<longleftrightarrow> wf_hist h
     \<and> (\<forall>i < length (Buckets h). Buckets h ! i = word_of_nat (bucket_content h M i))
     \<and> TotalCount h = word_of_nat (size M)
     \<and> MaxRecordedValue h = Max (insert 0 (set_mset M))"

text \<open>Two histograms of the same shape put every value into the same bucket.\<close>

definition same_shape :: "THistogram \<Rightarrow> THistogram \<Rightarrow> bool" where
  "same_shape h h' \<longleftrightarrow> HdrTill h = HdrTill h' \<and> MaxValue h = MaxValue h'
     \<and> length (Buckets h) = length (Buckets h')"

lemma same_shape_index: "same_shape h h' \<Longrightarrow> GetBucketIndex h = GetBucketIndex h'"
  by (simp add: fun_eq_iff same_shape_def GetBucketIndex_def vsize_def)

lemma same_shape_wf: "same_shape h h' \<Longrightarrow> wf_hist h = wf_hist h'"
  by (simp add: same_shape_def wf_hist_def nexp_def)

lemma same_shape_content: "same_shape h h' \<Longrightarrow> bucket_content h = bucket_content h'"
  by (simp add: fun_eq_iff bucket_content_def same_shape_index)

lemma wf_hist_nexp_unique:
  assumes "wf_hist h" "wf_hist h'" "HdrTill h = HdrTill h'" "MaxValue h = MaxValue h'"
  shows "same_shape h h'"
proof -
  let ?H = "unat (HdrTill h)"
  have *: "\<not> a < b" if "unat (MaxValue h) < ?H * 2 ^ Suc a" "?H * 2 ^ b \<le> unat (MaxValue h)" for a b
  proof
    assume "a < b"
    then have "?H * 2 ^ Suc a \<le> ?H * 2 ^ b" by (intro mult_le_mono power_increasing) auto
    with that show False by linarith
  qed
  have "nexp h = nexp h'"
    using * [of "nexp h" "nexp h'"] * [of "nexp h'" "nexp h"] assms
    by (auto simp: wf_hist_def)
  with assms show ?thesis by (simp add: same_shape_def wf_hist_length(1))
qed

lemma bucket_content_add: "bucket_content h (M + N) i = bucket_content h M i + bucket_content h N i"
  by (simp add: bucket_content_def)

lemma Max_insert0_add_mset:
  "Max (insert (0 :: u64) (set_mset (add_mset v M))) = max (Max (insert 0 (set_mset M))) v"
proof -
  have "insert 0 (set_mset (add_mset v M)) = insert v (insert (0 :: u64) (set_mset M))" by auto
  then show ?thesis by (simp only: Max_insert finite_insert finite_set_mset insert_not_empty max.commute) simp
qed

lemma Max_insert0_union:
  "Max (insert (0 :: u64) (set_mset (M + N))) = max (Max (insert 0 (set_mset M))) (Max (insert 0 (set_mset N)))"
proof -
  have "insert 0 (set_mset (M + N)) = insert 0 (set_mset M) \<union> insert (0 :: u64) (set_mset N)" by auto
  then show ?thesis by (simp only:) (rule Max_Un, auto)
qed

lemma new_THistogram_represents:
  "0 < H \<Longrightarrow> H \<le> M \<Longrightarrow> unat M < 2 ^ 63 \<Longrightarrow>
     \<exists>h. new_THistogram H M = Some (Inr h) \<and> represents h {#} \<and> HdrTill h = H \<and> MaxValue h = M"
  using new_THistogram_ok [of H M] by (auto simp: represents_def bucket_content_def)

lemma RecordValue_represents:
  assumes "represents h M"
  shows "\<exists>h'. RecordValue v h = Inr h' \<and> represents h' (add_mset v M) \<and> same_shape h h'"
proof -
  have wf: "wf_hist h" using assms by (simp add: represents_def)
  let ?i = "unat (GetBucketIndex h v)"
  have i: "?i < length (Buckets h)"
    using GetBucketIndex_in_range [OF wf, of v] wf_hist_length(1) [OF wf] by simp
  define h' where "h' = h\<lparr>Buckets := (Buckets h)[?i := Buckets h ! ?i + 1],
      TotalCount := TotalCount h + 1, MaxRecordedValue := max (MaxRecordedValue h) v\<rparr>"
  have sh: "same_shape h h'" by (simp add: same_shape_def h'_def)
  have rec: "RecordValue v h = Inr h'"
    using GetBucketIndex_lt_size [OF wf, of v] by (simp add: RecordValue_def Let_def not_le h'_def)
  have "Buckets h' ! k = word_of_nat (bucket_content h (add_mset v M) k)"
    if "k < length (Buckets h')" for k
    using that assms i by (auto simp: represents_def bucket_content_def nth_list_update h'_def)
  moreover have "wf_hist h'" using wf same_shape_wf [OF sh] by simp
  moreover have "TotalCount h' = word_of_nat (size (add_mset v M))"
    "MaxRecordedValue h' = Max (insert 0 (set_mset (add_mset v M)))"
    using assms by (simp_all only: represents_def Max_insert0_add_mset) (simp_all add: h'_def)
  ultimately have "represents h' (add_mset v M)"
    unfolding represents_def same_shape_content [OF sh] by blast
  with rec sh show ?thesis by blast
qed

lemma nth_combine_buckets:
  "length xs = length ys \<Longrightarrow> i < length xs \<Longrightarrow> combine_buckets f xs ys ! i = f (xs ! i) (ys ! i)"
  by (simp add: combine_buckets_def nth_append)

lemma length_combine_buckets: "length (combine_buckets f xs ys) = length xs"
  by (simp add: combine_buckets_def)

lemma Add_represents:
  assumes "represents h M" "represents h' N" "HdrTill h = HdrTill h'" "MaxValue h = MaxValue h'"
  shows "\<exists>h''. Add h h' = Inr h'' \<and> represents h'' (M + N) \<and> same_shape h h''"
proof -
  let ?h = "h\<lparr>Buckets := combine_buckets (+) (Buckets h) (Buckets h'),
      TotalCount := TotalCount h + TotalCount h',
      MaxRecordedValue := max (MaxRecordedValue h) (MaxRecordedValue h')\<rparr>"
  have sh: "same_shape h ?h" by (simp add: same_shape_def length_combine_buckets)
  have hh: "same_shape h h'"
    using assms by (intro wf_hist_nexp_unique) (auto simp: represents_def)
  have "represents ?h (M + N)"
    using assms hh same_shape_wf [OF sh] same_shape_content [OF sh] same_shape_content [OF hh]
    by (auto simp: represents_def length_combine_buckets nth_combine_buckets bucket_content_add
        Max_insert0_union same_shape_def simp del: set_mset_union)
  with sh assms show ?thesis by (auto simp: Add_def)
qed

text \<open>\<open>Sub\<close> takes a part of the recorded values out again, but keeps the maximum of the whole.\<close>

lemma Sub_represents:
  assumes "represents h (M + N)" "represents h' N" "HdrTill h = HdrTill h'" "MaxValue h = MaxValue h'"
  shows "\<exists>h''. Sub h h' = Inr h'' \<and> same_shape h h''
     \<and> represents (h''\<lparr>MaxRecordedValue := Max (insert 0 (set_mset M))\<rparr>) M
     \<and> MaxRecordedValue h'' = Max (insert 0 (set_mset (M + N)))"
proof -
  let ?h = "h\<lparr>Buckets := combine_buckets (-) (Buckets h) (Buckets h'),
      TotalCount := TotalCount h - TotalCount h'\<rparr>"
  let ?h' = "?h\<lparr>MaxRecordedValue := Max (insert 0 (set_mset M))\<rparr>"
  have sh: "same_shape h ?h'" by (simp add: same_shape_def length_combine_buckets)
  have hh: "same_shape h h'"
    using assms by (intro wf_hist_nexp_unique) (auto simp: represents_def)
  have "represents ?h' M"
    using assms hh same_shape_wf [OF sh] same_shape_content [OF sh] same_shape_content [OF hh]
    by (auto simp: represents_def length_combine_buckets nth_combine_buckets bucket_content_add
        same_shape_def simp del: set_mset_union)
  with sh assms show ?thesis by (auto simp: Sub_def represents_def same_shape_def)
qed

lemma Reset_represents:
  assumes "wf_hist h"
  shows "represents (Reset h) {#} \<and> same_shape h (Reset h)"
proof -
  have "same_shape h (Reset h)" by (simp add: same_shape_def Reset_def)
  then show ?thesis using assms same_shape_wf [of h "Reset h"]
    by (auto simp: represents_def Reset_def bucket_content_def)
qed

lemma parameter_mismatch:
  "HdrTill h \<noteq> HdrTill h' \<or> MaxValue h \<noteq> MaxValue h' \<Longrightarrow>
     Add h h' = Inl (InvalidArgument ''Cannot add histograms with different parameters'')
   \<and> Sub h h' = Inl (InvalidArgument ''Cannot sub histograms with different parameters'')"
  by (auto simp: Add_def Sub_def)


section \<open>Percentiles\<close>

lemma percentile_loop_spec:
  assumes "unat cur + sum_list (map unat bs) < 2 ^ 64" "bs \<noteq> []"
    "unat t \<le> unat cur + sum_list (map unat bs)"
  shows "\<exists>k < length bs. percentile_loop t cur i bs = Some (i + word_of_nat k)
     \<and> unat t \<le> unat cur + sum_list (map unat (take (Suc k) bs))
     \<and> (0 < k \<longrightarrow> unat cur + sum_list (map unat (take k bs)) < unat t)"
  using assms
proof (induction bs arbitrary: cur i)
  case (Cons b bs)
  have cb: "unat (cur + b) = unat cur + unat b"
    using Cons.prems(1) by (intro unat_add_u64) simp
  show ?case
  proof (cases "t \<le> cur + b")
    case True
    then show ?thesis by (intro exI [of _ 0]) (simp add: word_le_nat_alt cb)
  next
    case False
    then have lt: "unat cur + unat b < unat t" by (simp add: word_le_nat_alt cb)
    with Cons.prems have "bs \<noteq> []" by auto
    with Cons.IH [of "cur + b" "i + 1"] Cons.prems obtain k where
      k: "k < length bs" "percentile_loop t (cur + b) (i + 1) bs = Some (i + 1 + word_of_nat k)"
        "unat t \<le> unat cur + unat b + sum_list (map unat (take (Suc k) bs))"
        "0 < k \<longrightarrow> unat cur + unat b + sum_list (map unat (take k bs)) < unat t"
      by (auto simp: cb)
    then show ?thesis using False lt
      by (intro exI [of _ "Suc k"]) (cases k; simp add: algebra_simps)
  qed
qed simp

lemma bucket_content_le: "bucket_content h M i \<le> size M"
  by (simp add: bucket_content_def size_filter_mset_lesseq)

lemma prefix_sum_represents:
  assumes "represents h M" "size M < 2 ^ 64" "n \<le> length (Buckets h)"
  shows "sum_list (map unat (take n (Buckets h))) = size {#v \<in># M. unat (GetBucketIndex h v) < n#}"
  using assms(3)
proof (induction n)
  case (Suc n)
  have "unat (Buckets h ! n) = bucket_content h M n"
    using assms(1,2) Suc.prems le_less_trans [OF bucket_content_le [of h M n] assms(2)]
    by (simp add: represents_def unat_of_nat)
  moreover have "{#v \<in># M. unat (GetBucketIndex h v) < Suc n#}
     = {#v \<in># M. unat (GetBucketIndex h v) < n#} + {#v \<in># M. unat (GetBucketIndex h v) = n#}"
    by (induction M) (auto simp: less_Suc_eq)
  ultimately show ?case
    using Suc by (simp add: take_Suc_conv_app_nth bucket_content_def)
qed simp

lemma percentile_target_bounds:
  assumes "0 < T" "T < 2 ^ 46" "0 < p" "p \<le> 100"
  shows "0 < unat (percentile_target p (word_of_nat T))
     \<and> unat (percentile_target p (word_of_nat T)) \<le> T
     \<and> int (unat (percentile_target p (word_of_nat T))) = \<lceil>fl (fl (p * of_nat T) / 100)\<rceil>"
proof -
  have T: "unat (word_of_nat T :: u64) = T" using assms(2) by (simp add: unat_of_nat)
  have flT: "fl (of_nat T) = of_nat T" using assms(2) by (intro fl_of_nat) simp
  have pos: "0 < fl x" if "0 < x" for x using that fl_pos_gt_0 [of x] by (simp add: fl_def)
  let ?c = "\<lceil>fl (fl (p * of_nat T) / 100)\<rceil>"
  have "p * of_nat T \<le> of_nat (100 * T)" using assms by (simp add: mult_right_mono)
  then have "fl (p * of_nat T) \<le> of_nat (100 * T)" using assms(2) by (intro fl_of_nat_le) auto
  then have "fl (p * of_nat T) / 100 \<le> of_nat T" by simp
  then have "fl (fl (p * of_nat T) / 100) \<le> of_nat T" using assms(2) by (intro fl_of_nat_le) auto
  then have le: "?c \<le> int T" by (simp add: ceiling_le_iff)
  have "0 < fl (fl (p * of_nat T) / 100)" using assms by (intro pos divide_pos_pos) auto
  then have gt: "0 < ?c" by simp
  have "int T < 2 ^ 64" using assms(2) by simp
  with le have lt: "?c < 2 ^ 64" by (rule le_less_trans)
  have "uint (word_of_int ?c :: u64) = ?c"
    using mod_pos_pos_trivial [of ?c "2 ^ 64"] le gt lt by (simp only: uint_word_of_int) simp
  then have "int (unat (percentile_target p (word_of_nat T))) = ?c"
    by (simp add: percentile_target_def T flT)
  with le gt show ?thesis by linarith
qed

text \<open>
  The percentile is the upper bound of the bucket that holds the \<open>t\<close>-th smallest
  recorded value.
\<close>

lemma GetValueAtPercentile_rank:
  assumes rep: "represents h M" and M: "M \<noteq> {#}" "size M < 2 ^ 46" and p: "0 < p" "p \<le> 100"
  defines "t \<equiv> nat \<lceil>fl (fl (p * of_nat (size M)) / 100)\<rceil>"
  shows "0 < t \<and> t \<le> size M \<and> GetValueAtPercentile h p =
     Inr (GetBucketUpperBound h (GetBucketIndex h (sorted_list_of_multiset M ! (t - 1))))"
proof -
  let ?tw = "percentile_target p (TotalCount h)" and ?xs = "sorted_list_of_multiset M"
  have wf: "wf_hist h" and tot: "TotalCount h = word_of_nat (size M)"
    using rep by (auto simp: represents_def)
  have s0: "0 < size M" using M(1) by (simp add: nonempty_has_size)
  note b = percentile_target_bounds [OF s0 M(2) p, folded tot]
  then have tw: "unat ?tw = t" by (metis t_def nat_int)
  with b have tb: "0 < t" "t \<le> size M" by simp_all
  have sz: "size M < 2 ^ 64" using M(2) by simp
  note prefix = prefix_sum_represents [OF rep sz]
  have all: "sum_list (map unat (Buckets h)) = size M"
    using prefix [of "length (Buckets h)"] GetBucketIndex_in_range [OF wf] wf_hist_length(1) [OF wf]
    by (simp add: less_Suc_eq_le filter_mset_eq_conv)
  have ne: "Buckets h \<noteq> []" using wf_hist_length(1) [OF wf] by auto
  obtain k where k: "k < length (Buckets h)"
    "percentile_loop ?tw 0 0 (Buckets h) = Some (word_of_nat k)"
    "t \<le> sum_list (map unat (take (Suc k) (Buckets h)))"
    "0 < k \<longrightarrow> sum_list (map unat (take k (Buckets h))) < t"
    using percentile_loop_spec [of 0 "Buckets h" ?tw 0] ne all sz tw tb by auto
  let ?f = "\<lambda>v. unat (GetBucketIndex h v)"
  have mono: "?f a \<le> ?f b" if "a \<le> b" for a b
    using GetBucketIndex_mono [OF wf that] by (simp add: word_le_nat_alt)
  have cnt: "size {#v \<in># M. P v#} = length (filter P ?xs)" for P
    by (metis mset_filter mset_sorted_list_of_multiset size_mset)
  have len: "t - 1 < length ?xs"
    using tb by (metis Suc_pred' Suc_le_lessD mset_sorted_list_of_multiset size_mset)
  have rank: "?f (?xs ! (t - 1)) < n \<longleftrightarrow> t \<le> sum_list (map unat (take n (Buckets h)))"
    if n: "n \<le> length (Buckets h)" for n
  proof -
    have "?f (?xs ! (t - 1)) < n \<longleftrightarrow> t - 1 < length (filter (\<lambda>v. ?f v < n) ?xs)"
      by (rule sorted_filter_prefix [OF _ _ len]) (auto intro: le_less_trans [OF mono])
    then show ?thesis using prefix [OF n] cnt [of "\<lambda>v. ?f v < n"] tb by auto
  qed
  have "?f (?xs ! (t - 1)) < Suc k" using rank [of "Suc k"] k by simp
  moreover have "\<not> ?f (?xs ! (t - 1)) < k" using rank [of k] k by (cases "k = 0") auto
  ultimately have "?f (?xs ! (t - 1)) = k" by simp
  then have "word_of_nat k = GetBucketIndex h (?xs ! (t - 1))" by force
  moreover have "unat (TotalCount h) = size M" using sz tot by (simp add: unat_of_nat)
  then have "TotalCount h \<noteq> 0" using s0 by auto
  ultimately show ?thesis using k(2) p tb by (simp add: GetValueAtPercentile_def)
qed


section \<open>The recorder contract\<close>

text \<open>
  What the clients (terminal and task-queue statistics) rely on: recording never fails and
  adds to the represented multiset, and merging compatible recorders adds the multisets.
\<close>

locale recorder =
  fixes rep :: "'h \<Rightarrow> 'v multiset \<Rightarrow> bool"
    and record_value :: "'v \<Rightarrow> 'h \<Rightarrow> 'h result"
    and merge :: "'h \<Rightarrow> 'h \<Rightarrow> 'h result"
    and compat :: "'h \<Rightarrow> 'h \<Rightarrow> bool"
  assumes record_rep: "rep h M \<Longrightarrow> \<exists>h'. record_value v h = Inr h' \<and> rep h' (add_mset v M) \<and> compat h h'"
    and merge_rep: "rep h M \<Longrightarrow> rep h' N \<Longrightarrow> compat h h' \<Longrightarrow>
      \<exists>h''. merge h h' = Inr h'' \<and> rep h'' (M + N) \<and> compat h h''"
    and compat_refl: "compat h h"
    and compat_sym: "compat h h' \<Longrightarrow> compat h' h"
    and compat_trans: "compat h h' \<Longrightarrow> compat h' h'' \<Longrightarrow> compat h h''"
begin

lemma record_list_rep:
  "rep h M \<Longrightarrow> \<exists>h'. rfold record_value vs h = Inr h' \<and> rep h' (mset vs + M) \<and> compat h h'"
proof (induction vs arbitrary: h M)
  case Nil
  then show ?case by (simp add: compat_refl)
next
  case (Cons v vs)
  from record_rep [OF Cons.prems, of v] obtain h1 where
    h1: "record_value v h = Inr h1" "rep h1 (add_mset v M)" "compat h h1" by blast
  from Cons.IH [OF h1(2)] h1 show ?case by (auto intro: compat_trans)
qed

lemma merge_list_rep:
  assumes "list_all2 rep hs Ms" "\<forall>h' \<in> set hs. compat h h'" "rep h M"
  shows "\<exists>h'. rfold (\<lambda>src dst. merge dst src) hs h = Inr h' \<and> rep h' (M + sum_list Ms) \<and> compat h h'"
  using assms
proof (induction hs Ms arbitrary: h M rule: list_all2_induct)
  case Nil
  then show ?case by (simp add: compat_refl)
next
  case (Cons x hs N Ms)
  from merge_rep [OF Cons.prems(2) Cons.hyps(1)] Cons.prems(1) obtain h1 where
    h1: "merge h x = Inr h1" "rep h1 (M + N)" "compat h h1" by auto
  have "\<forall>h' \<in> set hs. compat h1 h'"
    using Cons.prems(1) h1(3) by (auto intro: compat_trans compat_sym)
  from Cons.IH [OF this h1(2)] h1 show ?case by (auto simp: add.assoc intro: compat_trans)
qed

end

definition same_parameters :: "THistogram \<Rightarrow> THistogram \<Rightarrow> bool" where
  "same_parameters h h' \<longleftrightarrow> HdrTill h = HdrTill h' \<and> MaxValue h = MaxValue h'"

interpretation hist: recorder represents RecordValue Add same_parameters
proof unfold_locales
  fix h M v
  assume "represents h M"
  then show "\<exists>h'. RecordValue v h = Inr h' \<and> represents h' (add_mset v M) \<and> same_parameters h h'"
    using RecordValue_represents [of h M v] by (auto simp: same_parameters_def same_shape_def)
next
  fix h M h' N
  assume "represents h M" "represents h' N" "same_parameters h h'"
  then show "\<exists>h''. Add h h' = Inr h'' \<and> represents h'' (M + N) \<and> same_parameters h h''"
    using Add_represents [of h M h' N] by (auto simp: same_parameters_def same_shape_def)
qed (auto simp: same_parameters_def)

section \<open>Properties\<close>

text \<open>
  (C9) Reading a percentile is correct: after any sequence of recordings of fewer than
  \<open>2\<^sup>4\<^sup>6\<close> values into a histogram, \<open>GetValueAtPercentile(p)\<close> for \<open>0 < p \<le> 100\<close> returns
  the upper bound of the bucket that holds the \<open>t\<close>-th smallest recorded value, where
  \<open>t\<close> is the rank computed in double arithmetic and \<open>1 \<le> t \<le> n\<close>.
\<close>

theorem percentile_is_rank_bucket:
  assumes "rfold RecordValue vs h = Inr h'" "represents h {#}"
    and "vs \<noteq> []" "length vs < 2 ^ 46" "0 < p" "p \<le> 100"
    and "t = nat \<lceil>fl (fl (p * of_nat (length vs)) / 100)\<rceil>"
  shows "0 < t \<and> t \<le> length vs \<and> GetValueAtPercentile h' p =
     Inr (GetBucketUpperBound h' (GetBucketIndex h' (sort vs ! (t - 1))))"
proof -
  from hist.record_list_rep [OF assms(2), of vs] assms(1) have "represents h' (mset vs)" by auto
  from GetValueAtPercentile_rank [OF this _ _ assms(5,6)] assms(3,4,7) show ?thesis
    by simp
qed


theorem percentile_is_rank_bucket_witness:
  "GetValueAtPercentile \<lparr>HdrTill = 2, MaxValue = 8, Buckets = [0, 0, 1, 1, 1], TotalCount = 3,
      MaxRecordedValue = 9\<rparr> 50 = Inr 8"
proof -
  let ?h = "\<lparr>HdrTill = 2, MaxValue = 8, Buckets = [0, 0, 0, 0, 0], TotalCount = 0,
      MaxRecordedValue = 0\<rparr>"
  let ?h' = "\<lparr>HdrTill = 2, MaxValue = 8, Buckets = [0, 0, 1, 1, 1], TotalCount = 3,
      MaxRecordedValue = 9\<rparr>"
  have rep: "represents ?h {#}"
    by (simp add: represents_def wf_hist_def nexp_def bucket_content_def All_less_Suc)
  have rec: "rfold RecordValue [9, 3, 5] ?h = Inr ?h'"
    by (simp add: RecordValue_def GetBucketIndex_def vsize_simps Let_def bucket_index_loop_eval)
  have t: "2 = nat \<lceil>fl (fl (50 * of_nat (length [9, 3, 5 :: u64])) / 100)\<rceil>"
    by code_simp
  have "sort [9, 3, 5 :: u64] ! (2 - 1) = 5" by simp
  then show ?thesis
    using percentile_is_rank_bucket [OF rec rep _ _ _ _ t]
    by (simp add: GetBucketIndex_def GetBucketUpperBound_def vsize_simps Let_def bucket_index_loop_eval
        upper_bound_loop_eval Let_def)
qed

lemma recorded_le_upper_bound:
  assumes "represents h M" "v \<in># M"
  shows "v \<le> GetBucketUpperBound h (GetBucketIndex h v)"
proof -
  have wf: "wf_hist h" using assms(1) by (simp add: represents_def)
  let ?i = "GetBucketIndex h v"
  note r = GetBucketIndex_in_range [OF wf, of v]
  show ?thesis
  proof (cases "unat ?i < unat (HdrTill h) + nexp h")
    case True
    from GetBucketUpperBound_exact [OF wf this] r show ?thesis
      by (auto simp: word_le_nat_alt)
  next
    case False
    then have i: "?i = vsize (Buckets h) - 1" "\<not> ?i < HdrTill h"
      using r wf_hist_length(5) [OF wf] by (auto simp: word_unat_eq_iff word_less_nat_alt)
    have "v \<le> MaxRecordedValue h" using assms by (simp add: represents_def)
    with i show ?thesis by (auto simp: GetBucketUpperBound_def)
  qed
qed

text \<open>
  A percentile never under-reports: at least \<open>t\<close> of the represented values are at
  most the value \<open>GetValueAtPercentile\<close> returns, where \<open>t\<close> is the rank.
\<close>

theorem percentile_covers_rank:
  assumes "represents h M" "M \<noteq> {#}" "size M < 2 ^ 46" "0 < p" "p \<le> 100"
    and "GetValueAtPercentile h p = Inr r"
  shows "nat \<lceil>fl (fl (p * of_nat (size M)) / 100)\<rceil> \<le> size {#v \<in># M. v \<le> r#}"
proof -
  let ?t = "nat \<lceil>fl (fl (p * of_nat (size M)) / 100)\<rceil>" and ?xs = "sorted_list_of_multiset M"
  have t: "0 < ?t" "?t \<le> size M"
    and r: "r = GetBucketUpperBound h (GetBucketIndex h (?xs ! (?t - 1)))"
    using GetValueAtPercentile_rank [OF assms(1-5)] assms(6) by auto
  have len: "?t - 1 < length ?xs"
    using t by (metis Suc_pred' Suc_le_lessD mset_sorted_list_of_multiset size_mset)
  then have "?xs ! (?t - 1) \<in># M" by (metis nth_mem set_sorted_list_of_multiset)
  then have "?xs ! (?t - 1) \<le> r" unfolding r by (rule recorded_le_upper_bound [OF assms(1)])
  then have "?t - 1 < length (filter (\<lambda>v. v \<le> r) ?xs)"
    using sorted_filter_prefix [of ?xs "\<lambda>v. v \<le> r" "?t - 1"] len by auto
  also have "length (filter (\<lambda>v. v \<le> r) ?xs) = size {#v \<in># M. v \<le> r#}"
    by (metis mset_filter mset_sorted_list_of_multiset size_mset)
  finally show ?thesis using t by linarith
qed

text \<open>A represented histogram for the witnesses: 3, 5 and 9 recorded with parameters 2 and 8.\<close>

definition sample_hist :: THistogram where
  "sample_hist = \<lparr>HdrTill = 2, MaxValue = 8, Buckets = [0, 0, 1, 1, 1], TotalCount = 3,
      MaxRecordedValue = 9\<rparr>"

lemma sample_hist_represents: "represents sample_hist {#3, 5, 9#}"
  by (simp add: sample_hist_def represents_def wf_hist_def nexp_def bucket_content_def
      GetBucketIndex_def vsize_simps Let_def bucket_index_loop_eval All_less_Suc)

theorem percentile_covers_rank_witness:
  "nat \<lceil>fl (fl (90 * of_nat (size {#3, 5, 9 :: u64#})) / 100)\<rceil>
     \<le> size {#v \<in># {#3, 5, 9 :: u64#}. v \<le> 9#}"
proof -
  have "percentile_target 90 3 = 3" by code_simp
  then have "GetValueAtPercentile sample_hist 90 = Inr 9"
    by (simp add: GetValueAtPercentile_def sample_hist_def GetBucketUpperBound_def vsize_simps Let_def
        word_le_nat_alt)
  from percentile_covers_rank [OF sample_hist_represents _ _ _ _ this] show ?thesis by simp
qed

text \<open>
  \<open>GetBucketIndex\<close> implements the partition of the value space its header comment
  describes: a value lies in the range of bucket \<open>i\<close> exactly when \<open>i\<close> is its index.
\<close>

theorem bucket_index_partition:
  assumes "wf_hist h" "unat i \<le> unat (HdrTill h) + nexp h"
  shows "unat v \<in> range_of h i \<longleftrightarrow> i = GetBucketIndex h v"
proof
  note r = GetBucketIndex_in_range [OF assms(1), of v]
  assume "unat v \<in> range_of h i"
  then have "\<not> unat i < unat (GetBucketIndex h v)" "\<not> unat (GetBucketIndex h v) < unat i"
    using r assms(2) bucket_range_ordered [of _ _ "unat (HdrTill h)" "nexp h" "unat v" "unat v"]
    by (auto simp: range_of_def)
  then show "i = GetBucketIndex h v" by (simp add: word_unat_eq_iff)
next
  assume "i = GetBucketIndex h v"
  then show "unat v \<in> range_of h i" using GetBucketIndex_in_range [OF assms(1), of v] by simp
qed

theorem bucket_index_partition_witness:
  "unat (5 :: u64) \<in> range_of sample_hist 3 \<longleftrightarrow> 3 = GetBucketIndex sample_hist 5"
  using sample_hist_represents
  by (intro bucket_index_partition) (auto simp: represents_def sample_hist_def nexp_def)

text \<open>
  (C15) Merging is exact: adding a histogram of \<open>N\<close> to one of \<open>M\<close> gives a histogram of
  \<open>M + N\<close>, and subtracting it again restores every bucket and the total.
\<close>

theorem add_sub_exact:
  assumes "represents h M" "represents h' N" "HdrTill h = HdrTill h'" "MaxValue h = MaxValue h'"
  shows "\<exists>s d. Add h h' = Inr s \<and> represents s (M + N) \<and> Sub s h' = Inr d
     \<and> Buckets d = Buckets h \<and> TotalCount d = TotalCount h"
proof -
  from Add_represents [OF assms] obtain s where
    s: "Add h h' = Inr s" "represents s (M + N)" "same_shape h s" by blast
  then have sh: "same_shape h' s"
    using assms by (intro wf_hist_nexp_unique) (auto simp: represents_def same_shape_def)
  with Sub_represents [OF s(2) assms(2)] obtain d where
    d: "Sub s h' = Inr d" "same_shape s d"
      "represents (d\<lparr>MaxRecordedValue := Max (insert 0 (set_mset M))\<rparr>) M"
    by (auto simp: same_shape_def)
  let ?d = "d\<lparr>MaxRecordedValue := Max (insert 0 (set_mset M))\<rparr>"
  have "same_shape h ?d" using s(3) d(2) by (simp add: same_shape_def)
  then have "Buckets ?d = Buckets h" "TotalCount ?d = TotalCount h"
    using d(3) assms(1) same_shape_content [of h ?d]
    by (auto simp: represents_def same_shape_def list_eq_iff_nth_eq)
  with s d show ?thesis by auto
qed

theorem add_sub_exact_witness:
  "\<exists>s d. Add sample_hist sample_hist = Inr s \<and> represents s ({#3, 5, 9#} + {#3, 5, 9#})
     \<and> Sub s sample_hist = Inr d \<and> Buckets d = Buckets sample_hist
     \<and> TotalCount d = TotalCount sample_hist"
  by (rule add_sub_exact [OF sample_hist_represents sample_hist_represents]) simp_all

text \<open>
  (C16) The constructor returns for every \<open>0 < hdrTill \<le> maxValue < 2\<^sup>6\<^sup>3\<close>, with an empty
  histogram whose vector has exactly the buckets the ranges need.
\<close>

theorem new_histogram_returns:
  assumes "0 < H" "H \<le> M" "unat M < 2 ^ 63"
  shows "\<exists>h. new_THistogram H M = Some (Inr h) \<and> represents h {#}
     \<and> HdrTill h = H \<and> MaxValue h = M
     \<and> length (Buckets h) = unat H + nexp h + 1"
  using new_THistogram_represents [OF assms] wf_hist_length(1) by (auto simp: represents_def)

theorem new_histogram_returns_witness:
  "\<exists>h. new_THistogram 4096 32768 = Some (Inr h) \<and> represents h {#}
     \<and> HdrTill h = 4096 \<and> MaxValue h = 32768 \<and> length (Buckets h) = unat (4096 :: u64) + nexp h + 1"
  by (rule new_histogram_returns) simp_all

lemma exp_bucket_loop_max_diverges: "exp_bucket_loop u64_max r c = None"
proof (rule ccontr)
  assume "exp_bucket_loop u64_max r c \<noteq> None"
  then obtain n where n: "exp_bucket_loop u64_max r c = Some n" by auto
  have "u64_max \<noteq> u64_max"
    by (rule exp_bucket_loop.raw_induct [where P = "\<lambda>m r c n. m \<noteq> u64_max", OF _ n])
       (auto split: if_splits)
  then show False by simp
qed

text \<open>
  For the largest \<open>maxValue\<close> the constructor never returns: the doubled range wraps to
  0 and never exceeds \<open>MaxValue_\<close>.
\<close>

theorem new_histogram_diverges: "0 < H \<Longrightarrow> new_THistogram H u64_max = None"
  using u64_le_max [of H]
  by (auto simp: new_THistogram_def Let_def GetTotalBuckets_def GetExponentialBucketCount_def
      exp_bucket_loop_max_diverges not_less [symmetric])

theorem new_histogram_diverges_witness: "new_THistogram 4096 u64_max = None"
  by (rule new_histogram_diverges) simp

end
