(* ===== verification/Terminal.thy ===== *)
theory Terminal
  imports DeliveryTx Checker Histogram "HOL-Library.Stream"
begin

text \<open>
  Terminals (\<open>src/src/terminal.cpp\<close>, \<open>src/src/terminal.h\<close>): the statistics, the transaction mix, and the
  loop that runs transactions with retries. The answers of the stop token, of the
  warm-up flag, of the clock and of the connection pool are the environment's: the terminal's state
  holds an infinite stream of each, one answer per question, so a token that is never set is
  possible, and then the loop need not end. Sleeping and waiting for an in-flight slot only take time.
  All attempts use the same connection to the server, that of \<open>twld\<close>.
\<close>

section \<open>Statistics\<close>

record TTransactionStats =
  OK :: u64
  Failed :: u64
  UserAbortedCount :: u64
  LatencyHistogramMs :: THistogram
  LatencyHistogramFullMs :: THistogram
  LatencyHistogramPure :: THistogram

record TTerminalStats =
  PerTransactionTypeStats :: "TTransactionStats list"
  WasCleared :: bool

definition DefaultResolution :: u64 where "DefaultResolution = 4096"

definition HighResolution :: u64 where "HighResolution = 16384"

definition MaxResolution :: u64 where "MaxResolution = 32768"

definition new_TTransactionStats :: "u64 \<Rightarrow> TTransactionStats result option" where
  "new_TTransactionStats histogramResolution = (case new_THistogram histogramResolution MaxResolution of
     None \<Rightarrow> None | Some (Inl e) \<Rightarrow> Some (Inl e)
   | Some (Inr h) \<Rightarrow> Some (Inr \<lparr>OK = 0, Failed = 0, UserAbortedCount = 0, LatencyHistogramMs = h,
       LatencyHistogramFullMs = h, LatencyHistogramPure = h\<rparr>))"

definition new_TTerminalStats :: "bool \<Rightarrow> TTerminalStats result option" where
  "new_TTerminalStats highResHistogram =
     (case new_TTransactionStats (if highResHistogram then HighResolution else DefaultResolution) of
        None \<Rightarrow> None | Some (Inl e) \<Rightarrow> Some (Inl e)
      | Some (Inr s) \<Rightarrow> Some (Inr \<lparr>PerTransactionTypeStats = replicate TRANSACTION_TYPE_COUNT s, WasCleared = False\<rparr>))"

definition TransactionStats_Collect :: "TTransactionStats \<Rightarrow> TTransactionStats \<Rightarrow> TTransactionStats result" where
  "TransactionStats_Collect src dst =
     rbind (Add (LatencyHistogramMs dst) (LatencyHistogramMs src)) (\<lambda>h1.
     rbind (Add (LatencyHistogramFullMs dst) (LatencyHistogramFullMs src)) (\<lambda>h2.
     rbind (Add (LatencyHistogramPure dst) (LatencyHistogramPure src)) (\<lambda>h3.
     Inr (dst\<lparr>OK := OK dst + OK src, Failed := Failed dst + Failed src,
       UserAbortedCount := UserAbortedCount dst + UserAbortedCount src,
       LatencyHistogramMs := h1, LatencyHistogramFullMs := h2, LatencyHistogramPure := h3\<rparr>))))"

definition TransactionStats_Clear :: "TTransactionStats \<Rightarrow> TTransactionStats" where
  "TransactionStats_Clear s = s\<lparr>OK := 0, Failed := 0, UserAbortedCount := 0,
     LatencyHistogramMs := Reset (LatencyHistogramMs s), LatencyHistogramFullMs := Reset (LatencyHistogramFullMs s),
     LatencyHistogramPure := Reset (LatencyHistogramPure s)\<rparr>"

text \<open>An access \<open>PerTransactionTypeStats[i]\<close> that is out of range is undefined.\<close>

definition update_stats :: "nat \<Rightarrow> (TTransactionStats \<Rightarrow> TTransactionStats result) \<Rightarrow> TTerminalStats \<Rightarrow> TTerminalStats result" where
  "update_stats i f st = (if i < length (PerTransactionTypeStats st)
     then rbind (f (PerTransactionTypeStats st ! i)) (\<lambda>s.
       Inr (st\<lparr>PerTransactionTypeStats := (PerTransactionTypeStats st)[i := s]\<rparr>))
     else Inl (UB ''PerTransactionTypeStats''))"

text \<open>Latencies in milliseconds, except the pure one, which is in microseconds.\<close>

definition AddOK :: "nat \<Rightarrow> u64 \<Rightarrow> u64 \<Rightarrow> u64 \<Rightarrow> TTerminalStats \<Rightarrow> TTerminalStats result" where
  "AddOK ty latency latencyFull latencyPure = update_stats ty (\<lambda>s.
     rbind (RecordValue latency (LatencyHistogramMs s)) (\<lambda>h1.
     rbind (RecordValue latencyFull (LatencyHistogramFullMs s)) (\<lambda>h2.
     rbind (RecordValue (latencyPure div 1000) (LatencyHistogramPure s)) (\<lambda>h3.
     Inr (s\<lparr>OK := OK s + 1, LatencyHistogramMs := h1, LatencyHistogramFullMs := h2, LatencyHistogramPure := h3\<rparr>)))))"

definition IncFailed :: "nat \<Rightarrow> TTerminalStats \<Rightarrow> TTerminalStats result" where
  "IncFailed ty = update_stats ty (\<lambda>s. Inr (s\<lparr>Failed := Failed s + 1\<rparr>))"

definition IncUserAborted :: "nat \<Rightarrow> TTerminalStats \<Rightarrow> TTerminalStats result" where
  "IncUserAborted ty = update_stats ty (\<lambda>s. Inr (s\<lparr>UserAbortedCount := UserAbortedCount s + 1\<rparr>))"

definition Stats_Collect :: "TTerminalStats \<Rightarrow> TTerminalStats \<Rightarrow> TTerminalStats result" where
  "Stats_Collect src dst = rfold (\<lambda>i d. update_stats i (TransactionStats_Collect (PerTransactionTypeStats src ! i)) d)
     [0..<length (PerTransactionTypeStats src)] dst"

definition Stats_Clear :: "TTerminalStats \<Rightarrow> TTerminalStats" where
  "Stats_Clear st = st\<lparr>PerTransactionTypeStats := map TransactionStats_Clear (PerTransactionTypeStats st)\<rparr>"

definition ClearOnce :: "TTerminalStats \<Rightarrow> TTerminalStats" where
  "ClearOnce st = (if WasCleared st then st else Stats_Clear (st\<lparr>WasCleared := True\<rparr>))"

section \<open>The transaction mix\<close>

record TTerminalTransaction =
  Name :: string
  Weight :: rat
  TaskFunc :: "TTransactionContext \<Rightarrow> bool tx"
  KeyingTime :: nat
  ThinkTime :: nat

definition CreateTransactions :: "TTerminalTransaction list" where
  "CreateTransactions = [
     \<lparr>Name = ''NewOrder'', Weight = NEW_ORDER_WEIGHT, TaskFunc = GetNewOrderTask,
      KeyingTime = NEW_ORDER_KEYING_TIME, ThinkTime = NEW_ORDER_THINK_TIME\<rparr>,
     \<lparr>Name = ''Delivery'', Weight = DELIVERY_WEIGHT, TaskFunc = GetDeliveryTask,
      KeyingTime = DELIVERY_KEYING_TIME, ThinkTime = DELIVERY_THINK_TIME\<rparr>,
     \<lparr>Name = ''OrderStatus'', Weight = ORDER_STATUS_WEIGHT, TaskFunc = GetOrderStatusTask,
      KeyingTime = ORDER_STATUS_KEYING_TIME, ThinkTime = ORDER_STATUS_THINK_TIME\<rparr>,
     \<lparr>Name = ''Payment'', Weight = PAYMENT_WEIGHT, TaskFunc = GetPaymentTask,
      KeyingTime = PAYMENT_KEYING_TIME, ThinkTime = PAYMENT_THINK_TIME\<rparr>,
     \<lparr>Name = ''StockLevel'', Weight = STOCK_LEVEL_WEIGHT, TaskFunc = GetStockLevelTask,
      KeyingTime = STOCK_LEVEL_KEYING_TIME, ThinkTime = STOCK_LEVEL_THINK_TIME\<rparr>]"

text \<open>
  The weights are whole numbers, and \<open>k / 100.0\<close> is rounded monotonically and exactly at
  whole numbers, so the comparisons are the exact ones.
\<close>

fun choose_loop :: "rat \<Rightarrow> rat \<Rightarrow> nat \<Rightarrow> rat list \<Rightarrow> nat option" where
  "choose_loop v cumulative i [] = None"
| "choose_loop v cumulative i (x # xs) = (if v \<le> cumulative + x then Some i
     else choose_loop v (cumulative + x) (i + 1) xs)"

definition choose_index :: "u64 \<Rightarrow> nat" where
  "choose_index k = (case choose_loop (of_nat (unat k) / 100) 0 0 (map Weight CreateTransactions) of
     Some i \<Rightarrow> i | None \<Rightarrow> length CreateTransactions - 1)"

definition ChooseRandomTransactionIndex :: "nat rnd" where
  "ChooseRandomTransactionIndex =
     rnd_bind (RandomNumber 0 (word_of_int \<lfloor>sum_list (map Weight CreateTransactions) * 100\<rfloor>)) (\<lambda>k. ret (choose_index k))"

section \<open>The terminal\<close>

record TTerminal =
  Context :: TTransactionContext
  NoDelays :: bool
  twld :: world
  Stats :: TTerminalStats
  stops :: "bool stream"
  warmupStops :: "bool stream"
  latencies :: "(u64 \<times> u64 \<times> u64) stream"
  acquires :: "unit result option stream"
  RunningCount :: int
  Done :: bool
  WarmupWasStopped :: bool

definition stop_requested :: "TTerminal \<Rightarrow> bool \<times> TTerminal" where
  "stop_requested t = (shd (stops t), t\<lparr>stops := stl (stops t)\<rparr>)"

definition warmup_stopped :: "TTerminal \<Rightarrow> bool \<times> TTerminal" where
  "warmup_stopped t = (shd (warmupStops t), t\<lparr>warmupStops := stl (warmupStops t)\<rparr>)"

definition measure_latency :: "TTerminal \<Rightarrow> (u64 \<times> u64 \<times> u64) \<times> TTerminal" where
  "measure_latency t = (shd (latencies t), t\<lparr>latencies := stl (latencies t)\<rparr>)"

text \<open>
  \<open>ConnectionPool->AcquireGuard()\<close>: it gives a session, throws (\<open>Connection pool is shutting down\<close>), or
  waits for ever (\<open>None\<close>). Without a pool the answer is the dummy session.
\<close>

definition AcquireGuard :: "TTerminal \<Rightarrow> unit result option \<times> TTerminal" where
  "AcquireGuard t = (shd (acquires t), t\<lparr>acquires := stl (acquires t)\<rparr>)"

definition with_stats :: "(TTerminalStats \<Rightarrow> TTerminalStats result) \<Rightarrow> TTerminal \<Rightarrow> TTerminal result" where
  "with_stats f t = rbind (f (Stats t)) (\<lambda>s. Inr (t\<lparr>Stats := s\<rparr>))"

text \<open>What an attempt ends with.\<close>

datatype verdict = Finished | Retry | Fatal | Broken

text \<open>The handlers of one attempt: \<open>Broken\<close> is the \<open>break\<close> at a shutdown.\<close>

definition handle_outcome :: "nat \<Rightarrow> nat \<Rightarrow> bool result \<Rightarrow> TTerminal \<Rightarrow> (verdict \<times> TTerminal) result" where
  "handle_outcome txIndex attempt r t = (case r of
     Inr True \<Rightarrow> (let ((l, lf, lp), t1) = measure_latency t in
       rbind (with_stats (AddOK txIndex l lf lp) t1) (\<lambda>t2. Inr (Finished, t2)))
   | Inr False \<Rightarrow> rbind (with_stats (IncFailed txIndex) t) (\<lambda>t1. Inr (Finished, t1))
   | Inl UserAborted \<Rightarrow> rbind (with_stats (IncUserAborted txIndex) t) (\<lambda>t1. Inr (Finished, t1))
   | Inl (DbException code msg) \<Rightarrow>
       (let (stop, t1) = stop_requested t; kind = ClassifyDbError code in
        if stop \<or> kind = Shutdown then Inr (Broken, t1)
        else if IsRetryableTxError kind \<and> attempt < 3 then Inr (Retry, t1)
        else if IsRetryableTxError kind then rbind (with_stats (IncFailed txIndex) t1) (\<lambda>t2. Inr (Finished, t2))
        else Inr (Fatal, t1))
   | Inl (UB m) \<Rightarrow> Inl (UB m)
   | Inl _ \<Rightarrow> (let (stop, t1) = stop_requested t in Inr (if stop then Finished else Fatal, t1)))"

text \<open>
  One attempt: the session guard gives the connection back before a handler runs; what \<open>AcquireGuard\<close>
  throws reaches the same handlers, with no connection to give back. \<open>None\<close> is an attempt that does not
  return.
\<close>

definition attempt_once :: "bool tx \<Rightarrow> nat \<Rightarrow> nat \<Rightarrow> TTerminal \<Rightarrow> (verdict \<times> TTerminal) result option" where
  "attempt_once task txIndex attempt t = (case AcquireGuard t of
     (None, t1) \<Rightarrow> None
   | (Some (Inl e), t1) \<Rightarrow> Some (handle_outcome txIndex attempt (Inl e) t1)
   | (Some (Inr guard), t1) \<Rightarrow> (case task (twld t1) of None \<Rightarrow> None
     | Some (r, w) \<Rightarrow> Some (handle_outcome txIndex attempt r (t1\<lparr>twld := ReleaseConnection w\<rparr>))))"

text \<open>\<open>for (attempt = 0; attempt <= MaxRetries; ++attempt)\<close>, with \<open>left = MaxRetries + 1 - attempt\<close>.\<close>

fun attempt_loop :: "bool tx \<Rightarrow> nat \<Rightarrow> nat \<Rightarrow> TTerminal \<Rightarrow> (bool \<times> TTerminal) result option" where
  "attempt_loop task txIndex 0 t = Some (Inr (False, t))"
| "attempt_loop task txIndex (Suc left) t = (case attempt_once task txIndex (3 - left) t of
     None \<Rightarrow> None | Some (Inl e) \<Rightarrow> Some (Inl e)
   | Some (Inr (v, t1)) \<Rightarrow> (if v = Retry then attempt_loop task txIndex left t1 else Some (Inr (v = Fatal, t1))))"

definition simulation_mode :: "TTerminal \<Rightarrow> bool" where
  "simulation_mode t \<longleftrightarrow> 0 < SimulateTransactionMs (Context t) \<or> 0 < SimulateTransactionSelect1 (Context t)"

definition pick_transaction :: "TTerminal \<Rightarrow> (nat \<times> bool tx \<times> TTerminal) option" where
  "pick_transaction t = (if simulation_mode t then Some (0, GetSimulationTask (Context t), t)
     else (case ChooseRandomTransactionIndex (rng (twld t)) of None \<Rightarrow> None
       | Some (i, s) \<Rightarrow> Some (i, TaskFunc (CreateTransactions ! i) (Context t), t\<lparr>twld := (twld t)\<lparr>rng := s\<rparr>\<rparr>)))"

text \<open>The start of an iteration: clear the statistics once when the warm-up is over.\<close>

definition check_warmup :: "TTerminal \<Rightarrow> TTerminal" where
  "check_warmup t = (if WarmupWasStopped t then t
     else (let (b, t1) = warmup_stopped t in
       if b then t1\<lparr>Stats := ClearOnce (Stats t1), WarmupWasStopped := True\<rparr> else t1))"

text \<open>The keying delay, then the wait for a slot; \<open>True\<close> when stop was requested meanwhile.\<close>

definition keying :: "TTerminal \<Rightarrow> bool \<times> TTerminal" where
  "keying t = (if \<not> NoDelays t \<and> \<not> simulation_mode t then stop_requested t else (False, t))"

definition take_slot :: "TTerminal \<Rightarrow> bool \<times> TTerminal" where
  "take_slot t = (let (b, t1) = stop_requested (t\<lparr>RunningCount := RunningCount t + 1\<rparr>) in
     (b, if b then t1\<lparr>RunningCount := RunningCount t1 - 1\<rparr> else t1))"

definition request_stop_with_error :: "TTerminal \<Rightarrow> TTerminal" where
  "request_stop_with_error t = t\<lparr>twld := (twld t)\<lparr>stopError := True\<rparr>\<rparr>"

text \<open>
  One iteration: \<open>True\<close> when the loop goes on, \<open>False\<close> at a \<open>break\<close> or the fatal \<open>co_return\<close>.
\<close>

definition iteration :: "TTerminal \<Rightarrow> (bool \<times> TTerminal) result option" where
  "iteration t0 = (case pick_transaction (check_warmup t0) of None \<Rightarrow> None
     | Some (txIndex, task, t1) \<Rightarrow>
       (let (stop1, t2) = keying t1 in
        if stop1 then Some (Inr (False, t2))
        else (let (stop2, t3) = take_slot t2 in
          if stop2 then Some (Inr (False, t3))
          else (case attempt_loop task txIndex 4 t3 of None \<Rightarrow> None | Some (Inl e) \<Rightarrow> Some (Inl e)
            | Some (Inr (fatal, t4)) \<Rightarrow>
              (let t5 = t4\<lparr>RunningCount := RunningCount t4 - 1\<rparr> in
               if fatal then Some (Inr (False, request_stop_with_error t5)) else Some (Inr (True, t5)))))))"

text \<open>Whichever way the loop is left, \<open>Done\<close> is set.\<close>

partial_function (option) Run :: "TTerminal \<Rightarrow> TTerminal result option" where
  "Run t = (case stop_requested t of (stop, t1) \<Rightarrow>
     if stop then Some (Inr (t1\<lparr>Done := True\<rparr>))
     else (case iteration t1 of None \<Rightarrow> None | Some (Inl e) \<Rightarrow> Some (Inl e)
       | Some (Inr (go_on, t2)) \<Rightarrow> if go_on then Run t2 else Some (Inr (t2\<lparr>Done := True\<rparr>))))"

section \<open>What a terminal keeps\<close>

text \<open>\<open>S\<close> is the static part of the database the benchmark runs on.\<close>

definition db_good :: "bool \<Rightarrow> (int list \<times> item_row list \<times> (int \<times> int) list \<times> (int \<times> int) list \<times> ((int \<times> int \<times> int) \<times> string) list) \<Rightarrow> TTerminal \<Rightarrow> bool" where
  "db_good F S t \<longleftrightarrow> idle F {db. consistent db \<and> static_part db = S} (twld t)"

text \<open>Every task a terminal may run.\<close>

definition keeps_good :: "bool tx \<Rightarrow> bool" where
  "keeps_good task \<longleftrightarrow> (\<forall>F S w r w'. idle F {db. consistent db \<and> static_part db = S} w \<longrightarrow> task w = Some (r, w') \<longrightarrow>
     idle F {db. consistent db \<and> static_part db = S} (ReleaseConnection w'))"

lemma tasks_keep_good:
  assumes "valid_ctx ctx"
  shows "keeps_good (GetSimulationTask ctx)" "i < length CreateTransactions \<Longrightarrow> keeps_good (TaskFunc (CreateTransactions ! i) ctx)"
proof -
  show "keeps_good (GetSimulationTask ctx)"
    unfolding keeps_good_def using simulation_task.keeps_consistent [OF assms] by blast
  have "keeps_good (GetNewOrderTask ctx)" "keeps_good (GetDeliveryTask ctx)" "keeps_good (GetOrderStatusTask ctx)"
    "keeps_good (GetPaymentTask ctx)" "keeps_good (GetStockLevelTask ctx)"
    unfolding keeps_good_def using new_order_task.keeps_consistent [OF assms] delivery_task.keeps_consistent [OF assms]
      order_status_task.keeps_consistent [OF assms] payment_task.keeps_consistent [OF assms]
      stock_level_task.keeps_consistent [OF assms] by blast+
  then show "keeps_good (TaskFunc (CreateTransactions ! i) ctx)" if "i < length CreateTransactions"
    using that by (auto simp: CreateTransactions_def less_Suc_eq)
qed

text \<open>What is left of a stream of answers after some were used.\<close>

definition later :: "'a stream \<Rightarrow> 'a stream \<Rightarrow> bool" where
  "later s s' \<longleftrightarrow> (\<exists>k. s' = sdrop k s)"

lemma later_refl [simp]: "later s s"
  by (simp add: later_def exI [of _ 0])

lemma later_stl [simp]: "later s (stl s)"
  by (auto simp: later_def intro: exI [of _ 1])

lemma later_trans: "later s s' \<Longrightarrow> later s' s'' \<Longrightarrow> later s s''"
  by (auto simp: later_def sdrop_add)

text \<open>From the \<open>n\<close>-th answer on, stop is requested.\<close>

definition set_from :: "nat \<Rightarrow> bool stream \<Rightarrow> bool" where
  "set_from n s \<longleftrightarrow> (\<forall>m\<ge>n. s !! m)"

lemma set_from_later: "set_from n s \<Longrightarrow> later s s' \<Longrightarrow> set_from n s'"
  by (auto simp: set_from_def later_def sdrop_snth)

lemma set_from_stl: "set_from (Suc n) s \<Longrightarrow> set_from n (stl s)"
  by (metis Suc_le_mono set_from_def snth.simps(2))

lemma set_from_SCons: "set_from (Suc n) (b ## s) \<longleftrightarrow> set_from n s"
  unfolding set_from_def by (metis Suc_le_D Suc_le_mono snth.simps(2) stream.sel(2))

lemma set_from_0: "set_from 0 s \<Longrightarrow> shd s"
  by (metis le0 set_from_def snth.simps(1))

text \<open>The parts of the terminal the loop's helpers leave alone.\<close>

definition same_core :: "TTerminal \<Rightarrow> TTerminal \<Rightarrow> bool" where
  "same_core t t' \<longleftrightarrow> twld t' = twld t \<and> Context t' = Context t \<and> NoDelays t' = NoDelays t \<and> RunningCount t' = RunningCount t
     \<and> later (stops t) (stops t')"

lemma same_core_refl [simp]: "same_core t t"
  by (simp add: same_core_def)

lemma same_core_trans: "same_core t t' \<Longrightarrow> same_core t' t'' \<Longrightarrow> same_core t t''"
  by (auto simp: same_core_def intro: later_trans)

lemma helpers_same_core:
  "stop_requested t = (b, t') \<Longrightarrow> same_core t t'"
  "warmup_stopped t = (b, t') \<Longrightarrow> same_core t t'"
  "measure_latency t = (l, t') \<Longrightarrow> same_core t t'"
  "with_stats f t = Inr t' \<Longrightarrow> same_core t t'"
  "same_core t (check_warmup t)"
  "keying t = (b, t') \<Longrightarrow> same_core t t'"
  by (auto simp: same_core_def stop_requested_def warmup_stopped_def measure_latency_def with_stats_def check_warmup_def
      keying_def split: if_splits prod.splits)

lemma handle_outcome_same_core:
  assumes "handle_outcome i n r t = Inr (v, t')"
  shows "same_core t t'"
  using assms unfolding handle_outcome_def
  by (auto simp: Let_def split: sum.splits bool.splits exn.splits prod.splits if_splits
      dest!: helpers_same_core(1,3,4) intro: same_core_trans)

lemma attempt_once_cases:
  assumes "attempt_once task i n t = Some (Inr (v, t'))"
  shows "\<exists>r w. handle_outcome i n r (t\<lparr>acquires := stl (acquires t), twld := w\<rparr>) = Inr (v, t')
    \<and> (w = twld t \<or> (\<exists>w'. task (twld t) = Some (r, w') \<and> w = ReleaseConnection w'))"
proof (cases "shd (acquires t)")
  case (Some g)
  then show ?thesis
  proof (cases g)
    case (Inl e)
    then have "handle_outcome i n (Inl e) (t\<lparr>acquires := stl (acquires t), twld := twld t\<rparr>) = Inr (v, t')"
      using assms Some by (simp add: attempt_once_def AcquireGuard_def)
    then show ?thesis by blast
  next
    case (Inr u)
    then obtain r w' where "task (twld t) = Some (r, w')"
      "handle_outcome i n r (t\<lparr>acquires := stl (acquires t), twld := ReleaseConnection w'\<rparr>) = Inr (v, t')"
      using assms Some by (auto simp: attempt_once_def AcquireGuard_def split: option.splits)
    then show ?thesis by blast
  qed
qed (use assms in \<open>simp add: attempt_once_def AcquireGuard_def\<close>)

lemma attempt_once_good:
  assumes "keeps_good task" "db_good F S t" "attempt_once task i n t = Some (Inr (v, t'))"
  shows "db_good F S t' \<and> Context t' = Context t \<and> NoDelays t' = NoDelays t \<and> RunningCount t' = RunningCount t
    \<and> later (stops t) (stops t')"
proof -
  obtain r w where h: "handle_outcome i n r (t\<lparr>acquires := stl (acquires t), twld := w\<rparr>) = Inr (v, t')"
    and w: "w = twld t \<or> (\<exists>w'. task (twld t) = Some (r, w') \<and> w = ReleaseConnection w')"
    using attempt_once_cases [OF assms(3)] by blast
  have "idle F {db. consistent db \<and> static_part db = S} w"
    using assms(1,2) w unfolding keeps_good_def db_good_def by blast
  then show ?thesis
    using handle_outcome_same_core [OF h] by (simp add: db_good_def same_core_def)
qed

lemma attempt_loop_good:
  assumes "keeps_good task" "db_good F S t" "attempt_loop task i n t = Some (Inr (f, t'))"
  shows "db_good F S t' \<and> Context t' = Context t \<and> NoDelays t' = NoDelays t \<and> RunningCount t' = RunningCount t
    \<and> later (stops t) (stops t')"
  using assms(2,3)
proof (induction n arbitrary: t)
  case (Suc n)
  obtain v t1 where t1: "attempt_once task i (3 - n) t = Some (Inr (v, t1))"
    "(if v = Retry then attempt_loop task i n t1 else Some (Inr (v = Fatal, t1))) = Some (Inr (f, t'))"
    using Suc.prems(2) by (auto split: option.splits sum.splits)
  note one = attempt_once_good [OF assms(1) Suc.prems(1) t1(1)]
  then show ?case using Suc.IH [of t1] t1(2) by (auto split: if_splits intro: later_trans)
qed simp

lemma choose_index_bound: "choose_index k < length CreateTransactions"
proof -
  have "choose_loop v c i xs = Some j \<Longrightarrow> j < i + length xs" for v c i j xs
    by (induction xs arbitrary: c i) (fastforce split: if_splits)+
  from this [of _ 0 0 "map Weight CreateTransactions"] show ?thesis
    by (auto simp: choose_index_def CreateTransactions_def split: option.splits)
qed

lemma pick_transaction_good:
  assumes "valid_ctx (Context t)" "db_good F S t" "pick_transaction t = Some (i, task, t')"
  shows "keeps_good task \<and> db_good F S t' \<and> Context t' = Context t \<and> NoDelays t' = NoDelays t
    \<and> RunningCount t' = RunningCount t \<and> stops t' = stops t"
  using assms tasks_keep_good [OF assms(1)] choose_index_bound
  by (auto simp: pick_transaction_def db_good_def ChooseRandomTransactionIndex_def rnd_bind_def ret_def
      split: if_splits option.splits)

lemma iteration_good:
  assumes "valid_ctx (Context t)" "db_good F S t" "iteration t = Some (Inr (b, t'))"
  shows "db_good F S t' \<and> Context t' = Context t \<and> RunningCount t' = RunningCount t \<and> later (stops t) (stops t')"
proof -
  let ?t0 = "check_warmup t"
  have c0: "same_core t ?t0" by (rule helpers_same_core)
  obtain i task t1 where p: "pick_transaction ?t0 = Some (i, task, t1)"
    using assms(3) by (auto simp: iteration_def split: option.splits)
  have g0: "valid_ctx (Context ?t0)" "db_good F S ?t0" using c0 assms(1,2) by (simp_all add: same_core_def db_good_def)
  note g1 = pick_transaction_good [OF g0 p]
  obtain s1 t2 where k: "keying t1 = (s1, t2)" by fastforce
  note c2 = helpers_same_core(6) [OF k]
  obtain s2 t3 where ts: "take_slot t2 = (s2, t3)" by fastforce
  have c3: "same_core (t2\<lparr>RunningCount := RunningCount t2 + (if s2 then 0 else 1)\<rparr>) t3"
    using ts helpers_same_core(1) [of "t2\<lparr>RunningCount := RunningCount t2 + 1\<rparr>"]
    by (auto simp: take_slot_def same_core_def split: prod.splits if_splits)
  show ?thesis
  proof (cases "s1 \<or> s2")
    case True
    then have "t' = (if s1 then t2 else t3)" using assms(3) p k ts by (auto simp: iteration_def split: if_splits)
    then show ?thesis using True c0 c2 c3 g1 assms(2) by (auto simp: same_core_def db_good_def intro: later_trans)
  next
    case False
    then obtain f t4 where a: "attempt_loop task i 4 t3 = Some (Inr (f, t4))"
      and t': "t' = (if f then request_stop_with_error (t4\<lparr>RunningCount := RunningCount t4 - 1\<rparr>) else t4\<lparr>RunningCount := RunningCount t4 - 1\<rparr>)"
      using assms(3) p k ts by (auto simp: iteration_def Let_def split: option.splits sum.splits if_splits)
    have "db_good F S t3" using False c2 c3 g1 by (simp add: same_core_def db_good_def)
    from attempt_loop_good [OF _ this a] g1 show ?thesis
      using False c0 c2 c3 g1 t' by (auto simp: same_core_def db_good_def request_stop_with_error_def intro: later_trans)
  qed
qed

lemma Run_good:
  assumes "Run t = Some (Inr t')" "valid_ctx (Context t)" "db_good F S t"
  shows "db_good F S t' \<and> Context t' = Context t \<and> RunningCount t' = RunningCount t \<and> Done t'"
proof -
  have "case r of Inl e \<Rightarrow> True | Inr t' \<Rightarrow> valid_ctx (Context t) \<longrightarrow> db_good F S t \<longrightarrow>
      db_good F S t' \<and> Context t' = Context t \<and> RunningCount t' = RunningCount t \<and> Done t'"
    if "Run t = Some r" for r
  proof (rule Run.raw_induct [where P = "\<lambda>t r. case r of Inl e \<Rightarrow> True | Inr t' \<Rightarrow> valid_ctx (Context t) \<longrightarrow> db_good F S t \<longrightarrow>
      db_good F S t' \<and> Context t' = Context t \<and> RunningCount t' = RunningCount t \<and> Done t'", OF _ that], goal_cases)
    case (1 run t r)
    obtain b t1 where s: "stop_requested t = (b, t1)" by fastforce
    note c = helpers_same_core(1) [OF s]
    show ?case
    proof (cases r)
      case (Inr tr)
      show ?thesis
      proof (cases b)
        case True
        then show ?thesis using 1(2) s c Inr by (auto simp: same_core_def db_good_def)
      next
        case False
        then obtain g t2 where it: "iteration t1 = Some (Inr (g, t2))"
          "(if g then run t2 else Some (Inr (t2\<lparr>Done := True\<rparr>))) = Some (Inr tr)"
          using 1(2) s Inr by (auto split: option.splits sum.splits)
        have "db_good F S t2 \<and> Context t2 = Context t \<and> RunningCount t2 = RunningCount t"
          if "valid_ctx (Context t)" "db_good F S t"
          using iteration_good [OF _ _ it(1), of F S] that c by (auto simp: same_core_def db_good_def)
        then show ?thesis using it(2) 1(1) [of t2 "Inr tr"] Inr by (auto simp: db_good_def split: if_splits)
      qed
    qed simp
  qed
  then show ?thesis using assms by auto
qed

section \<open>The loop ends\<close>

text \<open>The states in which an iteration of the loop starts.\<close>

inductive reaches :: "TTerminal \<Rightarrow> TTerminal \<Rightarrow> bool" where
  here: "stop_requested t = (False, t1) \<Longrightarrow> reaches t t1"
| again: "stop_requested t = (False, t1) \<Longrightarrow> iteration t1 = Some (Inr (True, t2)) \<Longrightarrow> reaches t2 t' \<Longrightarrow> reaches t t'"

lemma iteration_stops:
  assumes "iteration t = Some (Inr (b, t'))"
  shows "later (stops t) (stops t')"
proof -
  have c0: "later (stops t) (stops (check_warmup t))" using helpers_same_core(5) by (simp add: same_core_def)
  have p: "pick_transaction x = Some (i, task, y) \<Longrightarrow> stops y = stops x" for x i task y
    by (auto simp: pick_transaction_def split: if_splits option.splits)
  have k: "keying x = (c, y) \<Longrightarrow> later (stops x) (stops y)" for x c y
    using helpers_same_core(6) by (simp add: same_core_def)
  have s: "take_slot x = (c, y) \<Longrightarrow> later (stops x) (stops y)" for x c y
    by (auto simp: take_slot_def stop_requested_def split: if_splits prod.splits)
  have o: "attempt_once task i m x = Some (Inr (v, y)) \<Longrightarrow> later (stops x) (stops y)" for task i m x v y
    using attempt_once_cases handle_outcome_same_core by (fastforce simp: same_core_def)
  have a: "attempt_loop task i m x = Some (Inr (f, y)) \<Longrightarrow> later (stops x) (stops y)" for task i m x f y
    by (induction m arbitrary: x) (fastforce split: option.splits sum.splits if_splits dest: o intro: later_trans)+
  show ?thesis
    using assms c0
    by (auto simp: iteration_def Let_def request_stop_with_error_def split: option.splits prod.splits if_splits sum.splits
        dest!: p k s a) (meson later_trans)+
qed

text \<open>An iteration that never returns keeps the loop from ending.\<close>

lemma Run_stuck: "reaches t t' \<Longrightarrow> iteration t' = None \<Longrightarrow> Run t = None"
  by (induction rule: reaches.induct) (simp_all add: Run.simps)

lemma Run_none:
  assumes "set_from n (stops t)" "Run t = None"
  shows "\<exists>t'. reaches t t' \<and> iteration t' = None"
  using assms
proof (induction n arbitrary: t)
  case 0
  then show ?case using set_from_0 by (simp add: Run.simps [of t] stop_requested_def)
next
  case (Suc n)
  let ?t1 = "t\<lparr>stops := stl (stops t)\<rparr>"
  have s: "stop_requested t = (False, ?t1)" using Suc.prems(2) by (auto simp: Run.simps [of t] stop_requested_def split: if_splits)
  show ?case
  proof (cases "iteration ?t1")
    case None
    then show ?thesis using s by (auto intro: reaches.here)
  next
    case (Some r)
    then obtain t2 where i: "iteration ?t1 = Some (Inr (True, t2))" "Run t2 = None"
      using Suc.prems(2) s by (auto simp: Run.simps [of t] split: sum.splits if_splits)
    have "set_from n (stops t2)"
      using set_from_later [OF set_from_stl [OF Suc.prems(1)]] iteration_stops [OF i(1)] by simp
    from Suc.IH [OF this i(2)] show ?thesis using s i(1) by (auto intro: reaches.again)
  qed
qed

text \<open>
  The stop request is needed: a loop whose token is never set, and whose iterations all go on, does
  not end.
\<close>

lemma Run_needs_stop:
  assumes "\<And>m. \<not> stops t !! m" "\<And>t'. reaches t t' \<Longrightarrow> \<exists>t2. iteration t' = Some (Inr (True, t2))"
  shows "Run t = None"
proof -
  have "\<not> ((\<forall>m. \<not> stops t !! m) \<and> (\<forall>t'. reaches t t' \<longrightarrow> (\<exists>t2. iteration t' = Some (Inr (True, t2)))))"
    if "Run t = Some r" for r
  proof (rule Run.raw_induct [where P = "\<lambda>t r. \<not> ((\<forall>m. \<not> stops t !! m)
      \<and> (\<forall>t'. reaches t t' \<longrightarrow> (\<exists>t2. iteration t' = Some (Inr (True, t2)))))", OF _ that], goal_cases)
    case (1 run t r)
    show ?case
    proof (rule notI, elim conjE)
      assume never: "\<forall>m. \<not> stops t !! m" and go: "\<forall>t'. reaches t t' \<longrightarrow> (\<exists>t2. iteration t' = Some (Inr (True, t2)))"
      let ?t1 = "t\<lparr>stops := stl (stops t)\<rparr>"
      have s: "stop_requested t = (False, ?t1)" using never [rule_format, of 0] by (simp add: stop_requested_def)
      then obtain t2 where i: "iteration ?t1 = Some (Inr (True, t2))" using go reaches.here by blast
      obtain k where "stops t2 = sdrop k (stl (stops t))" using iteration_stops [OF i] by (auto simp: later_def)
      then have "\<forall>m. \<not> stops t2 !! m" using never by (metis sdrop.simps(2) sdrop_snth)
      moreover have "\<forall>t'. reaches t2 t' \<longrightarrow> (\<exists>t3. iteration t' = Some (Inr (True, t3)))"
        using go reaches.again [OF s i] by blast
      ultimately show False using 1(1) [of t2 r] 1(2) s i by auto
    qed
  qed
  then show ?thesis using assms by (cases "Run t") auto
qed

section \<open>Counters\<close>

definition counters :: "TTerminalStats \<Rightarrow> (u64 \<times> u64 \<times> u64) list" where
  "counters st = map (\<lambda>s. (OK s, Failed s, UserAbortedCount s)) (PerTransactionTypeStats st)"

text \<open>How one transaction may change the counters of its type.\<close>

definition counted :: "nat \<Rightarrow> (u64 \<times> u64 \<times> u64) list \<Rightarrow> (u64 \<times> u64 \<times> u64) list \<Rightarrow> bool" where
  "counted i c c' \<longleftrightarrow> i < length c \<and> (case c ! i of (ok, failed, aborted) \<Rightarrow>
     c' \<in> {c[i := (ok + 1, failed, aborted)], c[i := (ok, failed + 1, aborted)], c[i := (ok, failed, aborted + 1)]})"

lemma update_stats_counters:
  assumes "update_stats i f st = Inr st'"
    and "\<And>s s'. f s = Inr s' \<Longrightarrow> (OK s', Failed s', UserAbortedCount s')
       \<in> {(OK s + 1, Failed s, UserAbortedCount s), (OK s, Failed s + 1, UserAbortedCount s), (OK s, Failed s, UserAbortedCount s + 1)}"
  shows "counted i (counters st) (counters st')"
proof -
  obtain s' where s: "i < length (PerTransactionTypeStats st)" "f (PerTransactionTypeStats st ! i) = Inr s'"
    "st' = st\<lparr>PerTransactionTypeStats := (PerTransactionTypeStats st)[i := s']\<rparr>"
    using assms(1) by (auto simp: update_stats_def split: if_splits)
  then show ?thesis using assms(2) [OF s(2)] by (auto simp: counted_def counters_def map_update)
qed

lemma with_stats_counted:
  "with_stats (AddOK i l lf lp) t = Inr t' \<Longrightarrow> counted i (counters (Stats t)) (counters (Stats t'))"
  "with_stats (IncFailed i) t = Inr t' \<Longrightarrow> counted i (counters (Stats t)) (counters (Stats t'))"
  "with_stats (IncUserAborted i) t = Inr t' \<Longrightarrow> counted i (counters (Stats t)) (counters (Stats t'))"
  by (auto simp: with_stats_def AddOK_def IncFailed_def IncUserAborted_def elim!: update_stats_counters)

lemma stop_requested_stats: "stop_requested t = (b, t') \<Longrightarrow> Stats t' = Stats t"
  by (auto simp: stop_requested_def)

lemma handle_outcome_counted:
  assumes "handle_outcome i n r t = Inr (v, t')"
  shows "counters (Stats t') = counters (Stats t) \<and> v \<in> {Finished, Retry, Broken, Fatal}
    \<or> v = Finished \<and> counted i (counters (Stats t)) (counters (Stats t'))"
  using assms unfolding handle_outcome_def
  by (auto simp: Let_def measure_latency_def split: sum.splits bool.splits exn.splits prod.splits if_splits
      dest!: with_stats_counted stop_requested_stats)

lemma attempt_loop_counted:
  "attempt_loop task i n t = Some (Inr (fatal, t')) \<Longrightarrow> counters (Stats t') = counters (Stats t)
    \<or> \<not> fatal \<and> counted i (counters (Stats t)) (counters (Stats t'))"
proof (induction n arbitrary: t)
  case (Suc n)
  obtain v t1 where t1: "attempt_once task i (3 - n) t = Some (Inr (v, t1))"
    "(if v = Retry then attempt_loop task i n t1 else Some (Inr (v = Fatal, t1))) = Some (Inr (fatal, t'))"
    using Suc.prems by (auto split: option.splits sum.splits)
  obtain r w where "handle_outcome i (3 - n) r (t\<lparr>acquires := stl (acquires t), twld := w\<rparr>) = Inr (v, t1)"
    using attempt_once_cases [OF t1(1)] by blast
  from handle_outcome_counted [OF this] show ?case using t1(2) Suc.IH [of t1] by (auto split: if_splits)
qed simp

text \<open>A task that fails with the same error every time.\<close>

lemma attempt_once_fails:
  assumes "task (twld t) = Some (Inl (DbException code msg), w)" "\<not> shd (stops t)" "shd (acquires t) = Some (Inr ())" "ClassifyDbError code \<noteq> Shutdown"
    "IsRetryableTxError (ClassifyDbError code)"
  shows "attempt_once task i n t = Some (let t1 = t\<lparr>acquires := stl (acquires t), twld := ReleaseConnection w, stops := stl (stops t)\<rparr> in
     if n < 3 then Inr (Retry, t1) else rbind (with_stats (IncFailed i) t1) (\<lambda>t2. Inr (Finished, t2)))"
  using assms by (simp add: attempt_once_def AcquireGuard_def handle_outcome_def stop_requested_def)

lemma Run_keeps_verdict:
  assumes "Run t = Some (Inr t')" "valid_ctx (Context t)" "consistent db" "idle F {db} (twld t)"
  shows "consistent (committed (twld t')) \<and> CheckSync n False (committed (twld t')) = CheckSync n False db
      \<and> populated cnt (committed (twld t')) = populated cnt db
      \<and> \<not> inTxn (twld t') \<and> RunningCount t' = RunningCount t \<and> Done t'"
proof -
  have g: "db_good F (static_part db) t" using assms(3,4) by (auto simp: db_good_def idle_def)
  note r = Run_good [OF assms(1,2) g]
  then have c: "consistent (committed (twld t'))" "static_part (committed (twld t')) = static_part db" "\<not> inTxn (twld t')"
    by (simp_all add: db_good_def idle_def)
  then show ?thesis using r CheckSync_static [OF c(1) assms(3) c(2)] populated_static [OF c(2)] by blast
qed

section \<open>Properties\<close>

text \<open>
  (C4) Running terminals keeps the database acceptable: whatever the server does, a terminal whose loop
  ends leaves a consistent database on which the checker gives the same verdict as before the run, has
  given back every in-flight slot it took, and is done.
\<close>

theorem run_keeps_checker_verdict:
  assumes "valid_ctx (Context t)" "consistent db" "idle F {db} (twld t)"
  shows "case Run t of Some (Inr t') \<Rightarrow> consistent (committed (twld t'))
      \<and> CheckSync n False (committed (twld t')) = CheckSync n False db
      \<and> populated cnt (committed (twld t')) = populated cnt db
      \<and> \<not> inTxn (twld t') \<and> RunningCount t' = RunningCount t \<and> Done t'
    | _ \<Rightarrow> True"
  using Run_keeps_verdict [OF _ assms] by (simp split: option.splits sum.splits)

text \<open>A terminal that sends \<open>SELECT 1\<close> instead of transactions.\<close>

definition sample_terminal :: "bool stream \<Rightarrow> unit result option stream \<Rightarrow> fault list \<Rightarrow> TTerminal" where
  "sample_terminal ss as fs = \<lparr>Context = sample_ctx\<lparr>SimulateTransactionSelect1 := 1\<rparr>, NoDelays = True, twld = sample_world sample_db fs,
     Stats = \<lparr>PerTransactionTypeStats = [], WasCleared = False\<rparr>, stops = ss, warmupStops = sconst False,
     latencies = sconst (0, 0, 0), acquires = as, RunningCount = 0, Done = False, WarmupWasStopped = False\<rparr>"

lemma sample_terminal_valid [simp]: "valid_ctx (Context (sample_terminal ss as fs))"
  by (simp add: sample_terminal_def sample_ctx_def valid_ctx_def)

text \<open>The pool shuts down while the terminal waits for a connection, after a stop request.\<close>

definition shutdown_terminal :: "world \<Rightarrow> TTerminal" where
  "shutdown_terminal w = (sample_terminal ([False, False] @- sconst True)
     (sconst (Some (Inl (RuntimeError ''Connection pool is shutting down'')))) [])\<lparr>twld := w\<rparr>"

lemma shutdown_terminal_iteration:
  "iteration ((shutdown_terminal w)\<lparr>stops := stl (stops (shutdown_terminal w))\<rparr>)
    = Some (Inr (True, (shutdown_terminal w)\<lparr>stops := sconst True, warmupStops := sconst False\<rparr>))"
  by (simp add: iteration_def shutdown_terminal_def sample_terminal_def sample_ctx_def check_warmup_def warmup_stopped_def
      pick_transaction_def simulation_mode_def keying_def take_slot_def stop_requested_def eval_nat_numeral attempt_once_def
      AcquireGuard_def handle_outcome_def)

lemma shutdown_terminal_run:
  "Run (shutdown_terminal w) = Some (Inr ((shutdown_terminal w)\<lparr>stops := sconst True, Done := True\<rparr>))"
proof -
  have s: "stop_requested (shutdown_terminal w) = (False, (shutdown_terminal w)\<lparr>stops := stl (stops (shutdown_terminal w))\<rparr>)"
    by (simp add: stop_requested_def shutdown_terminal_def sample_terminal_def)
  show ?thesis
    by (simp add: Run.simps [of "shutdown_terminal w"] s shutdown_terminal_iteration
        Run.simps [of "shutdown_terminal w\<lparr>stops := sconst True, warmupStops := sconst False\<rparr>"])
       (simp add: stop_requested_def shutdown_terminal_def sample_terminal_def)
qed

theorem run_keeps_checker_verdict_witness:
  "\<exists>t'. Run (shutdown_terminal (sample_world sample_db [])) = Some (Inr t') \<and> consistent (committed (twld t'))
      \<and> CheckSync 1 False (committed (twld t')) = CheckSync 1 False sample_db
      \<and> populated 1 (committed (twld t')) = populated 1 sample_db
      \<and> \<not> inTxn (twld t') \<and> RunningCount t' = 0 \<and> Done t'"
proof -
  have "valid_ctx (Context (shutdown_terminal (sample_world sample_db [])))" "idle True {sample_db} (twld (shutdown_terminal (sample_world sample_db [])))" "RunningCount (shutdown_terminal (sample_world sample_db [])) = 0"
    by (simp_all add: shutdown_terminal_def sample_terminal_valid sample_world_idle) (simp add: sample_terminal_def)
  then show ?thesis
    using run_keeps_checker_verdict [of "shutdown_terminal (sample_world sample_db [])" sample_db True 1 1] sample_db_consistent
    by (simp add: shutdown_terminal_run)
qed

text \<open>
  (C23) The loop of a terminal ends after a stop request: when the stop token is set from some question
  on, the loop returns, unless one of the iterations it starts never returns. (Without a stop request it
  may go on for ever, \<open>Run_needs_stop\<close>.)
\<close>

theorem run_ends_unless_stuck:
  assumes "set_from n (stops t)"
  shows "(\<exists>r. Run t = Some r) \<longleftrightarrow> \<not> (\<exists>t'. reaches t t' \<and> iteration t' = None)"
  using Run_none [OF assms] Run_stuck [of t] by (cases "Run t") auto

theorem run_ends_unless_stuck_witness:
  "set_from 2 (stops (shutdown_terminal (sample_world sample_db []))) \<and> (\<exists>r. Run (shutdown_terminal (sample_world sample_db [])) = Some r)
    \<and> \<not> (\<exists>t'. reaches (shutdown_terminal (sample_world sample_db [])) t' \<and> iteration t' = None)"
proof -
  have "set_from 2 (stops (shutdown_terminal (sample_world sample_db [])))"
    by (simp add: shutdown_terminal_def sample_terminal_def numeral_2_eq_2 set_from_SCons)
       (simp add: set_from_def)
  then show ?thesis using run_ends_unless_stuck [of 2 "shutdown_terminal (sample_world sample_db [])"] shutdown_terminal_run by auto
qed

text \<open>
  A transaction is counted at most once however often it is retried: the attempts change exactly one
  counter of the transaction's own type by one, or none at all when the terminal was interrupted or
  the error is fatal.
\<close>

theorem counted_once:
  assumes "attempt_loop task i 4 t = Some (Inr (fatal, t'))"
  shows "counters (Stats t') = counters (Stats t) \<or> \<not> fatal \<and> counted i (counters (Stats t)) (counters (Stats t'))"
  by (rule attempt_loop_counted [OF assms])

theorem counted_once_witness:
  "\<exists>t'. attempt_loop (\<lambda>w. Some (Inl UserAborted, w)) 0 4
       ((sample_terminal (sconst True) (sconst (Some (Inr ()))) [])\<lparr>Stats := \<lparr>PerTransactionTypeStats = [undefined\<lparr>OK := 5, Failed := 2, UserAbortedCount := 0\<rparr>], WasCleared = True\<rparr>\<rparr>)
     = Some (Inr (False, t')) \<and> counters (Stats t') \<in> {[(5, 2, 0)], [(6, 2, 0)], [(5, 3, 0)], [(5, 2, 1)]}"
proof -
  let ?t = "(sample_terminal (sconst True) (sconst (Some (Inr ()))) [])\<lparr>Stats := \<lparr>PerTransactionTypeStats = [undefined\<lparr>OK := 5, Failed := 2, UserAbortedCount := 0\<rparr>], WasCleared = True\<rparr>\<rparr>"
  have a: "\<exists>t'. attempt_loop (\<lambda>w. Some (Inl UserAborted, w)) 0 4 ?t = Some (Inr (False, t'))"
    by (simp add: eval_nat_numeral attempt_once_def AcquireGuard_def handle_outcome_def sample_terminal_def with_stats_def
        IncUserAborted_def update_stats_def)
  then obtain t' where t': "attempt_loop (\<lambda>w. Some (Inl UserAborted, w)) 0 4 ?t = Some (Inr (False, t'))" by blast
  from counted_once [OF this] show ?thesis unfolding t' by (auto simp: counted_def counters_def)
qed

text \<open>
  Retries are bounded: a transaction that fails with a retryable error every time runs exactly four
  times, each attempt giving its connection back, and is then counted as failed once.
\<close>

theorem retries_exhausted:
  assumes "\<And>w. task w = Some (Inl (DbException code msg), step w)" "IsRetryableTxError (ClassifyDbError code)"
    "\<And>m. m < 4 \<Longrightarrow> \<not> stops t !! m \<and> acquires t !! m = Some (Inr ())" "i < length (PerTransactionTypeStats (Stats t))"
    "counters (Stats t) ! i = (ok, failed, aborted)"
  shows "\<exists>t'. attempt_loop task i 4 t = Some (Inr (False, t'))
     \<and> twld t' = ((ReleaseConnection \<circ> step) ^^ 4) (twld t)
     \<and> counters (Stats t') = (counters (Stats t))[i := (ok, failed + 1, aborted)]"
proof -
  have k: "ClassifyDbError code \<noteq> Shutdown" using assms(2) by (auto simp: IsRetryableTxError_def)
  note f = attempt_once_fails [OF assms(1) _ _ k assms(2)]
  have l: "attempt_loop task i 4 t = attempt_loop task i (Suc (Suc (Suc (Suc 0)))) t" by (simp add: eval_nat_numeral)
  have c: "counters (st\<lparr>PerTransactionTypeStats := (PerTransactionTypeStats st)[i := s]\<rparr>)
      = (counters st)[i := (OK s, Failed s, UserAbortedCount s)]" for st s
    by (simp add: counters_def map_update)
  have e: "OK (PerTransactionTypeStats (Stats t) ! i) = ok" "Failed (PerTransactionTypeStats (Stats t) ! i) = failed"
    "UserAbortedCount (PerTransactionTypeStats (Stats t) ! i) = aborted"
    using assms(4,5) by (simp_all add: counters_def)
  have q: "\<not> shd (stops t)" "\<not> shd (stl (stops t))" "\<not> shd (stl (stl (stops t)))" "\<not> shd (stl (stl (stl (stops t))))"
    "shd (acquires t) = Some (Inr ())" "shd (stl (acquires t)) = Some (Inr ())" "shd (stl (stl (acquires t))) = Some (Inr ())"
    "shd (stl (stl (stl (acquires t)))) = Some (Inr ())"
    using assms(3) [of 0] assms(3) [of 1] assms(3) [of 2] assms(3) [of 3] by (simp_all add: eval_nat_numeral)
  show ?thesis unfolding l
    using q assms(4) e
    by (simp add: f Let_def with_stats_def IncFailed_def update_stats_def c eval_nat_numeral)
qed

theorem retries_exhausted_witness:
  "\<exists>t'. attempt_loop (\<lambda>w. Some (Inl (DbException 1213 []), w)) 0 4
       ((sample_terminal (sconst False) (sconst (Some (Inr ()))) [])\<lparr>Stats := \<lparr>PerTransactionTypeStats = [undefined\<lparr>OK := 5, Failed := 2, UserAbortedCount := 0\<rparr>], WasCleared = True\<rparr>\<rparr>)
     = Some (Inr (False, t')) \<and> counters (Stats t') = [(5, 3, 0)]"
  using retries_exhausted [of "\<lambda>w. Some (Inl (DbException 1213 []), w)" 1213 "[]" id
    "(sample_terminal (sconst False) (sconst (Some (Inr ()))) [])\<lparr>Stats := \<lparr>PerTransactionTypeStats = [undefined\<lparr>OK := 5, Failed := 2, UserAbortedCount := 0\<rparr>], WasCleared = True\<rparr>\<rparr>" 0 5 2 0]
  by (auto simp: sample_terminal_def counters_def IsRetryableTxError_def ClassifyDbError_def)

section \<open>The mix\<close>

text \<open>Indices \<open>0\<close> to \<open>4\<close> are NewOrder, Delivery, OrderStatus, Payment and StockLevel.\<close>

lemma choose_index_eq:
  "choose_index k = (if unat k \<le> 4500 then 0 else if unat k \<le> 4900 then 1 else if unat k \<le> 5300 then 2
     else if unat k \<le> 9600 then 3 else 4)"
proof -
  have le: "(of_nat m / 100 :: rat) \<le> of_nat n \<longleftrightarrow> m \<le> 100 * n" for m n :: nat
  proof -
    have "(of_nat m / 100 :: rat) \<le> of_nat n \<longleftrightarrow> (of_nat m :: rat) \<le> of_nat (100 * n)" by (simp add: field_simps)
    then show ?thesis by (simp only: of_nat_le_iff)
  qed
  from le [of "unat k" 45] le [of "unat k" 49] le [of "unat k" 53] le [of "unat k" 96] le [of "unat k" 100] show ?thesis
    by (simp add: choose_index_def CreateTransactions_def const_defs)
qed

text \<open>
  The transaction mix: the index is drawn from the 10001 values 0 to 10000, inclusive; 4501 of them give
  NewOrder, 400 each Delivery, OrderStatus and StockLevel, and 4300 Payment. So Payment, with 4300 of 10001,
  stays below the 43 percent that the benchmark specification requires at least.
\<close>

theorem transaction_mix:
  "ChooseRandomTransactionIndex = rnd_bind (RandomNumber 0 10000) (\<lambda>k. ret (choose_index k))
   \<and> map (\<lambda>i. card {k :: nat. k \<le> 10000 \<and> choose_index (of_nat k) = i}) [0..<5] = [4501, 400, 400, 4300, 400]
   \<and> (4300 :: rat) / 10001 < 43 / 100"
proof (intro conjI)
  have u: "unat (of_nat k :: u64) = k" if "k \<le> 10000" for k using that by (simp add: unat_of_nat)
  have s: "{k :: nat. k \<le> 10000 \<and> choose_index (of_nat k) = i}
     = (if i = 0 then {0..4500} else if i = 1 then {4501..4900} else if i = 2 then {4901..5300}
        else if i = 3 then {5301..9600} else if i = 4 then {9601..10000} else {})" for i
    using u by (auto simp: choose_index_eq split: if_splits)
  show "map (\<lambda>i. card {k :: nat. k \<le> 10000 \<and> choose_index (of_nat k) = i}) [0..<5] = [4501, 400, 400, 4300, 400]"
    unfolding s by (simp add: upt_rec)
  show "ChooseRandomTransactionIndex = rnd_bind (RandomNumber 0 10000) (\<lambda>k. ret (choose_index k))"
    by (simp add: ChooseRandomTransactionIndex_def CreateTransactions_def const_defs)
qed simp

end
