(* ===== verification/Results.thy ===== *)
theory Results
  imports Terminal
begin

text \<open>
  The figures of a run (\<open>src/src/runner.cpp\<close>, \<open>src/src/runner_display_data.h\<close>, the statistics of \<open>src/src/task_queue.h\<close>):
  how the statistics of the threads are merged and what is computed from them. Text formatting is left out: a report
  is the record of its numbers. Doubles are rationals rounded by \<open>fl\<close>.
\<close>

section \<open>Statistics of the scheduler's threads\<close>

record TThreadStats =
  InternalTasksSleeping :: u64
  InternalTasksWaitingInflight :: u64
  InternalTasksReady :: u64
  ExternalTasksReady :: u64
  InternalTasksResumed :: u64
  ExternalTasksResumed :: u64
  ExecutingTime :: rat
  TotalTime :: rat
  InternalInflightWaitTimeMs :: THistogram
  InternalQueueTimeMs :: THistogram
  ExternalQueueTimeMs :: THistogram

definition ThreadStats_Collect :: "TThreadStats \<Rightarrow> TThreadStats \<Rightarrow> TThreadStats result" where
  "ThreadStats_Collect src dst =
     rbind (Add (InternalInflightWaitTimeMs dst) (InternalInflightWaitTimeMs src)) (\<lambda>h1.
     rbind (Add (InternalQueueTimeMs dst) (InternalQueueTimeMs src)) (\<lambda>h2.
     rbind (Add (ExternalQueueTimeMs dst) (ExternalQueueTimeMs src)) (\<lambda>h3.
     Inr (dst\<lparr>InternalTasksSleeping := InternalTasksSleeping dst + InternalTasksSleeping src,
       InternalTasksWaitingInflight := InternalTasksWaitingInflight dst + InternalTasksWaitingInflight src,
       InternalTasksReady := InternalTasksReady dst + InternalTasksReady src,
       ExternalTasksReady := ExternalTasksReady dst + ExternalTasksReady src,
       InternalTasksResumed := InternalTasksResumed dst + InternalTasksResumed src,
       ExternalTasksResumed := ExternalTasksResumed dst + ExternalTasksResumed src,
       ExecutingTime := fl (ExecutingTime dst + ExecutingTime src), TotalTime := fl (TotalTime dst + TotalTime src),
       InternalInflightWaitTimeMs := h1, InternalQueueTimeMs := h2, ExternalQueueTimeMs := h3\<rparr>))))"

definition CollectStats :: "TThreadStats list \<Rightarrow> nat \<Rightarrow> TThreadStats \<Rightarrow> TThreadStats result" where
  "CollectStats contexts threadIndex dst = (if threadIndex \<ge> length contexts
     then Inl (RuntimeError ''Invalid thread index in stats collection'') else ThreadStats_Collect (contexts ! threadIndex) dst)"

text \<open>The display's rates over the seconds since the previous sample.\<close>

record TThreadStatistics =
  TaskThreadStats :: TThreadStats
  TerminalStats :: TTerminalStats
  TerminalsPerSecond :: u64
  QueriesPerSecond :: u64
  sample_ExecutingTime :: rat
  sample_TotalTime :: rat
  Load :: rat
  sample_InflightWaitTimeMs :: THistogram
  sample_ExternalQueueTimeMs :: THistogram

definition CalculateDerivative :: "TThreadStatistics \<Rightarrow> u64 \<Rightarrow> TThreadStatistics \<Rightarrow> TThreadStatistics result" where
  "CalculateDerivative prev secs s = (let cur = TaskThreadStats s; old = TaskThreadStats prev;
     ex = fl (ExecutingTime cur - ExecutingTime old); tot = fl (TotalTime cur - TotalTime old) in
     rbind (Sub (InternalInflightWaitTimeMs cur) (InternalInflightWaitTimeMs old)) (\<lambda>h1.
     rbind (Sub (ExternalQueueTimeMs cur) (ExternalQueueTimeMs old)) (\<lambda>h2.
     Inr (s\<lparr>TerminalsPerSecond := (InternalTasksResumed cur - InternalTasksResumed old) div secs,
       QueriesPerSecond := (ExternalTasksResumed cur - ExternalTasksResumed old) div secs,
       sample_ExecutingTime := ex, sample_TotalTime := tot, sample_InflightWaitTimeMs := h1, sample_ExternalQueueTimeMs := h2,
       Load := (if tot \<noteq> 0 then fl (ex / tot) else 0)\<rparr>))))"

definition ThreadSaturatedLoadThreshold :: rat where "ThreadSaturatedLoadThreshold = fl (6 / 10)"

record TAllStatistics =
  StatVec :: "TThreadStatistics list"
  Ts :: int
  TotalTerminalStats :: TTerminalStats
  SaturatedThreads :: nat

fun derivative_loop :: "u64 \<Rightarrow> TThreadStatistics list \<Rightarrow> TThreadStatistics list \<Rightarrow> TThreadStatistics list result" where
  "derivative_loop secs prevs [] = Inr []"
| "derivative_loop secs [] (s # ss) = Inl (UB ''prev.StatVec'')"
| "derivative_loop secs (p # ps) (s # ss) = rbind (CalculateDerivative p secs s) (\<lambda>s'. rbind (derivative_loop secs ps ss) (\<lambda>ss'. Inr (s' # ss')))"

definition CalculateDerivativeAndTotal :: "TAllStatistics \<Rightarrow> TAllStatistics \<Rightarrow> TAllStatistics result" where
  "CalculateDerivativeAndTotal prev cur = (let secs = word_of_int ((Ts cur - Ts prev) div 1000000000) :: u64 in
     rbind (if secs \<noteq> 0 then derivative_loop secs (StatVec prev) (StatVec cur) else Inr (StatVec cur)) (\<lambda>sv.
     rbind (rfold Stats_Collect (map TerminalStats sv) (TotalTerminalStats cur)) (\<lambda>total.
     Inr (cur\<lparr>StatVec := sv, TotalTerminalStats := total,
       SaturatedThreads := length (filter (\<lambda>s. Load s \<ge> ThreadSaturatedLoadThreshold) sv)\<rparr>))))"

section \<open>Reports\<close>

definition tpmc_of :: "u64 \<Rightarrow> rat \<Rightarrow> rat" where
  "tpmc_of newOrderOK duration = (if duration > 0 then fl (fl (fl (of_nat (unat newOrderOK)) / duration) * 60) else 0)"

definition efficiency_of :: "u64 \<Rightarrow> rat \<Rightarrow> rat" where
  "efficiency_of warehouseCount tpmc = (if warehouseCount > 0
     then fl (fl (tpmc / fl (fl MAX_TPMC_PER_WAREHOUSE * fl (of_nat (unat warehouseCount)))) * 100) else 0)"

definition aggregate :: "bool \<Rightarrow> TTerminalStats list \<Rightarrow> TTerminalStats result option" where
  "aggregate highResHistogram perThreadStats = (case new_TTerminalStats highResHistogram of
     None \<Rightarrow> None | Some (Inl e) \<Rightarrow> Some (Inl e) | Some (Inr agg) \<Rightarrow> Some (rfold Stats_Collect perThreadStats agg))"

definition total_of :: "(TTransactionStats \<Rightarrow> u64) \<Rightarrow> TTerminalStats list \<Rightarrow> u64" where
  "total_of f perThreadStats = (\<Sum>st \<leftarrow> perThreadStats. \<Sum>s \<leftarrow> PerTransactionTypeStats st. f s)"

text \<open>One line per transaction type: the counters and the percentiles 50, 90 and 99 of the full latency.\<close>

definition result_line :: "TTransactionStats \<Rightarrow> (u64 \<times> u64 \<times> u64 \<times> u64 \<times> u64) result" where
  "result_line s = rbind (GetValueAtPercentile (LatencyHistogramFullMs s) 50) (\<lambda>p50.
     rbind (GetValueAtPercentile (LatencyHistogramFullMs s) 90) (\<lambda>p90.
     rbind (GetValueAtPercentile (LatencyHistogramFullMs s) 99) (\<lambda>p99. Inr (OK s, Failed s, p50, p90, p99))))"

fun result_lines :: "TTransactionStats list \<Rightarrow> (u64 \<times> u64 \<times> u64 \<times> u64 \<times> u64) list result" where
  "result_lines [] = Inr []"
| "result_lines (s # ss) = (if OK s = 0 \<and> Failed s = 0 then result_lines ss
     else rbind (result_line s) (\<lambda>l. rbind (result_lines ss) (\<lambda>ls. Inr (l # ls))))"

record final_results =
  tpmc :: rat
  efficiency :: rat
  totalFailed :: u64
  result_table :: "(u64 \<times> u64 \<times> u64 \<times> u64 \<times> u64) list"

definition PrintFinalResults :: "bool \<Rightarrow> u64 \<Rightarrow> TTerminalStats list \<Rightarrow> rat \<Rightarrow> final_results result option" where
  "PrintFinalResults highResHistogram warehouseCount perThreadStats measureDuration =
     (case aggregate highResHistogram perThreadStats of None \<Rightarrow> None | Some (Inl e) \<Rightarrow> Some (Inl e)
      | Some (Inr agg) \<Rightarrow> Some (let t = tpmc_of (OK (PerTransactionTypeStats agg ! tx_index NewOrder)) measureDuration in
          rbind (result_lines (PerTransactionTypeStats agg)) (\<lambda>ls.
            Inr \<lparr>tpmc = t, efficiency = efficiency_of warehouseCount t, totalFailed = total_of Failed perThreadStats, result_table = ls\<rparr>)))"

text \<open>The periodic line: tpmC over the time since the start of the measurement, the totals, and the median and 99th percentile per type.\<close>

record console_stats =
  con_tpmc :: rat
  con_efficiency :: rat
  con_totalOK :: u64
  con_totalFailed :: u64
  latencies :: "(nat \<times> u64 \<times> u64 \<times> u64) list"

fun latency_list :: "nat \<Rightarrow> TTransactionStats list \<Rightarrow> (nat \<times> u64 \<times> u64 \<times> u64) list result" where
  "latency_list i [] = Inr []"
| "latency_list i (s # ss) =
     rbind (GetValueAtPercentile (LatencyHistogramFullMs s) 50) (\<lambda>p50.
     rbind (GetValueAtPercentile (LatencyHistogramFullMs s) 99) (\<lambda>p99.
     rbind (latency_list (i + 1) ss) (\<lambda>ls. Inr ((if OK s > 0 then [(i, OK s, p50, p99)] else []) @ ls))))"

definition PrintConsoleStats :: "bool \<Rightarrow> u64 \<Rightarrow> TTerminalStats list \<Rightarrow> rat \<Rightarrow> console_stats result option" where
  "PrintConsoleStats highResHistogram warehouseCount perThreadStats elapsed =
     (case aggregate highResHistogram perThreadStats of None \<Rightarrow> None | Some (Inl e) \<Rightarrow> Some (Inl e)
      | Some (Inr agg) \<Rightarrow> Some (let n = (\<Sum>st \<leftarrow> perThreadStats. OK (PerTransactionTypeStats st ! tx_index NewOrder)); t = tpmc_of n elapsed in
          rbind (latency_list 0 (PerTransactionTypeStats agg)) (\<lambda>ls.
            Inr \<lparr>con_tpmc = t, con_efficiency = efficiency_of warehouseCount t, con_totalOK = total_of OK perThreadStats,
              con_totalFailed = total_of Failed perThreadStats, latencies = ls\<rparr>)))"

section \<open>Merging loses nothing\<close>

text \<open>The statistics of one transaction type with the full latencies recorded in them.\<close>

definition records :: "u64 \<Rightarrow> TTransactionStats \<Rightarrow> u64 multiset \<Rightarrow> bool" where
  "records H s M \<longleftrightarrow> represents (LatencyHistogramFullMs s) M \<and> HdrTill (LatencyHistogramFullMs s) = H \<and> MaxValue (LatencyHistogramFullMs s) = MaxResolution
     \<and> (\<exists>A. represents (LatencyHistogramMs s) A) \<and> HdrTill (LatencyHistogramMs s) = H \<and> MaxValue (LatencyHistogramMs s) = MaxResolution
     \<and> (\<exists>B. represents (LatencyHistogramPure s) B) \<and> HdrTill (LatencyHistogramPure s) = H \<and> MaxValue (LatencyHistogramPure s) = MaxResolution"

lemma Collect_records:
  assumes "records H src N" "records H dst M"
  shows "\<exists>d. TransactionStats_Collect src dst = Inr d \<and> records H d (M + N) \<and> OK d = OK dst + OK src \<and> Failed d = Failed dst + Failed src"
proof -
  obtain A B A' B' where r: "represents (LatencyHistogramMs dst) A" "represents (LatencyHistogramPure dst) B"
    "represents (LatencyHistogramMs src) A'" "represents (LatencyHistogramPure src) B'"
    using assms by (auto simp: records_def)
  obtain h1 where h1: "Add (LatencyHistogramMs dst) (LatencyHistogramMs src) = Inr h1" "represents h1 (A + A')" "same_shape (LatencyHistogramMs dst) h1"
    using Add_represents [OF r(1,3)] assms by (auto simp: records_def)
  obtain h2 where h2: "Add (LatencyHistogramFullMs dst) (LatencyHistogramFullMs src) = Inr h2" "represents h2 (M + N)" "same_shape (LatencyHistogramFullMs dst) h2"
    using Add_represents [of "LatencyHistogramFullMs dst" M "LatencyHistogramFullMs src" N] assms by (auto simp: records_def)
  obtain h3 where h3: "Add (LatencyHistogramPure dst) (LatencyHistogramPure src) = Inr h3" "represents h3 (B + B')" "same_shape (LatencyHistogramPure dst) h3"
    using Add_represents [OF r(2,4)] assms by (auto simp: records_def)
  show ?thesis using h1 h2 h3 assms by (auto simp: TransactionStats_Collect_def records_def same_shape_def)
qed

lemma rfold_each:
  "(\<And>i. i < k \<Longrightarrow> f i (PerTransactionTypeStats st ! i) = Inr (g i)) \<Longrightarrow> k \<le> length (PerTransactionTypeStats st) \<Longrightarrow>
   rfold (\<lambda>i d. update_stats i (f i) d) [0..<k] st = Inr (st\<lparr>PerTransactionTypeStats := map g [0..<k] @ drop k (PerTransactionTypeStats st)\<rparr>)"
proof (induction k)
  case (Suc k)
  have e: "rfold (\<lambda>i d. update_stats i (f i) d) [0..<k] st = Inr (st\<lparr>PerTransactionTypeStats := map g [0..<k] @ drop k (PerTransactionTypeStats st)\<rparr>)"
    using Suc by simp
  have "drop k (PerTransactionTypeStats st) = PerTransactionTypeStats st ! k # drop (Suc k) (PerTransactionTypeStats st)"
    using Suc.prems(2) by (simp add: Cons_nth_drop_Suc)
  then show ?case using e Suc.prems by (simp add: rfold_append update_stats_def nth_append list_update_append)
qed simp

text \<open>All types of one thread; \<open>L i\<close> are the latencies of type \<open>i\<close>.\<close>

definition all_records :: "u64 \<Rightarrow> TTerminalStats \<Rightarrow> (nat \<Rightarrow> u64 multiset) \<Rightarrow> bool" where
  "all_records H st L \<longleftrightarrow> length (PerTransactionTypeStats st) = TRANSACTION_TYPE_COUNT
     \<and> (\<forall>i < TRANSACTION_TYPE_COUNT. records H (PerTransactionTypeStats st ! i) (L i))"

lemma Stats_Collect_records:
  assumes "all_records H src N" "all_records H dst M"
  shows "\<exists>d. Stats_Collect src dst = Inr d \<and> all_records H d (\<lambda>i. M i + N i)
    \<and> (\<forall>i < TRANSACTION_TYPE_COUNT. OK (PerTransactionTypeStats d ! i) = OK (PerTransactionTypeStats dst ! i) + OK (PerTransactionTypeStats src ! i))"
proof -
  let ?n = "TRANSACTION_TYPE_COUNT" and ?s = "PerTransactionTypeStats src" and ?d = "PerTransactionTypeStats dst"
  have "\<forall>i. \<exists>d. i < ?n \<longrightarrow> TransactionStats_Collect (?s ! i) (?d ! i) = Inr d \<and> records H d (M i + N i) \<and> OK d = OK (?d ! i) + OK (?s ! i)"
    using Collect_records assms by (metis all_records_def)
  then obtain g where g: "\<And>i. i < ?n \<Longrightarrow> TransactionStats_Collect (?s ! i) (?d ! i) = Inr (g i) \<and> records H (g i) (M i + N i)
      \<and> OK (g i) = OK (?d ! i) + OK (?s ! i)" by metis
  have "Stats_Collect src dst = Inr (dst\<lparr>PerTransactionTypeStats := map g [0..<?n] @ drop ?n ?d\<rparr>)"
    using rfold_each [of ?n "\<lambda>i. TransactionStats_Collect (?s ! i)" dst g] g assms by (simp add: Stats_Collect_def all_records_def)
  then show ?thesis using g assms by (auto simp: all_records_def nth_append)
qed

lemma collect_all:
  assumes "all_records H agg M" "\<forall>st \<in> set stats. all_records H st (L st)"
  shows "\<exists>d. rfold Stats_Collect stats agg = Inr d \<and> all_records H d (\<lambda>i. M i + (\<Sum>st \<leftarrow> stats. L st i))
    \<and> (\<forall>i < TRANSACTION_TYPE_COUNT. OK (PerTransactionTypeStats d ! i) = OK (PerTransactionTypeStats agg ! i) + (\<Sum>st \<leftarrow> stats. OK (PerTransactionTypeStats st ! i)))"
  using assms
proof (induction stats arbitrary: agg M)
  case (Cons st stats)
  obtain d where d: "Stats_Collect st agg = Inr d" "all_records H d (\<lambda>i. M i + L st i)"
    "\<forall>i < TRANSACTION_TYPE_COUNT. OK (PerTransactionTypeStats d ! i) = OK (PerTransactionTypeStats agg ! i) + OK (PerTransactionTypeStats st ! i)"
    using Stats_Collect_records [of H st "L st" agg M] Cons.prems by auto
  from Cons.IH [OF d(2)] Cons.prems(2) d(1,3) show ?case by (auto simp: add.assoc)
qed simp

lemma new_stats_records:
  "\<exists>agg. new_TTerminalStats hr = Some (Inr agg) \<and> all_records (if hr then HighResolution else DefaultResolution) agg (\<lambda>_. {#})
    \<and> (\<forall>i < TRANSACTION_TYPE_COUNT. OK (PerTransactionTypeStats agg ! i) = 0)"
proof -
  let ?H = "if hr then HighResolution else DefaultResolution"
  have "0 < ?H" "?H \<le> MaxResolution" "unat MaxResolution < 2 ^ 63"
    by (auto simp: HighResolution_def DefaultResolution_def MaxResolution_def)
  then obtain h where "new_THistogram ?H MaxResolution = Some (Inr h)" "represents h {#}" "HdrTill h = ?H" "MaxValue h = MaxResolution"
    using new_THistogram_represents by blast
  then show ?thesis by (auto simp: new_TTerminalStats_def new_TTransactionStats_def all_records_def records_def)
qed

lemma result_lines_total: "\<exists>ls. result_lines ss = Inr ls"
  by (induction ss) (auto simp: result_line_def GetValueAtPercentile_def split: option.splits)

text \<open>
  (C31) The final report is computed from all threads' statistics: merging them never fails, the tpmC counts the NewOrders of all
  threads, and each line's percentiles are those of a histogram of all latencies recorded by any thread.
\<close>

theorem results_merge_threads:
  assumes "\<forall>st \<in> set stats. all_records (if hr then HighResolution else DefaultResolution) st (L st)"
  shows "\<exists>agg ls. aggregate hr stats = Some (Inr agg)
    \<and> (\<forall>i < TRANSACTION_TYPE_COUNT. records (if hr then HighResolution else DefaultResolution) (PerTransactionTypeStats agg ! i) (\<Sum>st \<leftarrow> stats. L st i))
    \<and> result_lines (PerTransactionTypeStats agg) = Inr ls
    \<and> PrintFinalResults hr w stats duration = Some (Inr (let t = tpmc_of (\<Sum>st \<leftarrow> stats. OK (PerTransactionTypeStats st ! tx_index NewOrder)) duration in
        \<lparr>tpmc = t, efficiency = efficiency_of w t, totalFailed = total_of Failed stats, result_table = ls\<rparr>))"
proof -
  obtain agg0 where a: "new_TTerminalStats hr = Some (Inr agg0)" "all_records (if hr then HighResolution else DefaultResolution) agg0 (\<lambda>_. {#})"
    "\<forall>i < TRANSACTION_TYPE_COUNT. OK (PerTransactionTypeStats agg0 ! i) = 0"
    using new_stats_records by blast
  obtain agg where g: "rfold Stats_Collect stats agg0 = Inr agg" "all_records (if hr then HighResolution else DefaultResolution) agg (\<lambda>i. {#} + (\<Sum>st \<leftarrow> stats. L st i))"
    "\<forall>i < TRANSACTION_TYPE_COUNT. OK (PerTransactionTypeStats agg ! i) = OK (PerTransactionTypeStats agg0 ! i) + (\<Sum>st \<leftarrow> stats. OK (PerTransactionTypeStats st ! i))"
    using collect_all [OF a(2) assms] by blast
  obtain ls where ls: "result_lines (PerTransactionTypeStats agg) = Inr ls" using result_lines_total by blast
  have ok: "OK (PerTransactionTypeStats agg ! 0) = (\<Sum>st \<leftarrow> stats. OK (PerTransactionTypeStats st ! 0))"
    using g(3) a(3) tx_index_bound [of NewOrder] by simp
  show ?thesis using a(1) g(1,2) ls ok by (auto simp: aggregate_def PrintFinalResults_def all_records_def Let_def)
qed

theorem results_merge_threads_witness:
  "\<exists>st r. new_TTerminalStats False = Some (Inr st) \<and> PrintFinalResults False 1 [st, st] 60 = Some (Inr r) \<and> tpmc r = tpmc_of 0 60"
proof -
  obtain st where st: "new_TTerminalStats False = Some (Inr st)" "all_records DefaultResolution st (\<lambda>_. {#})"
    "\<forall>i < TRANSACTION_TYPE_COUNT. OK (PerTransactionTypeStats st ! i) = 0"
    using new_stats_records [of False] by auto
  then have "OK (PerTransactionTypeStats st ! 0) = 0" using tx_index_bound [of NewOrder] by simp
  then show ?thesis
    using results_merge_threads [of "[st, st]" False "\<lambda>_ _. {#}" 1 60] st(1,2) by (auto simp: Let_def)
qed

end
