(* ===== verification/LogCapture.thy ===== *)
theory LogCapture
  imports Prelude
begin

text \<open>
  \<open>TLogCapture\<close> (\<open>src/src/log_backend.cpp\<close>), the ring of the most recent log lines the terminal UI shows. Its
  mutex is held during each operation, so the operations are single steps.
\<close>

section \<open>The code\<close>

record TLogCapture =
  Lines :: "string list"
  MaxLines :: u64
  WritePos :: u64
  Wrapped :: bool

definition new_TLogCapture :: "u64 \<Rightarrow> TLogCapture" where
  "new_TLogCapture maxLines = \<lparr>Lines = replicate (unat maxLines) [], MaxLines = maxLines, WritePos = 0, Wrapped = False\<rparr>"

definition AddLine :: "string \<Rightarrow> TLogCapture \<Rightarrow> TLogCapture result" where
  "AddLine line c = (if length (Lines c) \<le> unat (WritePos c) then Inl (UB ''Lines_[WritePos_]'')
     else if MaxLines c = 0 then Inl (UB ''% MaxLines_'')
     else let pos = (WritePos c + 1) mod MaxLines c in
       Inr (c\<lparr>Lines := (Lines c)[unat (WritePos c) := line], WritePos := pos, Wrapped := (Wrapped c \<or> pos = 0)\<rparr>))"

text \<open>The loop over the positions from \<open>i\<close> to \<open>j\<close>, which pushes the lines that are not empty.\<close>

definition push_lines :: "u64 \<Rightarrow> u64 \<Rightarrow> TLogCapture \<Rightarrow> string list result" where
  "push_lines i j c = (if i < j \<and> length (Lines c) < unat j then Inl (UB ''Lines_[i]'')
     else Inr (filter (\<lambda>line. line \<noteq> []) (map (\<lambda>k. Lines c ! k) [unat i..<unat j])))"

definition GetLines :: "TLogCapture \<Rightarrow> string list result" where
  "GetLines c = (if Wrapped c
     then rbind (push_lines (WritePos c) (MaxLines c) c) (\<lambda>older. rbind (push_lines 0 (WritePos c) c) (\<lambda>newer. Inr (older @ newer)))
     else push_lines 0 (WritePos c) c)"

definition Capture_Clear :: "TLogCapture \<Rightarrow> TLogCapture" where
  "Capture_Clear c = c\<lparr>Lines := map (\<lambda>_. []) (Lines c), WritePos := 0, Wrapped := False\<rparr>"

section \<open>The ring holds the most recent lines\<close>

definition recent :: "nat \<Rightarrow> 'a list \<Rightarrow> 'a list" where
  "recent n xs = drop (length xs - n) xs"

lemma recent_snoc: "0 < n \<Longrightarrow> recent n (xs @ [x]) = (if length xs < n then recent n xs @ [x] else tl (recent n xs) @ [x])"
  by (auto simp: recent_def Suc_diff_le drop_Suc tl_drop)

text \<open>
  Read from the writing position around, the vector holds empty strings for the positions not yet written and then
  the most recent lines.
\<close>

definition ring :: "TLogCapture \<Rightarrow> string list \<Rightarrow> bool" where
  "ring c ls \<longleftrightarrow> (let n = unat (MaxLines c) in 0 < n \<and> length (Lines c) = n \<and> unat (WritePos c) = length ls mod n
     \<and> (Wrapped c \<longleftrightarrow> n \<le> length ls)
     \<and> rotate (unat (WritePos c)) (Lines c) = replicate (n - length ls) [] @ recent n ls)"

lemma ring_new: "0 < n \<Longrightarrow> ring (new_TLogCapture n) []"
  by (simp add: ring_def new_TLogCapture_def recent_def word_gt_0_no unat_gt_0 word_neq_0_conv)

lemma ring_Clear: "ring c ls \<Longrightarrow> ring (Capture_Clear c) []"
  by (simp add: ring_def Capture_Clear_def recent_def Let_def map_replicate_const)

lemma rotate_write: "i < length xs \<Longrightarrow> rotate (Suc i) (xs[i := x]) = tl (rotate i xs) @ [x]"
proof -
  assume i: "i < length xs"
  have "rotate i (xs[i := x]) = x # tl (rotate i xs)"
    using i by (simp add: rotate_drop_take drop_update_swap flip: Cons_nth_drop_Suc)
  then show ?thesis by simp
qed

lemma ring_AddLine:
  assumes "ring c ls"
  shows "\<exists>c'. AddLine line c = Inr c' \<and> ring c' (ls @ [line])"
proof -
  let ?n = "unat (MaxLines c)" and ?w = "unat (WritePos c)"
  have r: "0 < ?n" "length (Lines c) = ?n" "?w = length ls mod ?n" "Wrapped c \<longleftrightarrow> ?n \<le> length ls"
    "rotate ?w (Lines c) = replicate (?n - length ls) [] @ recent ?n ls"
    using assms unfolding ring_def Let_def by blast+
  have w: "?w < ?n" using r(1,3) by simp
  have p: "unat ((WritePos c + 1) mod MaxLines c) = Suc (length ls) mod ?n"
  proof -
    have "unat (WritePos c + 1) = Suc ?w" using w unat_Suc_u64 [of "WritePos c" "MaxLines c"] by (simp add: word_less_nat_alt)
    then show ?thesis using r(3) by (simp add: unat_mod mod_Suc_eq)
  qed
  have wr: "(Wrapped c \<or> (WritePos c + 1) mod MaxLines c = 0) \<longleftrightarrow> ?n \<le> Suc (length ls)"
  proof (cases "length ls < ?n")
    case True
    then have "Suc (length ls) mod ?n = 0 \<longleftrightarrow> ?n \<le> Suc (length ls)" by (cases "Suc (length ls) = ?n") auto
    then show ?thesis using True p r(4) unat_eq_0 [of "(WritePos c + 1) mod MaxLines c"] by simp
  qed (use r(4) in auto)
  have "rotate (Suc ?w mod ?n) ((Lines c)[?w := line]) = tl (rotate ?w (Lines c)) @ [line]"
    using rotate_write [of ?w "Lines c" line] w r(2) by (metis length_list_update rotate_conv_mod)
  moreover have "Suc ?w mod ?n = Suc (length ls) mod ?n" using r(3) by (simp add: mod_Suc_eq)
  moreover have "tl (rotate ?w (Lines c)) @ [line] = replicate (?n - Suc (length ls)) [] @ recent ?n (ls @ [line])"
    using r(1,5) by (cases "?n - length ls") (auto simp: recent_snoc)
  ultimately show ?thesis
    using r(1,2) w p wr by (auto simp: AddLine_def ring_def Let_def)
qed

lemma ring_GetLines:
  assumes "ring c ls"
  shows "GetLines c = Inr (filter (\<lambda>line. line \<noteq> []) (recent (unat (MaxLines c)) ls))"
proof -
  let ?n = "unat (MaxLines c)" and ?w = "unat (WritePos c)"
  have r: "0 < ?n" "length (Lines c) = ?n" "?w = length ls mod ?n" "Wrapped c \<longleftrightarrow> ?n \<le> length ls"
    "rotate ?w (Lines c) = replicate (?n - length ls) [] @ recent ?n ls"
    using assms unfolding ring_def Let_def by blast+
  have w: "?w < ?n" using r(1,3) by simp
  have l: "push_lines i j c = Inr (filter (\<lambda>line. line \<noteq> []) (drop (unat i) (take (unat j) (Lines c))))" if "unat j \<le> ?n" for i j
  proof -
    have "map (\<lambda>k. Lines c ! k) [unat i..<unat j] = drop (unat i) (take (unat j) (Lines c))"
      using that r(2) by (intro nth_equalityI) auto
    then show ?thesis using that r(2) by (simp add: push_lines_def)
  qed
  have rt: "drop ?w (Lines c) @ take ?w (Lines c) = replicate (?n - length ls) [] @ recent ?n ls"
    using r(5) rotate_drop_take [of ?w "Lines c"] w r(2) by simp
  show ?thesis
  proof (cases "?n \<le> length ls")
    case True
    then show ?thesis using l r(2,4) w rt by (simp add: GetLines_def flip: filter_append)
  next
    case False
    then have "take ?w (Lines c) = recent ?n ls" using rt w r(2,3)
      by (metis append_eq_append_conv length_drop length_replicate linorder_not_le mod_less)
    then show ?thesis using False l [of "WritePos c" 0] r(4) w by (simp add: GetLines_def)
  qed
qed

end
