(* ===== verification/SpscQueue.thy ===== *)
theory SpscQueue
  imports Prelude
begin

text \<open>
  \<open>TSpscCircularQueue\<close> (\<open>src/src/spsc_circular_queue.h\<close>): the single-producer
  single-consumer ring buffer between the task-queue threads. The record holds the two
  shared 64-bit counters, the two thread-private cached counters and the vector. The
  sequential operations are the member functions; \<open>spsc_step\<close> splits them at their
  atomic accesses and interleaves a producer with a consumer, where an acquire load of
  the peer's counter may return any value published since the last load (a stale read).
  The counters are 64-bit and wrap around; the ghost lists \<open>pushed\<close> and \<open>popped\<close>
  are unbounded.
\<close>

section \<open>State and operations\<close>

record 'a TSpscCircularQueue =
  Queue :: "'a list"
  Capacity :: u64
  CapacityMask :: u64
  Head :: u64
  CachedTail :: u64
  Tail :: u64
  CachedHead :: u64

text \<open>\<open>std::bit_ceil\<close>: the least power of two not below the argument (at most \<open>2\<^sup>6\<^sup>3\<close>).\<close>

definition bit_ceil :: "u64 \<Rightarrow> u64" where
  "bit_ceil n = 2 ^ length (takeWhile (\<lambda>k. 2 ^ k < unat n) [0..<63])"

definition new_TSpscCircularQueue :: "'a TSpscCircularQueue" where
  "new_TSpscCircularQueue = \<lparr>Queue = [], Capacity = 0, CapacityMask = 0, Head = 0,
     CachedTail = 0, Tail = 0, CachedHead = 0\<rparr>"

definition Resize :: "'a \<Rightarrow> u64 \<Rightarrow> 'a TSpscCircularQueue \<Rightarrow> 'a TSpscCircularQueue result" where
  "Resize d capacity q = (if 2 ^ 63 < unat capacity then Inl (UB ''bit_ceil'') else
     let cap = (if capacity = 0 then 0 else bit_ceil capacity) in
     Inr (q\<lparr>Capacity := cap,
            CapacityMask := (if cap = 0 then 0 else cap - 1),
            Queue := vec_resize d (unat cap) (Queue q),
            Head := 0, Tail := 0, CachedTail := 0, CachedHead := 0\<rparr>))"

text \<open>The two plain accesses to the vector; an index beyond its end is undefined.\<close>

definition write_slot :: "u64 \<Rightarrow> 'a \<Rightarrow> 'a TSpscCircularQueue \<Rightarrow> 'a TSpscCircularQueue result" where
  "write_slot head item q = (let i = unat (head AND CapacityMask q) in
     if i < length (Queue q) then Inr (q\<lparr>Queue := (Queue q)[i := item]\<rparr>)
     else Inl (UB ''Queue[head & CapacityMask]''))"

definition read_slot :: "u64 \<Rightarrow> 'a TSpscCircularQueue \<Rightarrow> 'a result" where
  "read_slot tail q = (let i = unat (tail AND CapacityMask q) in
     if i < length (Queue q) then Inr (Queue q ! i)
     else Inl (UB ''Queue[tail & CapacityMask]''))"

definition TryPush :: "'a \<Rightarrow> 'a TSpscCircularQueue \<Rightarrow> (bool \<times> 'a TSpscCircularQueue) result" where
  "TryPush item q = (let head = Head q;
     q1 = (if head - CachedTail q = Capacity q then q\<lparr>CachedTail := Tail q\<rparr> else q) in
     if head - CachedTail q1 = Capacity q1 then Inr (False, q1)
     else rbind (write_slot head item q1) (\<lambda>q2. Inr (True, q2\<lparr>Head := head + 1\<rparr>)))"

text \<open>
  \<open>TryPop(T& item)\<close>: \<open>Some x\<close> for \<open>true\<close> with \<open>item = x\<close>. The element types
  (coroutine handles and pairs of them) are trivially copyable, so moving out of a slot
  leaves it unchanged.
\<close>

definition TryPop :: "'a TSpscCircularQueue \<Rightarrow> ('a option \<times> 'a TSpscCircularQueue) result" where
  "TryPop q = (if Capacity q = 0 then Inr (None, q) else
     let tail = Tail q;
         q1 = (if tail = CachedHead q then q\<lparr>CachedHead := Head q\<rparr> else q) in
     if tail = CachedHead q1 then Inr (None, q1)
     else rbind (read_slot tail q1) (\<lambda>x. Inr (Some x, q1\<lparr>Tail := tail + 1\<rparr>)))"

definition Size :: "'a TSpscCircularQueue \<Rightarrow> u64" where
  "Size q = Head q - Tail q"

definition Empty :: "'a TSpscCircularQueue \<Rightarrow> bool" where
  "Empty q \<longleftrightarrow> Size q = 0"

definition IsFull :: "'a TSpscCircularQueue \<Rightarrow> bool" where
  "IsFull q \<longleftrightarrow> Capacity q \<noteq> 0 \<and> Size q = Capacity q"

section \<open>Word facts\<close>

lemma bit_ceil_power:
  assumes "unat n \<le> 2 ^ 63"
  shows "\<exists>k \<le> 63. bit_ceil n = 2 ^ k \<and> unat n \<le> 2 ^ k \<and> (\<forall>j < k. 2 ^ j < unat n)"
proof -
  let ?P = "\<lambda>k. 2 ^ k < unat n" and ?l = "[0..<63] :: nat list"
  let ?k = "length (takeWhile ?P ?l)"
  have k: "?k \<le> 63" using length_takeWhile_le [of ?P ?l] by simp
  have less: "2 ^ j < unat n" if "j < ?k" for j
    using nth_mem [OF that] takeWhile_nth [OF that] k that
    by (auto dest: set_takeWhileD)
  have "unat n \<le> 2 ^ ?k"
  proof (cases "?k < 63")
    case True
    then show ?thesis using nth_length_takeWhile [of ?P ?l] by simp
  next
    case False
    with k have "?k = 63" by simp
    then show ?thesis using assms by simp
  qed
  with k less show ?thesis by (auto simp: bit_ceil_def)
qed

lemma and_mask_word_of_nat:
  assumes "k < 64"
  shows "unat (word_of_nat a AND (2 ^ k - 1) :: u64) = a mod 2 ^ k"
proof -
  have "(2 ^ k - 1 :: u64) = mask k" by (simp add: mask_eq_exp_minus_1)
  then have "unat (word_of_nat a AND (2 ^ k - 1) :: u64) = take_bit k (unat (word_of_nat a :: u64))"
    by (simp add: take_bit_eq_mask [symmetric] unsigned_take_bit_eq)
  also have "\<dots> = a mod 2 ^ 64 mod 2 ^ k" by (simp add: unat_of_nat take_bit_eq_mod)
  also have "\<dots> = a mod 2 ^ k" using assms by (intro mod_mod_cancel le_imp_power_dvd) simp
  finally show ?thesis .
qed

lemma diff_word_of_nat:
  "b \<le> a \<Longrightarrow> word_of_nat a - word_of_nat b = (word_of_nat (a - b) :: u64)"
  by simp

lemma word_of_nat_eq_small:
  "a < 2 ^ 64 \<Longrightarrow> b < 2 ^ 64 \<Longrightarrow> (word_of_nat a :: u64) = word_of_nat b \<longleftrightarrow> a = b"
  by (auto dest: arg_cong [where f = unat] simp: unat_of_nat)

section \<open>Invariant\<close>

text \<open>
  The counters count all pushes and pops modulo \<open>2\<^sup>6\<^sup>4\<close>; \<open>nct\<close> and \<open>nch\<close> are the
  unwrapped values of the cached counters.
\<close>

definition spsc_inv ::
  "nat \<Rightarrow> 'a TSpscCircularQueue \<Rightarrow> 'a list \<Rightarrow> 'a list \<Rightarrow> nat \<Rightarrow> nat \<Rightarrow> bool" where
  "spsc_inv k q pushed popped nct nch \<longleftrightarrow>
     k \<le> 63 \<and> Capacity q = 2 ^ k \<and> CapacityMask q = 2 ^ k - 1 \<and> length (Queue q) = 2 ^ k \<and>
     Head q = word_of_nat (length pushed) \<and> Tail q = word_of_nat (length popped) \<and>
     CachedTail q = word_of_nat nct \<and> CachedHead q = word_of_nat nch \<and>
     nct \<le> length popped \<and> length popped \<le> nch \<and> nch \<le> length pushed \<and>
     length pushed \<le> nct + 2 ^ k \<and>
     popped = take (length popped) pushed \<and>
     (\<forall>i. length popped \<le> i \<and> i < length pushed \<longrightarrow> Queue q ! (i mod 2 ^ k) = pushed ! i)"

lemma pow2_lt_u64: "k \<le> 63 \<Longrightarrow> (2 :: nat) ^ k < 2 ^ 64"
  by (intro power_strict_increasing) auto

text \<open>The producer's fullness test and the consumer's emptiness test, without wrap-around.\<close>

lemma full_test:
  assumes "spsc_inv k q pushed popped nct nch" "nct \<le> t" "t \<le> length pushed"
  shows "Head q - word_of_nat t = Capacity q \<longleftrightarrow> length pushed = t + 2 ^ k"
proof -
  have k: "k \<le> 63" "length pushed - t \<le> 2 ^ k" using assms by (auto simp: spsc_inv_def)
  have "Head q - word_of_nat t = Capacity q
     \<longleftrightarrow> (word_of_nat (length pushed - t) :: u64) = word_of_nat (2 ^ k)"
    using assms by (simp add: spsc_inv_def)
  also have "\<dots> \<longleftrightarrow> length pushed - t = 2 ^ k"
    using k pow2_lt_u64 [of k] by (intro word_of_nat_eq_small) auto
  finally show ?thesis using assms(3) by auto
qed

lemma empty_test:
  assumes "spsc_inv k q pushed popped nct nch" "length popped \<le> h" "h \<le> length pushed"
  shows "Tail q = word_of_nat h \<longleftrightarrow> h = length popped"
proof -
  have k: "k \<le> 63" "h - length popped \<le> 2 ^ k" using assms by (auto simp: spsc_inv_def)
  have "Tail q = word_of_nat h \<longleftrightarrow> word_of_nat h - word_of_nat (length popped) = (0 :: u64)"
    using assms by (auto simp: spsc_inv_def)
  also have "\<dots> \<longleftrightarrow> (word_of_nat (h - length popped) :: u64) = word_of_nat 0"
    using assms(2) by simp
  also have "\<dots> \<longleftrightarrow> h - length popped = 0"
    using k pow2_lt_u64 [of k] by (intro word_of_nat_eq_small) auto
  finally show ?thesis using assms(2) by auto
qed

lemma slot_index:
  assumes "spsc_inv k q pushed popped nct nch"
  shows "unat (word_of_nat a AND CapacityMask q) = a mod 2 ^ k" "a mod 2 ^ k < length (Queue q)"
  using assms and_mask_word_of_nat [of k a] by (auto simp: spsc_inv_def)

lemma spsc_inv_refresh_tail:
  "spsc_inv k q pushed popped nct nch \<Longrightarrow> nct \<le> t \<Longrightarrow> t \<le> length popped \<Longrightarrow>
   spsc_inv k (q\<lparr>CachedTail := word_of_nat t\<rparr>) pushed popped t nch"
  by (auto simp: spsc_inv_def)

lemma spsc_inv_refresh_head:
  "spsc_inv k q pushed popped nct nch \<Longrightarrow> nch \<le> h \<Longrightarrow> h \<le> length pushed \<Longrightarrow>
   spsc_inv k (q\<lparr>CachedHead := word_of_nat h\<rparr>) pushed popped nct h"
  by (auto simp: spsc_inv_def)

lemma spsc_inv_write:
  fixes x :: 'a
  assumes inv: "spsc_inv k q pushed popped nct nch" and room: "length pushed < nct + 2 ^ k"
  defines "q' \<equiv> q\<lparr>Queue := (Queue q)[length pushed mod 2 ^ k := x]\<rparr>"
  shows "write_slot (Head q) x q = Inr q'" "spsc_inv k q' pushed popped nct nch"
    "Queue q' ! (length pushed mod 2 ^ k) = x"
proof -
  note ix = slot_index [OF inv, of "length pushed"]
  show "write_slot (Head q) x q = Inr q'"
    using ix inv by (simp add: write_slot_def q'_def spsc_inv_def)
  have "(Queue q)[length pushed mod 2 ^ k := x] ! (i mod 2 ^ k) = pushed ! i"
    if "length popped \<le> i" "i < length pushed" for i
    using that inv room mod_window_inj [of i "length pushed" "2 ^ k"]
    by (auto simp: spsc_inv_def nth_list_update)
  then show "spsc_inv k q' pushed popped nct nch" using inv by (auto simp: q'_def spsc_inv_def)
  show "Queue q' ! (length pushed mod 2 ^ k) = x" using ix by (simp add: q'_def)
qed

lemma spsc_inv_publish:
  assumes "spsc_inv k q pushed popped nct nch" "length pushed < nct + 2 ^ k"
    and "Queue q ! (length pushed mod 2 ^ k) = x"
  shows "spsc_inv k (q\<lparr>Head := Head q + 1\<rparr>) (pushed @ [x]) popped nct nch"
  using assms by (auto simp: spsc_inv_def nth_append less_Suc_eq)

lemma spsc_inv_read:
  assumes "spsc_inv k q pushed popped nct nch" "length popped < nch"
  shows "read_slot (Tail q) q = Inr (pushed ! length popped)"
  using assms slot_index [OF assms(1), of "length popped"]
  by (auto simp: read_slot_def spsc_inv_def)

lemma spsc_inv_consume:
  assumes "spsc_inv k q pushed popped nct nch" "length popped < nch"
  shows "spsc_inv k (q\<lparr>Tail := Tail q + 1\<rparr>) pushed (popped @ [pushed ! length popped]) nct nch"
  using assms by (auto simp: spsc_inv_def take_Suc_conv_app_nth)

lemma Resize_spsc_inv:
  assumes "0 < unat c" "unat c \<le> 2 ^ 63"
  shows "\<exists>k q'. Resize d c q = Inr q' \<and> spsc_inv k q' [] [] 0 0 \<and> Capacity q' = bit_ceil c
     \<and> unat c \<le> 2 ^ k"
proof -
  from bit_ceil_power [OF assms(2)] obtain k where
    k: "k \<le> 63" "bit_ceil c = 2 ^ k" "unat c \<le> 2 ^ k" by auto
  then show ?thesis
    using assms unat_pow2_u64 [of k]
    by (auto simp: Resize_def Let_def spsc_inv_def vec_resize_def unat_eq_0 [symmetric])
qed

section \<open>The bounded FIFO contract\<close>

text \<open>The specification: a list of at most \<open>cap\<close> elements, pushed at its end, popped at its head.\<close>

datatype 'a fifo_op = PushOp 'a | PopOp

datatype 'a fifo_out = Pushed bool | Popped "'a option"

fun fifo_run :: "nat \<Rightarrow> 'a fifo_op list \<Rightarrow> 'a list \<Rightarrow> 'a fifo_out list \<times> 'a list" where
  "fifo_run cap [] xs = ([], xs)"
| "fifo_run cap (PushOp x # ops) xs = (let ok = length xs < cap;
     (os, ys) = fifo_run cap ops (if ok then xs @ [x] else xs) in (Pushed ok # os, ys))"
| "fifo_run cap (PopOp # ops) xs = (let (os, ys) = fifo_run cap ops (tl xs) in
     (Popped (if xs = [] then None else Some (hd xs)) # os, ys))"

locale bounded_fifo =
  fixes holds :: "'q \<Rightarrow> 'a list \<Rightarrow> bool"
    and cap :: "'q \<Rightarrow> nat"
    and push :: "'a \<Rightarrow> 'q \<Rightarrow> (bool \<times> 'q) result"
    and pop :: "'q \<Rightarrow> ('a option \<times> 'q) result"
  assumes holds_bound: "holds q xs \<Longrightarrow> length xs \<le> cap q"
    and push_law: "holds q xs \<Longrightarrow> \<exists>q'. push x q = Inr (length xs < cap q, q') \<and> cap q' = cap q
      \<and> holds q' (if length xs < cap q then xs @ [x] else xs)"
    and pop_law: "holds q xs \<Longrightarrow> \<exists>q'. pop q = Inr (if xs = [] then None else Some (hd xs), q')
      \<and> cap q' = cap q \<and> holds q' (tl xs)"
begin

text \<open>Any sequence of operations behaves like the bounded list.\<close>

fun run :: "'a fifo_op list \<Rightarrow> 'q \<Rightarrow> ('a fifo_out list \<times> 'q) result" where
  "run [] q = Inr ([], q)"
| "run (PushOp x # ops) q = rbind (push x q) (\<lambda>(b, q').
     rbind (run ops q') (\<lambda>(os, q''). Inr (Pushed b # os, q'')))"
| "run (PopOp # ops) q = rbind (pop q) (\<lambda>(x, q').
     rbind (run ops q') (\<lambda>(os, q''). Inr (Popped x # os, q'')))"

lemma run_refines:
  assumes "holds q xs"
  shows "\<exists>q'. run ops q = Inr (fst (fifo_run (cap q) ops xs), q')
     \<and> holds q' (snd (fifo_run (cap q) ops xs)) \<and> cap q' = cap q"
  using assms
proof (induction ops arbitrary: q xs)
  case (Cons op ops)
  show ?case
  proof (cases op)
    case (PushOp x)
    from push_law [OF Cons.prems, of x] obtain q1 where
      q1: "push x q = Inr (length xs < cap q, q1)" "cap q1 = cap q"
        "holds q1 (if length xs < cap q then xs @ [x] else xs)" by blast
    from Cons.IH [OF q1(3)] q1 PushOp show ?thesis by (auto simp: Let_def split: prod.splits)
  next
    case PopOp
    from pop_law [OF Cons.prems] obtain q1 where
      q1: "pop q = Inr (if xs = [] then None else Some (hd xs), q1)" "cap q1 = cap q"
        "holds q1 (tl xs)" by blast
    from Cons.IH [OF q1(3)] q1 PopOp show ?thesis by (auto simp: Let_def split: prod.splits)
  qed
qed simp

end

definition spsc_holds :: "'a TSpscCircularQueue \<Rightarrow> 'a list \<Rightarrow> bool" where
  "spsc_holds q xs \<longleftrightarrow> (\<exists>k pushed popped nct nch. spsc_inv k q pushed popped nct nch
     \<and> xs = drop (length popped) pushed)"

lemma TryPush_full:
  assumes inv: "spsc_inv k q pushed popped nct nch"
    and full: "length pushed = length popped + 2 ^ k"
  shows "\<exists>q'. TryPush x q = Inr (False, q') \<and> Capacity q' = Capacity q
     \<and> spsc_inv k q' pushed popped (length popped) nch"
proof -
  have nct: "nct = length popped" using inv full by (auto simp: spsc_inv_def)
  then have "Head q - CachedTail q = Capacity q"
    using full_test [OF inv, of nct] inv full by (simp add: spsc_inv_def)
  moreover have "Tail q = CachedTail q" using inv nct by (simp add: spsc_inv_def)
  ultimately show ?thesis using inv nct by (auto simp: TryPush_def Let_def)
qed

lemma TryPush_room:
  assumes inv: "spsc_inv k q pushed popped nct nch"
    and room: "length pushed < length popped + 2 ^ k"
  shows "\<exists>q' nct'. TryPush x q = Inr (True, q') \<and> Capacity q' = Capacity q
     \<and> spsc_inv k q' (pushed @ [x]) popped nct' nch"
proof -
  define t where "t = (if Head q - CachedTail q = Capacity q then length popped else nct)"
  define q1 where "q1 = (if Head q - CachedTail q = Capacity q then q\<lparr>CachedTail := Tail q\<rparr> else q)"
  have le: "nct \<le> length popped" "length popped \<le> length pushed"
    and ct: "CachedTail q = word_of_nat nct" and tl: "Tail q = word_of_nat (length popped)"
    using inv by (auto simp: spsc_inv_def)
  have inv1: "spsc_inv k q1 pushed popped t nch"
    using inv le tl spsc_inv_refresh_tail [OF inv, of "length popped"] by (simp add: q1_def t_def)
  have room1: "length pushed < t + 2 ^ k"
    using full_test [OF inv, of nct] le ct room inv by (auto simp: t_def spsc_inv_def)
  have "CachedTail q1 = word_of_nat t" using inv1 by (simp add: spsc_inv_def)
  moreover have "t \<le> length pushed" using le by (simp add: t_def)
  ultimately have nf: "Head q1 - CachedTail q1 \<noteq> Capacity q1"
    using full_test [OF inv1, of t] room1 by auto
  have hd: "Head q1 = Head q" "Capacity q1 = Capacity q" by (simp_all add: q1_def)
  note w = spsc_inv_write [OF inv1 room1, of x]
  have "TryPush x q = rbind (write_slot (Head q1) x q1) (\<lambda>q2. Inr (True, q2\<lparr>Head := Head q1 + 1\<rparr>))"
    using nf hd by (simp add: TryPush_def Let_def q1_def [symmetric])
  then show ?thesis
    using w(1) spsc_inv_publish [OF w(2) room1 w(3)] hd by auto
qed

lemma TryPop_empty:
  assumes inv: "spsc_inv k q pushed popped nct nch" and "length popped = length pushed"
  shows "\<exists>q'. TryPop q = Inr (None, q') \<and> Capacity q' = Capacity q
     \<and> spsc_inv k q' pushed popped nct nch"
proof -
  have "Tail q = CachedHead q" "Head q = CachedHead q"
    using inv assms(2) by (auto simp: spsc_inv_def)
  then show ?thesis using inv by (auto simp: TryPop_def Let_def)
qed

lemma TryPop_nonempty:
  assumes inv: "spsc_inv k q pushed popped nct nch" and ne: "length popped < length pushed"
  shows "\<exists>q' nch'. TryPop q = Inr (Some (pushed ! length popped), q') \<and> Capacity q' = Capacity q
     \<and> spsc_inv k q' pushed (popped @ [pushed ! length popped]) nct nch'"
proof -
  define h where "h = (if Tail q = CachedHead q then length pushed else nch)"
  define q1 where "q1 = (if Tail q = CachedHead q then q\<lparr>CachedHead := Head q\<rparr> else q)"
  have le: "length popped \<le> nch" "nch \<le> length pushed"
    and ch: "CachedHead q = word_of_nat nch" and hd: "Head q = word_of_nat (length pushed)"
    and c0: "Capacity q \<noteq> 0"
    using inv unat_pow2_u64 [of k] by (auto simp: spsc_inv_def)
  have inv1: "spsc_inv k q1 pushed popped nct h"
    using inv le hd spsc_inv_refresh_head [OF inv, of "length pushed"] by (simp add: q1_def h_def)
  have h: "length popped < h" "h \<le> length pushed"
    using empty_test [OF inv le] le ch ne by (auto simp: h_def)
  have "CachedHead q1 = word_of_nat h" using inv1 by (simp add: spsc_inv_def)
  then have nempty: "Tail q1 \<noteq> CachedHead q1" using empty_test [OF inv1, of h] h by auto
  have same: "Tail q1 = Tail q" "Capacity q1 = Capacity q" by (simp_all add: q1_def)
  have "TryPop q = rbind (read_slot (Tail q1) q1) (\<lambda>x. Inr (Some x, q1\<lparr>Tail := Tail q1 + 1\<rparr>))"
    using nempty same c0 by (simp add: TryPop_def Let_def q1_def [symmetric])
  then show ?thesis
    using spsc_inv_read [OF inv1 h(1)] spsc_inv_consume [OF inv1 h(1)] same by auto
qed

interpretation spsc: bounded_fifo spsc_holds "\<lambda>q. unat (Capacity q)" TryPush TryPop
proof unfold_locales
  fix q :: "'a TSpscCircularQueue" and xs x
  assume "spsc_holds q xs"
  then obtain k pushed popped nct nch where
    inv: "spsc_inv k q pushed popped nct nch" and xs: "xs = drop (length popped) pushed"
    by (auto simp: spsc_holds_def)
  then have le: "length popped \<le> length pushed" and cap: "unat (Capacity q) = 2 ^ k"
    and bd: "length pushed \<le> length popped + 2 ^ k"
    using unat_pow2_u64 [of k] by (auto simp: spsc_inv_def)
  show "length xs \<le> unat (Capacity q)" using bd cap xs by simp
  show "\<exists>q'. TryPush x q = Inr (length xs < unat (Capacity q), q') \<and> unat (Capacity q') = unat (Capacity q)
      \<and> spsc_holds q' (if length xs < unat (Capacity q) then xs @ [x] else xs)"
  proof (cases "length pushed = length popped + 2 ^ k")
    case True
    with TryPush_full [OF inv True, of x] xs cap show ?thesis by (fastforce simp: spsc_holds_def)
  next
    case False
    with bd have "length pushed < length popped + 2 ^ k" by simp
    from TryPush_room [OF inv this, of x] this xs cap le show ?thesis
      by (fastforce simp: spsc_holds_def)
  qed
  show "\<exists>q'. TryPop q = Inr (if xs = [] then None else Some (hd xs), q')
      \<and> unat (Capacity q') = unat (Capacity q) \<and> spsc_holds q' (tl xs)"
  proof (cases "length popped = length pushed")
    case True
    with TryPop_empty [OF inv True] xs show ?thesis by (fastforce simp: spsc_holds_def)
  next
    case False
    with le have ne: "length popped < length pushed" by simp
    then have "xs = pushed ! length popped # drop (Suc (length popped)) pushed"
      by (simp add: xs Cons_nth_drop_Suc)
    with TryPop_nonempty [OF inv ne] show ?thesis by (fastforce simp: spsc_holds_def)
  qed
qed

section \<open>Concurrent producer and consumer\<close>

text \<open>
  The program counters: where the producer stands in \<open>TryPush\<close> (before the reload of the
  tail, before the slot write, before the release store of the head) and the consumer in
  \<open>TryPop\<close>. \<open>nct\<close> and \<open>nch\<close> are the unwrapped values last loaded from the peer.
\<close>

datatype 'a ppc = PIdle | PReload 'a u64 | PWrite 'a u64 | PPublish 'a u64

datatype 'a cpc = CIdle | CReload u64 | CRead u64 | CPublish 'a u64

record 'a spsc_state =
  que :: "'a TSpscCircularQueue"
  ppc :: "'a ppc"
  cpc :: "'a cpc"
  pushed :: "'a list"
  popped :: "'a list"
  seen_tail :: nat
  seen_head :: nat

text \<open>
  One atomic action. A reload returns any value of the peer's counter between the last one
  seen and the current one, as C++ allows for an acquire load.
\<close>

inductive spsc_step :: "'a spsc_state \<Rightarrow> 'a spsc_state \<Rightarrow> bool" where
  push_begin: "\<lbrakk> ppc s = PIdle; head = Head (que s) \<rbrakk> \<Longrightarrow>
     spsc_step s (s\<lparr>ppc := (if head - CachedTail (que s) = Capacity (que s)
       then PReload x head else PWrite x head)\<rparr>)"
| push_reload: "\<lbrakk> ppc s = PReload x head; seen_tail s \<le> t; t \<le> length (popped s) \<rbrakk> \<Longrightarrow>
     spsc_step s (s\<lparr>que := (que s)\<lparr>CachedTail := word_of_nat t\<rparr>, seen_tail := t,
       ppc := (if head - word_of_nat t = Capacity (que s) then PIdle else PWrite x head)\<rparr>)"
| push_write: "\<lbrakk> ppc s = PWrite x head; write_slot head x (que s) = Inr q' \<rbrakk> \<Longrightarrow>
     spsc_step s (s\<lparr>que := q', ppc := PPublish x head\<rparr>)"
| push_publish: "ppc s = PPublish x head \<Longrightarrow>
     spsc_step s (s\<lparr>que := (que s)\<lparr>Head := head + 1\<rparr>, pushed := pushed s @ [x], ppc := PIdle\<rparr>)"
| pop_begin: "\<lbrakk> cpc s = CIdle; Capacity (que s) \<noteq> 0; tail = Tail (que s) \<rbrakk> \<Longrightarrow>
     spsc_step s (s\<lparr>cpc := (if tail = CachedHead (que s) then CReload tail else CRead tail)\<rparr>)"
| pop_reload: "\<lbrakk> cpc s = CReload tail; seen_head s \<le> h; h \<le> length (pushed s) \<rbrakk> \<Longrightarrow>
     spsc_step s (s\<lparr>que := (que s)\<lparr>CachedHead := word_of_nat h\<rparr>, seen_head := h,
       cpc := (if tail = word_of_nat h then CIdle else CRead tail)\<rparr>)"
| pop_read: "\<lbrakk> cpc s = CRead tail; read_slot tail (que s) = Inr x \<rbrakk> \<Longrightarrow>
     spsc_step s (s\<lparr>cpc := CPublish x tail\<rparr>)"
| pop_publish: "cpc s = CPublish x tail \<Longrightarrow>
     spsc_step s (s\<lparr>que := (que s)\<lparr>Tail := tail + 1\<rparr>, popped := popped s @ [x], cpc := CIdle\<rparr>)"

definition spsc_init :: "'a TSpscCircularQueue \<Rightarrow> 'a spsc_state" where
  "spsc_init q = \<lparr>que = q, ppc = PIdle, cpc = CIdle, pushed = [], popped = [],
     seen_tail = 0, seen_head = 0\<rparr>"

definition producer_ok :: "nat \<Rightarrow> 'a spsc_state \<Rightarrow> bool" where
  "producer_ok k s = (case ppc s of PIdle \<Rightarrow> True
     | PReload x h \<Rightarrow> h = Head (que s)
     | PWrite x h \<Rightarrow> h = Head (que s) \<and> length (pushed s) < seen_tail s + 2 ^ k
     | PPublish x h \<Rightarrow> h = Head (que s) \<and> length (pushed s) < seen_tail s + 2 ^ k
         \<and> Queue (que s) ! (length (pushed s) mod 2 ^ k) = x)"

definition consumer_ok :: "'a spsc_state \<Rightarrow> bool" where
  "consumer_ok s = (case cpc s of CIdle \<Rightarrow> True
     | CReload t \<Rightarrow> t = Tail (que s)
     | CRead t \<Rightarrow> t = Tail (que s) \<and> length (popped s) < seen_head s
     | CPublish x t \<Rightarrow> t = Tail (que s) \<and> length (popped s) < seen_head s
         \<and> x = pushed s ! length (popped s))"

definition spsc_ok :: "nat \<Rightarrow> 'a spsc_state \<Rightarrow> bool" where
  "spsc_ok k s \<longleftrightarrow> spsc_inv k (que s) (pushed s) (popped s) (seen_tail s) (seen_head s)
     \<and> producer_ok k s \<and> consumer_ok s"

lemma spsc_ok_step:
  assumes "spsc_step s s'" "spsc_ok k s"
  shows "spsc_ok k s'"
  using assms
proof (induction rule: spsc_step.induct)
  case (push_begin s head x)
  let ?inv = "spsc_inv k (que s) (pushed s) (popped s) (seen_tail s) (seen_head s)"
  from push_begin have inv: ?inv by (simp add: spsc_ok_def)
  then have "CachedTail (que s) = word_of_nat (seen_tail s)" "seen_tail s \<le> length (pushed s)"
    "length (pushed s) \<le> seen_tail s + 2 ^ k"
    by (auto simp: spsc_inv_def)
  with full_test [OF inv, of "seen_tail s"] push_begin show ?case
    by (auto simp: spsc_ok_def producer_ok_def consumer_ok_def split: cpc.splits ppc.splits)
next
  case (push_reload s x head t)
  then have inv: "spsc_inv k (que s) (pushed s) (popped s) (seen_tail s) (seen_head s)"
    and h: "head = Head (que s)"
    by (auto simp: spsc_ok_def producer_ok_def)
  then have "length (popped s) \<le> length (pushed s)" "length (pushed s) \<le> seen_tail s + 2 ^ k"
    by (auto simp: spsc_inv_def)
  then have "t \<le> length (pushed s)" "length (pushed s) \<le> t + 2 ^ k" using push_reload by auto
  then show ?case
    using push_reload h full_test [OF inv, of t] spsc_inv_refresh_tail [OF inv, of t]
    by (auto simp: spsc_ok_def producer_ok_def consumer_ok_def split: cpc.splits ppc.splits)
next
  case (push_write s x head q')
  then have inv: "spsc_inv k (que s) (pushed s) (popped s) (seen_tail s) (seen_head s)"
    and h: "head = Head (que s)" "length (pushed s) < seen_tail s + 2 ^ k"
    by (auto simp: spsc_ok_def producer_ok_def)
  note w = spsc_inv_write [OF inv h(2), of x]
  with push_write h have "q' = (que s)\<lparr>Queue := (Queue (que s))[length (pushed s) mod 2 ^ k := x]\<rparr>"
    by simp
  with push_write h w show ?case
    by (auto simp: spsc_ok_def producer_ok_def consumer_ok_def split: cpc.splits ppc.splits)
next
  case (push_publish s x head)
  then show ?case
    using spsc_inv_publish [of k "que s" "pushed s" "popped s" "seen_tail s" "seen_head s" x]
    by (auto simp: spsc_ok_def producer_ok_def consumer_ok_def spsc_inv_def nth_append split: cpc.splits ppc.splits)
next
  case (pop_begin s tail)
  then have inv: "spsc_inv k (que s) (pushed s) (popped s) (seen_tail s) (seen_head s)"
    by (simp add: spsc_ok_def)
  then have "CachedHead (que s) = word_of_nat (seen_head s)" "length (popped s) \<le> seen_head s"
    "seen_head s \<le> length (pushed s)"
    by (auto simp: spsc_inv_def)
  with empty_test [OF inv, of "seen_head s"] pop_begin show ?case
    by (auto simp: spsc_ok_def producer_ok_def consumer_ok_def split: cpc.splits ppc.splits)
next
  case (pop_reload s tail h)
  then have inv: "spsc_inv k (que s) (pushed s) (popped s) (seen_tail s) (seen_head s)"
    and t: "tail = Tail (que s)"
    by (auto simp: spsc_ok_def consumer_ok_def)
  then have "length (popped s) \<le> seen_head s" by (auto simp: spsc_inv_def)
  then show ?case
    using pop_reload t empty_test [OF inv, of h] spsc_inv_refresh_head [OF inv, of h]
    by (auto simp: spsc_ok_def producer_ok_def consumer_ok_def split: cpc.splits ppc.splits)
next
  case (pop_read s tail x)
  then have inv: "spsc_inv k (que s) (pushed s) (popped s) (seen_tail s) (seen_head s)"
    and t: "tail = Tail (que s)" "length (popped s) < seen_head s"
    by (auto simp: spsc_ok_def consumer_ok_def)
  then show ?case
    using pop_read spsc_inv_read [OF inv t(2)]
    by (auto simp: spsc_ok_def producer_ok_def consumer_ok_def split: cpc.splits ppc.splits)
next
  case (pop_publish s x tail)
  then show ?case
    using spsc_inv_consume [of k "que s" "pushed s" "popped s" "seen_tail s" "seen_head s"]
    by (auto simp: spsc_ok_def producer_ok_def consumer_ok_def split: cpc.splits ppc.splits)
qed

lemma spsc_ok_reachable:
  assumes "spsc_step\<^sup>*\<^sup>* s s'" "spsc_ok k s"
  shows "spsc_ok k s'"
  using assms by (induction rule: rtranclp_induct) (auto intro: spsc_ok_step)

lemma Resize_spsc_ok:
  assumes "Resize d c q = Inr q'" "c \<noteq> 0"
  shows "\<exists>k. spsc_ok k (spsc_init q') \<and> Capacity q' = bit_ceil c \<and> unat (Capacity q') = 2 ^ k"
proof -
  have "unat c \<le> 2 ^ 63" using assms by (auto simp: Resize_def split: if_splits)
  moreover have "0 < unat c" using assms(2) by (simp add: unat_gt_0)
  ultimately obtain k where "spsc_inv k q' [] [] 0 0" "Capacity q' = bit_ceil c"
    using Resize_spsc_inv [of c d q] assms by auto
  then show ?thesis
    using unat_pow2_u64 [of k]
    by (intro exI [of _ k])
       (auto simp: spsc_ok_def spsc_init_def producer_ok_def consumer_ok_def spsc_inv_def)
qed

section \<open>Properties\<close>

text \<open>
  Used from one thread at a time the queue is a bounded FIFO: after \<open>Resize(c)\<close> any
  sequence of \<open>TryPush\<close> and \<open>TryPop\<close> gives the results of a list of at most
  \<open>bit_ceil(c)\<close> elements, with no access outside the vector.
\<close>

theorem spsc_refines_fifo:
  assumes "Resize d c q = Inr q'" "c \<noteq> 0"
  shows "\<exists>q''. spsc.run ops q' = Inr (fst (fifo_run (unat (bit_ceil c)) ops []), q'')
     \<and> spsc_holds q'' (snd (fifo_run (unat (bit_ceil c)) ops []))"
proof -
  from Resize_spsc_ok [OF assms] obtain k where
    "spsc_ok k (spsc_init q')" "Capacity q' = bit_ceil c" by blast
  then have "spsc_holds q' []" "Capacity q' = bit_ceil c"
    by (fastforce simp: spsc_ok_def spsc_init_def spsc_holds_def)+
  with spsc.run_refines [of q' "[]" ops] show ?thesis by auto
qed

theorem spsc_refines_fifo_witness:
  "\<exists>q' q''. Resize 0 1 new_TSpscCircularQueue = Inr q'
     \<and> spsc.run [PushOp 5, PushOp 6, PopOp, PopOp] q'
       = Inr ([Pushed True, Pushed False, Popped (Some (5 :: nat)), Popped None], q'')"
proof -
  obtain q' :: "nat TSpscCircularQueue" where r: "Resize 0 1 new_TSpscCircularQueue = Inr q'"
    by (simp add: Resize_def Let_def)
  let ?ops = "[PushOp 5, PushOp 6, PopOp, PopOp] :: nat fifo_op list"
  have "unat (bit_ceil 1) = 1" by code_simp
  then have "fst (fifo_run (unat (bit_ceil 1)) ?ops [])
     = [Pushed True, Pushed False, Popped (Some 5), Popped None]" by simp
  with spsc_refines_fifo [OF r, of ?ops] r show ?thesis by (metis one_neq_zero)
qed

text \<open>
  (C7) With one producer and one consumer running concurrently, in every interleaving of
  their atomic actions and with stale loads of the peer's counter, what was popped is a
  prefix of what was pushed (nothing lost, duplicated, reordered or torn), at most
  \<open>bit_ceil(c)\<close> elements are in flight, and \<open>Size\<close> reports their number, for runs of
  any length although the counters wrap at \<open>2\<^sup>6\<^sup>4\<close>.
\<close>

theorem spsc_concurrent_fifo:
  assumes "Resize d c q = Inr q'" "c \<noteq> 0" "spsc_step\<^sup>*\<^sup>* (spsc_init q') s"
  shows "\<exists>inflight. pushed s = popped s @ inflight \<and> length inflight \<le> unat (bit_ceil c)
     \<and> Size (que s) = vsize inflight"
proof -
  from Resize_spsc_ok [OF assms(1,2)] obtain k where
    k: "spsc_ok k (spsc_init q')" "Capacity q' = bit_ceil c" "unat (Capacity q') = 2 ^ k" by blast
  have inv: "spsc_inv k (que s) (pushed s) (popped s) (seen_tail s) (seen_head s)"
    using spsc_ok_reachable [OF assms(3) k(1)] by (simp add: spsc_ok_def)
  let ?n = "length (popped s)"
  have le: "?n \<le> length (pushed s)" and bd: "length (pushed s) \<le> ?n + 2 ^ k"
    and hd: "Head (que s) = word_of_nat (length (pushed s))" "Tail (que s) = word_of_nat ?n"
    using inv by (auto simp: spsc_inv_def)
  have eq: "popped s = take ?n (pushed s)" using inv unfolding spsc_inv_def by blast
  have "popped s @ drop ?n (pushed s) = take ?n (pushed s) @ drop ?n (pushed s)"
    by (rule arg_cong [OF eq])
  then have "pushed s = popped s @ drop ?n (pushed s)" by simp
  moreover have "length (drop ?n (pushed s)) \<le> unat (bit_ceil c)" using k bd by simp
  moreover have "Size (que s) = vsize (drop ?n (pushed s))"
    using le hd by (simp add: Size_def vsize_def)
  ultimately show ?thesis by blast
qed

text \<open>
  (C17) No data race on a slot and no access outside the vector: whenever the producer is
  about to write a slot the index is in range, whenever the consumer is about to read one
  it is in range and holds the next unpopped element, and if both are about to do so the
  slots differ.
\<close>

theorem spsc_race_free:
  assumes "Resize d c q = Inr q'" "c \<noteq> 0" "spsc_step\<^sup>*\<^sup>* (spsc_init q') s"
  shows "(\<forall>x h. ppc s = PWrite x h \<longrightarrow> (\<exists>q''. write_slot h x (que s) = Inr q''))
     \<and> (\<forall>t. cpc s = CRead t \<longrightarrow> read_slot t (que s) = Inr (pushed s ! length (popped s)))
     \<and> (\<forall>x h t. ppc s = PWrite x h \<and> cpc s = CRead t \<longrightarrow>
          h AND CapacityMask (que s) \<noteq> t AND CapacityMask (que s))"
proof -
  from Resize_spsc_ok [OF assms(1,2)] obtain k where k: "spsc_ok k (spsc_init q')" by blast
  from spsc_ok_reachable [OF assms(3) k]
  have inv: "spsc_inv k (que s) (pushed s) (popped s) (seen_tail s) (seen_head s)"
    and p: "producer_ok k s" and c: "consumer_ok s" by (simp_all add: spsc_ok_def)
  have hd: "Head (que s) = word_of_nat (length (pushed s))"
    "Tail (que s) = word_of_nat (length (popped s))"
    and le: "seen_head s \<le> length (pushed s)" "seen_tail s \<le> length (popped s)"
    using inv by (auto simp: spsc_inv_def)
  have w: "\<exists>q''. write_slot h x (que s) = Inr q''" if "ppc s = PWrite x h" for x h
    using spsc_inv_write(1) [OF inv, of x] that p by (auto simp: producer_ok_def)
  have r: "read_slot t (que s) = Inr (pushed s ! length (popped s))" if "cpc s = CRead t" for t
    using spsc_inv_read [OF inv] that c by (auto simp: consumer_ok_def)
  have "h AND CapacityMask (que s) \<noteq> t AND CapacityMask (que s)"
    if pc: "ppc s = PWrite x h" "cpc s = CRead t" for x h t
  proof -
    have "length (popped s) < length (pushed s)" "length (pushed s) < length (popped s) + 2 ^ k"
      using p c pc le by (auto simp: producer_ok_def consumer_ok_def)
    then have "length (popped s) mod 2 ^ k \<noteq> length (pushed s) mod 2 ^ k" by (rule mod_window_inj)
    moreover have "h = Head (que s)" "t = Tail (que s)"
      using p c pc by (auto simp: producer_ok_def consumer_ok_def)
    ultimately show ?thesis using slot_index(1) [OF inv] hd by metis
  qed
  with w r show ?thesis by blast
qed

text \<open>A run for the witnesses: one push, then a pop that has loaded the head.\<close>

definition sample_spsc :: "nat TSpscCircularQueue" where
  "sample_spsc = \<lparr>Queue = [0, 0], Capacity = 2, CapacityMask = 1, Head = 0, CachedTail = 0,
     Tail = 0, CachedHead = 0\<rparr>"

lemma sample_spsc_resize: "Resize 0 2 new_TSpscCircularQueue = Inr sample_spsc"
proof -
  have "bit_ceil 2 = 2" by code_simp
  moreover have "replicate 2 0 = [0, 0 :: nat]" by code_simp
  ultimately show ?thesis
    by (simp add: Resize_def Let_def new_TSpscCircularQueue_def vec_resize_def sample_spsc_def)
qed

definition sample_spsc_run :: "nat spsc_state" where
  "sample_spsc_run = \<lparr>que = sample_spsc\<lparr>Queue := [7, 0], Head := 1, CachedHead := 1\<rparr>,
     ppc = PWrite 8 1, cpc = CRead 0, pushed = [7], popped = [], seen_tail = 0, seen_head = 1\<rparr>"

lemma sample_spsc_reachable: "spsc_step\<^sup>*\<^sup>* (spsc_init sample_spsc) sample_spsc_run"
proof -
  let ?s0 = "spsc_init sample_spsc"
  let ?s1 = "?s0\<lparr>ppc := PWrite 7 0\<rparr>"
  let ?s2 = "?s1\<lparr>que := sample_spsc\<lparr>Queue := [7, 0]\<rparr>, ppc := PPublish 7 0\<rparr>"
  let ?s3 = "?s2\<lparr>que := sample_spsc\<lparr>Queue := [7, 0], Head := 1\<rparr>, pushed := [7], ppc := PIdle\<rparr>"
  let ?s4 = "?s3\<lparr>cpc := CReload 0\<rparr>"
  let ?s5 = "?s4\<lparr>que := sample_spsc\<lparr>Queue := [7, 0], Head := 1, CachedHead := 1\<rparr>,
     seen_head := 1, cpc := CRead 0\<rparr>"
  have "spsc_step ?s0 ?s1" using push_begin [of ?s0 0 7] by (simp add: spsc_init_def sample_spsc_def)
  moreover have "spsc_step ?s1 ?s2"
    by (rule push_write) (simp_all add: spsc_init_def sample_spsc_def write_slot_def)
  moreover have "spsc_step ?s2 ?s3"
    using push_publish [of ?s2 7 0] by (simp add: spsc_init_def sample_spsc_def)
  moreover have "spsc_step ?s3 ?s4"
    using pop_begin [of ?s3 0] by (simp add: spsc_init_def sample_spsc_def)
  moreover have "spsc_step ?s4 ?s5"
    using pop_reload [of ?s4 0 1] by (simp add: spsc_init_def sample_spsc_def)
  moreover have "spsc_step ?s5 sample_spsc_run"
    using push_begin [of ?s5 1 8] by (simp add: spsc_init_def sample_spsc_def sample_spsc_run_def)
  ultimately show ?thesis by (meson rtranclp.rtrancl_refl rtranclp.rtrancl_into_rtrancl)
qed

theorem spsc_concurrent_fifo_witness:
  "\<exists>inflight. pushed sample_spsc_run = popped sample_spsc_run @ inflight
     \<and> length inflight \<le> unat (bit_ceil 2) \<and> Size (que sample_spsc_run) = vsize inflight"
  by (rule spsc_concurrent_fifo [OF sample_spsc_resize _ sample_spsc_reachable]) simp

theorem spsc_race_free_witness:
  "(1 :: u64) AND CapacityMask (que sample_spsc_run) \<noteq> 0 AND CapacityMask (que sample_spsc_run)"
  using spsc_race_free [OF sample_spsc_resize _ sample_spsc_reachable]
  by (auto simp: sample_spsc_run_def)

end
