(* ===== verification/TimerQueue.thy ===== *)
theory TimerQueue
  imports Prelude
begin

text \<open>
  \<open>TBinnedTimerQueue\<close> (\<open>src/src/timer_queue.h\<close>): the timer wheel that holds the sleeping
  terminals. A time point is the signed 64-bit nanosecond count of \<open>steady_clock\<close>, kept
  as an \<open>int\<close> with overflow as an explicit error. Indices and sizes are \<open>nat\<close>: they are
  bounded by the size of the vectors. \<open>std::sort\<close> may order equal deadlines in any
  way, so the sorting function is a parameter with the laws of the locale \<open>std_sort\<close>.
\<close>

section \<open>State and operations\<close>

definition time_max :: int where "time_max = 2 ^ 63 - 1"

definition time_min :: int where "time_min = - (2 ^ 63)"

record 'a TItem =
  Deadline :: int
  Value :: 'a

record 'a TBucket =
  Items :: "'a TItem list"
  MinDeadline :: int
  MaxDeadline :: int
  IsSorted :: bool

definition new_TBucket :: "'a TBucket" where
  "new_TBucket = \<lparr>Items = [], MinDeadline = time_max, MaxDeadline = time_min, IsSorted = True\<rparr>"

definition AddBack :: "'a TItem \<Rightarrow> 'a TBucket \<Rightarrow> 'a TBucket" where
  "AddBack item b =
     (let b1 = (if Items b \<noteq> [] \<and> Deadline item < Deadline (last (Items b))
                then b\<lparr>IsSorted := False\<rparr> else b) in
      b1\<lparr>MinDeadline := min (MinDeadline b1) (Deadline item),
         MaxDeadline := max (MaxDeadline b1) (Deadline item),
         Items := Items b1 @ [item]\<rparr>)"

text \<open>\<open>std::upper_bound\<close> on the sorted range from \<open>validFromPos\<close>, as a position.\<close>

definition upper_bound :: "'a TItem list \<Rightarrow> nat \<Rightarrow> 'a TItem \<Rightarrow> nat" where
  "upper_bound xs validFromPos item =
     validFromPos + length (takeWhile (\<lambda>x. \<not> Deadline item < Deadline x) (drop validFromPos xs))"

definition AddSorted :: "'a TItem \<Rightarrow> nat \<Rightarrow> 'a TBucket \<Rightarrow> 'a TBucket" where
  "AddSorted item validFromPos b =
     (if MaxDeadline b \<le> Deadline item then AddBack item b
      else let i = upper_bound (Items b) validFromPos item in
        b\<lparr>MinDeadline := min (MinDeadline b) (Deadline item),
          MaxDeadline := max (MaxDeadline b) (Deadline item),
          Items := take i (Items b) @ item # drop i (Items b)\<rparr>)"

definition Bucket_Clear :: "'a TBucket \<Rightarrow> 'a TBucket" where
  "Bucket_Clear b = b\<lparr>Items := [], MinDeadline := time_max, MaxDeadline := time_min, IsSorted := True\<rparr>"

definition Bucket_Sort :: "('a TItem list \<Rightarrow> 'a TItem list) \<Rightarrow> 'a TBucket \<Rightarrow> 'a TBucket" where
  "Bucket_Sort srt b = (if IsSorted b then b else b\<lparr>Items := srt (Items b), IsSorted := True\<rparr>)"

record 'a TBinnedTimerQueue =
  TBuckets :: "'a TBucket list"
  BucketSoftLimit :: nat
  QSize :: nat
  CurrentBucket :: nat
  CurrentCursor :: nat

definition TQ_Resize :: "nat \<Rightarrow> nat \<Rightarrow> 'a TBinnedTimerQueue \<Rightarrow> 'a TBinnedTimerQueue result" where
  "TQ_Resize bucketCount bucketSoftLimit q =
     (if QSize q \<noteq> 0 then Inl (RuntimeError ''Resizing non-empty timer queue'')
      else let n = max 2 bucketCount in
        Inr (q\<lparr>TBuckets := vec_resize new_TBucket n (TBuckets q),
               BucketSoftLimit := max 1 bucketSoftLimit\<rparr>))"

definition new_TBinnedTimerQueue :: "nat \<Rightarrow> nat \<Rightarrow> 'a TBinnedTimerQueue result" where
  "new_TBinnedTimerQueue bucketCount bucketSoftLimit =
     TQ_Resize bucketCount bucketSoftLimit
       \<lparr>TBuckets = [], BucketSoftLimit = 0, QSize = 0, CurrentBucket = 0, CurrentCursor = 0\<rparr>"

fun compute_bucket_loop :: "'a TBinnedTimerQueue \<Rightarrow> int \<Rightarrow> nat list \<Rightarrow> nat" where
  "compute_bucket_loop q deadline [] =
     (CurrentBucket q + length (TBuckets q) - 1) mod length (TBuckets q)"
| "compute_bucket_loop q deadline (i # is) =
     (let bucketIndex = (i + CurrentBucket q) mod length (TBuckets q);
          bucket = TBuckets q ! bucketIndex in
      if deadline \<le> MaxDeadline bucket then bucketIndex
      else let nextBucketIndex = (bucketIndex + 1) mod length (TBuckets q) in
        if deadline \<le> MinDeadline (TBuckets q ! nextBucketIndex)
        then (if BucketSoftLimit q \<le> length (Items bucket) then nextBucketIndex else bucketIndex)
        else compute_bucket_loop q deadline is)"

definition ComputeBucket :: "'a TBinnedTimerQueue \<Rightarrow> int \<Rightarrow> nat" where
  "ComputeBucket q deadline = compute_bucket_loop q deadline [0..<length (TBuckets q)]"

text \<open>\<open>now + delay\<close>: microseconds become nanoseconds; signed overflow is undefined.\<close>

definition in_time_range :: "int \<Rightarrow> bool" where
  "in_time_range t \<longleftrightarrow> time_min \<le> t \<and> t \<le> time_max"

definition add_delay :: "int \<Rightarrow> int \<Rightarrow> int result" where
  "add_delay now delay = (if in_time_range (delay * 1000) \<and> in_time_range (now + delay * 1000)
     then Inr (now + delay * 1000) else Inl (UB ''now + delay''))"

text \<open>\<open>Buckets[CurrentBucket]\<close> is undefined beyond the vector; this guards each operation.\<close>

definition with_current :: "'a TBinnedTimerQueue \<Rightarrow> 'b result \<Rightarrow> 'b result" where
  "with_current q r = (if CurrentBucket q < length (TBuckets q) then r
     else Inl (UB ''Buckets[CurrentBucket]''))"

definition TQ_Add :: "int \<Rightarrow> 'a \<Rightarrow> int \<Rightarrow> 'a TBinnedTimerQueue \<Rightarrow> 'a TBinnedTimerQueue result" where
  "TQ_Add delay v now q = rbind (add_delay now delay) (\<lambda>deadline.
     with_current q (let bucket = ComputeBucket q deadline;
        item = \<lparr>Deadline = deadline, Value = v\<rparr>;
        b' = (if bucket = CurrentBucket q then AddSorted item (CurrentCursor q) (TBuckets q ! bucket)
              else AddBack item (TBuckets q ! bucket)) in
      Inr (q\<lparr>TBuckets := (TBuckets q)[bucket := b'], QSize := QSize q + 1\<rparr>)))"

definition GetNextDeadline :: "'a TBinnedTimerQueue \<Rightarrow> int result" where
  "GetNextDeadline q = (if QSize q = 0 then Inr time_max
     else with_current q (let current = TBuckets q ! CurrentBucket q in
       if CurrentCursor q < length (Items current)
       then Inr (Deadline (Items current ! CurrentCursor q))
       else let next = TBuckets q ! ((CurrentBucket q + 1) mod length (TBuckets q)) in
         if Items next = [] then Inl (UB ''Items[0]'') else Inr (Deadline (Items next ! 0))))"

definition Advance :: "('a TItem list \<Rightarrow> 'a TItem list) \<Rightarrow> 'a TBinnedTimerQueue \<Rightarrow> 'a TBinnedTimerQueue" where
  "Advance srt q =
     (let c = CurrentBucket q; bs = (TBuckets q)[c := Bucket_Clear (TBuckets q ! c)];
          c' = (c + 1) mod length bs in
      q\<lparr>TBuckets := bs[c' := Bucket_Sort srt (bs ! c')], CurrentCursor := 0, CurrentBucket := c'\<rparr>)"

definition PopFront ::
  "('a TItem list \<Rightarrow> 'a TItem list) \<Rightarrow> 'a TBinnedTimerQueue \<Rightarrow> ('a TItem \<times> 'a TBinnedTimerQueue) result" where
  "PopFront srt q =
     (if QSize q = 0 then Inl (RuntimeError ''Cannot pop from empty timer queue'')
      else let q = q\<lparr>QSize := QSize q - 1\<rparr> in
       with_current q (let current = TBuckets q ! CurrentBucket q in
        if CurrentCursor q < length (Items current)
        then Inr (Items current ! CurrentCursor q, q\<lparr>CurrentCursor := CurrentCursor q + 1\<rparr>)
        else let q = Advance srt q; current = TBuckets q ! CurrentBucket q in
          if Items current = [] then Inl (RuntimeError ''Internal error: Empty bucket after advance'')
          else Inr (Items current ! CurrentCursor q, q\<lparr>CurrentCursor := CurrentCursor q + 1\<rparr>)))"

text \<open>
  \<open>Validate\<close>, the class's own consistency check: the current bucket is sorted from the
  cursor, every bucket's bounds are exact, consecutive buckets are ordered, and the sizes
  add up (the subtraction is a \<open>size_t\<close> one in the code; the cursor never exceeds the size).
\<close>

definition bucket_bounds_exact :: "'a TBucket \<Rightarrow> bool" where
  "bucket_bounds_exact b = (if Items b \<noteq> []
     then MinDeadline b = Min (set (map Deadline (Items b)))
        \<and> MaxDeadline b = Max (set (map Deadline (Items b)))
     else MinDeadline b = time_max \<and> MaxDeadline b = time_min)"

definition Validate :: "'a TBinnedTimerQueue \<Rightarrow> bool" where
  "Validate q = (let n = length (TBuckets q); cur = CurrentBucket q; current = TBuckets q ! cur in
     (\<forall>i \<in> set [CurrentCursor q + 1..<length (Items current)].
        \<not> Deadline (Items current ! i) < Deadline (Items current ! (i - 1))) \<and>
     list_all bucket_bounds_exact (TBuckets q) \<and>
     (\<forall>offset \<in> set [0..<n - 1].
        let a = TBuckets q ! ((cur + offset) mod n);
            b = TBuckets q ! (((cur + offset) mod n + 1) mod n) in
        Items a \<noteq> [] \<and> Items b \<noteq> [] \<longrightarrow> MaxDeadline a \<le> MinDeadline b) \<and>
     (\<Sum>i \<leftarrow> [0..<n]. if i = cur then length (Items (TBuckets q ! i)) - CurrentCursor q
                   else length (Items (TBuckets q ! i))) = QSize q)"

section \<open>The buckets in wheel order\<close>

text \<open>\<open>wheel q\<close> is the bucket vector rotated so that the current bucket comes first.\<close>

definition wheel :: "'a TBinnedTimerQueue \<Rightarrow> 'a TBucket list" where
  "wheel q = rotate (CurrentBucket q) (TBuckets q)"

lemma length_wheel [simp]: "length (wheel q) = length (TBuckets q)"
  by (simp add: wheel_def)

lemma wheel_other [simp]:
  "wheel (q\<lparr>QSize := a\<rparr>) = wheel q" "wheel (q\<lparr>CurrentCursor := b\<rparr>) = wheel q"
  "wheel (q\<lparr>BucketSoftLimit := b\<rparr>) = wheel q"
  by (simp_all add: wheel_def)

lemma wheel_nth: "j < length (TBuckets q) \<Longrightarrow>
   wheel q ! j = TBuckets q ! ((CurrentBucket q + j) mod length (TBuckets q))"
  by (simp add: wheel_def nth_rotate)

lemma mod_shift_inj:
  assumes "i < n" "j < n" "(c + i) mod n = (c + j) mod (n :: nat)"
  shows "i = j"
  using assms mod_window_inj [of "c + i" "c + j" n] mod_window_inj [of "c + j" "c + i" n]
  by (cases i j rule: linorder_cases) auto

lemma rotate_list_update:
  assumes "j < length xs"
  shows "rotate c (xs[(c + j) mod length xs := y]) = (rotate c xs)[j := y]"
proof (rule nth_equalityI)
  fix i
  assume i: "i < length (rotate c (xs[(c + j) mod length xs := y]))"
  then have "(c + j) mod length xs < length xs" using assms by (intro mod_less_divisor) auto
  then show "rotate c (xs[(c + j) mod length xs := y]) ! i = (rotate c xs)[j := y] ! i"
    using i assms mod_shift_inj [of i "length xs" j c]
    by (cases "i = j") (auto simp: nth_rotate nth_list_update)
qed simp

text \<open>Every index is reached from the current bucket.\<close>

lemma wheel_index:
  assumes "cur < n" "i < (n :: nat)"
  shows "\<exists>j < n. i = (cur + j) mod n"
proof -
  let ?j = "(i + (n - cur)) mod n"
  have "(cur + ?j) mod n = (cur + (i + (n - cur))) mod n" by presburger
  also have "cur + (i + (n - cur)) = i + n" using assms by simp
  finally have "(cur + ?j) mod n = i" using assms by simp
  moreover have "?j < n" using assms by simp
  ultimately show ?thesis by metis
qed

section \<open>Invariant\<close>

definition bounds_ok :: "'a TBucket \<Rightarrow> bool" where
  "bounds_ok b \<longleftrightarrow> (\<forall>x \<in> set (Items b). in_time_range (Deadline x))
     \<and> MinDeadline b = Min (insert time_max (Deadline ` set (Items b)))
     \<and> MaxDeadline b = Max (insert time_min (Deadline ` set (Items b)))"

text \<open>
  In wheel order the non-empty buckets come first and each bucket's deadlines are at most
  those of the next one.
\<close>

definition wheel_ok :: "'a TBucket list \<Rightarrow> bool" where
  "wheel_ok bs \<longleftrightarrow>
     (\<forall>b \<in> set bs. bounds_ok b) \<and>
     (\<forall>b \<in> set (tl bs). IsSorted b \<longrightarrow> sorted (map Deadline (Items b))) \<and>
     (\<forall>j. Suc j < length bs \<longrightarrow> Items (bs ! Suc j) \<noteq> [] \<longrightarrow> Items (bs ! j) \<noteq> []) \<and>
     (\<forall>j. Suc j < length bs \<longrightarrow> MaxDeadline (bs ! j) \<le> MinDeadline (bs ! Suc j))"

definition pending_list :: "nat \<Rightarrow> 'a TBucket list \<Rightarrow> 'a TItem list" where
  "pending_list cursor bs = drop cursor (Items (hd bs)) @ concat (map Items (tl bs))"

definition tq_ok :: "'a TBinnedTimerQueue \<Rightarrow> bool" where
  "tq_ok q \<longleftrightarrow> 2 \<le> length (TBuckets q) \<and> CurrentBucket q < length (TBuckets q)
     \<and> 1 \<le> BucketSoftLimit q \<and> wheel_ok (wheel q)
     \<and> CurrentCursor q \<le> length (Items (hd (wheel q)))
     \<and> sorted (map Deadline (drop (CurrentCursor q) (Items (hd (wheel q)))))
     \<and> QSize q = length (pending_list (CurrentCursor q) (wheel q))"

text \<open>The multiset of items that have been added and not yet popped.\<close>

definition tq_holds :: "'a TBinnedTimerQueue \<Rightarrow> 'a TItem multiset \<Rightarrow> bool" where
  "tq_holds q M \<longleftrightarrow> tq_ok q \<and> M = mset (pending_list (CurrentCursor q) (wheel q))"

lemma time_min_le_max: "time_min \<le> time_max"
  by (simp add: time_min_def time_max_def)

lemma bounds_okD:
  assumes "bounds_ok b"
  shows "x \<in> set (Items b) \<Longrightarrow> MinDeadline b \<le> Deadline x"
    "x \<in> set (Items b) \<Longrightarrow> Deadline x \<le> MaxDeadline b"
    "MinDeadline b \<le> time_max" "time_min \<le> MaxDeadline b"
    "Items b \<noteq> [] \<Longrightarrow> MinDeadline b \<le> MaxDeadline b"
    "Items b = [] \<Longrightarrow> MinDeadline b = time_max"
    "Items b = [] \<Longrightarrow> MaxDeadline b = time_min"
proof -
  show mn: "MinDeadline b \<le> Deadline x" if "x \<in> set (Items b)" for x
    using assms that by (simp add: bounds_ok_def Min_le_iff)
  show mx: "Deadline x \<le> MaxDeadline b" if "x \<in> set (Items b)" for x
    using assms that by (simp add: bounds_ok_def Max_ge_iff)
  show "MinDeadline b \<le> MaxDeadline b" if "Items b \<noteq> []"
    using mn [of "hd (Items b)"] mx [of "hd (Items b)"] that by simp
qed (use assms in \<open>simp_all add: bounds_ok_def Min_le_iff Max_ge_iff\<close>)

lemma bounds_ok_new [simp]: "bounds_ok new_TBucket"
  by (simp add: bounds_ok_def new_TBucket_def)

lemma bounds_ok_Clear [simp]: "bounds_ok (Bucket_Clear b)" "Items (Bucket_Clear b) = []"
  by (simp_all add: bounds_ok_def Bucket_Clear_def)

text \<open>Any insertion that updates the bounds keeps them exact.\<close>

lemma bounds_ok_insert:
  assumes "bounds_ok b" "in_time_range (Deadline item)"
    and "mset (Items b') = add_mset item (mset (Items b))"
    and "MinDeadline b' = min (MinDeadline b) (Deadline item)"
    and "MaxDeadline b' = max (MaxDeadline b) (Deadline item)"
  shows "bounds_ok b'"
proof -
  have "set (Items b') = insert item (set (Items b))"
    using assms(3) by (metis set_mset_add_mset_insert set_mset_mset)
  then have "insert t (Deadline ` set (Items b')) = insert (Deadline item) (insert t (Deadline ` set (Items b)))"
    and "\<forall>x \<in> set (Items b'). in_time_range (Deadline x)" for t
    using assms(1,2) by (auto simp: bounds_ok_def)
  then show ?thesis
    using assms(1,4,5) by (simp add: bounds_ok_def min.commute max.commute Min_insert Max_insert)
qed

lemma AddBack_fields:
  "mset (Items (AddBack item b)) = add_mset item (mset (Items b))"
  "MinDeadline (AddBack item b) = min (MinDeadline b) (Deadline item)"
  "MaxDeadline (AddBack item b) = max (MaxDeadline b) (Deadline item)"
  "Items (AddBack item b) = Items b @ [item]"
  by (simp_all add: AddBack_def Let_def)

lemma AddSorted_fields:
  "mset (Items (AddSorted item p b)) = add_mset item (mset (Items b))"
  "MinDeadline (AddSorted item p b) = min (MinDeadline b) (Deadline item)"
  "MaxDeadline (AddSorted item p b) = max (MaxDeadline b) (Deadline item)"
proof -
  have "mset (take i xs @ item # drop i xs) = add_mset item (mset xs)" for i and xs :: "'a TItem list"
    by (metis append_take_drop_id mset.simps(2) mset_append union_mset_add_mset_right)
  then show "mset (Items (AddSorted item p b)) = add_mset item (mset (Items b))"
    by (simp add: AddSorted_def AddBack_fields Let_def)
qed (simp_all add: AddSorted_def AddBack_fields Let_def)

lemma AddBack_sorted:
  assumes "IsSorted b \<longrightarrow> sorted (map Deadline (Items b))" "IsSorted (AddBack item b)"
  shows "sorted (map Deadline (Items (AddBack item b)))"
proof -
  have b: "sorted (map Deadline (Items b))" and
    l: "Items b \<noteq> [] \<longrightarrow> Deadline (last (Items b)) \<le> Deadline item"
    using assms by (auto simp: AddBack_def Let_def split: if_splits)
  have "Deadline x \<le> Deadline item" if x: "x \<in> set (Items b)" for x
  proof -
    have "Deadline x \<le> Deadline (last (Items b))"
      using b x by (cases "Items b" rule: rev_cases) (auto simp: sorted_append)
    moreover have "Items b \<noteq> []" using x by auto
    ultimately show ?thesis using l by auto
  qed
  with b show ?thesis by (auto simp: AddBack_fields sorted_append)
qed


text \<open>Inserting at the upper bound keeps the part behind the cursor sorted.\<close>

lemma AddSorted_sorted:
  assumes b: "bounds_ok b" and s: "sorted (map Deadline (drop p (Items b)))"
    and p: "p \<le> length (Items b)"
  shows "sorted (map Deadline (drop p (Items (AddSorted item p b))))
     \<and> p \<le> length (Items (AddSorted item p b))
     \<and> mset (drop p (Items (AddSorted item p b))) = add_mset item (mset (drop p (Items b)))"
proof (cases "MaxDeadline b \<le> Deadline item")
  case True
  have "Deadline x \<le> Deadline item" if "x \<in> set (drop p (Items b))" for x
    using bounds_okD(2) [OF b in_set_dropD [OF that]] True by simp
  then show ?thesis
    using True s p by (auto simp: AddSorted_def AddBack_fields sorted_append)
next
  case False
  let ?P = "\<lambda>x. \<not> Deadline item < Deadline x" and ?ys = "drop p (Items b)"
  let ?k = "length (takeWhile ?P ?ys)"
  have k: "?k \<le> length ?ys" by (rule length_takeWhile_le)
  have split: "drop p (take (p + j) xs @ item # drop (p + j) xs) = take j (drop p xs) @ item # drop j (drop p xs)"
    if "p + j \<le> length xs" for j xs
    using that by (simp add: drop_take add.commute)
  have tw: "take ?k ?ys = takeWhile ?P ?ys" "drop ?k ?ys = dropWhile ?P ?ys"
    by (metis takeWhile_eq_take, metis dropWhile_eq_drop)
  have pk: "p + ?k \<le> length (Items b)" using k p by (metis add_le_cancel_left le_add_diff_inverse length_drop)
  have "Items (AddSorted item p b) = take (p + ?k) (Items b) @ item # drop (p + ?k) (Items b)"
    using False by (simp add: AddSorted_def upper_bound_def Let_def)
  then have eq: "drop p (Items (AddSorted item p b)) = takeWhile ?P ?ys @ item # dropWhile ?P ?ys"
    using split [OF pk] tw by metis
  have gt: "Deadline item \<le> Deadline x" if x: "x \<in> set (dropWhile ?P ?ys)" for x
  proof -
    have srt: "sorted (map Deadline (dropWhile ?P ?ys))"
      using s by (metis dropWhile_eq_drop drop_map sorted_wrt_drop)
    have ne: "dropWhile ?P ?ys \<noteq> []" using x by (metis empty_iff empty_set)
    then have "Deadline item < Deadline (hd (dropWhile ?P ?ys))" using hd_dropWhile [OF ne] by simp
    moreover have "Deadline (hd (dropWhile ?P ?ys)) \<le> Deadline x"
      using srt x by (cases "dropWhile ?P ?ys") auto
    ultimately show ?thesis by simp
  qed
  have srt: "sorted (map Deadline (takeWhile ?P ?ys @ dropWhile ?P ?ys))" using s by simp
  then have "sorted (map Deadline (takeWhile ?P ?ys @ item # dropWhile ?P ?ys))"
    using gt by (auto simp: sorted_append dest!: set_takeWhileD simp del: takeWhile_dropWhile_id)
  moreover have "mset (takeWhile ?P ?ys @ item # dropWhile ?P ?ys) = add_mset item (mset ?ys)"
    by (metis mset.simps(2) mset_append takeWhile_dropWhile_id union_mset_add_mset_right)
  moreover have "p \<le> length (Items (AddSorted item p b))"
    using p AddSorted_fields(1) [of item p b] by (metis size_mset size_add_mset le_SucI)
  ultimately show ?thesis using eq by simp
qed

section \<open>Where an item goes\<close>

lemma wheel_okD:
  assumes "wheel_ok bs"
  shows "b \<in> set bs \<Longrightarrow> bounds_ok b" "j < length bs \<Longrightarrow> bounds_ok (bs ! j)"
    "Suc j < length bs \<Longrightarrow> MaxDeadline (bs ! j) \<le> MinDeadline (bs ! Suc j)"
  using assms by (auto simp: wheel_ok_def)

lemma wheel_nonempty_before:
  assumes "wheel_ok bs" "j < length bs" "Items (bs ! j) \<noteq> []" "i \<le> j"
  shows "Items (bs ! i) \<noteq> []"
  using assms(4,2,3)
proof (induction j rule: dec_induct)
  case (step n)
  then show ?case using assms(1) by (auto simp: wheel_ok_def)
qed simp

lemma wheel_ordered:
  assumes ok: "wheel_ok bs" and "i < j" "j < length bs"
  shows "MaxDeadline (bs ! i) \<le> MinDeadline (bs ! j)"
  using assms(2,3)
proof (induction j rule: less_induct)
  case (less j)
  show ?case
  proof (cases "Items (bs ! j) = []")
    case True
    have "MaxDeadline (bs ! i) \<le> time_max"
      using wheel_okD(3) [OF ok, of i] bounds_okD(3) wheel_okD(2) [OF ok, of "Suc i"] less.prems
      by (meson Suc_lessI less_trans_Suc order.strict_trans1 order_trans Suc_leI le_less_trans)
    then show ?thesis using bounds_okD(6) wheel_okD(2) [OF ok less.prems(2)] True by metis
  next
    case False
    then obtain k where k: "j = Suc k" using less.prems by (cases j) auto
    then have ne: "Items (bs ! k) \<noteq> []"
      using wheel_nonempty_before [OF ok less.prems(2) False, of k] by simp
    have last: "MaxDeadline (bs ! k) \<le> MinDeadline (bs ! j)"
      using wheel_okD(3) [OF ok] less.prems k by simp
    show ?thesis
    proof (cases "i = k")
      case False
      then have "MaxDeadline (bs ! i) \<le> MinDeadline (bs ! k)" using less k by simp
      also have "\<dots> \<le> MaxDeadline (bs ! k)"
        using bounds_okD(5) [OF wheel_okD(2) [OF ok] ne] less.prems k by simp
      also note last
      finally show ?thesis .
    qed (use last in simp)
  qed
qed


text \<open>
  \<open>ComputeBucket\<close> returns a wheel position \<open>j\<close> such that the deadline lies between the
  buckets before and behind it, and no bucket before it is empty.
\<close>

definition fits :: "'a TBucket list \<Rightarrow> int \<Rightarrow> nat \<Rightarrow> bool" where
  "fits bs d j \<longleftrightarrow> j < length bs \<and> (\<forall>i < j. MaxDeadline (bs ! i) < d)
     \<and> (\<forall>i. j < i \<and> i < length bs \<longrightarrow> d \<le> MinDeadline (bs ! i))
     \<and> (j = 0 \<or> Items (bs ! (j - 1)) \<noteq> [])"

lemma fits_between:
  assumes ok: "wheel_ok bs" and d: "d \<le> time_max" and j: "j < length bs"
    and before: "\<forall>i < j. MaxDeadline (bs ! i) < d"
    and ne: "j = 0 \<or> Items (bs ! (j - 1)) \<noteq> []"
    and next': "d \<le> MaxDeadline (bs ! j) \<or> (Suc j < length bs \<longrightarrow> d \<le> MinDeadline (bs ! Suc j))"
  shows "fits bs d j"
proof -
  have "d \<le> MinDeadline (bs ! i)" if i: "j < i" "i < length bs" for i
  proof (cases "Items (bs ! i) = []")
    case True
    then show ?thesis using d bounds_okD(6) [OF wheel_okD(2) [OF ok i(2)]] by simp
  next
    case False
    have "MinDeadline (bs ! Suc j) \<le> MinDeadline (bs ! i)"
    proof (cases "i = Suc j")
      case False
      with i have lt: "Suc j < i" by simp
      have "Items (bs ! Suc j) \<noteq> []"
        using wheel_nonempty_before [OF ok i(2) \<open>Items (bs ! i) \<noteq> []\<close>] lt by simp
      then have "MinDeadline (bs ! Suc j) \<le> MaxDeadline (bs ! Suc j)"
        using bounds_okD(5) wheel_okD(2) [OF ok, of "Suc j"] lt i by (metis less_trans)
      with wheel_ordered [OF ok lt i(2)] show ?thesis by simp
    qed simp
    moreover have "MaxDeadline (bs ! j) \<le> MinDeadline (bs ! i)" by (rule wheel_ordered [OF ok i])
    ultimately show ?thesis using next' i by auto
  qed
  with j before ne show ?thesis by (simp add: fits_def)
qed

lemma fits_next:
  assumes w: "wheel_ok bs" and d: "d \<le> time_max" and i: "Suc i < length bs"
    and mx: "\<forall>i' \<le> i. MaxDeadline (bs ! i') < d" and mn: "d \<le> MinDeadline (bs ! Suc i)"
    and ne: "Items (bs ! i) \<noteq> []"
  shows "fits bs d (Suc i)"
proof (rule fits_between [OF w d i])
  show "d \<le> MaxDeadline (bs ! Suc i) \<or>
     (Suc (Suc i) < length bs \<longrightarrow> d \<le> MinDeadline (bs ! Suc (Suc i)))"
  proof (cases "Items (bs ! Suc i) = []")
    case True
    then have "Items (bs ! Suc (Suc i)) = []" if "Suc (Suc i) < length bs"
      using w that by (auto simp: wheel_ok_def)
    then show ?thesis using d bounds_okD(6) wheel_okD(2) [OF w] by metis
  next
    case False
    then show ?thesis using mn bounds_okD(5) [OF wheel_okD(2) [OF w i]] by simp
  qed
qed (use mx ne in auto)

text \<open>The search never wraps round to the current bucket.\<close>

lemma no_wrap:
  assumes w: "wheel_ok bs" and i: "0 < i" "i < length bs" "Items (bs ! i) \<noteq> []"
    and mx: "MaxDeadline (bs ! 0) < d"
  shows "\<not> d \<le> MinDeadline (bs ! 0)"
proof -
  have "Items (bs ! 0) \<noteq> []" using wheel_nonempty_before [OF w i(2,3), of 0] by simp
  moreover have "0 < length bs" using i by linarith
  ultimately show ?thesis using bounds_okD(5) [OF wheel_okD(2) [OF w]] mx by fastforce
qed

lemma compute_bucket_loop_fits:
  assumes ok: "tq_ok q" and d: "d \<le> time_max" and i: "i \<le> length (TBuckets q)"
    and before: "\<forall>i' < i. MaxDeadline (wheel q ! i') < d"
    and ne: "\<forall>i' \<le> i. 0 < i' \<and> i' < length (TBuckets q) \<longrightarrow> Items (wheel q ! i') \<noteq> []"
  shows "\<exists>j. compute_bucket_loop q d [i..<length (TBuckets q)]
       = (CurrentBucket q + j) mod length (TBuckets q) \<and> fits (wheel q) d j"
  using i before ne
proof (induction "length (TBuckets q) - i" arbitrary: i)
  case 0
  let ?n = "length (TBuckets q)"
  have w: "wheel_ok (wheel q)" and n: "2 \<le> ?n" using ok by (auto simp: tq_ok_def)
  have "Items (wheel q ! (?n - 1)) \<noteq> []" using 0 n by auto
  then have "Items (wheel q ! (?n - 1 - 1)) \<noteq> []"
    using wheel_nonempty_before [OF w, of "?n - 1" "?n - 1 - 1"] n by simp
  then have "fits (wheel q) d (?n - 1)" using 0 n by (auto simp: fits_def)
  moreover have "CurrentBucket q + ?n - 1 = CurrentBucket q + (?n - 1)" using n by simp
  ultimately show ?case using 0 by (metis compute_bucket_loop.simps(1) diff_is_0_eq upt_conv_Nil)
next
  case (Suc m)
  let ?n = "length (TBuckets q)" and ?c = "CurrentBucket q" and ?bs = "wheel q"
  have w: "wheel_ok ?bs" and n: "2 \<le> ?n" and soft: "1 \<le> BucketSoftLimit q"
    using ok by (auto simp: tq_ok_def)
  have i: "i < ?n" using Suc.hyps by simp
  have l: "[i..<?n] = i # [Suc i..<?n]" using i by (simp add: upt_conv_Cons)
  have b: "TBuckets q ! ((i + ?c) mod ?n) = ?bs ! i" using i by (simp add: wheel_nth add.commute)
  have nx: "((i + ?c) mod ?n + 1) mod ?n = (?c + Suc i) mod ?n" by (simp add: mod_Suc_eq add.commute)
  have nei: "i = 0 \<or> Items (?bs ! (i - 1)) \<noteq> []"
    using wheel_nonempty_before [OF w, of i "i - 1"] Suc.prems(3) i by auto
  show ?case
  proof (cases "d \<le> MaxDeadline (?bs ! i)")
    case True
    then have "fits ?bs d i" using Suc.prems w d i nei by (intro fits_between) auto
    then show ?thesis using True b l by (auto simp: Let_def add.commute)
  next
    case mx: False
    show ?thesis
    proof (cases "Suc i < ?n")
      case True
      have nb: "TBuckets q ! ((?c + Suc i) mod ?n) = ?bs ! Suc i" using True by (simp add: wheel_nth)
      show ?thesis
      proof (cases "d \<le> MinDeadline (?bs ! Suc i)")
        case mn: True
        have "fits ?bs d (Suc i)" if "BucketSoftLimit q \<le> length (Items (?bs ! i))"
          using that soft mx mn Suc.prems True by (intro fits_next [OF w d]) (auto simp: le_less)
        moreover have "fits ?bs d i" using Suc.prems w d i nei mn by (intro fits_between) auto
        ultimately show ?thesis using mx mn b nb nx l
          by (auto simp: Let_def add.commute intro: exI [of _ "Suc i"])
      next
        case mn: False
        have "Items (?bs ! Suc i) \<noteq> []"
          using mn d bounds_okD(6) [OF wheel_okD(2) [OF w, of "Suc i"]] True by auto
        then have "\<exists>j. compute_bucket_loop q d [Suc i..<?n] = (?c + j) mod ?n \<and> fits ?bs d j"
          using Suc.prems Suc.hyps(2) mx True
          by (intro Suc.hyps(1)) (auto simp: less_Suc_eq le_Suc_eq not_le)
        then show ?thesis using mx mn b nb nx l by (auto simp: Let_def)
      qed
    next
      case False
      then have last: "Suc i = ?n" using i by simp
      have "\<not> d \<le> MinDeadline (?bs ! 0)"
        using Suc.prems last n by (intro no_wrap [OF w, of i]) auto
      moreover have "TBuckets q ! ((?c + Suc i) mod ?n) = ?bs ! 0"
        using last n by (subst wheel_nth) auto
      ultimately have "compute_bucket_loop q d [i..<?n] = compute_bucket_loop q d [Suc i..<?n]"
        using mx b nx l by (simp add: Let_def)
      moreover have "\<exists>j. compute_bucket_loop q d [Suc i..<?n] = (?c + j) mod ?n \<and> fits ?bs d j"
        using Suc.prems Suc.hyps(2) mx last [symmetric]
        by (intro Suc.hyps(1)) (auto simp: less_Suc_eq le_Suc_eq not_le)
      ultimately show ?thesis by simp
    qed
  qed
qed

lemma ComputeBucket_fits:
  assumes "tq_ok q" "d \<le> time_max"
  shows "\<exists>j. ComputeBucket q d = (CurrentBucket q + j) mod length (TBuckets q) \<and> fits (wheel q) d j"
  using compute_bucket_loop_fits [OF assms, of 0] by (simp add: ComputeBucket_def)


section \<open>Every operation keeps the invariant\<close>

lemma wheel_update:
  assumes "j < length (TBuckets q)"
  shows "wheel (q\<lparr>TBuckets := (TBuckets q)[(CurrentBucket q + j) mod length (TBuckets q) := b], QSize := s\<rparr>)
     = (wheel q)[j := b]"
  using rotate_list_update [OF assms] by (simp add: wheel_def)

lemma wheel_ok_insert:
  assumes w: "wheel_ok bs" and f: "fits bs d j"
    and b': "bounds_ok b'" "Items b' \<noteq> []"
      "MinDeadline b' = min (MinDeadline (bs ! j)) d" "MaxDeadline b' = max (MaxDeadline (bs ! j)) d"
    and srt: "0 < j \<Longrightarrow> IsSorted b' \<Longrightarrow> sorted (map Deadline (Items b'))"
  shows "wheel_ok (bs[j := b'])"
proof -
  have j: "j < length bs" and prev: "j = 0 \<or> Items (bs ! (j - 1)) \<noteq> []"
    and before: "\<And>i. i < j \<Longrightarrow> MaxDeadline (bs ! i) < d"
    and behind: "\<And>i. j < i \<Longrightarrow> i < length bs \<Longrightarrow> d \<le> MinDeadline (bs ! i)"
    using f by (auto simp: fits_def)
  have "bounds_ok b" if "b \<in> set (bs[j := b'])" for b
    using that b'(1) wheel_okD(1) [OF w] set_update_subset_insert [of bs j b'] by auto
  moreover have "sorted (map Deadline (Items b))" if "b \<in> set (tl (bs[j := b']))" "IsSorted b" for b
  proof -
    have "b \<in> set (tl bs) \<or> 0 < j \<and> b = b'"
      using that(1) set_update_subset_insert [of "tl bs" "j - 1" b'] j
      by (cases bs; cases j) auto
    then show ?thesis using that(2) srt w by (auto simp: wheel_ok_def)
  qed
  moreover have "Items (bs[j := b'] ! i) \<noteq> []"
    if "Suc i < length bs" "Items (bs[j := b'] ! Suc i) \<noteq> []" for i
  proof -
    have "Items (bs ! Suc i) \<noteq> [] \<Longrightarrow> Items (bs ! i) \<noteq> []" using w that(1) by (auto simp: wheel_ok_def)
    then show ?thesis using that b'(2) prev j by (cases "j = Suc i"; cases "j = i") auto
  qed
  moreover have "MaxDeadline (bs[j := b'] ! i) \<le> MinDeadline (bs[j := b'] ! Suc i)"
    if i: "Suc i < length bs" for i
    using wheel_okD(3) [OF w i] before [of i] behind [of "Suc i"] b' i j
    by (auto simp: nth_list_update)
  ultimately show ?thesis by (simp add: wheel_ok_def)
qed

lemma mset_concat_update:
  assumes "j < length bs" "mset (Items b') = add_mset x (mset (Items (bs ! j)))"
  shows "mset (concat (map Items (bs[j := b']))) = add_mset x (mset (concat (map Items bs)))"
  using assms
proof (induction bs arbitrary: j)
  case (Cons b bs)
  then show ?case by (cases j) auto
qed simp

lemma hd_tl_update:
  "xs \<noteq> [] \<Longrightarrow> hd (xs[j := y]) = (if j = 0 then y else hd xs)"
  "0 < j \<Longrightarrow> tl (xs[j := y]) = (tl xs)[j - 1 := y]"
  "tl (xs[0 := y]) = tl xs"
  by (cases xs; cases j; auto)+

text \<open>One insertion at a fitting wheel position.\<close>

lemma tq_ok_insert:
  fixes q :: "'a TBinnedTimerQueue" and item :: "'a TItem"
  assumes ok: "tq_ok q" and f: "fits (wheel q) (Deadline item) j"
    and rng: "in_time_range (Deadline item)"
  defines "b' \<equiv> (if j = 0 then AddSorted item (CurrentCursor q) (wheel q ! j) else AddBack item (wheel q ! j))"
  defines "q' \<equiv> q\<lparr>TBuckets := (TBuckets q)[(CurrentBucket q + j) mod length (TBuckets q) := b'],
     QSize := QSize q + 1\<rparr>"
  shows "tq_ok q'" "mset (pending_list (CurrentCursor q') (wheel q'))
     = add_mset item (mset (pending_list (CurrentCursor q) (wheel q)))"
proof -
  let ?bs = "wheel q" and ?c = "CurrentCursor q"
  have w: "wheel_ok ?bs" and n: "2 \<le> length ?bs" and c: "?c \<le> length (Items (hd ?bs))"
    and srt: "sorted (map Deadline (drop ?c (Items (hd ?bs))))"
    and sz: "QSize q = length (pending_list ?c ?bs)"
    using ok by (auto simp: tq_ok_def)
  have ne: "?bs \<noteq> []" using n by (metis le_zero_eq list.size(3) zero_neq_numeral)
  then have hd0: "hd ?bs = ?bs ! 0" by (rule hd_conv_nth)
  have j: "j < length ?bs" using f by (simp add: fits_def)
  note bj = wheel_okD(2) [OF w j] and fields = AddBack_fields AddSorted_fields
  have b'm: "mset (Items b') = add_mset item (mset (Items (?bs ! j)))"
    and b'b: "MinDeadline b' = min (MinDeadline (?bs ! j)) (Deadline item)"
      "MaxDeadline b' = max (MaxDeadline (?bs ! j)) (Deadline item)"
    by (simp_all add: b'_def fields del: AddBack_fields(4))
  have b'ok: "bounds_ok b'" by (rule bounds_ok_insert [OF bj rng b'm b'b])
  have w': "wheel q' = ?bs[j := b']" using wheel_update [of j q "QSize q + 1" b'] j by (simp add: q'_def)
  have "IsSorted (?bs ! j) \<longrightarrow> sorted (map Deadline (Items (?bs ! j)))" if "0 < j"
  proof -
    have "?bs ! j = tl ?bs ! (j - 1)" using that j by (simp add: nth_tl)
    then have "?bs ! j \<in> set (tl ?bs)" using that j by auto
    then show ?thesis using w by (simp add: wheel_ok_def)
  qed
  then have "wheel_ok (?bs[j := b'])"
    using w f b'ok b'm b'b AddBack_sorted [of "?bs ! j" item]
    by (intro wheel_ok_insert) (auto simp: b'_def)
  moreover have cur: "?c \<le> length (Items (hd (?bs[j := b'])))
     \<and> sorted (map Deadline (drop ?c (Items (hd (?bs[j := b'])))))
     \<and> mset (pending_list ?c (?bs[j := b'])) = add_mset item (mset (pending_list ?c ?bs))"
  proof (cases "j = 0")
    case True
    then show ?thesis
      using AddSorted_sorted [OF bj, of ?c item] c srt hd0 ne
      by (auto simp: hd_tl_update pending_list_def b'_def)
  next
    case False
    then have "?bs ! j = tl ?bs ! (j - 1)" "j - 1 < length (tl ?bs)" using j by (auto simp: nth_tl)
    with False show ?thesis
      using mset_concat_update [of "j - 1" "tl ?bs" b' item] b'm c srt ne
      by (simp add: hd_tl_update pending_list_def)
  qed
  ultimately show "tq_ok q'" "mset (pending_list (CurrentCursor q') (wheel q'))
     = add_mset item (mset (pending_list ?c ?bs))"
    using ok w' sz by (auto simp: tq_ok_def q'_def dest: arg_cong [where f = size])
qed

lemma TQ_Add_holds:
  assumes "tq_holds q M" "add_delay now delay = Inr d"
  shows "\<exists>q'. TQ_Add delay v now q = Inr q' \<and> tq_holds q' (add_mset \<lparr>Deadline = d, Value = v\<rparr> M)"
proof -
  let ?item = "\<lparr>Deadline = d, Value = v\<rparr>" and ?n = "length (TBuckets q)"
  have ok: "tq_ok q" and M: "M = mset (pending_list (CurrentCursor q) (wheel q))"
    using assms(1) by (auto simp: tq_holds_def)
  have rng: "in_time_range d" using assms(2) by (auto simp: add_delay_def split: if_splits)
  then obtain j where j: "ComputeBucket q d = (CurrentBucket q + j) mod ?n" "fits (wheel q) d j"
    using ComputeBucket_fits [OF ok, of d] by (auto simp: in_time_range_def)
  have jn: "j < ?n" and c: "CurrentBucket q < ?n" using j(2) ok by (auto simp: fits_def tq_ok_def)
  then have j0: "(CurrentBucket q + j) mod ?n = CurrentBucket q \<longleftrightarrow> j = 0"
    using mod_shift_inj [of j ?n 0 "CurrentBucket q"] by fastforce
  note ins = tq_ok_insert [OF ok, of ?item j]
  show ?thesis
    using ins j rng j0 c wheel_nth [OF jn] M assms(2)
    by (auto simp: TQ_Add_def with_current_def Let_def tq_holds_def)
qed


lemma tq_current:
  assumes "tq_ok q"
  shows "TBuckets q ! CurrentBucket q = hd (wheel q)" "wheel q \<noteq> []"
    "wheel q = hd (wheel q) # hd (tl (wheel q)) # tl (tl (wheel q))"
proof -
  have n: "2 \<le> length (wheel q)" "CurrentBucket q < length (TBuckets q)" using assms by (auto simp: tq_ok_def)
  then have "0 < length (TBuckets q)" by linarith
  then show "TBuckets q ! CurrentBucket q = hd (wheel q)"
    using n wheel_nth [of 0 q] by (metis add.right_neutral hd_conv_nth length_greater_0_conv length_wheel mod_less)
  show "wheel q = hd (wheel q) # hd (tl (wheel q)) # tl (tl (wheel q))"
    using n(1) by (cases "wheel q"; cases "tl (wheel q)") auto
  then show "wheel q \<noteq> []" by auto
qed

lemma wheel_Advance:
  assumes "tq_ok q"
  shows "wheel (Advance srt q) = Bucket_Sort srt (hd (tl (wheel q))) # tl (tl (wheel q))
     @ [Bucket_Clear (hd (wheel q))]"
proof -
  let ?c = "CurrentBucket q" and ?n = "length (TBuckets q)" and ?b0 = "Bucket_Clear (hd (wheel q))"
  let ?bs = "(TBuckets q)[?c := ?b0]"
  have n: "2 \<le> ?n" "?c < ?n" using assms by (auto simp: tq_ok_def)
  obtain b0 b1 rest where w: "wheel q = b0 # b1 # rest" using tq_current(3) [OF assms] by metis
  have "rotate ?c ?bs = (wheel q)[0 := ?b0]"
    using rotate_list_update [of 0 "TBuckets q" ?c ?b0] n unfolding wheel_def
    by (metis add.right_neutral less_zeroE mod_less not_gr_zero)
  then have r1: "rotate (Suc ?c) ?bs = (b1 # rest) @ [?b0]" using w by simp
  have r: "rotate ((?c + 1) mod ?n) ?bs = (b1 # rest) @ [?b0]"
    using r1 rotate_conv_mod [of "Suc ?c" ?bs] by simp
  let ?c' = "(?c + 1) mod ?n"
  have c': "?c' < ?n" using n by (intro mod_less_divisor) linarith
  then have "?bs ! ?c' = rotate ?c' ?bs ! 0" using n by (subst nth_rotate) auto
  also have "\<dots> = b1" by (simp only: r) simp
  finally have b1: "?bs ! ?c' = b1" .
  have "rotate ?c' (?bs[(?c' + 0) mod length ?bs := Bucket_Sort srt b1]) = (rotate ?c' ?bs)[0 := Bucket_Sort srt b1]"
    by (rule rotate_list_update) (use n in auto)
  then have "rotate ?c' (?bs[?c' := Bucket_Sort srt b1]) = Bucket_Sort srt b1 # rest @ [?b0]"
    using c' by (simp only: r) simp
  then show ?thesis
    using b1 w tq_current(1) [OF assms] by (simp add: wheel_def Advance_def Let_def)
qed

lemma wheel_ok_simps:
  "wheel_ok [b] \<longleftrightarrow> bounds_ok b"
  "wheel_ok (b # c # bs) \<longleftrightarrow> bounds_ok b \<and> (IsSorted c \<longrightarrow> sorted (map Deadline (Items c)))
     \<and> (Items c \<noteq> [] \<longrightarrow> Items b \<noteq> []) \<and> MaxDeadline b \<le> MinDeadline c \<and> wheel_ok (c # bs)"
proof -
  have all: "(\<forall>j. Suc j < length (b # c # bs) \<longrightarrow> P ((b # c # bs) ! j) ((b # c # bs) ! Suc j))
     \<longleftrightarrow> P b c \<and> (\<forall>j. Suc j < length (c # bs) \<longrightarrow> P ((c # bs) ! j) ((c # bs) ! Suc j))" for P
    by (auto simp: nth_Cons split: nat.splits)
  show "wheel_ok (b # c # bs) \<longleftrightarrow> bounds_ok b \<and> (IsSorted c \<longrightarrow> sorted (map Deadline (Items c)))
     \<and> (Items c \<noteq> [] \<longrightarrow> Items b \<noteq> []) \<and> MaxDeadline b \<le> MinDeadline c \<and> wheel_ok (c # bs)"
    using all [of "\<lambda>x y. Items y \<noteq> [] \<longrightarrow> Items x \<noteq> []"]
      all [of "\<lambda>x y. MaxDeadline x \<le> MinDeadline y"]
    unfolding wheel_ok_def by auto
qed (simp add: wheel_ok_def)

lemma wheel_ok_snoc_empty:
  "wheel_ok bs \<Longrightarrow> bs \<noteq> [] \<Longrightarrow> wheel_ok (bs @ [Bucket_Clear b0])"
proof (induction bs rule: induct_list012)
  case (2 b)
  then have "MaxDeadline b \<le> time_max"
    using time_min_le_max by (auto simp: wheel_ok_simps bounds_ok_def in_time_range_def)
  with 2 show ?case by (simp add: wheel_ok_simps bounds_okD(6) [OF bounds_ok_Clear(1)])
qed (auto simp: wheel_ok_simps)

text \<open>The item at the cursor is a least pending one; stepping over it removes it.\<close>

lemma pending_least:
  assumes ok: "tq_ok q" and c: "CurrentCursor q < length (Items (hd (wheel q)))"
  defines "it \<equiv> Items (hd (wheel q)) ! CurrentCursor q"
  shows "pending_list (CurrentCursor q) (wheel q) = it # pending_list (CurrentCursor q + 1) (wheel q)"
    "x \<in> set (pending_list (CurrentCursor q) (wheel q)) \<Longrightarrow> Deadline it \<le> Deadline x"
proof -
  let ?c = "CurrentCursor q" and ?b0 = "hd (wheel q)"
  have d: "drop ?c (Items ?b0) = it # drop (Suc ?c) (Items ?b0)"
    using c by (simp add: it_def Cons_nth_drop_Suc)
  then show "pending_list ?c (wheel q) = it # pending_list (?c + 1) (wheel q)"
    by (simp add: pending_list_def)
  have w: "wheel_ok (wheel q)" and srt: "sorted (map Deadline (drop ?c (Items ?b0)))"
    using ok by (auto simp: tq_ok_def)
  assume x: "x \<in> set (pending_list ?c (wheel q))"
  show "Deadline it \<le> Deadline x"
  proof (cases "x \<in> set (drop ?c (Items ?b0))")
    case True
    then show ?thesis using srt d by auto
  next
    case False
    with x obtain b where "b \<in> set (tl (wheel q))" "x \<in> set (Items b)" by (auto simp: pending_list_def)
    then obtain j where j: "j < length (tl (wheel q))" "x \<in> set (Items (tl (wheel q) ! j))"
      by (metis in_set_conv_nth)
    then have j': "Suc j < length (wheel q)" "x \<in> set (Items (wheel q ! Suc j))" by (auto simp: nth_tl)
    have h: "?b0 = wheel q ! 0" using tq_current(2) [OF ok] by (rule hd_conv_nth)
    have "Deadline it \<le> MaxDeadline (wheel q ! 0)"
      using bounds_okD(2) [OF wheel_okD(2) [OF w, of 0], of it] j'(1) c
      by (metis h it_def length_greater_0_conv list.size(3) not_less_zero nth_mem)
    also have "\<dots> \<le> MinDeadline (wheel q ! Suc j)" using wheel_ordered [OF w _ j'(1), of 0] by simp
    also have "\<dots> \<le> Deadline x" by (rule bounds_okD(1) [OF wheel_okD(2) [OF w j'(1)] j'(2)])
    finally show ?thesis .
  qed
qed

lemma take_front_holds:
  assumes h: "tq_holds q M" and c: "CurrentCursor q < length (Items (hd (wheel q)))"
  defines "it \<equiv> Items (hd (wheel q)) ! CurrentCursor q"
  shows "it \<in># M" "\<forall>x \<in># M. Deadline it \<le> Deadline x"
    "tq_holds (q\<lparr>QSize := QSize q - 1, CurrentCursor := CurrentCursor q + 1\<rparr>) (M - {#it#})"
proof -
  let ?q = "q\<lparr>QSize := QSize q - 1, CurrentCursor := CurrentCursor q + 1\<rparr>"
  have ok: "tq_ok q" and M: "M = mset (pending_list (CurrentCursor q) (wheel q))"
    using h by (auto simp: tq_holds_def)
  note p = pending_least [OF ok c, folded it_def]
  show "it \<in># M" using M p(1) by simp
  show "\<forall>x \<in># M. Deadline it \<le> Deadline x" using M p(2) by simp
  have "sorted (map Deadline (drop (CurrentCursor q + 1) (Items (hd (wheel q)))))"
    using ok sorted_wrt_drop [of "(\<le>)" "map Deadline (drop (CurrentCursor q) (Items (hd (wheel q))))" 1]
    by (simp add: tq_ok_def drop_map)
  then have "tq_ok ?q" using ok c p(1) by (simp add: tq_ok_def)
  then show "tq_holds ?q (M - {#it#})" using M p(1) by (simp add: tq_holds_def)
qed

text \<open>A non-empty queue whose current bucket is exhausted has items in the next bucket.\<close>

lemma next_bucket_nonempty:
  assumes ok: "tq_ok q" and ne: "QSize q \<noteq> 0"
    and ex: "length (Items (hd (wheel q))) \<le> CurrentCursor q"
  shows "Items (hd (tl (wheel q))) \<noteq> []"
proof -
  have w: "wheel_ok (wheel q)" using ok by (simp add: tq_ok_def)
  have "pending_list (CurrentCursor q) (wheel q) \<noteq> []" using ok ne by (auto simp: tq_ok_def)
  then obtain j where j: "j < length (tl (wheel q))" "Items (tl (wheel q) ! j) \<noteq> []"
    using ex by (auto simp: pending_list_def in_set_conv_nth)
  then have "Items (wheel q ! Suc j) \<noteq> []" "Suc j < length (wheel q)" by (auto simp: nth_tl)
  then have "Items (wheel q ! Suc 0) \<noteq> []" using wheel_nonempty_before [OF w, of "Suc j" "Suc 0"] by simp
  then show ?thesis using j(1) by (cases "wheel q"; cases "tl (wheel q)") auto
qed

text \<open>The laws of \<open>std::sort\<close> with the items' \<open>operator<\<close>.\<close>

locale std_sort =
  fixes srt :: "'a TItem list \<Rightarrow> 'a TItem list"
  assumes srt_perm: "mset (srt xs) = mset xs"
    and srt_sorted: "sorted (map Deadline (srt xs))"
begin

lemma Bucket_Sort_fields:
  "mset (Items (Bucket_Sort srt b)) = mset (Items b)"
  "MinDeadline (Bucket_Sort srt b) = MinDeadline b"
  "MaxDeadline (Bucket_Sort srt b) = MaxDeadline b"
  by (simp_all add: Bucket_Sort_def srt_perm)

lemma Bucket_Sort_items:
  "set (Items (Bucket_Sort srt b)) = set (Items b)"
  "length (Items (Bucket_Sort srt b)) = length (Items b)"
  "Items (Bucket_Sort srt b) = [] \<longleftrightarrow> Items b = []"
  using Bucket_Sort_fields(1) [of b] by (metis set_mset_mset, metis size_mset, metis mset_zero_iff)

lemma Bucket_Sort_ok:
  assumes "bounds_ok b" "IsSorted b \<longrightarrow> sorted (map Deadline (Items b))"
  shows "bounds_ok (Bucket_Sort srt b)" "sorted (map Deadline (Items (Bucket_Sort srt b)))"
  using assms Bucket_Sort_fields [of b] Bucket_Sort_items [of b]
  by (simp_all add: bounds_ok_def) (simp add: Bucket_Sort_def srt_sorted)

text \<open>Advancing past an exhausted bucket keeps the pending items and exposes the least one.\<close>

lemma Advance_ok:
  assumes ok: "tq_ok q" and ex: "length (Items (hd (wheel q))) \<le> CurrentCursor q"
  shows "tq_ok (Advance srt q)"
    "mset (pending_list (CurrentCursor (Advance srt q)) (wheel (Advance srt q)))
     = mset (pending_list (CurrentCursor q) (wheel q))"
proof -
  let ?q = "Advance srt q"
  obtain b0 b1 rest where w: "wheel q = b0 # b1 # rest" using tq_current(3) [OF ok] by metis
  let ?b1 = "Bucket_Sort srt b1" and ?b0 = "Bucket_Clear b0"
  have w': "wheel ?q = ?b1 # rest @ [?b0]" using wheel_Advance [OF ok] w by simp
  have wok: "wheel_ok (b0 # b1 # rest)" using ok w by (simp add: tq_ok_def)
  then have b1: "bounds_ok b1" "IsSorted b1 \<longrightarrow> sorted (map Deadline (Items b1))"
    by (auto simp: wheel_ok_def)
  note s1 = Bucket_Sort_ok [OF b1]
  have "wheel_ok (?b1 # rest)"
    using wok s1 Bucket_Sort_fields [of b1] Bucket_Sort_items [of b1]
    by (cases rest) (auto simp: wheel_ok_simps)
  then have "wheel_ok ((?b1 # rest) @ [?b0])" by (rule wheel_ok_snoc_empty) simp
  moreover have pend: "mset (pending_list (CurrentCursor ?q) (wheel ?q)) = mset (pending_list (CurrentCursor q) (wheel q))"
    using ex Bucket_Sort_fields(1) [of b1]
    by (simp add: w w' pending_list_def) (simp add: Advance_def Let_def)
  moreover have "length (TBuckets ?q) = length (TBuckets q)" "CurrentCursor ?q = 0"
    "QSize ?q = QSize q" "BucketSoftLimit ?q = BucketSoftLimit q"
    "CurrentBucket ?q = (CurrentBucket q + 1) mod length (TBuckets q)"
    by (simp_all add: Advance_def Let_def)
  moreover have "QSize q = size (mset (pending_list (CurrentCursor q) (wheel q)))" "2 \<le> length (TBuckets q)"
    "1 \<le> BucketSoftLimit q"
    using ok by (auto simp: tq_ok_def)
  moreover have "(CurrentBucket q + 1) mod length (TBuckets q) < length (TBuckets q)"
    using \<open>2 \<le> length (TBuckets q)\<close> by (intro mod_less_divisor) linarith
  moreover have "QSize q = length (pending_list (CurrentCursor ?q) (wheel ?q))"
    using pend \<open>QSize q = _\<close> by (metis size_mset)
  ultimately show "tq_ok ?q" using s1(2) by (simp add: tq_ok_def w')
  show "mset (pending_list (CurrentCursor ?q) (wheel ?q)) = mset (pending_list (CurrentCursor q) (wheel q))"
    by (rule pend)
qed

lemma PopFront_holds:
  assumes h: "tq_holds q M" and ne: "M \<noteq> {#}"
  shows "\<exists>it q'. PopFront srt q = Inr (it, q') \<and> it \<in># M \<and> (\<forall>x \<in># M. Deadline it \<le> Deadline x)
     \<and> tq_holds q' (M - {#it#})"
proof -
  have ok: "tq_ok q" and M: "M = mset (pending_list (CurrentCursor q) (wheel q))"
    using h by (auto simp: tq_holds_def)
  have sz: "QSize q \<noteq> 0" using ne M ok by (auto simp: tq_ok_def)
  note cur = tq_current(1) [OF ok]
  have cb: "CurrentBucket q < length (TBuckets q)" using ok by (simp add: tq_ok_def)
  show ?thesis
  proof (cases "CurrentCursor q < length (Items (hd (wheel q)))")
    case True
    with take_front_holds [OF h True] sz cur cb show ?thesis
      by (auto simp: PopFront_def with_current_def Let_def)
  next
    case False
    let ?q1 = "Advance srt q"
    have ex: "length (Items (hd (wheel q))) \<le> CurrentCursor q" using False by simp
    note adv = Advance_ok [OF ok ex]
    have h1: "tq_holds ?q1 M" using adv M by (simp add: tq_holds_def)
    have "Items (hd (wheel ?q1)) \<noteq> []"
      using next_bucket_nonempty [OF ok sz ex] wheel_Advance [OF ok] Bucket_Sort_items(3) by simp
    moreover have c0: "CurrentCursor ?q1 = 0" by (simp add: Advance_def Let_def)
    ultimately have c1: "CurrentCursor ?q1 < length (Items (hd (wheel ?q1)))" by simp
    have eq: "Advance srt (q\<lparr>QSize := QSize q - 1\<rparr>) = ?q1\<lparr>QSize := QSize ?q1 - 1\<rparr>"
      by (simp add: Advance_def Let_def)
    show ?thesis
      using take_front_holds [OF h1 c1] sz cur cb False eq tq_current(1) [OF adv(1)] c0 c1
      by (auto simp: PopFront_def with_current_def Let_def)
  qed
qed

end

section \<open>The timer contract\<close>

text \<open>Popping \<open>n\<close> items.\<close>

fun drain :: "('q \<Rightarrow> ('i \<times> 'q) result) \<Rightarrow> nat \<Rightarrow> 'q \<Rightarrow> ('i list \<times> 'q) result" where
  "drain pop 0 q = Inr ([], q)"
| "drain pop (Suc n) q = rbind (pop q) (\<lambda>(x, q'). rbind (drain pop n q') (\<lambda>(xs, q''). Inr (x # xs, q'')))"

locale min_queue =
  fixes holds :: "'q \<Rightarrow> 'i multiset \<Rightarrow> bool"
    and key :: "'i \<Rightarrow> int"
    and pop :: "'q \<Rightarrow> ('i \<times> 'q) result"
  assumes pop_least: "holds q M \<Longrightarrow> M \<noteq> {#} \<Longrightarrow> \<exists>x q'. pop q = Inr (x, q') \<and> x \<in># M
      \<and> (\<forall>y \<in># M. key x \<le> key y) \<and> holds q' (M - {#x#})"
begin

lemma drain_sorts:
  "holds q M \<Longrightarrow> \<exists>xs q'. drain pop (size M) q = Inr (xs, q') \<and> mset xs = M \<and> sorted (map key xs)
     \<and> holds q' {#}"
proof (induction "size M" arbitrary: q M)
  case 0
  then show ?case by auto
next
  case (Suc n)
  then have "M \<noteq> {#}" by auto
  from pop_least [OF Suc.prems this] obtain x q1 where
    x: "pop q = Inr (x, q1)" "x \<in># M" "\<forall>y \<in># M. key x \<le> key y" "holds q1 (M - {#x#})" by blast
  have sz: "n = size (M - {#x#})" using Suc.hyps(2) x(2) by (simp add: size_Diff_singleton)
  from Suc.hyps(1) [OF sz x(4)] obtain xs q' where
    xs: "drain pop n q1 = Inr (xs, q')" "mset xs = M - {#x#}" "sorted (map key xs)" "holds q' {#}"
    using sz by auto
  then have "mset (x # xs) = M" using x(2) by simp
  moreover have "\<forall>y \<in> set xs. key x \<le> key y"
    using x(3) xs(2) by (metis in_diffD set_mset_mset)
  ultimately show ?case using x(1) xs Suc.hyps(2) [symmetric] by auto
qed

end

sublocale std_sort \<subseteq> pq: min_queue tq_holds Deadline "PopFront srt"
  by unfold_locales (rule PopFront_holds)

context std_sort
begin

lemmas tq_drain = pq.drain_sorts

end

interpretation sort_deadline: std_sort "sort_key Deadline"
  by unfold_locales simp_all

section \<open>Construction and resizing\<close>

lemma wheel_ok_only_head:
  assumes "bounds_ok b" "\<forall>x \<in> set bs. bounds_ok x \<and> Items x = []"
  shows "wheel_ok (b # bs)"
proof -
  have "MaxDeadline b \<le> time_max"
    using assms(1) time_min_le_max by (auto simp: bounds_ok_def in_time_range_def)
  with assms show ?thesis
  proof (induction bs arbitrary: b)
    case (Cons c cs)
    then have "MinDeadline c = time_max" "MaxDeadline c \<le> time_max"
      using bounds_okD(6,7) [of c] time_min_le_max by auto
    with Cons show ?case by (simp add: wheel_ok_simps)
  qed (simp add: wheel_ok_simps)
qed

lemma TQ_Resize_holds:
  assumes ok: "tq_holds q {#}" and c: "CurrentBucket q < max 2 n"
  shows "\<exists>q'. TQ_Resize n l q = Inr q' \<and> tq_holds q' {#}"
proof -
  let ?n = "max 2 n"
  let ?bs = "vec_resize new_TBucket ?n (TBuckets q)"
  let ?q = "q\<lparr>TBuckets := ?bs, BucketSoftLimit := max 1 l\<rparr>"
  have tq: "tq_ok q" and p: "pending_list (CurrentCursor q) (wheel q) = []" using ok by (auto simp: tq_holds_def)
  have w: "wheel_ok (wheel q)" and cb: "CurrentBucket q < length (TBuckets q)" using tq by (auto simp: tq_ok_def)
  note cur = tq_current [OF tq]
  have len: "length (wheel ?q) = ?n" by simp
  have empty: "Items b = [] \<and> bounds_ok b" if b: "b \<in> set (tl (wheel ?q))" for b
  proof -
    obtain j where j: "Suc j < ?n" "b = wheel ?q ! Suc j"
      using b len unfolding in_set_tl by metis
    let ?i = "(CurrentBucket q + Suc j) mod ?n"
    have i: "?i < ?n" "?i \<noteq> CurrentBucket q"
      using mod_shift_inj [of "Suc j" ?n 0 "CurrentBucket q"] j(1) c by auto
    have bi: "b = ?bs ! ?i" using j wheel_nth [of "Suc j" ?q] by simp
    show ?thesis
    proof (cases "?i < length (TBuckets q)")
      case True
      then obtain j' where j': "j' < length (TBuckets q)" "?i = (CurrentBucket q + j') mod length (TBuckets q)"
        using wheel_index [OF cb] by blast
      then have "b = wheel q ! j'" using bi True i by (simp add: nth_vec_resize wheel_nth)
      moreover have "j' \<noteq> 0" using j' i cb by (metis add.right_neutral mod_less)
      ultimately have "b \<in> set (tl (wheel q))"
        using j'(1) by (auto simp: in_set_tl intro!: exI [of _ "j' - 1"])
      then show ?thesis
        using p w list.set_sel(2) [OF cur(2)] by (auto simp: pending_list_def wheel_ok_def)
    next
      case False
      then have "b = new_TBucket" using bi i by (simp add: nth_vec_resize)
      then show ?thesis by (simp add: new_TBucket_def [THEN arg_cong [where f = Items]])
    qed
  qed
  have ne: "wheel ?q \<noteq> []" using len by (metis list.size(3) max_def not_numeral_le_zero order_refl)
  have hd: "hd (wheel ?q) = hd (wheel q)"
  proof -
    have "hd (wheel ?q) = ?bs ! CurrentBucket q"
      using wheel_nth [of 0 ?q] c ne by (simp add: hd_conv_nth)
    then show ?thesis using cb c cur(1) by (simp add: nth_vec_resize)
  qed
  have "wheel ?q = hd (wheel q) # tl (wheel ?q)" using hd ne by (metis list.collapse)
  moreover have "bounds_ok (hd (wheel q))" using w cur(2) by (simp add: wheel_ok_def)
  ultimately have "wheel_ok (wheel ?q)" using wheel_ok_only_head [of "hd (wheel q)" "tl (wheel ?q)"] empty by metis
  moreover have "pending_list (CurrentCursor q) (wheel ?q) = []"
    using empty p hd by (auto simp: pending_list_def)
  ultimately have "tq_ok ?q" using tq hd c p by (simp add: tq_ok_def)
  then show ?thesis
    using \<open>pending_list (CurrentCursor q) (wheel ?q) = []\<close> tq p
    by (auto simp: TQ_Resize_def tq_holds_def Let_def tq_ok_def)
qed

lemma new_TBinnedTimerQueue_holds:
  fixes q :: "'a TBinnedTimerQueue"
  assumes "new_TBinnedTimerQueue n l = Inr q"
  shows "tq_holds q {#}"
proof -
  let ?n = "max 2 n"
  let ?q = "\<lparr>TBuckets = replicate ?n (new_TBucket :: 'a TBucket), BucketSoftLimit = max 1 l, QSize = 0,
     CurrentBucket = 0, CurrentCursor = 0\<rparr>"
  have "?n = Suc (Suc (?n - 2))" by linarith
  then obtain m where m: "?n = Suc (Suc m)" by blast
  have w: "wheel ?q = new_TBucket # replicate (Suc m) new_TBucket" using m by (simp add: wheel_def)
  have "wheel_ok (wheel ?q)" unfolding w by (rule wheel_ok_only_head) (auto simp: new_TBucket_def bounds_ok_def)
  moreover have "pending_list 0 (wheel ?q) = []"
    unfolding w by (simp add: pending_list_def new_TBucket_def [THEN arg_cong [where f = Items]])
  moreover have "Items (hd (wheel ?q)) = []"
    unfolding w by (simp add: new_TBucket_def [THEN arg_cong [where f = Items]])
  moreover have "0 < ?n" using m by simp
  ultimately have "tq_holds ?q {#}" by (simp add: tq_holds_def tq_ok_def w [symmetric])
  moreover have "q = ?q"
    using assms by (simp add: new_TBinnedTimerQueue_def TQ_Resize_def Let_def vec_resize_def)
  ultimately show ?thesis by simp
qed

text \<open>
  The queues a program can build, with the multiset of items added and not yet popped. A
  resize keeps the current bucket inside the vector.
\<close>

inductive tq_reach :: "('a TItem list \<Rightarrow> 'a TItem list) \<Rightarrow> 'a TBinnedTimerQueue \<Rightarrow> 'a TItem multiset \<Rightarrow> bool"
  for srt where
  reach_new: "new_TBinnedTimerQueue n l = Inr q \<Longrightarrow> tq_reach srt q {#}"
| reach_resize: "\<lbrakk> tq_reach srt q M; TQ_Resize n l q = Inr q'; CurrentBucket q < max 2 n \<rbrakk>
     \<Longrightarrow> tq_reach srt q' M"
| reach_add: "\<lbrakk> tq_reach srt q M; add_delay now delay = Inr d; TQ_Add delay v now q = Inr q' \<rbrakk>
     \<Longrightarrow> tq_reach srt q' (add_mset \<lparr>Deadline = d, Value = v\<rparr> M)"
| reach_pop: "\<lbrakk> tq_reach srt q M; PopFront srt q = Inr (x, q') \<rbrakk> \<Longrightarrow> tq_reach srt q' (M - {#x#})"

lemma tq_holds_size: "tq_holds q M \<Longrightarrow> QSize q = size M"
  by (simp add: tq_holds_def tq_ok_def)

lemma tq_reach_holds:
  assumes "tq_reach srt q M" "std_sort srt"
  shows "tq_holds q M"
  using assms
proof (induction rule: tq_reach.induct)
  case (reach_new n l q)
  then show ?case by (simp add: new_TBinnedTimerQueue_holds)
next
  case (reach_resize q M n l q')
  then have h: "tq_holds q M" by simp
  have "QSize q = 0" using reach_resize.hyps(2) by (auto simp: TQ_Resize_def split: if_splits)
  then have "M = {#}" using tq_holds_size [OF h] by simp
  then show ?case using TQ_Resize_holds [of q n l] h reach_resize by auto
next
  case (reach_add q M now delay d v q')
  then show ?case using TQ_Add_holds [of q M now delay d v] by auto
next
  case (reach_pop q M x q')
  then have h: "tq_holds q M" by simp
  have "QSize q \<noteq> 0" using reach_pop.hyps(2) by (auto simp: PopFront_def split: if_splits)
  then have "M \<noteq> {#}" using tq_holds_size [OF h] by auto
  then show ?case using std_sort.PopFront_holds [OF reach_pop.prems h] reach_pop.hyps(2) by auto
qed

section \<open>The self-check\<close>

lemma bounds_ok_exact: "bounds_ok b \<Longrightarrow> bucket_bounds_exact b"
proof (cases "Items b = []")
  case False
  assume b: "bounds_ok b"
  let ?S = "Deadline ` set (Items b)"
  have S: "finite ?S" "?S \<noteq> {}" using False by auto
  have "Min ?S \<le> time_max" "time_min \<le> Max ?S"
    using b Min_in [OF S] Max_in [OF S] unfolding bounds_ok_def in_time_range_def by auto
  then show ?thesis
    using b False S by (simp add: bounds_ok_def bucket_bounds_exact_def Min_insert Max_insert)
qed (simp add: bounds_ok_def bucket_bounds_exact_def)

lemma sum_list_rotate: "sum_list (rotate k xs) = sum_list (xs :: nat list)"
proof -
  have "sum_list (rotate k xs) = sum_list (take (k mod length xs) xs @ drop (k mod length xs) xs)"
    by (simp only: rotate_drop_take sum_list_append add.commute)
  then show ?thesis by simp
qed

lemma Validate_size:
  assumes ok: "tq_ok q"
  shows "(\<Sum>i \<leftarrow> [0..<length (TBuckets q)]. if i = CurrentBucket q
       then length (Items (TBuckets q ! i)) - CurrentCursor q
       else length (Items (TBuckets q ! i))) = QSize q"
proof -
  let ?L = "map (\<lambda>b. length (Items b)) (TBuckets q)" and ?c = "CurrentBucket q"
  let ?v = "length (Items (TBuckets q ! ?c)) - CurrentCursor q"
  have n: "?c < length (TBuckets q)" using ok by (simp add: tq_ok_def)
  let ?f = "\<lambda>i. if i = ?c then length (Items (TBuckets q ! i)) - CurrentCursor q
       else length (Items (TBuckets q ! i))"
  have f: "map ?f [0..<length (TBuckets q)] = ?L[?c := ?v]"
    by (rule nth_equalityI) (auto simp: nth_list_update)
  have "0 < length ?L" "?c mod length ?L = ?c" using n by auto
  then have "rotate ?c (?L[?c := ?v]) = (rotate ?c ?L)[0 := ?v]"
    using rotate_list_update [of 0 ?L ?c ?v] by simp
  also have "rotate ?c ?L = map (\<lambda>b. length (Items b)) (wheel q)" by (simp add: wheel_def rotate_map)
  also have "(map (\<lambda>b. length (Items b)) (wheel q))[0 := ?v]
     = ?v # map (\<lambda>b. length (Items b)) (tl (wheel q))"
    using tq_current(2) [OF ok] by (cases "wheel q") auto
  finally have r: "rotate ?c (?L[?c := ?v]) = ?v # map (\<lambda>b. length (Items b)) (tl (wheel q))" .
  have "sum_list (map ?f [0..<length (TBuckets q)]) = sum_list (rotate ?c (?L[?c := ?v]))"
    by (simp only: f sum_list_rotate)
  also have "\<dots> = ?v + sum_list (map (\<lambda>b. length (Items b)) (tl (wheel q)))"
    by (simp only: r sum_list.Cons)
  also have "\<dots> = length (pending_list (CurrentCursor q) (wheel q))"
    using tq_current(1) [OF ok] by (simp add: pending_list_def length_concat comp_def)
  finally show ?thesis using ok by (simp add: tq_ok_def)
qed

lemma tq_ok_Validate:
  assumes ok: "tq_ok q"
  shows "Validate q"
proof -
  let ?n = "length (TBuckets q)" and ?c = "CurrentCursor q"
  have w: "wheel_ok (wheel q)" and srt: "sorted (map Deadline (drop ?c (Items (hd (wheel q)))))"
    using ok by (auto simp: tq_ok_def)
  have "\<not> Deadline (Items (hd (wheel q)) ! i) < Deadline (Items (hd (wheel q)) ! (i - 1))"
    if "?c + 1 \<le> i" "i < length (Items (hd (wheel q)))" for i
    using sorted_nth_mono [OF srt, of "i - 1 - ?c" "i - ?c"] that by (simp add: not_less)
  moreover have "list_all bucket_bounds_exact (TBuckets q)"
    using w bounds_ok_exact by (auto simp: list_all_iff wheel_ok_def wheel_def)
  moreover have "MaxDeadline (TBuckets q ! ((CurrentBucket q + j) mod ?n))
     \<le> MinDeadline (TBuckets q ! (((CurrentBucket q + j) mod ?n + 1) mod ?n))" if "j < ?n - 1" for j
    using wheel_okD(3) [OF w, of j] wheel_nth [of j q] wheel_nth [of "Suc j" q] that
    by (simp add: mod_Suc_eq)
  ultimately show ?thesis
    using Validate_size [OF ok] tq_current(1) [OF ok] by (simp add: Validate_def Let_def)
qed

section \<open>Properties\<close>

text \<open>
  (C8) The timer wheel is a priority queue: in every state reachable by construction,
  \<open>Resize\<close>, \<open>Add\<close> and \<open>PopFront\<close>, popping as many times as there are pending items
  succeeds (the internal error of an empty bucket after an advance never happens) and
  returns exactly the pending items in the order of their deadlines. (A queue that has been used is resized only
  to more buckets than its current one, as \<open>tq_reach\<close> says; the program resizes fresh queues only.)
\<close>

theorem timer_pops_in_deadline_order:
  assumes "std_sort srt" "tq_reach srt q M"
  shows "\<exists>xs q'. drain (PopFront srt) (size M) q = Inr (xs, q') \<and> mset xs = M
     \<and> sorted (map Deadline xs) \<and> PopFront srt q' = Inl (RuntimeError ''Cannot pop from empty timer queue'')"
proof -
  obtain xs q' where "drain (PopFront srt) (size M) q = Inr (xs, q')" "mset xs = M"
    "sorted (map Deadline xs)" "tq_holds q' {#}"
    using std_sort.tq_drain [OF assms(1) tq_reach_holds [OF assms(2,1)]] by blast
  moreover from this(4) have "QSize q' = 0" using tq_holds_size by fastforce
  ultimately show ?thesis by (auto simp: PopFront_def)
qed

lemma std_sort_key: "std_sort (sort_key Deadline)"
  by (rule sort_deadline.std_sort_axioms)

text \<open>
  A concrete queue for the witnesses: two buckets of soft limit one; the deadlines 1000,
  then 10000 and 5000 (nanoseconds) into the second bucket, then the first one popped.
\<close>

definition sample_item :: "int \<Rightarrow> nat TItem" where
  "sample_item d = \<lparr>Deadline = d, Value = 0\<rparr>"

definition sample_tq :: "nat TBinnedTimerQueue" where
  "sample_tq = \<lparr>TBuckets =
       [\<lparr>Items = [sample_item 1000], MinDeadline = 1000, MaxDeadline = 1000, IsSorted = True\<rparr>,
        \<lparr>Items = [sample_item 10000, sample_item 5000], MinDeadline = 5000, MaxDeadline = 10000,
          IsSorted = False\<rparr>],
     BucketSoftLimit = 1, QSize = 2, CurrentBucket = 0, CurrentCursor = 1\<rparr>"

lemma sample_tq_reach: "tq_reach srt sample_tq {#sample_item 10000, sample_item 5000#}"
proof -
  let ?b0 = "\<lparr>Items = [sample_item 1000], MinDeadline = 1000, MaxDeadline = 1000, IsSorted = True\<rparr>"
  let ?b1 = "\<lparr>Items = [sample_item 10000], MinDeadline = 10000, MaxDeadline = 10000, IsSorted = True\<rparr>"
  let ?q = "\<lambda>b0 b1 s. \<lparr>TBuckets = [b0, b1], BucketSoftLimit = 1, QSize = s, CurrentBucket = 0, CurrentCursor = 0\<rparr>"
  note defs = TQ_Add_def add_delay_def in_time_range_def time_min_def time_max_def with_current_def
    ComputeBucket_def Let_def AddSorted_def AddBack_def new_TBucket_def upt_rec sample_item_def
  have d: "add_delay 0 k = Inr (k * 1000)" if "k \<in> {1, 5, 10}" for k
    using that by (auto simp: defs)
  have "new_TBinnedTimerQueue 2 1 = Inr (?q new_TBucket new_TBucket 0)"
    by (simp add: new_TBinnedTimerQueue_def TQ_Resize_def vec_resize_def numeral_2_eq_2)
  then have "tq_reach srt (?q new_TBucket new_TBucket 0) {#}" by (rule reach_new)
  moreover have "TQ_Add 1 0 0 (?q new_TBucket new_TBucket 0) = Inr (?q ?b0 new_TBucket 1)"
    by (simp add: defs)
  ultimately have "tq_reach srt (?q ?b0 new_TBucket 1) {#sample_item 1000#}"
    using reach_add [OF _ d [of 1]] by (force simp: sample_item_def)
  moreover have "TQ_Add 10 0 0 (?q ?b0 new_TBucket 1) = Inr (?q ?b0 ?b1 2)"
    by (simp add: defs)
  ultimately have "tq_reach srt (?q ?b0 ?b1 2) {#sample_item 10000, sample_item 1000#}"
    using reach_add [OF _ d [of 10]] by (force simp: sample_item_def)
  moreover have "TQ_Add 5 0 0 (?q ?b0 ?b1 2) = Inr (sample_tq\<lparr>QSize := 3, CurrentCursor := 0\<rparr>)"
    by (simp add: defs sample_tq_def)
  ultimately have "tq_reach srt (sample_tq\<lparr>QSize := 3, CurrentCursor := 0\<rparr>)
     {#sample_item 5000, sample_item 10000, sample_item 1000#}"
    using reach_add [OF _ d [of 5]] by (force simp: sample_item_def)
  moreover have "PopFront srt (sample_tq\<lparr>QSize := 3, CurrentCursor := 0\<rparr>) = Inr (sample_item 1000, sample_tq)"
    by (simp add: PopFront_def sample_tq_def with_current_def Let_def)
  ultimately have "tq_reach srt sample_tq
     ({#sample_item 5000, sample_item 10000, sample_item 1000#} - {#sample_item 1000#})"
    by (rule reach_pop)
  then show ?thesis by (simp add: add_mset_commute sample_item_def)
qed

theorem timer_pops_in_deadline_order_witness:
  "\<exists>xs q'. drain (PopFront (sort_key Deadline)) 2 sample_tq = Inr (xs, q')
     \<and> mset xs = {#sample_item 10000, sample_item 5000#} \<and> sorted (map Deadline xs)
     \<and> PopFront (sort_key Deadline) q' = Inl (RuntimeError ''Cannot pop from empty timer queue'')"
  using timer_pops_in_deadline_order [OF std_sort_key sample_tq_reach] by (simp add: numeral_2_eq_2)

text \<open>
  The class's own consistency check \<open>Validate\<close> holds in every reachable state: the
  part behind the cursor is sorted, every bucket's bounds are exact, consecutive buckets
  are ordered and the sizes add up.
\<close>

theorem timer_always_valid:
  assumes "std_sort srt" "tq_reach srt q M"
  shows "Validate q \<and> QSize q = size M"
  using tq_reach_holds [OF assms(2,1)] tq_holds_size [of q M] tq_ok_Validate [of q]
  by (auto simp: tq_holds_def)

theorem timer_always_valid_witness: "Validate sample_tq \<and> QSize sample_tq = size {#sample_item 10000, sample_item 5000#}"
  by (rule timer_always_valid [OF std_sort_key sample_tq_reach])

lemma GetNextDeadline_holds:
  assumes h: "tq_holds q M" and ne: "M \<noteq> {#}"
  shows "\<exists>x \<in># M. GetNextDeadline q = Inr (Deadline x)
      \<and> (CurrentCursor q < length (Items (TBuckets q ! CurrentBucket q)) \<longrightarrow> (\<forall>y \<in># M. Deadline x \<le> Deadline y))"
proof -
  have ok: "tq_ok q" and M: "M = mset (pending_list (CurrentCursor q) (wheel q))"
    using h by (auto simp: tq_holds_def)
  have sz: "QSize q \<noteq> 0" using tq_holds_size [OF h] ne by auto
  have cb: "CurrentBucket q < length (TBuckets q)" using ok by (simp add: tq_ok_def)
  note cur = tq_current [OF ok]
  show ?thesis
  proof (cases "CurrentCursor q < length (Items (hd (wheel q)))")
    case True
    then show ?thesis
      using take_front_holds(1,2) [OF h True] sz cb cur(1)
      by (auto simp: GetNextDeadline_def with_current_def Let_def)
  next
    case False
    let ?b1 = "hd (tl (wheel q))"
    have ne: "Items ?b1 \<noteq> []" using next_bucket_nonempty [OF ok sz] False by simp
    have "1 < length (TBuckets q)" using ok by (simp add: tq_ok_def)
    then have "TBuckets q ! ((CurrentBucket q + 1) mod length (TBuckets q)) = wheel q ! 1"
      by (simp add: wheel_nth)
    also have "\<dots> = ?b1" by (subst cur(3)) simp
    finally have nd: "GetNextDeadline q = Inr (Deadline (Items ?b1 ! 0))"
      using ne sz cb False cur(1) by (simp add: GetNextDeadline_def with_current_def Let_def)
    have "?b1 \<in> set (tl (wheel q))" using cur(3) by (metis list.sel(3) list.set_intros(1))
    moreover have "Items ?b1 ! 0 \<in> set (Items ?b1)" using ne by (intro nth_mem) simp
    ultimately have "Items ?b1 ! 0 \<in># M" unfolding M pending_list_def by auto
    then show ?thesis using nd False cur(1) by auto
  qed
qed

text \<open>
  \<open>GetNextDeadline\<close> of a non-empty queue reports the deadline of some pending item,
  and the earliest one while the current bucket is not exhausted.
\<close>

theorem next_deadline_pending:
  assumes "std_sort srt" "tq_reach srt q M" "M \<noteq> {#}"
  shows "\<exists>x \<in># M. GetNextDeadline q = Inr (Deadline x)
      \<and> (CurrentCursor q < length (Items (TBuckets q ! CurrentBucket q)) \<longrightarrow> (\<forall>y \<in># M. Deadline x \<le> Deadline y))"
  by (rule GetNextDeadline_holds [OF tq_reach_holds [OF assms(2,1)] assms(3)])

theorem next_deadline_pending_witness:
  "\<exists>x \<in># {#sample_item 10000, sample_item 5000#}. GetNextDeadline sample_tq = Inr (Deadline x)"
  using next_deadline_pending [OF std_sort_key sample_tq_reach] by auto

text \<open>
  \<open>GetNextDeadline\<close> can report too late a time: a reachable queue exists in which it
  returns 10000 ns although the next item \<open>PopFront\<close> returns is due at 5000 ns, because it
  reads the first item of the next bucket before that bucket has been sorted.
\<close>

theorem next_deadline_too_late:
  "\<exists>(q :: nat TBinnedTimerQueue) M it q'. tq_reach (sort_key Deadline) q M
     \<and> GetNextDeadline q = Inr 10000 \<and> PopFront (sort_key Deadline) q = Inr (it, q') \<and> Deadline it = 5000"
proof -
  have "GetNextDeadline sample_tq = Inr 10000"
    by (simp add: GetNextDeadline_def sample_tq_def with_current_def sample_item_def)
  moreover obtain it q' where "PopFront (sort_key Deadline) sample_tq = Inr (it, q')"
    "\<forall>x \<in># {#sample_item 10000, sample_item 5000#}. Deadline it \<le> Deadline x"
    "it \<in># {#sample_item 10000, sample_item 5000#}"
    using sort_deadline.PopFront_holds [OF tq_reach_holds [OF sample_tq_reach std_sort_key]] by auto
  moreover from this(2,3) have "Deadline it = 5000" by (auto simp: sample_item_def)
  ultimately show ?thesis using sample_tq_reach by blast
qed

end
