(* ===== verification/TaskQueue.thy ===== *)
theory TaskQueue
  imports SpscQueue TimerQueue Histogram
begin

text \<open>
  The coroutine scheduler (\<open>src/src/task_queue.h\<close>, \<open>src/src/task_queue.cpp\<close>) on top of the timer wheel and the circular
  queues: every operation of \<open>TTaskQueue\<close> as a function, and the threads of \<open>RunThread\<close> with the coroutines they resume as
  a step relation. A coroutine is the number of its terminal, which is also its thread hint; it is
  seen through the operations it calls. Null and finished handles are never queued, so the tests for them
  are not repeated. The atomic counter is a number: it never gets near \<open>2\<^sup>6\<^sup>4\<close>.
\<close>

section \<open>State\<close>

text \<open>\<open>THandleWithTs\<close>: the handle and the time of its queueing.\<close>

type_synonym handle_ts = "nat \<times> int"

record TPerThreadContext =
  SleepingTasks :: "nat TBinnedTimerQueue"
  ReadyTasksInternal :: "handle_ts TSpscCircularQueue"
  InflightWaitingTasksInternal :: "handle_ts TSpscCircularQueue"
  ReadyTasksExternal :: "handle_ts TSpscCircularQueue"

record TTaskQueue =
  MaxRunningInternal :: nat
  RunningInternalCount :: nat
  ThreadsStop :: bool
  WakeupAll :: bool
  PerThreadContext :: "TPerThreadContext list"

definition new_TPerThreadContext :: "nat \<Rightarrow> nat \<Rightarrow> TPerThreadContext result" where
  "new_TPerThreadContext maxReadyInternal maxReadyExternal =
     (let timerBucketSize = 100; timerBucketCount = (maxReadyInternal + timerBucketSize - 1) div timerBucketSize in
      rbind (new_TBinnedTimerQueue timerBucketCount timerBucketSize) (\<lambda>sleeping.
      rbind (Resize (0, 0) (word_of_nat maxReadyInternal) new_TSpscCircularQueue) (\<lambda>ready.
      rbind (Resize (0, 0) (word_of_nat maxReadyInternal) new_TSpscCircularQueue) (\<lambda>waiting.
      rbind (Resize (0, 0) (word_of_nat maxReadyExternal) new_TSpscCircularQueue) (\<lambda>external.
      Inr \<lparr>SleepingTasks = sleeping, ReadyTasksInternal = ready, InflightWaitingTasksInternal = waiting,
        ReadyTasksExternal = external\<rparr>)))))"

definition new_TTaskQueue :: "nat \<Rightarrow> nat \<Rightarrow> nat \<Rightarrow> nat \<Rightarrow> TTaskQueue result" where
  "new_TTaskQueue threadCount maxRunningInternal maxReadyInternal maxReadyExternal =
     (if threadCount = 0 then Inl (InvalidArgument ''Thread count must be greater than zero'')
      else rbind (new_TPerThreadContext maxReadyInternal maxReadyExternal) (\<lambda>c.
        Inr \<lparr>MaxRunningInternal = maxRunningInternal, RunningInternalCount = 0, ThreadsStop = False, WakeupAll = False,
          PerThreadContext = replicate threadCount c\<rparr>))"

section \<open>Operations\<close>

definition HandleQueueFull :: "string \<Rightarrow> 'a result" where
  "HandleQueueFull queueType = Inl (RuntimeError (''Task queue is full: '' @ queueType))"

definition context_of :: "TTaskQueue \<Rightarrow> nat \<Rightarrow> TPerThreadContext" where
  "context_of q i = PerThreadContext q ! i"

definition set_context :: "nat \<Rightarrow> TPerThreadContext \<Rightarrow> TTaskQueue \<Rightarrow> TTaskQueue" where
  "set_context i c q = q\<lparr>PerThreadContext := (PerThreadContext q)[i := c]\<rparr>"

definition hint_index :: "TTaskQueue \<Rightarrow> nat \<Rightarrow> nat" where
  "hint_index q threadHint = threadHint mod length (PerThreadContext q)"

definition WakeupAndNeverSleep :: "TTaskQueue \<Rightarrow> TTaskQueue" where
  "WakeupAndNeverSleep q = q\<lparr>WakeupAll := True\<rparr>"

text \<open>Queue a handle as ready; \<open>what\<close> names the queue in the error.\<close>

definition push_ready :: "string \<Rightarrow> handle_ts \<Rightarrow> nat \<Rightarrow> TTaskQueue \<Rightarrow> TTaskQueue result" where
  "push_ready what ht i q = (let c = context_of q i in
     rbind (TryPush ht (ReadyTasksInternal c)) (\<lambda>(ok, rq).
       if ok then Inr (set_context i (c\<lparr>ReadyTasksInternal := rq\<rparr>) q) else HandleQueueFull what))"

definition TaskReady :: "nat \<Rightarrow> nat \<Rightarrow> int \<Rightarrow> TTaskQueue \<Rightarrow> TTaskQueue result" where
  "TaskReady handle threadHint now q = push_ready ''internal'' (handle, now) (hint_index q threadHint) q"

definition AsyncSleep :: "nat \<Rightarrow> nat \<Rightarrow> int \<Rightarrow> int \<Rightarrow> TTaskQueue \<Rightarrow> TTaskQueue result" where
  "AsyncSleep handle threadHint delay now q = (let i = hint_index q threadHint; c = context_of q i in
     rbind (TQ_Add delay handle now (SleepingTasks c)) (\<lambda>t. Inr (set_context i (c\<lparr>SleepingTasks := t\<rparr>) q)))"

text \<open>
  \<open>IncInflight\<close> takes a slot with one atomic addition; if it finds the limit reached it gives the slot back with a second
  one and queues the handle. Other threads may see the counter in between.
\<close>

definition try_inflight :: "TTaskQueue \<Rightarrow> bool \<times> TTaskQueue" where
  "try_inflight q = (let prevRunningCount = RunningInternalCount q in
     (MaxRunningInternal q = 0 \<or> prevRunningCount < MaxRunningInternal q, q\<lparr>RunningInternalCount := prevRunningCount + 1\<rparr>))"

definition DecInflight :: "TTaskQueue \<Rightarrow> TTaskQueue" where
  "DecInflight q = q\<lparr>RunningInternalCount := RunningInternalCount q - 1\<rparr>"

definition wait_inflight :: "nat \<Rightarrow> nat \<Rightarrow> int \<Rightarrow> TTaskQueue \<Rightarrow> TTaskQueue result" where
  "wait_inflight handle threadHint now q = (let q1 = q\<lparr>RunningInternalCount := RunningInternalCount q - 1\<rparr>;
     i = hint_index q1 threadHint; c = context_of q1 i in
     rbind (TryPush (handle, now) (InflightWaitingTasksInternal c)) (\<lambda>(ok, wq).
       if ok then Inr (set_context i (c\<lparr>InflightWaitingTasksInternal := wq\<rparr>) q1) else HandleQueueFull ''inflight-waiting''))"

definition IncInflight :: "nat \<Rightarrow> nat \<Rightarrow> int \<Rightarrow> TTaskQueue \<Rightarrow> (bool \<times> TTaskQueue) result" where
  "IncInflight handle threadHint now q = (case try_inflight q of (ok, q1) \<Rightarrow>
     if ok then Inr (False, q1) else rbind (wait_inflight handle threadHint now q1) (\<lambda>q2. Inr (True, q2)))"

definition TaskReadyThreadSafe :: "nat \<Rightarrow> nat \<Rightarrow> int \<Rightarrow> TTaskQueue \<Rightarrow> TTaskQueue result" where
  "TaskReadyThreadSafe handle threadHint now q = (let i = hint_index q threadHint; c = context_of q i in
     rbind (TryPush (handle, now) (ReadyTasksExternal c)) (\<lambda>(ok, eq).
       if ok then Inr (set_context i (c\<lparr>ReadyTasksExternal := eq\<rparr>) q) else HandleQueueFull ''external''))"

section \<open>The loop of a thread\<close>

text \<open>The external tasks, all at once under the lock; no producer can interfere, so the capacity bounds the loop.\<close>

fun pop_all :: "nat \<Rightarrow> 'a TSpscCircularQueue \<Rightarrow> ('a list \<times> 'a TSpscCircularQueue) result" where
  "pop_all 0 q = Inr ([], q)"
| "pop_all (Suc k) q = rbind (TryPop q) (\<lambda>(x, q1). case x of None \<Rightarrow> Inr ([], q1)
     | Some y \<Rightarrow> rbind (pop_all k q1) (\<lambda>(ys, q2). Inr (y # ys, q2)))"

definition take_external :: "nat \<Rightarrow> TTaskQueue \<Rightarrow> (handle_ts list \<times> TTaskQueue) result" where
  "take_external i q = (let c = context_of q i in
     rbind (pop_all (unat (Capacity (ReadyTasksExternal c)) + 1) (ReadyTasksExternal c)) (\<lambda>(ts, eq).
       Inr (ts, set_context i (c\<lparr>ReadyTasksExternal := eq\<rparr>) q)))"

text \<open>\<open>ProcessInflightQueue\<close>: the loop's test, and its body once the slot is taken. The result of \<open>TryPush\<close> is not looked at.\<close>

definition inflight_more :: "nat \<Rightarrow> TTaskQueue \<Rightarrow> bool" where
  "inflight_more i q \<longleftrightarrow> MaxRunningInternal q \<noteq> 0 \<and> \<not> Empty (InflightWaitingTasksInternal (context_of q i))
     \<and> RunningInternalCount q < MaxRunningInternal q"

definition admit_waiting :: "nat \<Rightarrow> TTaskQueue \<Rightarrow> (nat option \<times> TTaskQueue) result" where
  "admit_waiting i q = (let c = context_of q i in
     rbind (TryPop (InflightWaitingTasksInternal c)) (\<lambda>(x, wq). case x of
         None \<Rightarrow> Inr (None, set_context i (c\<lparr>InflightWaitingTasksInternal := wq\<rparr>) q)
       | Some ht \<Rightarrow> rbind (TryPush ht (ReadyTasksInternal c)) (\<lambda>(_, rq).
           Inr (Some (fst ht), set_context i (c\<lparr>InflightWaitingTasksInternal := wq, ReadyTasksInternal := rq\<rparr>) q))))"

text \<open>\<open>ProcessSleepingTasks\<close>: the loop's test and its body.\<close>

definition sleeping_due :: "nat \<Rightarrow> int \<Rightarrow> TTaskQueue \<Rightarrow> bool result" where
  "sleeping_due i now q = (let t = SleepingTasks (context_of q i) in
     if QSize t = 0 then Inr False else rbind (GetNextDeadline t) (\<lambda>d. Inr (d \<le> now \<or> WakeupAll q)))"

definition wake_one :: "(nat TItem list \<Rightarrow> nat TItem list) \<Rightarrow> nat \<Rightarrow> int \<Rightarrow> TTaskQueue \<Rightarrow> TTaskQueue result" where
  "wake_one srt i now q = (let c = context_of q i in
     rbind (PopFront srt (SleepingTasks c)) (\<lambda>(item, t).
       push_ready ''internal (awakened)'' (Value item, now) i (set_context i (c\<lparr>SleepingTasks := t\<rparr>) q)))"

definition pop_internal :: "nat \<Rightarrow> TTaskQueue \<Rightarrow> (nat option \<times> TTaskQueue) result" where
  "pop_internal i q = (let c = context_of q i in
     rbind (TryPop (ReadyTasksInternal c)) (\<lambda>(x, rq).
       Inr (map_option fst x, set_context i (c\<lparr>ReadyTasksInternal := rq\<rparr>) q)))"

section \<open>Destroying what is left\<close>

text \<open>
  The second half of \<open>Join\<close>, run once the threads have ended: every handle that is still in a queue is destroyed. The
  result lists the destroyed handles in order.
\<close>

fun pop_sleeping :: "(nat TItem list \<Rightarrow> nat TItem list) \<Rightarrow> nat \<Rightarrow> nat TBinnedTimerQueue \<Rightarrow> nat list result" where
  "pop_sleeping srt 0 t = Inr []"
| "pop_sleeping srt (Suc n) t = (if QSize t = 0 then Inr []
     else rbind (PopFront srt t) (\<lambda>(item, t1). rbind (pop_sleeping srt n t1) (\<lambda>hs. Inr (Value item # hs))))"

definition pop_handles :: "handle_ts TSpscCircularQueue \<Rightarrow> nat list result" where
  "pop_handles q = rbind (pop_all (unat (Capacity q) + 1) q) (\<lambda>(ts, _). Inr (map fst ts))"

definition destroy_context :: "(nat TItem list \<Rightarrow> nat TItem list) \<Rightarrow> TPerThreadContext \<Rightarrow> nat list result" where
  "destroy_context srt c =
     rbind (pop_sleeping srt (QSize (SleepingTasks c)) (SleepingTasks c)) (\<lambda>s.
     rbind (pop_handles (ReadyTasksInternal c)) (\<lambda>r.
     rbind (pop_handles (ReadyTasksExternal c)) (\<lambda>e.
     rbind (pop_handles (InflightWaitingTasksInternal c)) (\<lambda>w. Inr (s @ r @ e @ w)))))"

fun Join_contexts :: "(nat TItem list \<Rightarrow> nat TItem list) \<Rightarrow> TPerThreadContext list \<Rightarrow> nat list result" where
  "Join_contexts srt [] = Inr []"
| "Join_contexts srt (c # cs) = rbind (destroy_context srt c) (\<lambda>d. rbind (Join_contexts srt cs) (\<lambda>ds. Inr (d @ ds)))"

section \<open>Threads and coroutines\<close>

text \<open>
  Where a thread stands in the loop of \<open>RunThread\<close>, and what it is in the middle of: a resumed coroutine; a coroutine that
  found no free slot and has the addition still to take back; the same in \<open>ProcessInflightQueue\<close>.
\<close>

datatype phase = Drain | Batch | Inflight | Sleep | Internal | Stopped

datatype exec = NoTask | Executing nat | BackingOff nat | Overshoot

record tthread =
  th_phase :: phase
  th_batch :: "handle_ts list"
  th_exec :: exec
  th_now :: int

text \<open>
  \<open>awaiting\<close>: coroutines that wait for a future or have not been started; \<open>dropped\<close>: taken from the external queue
  by a thread that then saw the stop request; \<open>holding\<close>: the coroutines between \<open>IncInflight\<close> and \<open>DecInflight\<close>.
\<close>

record system =
  tq :: TTaskQueue
  tthreads :: "tthread list"
  clock :: int
  awaiting :: "nat multiset"
  finished :: "nat multiset"
  dropped :: "nat multiset"
  holding :: "nat set"
  failed :: bool

definition set_thread :: "nat \<Rightarrow> tthread \<Rightarrow> system \<Rightarrow> system" where
  "set_thread i th s = s\<lparr>tthreads := (tthreads s)[i := th]\<rparr>"

text \<open>An exception of the queue ends the thread, and with it the program.\<close>

definition after :: "TTaskQueue result \<Rightarrow> (system \<Rightarrow> system) \<Rightarrow> system \<Rightarrow> system" where
  "after r f s = (case r of Inl _ \<Rightarrow> s\<lparr>failed := True\<rparr> | Inr q \<Rightarrow> f (s\<lparr>tq := q\<rparr>))"

inductive tq_step :: "(nat TItem list \<Rightarrow> nat TItem list) \<Rightarrow> system \<Rightarrow> system \<Rightarrow> bool" for srt where
  drain: "i < length (tthreads s) \<Longrightarrow> tthreads s ! i = th \<Longrightarrow> th_phase th = Drain \<Longrightarrow> th_exec th = NoTask \<Longrightarrow>
    \<not> ThreadsStop (tq s) \<Longrightarrow> take_external i (tq s) = Inr (ts, q) \<Longrightarrow>
    tq_step srt s (set_thread i (th\<lparr>th_phase := Batch, th_batch := ts, th_now := clock s\<rparr>) (s\<lparr>tq := q\<rparr>))"
| stop: "i < length (tthreads s) \<Longrightarrow> tthreads s ! i = th \<Longrightarrow> th_phase th = Drain \<Longrightarrow> th_exec th = NoTask \<Longrightarrow>
    ThreadsStop (tq s) \<Longrightarrow> tq_step srt s (set_thread i (th\<lparr>th_phase := Stopped\<rparr>) s)"
| resume_external: "i < length (tthreads s) \<Longrightarrow> tthreads s ! i = th \<Longrightarrow> th_phase th = Batch \<Longrightarrow> th_exec th = NoTask \<Longrightarrow>
    \<not> ThreadsStop (tq s) \<Longrightarrow> th_batch th = (h, t) # ts \<Longrightarrow>
    tq_step srt s (set_thread i (th\<lparr>th_batch := ts, th_exec := Executing h\<rparr>) s)"
| batch_stop: "i < length (tthreads s) \<Longrightarrow> tthreads s ! i = th \<Longrightarrow> th_phase th = Batch \<Longrightarrow> th_exec th = NoTask \<Longrightarrow>
    ThreadsStop (tq s) \<Longrightarrow>
    tq_step srt s (set_thread i (th\<lparr>th_phase := Inflight, th_batch := []\<rparr>) (s\<lparr>dropped := dropped s + mset (map fst (th_batch th))\<rparr>))"
| batch_done: "i < length (tthreads s) \<Longrightarrow> tthreads s ! i = th \<Longrightarrow> th_phase th = Batch \<Longrightarrow> th_exec th = NoTask \<Longrightarrow>
    th_batch th = [] \<Longrightarrow> tq_step srt s (set_thread i (th\<lparr>th_phase := Inflight\<rparr>) s)"
| admit: "i < length (tthreads s) \<Longrightarrow> tthreads s ! i = th \<Longrightarrow> th_phase th = Inflight \<Longrightarrow> th_exec th = NoTask \<Longrightarrow>
    MaxRunningInternal (tq s) \<noteq> 0 \<Longrightarrow> \<not> Empty (InflightWaitingTasksInternal (context_of (tq s) i)) \<Longrightarrow>
    try_inflight (tq s) = (True, q1) \<Longrightarrow> admit_waiting i q1 = Inr (x, q) \<Longrightarrow>
    tq_step srt s (s\<lparr>tq := q, holding := set_option x \<union> holding s\<rparr>)"
| overshoot: "i < length (tthreads s) \<Longrightarrow> tthreads s ! i = th \<Longrightarrow> th_phase th = Inflight \<Longrightarrow> th_exec th = NoTask \<Longrightarrow>
    MaxRunningInternal (tq s) \<noteq> 0 \<Longrightarrow> \<not> Empty (InflightWaitingTasksInternal (context_of (tq s) i)) \<Longrightarrow>
    try_inflight (tq s) = (False, q) \<Longrightarrow> tq_step srt s (set_thread i (th\<lparr>th_exec := Overshoot\<rparr>) (s\<lparr>tq := q\<rparr>))"
| take_back: "i < length (tthreads s) \<Longrightarrow> tthreads s ! i = th \<Longrightarrow> th_phase th = Inflight \<Longrightarrow> th_exec th = Overshoot \<Longrightarrow>
    tq_step srt s (set_thread i (th\<lparr>th_phase := Sleep, th_exec := NoTask\<rparr>) (s\<lparr>tq := DecInflight (tq s)\<rparr>))"
| inflight_done: "i < length (tthreads s) \<Longrightarrow> tthreads s ! i = th \<Longrightarrow> th_phase th = Inflight \<Longrightarrow> th_exec th = NoTask \<Longrightarrow>
    \<not> inflight_more i (tq s) \<Longrightarrow> tq_step srt s (set_thread i (th\<lparr>th_phase := Sleep\<rparr>) s)"
| wake: "i < length (tthreads s) \<Longrightarrow> tthreads s ! i = th \<Longrightarrow> th_phase th = Sleep \<Longrightarrow> th_exec th = NoTask \<Longrightarrow>
    sleeping_due i (th_now th) (tq s) = Inr True \<Longrightarrow> tq_step srt s (after (wake_one srt i (clock s) (tq s)) id s)"
| sleep_done: "i < length (tthreads s) \<Longrightarrow> tthreads s ! i = th \<Longrightarrow> th_phase th = Sleep \<Longrightarrow> th_exec th = NoTask \<Longrightarrow>
    sleeping_due i (th_now th) (tq s) = Inr False \<Longrightarrow> tq_step srt s (set_thread i (th\<lparr>th_phase := Internal\<rparr>) s)"
| resume_internal: "i < length (tthreads s) \<Longrightarrow> tthreads s ! i = th \<Longrightarrow> th_phase th = Internal \<Longrightarrow> th_exec th = NoTask \<Longrightarrow>
    pop_internal i (tq s) = Inr (x, q) \<Longrightarrow>
    tq_step srt s (set_thread i (th\<lparr>th_phase := Drain, th_exec := (case x of None \<Rightarrow> NoTask | Some h \<Rightarrow> Executing h)\<rparr>) (s\<lparr>tq := q\<rparr>))"
| crash: "i < length (tthreads s) \<Longrightarrow> take_external i (tq s) = Inl e \<or> admit_waiting i (tq s) = Inl e
      \<or> sleeping_due i now (tq s) = Inl e \<or> pop_internal i (tq s) = Inl e \<Longrightarrow> tq_step srt s (s\<lparr>failed := True\<rparr>)"
| yield: "i < length (tthreads s) \<Longrightarrow> tthreads s ! i = th \<Longrightarrow> th_exec th = Executing h \<Longrightarrow>
    tq_step srt s (after (TaskReady h h (clock s) (tq s)) (set_thread i (th\<lparr>th_exec := NoTask\<rparr>)) s)"
| sleep: "i < length (tthreads s) \<Longrightarrow> tthreads s ! i = th \<Longrightarrow> th_exec th = Executing h \<Longrightarrow> add_delay (clock s) delay = Inr d \<Longrightarrow>
    tq_step srt s (after (AsyncSleep h h delay (clock s) (tq s)) (set_thread i (th\<lparr>th_exec := NoTask\<rparr>)) s)"
| inc_ok: "i < length (tthreads s) \<Longrightarrow> tthreads s ! i = th \<Longrightarrow> th_exec th = Executing h \<Longrightarrow> h \<notin> holding s \<Longrightarrow>
    try_inflight (tq s) = (True, q) \<Longrightarrow> tq_step srt s (s\<lparr>tq := q, holding := insert h (holding s)\<rparr>)"
| inc_full: "i < length (tthreads s) \<Longrightarrow> tthreads s ! i = th \<Longrightarrow> th_exec th = Executing h \<Longrightarrow> h \<notin> holding s \<Longrightarrow>
    try_inflight (tq s) = (False, q) \<Longrightarrow> tq_step srt s (set_thread i (th\<lparr>th_exec := BackingOff h\<rparr>) (s\<lparr>tq := q\<rparr>))"
| back_off: "i < length (tthreads s) \<Longrightarrow> tthreads s ! i = th \<Longrightarrow> th_exec th = BackingOff h \<Longrightarrow>
    tq_step srt s (after (wait_inflight h h (clock s) (tq s)) (set_thread i (th\<lparr>th_exec := NoTask\<rparr>)) s)"
| dec: "i < length (tthreads s) \<Longrightarrow> tthreads s ! i = th \<Longrightarrow> th_exec th = Executing h \<Longrightarrow> h \<in> holding s \<Longrightarrow>
    tq_step srt s (s\<lparr>tq := DecInflight (tq s), holding := holding s - {h}\<rparr>)"
| await: "i < length (tthreads s) \<Longrightarrow> tthreads s ! i = th \<Longrightarrow> th_exec th = Executing h \<Longrightarrow>
    tq_step srt s (set_thread i (th\<lparr>th_exec := NoTask\<rparr>) (s\<lparr>awaiting := add_mset h (awaiting s)\<rparr>))"
| finish: "i < length (tthreads s) \<Longrightarrow> tthreads s ! i = th \<Longrightarrow> th_exec th = Executing h \<Longrightarrow>
    tq_step srt s (set_thread i (th\<lparr>th_exec := NoTask\<rparr>) (s\<lparr>finished := add_mset h (finished s)\<rparr>))"
| complete: "h \<in># awaiting s \<Longrightarrow>
    tq_step srt s (after (TaskReadyThreadSafe h h (clock s) (tq s)) (\<lambda>s. s\<lparr>awaiting := awaiting s - {#h#}\<rparr>) s)"
| tick: "clock s \<le> c \<Longrightarrow> tq_step srt s (s\<lparr>clock := c\<rparr>)"
| wakeup: "tq_step srt s (s\<lparr>tq := WakeupAndNeverSleep (tq s)\<rparr>)"
| request_stop: "tq_step srt s (s\<lparr>tq := (tq s)\<lparr>ThreadsStop := True\<rparr>\<rparr>)"

text \<open>The start of the benchmark: the threads idle, the terminals about to be queued.\<close>

definition tq_init :: "TTaskQueue \<Rightarrow> nat \<Rightarrow> system" where
  "tq_init q terminalCount = \<lparr>tq = q,
     tthreads = replicate (length (PerThreadContext q)) \<lparr>th_phase = Drain, th_batch = [], th_exec = NoTask, th_now = 0\<rparr>,
     clock = 0, awaiting = mset_set {0..<terminalCount}, finished = {#}, dropped = {#}, holding = {}, failed = False\<rparr>"

end
