(* ===== verification/TaskQueueProofs.thy ===== *)
theory TaskQueueProofs
  imports TaskQueue
begin

text \<open>
  In every interleaving of the threads, of the completions of futures and of stop requests, each coroutine is in exactly one
  place, on the thread its hint names; no queue overflows; and no more coroutines hold an in-flight slot than allowed.
  The queues enter only through the contracts \<open>bounded_fifo\<close> and \<open>min_queue\<close>.
\<close>

section \<open>What a context holds\<close>

record abs_ctx =
  a_sleeping :: "nat TItem multiset"
  a_ready :: "handle_ts list"
  a_waiting :: "handle_ts list"
  a_external :: "handle_ts list"

definition spsc_of :: "nat \<Rightarrow> 'a TSpscCircularQueue \<Rightarrow> 'a list \<Rightarrow> bool" where
  "spsc_of k q xs \<longleftrightarrow> spsc_holds q xs \<and> k \<le> unat (Capacity q)"

definition ctx_of :: "nat \<Rightarrow> TPerThreadContext \<Rightarrow> abs_ctx \<Rightarrow> bool" where
  "ctx_of k c a \<longleftrightarrow> tq_holds (SleepingTasks c) (a_sleeping a) \<and> spsc_of k (ReadyTasksInternal c) (a_ready a)
     \<and> spsc_of k (InflightWaitingTasksInternal c) (a_waiting a) \<and> spsc_of k (ReadyTasksExternal c) (a_external a)"

lemma push_of:
  assumes "spsc_of k q xs" "length xs < k"
  shows "\<exists>q'. TryPush x q = Inr (True, q') \<and> spsc_of k q' (xs @ [x])"
  using spsc.push_law [of q xs x] assms by (auto simp: spsc_of_def)

lemma pop_of:
  assumes "spsc_of k q xs"
  shows "\<exists>q'. TryPop q = Inr (if xs = [] then None else Some (hd xs), q') \<and> spsc_of k q' (tl xs)"
  using spsc.pop_law [of q xs] assms by (auto simp: spsc_of_def)

lemma pop_all_of: "spsc_of k q xs \<Longrightarrow> length xs < m \<Longrightarrow> \<exists>q'. pop_all m q = Inr (xs, q') \<and> spsc_of k q' []"
proof (induction m arbitrary: q xs)
  case (Suc m)
  obtain q1 where q1: "TryPop q = Inr (if xs = [] then None else Some (hd xs), q1)" "spsc_of k q1 (tl xs)"
    using pop_of [OF Suc.prems(1)] by blast
  show ?case
  proof (cases xs)
    case Nil
    then show ?thesis using q1 by auto
  next
    case (Cons x xs')
    then show ?thesis using Suc.IH [of q1 xs'] Suc.prems(2) q1 by auto
  qed
qed simp

lemma spsc_bound: "spsc_of k q xs \<Longrightarrow> length xs \<le> unat (Capacity q)"
  using spsc.holds_bound by (auto simp: spsc_of_def)

lemma Empty_of:
  assumes "spsc_of k q xs"
  shows "Empty q \<longleftrightarrow> xs = []"
proof -
  obtain j pushed popped nct nch where inv: "spsc_inv j q pushed popped nct nch" and xs: "xs = drop (length popped) pushed"
    using assms by (auto simp: spsc_of_def spsc_holds_def)
  have le: "length popped \<le> length pushed" and b: "length pushed - length popped < 2 ^ 64" and
    d: "Size q = word_of_nat (length pushed - length popped)"
    using inv pow2_lt_u64 [of j] diff_word_of_nat [of "length popped" "length pushed"]
    by (auto simp: spsc_inv_def Size_def)
  have "Empty q \<longleftrightarrow> length pushed - length popped = 0"
    unfolding Empty_def d using word_of_nat_eq_small [OF b, of 0] by simp
  then show ?thesis using xs le by auto
qed

section \<open>The operations on one context\<close>

lemma set_context_simps [simp]:
  "PerThreadContext (set_context i c q) = (PerThreadContext q)[i := c]"
  "RunningInternalCount (set_context i c q) = RunningInternalCount q"
  "MaxRunningInternal (set_context i c q) = MaxRunningInternal q"
  "ThreadsStop (set_context i c q) = ThreadsStop q" "WakeupAll (set_context i c q) = WakeupAll q"
  by (simp_all add: set_context_def)

lemma push_ready_ctx:
  assumes "ctx_of k (context_of q i) a" "length (a_ready a) < k"
  shows "\<exists>c'. push_ready what ht i q = Inr (set_context i c' q) \<and> ctx_of k c' (a\<lparr>a_ready := a_ready a @ [ht]\<rparr>)"
proof -
  obtain rq where "TryPush ht (ReadyTasksInternal (context_of q i)) = Inr (True, rq)" "spsc_of k rq (a_ready a @ [ht])"
    using push_of [of k "ReadyTasksInternal (context_of q i)" "a_ready a" "ht"] assms by (auto simp: ctx_of_def)
  then show ?thesis
    using assms by (intro exI [of _ "(context_of q i)\<lparr>ReadyTasksInternal := rq\<rparr>"]) (simp add: push_ready_def ctx_of_def Let_def)
qed

lemma AsyncSleep_ctx:
  assumes "ctx_of k (context_of q i) a" "hint_index q h = i" "add_delay now delay = Inr d"
  shows "\<exists>c'. AsyncSleep h h delay now q = Inr (set_context i c' q)
    \<and> ctx_of k c' (a\<lparr>a_sleeping := add_mset \<lparr>Deadline = d, Value = h\<rparr> (a_sleeping a)\<rparr>)"
  using TQ_Add_holds [of "SleepingTasks (context_of q i)" "a_sleeping a" now delay d h] assms
  by (auto simp: AsyncSleep_def ctx_of_def Let_def)

lemma wait_inflight_ctx:
  assumes "ctx_of k (context_of q i) a" "hint_index q h = i" "length (a_waiting a) < k"
  shows "\<exists>c'. wait_inflight h h now q = Inr (set_context i c' (q\<lparr>RunningInternalCount := RunningInternalCount q - 1\<rparr>))
    \<and> ctx_of k c' (a\<lparr>a_waiting := a_waiting a @ [(h, now)]\<rparr>)"
proof -
  obtain rq where "TryPush (h, now) (InflightWaitingTasksInternal (context_of q i)) = Inr (True, rq)" "spsc_of k rq (a_waiting a @ [(h, now)])"
    using push_of [of k "InflightWaitingTasksInternal (context_of q i)" "a_waiting a" "(h, now)"] assms by (auto simp: ctx_of_def)
  then show ?thesis
    using assms by (intro exI [of _ "(context_of q i)\<lparr>InflightWaitingTasksInternal := rq\<rparr>"]) (simp add: wait_inflight_def hint_index_def context_of_def ctx_of_def Let_def)
qed

lemma TaskReadyThreadSafe_ctx:
  assumes "ctx_of k (context_of q i) a" "hint_index q h = i" "length (a_external a) < k"
  shows "\<exists>c'. TaskReadyThreadSafe h h now q = Inr (set_context i c' q)
    \<and> ctx_of k c' (a\<lparr>a_external := a_external a @ [(h, now)]\<rparr>)"
proof -
  obtain rq where "TryPush (h, now) (ReadyTasksExternal (context_of q i)) = Inr (True, rq)" "spsc_of k rq (a_external a @ [(h, now)])"
    using push_of [of k "ReadyTasksExternal (context_of q i)" "a_external a" "(h, now)"] assms by (auto simp: ctx_of_def)
  then show ?thesis
    using assms by (intro exI [of _ "(context_of q i)\<lparr>ReadyTasksExternal := rq\<rparr>"]) (simp add: TaskReadyThreadSafe_def ctx_of_def Let_def)
qed

lemma take_external_ctx:
  assumes "ctx_of k (context_of q i) a"
  shows "\<exists>c'. take_external i q = Inr (a_external a, set_context i c' q) \<and> ctx_of k c' (a\<lparr>a_external := []\<rparr>)"
proof -
  let ?e = "ReadyTasksExternal (context_of q i)"
  have e: "spsc_of k ?e (a_external a)" using assms by (simp add: ctx_of_def)
  then obtain q' where "pop_all (unat (Capacity ?e) + 1) ?e = Inr (a_external a, q')" "spsc_of k q' []"
    using pop_all_of [OF e, of "unat (Capacity ?e) + 1"] spsc_bound [OF e] by auto
  then show ?thesis using assms by (auto simp: take_external_def ctx_of_def Let_def)
qed

lemma admit_waiting_ctx:
  assumes "ctx_of k (context_of q i) a"
  shows "a_waiting a = [] \<Longrightarrow> \<exists>c'. admit_waiting i q = Inr (None, set_context i c' q)"
    and "a_waiting a = ht # ws \<Longrightarrow> length (a_ready a) < k \<Longrightarrow> \<exists>c'. admit_waiting i q = Inr (Some (fst ht), set_context i c' q)
      \<and> ctx_of k c' (a\<lparr>a_waiting := ws, a_ready := a_ready a @ [ht]\<rparr>)"
  using pop_of [of k "InflightWaitingTasksInternal (context_of q i)" "a_waiting a"]
    push_of [of k "ReadyTasksInternal (context_of q i)" "a_ready a" ht] assms
  by (auto simp: admit_waiting_def ctx_of_def Let_def)

lemma sleeping_due_ctx:
  assumes "ctx_of k (context_of q i) a"
  shows "\<exists>b. sleeping_due i now q = Inr b \<and> (b \<longrightarrow> a_sleeping a \<noteq> {#})"
proof -
  let ?t = "SleepingTasks (context_of q i)"
  have t: "tq_holds ?t (a_sleeping a)" using assms by (simp add: ctx_of_def)
  show ?thesis
    using GetNextDeadline_holds [OF t] tq_holds_size [OF t] by (cases "a_sleeping a = {#}") (auto simp: sleeping_due_def Let_def)
qed

lemma wake_one_ctx:
  assumes "std_sort srt" "ctx_of k (context_of q i) a" "a_sleeping a \<noteq> {#}" "length (a_ready a) < k" "i < length (PerThreadContext q)"
  shows "\<exists>it c'. it \<in># a_sleeping a \<and> wake_one srt i now q = Inr (set_context i c' q)
    \<and> ctx_of k c' (a\<lparr>a_sleeping := a_sleeping a - {#it#}, a_ready := a_ready a @ [(Value it, now)]\<rparr>)"
proof -
  let ?c = "context_of q i"
  obtain it t where p: "PopFront srt (SleepingTasks ?c) = Inr (it, t)" "it \<in># a_sleeping a" "tq_holds t (a_sleeping a - {#it#})"
    using std_sort.PopFront_holds [OF assms(1), of "SleepingTasks ?c" "a_sleeping a"] assms(2,3) by (auto simp: ctx_of_def)
  let ?q1 = "set_context i (?c\<lparr>SleepingTasks := t\<rparr>) q"
  have c1: "ctx_of k (context_of ?q1 i) (a\<lparr>a_sleeping := a_sleeping a - {#it#}\<rparr>)"
    using assms(2,5) p(3) by (simp add: context_of_def ctx_of_def)
  obtain c' where "push_ready ''internal (awakened)'' (Value it, now) i ?q1 = Inr (set_context i c' ?q1)"
    "ctx_of k c' (a\<lparr>a_sleeping := a_sleeping a - {#it#}, a_ready := a_ready a @ [(Value it, now)]\<rparr>)"
    using push_ready_ctx [OF c1, of "''internal (awakened)''" "(Value it, now)"] assms(4) by auto
  then show ?thesis using p(1,2) by (auto simp: wake_one_def Let_def set_context_def)
qed

lemma pop_internal_ctx:
  assumes "ctx_of k (context_of q i) a"
  shows "\<exists>c'. pop_internal i q = Inr (if a_ready a = [] then None else Some (fst (hd (a_ready a))), set_context i c' q)
    \<and> ctx_of k c' (a\<lparr>a_ready := tl (a_ready a)\<rparr>)"
proof -
  obtain rq where "TryPop (ReadyTasksInternal (context_of q i)) = Inr (if a_ready a = [] then None else Some (hd (a_ready a)), rq)"
    "spsc_of k rq (tl (a_ready a))"
    using pop_of [of k "ReadyTasksInternal (context_of q i)" "a_ready a"] assms by (auto simp: ctx_of_def)
  then show ?thesis
    using assms by (intro exI [of _ "(context_of q i)\<lparr>ReadyTasksInternal := rq\<rparr>"]) (simp add: pop_internal_def ctx_of_def Let_def)
qed

section \<open>Where the coroutines are\<close>

fun exec_handle :: "exec \<Rightarrow> nat multiset" where
  "exec_handle (Executing h) = {#h#}"
| "exec_handle (BackingOff h) = {#h#}"
| "exec_handle _ = {#}"

definition place :: "abs_ctx \<Rightarrow> tthread \<Rightarrow> nat multiset" where
  "place a th = image_mset Value (a_sleeping a) + mset (map fst (a_ready a)) + mset (map fst (a_waiting a))
     + mset (map fst (a_external a)) + mset (map fst (th_batch th)) + exec_handle (th_exec th)"

text \<open>Coroutines that are denied a slot for now.\<close>

definition denied :: "abs_ctx \<Rightarrow> tthread \<Rightarrow> nat set" where
  "denied a th = fst ` set (a_waiting a) \<union> {h. th_exec th = BackingOff h}"

definition thread_ok :: "nat \<Rightarrow> nat \<Rightarrow> nat set \<Rightarrow> nat \<Rightarrow> TPerThreadContext \<Rightarrow> abs_ctx \<Rightarrow> tthread \<Rightarrow> bool" where
  "thread_ok k n H i c a th \<longleftrightarrow> ctx_of k c a \<and> (\<forall>h \<in># place a th. h mod n = i) \<and> denied a th \<inter> H = {}
     \<and> (th_phase th \<noteq> Batch \<longrightarrow> th_batch th = [])"

text \<open>
  The threads with their contexts: \<open>out\<close> are the coroutines that are on no thread.
\<close>

definition placed :: "nat \<Rightarrow> nat set \<Rightarrow> TPerThreadContext list \<Rightarrow> tthread list \<Rightarrow> nat multiset \<Rightarrow> bool" where
  "placed k H cs ths out \<longleftrightarrow> length cs = length ths \<and> ths \<noteq> [] \<and> (\<exists>A. length A = length ths
     \<and> (\<forall>i < length ths. thread_ok k (length ths) H i (cs ! i) (A ! i) (ths ! i))
     \<and> sum_list (map2 place A ths) + out = mset_set {0..<k})"

text \<open>One thread is taken out, changed and put back.\<close>

lemma map2_sum_update:
  assumes "i < length xs" "length xs = length ys"
  shows "sum_list (map2 f (xs[i := x]) (ys[i := y])) + f (xs ! i) (ys ! i) = sum_list (map2 f xs ys) + (f x y :: 'a :: comm_monoid_add)"
  using assms
proof (induction xs ys arbitrary: i rule: list_induct2')
  case (4 a xs b ys)
  show ?case
  proof (cases i)
    case (Suc j)
    then show ?thesis using "4.IH" [of j] "4.prems" by (simp add: ac_simps)
  qed (simp add: ac_simps)
qed simp_all

lemma placed_thread:
  assumes "placed k H cs ths out" "i < length ths"
  obtains a where "thread_ok k (length ths) H i (cs ! i) a (ths ! i)" "place a (ths ! i) + out \<subseteq># mset_set {0..<k}"
    "\<And>c' a' th' out' H'. thread_ok k (length ths) H' i c' a' th' \<Longrightarrow> place a' th' + out' = place a (ths ! i) + out \<Longrightarrow>
       (\<And>h. h \<in> H' - H \<Longrightarrow> h mod length ths = i) \<Longrightarrow> placed k H' (cs[i := c']) (ths[i := th']) out'"
proof -
  obtain A where A: "length A = length ths" "\<And>i. i < length ths \<Longrightarrow> thread_ok k (length ths) H i (cs ! i) (A ! i) (ths ! i)"
    "sum_list (map2 place A ths) + out = mset_set {0..<k}" and len: "length cs = length ths" "ths \<noteq> []"
    using assms(1) by (auto simp: placed_def)
  have i': "i < length A" using assms(2) A(1) by simp
  note upd = map2_sum_update [OF i' A(1), of place]
  let ?rest = "sum_list (map2 place (A[i := \<lparr>a_sleeping = {#}, a_ready = [], a_waiting = [], a_external = []\<rparr>])
      (ths[i := \<lparr>th_phase = Drain, th_batch = [], th_exec = NoTask, th_now = 0\<rparr>]))"
  have r: "?rest + place (A ! i) (ths ! i) = sum_list (map2 place A ths)"
    using upd [of "\<lparr>a_sleeping = {#}, a_ready = [], a_waiting = [], a_external = []\<rparr>"
        "\<lparr>th_phase = Drain, th_batch = [], th_exec = NoTask, th_now = 0\<rparr>"] by (simp add: place_def)
  have "mset_set {0..<k} = ?rest + (place (A ! i) (ths ! i) + out)"
    unfolding A(3) [symmetric] r [symmetric] by (simp only: add.assoc)
  then have sub: "place (A ! i) (ths ! i) + out \<subseteq># mset_set {0..<k}" by simp
  have put: "placed k H' (cs[i := c']) (ths[i := th']) out'"
    if ok: "thread_ok k (length ths) H' i c' a' th'" and eq: "place a' th' + out' = place (A ! i) (ths ! i) + out"
      and H': "\<And>h. h \<in> H' - H \<Longrightarrow> h mod length ths = i" for c' a' th' out' H'
  proof -
    let ?S' = "sum_list (map2 place (A[i := a']) (ths[i := th']))" and ?p = "place (A ! i) (ths ! i)"
    have "?S' + ?p + out' = sum_list (map2 place A ths) + (place a' th' + out')"
      unfolding upd by (simp only: add.assoc)
    also have "\<dots> = mset_set {0..<k} + ?p" unfolding eq A(3) [symmetric] by (simp only: ac_simps)
    finally have "(?S' + out') + ?p = mset_set {0..<k} + ?p" by (simp only: ac_simps)
    then have sum: "?S' + out' = mset_set {0..<k}" by simp
    have "thread_ok k (length ths) H' j (cs[i := c'] ! j) (A[i := a'] ! j) (ths[i := th'] ! j)" if j: "j < length ths" for j
    proof (cases "j = i")
      case True
      then show ?thesis using ok j A(1) len(1) by simp
    next
      case False
      have t: "thread_ok k (length ths) H j (cs ! j) (A ! j) (ths ! j)" by (rule A(2) [OF j])
      have "denied (A ! j) (ths ! j) \<subseteq> set_mset (place (A ! j) (ths ! j))" by (auto simp: denied_def place_def)
      then have "denied (A ! j) (ths ! j) \<inter> H' = {}" using t H' False by (fastforce simp: thread_ok_def)
      then show ?thesis using t False by (simp add: thread_ok_def)
    qed
    then show ?thesis using sum A(1) len unfolding placed_def by (intro conjI exI [of _ "A[i := a']"]) auto
  qed
  show thesis by (rule that [OF A(2) [OF assms(2)] sub put])
qed

lemma placed_size:
  assumes "M \<subseteq># mset_set {0..<k}"
  shows "size M \<le> k" "h \<in># M \<Longrightarrow> h < k"
  using size_mset_mono [OF assms] mset_subset_eqD [OF assms] by auto

section \<open>The invariant\<close>

text \<open>A thread whose addition to the counter is still to be taken back.\<close>

definition transient :: "tthread \<Rightarrow> nat" where
  "transient th = (case th_exec th of BackingOff _ \<Rightarrow> 1 | Overshoot \<Rightarrow> 1 | _ \<Rightarrow> 0)"

definition slots_ok :: "TTaskQueue \<Rightarrow> tthread list \<Rightarrow> nat set \<Rightarrow> bool" where
  "slots_ok q ths H \<longleftrightarrow> finite H \<and> RunningInternalCount q = card H + sum_list (map transient ths)
     \<and> (MaxRunningInternal q \<noteq> 0 \<longrightarrow> card H \<le> MaxRunningInternal q)"

definition outside :: "system \<Rightarrow> nat multiset" where
  "outside s = awaiting s + finished s + dropped s"

definition sys_inv :: "nat \<Rightarrow> system \<Rightarrow> bool" where
  "sys_inv k s \<longleftrightarrow> placed k (holding s) (PerThreadContext (tq s)) (tthreads s) (outside s)
     \<and> slots_ok (tq s) (tthreads s) (holding s) \<and> \<not> failed s \<and> (\<not> ThreadsStop (tq s) \<longrightarrow> dropped s = {#})"

lemma set_thread_simps [simp]:
  "tq (set_thread i th s) = tq s" "tthreads (set_thread i th s) = (tthreads s)[i := th]" "holding (set_thread i th s) = holding s"
  "failed (set_thread i th s) = failed s" "dropped (set_thread i th s) = dropped s" "outside (set_thread i th s) = outside s"
  "awaiting (set_thread i th s) = awaiting s" "finished (set_thread i th s) = finished s"
  by (simp_all add: set_thread_def outside_def)

lemma slots_update:
  assumes "slots_ok q ths H" "i < length ths"
  shows "transient th' = transient (ths ! i) \<Longrightarrow> slots_ok q (ths[i := th']) H"
  using assms sum_list_update_eq [of i ths transient th'] by (simp add: slots_ok_def)

text \<open>A change of one thread and its context, which held \<open>a\<close> before.\<close>

definition step_of :: "nat \<Rightarrow> system \<Rightarrow> nat \<Rightarrow> abs_ctx \<Rightarrow> system \<Rightarrow> bool" where
  "step_of k s i a s' \<longleftrightarrow> (\<exists>c' a' th'. PerThreadContext (tq s') = (PerThreadContext (tq s))[i := c'] \<and> tthreads s' = (tthreads s)[i := th']
     \<and> thread_ok k (length (tthreads s)) (holding s') i c' a' th' \<and> place a' th' + outside s' = place a (tthreads s ! i) + outside s)
     \<and> (\<forall>h \<in> holding s' - holding s. h mod length (tthreads s) = i)
     \<and> (slots_ok (tq s) (tthreads s) (holding s) \<longrightarrow> slots_ok (tq s') (tthreads s') (holding s')) \<and> failed s' = failed s
     \<and> (dropped s = {#} \<longrightarrow> \<not> ThreadsStop (tq s') \<longrightarrow> dropped s' = {#}) \<and> (ThreadsStop (tq s) \<longrightarrow> ThreadsStop (tq s'))"

lemma step_ofI:
  assumes "PerThreadContext (tq s') = (PerThreadContext (tq s))[i := c']" "tthreads s' = (tthreads s)[i := th']"
    "thread_ok k (length (tthreads s)) (holding s') i c' a' th'" "place a' th' + outside s' = place a (tthreads s ! i) + outside s"
    "\<And>h. h \<in> holding s' \<Longrightarrow> h \<notin> holding s \<Longrightarrow> h mod length (tthreads s) = i"
    "slots_ok (tq s) (tthreads s) (holding s) \<Longrightarrow> slots_ok (tq s') (tthreads s') (holding s')" "failed s' = failed s"
    "dropped s = {#} \<Longrightarrow> \<not> ThreadsStop (tq s') \<Longrightarrow> dropped s' = {#}" "ThreadsStop (tq s) \<Longrightarrow> ThreadsStop (tq s')"
  shows "step_of k s i a s'"
  unfolding step_of_def using assms by blast

lemma sys_thread_step:
  assumes inv: "sys_inv k s" and i: "i < length (tthreads s)"
    and step: "\<And>a. thread_ok k (length (tthreads s)) (holding s) i (PerThreadContext (tq s) ! i) a (tthreads s ! i) \<Longrightarrow>
      place a (tthreads s ! i) + outside s \<subseteq># mset_set {0..<k} \<Longrightarrow> length (PerThreadContext (tq s)) = length (tthreads s) \<Longrightarrow> step_of k s i a s'"
  shows "sys_inv k s'"
proof -
  have pl: "placed k (holding s) (PerThreadContext (tq s)) (tthreads s) (outside s)" using inv by (simp add: sys_inv_def)
  from pl i show ?thesis
  proof (rule placed_thread)
    fix a
    assume a: "thread_ok k (length (tthreads s)) (holding s) i (PerThreadContext (tq s) ! i) a (tthreads s ! i)"
      "place a (tthreads s ! i) + outside s \<subseteq># mset_set {0..<k}"
      and put: "\<And>c' a' th' out' H'. thread_ok k (length (tthreads s)) H' i c' a' th' \<Longrightarrow>
        place a' th' + out' = place a (tthreads s ! i) + outside s \<Longrightarrow>
        (\<And>h. h \<in> H' - holding s \<Longrightarrow> h mod length (tthreads s) = i) \<Longrightarrow>
        placed k H' ((PerThreadContext (tq s))[i := c']) ((tthreads s)[i := th']) out'"
    have st: "step_of k s i a s'" using pl by (intro step [OF a]) (simp add: placed_def)
    then obtain c' a' th' where n: "PerThreadContext (tq s') = (PerThreadContext (tq s))[i := c']" "tthreads s' = (tthreads s)[i := th']"
      "thread_ok k (length (tthreads s)) (holding s') i c' a' th'" "place a' th' + outside s' = place a (tthreads s ! i) + outside s"
      "\<forall>h \<in> holding s' - holding s. h mod length (tthreads s) = i"
      unfolding step_of_def by blast
    have "placed k (holding s') (PerThreadContext (tq s')) (tthreads s') (outside s')"
      unfolding n(1,2) by (rule put [OF n(3,4)]) (use n(5) in blast)
    then show ?thesis using inv st by (auto simp: sys_inv_def step_of_def)
  qed
qed

lemma slots_context [simp]: "slots_ok (set_context i c q) ths H = slots_ok q ths H"
  by (simp add: slots_ok_def)

section \<open>Every step keeps it\<close>

lemma thread_okD:
  assumes "thread_ok k n H i (PerThreadContext q ! i) a th"
  shows "ctx_of k (context_of q i) a" "h \<in># place a th \<Longrightarrow> h mod n = i" "denied a th \<inter> H = {}" "th_phase th \<noteq> Batch \<Longrightarrow> th_batch th = []"
  using assms by (auto simp: thread_ok_def context_of_def)

lemma place_bounds:
  assumes "place a th + out \<subseteq># mset_set {0..<k}" "exec_handle (th_exec th) + out \<noteq> {#} \<or> a_waiting a \<noteq> [] \<or> a_sleeping a \<noteq> {#}"
  shows "length (a_ready a) < k"
proof -
  have "size (place a th + out) \<le> k" by (rule placed_size(1) [OF assms(1)])
  moreover have "0 < size (exec_handle (th_exec th) + out) \<or> 0 < length (a_waiting a) \<or> 0 < size (a_sleeping a)"
    using assms(2) by (auto simp: nonempty_has_size)
  moreover have "size (place a th + out) = size (a_sleeping a) + length (a_ready a) + length (a_waiting a) + length (a_external a)
     + length (th_batch th) + size (exec_handle (th_exec th) + out)" by (simp add: place_def)
  ultimately show ?thesis by arith
qed

lemma place_room:
  assumes "place a th + out \<subseteq># mset_set {0..<k}" "exec_handle (th_exec th) + out \<noteq> {#}"
  shows "length (a_waiting a) < k" "length (a_external a) < k" "length (a_ready a) < k"
proof -
  have "size (place a th + out) \<le> k" by (rule placed_size(1) [OF assms(1)])
  moreover have "0 < size (exec_handle (th_exec th) + out)" using assms(2) by (simp only: nonempty_has_size)
  ultimately show "length (a_waiting a) < k" "length (a_external a) < k" "length (a_ready a) < k" by (auto simp: place_def)
qed

lemma transient_simps [simp]:
  "th_exec th = NoTask \<Longrightarrow> transient th = 0" "th_exec th = Executing h \<Longrightarrow> transient th = 0"
  "th_exec th = BackingOff h \<Longrightarrow> transient th = 1" "th_exec th = Overshoot \<Longrightarrow> transient th = 1"
  "transient (th\<lparr>th_phase := p\<rparr>) = transient th" "transient (th\<lparr>th_batch := b\<rparr>) = transient th" "transient (th\<lparr>th_now := t\<rparr>) = transient th"
  by (simp_all add: transient_def)

text \<open>Steps that only move a thread on.\<close>

lemma move_on:
  assumes inv: "sys_inv k s" and i: "i < length (tthreads s)" "tthreads s ! i = th" "th_exec th = NoTask"
    and p: "th_phase th \<noteq> Batch \<or> th_batch th = []" "p \<noteq> Batch"
  shows "sys_inv k (set_thread i (th\<lparr>th_phase := p\<rparr>) s)"
proof (rule sys_thread_step [OF inv i(1)])
  fix a
  assume a: "thread_ok k (length (tthreads s)) (holding s) i (PerThreadContext (tq s) ! i) a (tthreads s ! i)"
  then have b: "th_batch th = []" using p i(2) by (auto simp: thread_ok_def)
  show "step_of k s i a (set_thread i (th\<lparr>th_phase := p\<rparr>) s)"
    by (rule step_ofI [where c' = "PerThreadContext (tq s) ! i" and a' = a and th' = "th\<lparr>th_phase := p\<rparr>"])
       (use a b i p in \<open>auto simp: thread_ok_def place_def denied_def intro!: slots_update\<close>)
qed

text \<open>Steps that change one context and thread but no slot.\<close>

lemma context_step:
  assumes a: "thread_ok k (length (tthreads s)) (holding s) i (PerThreadContext (tq s) ! i) a (tthreads s ! i)"
    and i: "i < length (tthreads s)"
    and c': "ctx_of k c' a'" and th': "transient th' = transient (tthreads s ! i)" "th_phase th' \<noteq> Batch \<longrightarrow> th_batch th' = []"
    and pl: "place a' th' + out' = place a (tthreads s ! i) + outside s" "denied a' th' \<inter> holding s = {}"
    and new: "\<And>h. h \<in># place a' th' \<Longrightarrow> h \<notin># place a (tthreads s ! i) \<Longrightarrow> h mod length (tthreads s) = i"
    and s': "tq s' = set_context i c' (tq s)" "tthreads s' = (tthreads s)[i := th']" "holding s' = holding s" "failed s' = failed s"
      "dropped s' = dropped s" "outside s' = out'"
  shows "step_of k s i a s'"
proof (rule step_ofI [where c' = c' and a' = a' and th' = th'])
  show "thread_ok k (length (tthreads s)) (holding s') i c' a' th'"
    using a c' th'(2) pl(2) new s'(3) unfolding thread_ok_def by blast
qed (use s' pl i th'(1) in \<open>auto intro!: slots_update\<close>)

text \<open>A coroutine is in one place only.\<close>

lemma one_place:
  assumes "place a th + out \<subseteq># mset_set {0..<k}"
  shows "a_waiting a = ht # ws \<Longrightarrow> fst ht \<notin> fst ` set ws" "th_exec th = Executing h \<Longrightarrow> h \<notin> fst ` set (a_waiting a)"
proof -
  have c: "count (place a th) h \<le> 1" for h
    using mset_subset_eq_count [OF assms, of h] by (cases "h \<in> {0..<k}") (auto simp: count_mset_set')
  show "fst ht \<notin> fst ` set ws" if "a_waiting a = ht # ws"
  proof
    assume "fst ht \<in> fst ` set ws"
    then have "fst ht \<in># image_mset fst (mset ws)" by simp
    then have "0 < count (image_mset fst (mset ws)) (fst ht)" unfolding count_greater_zero_iff .
    then show False using c [of "fst ht"] that by (simp add: place_def count_eq_zero_iff)
  qed
  show "h \<notin> fst ` set (a_waiting a)" if "th_exec th = Executing h"
  proof
    assume "h \<in> fst ` set (a_waiting a)"
    then have "h \<in># image_mset fst (mset (a_waiting a))" by simp
    then have "0 < count (image_mset fst (mset (a_waiting a))) h" unfolding count_greater_zero_iff .
    then show False using c [of h] that by (simp add: place_def count_eq_zero_iff)
  qed
qed

lemma step_drain:
  assumes inv: "sys_inv k s" and i: "i < length (tthreads s)" "tthreads s ! i = th" "th_phase th = Drain" "th_exec th = NoTask"
    and op: "take_external i (tq s) = Inr (ts, q)"
  shows "sys_inv k (set_thread i (th\<lparr>th_phase := Batch, th_batch := ts, th_now := clock s\<rparr>) (s\<lparr>tq := q\<rparr>))"
proof (rule sys_thread_step [OF inv i(1)])
  fix a
  assume a: "thread_ok k (length (tthreads s)) (holding s) i (PerThreadContext (tq s) ! i) a (tthreads s ! i)"
  obtain c' where c': "take_external i (tq s) = Inr (a_external a, set_context i c' (tq s))" "ctx_of k c' (a\<lparr>a_external := []\<rparr>)"
    using take_external_ctx [OF thread_okD(1) [OF a]] by blast
  have b: "th_batch th = []" using thread_okD(4) [OF a] i by simp
  show "step_of k s i a (set_thread i (th\<lparr>th_phase := Batch, th_batch := ts, th_now := clock s\<rparr>) (s\<lparr>tq := q\<rparr>))"
    by (rule context_step [OF a i(1) c'(2), where th' = "th\<lparr>th_phase := Batch, th_batch := ts, th_now := clock s\<rparr>"])
       (use c'(1) op i b thread_okD(3) [OF a] in \<open>auto simp: place_def denied_def outside_def\<close>)
qed

lemma step_resume_external:
  assumes inv: "sys_inv k s" and i: "i < length (tthreads s)" "tthreads s ! i = th" "th_phase th = Batch" "th_exec th = NoTask"
    and b: "th_batch th = (h, t) # ts"
  shows "sys_inv k (set_thread i (th\<lparr>th_batch := ts, th_exec := Executing h\<rparr>) s)"
proof (rule sys_thread_step [OF inv i(1)])
  fix a
  assume a: "thread_ok k (length (tthreads s)) (holding s) i (PerThreadContext (tq s) ! i) a (tthreads s ! i)"
  show "step_of k s i a (set_thread i (th\<lparr>th_batch := ts, th_exec := Executing h\<rparr>) s)"
    by (rule context_step [OF a i(1), where c' = "PerThreadContext (tq s) ! i" and a' = a and th' = "th\<lparr>th_batch := ts, th_exec := Executing h\<rparr>"])
       (use b i a in \<open>auto simp: place_def denied_def thread_ok_def set_context_def outside_def transient_def\<close>)
qed

lemma step_batch_stop:
  assumes inv: "sys_inv k s" and i: "i < length (tthreads s)" "tthreads s ! i = th" "th_phase th = Batch" "th_exec th = NoTask"
    and st: "ThreadsStop (tq s)"
  shows "sys_inv k (set_thread i (th\<lparr>th_phase := Inflight, th_batch := []\<rparr>) (s\<lparr>dropped := dropped s + mset (map fst (th_batch th))\<rparr>))"
proof (rule sys_thread_step [OF inv i(1)])
  fix a
  assume a: "thread_ok k (length (tthreads s)) (holding s) i (PerThreadContext (tq s) ! i) a (tthreads s ! i)"
  show "step_of k s i a (set_thread i (th\<lparr>th_phase := Inflight, th_batch := []\<rparr>) (s\<lparr>dropped := dropped s + mset (map fst (th_batch th))\<rparr>))"
    by (rule step_ofI [where c' = "PerThreadContext (tq s) ! i" and a' = a and th' = "th\<lparr>th_phase := Inflight, th_batch := []\<rparr>"])
       (use i a st in \<open>auto simp: place_def denied_def thread_ok_def outside_def transient_def intro!: slots_update\<close>)
qed

text \<open>Taking and giving back slots.\<close>

lemma slots_taken:
  assumes "slots_ok q ths H" "try_inflight q = (True, q1)" "h \<notin> H"
  shows "slots_ok q1 ths (insert h H)"
  using assms by (auto simp: slots_ok_def try_inflight_def Let_def)

lemma slots_exceeded:
  assumes "slots_ok q ths H" "try_inflight q = (False, q1)" "i < length ths" "transient (ths ! i) = 0" "transient th' = 1"
  shows "slots_ok q1 (ths[i := th']) H"
  using assms sum_list_update_eq [of i ths transient th'] by (auto simp: slots_ok_def try_inflight_def Let_def)

lemma slots_given_back:
  assumes "slots_ok q ths H" "i < length ths" "transient (ths ! i) = 1" "transient th' = 0"
  shows "slots_ok (q\<lparr>RunningInternalCount := RunningInternalCount q - 1\<rparr>) (ths[i := th']) H"
  using assms sum_list_update_eq [of i ths transient th'] by (auto simp: slots_ok_def)

lemma slots_released: "slots_ok q ths H \<Longrightarrow> h \<in> H \<Longrightarrow> slots_ok (DecInflight q) ths (H - {h})"
proof -
  assume a: "slots_ok q ths H" "h \<in> H"
  then have "0 < card H" by (auto simp: slots_ok_def card_gt_0_iff)
  then show ?thesis using a by (auto simp: slots_ok_def DecInflight_def)
qed

lemma try_inflight_fields:
  assumes "try_inflight q = (b, q1)"
  shows "PerThreadContext q1 = PerThreadContext q" "ThreadsStop q1 = ThreadsStop q" "context_of q1 i = context_of q i"
  using assms by (auto simp: try_inflight_def Let_def context_of_def)

lemma step_admit:
  assumes inv: "sys_inv k s" and i: "i < length (tthreads s)" "tthreads s ! i = th" "th_phase th = Inflight" "th_exec th = NoTask"
    and ne: "\<not> Empty (InflightWaitingTasksInternal (context_of (tq s) i))"
    and op: "try_inflight (tq s) = (True, q1)" "admit_waiting i q1 = Inr (x, q)"
  shows "sys_inv k (s\<lparr>tq := q, holding := set_option x \<union> holding s\<rparr>)"
proof (rule sys_thread_step [OF inv i(1)])
  fix a
  assume a: "thread_ok k (length (tthreads s)) (holding s) i (PerThreadContext (tq s) ! i) a (tthreads s ! i)"
    and pl: "place a (tthreads s ! i) + outside s \<subseteq># mset_set {0..<k}"
  note f = try_inflight_fields [OF op(1)]
  have ctx: "ctx_of k (context_of q1 i) a" using thread_okD(1) [OF a] f(3) by simp
  then have "a_waiting a \<noteq> []" using ne Empty_of f(3) by (auto simp: ctx_of_def)
  then obtain ht ws where w: "a_waiting a = ht # ws" by (cases "a_waiting a") auto
  obtain c' where c': "admit_waiting i q1 = Inr (Some (fst ht), set_context i c' q1)"
    "ctx_of k c' (a\<lparr>a_waiting := ws, a_ready := a_ready a @ [ht]\<rparr>)"
    using admit_waiting_ctx(2) [OF ctx w] place_bounds [OF pl] w by auto
  then have x: "x = Some (fst ht)" "q = set_context i c' q1" using op(2) by auto
  have nh: "fst ht \<notin> holding s" using thread_okD(3) [OF a] w by (auto simp: denied_def)
  have hm: "fst ht mod length (tthreads s) = i" by (rule thread_okD(2) [OF a]) (simp add: place_def w)
  show "step_of k s i a (s\<lparr>tq := q, holding := set_option x \<union> holding s\<rparr>)"
  proof (rule step_ofI [where c' = c' and a' = "a\<lparr>a_waiting := ws, a_ready := a_ready a @ [ht]\<rparr>" and th' = th])
    show "thread_ok k (length (tthreads s)) (holding (s\<lparr>tq := q, holding := set_option x \<union> holding s\<rparr>)) i c' (a\<lparr>a_waiting := ws, a_ready := a_ready a @ [ht]\<rparr>) th"
      using a c'(2) x one_place(1) [OF pl w] i(2,4) w by (auto simp: thread_ok_def place_def denied_def)
    show "slots_ok (tq s) (tthreads s) (holding s) \<Longrightarrow> slots_ok (tq (s\<lparr>tq := q, holding := set_option x \<union> holding s\<rparr>))
        (tthreads (s\<lparr>tq := q, holding := set_option x \<union> holding s\<rparr>)) (holding (s\<lparr>tq := q, holding := set_option x \<union> holding s\<rparr>))"
      using slots_taken [OF _ op(1) nh] x by simp
  qed (use i x f hm w in \<open>auto simp: place_def outside_def list_update_same_conv\<close>)
qed

lemma step_overshoot:
  assumes inv: "sys_inv k s" and i: "i < length (tthreads s)" "tthreads s ! i = th" "th_exec th = NoTask"
    and op: "try_inflight (tq s) = (False, q)"
  shows "sys_inv k (set_thread i (th\<lparr>th_exec := Overshoot\<rparr>) (s\<lparr>tq := q\<rparr>))"
proof (rule sys_thread_step [OF inv i(1)])
  fix a
  assume a: "thread_ok k (length (tthreads s)) (holding s) i (PerThreadContext (tq s) ! i) a (tthreads s ! i)"
  show "step_of k s i a (set_thread i (th\<lparr>th_exec := Overshoot\<rparr>) (s\<lparr>tq := q\<rparr>))"
    by (rule step_ofI [where c' = "PerThreadContext (tq s) ! i" and a' = a and th' = "th\<lparr>th_exec := Overshoot\<rparr>"])
       (use i a op try_inflight_fields [OF op] in
         \<open>auto simp: place_def denied_def thread_ok_def outside_def transient_def intro!: slots_exceeded\<close>)
qed

lemma step_take_back:
  assumes inv: "sys_inv k s" and i: "i < length (tthreads s)" "tthreads s ! i = th" "th_phase th = Inflight" "th_exec th = Overshoot"
  shows "sys_inv k (set_thread i (th\<lparr>th_phase := Sleep, th_exec := NoTask\<rparr>) (s\<lparr>tq := DecInflight (tq s)\<rparr>))"
proof (rule sys_thread_step [OF inv i(1)])
  fix a
  assume a: "thread_ok k (length (tthreads s)) (holding s) i (PerThreadContext (tq s) ! i) a (tthreads s ! i)"
  show "step_of k s i a (set_thread i (th\<lparr>th_phase := Sleep, th_exec := NoTask\<rparr>) (s\<lparr>tq := DecInflight (tq s)\<rparr>))"
    by (rule step_ofI [where c' = "PerThreadContext (tq s) ! i" and a' = a and th' = "th\<lparr>th_phase := Sleep, th_exec := NoTask\<rparr>"])
       (use i a in \<open>auto simp: place_def denied_def thread_ok_def outside_def DecInflight_def transient_def intro!: slots_given_back [simplified]\<close>)
qed

text \<open>The timer, the ready queue, and the operations of a running coroutine.\<close>

lemma after_Inr [simp]: "after (Inr q) f s = f (s\<lparr>tq := q\<rparr>)"
  by (simp add: after_def)

lemma hint_of:
  assumes "thread_ok k (length (tthreads s)) H i (PerThreadContext (tq s) ! i) a th" "h \<in># place a th"
    "length (PerThreadContext (tq s)) = length (tthreads s)"
  shows "hint_index (tq s) h = i"
  using thread_okD(2) [OF assms(1,2)] assms(3) by (simp add: hint_index_def)

lemma step_wake:
  assumes inv: "sys_inv k s" and srt: "std_sort srt" and i: "i < length (tthreads s)" "tthreads s ! i = th"
    and due: "sleeping_due i now (tq s) = Inr True"
  shows "sys_inv k (after (wake_one srt i (clock s) (tq s)) id s)"
proof (rule sys_thread_step [OF inv i(1)])
  fix a
  assume a: "thread_ok k (length (tthreads s)) (holding s) i (PerThreadContext (tq s) ! i) a (tthreads s ! i)"
    and pl: "place a (tthreads s ! i) + outside s \<subseteq># mset_set {0..<k}" and len: "length (PerThreadContext (tq s)) = length (tthreads s)"
  note ctx = thread_okD(1) [OF a]
  have ne: "a_sleeping a \<noteq> {#}" using sleeping_due_ctx [OF ctx, of now] due by auto
  obtain it c' where w: "it \<in># a_sleeping a" "wake_one srt i (clock s) (tq s) = Inr (set_context i c' (tq s))"
    "ctx_of k c' (a\<lparr>a_sleeping := a_sleeping a - {#it#}, a_ready := a_ready a @ [(Value it, clock s)]\<rparr>)"
    using wake_one_ctx [OF srt ctx ne place_bounds [OF pl], where now = "clock s"] ne i(1) len by auto
  obtain M where M: "a_sleeping a = add_mset it M" using w(1) by (metis mset_add)
  have pe: "place (a\<lparr>a_sleeping := a_sleeping a - {#it#}, a_ready := a_ready a @ [(Value it, clock s)]\<rparr>) (tthreads s ! i)
      = place a (tthreads s ! i)"
    using M by (simp add: place_def)
  show "step_of k s i a (after (wake_one srt i (clock s) (tq s)) id s)"
    unfolding w(2) after_Inr
    by (rule context_step [OF a i(1) w(3), where th' = "tthreads s ! i"])
       (use thread_okD(3,4) [OF a] in \<open>simp_all add: pe outside_def, simp_all add: denied_def\<close>)
qed

lemma step_resume_internal:
  assumes inv: "sys_inv k s" and i: "i < length (tthreads s)" "tthreads s ! i = th" "th_phase th = Internal" "th_exec th = NoTask"
    and op: "pop_internal i (tq s) = Inr (x, q)"
  shows "sys_inv k (set_thread i (th\<lparr>th_phase := Drain, th_exec := (case x of None \<Rightarrow> NoTask | Some h \<Rightarrow> Executing h)\<rparr>) (s\<lparr>tq := q\<rparr>))"
    (is "sys_inv k (set_thread i ?th' _)")
proof (rule sys_thread_step [OF inv i(1)])
  fix a
  assume a: "thread_ok k (length (tthreads s)) (holding s) i (PerThreadContext (tq s) ! i) a (tthreads s ! i)"
  obtain c' where c': "pop_internal i (tq s) = Inr (if a_ready a = [] then None else Some (fst (hd (a_ready a))), set_context i c' (tq s))"
    "ctx_of k c' (a\<lparr>a_ready := tl (a_ready a)\<rparr>)"
    using pop_internal_ctx [OF thread_okD(1) [OF a]] by blast
  show "step_of k s i a (set_thread i ?th' (s\<lparr>tq := q\<rparr>))"
    by (rule context_step [OF a i(1) c'(2), where th' = ?th'])
       (use i a c'(1) op in \<open>cases "a_ready a"; auto simp: place_def denied_def outside_def thread_ok_def transient_def\<close>)+
qed

text \<open>A coroutine leaves its thread for one of the thread's queues.\<close>

lemma step_yield:
  assumes inv: "sys_inv k s" and i: "i < length (tthreads s)" "tthreads s ! i = th" "th_exec th = Executing h"
  shows "sys_inv k (after (TaskReady h h (clock s) (tq s)) (set_thread i (th\<lparr>th_exec := NoTask\<rparr>)) s)"
proof (rule sys_thread_step [OF inv i(1)])
  fix a
  assume a: "thread_ok k (length (tthreads s)) (holding s) i (PerThreadContext (tq s) ! i) a (tthreads s ! i)"
    and pl: "place a (tthreads s ! i) + outside s \<subseteq># mset_set {0..<k}" and len: "length (PerThreadContext (tq s)) = length (tthreads s)"
  have hi: "hint_index (tq s) h = i" by (rule hint_of [OF a _ len]) (use i in \<open>simp add: place_def\<close>)
  obtain c' where c': "TaskReady h h (clock s) (tq s) = Inr (set_context i c' (tq s))" "ctx_of k c' (a\<lparr>a_ready := a_ready a @ [(h, clock s)]\<rparr>)"
    using push_ready_ctx [OF thread_okD(1) [OF a], of "''internal''" "(h, clock s)"] place_room(3) [OF pl] i hi by (auto simp: TaskReady_def)
  show "step_of k s i a (after (TaskReady h h (clock s) (tq s)) (set_thread i (th\<lparr>th_exec := NoTask\<rparr>)) s)"
    unfolding c'(1) after_Inr
    by (rule context_step [OF a i(1) c'(2), where th' = "th\<lparr>th_exec := NoTask\<rparr>"])
       (use i a in \<open>auto simp: place_def denied_def outside_def thread_ok_def transient_def\<close>)
qed

lemma step_sleep:
  assumes inv: "sys_inv k s" and i: "i < length (tthreads s)" "tthreads s ! i = th" "th_exec th = Executing h"
    and d: "add_delay (clock s) delay = Inr d"
  shows "sys_inv k (after (AsyncSleep h h delay (clock s) (tq s)) (set_thread i (th\<lparr>th_exec := NoTask\<rparr>)) s)"
proof (rule sys_thread_step [OF inv i(1)])
  fix a
  assume a: "thread_ok k (length (tthreads s)) (holding s) i (PerThreadContext (tq s) ! i) a (tthreads s ! i)"
    and len: "length (PerThreadContext (tq s)) = length (tthreads s)"
  have hi: "hint_index (tq s) h = i" by (rule hint_of [OF a _ len]) (use i in \<open>simp add: place_def\<close>)
  obtain c' where c': "AsyncSleep h h delay (clock s) (tq s) = Inr (set_context i c' (tq s))"
    "ctx_of k c' (a\<lparr>a_sleeping := add_mset \<lparr>Deadline = d, Value = h\<rparr> (a_sleeping a)\<rparr>)"
    using AsyncSleep_ctx [OF thread_okD(1) [OF a] hi d] by blast
  show "step_of k s i a (after (AsyncSleep h h delay (clock s) (tq s)) (set_thread i (th\<lparr>th_exec := NoTask\<rparr>)) s)"
    unfolding c'(1) after_Inr
    by (rule context_step [OF a i(1) c'(2), where th' = "th\<lparr>th_exec := NoTask\<rparr>"])
       (use i a in \<open>auto simp: place_def denied_def outside_def thread_ok_def transient_def\<close>)
qed

lemma step_back_off:
  assumes inv: "sys_inv k s" and i: "i < length (tthreads s)" "tthreads s ! i = th" "th_exec th = BackingOff h"
  shows "sys_inv k (after (wait_inflight h h (clock s) (tq s)) (set_thread i (th\<lparr>th_exec := NoTask\<rparr>)) s)"
proof (rule sys_thread_step [OF inv i(1)])
  fix a
  assume a: "thread_ok k (length (tthreads s)) (holding s) i (PerThreadContext (tq s) ! i) a (tthreads s ! i)"
    and pl: "place a (tthreads s ! i) + outside s \<subseteq># mset_set {0..<k}" and len: "length (PerThreadContext (tq s)) = length (tthreads s)"
  have hi: "hint_index (tq s) h = i" by (rule hint_of [OF a _ len]) (use i in \<open>simp add: place_def\<close>)
  obtain c' where c': "wait_inflight h h (clock s) (tq s)
      = Inr (set_context i c' ((tq s)\<lparr>RunningInternalCount := RunningInternalCount (tq s) - 1\<rparr>))"
    "ctx_of k c' (a\<lparr>a_waiting := a_waiting a @ [(h, clock s)]\<rparr>)"
    using wait_inflight_ctx [OF thread_okD(1) [OF a] hi] place_room(1) [OF pl] i by auto
  show "step_of k s i a (after (wait_inflight h h (clock s) (tq s)) (set_thread i (th\<lparr>th_exec := NoTask\<rparr>)) s)"
    unfolding c'(1) after_Inr
  proof (rule step_ofI [where c' = c' and a' = "a\<lparr>a_waiting := a_waiting a @ [(h, clock s)]\<rparr>" and th' = "th\<lparr>th_exec := NoTask\<rparr>"])
    assume "slots_ok (tq s) (tthreads s) (holding s)"
    from slots_given_back [OF this i(1), of "th\<lparr>th_exec := NoTask\<rparr>"] i
    show "slots_ok (tq (set_thread i (th\<lparr>th_exec := NoTask\<rparr>) (s\<lparr>tq := set_context i c' ((tq s)\<lparr>RunningInternalCount := RunningInternalCount (tq s) - 1\<rparr>)\<rparr>)))
      (tthreads (set_thread i (th\<lparr>th_exec := NoTask\<rparr>) (s\<lparr>tq := set_context i c' ((tq s)\<lparr>RunningInternalCount := RunningInternalCount (tq s) - 1\<rparr>)\<rparr>)))
      (holding (set_thread i (th\<lparr>th_exec := NoTask\<rparr>) (s\<lparr>tq := set_context i c' ((tq s)\<lparr>RunningInternalCount := RunningInternalCount (tq s) - 1\<rparr>)\<rparr>)))"
      by simp
  qed (use i a c'(2) in \<open>auto simp: place_def denied_def outside_def thread_ok_def\<close>)
qed

lemma step_inc_ok:
  assumes inv: "sys_inv k s" and i: "i < length (tthreads s)" "tthreads s ! i = th" "th_exec th = Executing h" "h \<notin> holding s"
    and op: "try_inflight (tq s) = (True, q)"
  shows "sys_inv k (s\<lparr>tq := q, holding := insert h (holding s)\<rparr>)"
proof (rule sys_thread_step [OF inv i(1)])
  fix a
  assume a: "thread_ok k (length (tthreads s)) (holding s) i (PerThreadContext (tq s) ! i) a (tthreads s ! i)"
    and pl: "place a (tthreads s ! i) + outside s \<subseteq># mset_set {0..<k}"
  have "h \<notin> fst ` set (a_waiting a)" using one_place(2) [OF pl] i by simp
  moreover have "h mod length (tthreads s) = i" by (rule thread_okD(2) [OF a]) (use i in \<open>simp add: place_def\<close>)
  moreover note i(3,4) try_inflight_fields [OF op]
  ultimately have t: "thread_ok k (length (tthreads s)) (insert h (holding s)) i (PerThreadContext (tq s) ! i) a (tthreads s ! i)"
    and m: "h mod length (tthreads s) = i" and p: "PerThreadContext q = PerThreadContext (tq s)" "ThreadsStop q = ThreadsStop (tq s)"
    using a i(2) by (auto simp: denied_def thread_ok_def)
  show "step_of k s i a (s\<lparr>tq := q, holding := insert h (holding s)\<rparr>)"
    by (rule step_ofI [where c' = "PerThreadContext (tq s) ! i" and a' = a and th' = "tthreads s ! i"])
       (use t m p slots_taken [OF _ op i(4)] in \<open>auto simp: outside_def\<close>)
qed

lemma step_inc_full:
  assumes inv: "sys_inv k s" and i: "i < length (tthreads s)" "tthreads s ! i = th" "th_exec th = Executing h" "h \<notin> holding s"
    and op: "try_inflight (tq s) = (False, q)"
  shows "sys_inv k (set_thread i (th\<lparr>th_exec := BackingOff h\<rparr>) (s\<lparr>tq := q\<rparr>))"
proof (rule sys_thread_step [OF inv i(1)])
  fix a
  assume a: "thread_ok k (length (tthreads s)) (holding s) i (PerThreadContext (tq s) ! i) a (tthreads s ! i)"
  let ?th' = "th\<lparr>th_exec := BackingOff h\<rparr>"
  have pe: "place a ?th' = place a (tthreads s ! i)" using i by (simp add: place_def)
  have "thread_ok k (length (tthreads s)) (holding s) i (PerThreadContext (tq s) ! i) a ?th'"
    using a i unfolding thread_ok_def pe by (auto simp: denied_def)
  moreover have "slots_ok (tq s) (tthreads s) (holding s) \<Longrightarrow> slots_ok q ((tthreads s)[i := ?th']) (holding s)"
    using slots_exceeded [OF _ op i(1), of _ ?th'] i by simp
  ultimately show "step_of k s i a (set_thread i ?th' (s\<lparr>tq := q\<rparr>))"
    using try_inflight_fields [OF op]
    by (intro step_ofI [where c' = "PerThreadContext (tq s) ! i" and a' = a and th' = ?th']) (simp_all add: pe outside_def)
qed

lemma step_dec:
  assumes inv: "sys_inv k s" and i: "i < length (tthreads s)" "h \<in> holding s"
  shows "sys_inv k (s\<lparr>tq := DecInflight (tq s), holding := holding s - {h}\<rparr>)"
proof (rule sys_thread_step [OF inv i(1)])
  fix a
  assume a: "thread_ok k (length (tthreads s)) (holding s) i (PerThreadContext (tq s) ! i) a (tthreads s ! i)"
  have p: "PerThreadContext (DecInflight (tq s)) = PerThreadContext (tq s)" "ThreadsStop (DecInflight (tq s)) = ThreadsStop (tq s)"
    by (simp_all add: DecInflight_def)
  have t: "thread_ok k (length (tthreads s)) (holding s - {h}) i (PerThreadContext (tq s) ! i) a (tthreads s ! i)"
    using a unfolding thread_ok_def by blast
  show "step_of k s i a (s\<lparr>tq := DecInflight (tq s), holding := holding s - {h}\<rparr>)"
    by (rule step_ofI [where c' = "PerThreadContext (tq s) ! i" and a' = a and th' = "tthreads s ! i"])
       (use t p i(2) in \<open>simp_all add: outside_def slots_released\<close>)
qed

lemma step_leave:
  assumes inv: "sys_inv k s" and i: "i < length (tthreads s)" "tthreads s ! i = th" "th_exec th = Executing h"
    and s': "outside s' = add_mset h (outside s)" "tq s' = tq s" "tthreads s' = tthreads s" "holding s' = holding s" "failed s' = failed s"
      "dropped s' = dropped s"
  shows "sys_inv k (set_thread i (th\<lparr>th_exec := NoTask\<rparr>) s')"
proof (rule sys_thread_step [OF inv i(1)])
  fix a
  assume a: "thread_ok k (length (tthreads s)) (holding s) i (PerThreadContext (tq s) ! i) a (tthreads s ! i)"
  let ?th' = "th\<lparr>th_exec := NoTask\<rparr>"
  have pe: "place a (tthreads s ! i) = add_mset h (place a ?th')" using i by (simp add: place_def)
  have "thread_ok k (length (tthreads s)) (holding s) i (PerThreadContext (tq s) ! i) a ?th'"
    using a i unfolding thread_ok_def pe by (auto simp: denied_def)
  moreover have "slots_ok (tq s) (tthreads s) (holding s) \<Longrightarrow> slots_ok (tq s) ((tthreads s)[i := ?th']) (holding s)"
    using i by (intro slots_update) (simp_all add: transient_def)
  ultimately show "step_of k s i a (set_thread i ?th' s')"
    by (intro step_ofI [where c' = "PerThreadContext (tq s) ! i" and a' = a and th' = ?th']) (simp_all add: pe s')
qed

lemma step_complete:
  assumes inv: "sys_inv k s" and h: "h \<in># awaiting s"
  shows "sys_inv k (after (TaskReadyThreadSafe h h (clock s) (tq s)) (\<lambda>s. s\<lparr>awaiting := awaiting s - {#h#}\<rparr>) s)"
proof -
  let ?i = "h mod length (tthreads s)"
  have len: "length (PerThreadContext (tq s)) = length (tthreads s)" "tthreads s \<noteq> []" using inv by (auto simp: sys_inv_def placed_def)
  then have i: "?i < length (tthreads s)" by simp
  have hi: "hint_index (tq s) h = ?i" using len by (simp add: hint_index_def)
  obtain W where W: "awaiting s = add_mset h W" using h by (metis mset_add)
  show ?thesis
  proof (rule sys_thread_step [OF inv i])
    fix a
    assume a: "thread_ok k (length (tthreads s)) (holding s) ?i (PerThreadContext (tq s) ! ?i) a (tthreads s ! ?i)"
      and pl: "place a (tthreads s ! ?i) + outside s \<subseteq># mset_set {0..<k}"
    have "exec_handle (th_exec (tthreads s ! ?i)) + outside s \<noteq> {#}" using W by (simp add: outside_def)
    then obtain c' where c': "TaskReadyThreadSafe h h (clock s) (tq s) = Inr (set_context ?i c' (tq s))"
      "ctx_of k c' (a\<lparr>a_external := a_external a @ [(h, clock s)]\<rparr>)"
      using TaskReadyThreadSafe_ctx [OF thread_okD(1) [OF a] hi] place_room(2) [OF pl] by blast
    show "step_of k s ?i a (after (TaskReadyThreadSafe h h (clock s) (tq s)) (\<lambda>s. s\<lparr>awaiting := awaiting s - {#h#}\<rparr>) s)"
      unfolding c'(1) after_Inr
      by (rule context_step [OF a i c'(2), where th' = "tthreads s ! ?i"])
         (use thread_okD(3,4) [OF a] W in \<open>auto simp: place_def denied_def outside_def\<close>)
  qed
qed

lemma no_crash:
  assumes inv: "sys_inv k s" and i: "i < length (tthreads s)"
  shows "take_external i (tq s) \<noteq> Inl e" "admit_waiting i (tq s) \<noteq> Inl e" "sleeping_due i now (tq s) \<noteq> Inl e" "pop_internal i (tq s) \<noteq> Inl e"
proof -
  have pl: "placed k (holding s) (PerThreadContext (tq s)) (tthreads s) (outside s)" using inv by (simp add: sys_inv_def)
  obtain a where a: "thread_ok k (length (tthreads s)) (holding s) i (PerThreadContext (tq s) ! i) a (tthreads s ! i)"
    "place a (tthreads s ! i) + outside s \<subseteq># mset_set {0..<k}"
    using placed_thread [OF pl i] by metis
  note ctx = thread_okD(1) [OF a(1)]
  show "take_external i (tq s) \<noteq> Inl e" "sleeping_due i now (tq s) \<noteq> Inl e" "pop_internal i (tq s) \<noteq> Inl e"
    using take_external_ctx [OF ctx] sleeping_due_ctx [OF ctx, of now] pop_internal_ctx [OF ctx] by auto
  show "admit_waiting i (tq s) \<noteq> Inl e"
    using admit_waiting_ctx [OF ctx] place_bounds [OF a(2)] by (cases "a_waiting a") fastforce+
qed

lemma sys_step_safe:
  assumes "tq_step srt s s'" "std_sort srt" "sys_inv k s"
  shows "sys_inv k s'"
  using assms(1)
proof cases
  case (drain i th ts q)
  then show ?thesis using step_drain [OF assms(3)] by simp
next
  case (stop i th)
  then show ?thesis using move_on [OF assms(3), of i th Stopped] by simp
next
  case (resume_external i th h t ts)
  then show ?thesis using step_resume_external [OF assms(3)] by simp
next
  case (batch_stop i th)
  then show ?thesis using step_batch_stop [OF assms(3)] by simp
next
  case (batch_done i th)
  then show ?thesis using move_on [OF assms(3), of i th Inflight] by simp
next
  case (admit i th q1 x q)
  then show ?thesis using step_admit [OF assms(3)] by simp
next
  case (overshoot i th q)
  then show ?thesis using step_overshoot [OF assms(3)] by simp
next
  case (take_back i th)
  then show ?thesis using step_take_back [OF assms(3)] by simp
next
  case (inflight_done i th)
  then show ?thesis using move_on [OF assms(3), of i th Sleep] by simp
next
  case (wake i th)
  then show ?thesis using step_wake [OF assms(3,2)] by simp
next
  case (sleep_done i th)
  then show ?thesis using move_on [OF assms(3), of i th Internal] by simp
next
  case (resume_internal i th x q)
  then show ?thesis using step_resume_internal [OF assms(3)] by simp
next
  case (crash i e now)
  then show ?thesis using no_crash [OF assms(3)] by blast
next
  case (yield i th h)
  then show ?thesis using step_yield [OF assms(3)] by simp
next
  case (sleep i th h delay d)
  then show ?thesis using step_sleep [OF assms(3)] by simp
next
  case (inc_ok i th h q)
  then show ?thesis using step_inc_ok [OF assms(3)] by simp
next
  case (inc_full i th h q)
  then show ?thesis using step_inc_full [OF assms(3)] by simp
next
  case (back_off i th h)
  then show ?thesis using step_back_off [OF assms(3)] by simp
next
  case (dec i th h)
  then show ?thesis using step_dec [OF assms(3)] by simp
next
  case (await i th h)
  then show ?thesis using step_leave [OF assms(3), of i th h "s\<lparr>awaiting := add_mset h (awaiting s)\<rparr>"] by (simp add: outside_def)
next
  case (finish i th h)
  then show ?thesis using step_leave [OF assms(3), of i th h "s\<lparr>finished := add_mset h (finished s)\<rparr>"] by (simp add: outside_def)
next
  case (complete h)
  then show ?thesis using step_complete [OF assms(3)] by simp
qed (use assms(3) in \<open>simp_all add: sys_inv_def outside_def slots_ok_def WakeupAndNeverSleep_def\<close>)

lemma sys_run_safe: "(tq_step srt)\<^sup>*\<^sup>* s s' \<Longrightarrow> std_sort srt \<Longrightarrow> sys_inv k s \<Longrightarrow> sys_inv k s'"
  by (induction rule: rtranclp_induct) (auto intro: sys_step_safe)

section \<open>The benchmark's queue\<close>

lemma new_queue_of:
  assumes "0 < T" "T < 2 ^ 63"
  shows "\<exists>q. Resize d (word_of_nat T) new_TSpscCircularQueue = Inr q \<and> spsc_of T q []"
proof -
  have u: "unat (word_of_nat T :: u64) = T" using assms(2) by (simp add: unat_of_nat)
  obtain k q where q: "Resize d (word_of_nat T) new_TSpscCircularQueue = Inr q" "spsc_inv k q [] [] 0 0" "T \<le> 2 ^ k"
    using Resize_spsc_inv [of "word_of_nat T" d new_TSpscCircularQueue] assms u by auto
  have "spsc_holds q []" unfolding spsc_holds_def using q(2) by (intro exI [of _ k] exI [of _ "[]"] exI [of _ 0]) simp
  moreover have "unat (Capacity q) = 2 ^ k" using q(2) unat_pow2_u64 [of k] by (simp add: spsc_inv_def)
  ultimately show ?thesis using q by (auto simp: spsc_of_def)
qed

lemma new_context_of:
  assumes "new_TPerThreadContext T T = Inr c" "0 < T" "T < 2 ^ 63"
  shows "ctx_of T c \<lparr>a_sleeping = {#}, a_ready = [], a_waiting = [], a_external = []\<rparr>"
proof -
  obtain r where r: "Resize (0 :: nat, 0 :: int) (word_of_nat T) new_TSpscCircularQueue = Inr r" "spsc_of T r []"
    using new_queue_of [OF assms(2,3), of "(0 :: nat, 0 :: int)"] by (elim exE conjE)
  obtain t where t: "new_TBinnedTimerQueue ((T + 100 - 1) div 100) 100 = Inr t" "SleepingTasks c = t" and
    c: "ReadyTasksInternal c = r" "InflightWaitingTasksInternal c = r" "ReadyTasksExternal c = r"
    using assms(1) unfolding new_TPerThreadContext_def Let_def r(1) rbind_simps rbind_eq_Inr by auto
  then show ?thesis using new_TBinnedTimerQueue_holds [OF t(1)] r(2) by (simp add: ctx_of_def)
qed

lemma init_inv:
  assumes "new_TTaskQueue n m T T = Inr q" "0 < T" "T < 2 ^ 63"
  shows "sys_inv T (tq_init q T)"
proof -
  let ?a = "\<lparr>a_sleeping = {#}, a_ready = [], a_waiting = [], a_external = []\<rparr>"
  let ?th = "\<lparr>th_phase = Drain, th_batch = [], th_exec = NoTask, th_now = 0\<rparr>"
  obtain c where c: "new_TPerThreadContext T T = Inr c" and q: "0 < n" "PerThreadContext q = replicate n c" "RunningInternalCount q = 0"
    using assms(1) by (auto simp: new_TTaskQueue_def split: if_splits)
  have p: "place ?a ?th = {#}" "denied ?a ?th = {}" by (simp_all add: place_def denied_def)
  have "thread_ok T n {} i c ?a ?th" for i
    using new_context_of [OF c assms(2,3)] p by (simp add: thread_ok_def)
  moreover have "sum_list (map2 place (replicate n ?a) (replicate n ?th)) = {#}"
    by (induction n) (simp_all add: p)
  ultimately have "placed T {} (replicate n c) (replicate n ?th) (mset_set {0..<T})"
    unfolding placed_def using q(1) by (auto intro!: exI [of _ "replicate n ?a"])
  moreover have "slots_ok q (replicate n ?th) {}" using q(3) by (simp add: slots_ok_def transient_def sum_list_replicate)
  ultimately show ?thesis using q(2) by (simp add: sys_inv_def tq_init_def outside_def)
qed

section \<open>What never changes\<close>

lemma push_ready_const: "push_ready what ht i q = Inr q' \<Longrightarrow> MaxRunningInternal q' = MaxRunningInternal q"
  by (auto simp: push_ready_def HandleQueueFull_def Let_def split: if_splits option.splits)

lemma AsyncSleep_const: "AsyncSleep h hint delay now q = Inr q' \<Longrightarrow> MaxRunningInternal q' = MaxRunningInternal q"
  by (auto simp: AsyncSleep_def HandleQueueFull_def Let_def split: if_splits option.splits)

lemma wait_inflight_const: "wait_inflight h hint now q = Inr q' \<Longrightarrow> MaxRunningInternal q' = MaxRunningInternal q"
  by (auto simp: wait_inflight_def HandleQueueFull_def Let_def split: if_splits option.splits)

lemma TaskReadyThreadSafe_const: "TaskReadyThreadSafe h hint now q = Inr q' \<Longrightarrow> MaxRunningInternal q' = MaxRunningInternal q"
  by (auto simp: TaskReadyThreadSafe_def HandleQueueFull_def Let_def split: if_splits option.splits)

lemma take_external_const: "take_external i q = Inr (ts, q') \<Longrightarrow> MaxRunningInternal q' = MaxRunningInternal q"
  by (auto simp: take_external_def HandleQueueFull_def Let_def split: if_splits option.splits)

lemma admit_waiting_const: "admit_waiting i q = Inr (x, q') \<Longrightarrow> MaxRunningInternal q' = MaxRunningInternal q"
  by (auto simp: admit_waiting_def HandleQueueFull_def Let_def split: if_splits option.splits)

lemma pop_internal_const: "pop_internal i q = Inr (x, q') \<Longrightarrow> MaxRunningInternal q' = MaxRunningInternal q"
  by (auto simp: pop_internal_def HandleQueueFull_def Let_def split: if_splits option.splits)

lemma try_inflight_const: "try_inflight q = (b, q') \<Longrightarrow> MaxRunningInternal q' = MaxRunningInternal q"
  by (auto simp: try_inflight_def Let_def)

lemmas ops_const = push_ready_const AsyncSleep_const wait_inflight_const TaskReadyThreadSafe_const take_external_const
  admit_waiting_const pop_internal_const try_inflight_const

lemma wake_one_const: "wake_one srt i now q = Inr q' \<Longrightarrow> MaxRunningInternal q' = MaxRunningInternal q"
  by (auto simp: wake_one_def Let_def dest: push_ready_const)

lemma after_const:
  assumes "\<And>q. r = Inr q \<Longrightarrow> MaxRunningInternal q = MaxRunningInternal (tq s)"
    "\<And>s. tq (f s) = tq s" "\<And>s. length (tthreads (f s)) = length (tthreads s)"
  shows "MaxRunningInternal (tq (after r f s)) = MaxRunningInternal (tq s)" "length (tthreads (after r f s)) = length (tthreads s)"
  by (cases r; use assms(1) in \<open>simp add: after_def assms(2,3)\<close>)+

lemma step_const:
  assumes "tq_step srt s s'"
  shows "MaxRunningInternal (tq s') = MaxRunningInternal (tq s) \<and> length (tthreads s') = length (tthreads s)"
  using assms
proof cases
  case (admit i th q1 x q)
  then show ?thesis using try_inflight_const [of "tq s" True q1] admit_waiting_const [of i q1 x q] by simp
qed (auto simp: TaskReady_def DecInflight_def WakeupAndNeverSleep_def intro!: after_const dest: ops_const wake_one_const)

lemma run_const:
  assumes "(tq_step srt)\<^sup>*\<^sup>* s s'"
  shows "MaxRunningInternal (tq s') = MaxRunningInternal (tq s)" "length (tthreads s') = length (tthreads s)"
  using assms by (induction rule: rtranclp_induct) (auto dest: step_const)

text \<open>A thread stops between coroutines only.\<close>

definition stopped_idle :: "system \<Rightarrow> bool" where
  "stopped_idle s \<longleftrightarrow> (\<forall>th \<in> set (tthreads s). th_phase th = Stopped \<longrightarrow> th_exec th = NoTask)"

lemma stopped_idle_simps [simp]:
  "stopped_idle (s\<lparr>tq := q\<rparr>) = stopped_idle s" "stopped_idle (s\<lparr>awaiting := M\<rparr>) = stopped_idle s"
  "stopped_idle (s\<lparr>finished := M\<rparr>) = stopped_idle s" "stopped_idle (s\<lparr>dropped := M\<rparr>) = stopped_idle s"
  "stopped_idle (s\<lparr>holding := H\<rparr>) = stopped_idle s" "stopped_idle (s\<lparr>clock := t\<rparr>) = stopped_idle s"
  "stopped_idle (s\<lparr>failed := b\<rparr>) = stopped_idle s"
  by (simp_all add: stopped_idle_def)

lemma stopped_idle_set:
  "stopped_idle s \<Longrightarrow> (th_phase th = Stopped \<Longrightarrow> th_exec th = NoTask) \<Longrightarrow> stopped_idle (set_thread i th s)"
  using set_update_subset_insert [of "tthreads s" i th] by (auto simp: stopped_idle_def)

lemma stopped_idle_after: "stopped_idle s \<Longrightarrow> (\<And>q. stopped_idle (f (s\<lparr>tq := q\<rparr>))) \<Longrightarrow> stopped_idle (after r f s)"
  by (auto simp: after_def stopped_idle_def split: sum.splits)

lemma run_stopped_idle: "(tq_step srt)\<^sup>*\<^sup>* s s' \<Longrightarrow> stopped_idle s \<Longrightarrow> stopped_idle s'"
proof (induction rule: rtranclp_induct)
  case (step s1 s2)
  have idle: "th_exec (tthreads s1 ! i) = NoTask" if "i < length (tthreads s1)" "th_phase (tthreads s1 ! i) = Stopped" for i
    using step.IH step.prems that by (auto simp: stopped_idle_def)
  from step.hyps(2) step.IH [OF step.prems] show ?case
    by cases (auto intro!: stopped_idle_set stopped_idle_after dest!: idle)
qed simp

section \<open>Destroying what is left\<close>

lemma pop_sleeping_of:
  assumes "std_sort srt"
  shows "tq_holds t M \<Longrightarrow> size M \<le> n \<Longrightarrow> \<exists>hs. pop_sleeping srt n t = Inr hs \<and> mset hs = image_mset Value M"
proof (induction n arbitrary: t M)
  case (Suc n)
  note sz = tq_holds_size [OF Suc.prems(1)]
  show ?case
  proof (cases "M = {#}")
    case False
    obtain it t1 where p: "PopFront srt t = Inr (it, t1)" "it \<in># M" "tq_holds t1 (M - {#it#})"
      using std_sort.PopFront_holds [OF assms Suc.prems(1) False] by blast
    obtain N where N: "M = add_mset it N" using p(2) by (metis mset_add)
    obtain hs where "pop_sleeping srt n t1 = Inr hs" "mset hs = image_mset Value N"
      using Suc.IH [of t1 N] Suc.prems(2) p(3) N by auto
    then show ?thesis using p(1) N sz by auto
  qed (use sz in simp)
qed simp

lemma pop_handles_of: "spsc_of k q xs \<Longrightarrow> pop_handles q = Inr (map fst xs)"
  using pop_all_of [of k q xs "unat (Capacity q) + 1"] spsc_bound [of k q xs] by (auto simp: pop_handles_def)

lemma destroy_context_of:
  assumes "std_sort srt" "ctx_of k c a"
  shows "\<exists>hs. destroy_context srt c = Inr hs \<and> mset hs = image_mset Value (a_sleeping a) + mset (map fst (a_ready a))
    + mset (map fst (a_waiting a)) + mset (map fst (a_external a))"
proof -
  obtain hs where "pop_sleeping srt (QSize (SleepingTasks c)) (SleepingTasks c) = Inr hs" "mset hs = image_mset Value (a_sleeping a)"
    using pop_sleeping_of [OF assms(1), of "SleepingTasks c" "a_sleeping a"] tq_holds_size assms(2) by (fastforce simp: ctx_of_def)
  moreover have "pop_handles (ReadyTasksInternal c) = Inr (map fst (a_ready a))"
    "pop_handles (InflightWaitingTasksInternal c) = Inr (map fst (a_waiting a))"
    "pop_handles (ReadyTasksExternal c) = Inr (map fst (a_external a))"
    using assms(2) by (auto simp: ctx_of_def intro: pop_handles_of)
  ultimately show ?thesis by (simp add: destroy_context_def ac_simps)
qed

lemma Join_contexts_of:
  assumes "std_sort srt"
  shows "list_all2 (\<lambda>(a, th) c. ctx_of k c a \<and> th_batch th = [] \<and> th_exec th = NoTask) ats cs \<Longrightarrow>
    \<exists>hs. Join_contexts srt cs = Inr hs \<and> mset hs = sum_list (map (\<lambda>(a, th). place a th) ats)"
proof (induction rule: list_all2_induct)
  case (Cons p ats c cs)
  obtain a th where at: "p = (a, th)" "ctx_of k c a" "th_batch th = []" "th_exec th = NoTask" using Cons.hyps(1) by (cases p) auto
  obtain d where "destroy_context srt c = Inr d" "mset d = place a th"
    using destroy_context_of [OF assms at(2)] at(3,4) by (auto simp: place_def)
  then show ?case using Cons.IH at(1) by auto
qed simp

lemma Join_of:
  assumes srt: "std_sort srt" and inv: "sys_inv k s" and st: "\<forall>th \<in> set (tthreads s). th_phase th = Stopped" and idle: "stopped_idle s"
  shows "\<exists>hs. Join_contexts srt (PerThreadContext (tq s)) = Inr hs \<and> mset hs + outside s = mset_set {0..<k}"
proof -
  obtain A where A: "length A = length (tthreads s)" "length (PerThreadContext (tq s)) = length (tthreads s)"
    "\<And>i. i < length (tthreads s) \<Longrightarrow> thread_ok k (length (tthreads s)) (holding s) i (PerThreadContext (tq s) ! i) (A ! i) (tthreads s ! i)"
    "sum_list (map2 place A (tthreads s)) + outside s = mset_set {0..<k}"
    using inv by (auto simp: sys_inv_def placed_def)
  have "list_all2 (\<lambda>(a, th) c. ctx_of k c a \<and> th_batch th = [] \<and> th_exec th = NoTask) (zip A (tthreads s)) (PerThreadContext (tq s))"
  proof (rule list_all2_all_nthI)
    fix i assume "i < length (zip A (tthreads s))"
    then have i: "i < length (tthreads s)" "i < length A" by simp_all
    then have "th_phase (tthreads s ! i) = Stopped" "th_exec (tthreads s ! i) = NoTask"
      using st idle by (auto simp: stopped_idle_def)
    then show "(\<lambda>(a, th) c. ctx_of k c a \<and> th_batch th = [] \<and> th_exec th = NoTask) (zip A (tthreads s) ! i) (PerThreadContext (tq s) ! i)"
      using A(3) [OF i(1)] i by (simp add: thread_ok_def)
  qed (use A in simp)
  then show ?thesis using Join_contexts_of [OF srt] A(4) by fastforce
qed

section \<open>Who holds a slot\<close>

lemma place_of_thread:
  assumes "sys_inv k s" "i < length (tthreads s)" "\<And>a. ctx_of k (context_of (tq s) i) a \<Longrightarrow> h \<in># place a (tthreads s ! i)"
  shows "h < k \<and> h mod length (tthreads s) = i"
proof -
  have "placed k (holding s) (PerThreadContext (tq s)) (tthreads s) (outside s)" using assms(1) by (simp add: sys_inv_def)
  then obtain a where a: "thread_ok k (length (tthreads s)) (holding s) i (PerThreadContext (tq s) ! i) a (tthreads s ! i)"
    "place a (tthreads s ! i) + outside s \<subseteq># mset_set {0..<k}"
    using placed_thread assms(2) by metis
  have h: "h \<in># place a (tthreads s ! i)" by (rule assms(3) [OF thread_okD(1) [OF a(1)]])
  then show ?thesis using thread_okD(2) [OF a(1)] placed_size(2) [OF a(2)] by auto
qed

lemma executing_place:
  assumes "sys_inv k s" "i < length (tthreads s)" "th_exec (tthreads s ! i) = Executing h"
  shows "h < k \<and> h mod length (tthreads s) = i"
  by (rule place_of_thread [OF assms(1,2)]) (use assms(3) in \<open>simp add: place_def\<close>)

lemma admitted_place:
  assumes "admit_waiting i q = Inr (Some h, q')" "ctx_of k (context_of q i) a"
  shows "h \<in># place a th"
proof -
  obtain wq where "TryPop (InflightWaitingTasksInternal (context_of q i)) = Inr (if a_waiting a = [] then None else Some (hd (a_waiting a)), wq)"
    using pop_of [of k "InflightWaitingTasksInternal (context_of q i)" "a_waiting a"] assms(2) by (auto simp: ctx_of_def)
  then have "a_waiting a \<noteq> []" "h = fst (hd (a_waiting a))"
    using assms(1) by (auto simp: admit_waiting_def Let_def split: if_splits)
  then show ?thesis by (cases "a_waiting a") (simp_all add: place_def)
qed

lemma holding_after: "(\<And>s. holding (f s) = holding s) \<Longrightarrow> holding (after r f s) = holding s"
  by (cases r) (simp_all add: after_def)

lemma step_holding:
  assumes "tq_step srt s s'" "sys_inv k s" "holding s \<subseteq> {0..<k}"
  shows "holding s' \<subseteq> {0..<k}"
  using assms(1)
proof cases
  case (admit i th q1 x q)
  note f = try_inflight_fields [OF admit(8)]
  have "h < k" if "x = Some h" for h
  proof -
    have "h < k \<and> h mod length (tthreads s) = i"
      by (rule place_of_thread [OF assms(2) admit(2)], rule admitted_place [of i q1 h q])
         (use admit(9) that f(3) in simp_all)
    then show ?thesis by simp
  qed
  then show ?thesis using assms(3) admit(1) by (cases x) auto
next
  case (inc_ok i th h q)
  then show ?thesis using executing_place [OF assms(2)] assms(3) by auto
qed (use assms(3) in \<open>auto simp: holding_after\<close>)

lemma run_inv:
  assumes "(tq_step srt)\<^sup>*\<^sup>* s s'" "std_sort srt" "sys_inv k s" "holding s \<subseteq> {0..<k}"
  shows "sys_inv k s' \<and> holding s' \<subseteq> {0..<k}"
  using assms(1)
proof (induction rule: rtranclp_induct)
  case (step s1 s2)
  then show ?case using sys_step_safe [OF step.hyps(2) assms(2)] step_holding [OF step.hyps(2)] by blast
qed (use assms in simp)

end
