(* ===== verification/TaskQueueRun.thy ===== *)
theory TaskQueueRun
  imports TaskQueueProofs
begin

text \<open>
  What the invariant of the scheduler gives for the queue that \<open>RunSync\<close> creates (\<open>src/src/runner.cpp\<close>): room for as
  many coroutines as there are terminals.
\<close>

section \<open>Threads and slots\<close>

text \<open>
  (C5) Whatever the interleaving of the threads, of the futures that complete and of a stop request: no queue is
  ever full and no operation throws; a thread only resumes the terminals its number stands for, so no terminal
  runs on two threads; at most \<open>maxRunningInternal\<close> terminals hold a slot, and the counter is theirs plus the
  additions still to be taken back; and as long as no stop is requested no terminal is lost.
\<close>

theorem task_queue_safe:
  assumes q: "new_TTaskQueue n m T T = Inr q" "0 < T" "T < 2 ^ 63" and srt: "std_sort srt"
    and run: "(tq_step srt)\<^sup>*\<^sup>* (tq_init q T) s"
  shows "\<not> failed s \<and> (\<forall>i h. i < n \<and> th_exec (tthreads s ! i) = Executing h \<longrightarrow> h < T \<and> h mod n = i)
    \<and> (m \<noteq> 0 \<longrightarrow> card (holding s) \<le> m) \<and> RunningInternalCount (tq s) = card (holding s) + (\<Sum>th \<leftarrow> tthreads s. transient th)
    \<and> placed T (holding s) (PerThreadContext (tq s)) (tthreads s) (awaiting s + finished s + dropped s)
    \<and> (\<not> ThreadsStop (tq s) \<longrightarrow> dropped s = {#})"
proof -
  have inv: "sys_inv T s" by (rule sys_run_safe [OF run srt init_inv [OF q]])
  have n: "length (tthreads s) = n" and m: "MaxRunningInternal (tq s) = m"
    using q(1) run_const [OF run] by (auto simp: new_TTaskQueue_def tq_init_def split: if_splits)
  have "\<forall>i h. i < n \<and> th_exec (tthreads s ! i) = Executing h \<longrightarrow> h < T \<and> h mod n = i"
    using executing_place [OF inv] n by blast
  then show ?thesis using inv m by (simp add: sys_inv_def slots_ok_def outside_def)
qed

text \<open>
  A first run: terminal 0 is started, thread 0 takes it from its external queue, resumes it and it takes a slot.
\<close>

lemma new_queue_works:
  assumes "0 < n" "0 < T" "T < 2 ^ 63"
  shows "\<exists>q. new_TTaskQueue n m T T = Inr q"
proof -
  obtain r where r: "Resize (0 :: nat, 0 :: int) (word_of_nat T) new_TSpscCircularQueue = Inr r"
    using new_queue_of [OF assms(2,3), of "(0 :: nat, 0 :: int)"] by (elim exE conjE)
  obtain t :: "nat TBinnedTimerQueue" where "new_TBinnedTimerQueue ((T + 100 - 1) div 100) 100 = Inr t"
    by (simp add: new_TBinnedTimerQueue_def TQ_Resize_def Let_def)
  then show ?thesis using assms(1) r by (simp add: new_TTaskQueue_def new_TPerThreadContext_def Let_def)
qed

abbreviation idle_thread :: tthread where
  "idle_thread \<equiv> \<lparr>th_phase = Drain, th_batch = [], th_exec = NoTask, th_now = 0\<rparr>"

lemma terminal_queued:
  assumes "new_TTaskQueue n m T T = Inr q" "0 < T" "T < 2 ^ 63"
  shows "\<exists>c. tq_step srt (tq_init q T) ((tq_init q T)\<lparr>tq := set_context 0 c q, awaiting := mset_set {1..<T}\<rparr>)
    \<and> ctx_of T c \<lparr>a_sleeping = {#}, a_ready = [], a_waiting = [], a_external = [(0, 0)]\<rparr> \<and> 0 < n \<and> length (PerThreadContext q) = n"
proof -
  let ?a = "\<lparr>a_sleeping = {#}, a_ready = [], a_waiting = [], a_external = []\<rparr>"
  obtain c where c: "new_TPerThreadContext T T = Inr c" and q: "0 < n" "PerThreadContext q = replicate n c"
    using assms(1) by (auto simp: new_TTaskQueue_def split: if_splits)
  have "ctx_of T (context_of q 0) ?a" using new_context_of [OF c assms(2,3)] q by (simp add: context_of_def)
  then obtain c' where c': "TaskReadyThreadSafe 0 0 0 q = Inr (set_context 0 c' q)" "ctx_of T c' (?a\<lparr>a_external := [(0, 0)]\<rparr>)"
    using TaskReadyThreadSafe_ctx [of T q 0 ?a 0 0] assms(2) by (auto simp: hint_index_def)
  have "{0..<T} = insert 0 {1..<T}" using assms(2) by auto
  then have T: "mset_set {0..<T} = add_mset 0 (mset_set {1..<T})" by simp
  have "tq_step srt (tq_init q T) (after (TaskReadyThreadSafe 0 0 (clock (tq_init q T)) (tq (tq_init q T)))
      (\<lambda>s. s\<lparr>awaiting := awaiting s - {#0#}\<rparr>) (tq_init q T))"
    by (rule tq_step.complete) (simp add: tq_init_def assms(2))
  then show ?thesis using c' q T by (auto simp: tq_init_def)
qed

lemma terminal_runs:
  assumes "new_TTaskQueue n m T T = Inr q" "0 < T" "T < 2 ^ 63"
  shows "\<exists>s. (tq_step srt)\<^sup>*\<^sup>* (tq_init q T) s \<and> th_exec (tthreads s ! 0) = Executing 0 \<and> holding s = {0} \<and> \<not> ThreadsStop (tq s)"
proof -
  let ?s = "tq_init q T"
  obtain c where s1: "tq_step srt ?s (?s\<lparr>tq := set_context 0 c q, awaiting := mset_set {1..<T}\<rparr>)" and
    c: "ctx_of T c \<lparr>a_sleeping = {#}, a_ready = [], a_waiting = [], a_external = [(0, 0)]\<rparr>" and n: "0 < n" "length (PerThreadContext q) = n"
    using terminal_queued [OF assms] by blast
  let ?s1 = "?s\<lparr>tq := set_context 0 c q, awaiting := mset_set {1..<T}\<rparr>"
  have q: "\<not> ThreadsStop q" "RunningInternalCount q = 0" using assms(1) by (auto simp: new_TTaskQueue_def split: if_splits)
  have "ctx_of T (context_of (tq ?s1) 0) \<lparr>a_sleeping = {#}, a_ready = [], a_waiting = [], a_external = [(0, 0)]\<rparr>"
    using c n by (simp add: context_of_def)
  from take_external_ctx [OF this] obtain c2 where
    t: "take_external 0 (tq ?s1) = Inr ([(0, 0)], set_context 0 c2 (tq ?s1))" by auto
  have th: "0 < length (tthreads ?s1)" "tthreads ?s1 ! 0 = idle_thread" using n by (simp_all add: tq_init_def)
  let ?q2 = "set_context 0 c2 (tq ?s1)"
  let ?s2 = "set_thread 0 (idle_thread\<lparr>th_phase := Batch, th_batch := [(0, 0)], th_now := clock ?s1\<rparr>) (?s1\<lparr>tq := ?q2\<rparr>)"
  have s2: "tq_step srt ?s1 ?s2"
    by (rule tq_step.drain [OF th]) (use q t in simp_all)
  let ?s3 = "set_thread 0 (idle_thread\<lparr>th_phase := Batch, th_batch := [], th_now := clock ?s1, th_exec := Executing 0\<rparr>) ?s2"
  have "tq_step srt ?s2 (set_thread 0 ((idle_thread\<lparr>th_phase := Batch, th_batch := [(0, 0)], th_now := clock ?s1\<rparr>)\<lparr>th_batch := [], th_exec := Executing 0\<rparr>) ?s2)"
    by (rule tq_step.resume_external) (use q th in simp_all)
  then have s3: "tq_step srt ?s2 ?s3" by simp
  have "RunningInternalCount ?q2 = 0" "tq ?s3 = ?q2" using q by simp_all
  then have i: "try_inflight (tq ?s3) = (True, snd (try_inflight ?q2))" by (auto simp: try_inflight_def Let_def)
  have s4: "tq_step srt ?s3 (?s3\<lparr>tq := snd (try_inflight ?q2), holding := insert 0 (holding ?s3)\<rparr>)"
    by (rule tq_step.inc_ok [where i = 0 and h = 0 and th = "idle_thread\<lparr>th_phase := Batch, th_now := clock ?s1, th_exec := Executing 0\<rparr>"])
       (use th i in \<open>simp_all add: tq_init_def\<close>)
  have run: "(tq_step srt)\<^sup>*\<^sup>* ?s (?s3\<lparr>tq := snd (try_inflight ?q2), holding := insert 0 (holding ?s3)\<rparr>)"
    using s1 s2 s3 s4 by (meson converse_rtranclp_into_rtranclp rtranclp.rtrancl_refl)
  show ?thesis
    by (rule exI, rule conjI [OF run]) (use q th in \<open>simp add: tq_init_def try_inflight_def Let_def\<close>)
qed

theorem task_queue_safe_witness:
  "\<exists>q s. new_TTaskQueue 2 1 2 2 = Inr q \<and> (tq_step (sort_key Deadline))\<^sup>*\<^sup>* (tq_init q 2) s \<and> holding s = {0}
     \<and> \<not> failed s \<and> card (holding s) \<le> 1 \<and> dropped s = {#}"
proof -
  obtain q where q: "new_TTaskQueue 2 1 2 2 = Inr q" using new_queue_works [of 2 2 1] by auto
  obtain s where s: "(tq_step (sort_key Deadline))\<^sup>*\<^sup>* (tq_init q 2) s" "holding s = {0}" "\<not> ThreadsStop (tq s)"
    using terminal_runs [OF q] by auto
  show ?thesis using q s task_queue_safe [OF q _ _ std_sort_key s(1)] by auto
qed

section \<open>The end of the run\<close>

text \<open>
  (C26) When all threads have ended, \<open>Join\<close> destroys every coroutine that is still in a queue exactly once, and no other:
  the destroyed ones, those that wait for a future, those that have finished and those a thread dropped on the stop
  request are together all terminals, each counted once. So no handle is destroyed twice, and none after it finished.
\<close>

theorem join_destroys_once:
  assumes "new_TTaskQueue n m T T = Inr q" "0 < T" "T < 2 ^ 63" "std_sort srt" "(tq_step srt)\<^sup>*\<^sup>* (tq_init q T) s"
    "list_all (\<lambda>th. th_phase th = Stopped) (tthreads s)"
  shows "\<exists>hs. Join_contexts srt (PerThreadContext (tq s)) = Inr hs
    \<and> mset hs + awaiting s + finished s + dropped s = mset_set {0..<T}"
proof -
  have "stopped_idle (tq_init q T)" by (auto simp: stopped_idle_def tq_init_def)
  then have "stopped_idle s" by (rule run_stopped_idle [OF assms(5)])
  then show ?thesis
    using Join_of [OF assms(4) sys_run_safe [OF assms(5,4) init_inv [OF assms(1-3)]]] assms(6)
    by (auto simp: list_all_iff outside_def ac_simps)
qed

lemma threads_stop:
  assumes "length (tthreads s) = 1" "tthreads s ! 0 = idle_thread" "\<not> ThreadsStop (tq s)"
  shows "\<exists>s'. (tq_step srt)\<^sup>*\<^sup>* s s' \<and> list_all (\<lambda>th. th_phase th = Stopped) (tthreads s') \<and> awaiting s' = awaiting s \<and> finished s' = finished s"
proof -
  let ?s1 = "s\<lparr>tq := (tq s)\<lparr>ThreadsStop := True\<rparr>\<rparr>"
  let ?s2 = "set_thread 0 (idle_thread\<lparr>th_phase := Stopped\<rparr>) ?s1"
  have s1: "tq_step srt s ?s1" by (rule tq_step.request_stop)
  have s2: "tq_step srt ?s1 ?s2" by (rule tq_step.stop) (use assms in simp_all)
  have "(tq_step srt)\<^sup>*\<^sup>* s ?s2" using s1 s2 by (meson converse_rtranclp_into_rtranclp rtranclp.rtrancl_refl)
  moreover have "list_all (\<lambda>th. th_phase th = Stopped) (tthreads ?s2)" using assms(1) by (cases "tthreads s") auto
  ultimately show ?thesis by (intro exI [of _ ?s2]) simp
qed

theorem join_destroys_once_witness:
  "\<exists>q s hs. new_TTaskQueue 1 1 2 2 = Inr q \<and> (tq_step (sort_key Deadline))\<^sup>*\<^sup>* (tq_init q 2) s
     \<and> list_all (\<lambda>th. th_phase th = Stopped) (tthreads s) \<and> awaiting s = {#1#} \<and> finished s = {#}
     \<and> Join_contexts (sort_key Deadline) (PerThreadContext (tq s)) = Inr hs \<and> mset hs + dropped s = {#0#}"
proof -
  obtain q where q: "new_TTaskQueue 1 1 2 2 = Inr q" using new_queue_works [of 1 2 1] by auto
  obtain c where c: "tq_step (sort_key Deadline) (tq_init q 2) ((tq_init q 2)\<lparr>tq := set_context 0 c q, awaiting := mset_set {1..<2}\<rparr>)"
    "length (PerThreadContext q) = 1"
    using terminal_queued [OF q] by auto
  let ?s = "(tq_init q 2)\<lparr>tq := set_context 0 c q, awaiting := mset_set {1..<2}\<rparr>"
  have "\<not> ThreadsStop q" using q by (auto simp: new_TTaskQueue_def split: if_splits)
  then obtain s where s: "(tq_step (sort_key Deadline))\<^sup>*\<^sup>* ?s s" "list_all (\<lambda>th. th_phase th = Stopped) (tthreads s)"
    "awaiting s = mset_set {1..<2}" "finished s = {#}"
    using threads_stop [of ?s "sort_key Deadline"] c(2) by (auto simp: tq_init_def)
  have run: "(tq_step (sort_key Deadline))\<^sup>*\<^sup>* (tq_init q 2) s" using c(1) s(1) by (rule converse_rtranclp_into_rtranclp)
  have "{1..<2} = {1 :: nat}" "{0..<2} = {0, 1 :: nat}" by auto
  then have m: "mset_set {1..<2} = {#1 :: nat#}" "mset_set {0..<2} = {#0, 1 :: nat#}" by simp_all
  obtain hs where hs: "Join_contexts (sort_key Deadline) (PerThreadContext (tq s)) = Inr hs"
    "mset hs + awaiting s + finished s + dropped s = mset_set {0..<2}"
    using join_destroys_once [OF q _ _ std_sort_key run s(2)] by auto
  then have "mset hs + dropped s = {#0#}" using s(3,4) m by (simp add: add.commute [of _ "dropped s"])
  then show ?thesis using q run s hs m by auto
qed

end
