(* ===== verification/ConnectionPool.thy ===== *)
theory ConnectionPool
  imports TaskQueueProofs
begin

text \<open>
  The connection pool (\<open>src/src/db/connection_pool.h\<close>, \<open>connection_pool.cpp\<close>) and its use by the terminals
  under the task queue: who holds an in-flight slot never waits for a connection. A connection is the number of the
  \<open>Connect\<close> call that made it; \<open>Connect\<close> itself is a parameter. The mutex makes every operation one step.
\<close>

section \<open>The pool\<close>

record ObConnectionPool =
  poolSize :: nat
  freeConns :: "nat list"
  checkedOut :: "nat list"
  shutdownFlag :: bool
  shutdown :: bool

fun connect_all :: "(nat \<Rightarrow> nat result) \<Rightarrow> nat list \<Rightarrow> nat list result" where
  "connect_all connect [] = Inr []"
| "connect_all connect (i # is) = rbind (connect i) (\<lambda>c. rbind (connect_all connect is) (\<lambda>cs. Inr (c # cs)))"

definition new_ObConnectionPool :: "(nat \<Rightarrow> nat result) \<Rightarrow> nat \<Rightarrow> ObConnectionPool result" where
  "new_ObConnectionPool connect n = rbind (connect_all connect [0..<n]) (\<lambda>cs.
     Inr \<lparr>poolSize = n, freeConns = cs, checkedOut = [], shutdownFlag = False, shutdown = False\<rparr>)"

text \<open>\<open>None\<close>: the caller waits on the condition variable.\<close>

definition AcquireSession :: "ObConnectionPool \<Rightarrow> (nat \<times> ObConnectionPool) result option" where
  "AcquireSession p =
     (case freeConns p of
        [] \<Rightarrow> if shutdown p then Some (Inl (RuntimeError ''Connection pool is shutting down'')) else None
      | conn # cs \<Rightarrow> Some (Inr (conn, p\<lparr>freeConns := cs, checkedOut := checkedOut p @ [conn]\<rparr>)))"

definition ReleaseSession :: "nat option \<Rightarrow> ObConnectionPool \<Rightarrow> ObConnectionPool" where
  "ReleaseSession session p = (case session of None \<Rightarrow> p
     | Some conn \<Rightarrow> p\<lparr>checkedOut := filter (\<lambda>c. c \<noteq> conn) (checkedOut p), freeConns := freeConns p @ [conn]\<rparr>)"

text \<open>\<open>CancelAll\<close> returns the connections whose queries it kills.\<close>

definition CancelAll :: "ObConnectionPool \<Rightarrow> nat list \<times> ObConnectionPool" where
  "CancelAll p = (checkedOut p, p\<lparr>shutdownFlag := True\<rparr>)"

definition destroy_pool :: "ObConnectionPool \<Rightarrow> ObConnectionPool" where
  "destroy_pool p = p\<lparr>shutdown := True, freeConns := []\<rparr>"

text \<open>Every connection is free or checked out, never both.\<close>

definition pool_ok :: "nat \<Rightarrow> ObConnectionPool \<Rightarrow> bool" where
  "pool_ok n p \<longleftrightarrow> distinct (freeConns p @ checkedOut p) \<and> length (freeConns p) + length (checkedOut p) = n \<and> \<not> shutdown p"

lemma connect_all_eq: "connect_all connect is = Inr cs \<Longrightarrow> length cs = length is \<and> map Inr cs = map connect is"
  by (induction "is" arbitrary: cs) auto

lemma new_pool_ok:
  assumes "new_ObConnectionPool connect n = Inr p" "inj_on connect {0..<n}"
  shows "pool_ok n p \<and> checkedOut p = []"
proof -
  obtain cs where cs: "connect_all connect [0..<n] = Inr cs" "freeConns p = cs" "checkedOut p = []" "\<not> shutdown p"
    using assms(1) by (auto simp: new_ObConnectionPool_def)
  have "distinct (map connect [0..<n])" using assms(2) by (simp add: distinct_map)
  then have "distinct (map (Inr :: nat \<Rightarrow> nat result) cs)" using connect_all_eq [OF cs(1)] by metis
  then have "distinct cs" unfolding distinct_map by (rule conjunct1)
  then show ?thesis using cs connect_all_eq [OF cs(1)] by (simp add: pool_ok_def)
qed

lemma Release_ok:
  assumes "pool_ok n p" "c \<in> set (checkedOut p)"
  shows "pool_ok n (ReleaseSession (Some c) p)" "checkedOut (ReleaseSession (Some c) p) = remove1 c (checkedOut p)"
proof -
  have d: "distinct (checkedOut p)" using assms(1) by (simp add: pool_ok_def)
  then have r: "filter (\<lambda>x. x \<noteq> c) (checkedOut p) = remove1 c (checkedOut p)" 
    by (simp add: distinct_remove1_removeAll removeAll_filter_not_eq) (metis (mono_tags))
  have l: "0 < length (checkedOut p)" using assms(2) by (auto simp: length_greater_0_conv)
  show "pool_ok n (ReleaseSession (Some c) p)"
    using assms d l by (auto simp: pool_ok_def ReleaseSession_def r length_remove1)
  show "checkedOut (ReleaseSession (Some c) p) = remove1 c (checkedOut p)" by (simp add: ReleaseSession_def r)
qed

section \<open>What a user of the pool relies on\<close>

text \<open>
  A pool of \<open>n\<close> resources: those given out are distinct, and as long as fewer than \<open>n\<close> are given out, a request is served at once
  with a resource that is not. Users that own one each, and are fewer than \<open>n\<close> with the one that asks, never wait.
\<close>

locale bounded_pool =
  fixes ok :: "nat \<Rightarrow> 'p \<Rightarrow> bool" and out :: "'p \<Rightarrow> nat list" and acquire :: "'p \<Rightarrow> (nat \<times> 'p) result option"
  assumes distinct_out: "ok n p \<Longrightarrow> distinct (out p)"
    and acquire_law: "ok n p \<Longrightarrow> length (out p) < n \<Longrightarrow> \<exists>c p'. acquire p = Some (Inr (c, p')) \<and> ok n p' \<and> out p' = out p @ [c] \<and> c \<notin> set (out p)"
begin

lemma out_le_owners:
  assumes "ok n p" "ran own = set (out p)" "finite (dom own)"
  shows "length (out p) \<le> card (dom own)"
proof -
  have "set (out p) = (\<lambda>h. the (own h)) ` dom own" using assms(2) by (force simp: ran_def image_def)
  then have "card (set (out p)) \<le> card (dom own)" using card_image_le [OF assms(3)] by simp
  then show ?thesis using distinct_out [OF assms(1)] by (simp add: distinct_card)
qed

lemma never_waits:
  assumes "ok n p" "ran own = set (out p)" "dom own \<subset> H" "finite H" "card H \<le> n"
  shows "\<exists>c p'. acquire p = Some (Inr (c, p')) \<and> (\<forall>h. own h \<noteq> Some c)"
proof -
  have "length (out p) \<le> card (dom own)"
    by (rule out_le_owners [OF assms(1,2)]) (use assms(3,4) in \<open>auto intro: finite_subset\<close>)
  also have "\<dots> < card H" by (rule psubset_card_mono [OF assms(4,3)])
  finally have "length (out p) < n" using assms(5) by simp
  then obtain c p' where "acquire p = Some (Inr (c, p'))" "c \<notin> set (out p)" using acquire_law [OF assms(1)] by blast
  then show ?thesis using assms(2) by (metis ranI)
qed

end

interpretation conn: bounded_pool pool_ok checkedOut AcquireSession
proof unfold_locales
  show "distinct (checkedOut p)" if "pool_ok n p" for n p using that by (simp add: pool_ok_def)
  show "\<exists>c p'. AcquireSession p = Some (Inr (c, p')) \<and> pool_ok n p' \<and> checkedOut p' = checkedOut p @ [c] \<and> c \<notin> set (checkedOut p)"
    if "pool_ok n p" "length (checkedOut p) < n" for n p
    using that by (cases "freeConns p") (auto simp: AcquireSession_def pool_ok_def)
qed

section \<open>Terminals with sessions\<close>

text \<open>
  The task queue together with the pool: \<open>owner\<close> tells which connection a terminal's \<open>SessionGuard\<close> holds. In
  \<open>TTerminal::Run\<close> the guard lives inside one attempt, so a terminal owns a session only between \<open>IncInflight\<close> and \<open>DecInflight\<close>.
\<close>

record bench =
  queue :: system
  pool :: ObConnectionPool
  owner :: "nat \<Rightarrow> nat option"

inductive bench_step :: "(nat TItem list \<Rightarrow> nat TItem list) \<Rightarrow> bench \<Rightarrow> bench \<Rightarrow> bool" for srt where
  task: "tq_step srt (queue b) s \<Longrightarrow> \<forall>h. owner b h \<noteq> None \<longrightarrow> h \<in> holding s \<Longrightarrow> bench_step srt b (b\<lparr>queue := s\<rparr>)"
| acquire: "i < length (tthreads (queue b)) \<Longrightarrow> th_exec (tthreads (queue b) ! i) = Executing h \<Longrightarrow> h \<in> holding (queue b) \<Longrightarrow>
    owner b h = None \<Longrightarrow> AcquireSession (pool b) = Some (Inr (c, p)) \<Longrightarrow>
    bench_step srt b (b\<lparr>pool := p, owner := (owner b)(h := Some c)\<rparr>)"
| release: "i < length (tthreads (queue b)) \<Longrightarrow> th_exec (tthreads (queue b) ! i) = Executing h \<Longrightarrow> owner b h = Some c \<Longrightarrow>
    bench_step srt b (b\<lparr>pool := ReleaseSession (Some c) (pool b), owner := (owner b)(h := None)\<rparr>)"
| cancel: "bench_step srt b (b\<lparr>pool := snd (CancelAll (pool b))\<rparr>)"

definition bench_inv :: "nat \<Rightarrow> nat \<Rightarrow> bench \<Rightarrow> bool" where
  "bench_inv k n b \<longleftrightarrow> sys_inv k (queue b) \<and> holding (queue b) \<subseteq> {0..<k} \<and> pool_ok n (pool b)
     \<and> {h. owner b h \<noteq> None} \<subseteq> holding (queue b) \<and> ran (owner b) = set (checkedOut (pool b)) \<and> inj_on (owner b) (dom (owner b))"

lemma holders_le:
  assumes "bench_inv k n b" "MaxRunningInternal (tq (queue b)) \<noteq> 0"
  shows "card (holding (queue b)) \<le> min k (MaxRunningInternal (tq (queue b)))"
  using assms card_mono [of "{0..<k}" "holding (queue b)"] by (auto simp: bench_inv_def sys_inv_def slots_ok_def)

lemma fresh_session:
  assumes "bench_inv k n b" "h \<in> holding (queue b)" "owner b h = None"
    and c: "pool_ok n p" "checkedOut p = checkedOut (pool b) @ [c]" "c \<notin> set (checkedOut (pool b))"
  shows "bench_inv k n (b\<lparr>pool := p, owner := (owner b)(h := Some c)\<rparr>)"
proof -
  have r: "ran (owner b) = set (checkedOut (pool b))" and inj: "inj_on (owner b) (dom (owner b))" and h: "h \<notin> dom (owner b)"
    using assms(1,3) by (auto simp: bench_inv_def)
  have "owner b x \<noteq> Some c" for x using r c(3) by (metis ranI)
  then have "inj_on ((owner b)(h := Some c)) (insert h (dom (owner b)))"
    using inj h by (auto simp: inj_on_def)
  moreover have "ran ((owner b)(h := Some c)) = insert c (ran (owner b))" using assms(3) by (rule ran_map_upd)
  ultimately show ?thesis using assms(1,2) c r by (auto simp: bench_inv_def)
qed

lemma closed_session:
  assumes inv: "bench_inv k n b" and h: "owner b h = Some c"
  shows "bench_inv k n (b\<lparr>pool := ReleaseSession (Some c) (pool b), owner := (owner b)(h := None)\<rparr>)"
proof -
  have r: "ran (owner b) = set (checkedOut (pool b))" and inj: "inj_on (owner b) (dom (owner b))" and ok: "pool_ok n (pool b)"
    using inv by (auto simp: bench_inv_def)
  have c: "c \<in> set (checkedOut (pool b))" using r h by (metis ranI)
  have d: "distinct (checkedOut (pool b))" using ok by (simp add: pool_ok_def)
  have u: "x = h" if "owner b x = Some c" for x using inj that h by (metis domI inj_onD)
  have "y \<in> ran ((owner b)(h := None)) \<longleftrightarrow> y \<in> ran (owner b) - {c}" for y
    unfolding ran_def fun_upd_apply mem_Collect_eq Diff_iff singleton_iff using u h by (metis option.distinct(1) option.inject)
  then have ran: "ran ((owner b)(h := None)) = ran (owner b) - {c}" by blast
  have "inj_on ((owner b)(h := None)) (dom (owner b) - {h})" using inj by (auto simp: inj_on_def)
  then show ?thesis using inv Release_ok [OF ok c] ran r d by (auto simp: bench_inv_def)
qed

lemma bench_step_inv:
  assumes "bench_step srt b b'" "std_sort srt" "bench_inv k n b"
  shows "bench_inv k n b'"
  using assms(1)
proof cases
  case (task s)
  then show ?thesis using sys_step_safe [OF task(2) assms(2)] step_holding [OF task(2)] assms(3) by (auto simp: bench_inv_def)
next
  case (acquire i h c p)
  have "checkedOut p = checkedOut (pool b) @ [c] \<and> pool_ok n p \<and> c \<notin> set (checkedOut (pool b))"
    using acquire(6) assms(3) by (cases "freeConns (pool b)") (auto simp: AcquireSession_def bench_inv_def pool_ok_def split: if_splits)
  then show ?thesis using fresh_session [OF assms(3) acquire(4,5)] acquire(1) by simp
next
  case (release i h c)
  then show ?thesis using closed_session [OF assms(3)] by simp
next
  case cancel
  then show ?thesis using assms(3) by (simp add: bench_inv_def CancelAll_def pool_ok_def)
qed

lemma bench_run_inv: "(bench_step srt)\<^sup>*\<^sup>* b b' \<Longrightarrow> std_sort srt \<Longrightarrow> bench_inv k n b \<Longrightarrow> bench_inv k n b'"
  by (induction rule: rtranclp_induct) (auto intro: bench_step_inv)

lemma bench_run_const: "(bench_step srt)\<^sup>*\<^sup>* b b' \<Longrightarrow> MaxRunningInternal (tq (queue b')) = MaxRunningInternal (tq (queue b))"
proof (induction rule: rtranclp_induct)
  case (step b1 b2)
  then show ?case using step_const [of srt "queue b1"] by (auto elim!: bench_step.cases)
qed simp

definition bench_init :: "TTaskQueue \<Rightarrow> nat \<Rightarrow> ObConnectionPool \<Rightarrow> bench" where
  "bench_init q terminalCount p = \<lparr>queue = tq_init q terminalCount, pool = p, owner = (\<lambda>_. None)\<rparr>"

lemma bench_init_inv:
  assumes "new_TTaskQueue n m T T = Inr q" "0 < T" "T < 2 ^ 63" "new_ObConnectionPool connect N = Inr p" "inj_on connect {0..<N}"
  shows "bench_inv T N (bench_init q T p)"
  using init_inv [OF assms(1-3)] new_pool_ok [OF assms(4,5)] by (simp add: bench_inv_def bench_init_def tq_init_def)

lemma session_available:
  assumes q: "new_TTaskQueue n m T T = Inr q" "0 < T" "T < 2 ^ 63" and p: "new_ObConnectionPool connect (min T m) = Inr p" "inj_on connect {0..<min T m}"
    and m: "m \<noteq> 0" and srt: "std_sort srt" and run: "(bench_step srt)\<^sup>*\<^sup>* (bench_init q T p) b"
    and h: "h \<in> holding (queue b)" "owner b h = None"
  shows "\<exists>c p'. AcquireSession (pool b) = Some (Inr (c, p')) \<and> (\<forall>h'. owner b h' \<noteq> Some c)"
proof -
  have inv: "bench_inv T (min T m) b" by (rule bench_run_inv [OF run srt bench_init_inv [OF q p]])
  have "MaxRunningInternal q = m" using q(1) by (auto simp: new_TTaskQueue_def split: if_splits)
  then have mx: "MaxRunningInternal (tq (queue b)) = m" using bench_run_const [OF run] by (simp add: bench_init_def tq_init_def)
  have le: "card (holding (queue b)) \<le> min T m" using holders_le [OF inv] m mx by simp
  have ok: "pool_ok (min T m) (pool b)" and ran: "ran (owner b) = set (checkedOut (pool b))" and sub: "holding (queue b) \<subseteq> {0..<T}"
    and dom: "dom (owner b) \<subseteq> holding (queue b)" using inv by (auto simp: bench_inv_def)
  have "h \<notin> dom (owner b)" using h(2) by auto
  then have "dom (owner b) \<subset> holding (queue b)" using dom h(1) by blast
  then show ?thesis by (rule conn.never_waits [OF ok ran _ finite_subset [OF sub] le]) simp
qed

text \<open>Without sessions the task queue runs as it does alone.\<close>

lemma bench_lift:
  "(tq_step srt)\<^sup>*\<^sup>* (queue b) s \<Longrightarrow> owner b = (\<lambda>_. None) \<Longrightarrow> (bench_step srt)\<^sup>*\<^sup>* b (b\<lparr>queue := s\<rparr>)"
proof (induction rule: rtranclp_induct)
  case (step s1 s2)
  have "bench_step srt (b\<lparr>queue := s1\<rparr>) ((b\<lparr>queue := s1\<rparr>)\<lparr>queue := s2\<rparr>)"
    by (rule bench_step.task) (use step in simp_all)
  then show ?case using step by simp
qed simp

lemma connect_all_Inr: "connect_all Inr is = Inr is"
  by (induction "is") simp_all

end
