(* ===== verification/Runner.thy ===== *)
theory Runner
  imports TaskQueueRun ConnectionPool Constants "HOL-Library.Stream"
begin

text \<open>
  The benchmark run (\<open>src/src/runner.cpp\<close>, \<open>src/src/runner.h\<close>): the sizes \<open>RunSync\<close> derives from the
  configuration, the terminals it creates, the warm-up it chooses, and its loops over the clock.
  Sizes are \<open>size_t\<close>, that is 64-bit words; times are in nanoseconds of the steady clock.
\<close>

section \<open>Configuration\<close>

record TRunConfig =
  ConnectionString :: string
  Path :: string
  WarehouseCount :: u64
  WarmupDuration :: int
  RunDuration :: int
  SkipWarmup :: bool
  ThreadCount :: u64
  MaxInflight :: u64
  IOThreads :: u64
  NoDelays :: bool
  HighResHistogram :: bool
  SimulateTransactionMs :: int
  SimulateTransactionSelect1 :: int
  UseTui :: bool

definition IsSimulationMode :: "TRunConfig \<Rightarrow> bool" where
  "IsSimulationMode cfg \<longleftrightarrow> SimulateTransactionMs cfg > 0 \<or> SimulateTransactionSelect1 cfg > 0"

definition needsConnections :: "TRunConfig \<Rightarrow> bool" where
  "needsConnections cfg \<longleftrightarrow> \<not> IsSimulationMode cfg \<or> SimulateTransactionSelect1 cfg > 0"

section \<open>Sizes\<close>

record run_sizes =
  terminalCount :: u64
  connections :: u64
  ioThreads :: u64
  threadCount :: u64

definition terminal_threads :: "u64 \<Rightarrow> u64 \<Rightarrow> u64" where
  "terminal_threads cpuCount io = (let reservedForIo = min io (max (cpuCount div 4) 1) in
     if cpuCount > reservedForIo then cpuCount - reservedForIo else 1)"

definition thread_count :: "TRunConfig \<Rightarrow> u64 \<Rightarrow> u64 \<Rightarrow> u64" where
  "thread_count cfg terminals available = (let recommended = (WarehouseCount cfg + of_nat WAREHOUSES_PER_CPU_CORE - 1) div of_nat WAREHOUSES_PER_CPU_CORE in
     max (if ThreadCount cfg = 0
          then let n = min (min available terminals) recommended in if n mod 2 \<noteq> 0 \<and> n < available then n + 1 else n
          else min (ThreadCount cfg) available) 1)"

definition RunSync_sizes :: "TRunConfig \<Rightarrow> u64 \<Rightarrow> run_sizes" where
  "RunSync_sizes cfg cpuCount = (let terminals = WarehouseCount cfg * of_nat TERMINALS_PER_WAREHOUSE;
     pool = min terminals (MaxInflight cfg);
     io = max (if IOThreads cfg = 0 then MaxInflight cfg else IOThreads cfg) pool in
     \<lparr>terminalCount = terminals, connections = pool, ioThreads = io, threadCount = thread_count cfg terminals (terminal_threads cpuCount io)\<rparr>)"

text \<open>The terminals in the order of their creation: number, warehouse and the index of the statistics they share.\<close>

definition make_terminals :: "nat \<Rightarrow> nat \<Rightarrow> (nat \<times> nat \<times> nat) list" where
  "make_terminals warehouseCount threads = concat (map (\<lambda>wh. map (\<lambda>t.
     let terminalID = (wh - 1) * TERMINALS_PER_WAREHOUSE + t in (terminalID, wh, terminalID mod threads))
     [0..<TERMINALS_PER_WAREHOUSE]) [1..<warehouseCount + 1])"

section \<open>Warm-up\<close>

definition min_warmup_seconds :: "u64 \<Rightarrow> 32 word" where
  "min_warmup_seconds terminals = ucast (terminals * 1 div 1000 + 1)"

definition warmup_seconds :: "TRunConfig \<Rightarrow> u64 \<Rightarrow> 32 word" where
  "warmup_seconds cfg terminals =
     (if SkipWarmup cfg then 0
      else if WarmupDuration cfg = 0
      then max (if WarehouseCount cfg \<le> 10 then 30 else if WarehouseCount cfg \<le> 100 then 5 * 60
                else if WarehouseCount cfg \<le> 1000 then 10 * 60 else 30 * 60) (min_warmup_seconds terminals)
      else let w = word_of_int (WarmupDuration cfg) in
        if w < min_warmup_seconds terminals then min_warmup_seconds terminals else w)"

section \<open>The loops over the clock\<close>

record run_state =
  stopWarmup :: bool
  warmupDone :: bool
  warmupEnd :: int
  runEnd :: int
  lastDisplayUpdate :: int
  displays :: "int list"

definition seconds :: "int \<Rightarrow> int" where "seconds s = s * 1000000000"

definition maybeUpdateDisplay :: "TRunConfig \<Rightarrow> int \<Rightarrow> run_state \<Rightarrow> run_state" where
  "maybeUpdateDisplay cfg now st = (let
     st = (if \<not> warmupDone st \<and> now \<ge> warmupEnd st
           then st\<lparr>stopWarmup := True, warmupDone := True, warmupEnd := now, runEnd := now + seconds (RunDuration cfg)\<rparr> else st);
     sinceLast = (now - lastDisplayUpdate st) div seconds 1 in
     if sinceLast < (if UseTui cfg then 1 else 5) then st
     else st\<lparr>lastDisplayUpdate := now, displays := displays st @ [now]\<rparr>)"

text \<open>
  One reading of the stop token and of the clock per iteration, from an infinite stream. The
  first loop starts the terminals and returns how many; the second one ends by itself (\<open>True\<close>) or by a stop, or
  goes on for ever (\<open>None\<close>). Both return the readings left, the one that ended the loop first.
\<close>

type_synonym readings = "(bool \<times> int) stream"

primrec start_loop :: "TRunConfig \<Rightarrow> nat \<Rightarrow> readings \<Rightarrow> run_state \<Rightarrow> nat \<times> readings \<times> run_state" where
  "start_loop cfg 0 rs st = (0, rs, st)"
| "start_loop cfg (Suc n) rs st = (if fst (shd rs) then (0, rs, st)
     else case start_loop cfg n (stl rs) (maybeUpdateDisplay cfg (snd (shd rs)) st) of (k, r) \<Rightarrow> (k + 1, r))"

partial_function (option) main_loop :: "TRunConfig \<Rightarrow> readings \<Rightarrow> run_state \<Rightarrow> (bool \<times> readings \<times> run_state) option" where
  "main_loop cfg rs st = (if fst (shd rs) then Some (False, rs, st)
     else if warmupDone st \<and> snd (shd rs) \<ge> runEnd st then Some (True, rs, st)
     else main_loop cfg (stl rs) (maybeUpdateDisplay cfg (snd (shd rs)) st))"

definition start_state :: "TRunConfig \<Rightarrow> u64 \<Rightarrow> int \<Rightarrow> int \<Rightarrow> run_state" where
  "start_state cfg terminals startTs now = (let warmup = startTs + seconds (uint (warmup_seconds cfg terminals)) in
     if SkipWarmup cfg
     then \<lparr>stopWarmup = True, warmupDone = True, warmupEnd = now, runEnd = now + seconds (RunDuration cfg),
       lastDisplayUpdate = startTs, displays = []\<rparr>
     else \<lparr>stopWarmup = False, warmupDone = False, warmupEnd = warmup, runEnd = warmup + seconds (RunDuration cfg),
       lastDisplayUpdate = startTs, displays = []\<rparr>)"

definition run_clock :: "TRunConfig \<Rightarrow> u64 \<Rightarrow> int \<Rightarrow> int \<Rightarrow> readings \<Rightarrow> (bool \<times> readings \<times> run_state) option" where
  "run_clock cfg terminals startTs now rs =
     (case start_loop cfg (unat terminals) rs (start_state cfg terminals startTs now) of (_, rs', st) \<Rightarrow> main_loop cfg rs' st)"

text \<open>\<open>measureEnd\<close> is one more reading of the clock, after the loop and after the UI has been taken down.\<close>

definition measureElapsed :: "int \<Rightarrow> run_state \<Rightarrow> int" where
  "measureElapsed measureEnd st = (if warmupDone st then measureEnd - warmupEnd st else 0)"

section \<open>The measured time\<close>

definition run_ok :: "TRunConfig \<Rightarrow> int \<Rightarrow> run_state \<Rightarrow> bool" where
  "run_ok cfg w st \<longleftrightarrow> stopWarmup st = warmupDone st \<and> w \<le> warmupEnd st
     \<and> (warmupDone st \<longrightarrow> runEnd st = warmupEnd st + seconds (RunDuration cfg))"

lemma update_simps:
  "stopWarmup (maybeUpdateDisplay cfg now st) = (stopWarmup st \<or> (\<not> warmupDone st \<and> warmupEnd st \<le> now))"
  "warmupDone (maybeUpdateDisplay cfg now st) = (warmupDone st \<or> warmupEnd st \<le> now)"
  "warmupEnd (maybeUpdateDisplay cfg now st) = (if \<not> warmupDone st \<and> warmupEnd st \<le> now then now else warmupEnd st)"
  "runEnd (maybeUpdateDisplay cfg now st) = (if \<not> warmupDone st \<and> warmupEnd st \<le> now then now + seconds (RunDuration cfg) else runEnd st)"
  by (auto simp: maybeUpdateDisplay_def Let_def)

lemma update_ok: "run_ok cfg w st \<Longrightarrow> run_ok cfg w (maybeUpdateDisplay cfg now st)"
  by (auto simp: run_ok_def update_simps)

lemma start_loop_ok:
  "run_ok cfg w st \<Longrightarrow> start_loop cfg n rs st = (k, rs', st') \<Longrightarrow> run_ok cfg w st' \<and> rs' = sdrop k rs \<and> k \<le> n"
proof (induction n arbitrary: k rs st)
  case (Suc n)
  then show ?case using update_ok [OF Suc.prems(1), of "snd (shd rs)"] by (fastforce split: if_splits prod.splits)
qed simp

lemma start_state_ok:
  "run_ok cfg (if SkipWarmup cfg then now else startTs + seconds (uint (warmup_seconds cfg terminals))) (start_state cfg terminals startTs now)"
  by (simp add: run_ok_def start_state_def Let_def)

lemma main_loop_exit:
  assumes "main_loop cfg rs st = Some (b, rs', st')" "run_ok cfg w st"
  shows "run_ok cfg w st' \<and> (b \<longrightarrow> warmupDone st' \<and> runEnd st' \<le> snd (shd rs')) \<and> (\<exists>k. rs' = sdrop k rs)"
proof -
  have "run_ok cfg w st \<longrightarrow> (case r of (b, rs', st') \<Rightarrow>
      run_ok cfg w st' \<and> (b \<longrightarrow> warmupDone st' \<and> runEnd st' \<le> snd (shd rs')) \<and> (\<exists>k. rs' = sdrop k rs))"
    if "main_loop cfg rs st = Some r" for r
  proof (rule main_loop.raw_induct [OF _ that], goal_cases)
    case (1 loop cfg rs st r)
    show ?case
    proof (cases "fst (shd rs) \<or> warmupDone st \<and> snd (shd rs) \<ge> runEnd st")
      case True
      then show ?thesis using 1(2) by (auto split: if_splits intro: exI [of _ 0])
    next
      case False
      then have "loop cfg (stl rs) (maybeUpdateDisplay cfg (snd (shd rs)) st) = Some r" using 1(2) by (auto split: if_splits)
      from 1(1) [OF this] show ?thesis using update_ok by (fastforce simp flip: sdrop.simps(2))
    qed
  qed
  then show ?thesis using assms by blast
qed

lemma main_loop_prompt:
  assumes "main_loop cfg rs st = Some (True, rs', st')" "0 \<le> RunDuration cfg" "\<And>m. snd (rs !! Suc m) \<le> snd (rs !! m) + g"
    "warmupDone st \<Longrightarrow> snd (shd rs) \<le> runEnd st + g"
  shows "snd (shd rs') \<le> runEnd st' + g"
proof -
  have "(case r of (b, rs', st') \<Rightarrow> b \<longrightarrow> 0 \<le> RunDuration cfg \<longrightarrow> (\<forall>m. snd (rs !! Suc m) \<le> snd (rs !! m) + g) \<longrightarrow>
      (warmupDone st \<longrightarrow> snd (shd rs) \<le> runEnd st + g) \<longrightarrow> snd (shd rs') \<le> runEnd st' + g)"
    if "main_loop cfg rs st = Some r" for r
  proof (rule main_loop.raw_induct [OF _ that], goal_cases)
    case (1 loop cfg rs st r)
    let ?st = "maybeUpdateDisplay cfg (snd (shd rs)) st"
    show ?case
    proof (cases "fst (shd rs) \<or> warmupDone st \<and> snd (shd rs) \<ge> runEnd st")
      case True
      then show ?thesis using 1(2) by (auto split: if_splits)
    next
      case False
      then have r: "loop cfg (stl rs) ?st = Some r" using 1(2) by (auto split: if_splits)
      have "snd (shd (stl rs)) \<le> runEnd ?st + g"
        if "0 \<le> RunDuration cfg" "\<forall>m. snd (rs !! Suc m) \<le> snd (rs !! m) + g" "warmupDone ?st"
        using that(1,3) False that(2) [rule_format, of 0] by (auto simp: update_simps seconds_def split: if_splits)
      moreover have "\<forall>m. snd (stl rs !! Suc m) \<le> snd (stl rs !! m) + g" if "\<forall>m. snd (rs !! Suc m) \<le> snd (rs !! m) + g"
        using that by (simp flip: snth.simps(2))
      ultimately show ?thesis using 1(1) [OF r] by (auto split: prod.splits)
    qed
  qed
  then show ?thesis using assms by fastforce
qed

section \<open>The loops end\<close>

text \<open>The clock reads a time past every bound.\<close>

definition clock_runs :: "readings \<Rightarrow> bool" where
  "clock_runs rs \<longleftrightarrow> (\<forall>T. \<exists>m. T \<le> snd (rs !! m))"

lemma clock_runs_stl: "clock_runs rs \<Longrightarrow> clock_runs (stl rs)"
  unfolding clock_runs_def
proof
  fix T
  assume "\<forall>T. \<exists>m. T \<le> snd (rs !! m)"
  then obtain m where m: "max T (snd (shd rs) + 1) \<le> snd (rs !! m)" by blast
  then obtain k where "m = Suc k" by (cases m) auto
  then show "\<exists>m. T \<le> snd (stl rs !! m)" using m by auto
qed

lemma clock_runs_sdrop: "clock_runs rs \<Longrightarrow> clock_runs (sdrop k rs)"
  by (induction k arbitrary: rs) (auto dest: clock_runs_stl)

text \<open>The end of a loop: by itself, or by a stop request.\<close>

definition leaves :: "readings \<Rightarrow> (bool \<times> readings \<times> run_state) option \<Rightarrow> bool" where
  "leaves rs r \<longleftrightarrow> (\<exists>b rs' st. r = Some (b, rs', st) \<and> (b \<or> (\<exists>m. fst (rs !! m))))"

lemma leaves_True: "leaves rs (Some (True, rs', st))"
  by (auto simp: leaves_def)

lemma leaves_stl: "leaves (stl rs) r \<Longrightarrow> leaves rs r"
  by (auto simp: leaves_def) (metis snth.simps(2))

lemma main_loop_leaves_step:
  assumes "leaves (stl rs) (main_loop cfg (stl rs) (maybeUpdateDisplay cfg (snd (shd rs)) st))"
  shows "leaves rs (main_loop cfg rs st)"
proof (cases "fst (shd rs)")
  case True
  then have "fst (rs !! 0)" by simp
  then show ?thesis using True by (auto simp: main_loop.simps [of cfg rs st] leaves_def simp del: snth.simps)
next
  case False
  show ?thesis
  proof (cases "warmupDone st \<and> snd (shd rs) \<ge> runEnd st")
    case True
    then show ?thesis using False by (simp add: main_loop.simps [of cfg rs st] leaves_True)
  next
    case False
    then have "main_loop cfg rs st = main_loop cfg (stl rs) (maybeUpdateDisplay cfg (snd (shd rs)) st)"
      using \<open>\<not> fst (shd rs)\<close> by (subst main_loop.simps) auto
    then show ?thesis using leaves_stl [OF assms] by simp
  qed
qed

lemma main_loop_done: "warmupDone st \<Longrightarrow> runEnd st \<le> snd (rs !! m) \<Longrightarrow> leaves rs (main_loop cfg rs st)"
proof (induction m arbitrary: rs st)
  case 0
  show ?case
  proof (cases "fst (rs !! 0)")
    case True
    then show ?thesis unfolding leaves_def using main_loop.simps [of cfg rs st] by (metis snth.simps(1))
  qed (use 0 in \<open>simp add: main_loop.simps [of cfg rs st] leaves_True\<close>)
next
  case (Suc m)
  show ?case using Suc.prems by (intro main_loop_leaves_step [OF Suc.IH]) (simp_all add: update_simps)
qed

lemma main_loop_leaves:
  assumes "clock_runs rs"
  shows "leaves rs (main_loop cfg rs st)"
proof -
  have warm: "warmupEnd st \<le> snd (rs !! m) \<Longrightarrow> clock_runs rs \<Longrightarrow> leaves rs (main_loop cfg rs st)" for m st rs
  proof (induction m arbitrary: rs st)
    case 0
    let ?st = "maybeUpdateDisplay cfg (snd (shd rs)) st"
    obtain m where "runEnd ?st \<le> snd (stl rs !! m)" using clock_runs_stl [OF 0(2)] unfolding clock_runs_def by blast
    then show ?case using 0(1) by (intro main_loop_leaves_step [OF main_loop_done]) (auto simp: update_simps)
  next
    case (Suc m)
    let ?st = "maybeUpdateDisplay cfg (snd (shd rs)) st"
    note c = clock_runs_stl [OF Suc.prems(2)]
    show ?case
    proof (cases "warmupDone ?st")
      case True
      obtain k where "runEnd ?st \<le> snd (stl rs !! k)" using c unfolding clock_runs_def by blast
      with True show ?thesis by (intro main_loop_leaves_step [OF main_loop_done])
    next
      case False
      then show ?thesis using Suc.prems(1) c by (intro main_loop_leaves_step [OF Suc.IH]) (simp_all add: update_simps)
    qed
  qed
  from assms obtain m where "warmupEnd st \<le> snd (rs !! m)" unfolding clock_runs_def by blast
  from warm [OF this assms] show ?thesis .
qed

text \<open>
  (C27) When the run ends by itself, the warm-up is over and the terminals have been told so, it lasted at least as long as
  chosen, and the measured time is at least the configured duration. It exceeds the duration by no more than the longest
  gap between two readings of the clock and the time from the last of them to \<open>measureEnd\<close>, which is read after the UI has been
  taken down; unless the measurement began while terminals were still being started and its end was passed by more than a gap before the
  first reading of the main loop.
\<close>

theorem run_measures_duration:
  assumes "0 \<le> RunDuration cfg" "\<forall>m. snd (rs !! Suc m) \<le> snd (rs !! m) + g"
    and run: "run_clock cfg terminals startTs now rs = Some (True, rest, st)" and later: "snd (shd rest) \<le> measureEnd"
    and start: "start_loop cfg (unat terminals) rs (start_state cfg terminals startTs now) = (k, rs1, st1)"
  shows "stopWarmup st \<and> seconds (RunDuration cfg) \<le> measureElapsed measureEnd st
    \<and> (\<not> SkipWarmup cfg \<longrightarrow> startTs + seconds (uint (warmup_seconds cfg terminals)) \<le> warmupEnd st)
    \<and> (\<not> warmupDone st1 \<or> snd (shd rs1) \<le> runEnd st1 + g
       \<longrightarrow> measureElapsed measureEnd st \<le> seconds (RunDuration cfg) + g + (measureEnd - snd (shd rest)))"
proof -
  let ?w = "if SkipWarmup cfg then now else startTs + seconds (uint (warmup_seconds cfg terminals))"
  have m: "main_loop cfg rs1 st1 = Some (True, rest, st)" using run start by (simp add: run_clock_def)
  have ok: "run_ok cfg ?w st1" and rs1: "rs1 = sdrop k rs" using start_loop_ok [OF start_state_ok start] by auto
  have e: "run_ok cfg ?w st" "warmupDone st" "runEnd st \<le> snd (shd rest)" using main_loop_exit [OF m ok] by auto
  have "snd (rs1 !! Suc i) \<le> snd (rs1 !! i) + g" for i
    using assms(2) [rule_format, of "k + i"] rs1 by (simp add: sdrop_snth del: snth.simps)
  then have "snd (shd rest) \<le> runEnd st + g" if "\<not> warmupDone st1 \<or> snd (shd rs1) \<le> runEnd st1 + g"
    using main_loop_prompt [OF m assms(1)] that by auto
  then show ?thesis using e later by (auto simp: run_ok_def measureElapsed_def)
qed

text \<open>
  (C28) The run ends: on a clock that passes every time, the loops of \<open>RunSync\<close> are left, and if no stop is requested the main
  loop ends by itself. (On a clock that stands still it would wait for ever.)
\<close>

theorem run_ends:
  assumes "clock_runs rs"
  shows "\<exists>b rest st. run_clock cfg terminals startTs now rs = Some (b, rest, st) \<and> (b \<or> (\<exists>m. fst (rs !! m)))"
proof -
  obtain k rs1 st1 where s: "start_loop cfg (unat terminals) rs (start_state cfg terminals startTs now) = (k, rs1, st1)"
    by (cases "start_loop cfg (unat terminals) rs (start_state cfg terminals startTs now)")
  have rs1: "rs1 = sdrop k rs" using start_loop_ok [OF start_state_ok s] by auto
  have "leaves rs1 (run_clock cfg terminals startTs now rs)"
    using main_loop_leaves clock_runs_sdrop [OF assms] rs1 s by (simp add: run_clock_def)
  then show ?thesis unfolding rs1 leaves_def by (auto simp: sdrop_snth)
qed

lemma main_loop_stands_still:
  assumes "\<And>m. \<not> fst (rs !! m) \<and> snd (rs !! m) < warmupEnd st" "\<not> warmupDone st"
  shows "main_loop cfg rs st = None"
proof -
  have "\<not> ((\<forall>m. \<not> fst (rs !! m) \<and> snd (rs !! m) < warmupEnd st) \<and> \<not> warmupDone st)" if "main_loop cfg rs st = Some r" for r
  proof (rule main_loop.raw_induct [OF _ that], goal_cases)
    case (1 loop cfg rs st r)
    show ?case
    proof
      assume a: "(\<forall>m. \<not> fst (rs !! m) \<and> snd (rs !! m) < warmupEnd st) \<and> \<not> warmupDone st"
      then have z: "\<not> fst (shd rs)" "snd (shd rs) < warmupEnd st" "\<not> warmupDone st" by (metis snth.simps(1))+
      then have r: "loop cfg (stl rs) (maybeUpdateDisplay cfg (snd (shd rs)) st) = Some r" using 1(2) by simp
      show False using 1(1) [OF r] z a by (simp add: update_simps flip: snth.simps(2))
    qed
  qed
  then show ?thesis using assms by (cases "main_loop cfg rs st") auto
qed

text \<open>One warehouse, no warm-up, one second, a clock that is read every half second.\<close>

definition sample_config :: TRunConfig where
  "sample_config = \<lparr>ConnectionString = [], Path = [], WarehouseCount = 1, WarmupDuration = 0, RunDuration = 1, SkipWarmup = True, ThreadCount = 0, MaxInflight = 100,
     IOThreads = 0, NoDelays = False, HighResHistogram = False, SimulateTransactionMs = 0, SimulateTransactionSelect1 = 0, UseTui = False\<rparr>"

definition sample_readings :: readings where
  "sample_readings = smap (\<lambda>i. (False, int i * 500000000)) (fromN 0)"

lemma sample_readings_snth: "sample_readings !! m = (False, int m * 500000000)"
  by (simp add: sample_readings_def)

theorem run_measures_duration_witness:
  "run_clock sample_config 1 0 0 sample_readings = Some (True, sdrop 2 sample_readings, start_state sample_config 1 0 0)
   \<and> stopWarmup (start_state sample_config 1 0 0)
   \<and> seconds 1 \<le> measureElapsed 1100000000 (start_state sample_config 1 0 0)
   \<and> measureElapsed 1100000000 (start_state sample_config 1 0 0) \<le> 1600000000"
proof -
  have hd: "shd (sdrop k sample_readings) = (False, int k * 500000000)" for k
    using sdrop_snth [of k sample_readings 0] by (simp add: sample_readings_snth)
  have tl: "stl sample_readings = sdrop 1 sample_readings" "stl (sdrop 1 sample_readings) = sdrop 2 sample_readings"
    by (simp_all add: numeral_2_eq_2)
  let ?st = "start_state sample_config 1 0 0"
  have u: "maybeUpdateDisplay sample_config 0 ?st = ?st" "maybeUpdateDisplay sample_config 500000000 ?st = ?st"
    by (simp_all add: maybeUpdateDisplay_def start_state_def sample_config_def seconds_def)
  have st: "warmupDone ?st" "warmupEnd ?st = 0" "runEnd ?st = 1000000000"
    by (simp_all add: start_state_def sample_config_def seconds_def)
  have dur: "RunDuration sample_config = 1" by (simp add: sample_config_def)
  have l: "start_loop sample_config (unat 1) sample_readings ?st = (1, sdrop 1 sample_readings, ?st)"
    using hd [of 0] u by simp
  have r: "run_clock sample_config 1 0 0 sample_readings = Some (True, sdrop 2 sample_readings, ?st)"
    unfolding run_clock_def l
    by (simp add: main_loop.simps [of _ "sdrop 1 sample_readings"] main_loop.simps [of _ "sdrop 2 sample_readings"] sample_readings_snth tl u st
        del: sdrop.simps One_nat_def)
  have "\<forall>m. snd (sample_readings !! Suc m) \<le> snd (sample_readings !! m) + 500000000" unfolding sample_readings_snth by simp
  from run_measures_duration [OF _ this r _ l, of 1100000000] show ?thesis
    using r dur hd [of 1] by (simp add: st seconds_def sample_readings_snth del: sdrop.simps)
qed

theorem run_ends_witness:
  "\<exists>rest st. run_clock sample_config 1 0 0 sample_readings = Some (True, rest, st)"
proof -
  have "clock_runs sample_readings"
    unfolding clock_runs_def sample_readings_snth
  proof
    show "\<exists>m. T \<le> snd (False, int m * 500000000)" for T by (rule exI [of _ "nat T"]) simp
  qed
  from run_ends [OF this, of sample_config 1 0 0] show ?thesis by (auto simp: sample_readings_snth)
qed

section \<open>Threads and connections\<close>

lemma terminal_threads_pos: "1 \<le> terminal_threads cpuCount io"
proof (cases "cpuCount > min io (max (cpuCount div 4) 1)")
  case True
  then have "0 < cpuCount - min io (max (cpuCount div 4) 1)" by (auto simp: word_gt_0)
  then have "0 + 1 \<le> cpuCount - min io (max (cpuCount div 4) 1)" by (rule inc_le)
  then show ?thesis using True by (simp add: terminal_threads_def Let_def)
qed (simp add: terminal_threads_def Let_def)

lemma thread_count_bounds:
  assumes "1 \<le> available"
  shows "1 \<le> thread_count cfg terminals available" "thread_count cfg terminals available \<le> available"
proof -
  let ?n = "min (min available terminals) ((WarehouseCount cfg + of_nat WAREHOUSES_PER_CPU_CORE - 1) div of_nat WAREHOUSES_PER_CPU_CORE)"
  have "?n \<le> available" by (intro min.coboundedI1 order_refl)
  moreover have "?n < available \<Longrightarrow> ?n + 1 \<le> available" by (rule inc_le)
  ultimately show "thread_count cfg terminals available \<le> available" using assms unfolding thread_count_def Let_def by (simp split: if_splits)
  show "1 \<le> thread_count cfg terminals available" unfolding thread_count_def Let_def by simp
qed

lemma RunSync_sizes_bounds:
  shows "connections (RunSync_sizes cfg cpuCount) = min (terminalCount (RunSync_sizes cfg cpuCount)) (MaxInflight cfg)"
    "connections (RunSync_sizes cfg cpuCount) \<le> ioThreads (RunSync_sizes cfg cpuCount)"
    "1 \<le> threadCount (RunSync_sizes cfg cpuCount)"
    "threadCount (RunSync_sizes cfg cpuCount) \<le> terminal_threads cpuCount (ioThreads (RunSync_sizes cfg cpuCount))"
  using thread_count_bounds [OF terminal_threads_pos] by (simp_all add: RunSync_sizes_def Let_def)

lemma terminalCount_eq:
  assumes "unat (WarehouseCount cfg) * TERMINALS_PER_WAREHOUSE < 2 ^ 63"
  shows "unat (terminalCount (RunSync_sizes cfg cpuCount)) = unat (WarehouseCount cfg) * TERMINALS_PER_WAREHOUSE"
  using assms by (simp add: RunSync_sizes_def Let_def const_defs unat_mult_lem [THEN iffD1])

text \<open>The terminals are numbered in order; the statistics a terminal writes belong to the thread that runs it.\<close>

lemma make_terminals_eq:
  "make_terminals w n = map (\<lambda>i. (i, i div TERMINALS_PER_WAREHOUSE + 1, i mod n)) [0..<w * TERMINALS_PER_WAREHOUSE]"
proof (induction w)
  case (Suc w)
  have "[0..<Suc w * TERMINALS_PER_WAREHOUSE] = [0..<w * TERMINALS_PER_WAREHOUSE] @ map (\<lambda>t. w * TERMINALS_PER_WAREHOUSE + t) [0..<TERMINALS_PER_WAREHOUSE]"
    using upt_add_eq_append [of 0 "w * TERMINALS_PER_WAREHOUSE" TERMINALS_PER_WAREHOUSE] map_add_upt [of "w * TERMINALS_PER_WAREHOUSE" TERMINALS_PER_WAREHOUSE]
    by (simp add: add.commute)
  moreover have "make_terminals (Suc w) n = make_terminals w n @ map (\<lambda>t. (w * TERMINALS_PER_WAREHOUSE + t, Suc w, (w * TERMINALS_PER_WAREHOUSE + t) mod n)) [0..<TERMINALS_PER_WAREHOUSE]"
    by (simp add: make_terminals_def Let_def)
  moreover have "\<forall>t < TERMINALS_PER_WAREHOUSE. (w * TERMINALS_PER_WAREHOUSE + t) div TERMINALS_PER_WAREHOUSE = w" by (simp add: const_defs)
  ultimately show ?case using Suc.IH by simp
qed (simp add: make_terminals_def)

text \<open>
  (C11) In a benchmark with \<open>MaxInflight \<noteq> 0\<close>, a terminal that holds an in-flight slot and asks for a session gets one
  at once, and one no other terminal uses: the pool that \<open>RunSync\<close> sizes as the smaller of terminals and
  \<open>MaxInflight\<close> is never empty then, so no thread of the scheduler is ever blocked in \<open>AcquireSession\<close>.
\<close>

theorem session_never_waits:
  assumes "0 < WarehouseCount cfg" "unat (WarehouseCount cfg) * TERMINALS_PER_WAREHOUSE < 2 ^ 63" "MaxInflight cfg \<noteq> 0"
    and "sizes = RunSync_sizes cfg cpuCount"
    and "new_TTaskQueue (unat (threadCount sizes)) (unat (MaxInflight cfg)) (unat (terminalCount sizes)) (unat (terminalCount sizes)) = Inr q"
    and "new_ObConnectionPool connect (unat (connections sizes)) = Inr p" "inj_on connect {0..<unat (connections sizes)}"
    and "std_sort srt" "(bench_step srt)\<^sup>*\<^sup>* (bench_init q (unat (terminalCount sizes)) p) b"
    and "h \<in> holding (queue b)" "owner b h = None"
  shows "\<exists>c p'. AcquireSession (pool b) = Some (Inr (c, p')) \<and> (\<forall>h'. owner b h' \<noteq> Some c)"
proof -
  let ?T = "unat (terminalCount sizes)"
  have T: "?T = unat (WarehouseCount cfg) * TERMINALS_PER_WAREHOUSE" using terminalCount_eq [OF assms(2)] assms(4) by simp
  have pos: "0 < ?T" using assms(1) T by (simp add: const_defs unat_gt_0 word_gt_0)
  have lt: "?T < 2 ^ 63" using assms(2) T by simp
  have c: "unat (connections sizes) = min ?T (unat (MaxInflight cfg))"
    using RunSync_sizes_bounds(1) [of cfg cpuCount] assms(4) by (simp add: min_def word_le_nat_alt)
  have m: "unat (MaxInflight cfg) \<noteq> 0" using assms(3) by (simp add: unat_eq_zero)
  show ?thesis
    by (rule session_available [OF assms(5) pos lt _ _ m assms(8,9,10,11)]) (use assms(6,7) c in simp_all)
qed

theorem session_never_waits_witness:
  "\<exists>q p b. new_TTaskQueue 2 100 10 10 = Inr q \<and> new_ObConnectionPool Inr 10 = Inr p
     \<and> (bench_step (sort_key Deadline))\<^sup>*\<^sup>* (bench_init q 10 p) b \<and> 0 \<in> holding (queue b) \<and> owner b 0 = None
     \<and> (\<exists>c p'. AcquireSession (pool b) = Some (Inr (c, p')) \<and> (\<forall>h'. owner b h' \<noteq> Some c))"
proof -
  let ?z = "RunSync_sizes sample_config 4"
  have z: "terminalCount ?z = 10" "connections ?z = 10" "threadCount ?z = 2"
    by code_simp+
  obtain q where q: "new_TTaskQueue 2 100 10 10 = Inr q" using new_queue_works [of 2 10 100] by auto
  obtain p where p: "new_ObConnectionPool Inr 10 = Inr p" by (simp add: new_ObConnectionPool_def connect_all_Inr)
  obtain s where s: "(tq_step (sort_key Deadline))\<^sup>*\<^sup>* (tq_init q 10) s" "holding s = {0}"
    using terminal_runs [OF q] by auto
  let ?b = "(bench_init q 10 p)\<lparr>queue := s\<rparr>"
  have run: "(bench_step (sort_key Deadline))\<^sup>*\<^sup>* (bench_init q 10 p) ?b"
    by (rule bench_lift) (use s(1) in \<open>simp_all add: bench_init_def\<close>)
  have o: "owner ?b 0 = None" by (simp add: bench_init_def)
  have "\<exists>c p'. AcquireSession (pool ?b) = Some (Inr (c, p')) \<and> (\<forall>h'. owner ?b h' \<noteq> Some c)"
    by (rule session_never_waits [of sample_config ?z 4 q Inr p "sort_key Deadline" ?b 0])
       (use q p run s(2) o z std_sort_key in \<open>simp_all add: sample_config_def const_defs\<close>)
  moreover have "0 \<in> holding (queue ?b)" using s(2) by simp
  ultimately show ?thesis using q p run o by blast
qed

text \<open>
  With \<open>--max-inflight=0\<close>, which the task queue takes for no limit, the pool has no connection: every terminal gets
  its slot, and the first \<open>AcquireSession\<close> waits for a connection that nobody can release.
\<close>

theorem zero_inflight_blocks:
  assumes "MaxInflight cfg = 0"
  shows "connections (RunSync_sizes cfg cpuCount) = 0
    \<and> new_ObConnectionPool connect 0 = Inr \<lparr>poolSize = 0, freeConns = [], checkedOut = [], shutdownFlag = False, shutdown = False\<rparr>
    \<and> AcquireSession \<lparr>poolSize = 0, freeConns = [], checkedOut = [], shutdownFlag = False, shutdown = False\<rparr> = None
    \<and> fst (try_inflight (q\<lparr>MaxRunningInternal := unat (MaxInflight cfg)\<rparr>))"
  using assms by (simp add: RunSync_sizes_def Let_def new_ObConnectionPool_def AcquireSession_def try_inflight_def)

theorem zero_inflight_blocks_witness:
  "connections (RunSync_sizes (sample_config\<lparr>MaxInflight := 0\<rparr>) 4) = 0"
  using zero_inflight_blocks [of "sample_config\<lparr>MaxInflight := 0\<rparr>" 4] by simp

end
