(* ===== verification/CommandLine.thy ===== *)
theory CommandLine
  imports Init Runner
begin

text \<open>
  The program's entry (\<open>src/src/main.cpp\<close>): how the arguments are rewritten for gflags, which calls a command
  makes, and the exit code. The parsing of the rewritten arguments is gflags' and a parameter: it gives the flags, or
  ends the process itself with an exit code (\<open>--version\<close>, an unknown flag). A command is the list of the
  calls it makes, each with its arguments or the exception that computing them throws; carrying them out is a parameter,
  and the theories of the components describe what each call does.
\<close>

section \<open>Arguments\<close>

definition ShortFlagToLong :: "char \<Rightarrow> string option" where
  "ShortFlagToLong c = (if c = CHR ''w'' then Some ''warehouses'' else if c = CHR ''t'' then Some ''threads''
     else if c = CHR ''m'' then Some ''max_inflight'' else if c = CHR ''p'' then Some ''path'' else None)"

text \<open>An argument that starts with a dash, in its long form.\<close>

fun long_form :: "string \<Rightarrow> string" where
  "long_form (d # c # rest) = (if c = CHR ''-'' then d # c # rest
     else case ShortFlagToLong c of None \<Rightarrow> d # c # rest
     | Some longName \<Rightarrow> (case rest of [] \<Rightarrow> ''--'' @ longName
         | r # _ \<Rightarrow> if r = CHR ''='' then ''--'' @ longName @ rest else ''--'' @ longName @ ''='' @ rest))"
| "long_form arg = arg"

definition positional :: "string \<Rightarrow> bool" where
  "positional arg \<longleftrightarrow> arg = [] \<or> hd arg \<noteq> CHR ''-''"

fun preprocess_loop :: "string list \<Rightarrow> string \<Rightarrow> string list \<Rightarrow> string \<times> string list" where
  "preprocess_loop [] subcommand out = (subcommand, out)"
| "preprocess_loop (arg # args) subcommand out =
     (if positional arg
      then if subcommand = [] then preprocess_loop args arg out else preprocess_loop args subcommand (out @ [arg])
      else preprocess_loop args subcommand (out @ [long_form arg]))"

definition PreprocessArgs :: "string list \<Rightarrow> string \<times> string list" where
  "PreprocessArgs argv = preprocess_loop (tl argv) [] [hd argv]"

definition IsValidCommand :: "string \<Rightarrow> bool" where
  "IsValidCommand cmd \<longleftrightarrow> cmd = ''init'' \<or> cmd = ''import'' \<or> cmd = ''run'' \<or> cmd = ''clean'' \<or> cmd = ''check'' \<or> cmd = ''performance-run''"

datatype level = trace | debug | info | warn | err

definition ParseLogLevel :: "string \<Rightarrow> level" where
  "ParseLogLevel lv = (if lv = ''trace'' then trace else if lv = ''debug'' then debug else if lv = ''info'' then info
     else if lv = ''warn'' \<or> lv = ''warning'' then warn else if lv = ''error'' \<or> lv = ''err'' then err else info)"

section \<open>Commands\<close>

record flags =
  FLAGS_connection :: string
  FLAGS_path :: string
  FLAGS_warehouses :: int
  FLAGS_partitions :: int
  FLAGS_foreign_keys :: string
  FLAGS_warmup :: int
  FLAGS_skip_warmup :: bool
  FLAGS_duration :: int
  FLAGS_duration_seconds :: int
  FLAGS_threads :: int
  FLAGS_max_inflight :: int
  FLAGS_no_delays :: bool
  FLAGS_high_res_histogram :: bool
  FLAGS_simulate_ms :: int
  FLAGS_simulate_select1 :: int
  FLAGS_log_level :: string
  FLAGS_no_tui :: bool
  FLAGS_after_import :: bool

datatype call =
    CallCheckDbForInit string string
  | CallInitSync string string TInitOptions
  | CallCheckDbForImport string string
  | CallImportSync string string u64 u64 bool
  | CallCheckDbForRun string int string
  | CallRunSync TRunConfig
  | CallCleanSync string string
  | CallCheckSync string int bool string

definition MakeInitOptions :: "flags \<Rightarrow> bool \<Rightarrow> TInitOptions result" where
  "MakeInitOptions fs defaultForeignKeys = rbind (ResolveForeignKeysFlag (FLAGS_foreign_keys fs) defaultForeignKeys) (\<lambda>fk.
     Inr \<lparr>opt_PartitionCount = FLAGS_partitions fs, opt_WarehouseCount = FLAGS_warehouses fs, opt_EnableForeignKeys = fk\<rparr>)"

definition RunInit :: "flags \<Rightarrow> bool \<Rightarrow> call result list" where
  "RunInit fs defaultForeignKeys = [Inr (CallCheckDbForInit (FLAGS_connection fs) (FLAGS_path fs)),
     rbind (MakeInitOptions fs defaultForeignKeys) (\<lambda>options. Inr (CallInitSync (FLAGS_connection fs) (FLAGS_path fs) options))]"

definition RunImport :: "flags \<Rightarrow> call result list" where
  "RunImport fs = [Inr (CallCheckDbForImport (FLAGS_connection fs) (FLAGS_path fs)),
     Inr (CallImportSync (FLAGS_connection fs) (FLAGS_path fs) (word_of_int (FLAGS_warehouses fs)) (word_of_int (FLAGS_threads fs)) (\<not> FLAGS_no_tui fs))]"

definition run_config :: "flags \<Rightarrow> TRunConfig" where
  "run_config fs = \<lparr>ConnectionString = FLAGS_connection fs, Path = FLAGS_path fs, WarehouseCount = word_of_int (FLAGS_warehouses fs), WarmupDuration = FLAGS_warmup fs * 60,
     RunDuration = (if FLAGS_duration_seconds fs > 0 then FLAGS_duration_seconds fs else FLAGS_duration fs * 60),
     SkipWarmup = FLAGS_skip_warmup fs, ThreadCount = word_of_int (FLAGS_threads fs), MaxInflight = word_of_int (FLAGS_max_inflight fs),
     IOThreads = 0, NoDelays = FLAGS_no_delays fs, HighResHistogram = FLAGS_high_res_histogram fs, SimulateTransactionMs = FLAGS_simulate_ms fs, SimulateTransactionSelect1 = FLAGS_simulate_select1 fs,
     UseTui = \<not> FLAGS_no_tui fs\<rparr>"

definition RunBenchmark :: "flags \<Rightarrow> call result list" where
  "RunBenchmark fs = (let config = run_config fs in
     (if IsSimulationMode config then [] else [Inr (CallCheckDbForRun (FLAGS_connection fs) (FLAGS_warehouses fs) (FLAGS_path fs))]) @ [Inr (CallRunSync config)])"

definition RunCheck :: "flags \<Rightarrow> call result list" where
  "RunCheck fs = [Inr (CallCheckDbForRun (FLAGS_connection fs) (FLAGS_warehouses fs) (FLAGS_path fs)), Inr (CallCheckSync (FLAGS_connection fs) (FLAGS_warehouses fs) (FLAGS_after_import fs) (FLAGS_path fs))]"

text \<open>The first statement of \<open>RunPerformanceRun\<close> can throw before any call is made.\<close>

definition RunPerformanceRun :: "flags \<Rightarrow> call result list" where
  "RunPerformanceRun fs = (case ResolveForeignKeysFlag (FLAGS_foreign_keys fs) False of Inl e \<Rightarrow> [Inl e]
     | Inr _ \<Rightarrow> RunInit fs False @ RunImport fs @ RunCheck (fs\<lparr>FLAGS_after_import := True\<rparr>)
         @ RunBenchmark (fs\<lparr>FLAGS_after_import := False\<rparr>) @ RunCheck (fs\<lparr>FLAGS_after_import := False\<rparr>))"

definition command_calls :: "string \<Rightarrow> flags \<Rightarrow> call result list" where
  "command_calls command fs =
     (if command = ''init'' then RunInit fs True
      else if command = ''import'' then RunImport fs
      else if command = ''run'' then RunBenchmark fs
      else if command = ''performance-run'' then RunPerformanceRun fs
      else if command = ''clean'' then [Inr (CallCleanSync (FLAGS_connection fs) (FLAGS_path fs))]
      else if command = ''check'' then RunCheck fs else [])"

fun run_calls :: "(call \<Rightarrow> 'w \<Rightarrow> unit result \<times> 'w) \<Rightarrow> call result list \<Rightarrow> 'w \<Rightarrow> unit result \<times> 'w" where
  "run_calls exec [] w = (Inr (), w)"
| "run_calls exec (Inl e # cs) w = (Inl e, w)"
| "run_calls exec (Inr c # cs) w = (case exec c w of (Inl e, w1) \<Rightarrow> (Inl e, w1) | (Inr _, w1) \<Rightarrow> run_calls exec cs w1)"

definition help_requested :: "string list \<Rightarrow> bool" where
  "help_requested args \<longleftrightarrow> list_ex (\<lambda>arg. arg = ''--help'' \<or> arg = ''-help'' \<or> arg = ''--helpshort'' \<or> arg = ''-h'') args"

text \<open>\<open>error_flag\<close> reads the variable of \<open>GetGlobalErrorVariable\<close>; \<open>parse\<close> is \<open>ParseCommandLineFlags\<close>, \<open>Inl\<close> where it ends the process.\<close>

definition main :: "(string list \<Rightarrow> nat + flags) \<Rightarrow> (call \<Rightarrow> 'w \<Rightarrow> unit result \<times> 'w) \<Rightarrow> ('w \<Rightarrow> bool) \<Rightarrow> string list \<Rightarrow> 'w \<Rightarrow> nat \<times> 'w" where
  "main parse exec error_flag argv w =
     (if help_requested (tl argv) then (0, w)
      else case PreprocessArgs argv of (command, argv') \<Rightarrow>
        if command = [] then (1, w)
        else if \<not> IsValidCommand command then (1, w)
        else case parse argv' of Inl code \<Rightarrow> (code, w)
        | Inr fs \<Rightarrow> (case run_calls exec (command_calls command fs) w of
            (Inl _, w1) \<Rightarrow> (1, w1)
          | (Inr _, w1) \<Rightarrow> (if error_flag w1 then 1 else 0, w1)))"

section \<open>What gflags sees\<close>

text \<open>A short flag that \<open>ShortFlagToLong\<close> knows.\<close>

fun short_flag :: "string \<Rightarrow> bool" where
  "short_flag (d # c # rest) = (d = CHR ''-'' \<and> ShortFlagToLong c \<noteq> None)"
| "short_flag arg = False"

lemma long_form_not_short: "\<not> short_flag (long_form arg)"
  by (cases arg rule: long_form.cases) (auto simp: ShortFlagToLong_def split: list.splits)

lemma positional_not_short: "positional arg \<Longrightarrow> \<not> short_flag arg"
  by (cases arg rule: long_form.cases) (auto simp: positional_def)

lemma preprocess_loop_short: "list_all (\<lambda>a. \<not> short_flag a) out \<Longrightarrow> list_all (\<lambda>a. \<not> short_flag a) (snd (preprocess_loop args cmd out))"
  by (induction args cmd out rule: preprocess_loop.induct) (auto simp: long_form_not_short positional_not_short)

text \<open>The long form says the same: flag name and value.\<close>

lemma long_form_values:
  "ShortFlagToLong c = Some name \<Longrightarrow> long_form (''-'' @ [c]) = ''--'' @ name"
  "ShortFlagToLong c = Some name \<Longrightarrow> long_form (''-'' @ c # ''='' @ v) = ''--'' @ name @ ''='' @ v"
  "ShortFlagToLong c = Some name \<Longrightarrow> v \<noteq> [] \<Longrightarrow> hd v \<noteq> CHR ''='' \<Longrightarrow> long_form (''-'' @ c # v) = ''--'' @ name @ ''='' @ v"
  by (auto simp: ShortFlagToLong_def split: if_splits list.splits)

lemma preprocess_command:
  "subcommand \<noteq> [] \<Longrightarrow> fst (preprocess_loop args subcommand out) = subcommand"
  by (induction args arbitrary: out) auto

lemma preprocess_append: "preprocess_loop args cmd (out1 @ out2) = apsnd ((@) out1) (preprocess_loop args cmd out2)"
proof (induction args arbitrary: cmd out2)
  case (Cons a args)
  then show ?case using Cons.IH [of cmd "out2 @ [a]"] Cons.IH [of cmd "out2 @ [long_form a]"] by simp
qed simp

lemma preprocess_first:
  "list_all (\<lambda>a. \<not> positional a) opts \<Longrightarrow> positional cmd \<Longrightarrow> cmd \<noteq> [] \<Longrightarrow>
   preprocess_loop (opts @ cmd # args) [] out = (cmd, out @ map long_form opts @ snd (preprocess_loop args cmd []))"
proof (induction opts arbitrary: out)
  case Nil
  have "preprocess_loop args cmd (out @ []) = apsnd ((@) out) (preprocess_loop args cmd [])" by (rule preprocess_append)
  then show ?case using Nil preprocess_command [of cmd args out]
    by (cases "preprocess_loop args cmd []") auto
qed simp

section \<open>The exit code\<close>

lemma run_calls_append:
  "run_calls exec (cs @ ds) w = (case run_calls exec cs w of (Inl e, w1) \<Rightarrow> (Inl e, w1) | (Inr _, w1) \<Rightarrow> run_calls exec ds w1)"
  by (induction exec cs w rule: run_calls.induct) (auto split: sum.splits prod.splits)

text \<open>Calls made one after the other, each successful.\<close>

fun carried_out :: "(call \<Rightarrow> 'w \<Rightarrow> unit result \<times> 'w) \<Rightarrow> call list \<Rightarrow> 'w \<Rightarrow> 'w \<Rightarrow> bool" where
  "carried_out exec [] w w' = (w' = w)"
| "carried_out exec (k # ks) w w' = (case exec k w of (Inl e, w1) \<Rightarrow> False | (Inr _, w1) \<Rightarrow> carried_out exec ks w1 w')"

lemma run_calls_carried_out: "run_calls exec cs w = (Inr u, w') \<Longrightarrow> \<exists>ks. cs = map Inr ks \<and> carried_out exec ks w w'"
proof (induction exec cs w rule: run_calls.induct)
  case (3 exec c cs w)
  obtain r w1 where e: "exec c w = (r, w1)" by fastforce
  then obtain v where v: "r = Inr v" using 3(2) by (cases r) auto
  then obtain ks where "cs = map Inr ks" "carried_out exec ks w1 w'" using 3 e by auto
  then show ?case using e v by (intro exI [of _ "c # ks"]) simp
qed simp_all

section \<open>What the commands promise\<close>

text \<open>
  The work of a command, as the help text of the program has it, apart from the pre-flight checks: \<open>SchemaCreated\<close> with or without
  foreign keys, \<open>Checked\<close> as a database after import or as a used one.
\<close>

datatype work = SchemaCreated bool | DataLoaded | BenchmarkRun | Cleaned | Checked bool

definition phases :: "string \<Rightarrow> bool \<Rightarrow> bool \<Rightarrow> work list" where
  "phases command foreignKeys afterImport =
     (if command = ''init'' then [SchemaCreated foreignKeys]
      else if command = ''import'' then [DataLoaded]
      else if command = ''run'' then [BenchmarkRun]
      else if command = ''clean'' then [Cleaned]
      else if command = ''check'' then [Checked afterImport]
      else [SchemaCreated foreignKeys, DataLoaded, Checked True, BenchmarkRun, Checked False])"

fun phase_of :: "call \<Rightarrow> work option" where
  "phase_of (CallInitSync c p options) = Some (SchemaCreated (opt_EnableForeignKeys options))"
| "phase_of (CallImportSync c p n threads ui) = Some DataLoaded"
| "phase_of (CallRunSync config) = Some BenchmarkRun"
| "phase_of (CallCleanSync c p) = Some Cleaned"
| "phase_of (CallCheckSync c n afterImport p) = Some (Checked afterImport)"
| "phase_of _ = None"

text \<open>The database a call works on.\<close>

fun target :: "call \<Rightarrow> string \<times> string" where
  "target (CallCheckDbForInit c p) = (c, p)"
| "target (CallInitSync c p options) = (c, p)"
| "target (CallCheckDbForImport c p) = (c, p)"
| "target (CallImportSync c p n threads ui) = (c, p)"
| "target (CallCheckDbForRun c n p) = (c, p)"
| "target (CallRunSync config) = (ConnectionString config, Path config)"
| "target (CallCleanSync c p) = (c, p)"
| "target (CallCheckSync c n afterImport p) = (c, p)"

text \<open>The pre-flight check that must come right before a call.\<close>

fun unguarded :: "call \<Rightarrow> bool" where
  "unguarded (CallRunSync config) = IsSimulationMode config"
| "unguarded k = (phase_of k = None \<or> phase_of k = Some Cleaned)"

fun guards :: "call \<Rightarrow> call \<Rightarrow> bool" where
  "guards (CallCheckDbForInit c p) (CallInitSync c' p' options) = True"
| "guards (CallCheckDbForImport c p) (CallImportSync c' p' n threads ui) = True"
| "guards (CallCheckDbForRun c n p) (CallRunSync config) = (word_of_int n = WarehouseCount config)"
| "guards (CallCheckDbForRun c n p) (CallCheckSync c' n' afterImport p') = (n = n')"
| "guards g k = False"

fun guarded :: "call option \<Rightarrow> call list \<Rightarrow> bool" where
  "guarded before [] = True"
| "guarded before (k # ks) = ((unguarded k \<or> (case before of None \<Rightarrow> False | Some g \<Rightarrow> guards g k)) \<and> guarded (Some k) ks)"

text \<open>The flag of \<open>--foreign-keys\<close> as the command takes it: on by default for \<open>init\<close> only.\<close>

definition foreign_keys :: "string \<Rightarrow> flags \<Rightarrow> bool" where
  "foreign_keys command fs \<longleftrightarrow> ResolveForeignKeysFlag (FLAGS_foreign_keys fs) (command = ''init'') = Inr True"

lemma init_calls:
  "RunInit fs b @ cs = map Inr ks \<Longrightarrow> \<exists>fk ks'. ResolveForeignKeysFlag (FLAGS_foreign_keys fs) b = Inr fk \<and> cs = map Inr ks'
     \<and> ks = CallCheckDbForInit (FLAGS_connection fs) (FLAGS_path fs)
       # CallInitSync (FLAGS_connection fs) (FLAGS_path fs) \<lparr>opt_PartitionCount = FLAGS_partitions fs, opt_WarehouseCount = FLAGS_warehouses fs, opt_EnableForeignKeys = fk\<rparr> # ks'"
  by (cases "ResolveForeignKeysFlag (FLAGS_foreign_keys fs) b") (auto simp: RunInit_def MakeInitOptions_def Cons_eq_map_conv)

lemmas call_defs = RunImport_def RunBenchmark_def RunCheck_def run_config_def Let_def List.map_filter_simps phases_def

lemma command_phases:
  assumes "IsValidCommand command" "command_calls command fs = map Inr ks"
  shows "List.map_filter phase_of ks = phases command (foreign_keys command fs) (FLAGS_after_import fs)
    \<and> (\<forall>k \<in> set ks. target k = (FLAGS_connection fs, FLAGS_path fs)) \<and> guarded None ks"
proof -
  have others: ?thesis if "command = ''import'' \<or> command = ''run'' \<or> command = ''clean'' \<or> command = ''check''"
    using that assms(2)
    by (elim disjE) (auto simp: command_calls_def call_defs Cons_eq_map_conv split: if_splits)
  from assms(1) [unfolded IsValidCommand_def] show ?thesis
  proof (elim disjE)
    assume c: "command = ''init''"
    then show ?thesis using assms(2) init_calls [of fs True "[]" ks]
      by (auto simp: command_calls_def call_defs foreign_keys_def)
  next
    assume c: "command = ''performance-run''"
    let ?a = "RunImport fs @ RunCheck (fs\<lparr>FLAGS_after_import := True\<rparr>) @ RunBenchmark (fs\<lparr>FLAGS_after_import := False\<rparr>) @ RunCheck (fs\<lparr>FLAGS_after_import := False\<rparr>)"
    have "RunInit fs False @ ?a = map Inr ks"
      using c assms(2) by (auto simp: command_calls_def RunPerformanceRun_def Cons_eq_map_conv split: sum.splits)
    from init_calls [OF this] c show ?thesis
      by (auto simp: call_defs foreign_keys_def Cons_eq_map_conv split: if_splits)
  qed (rule others, simp)+
qed


text \<open>The whole pipeline: the checks frame the benchmark.\<close>

definition sample_flags :: flags where
  "sample_flags = \<lparr>FLAGS_connection = [], FLAGS_path = [], FLAGS_warehouses = 1, FLAGS_partitions = 0, FLAGS_foreign_keys = [], FLAGS_warmup = 0, FLAGS_skip_warmup = False,
     FLAGS_duration = 10, FLAGS_duration_seconds = 30, FLAGS_threads = 0, FLAGS_max_inflight = 100, FLAGS_no_delays = False, FLAGS_high_res_histogram = False, FLAGS_simulate_ms = 0,
     FLAGS_simulate_select1 = 0, FLAGS_log_level = ''info'', FLAGS_no_tui = True, FLAGS_after_import = False\<rparr>"


end
