(* ===== verification/Tui.thy ===== *)
theory Tui
  imports LogCapture CommandLine
begin

text \<open>
  What the terminal UI and the log share with the rest of the process (\<open>src/src/log_backend.cpp\<close>, \<open>tui_base.cpp\<close>, \<open>scroller.cpp\<close>): where log
  lines go, the process-wide variables a UI sets and resets, and the position of a scroller. A pointer is an
  address, and \<open>captures\<close> holds the \<open>TLogCapture\<close> objects that are alive.
\<close>

section \<open>The process\<close>

datatype terminate_handler = DefaultHandler | CustomTerminateHandler

record process =
  LoggerLevel :: level
  SinkLevel :: level
  Capture :: "nat option"
  captures :: "nat \<rightharpoonup> TLogCapture"
  stderr_lines :: "string list"
  ScreenPtr :: "nat option"
  PrevTerminateHandler :: "terminate_handler option"
  terminate_handler :: terminate_handler
  interrupted :: bool

text \<open>\<open>InitLogging\<close> gives its level to the logger and to the sink; \<open>spdlog::set_level\<close> later changes the logger's.\<close>

definition InitLogging :: "level \<Rightarrow> process \<Rightarrow> process" where
  "InitLogging lv p = p\<lparr>SinkLevel := lv, LoggerLevel := lv, Capture := None\<rparr>"

definition set_level :: "level \<Rightarrow> process \<Rightarrow> process" where
  "set_level lv p = p\<lparr>LoggerLevel := lv\<rparr>"

definition StartLogCapture :: "nat \<Rightarrow> process \<Rightarrow> process" where
  "StartLogCapture a p = p\<lparr>Capture := Some a\<rparr>"

definition StopLogCapture :: "process \<Rightarrow> process" where
  "StopLogCapture p = p\<lparr>Capture := None\<rparr>"

text \<open>\<open>TRoutingSink::sink_it_\<close> for a formatted line.\<close>

definition sink_it :: "string \<Rightarrow> process \<Rightarrow> process result" where
  "sink_it line p = (case Capture p of
       Some a \<Rightarrow> (case captures p a of None \<Rightarrow> Inl (UB ''Capture_->AddLine'')
         | Some c \<Rightarrow> rbind (AddLine line c) (\<lambda>c'. Inr (p\<lparr>captures := (captures p)(a \<mapsto> c')\<rparr>)))
     | None \<Rightarrow> Inr (p\<lparr>stderr_lines := stderr_lines p @ [line]\<rparr>))"

text \<open>\<open>LOG_I\<close> and the other macros: \<open>passes threshold lv\<close> is the library's test whether a message of level \<open>lv\<close> passes a threshold.\<close>

definition log_message :: "(level \<Rightarrow> level \<Rightarrow> bool) \<Rightarrow> level \<Rightarrow> string \<Rightarrow> process \<Rightarrow> process result" where
  "log_message passes lv line p = (if passes (LoggerLevel p) lv \<and> passes (SinkLevel p) lv then sink_it line p else Inr p)"

section \<open>The UI\<close>

definition new_TuiBase :: "nat \<Rightarrow> process \<Rightarrow> unit result \<times> process" where
  "new_TuiBase screen p = (let p1 = p\<lparr>ScreenPtr := Some screen\<rparr> in
     if PrevTerminateHandler p1 \<noteq> None then (Inl (RuntimeError ''Terminate handler is already set''), p1)
     else (Inr (), p1\<lparr>PrevTerminateHandler := Some (terminate_handler p1), terminate_handler := CustomTerminateHandler\<rparr>))"

text \<open>
  The destructor ends the event loop and waits for its thread, which asks the process to stop when its loop
  returns; then it restores the handler.
\<close>

definition loop_returned :: "process \<Rightarrow> process" where
  "loop_returned p = p\<lparr>interrupted := True\<rparr>"

definition destroy_TuiBase :: "process \<Rightarrow> process" where
  "destroy_TuiBase p = (let p1 = loop_returned (p\<lparr>ScreenPtr := None\<rparr>) in
     p1\<lparr>terminate_handler := (case PrevTerminateHandler p1 of None \<Rightarrow> DefaultHandler | Some h \<Rightarrow> h)\<rparr>)"

text \<open>
  The part of \<open>ImportSync\<close> and \<open>RunSync\<close> in which the UI lives: the capture is a local object, the UI is reset before it,
  and the sink forgets the capture only on the normal way out. \<open>a\<close> is the address of the local object.
\<close>

definition with_tui :: "bool \<Rightarrow> nat \<Rightarrow> (process \<Rightarrow> unit result \<times> process) \<Rightarrow> process \<Rightarrow> unit result \<times> process" where
  "with_tui useTui a body p = (let p0 = p\<lparr>captures := (captures p)(a \<mapsto> new_TLogCapture (of_nat TUI_LOG_LINES))\<rparr>;
       leave = (\<lambda>q. q\<lparr>captures := (captures q)(a := None)\<rparr>) in
     if useTui then
       (case new_TuiBase a (StartLogCapture a p0) of
          (Inl e, p1) \<Rightarrow> (Inl e, leave p1)
        | (Inr _, p1) \<Rightarrow> (case body p1 of
            (Inl e, p2) \<Rightarrow> (Inl e, leave (destroy_TuiBase p2))
          | (Inr _, p2) \<Rightarrow> (Inr (), leave (StopLogCapture (destroy_TuiBase p2)))))
     else (case body p0 of (Inl e, p1) \<Rightarrow> (Inl e, leave p1) | (Inr _, p1) \<Rightarrow> (Inr (), leave (StopLogCapture p1))))"

text \<open>The calls of a command, with what they do apart from the UI as a parameter.\<close>

definition with_ui :: "(call \<Rightarrow> process \<Rightarrow> unit result \<times> process) \<Rightarrow> nat \<Rightarrow> call \<Rightarrow> process \<Rightarrow> unit result \<times> process" where
  "with_ui work a c = (case c of
       CallImportSync _ _ _ _ useTui \<Rightarrow> with_tui useTui a (work c)
     | CallRunSync cfg \<Rightarrow> with_tui (UseTui cfg) a (work c)
     | _ \<Rightarrow> work c)"

section \<open>The scroller\<close>

datatype key = ArrowUp | ArrowDown | Character char | WheelUp | WheelDown | PageUp | PageDown | Home | End | OtherEvent

record ScrollerBase =
  selected :: int
  scroll_size :: int
  box_y_min :: int
  box_y_max :: int

definition moved :: "key \<Rightarrow> ScrollerBase \<Rightarrow> int" where
  "moved ev s = (case ev of
       ArrowUp \<Rightarrow> selected s - 1 | WheelUp \<Rightarrow> selected s - 1
     | ArrowDown \<Rightarrow> selected s + 1 | WheelDown \<Rightarrow> selected s + 1
     | Character c \<Rightarrow> (if c = CHR ''k'' then selected s - 1 else if c = CHR ''j'' then selected s + 1 else selected s)
     | PageDown \<Rightarrow> selected s + (box_y_max s - box_y_min s) | PageUp \<Rightarrow> selected s - (box_y_max s - box_y_min s)
     | Home \<Rightarrow> 0 | End \<Rightarrow> scroll_size s | OtherEvent \<Rightarrow> selected s)"

definition OnEvent :: "key \<Rightarrow> ScrollerBase \<Rightarrow> bool \<times> ScrollerBase" where
  "OnEvent ev s = (let s1 = s\<lparr>selected := max 0 (min (scroll_size s - 1) (moved ev s))\<rparr> in (selected s \<noteq> selected s1, s1))"

text \<open>\<open>LogsScroller\<close>: the colour of a line.\<close>

datatype colour = Red | Yellow | Green | NoColour

definition line_colour :: "string \<Rightarrow> colour" where
  "line_colour line = (if infix_of ''error'' line \<or> infix_of ''ERROR'' line then Red
     else if infix_of ''warn'' line \<or> infix_of ''WARN'' line then Yellow else NoColour)"

section \<open>Where log lines go\<close>

text \<open>What happens to the log while a capture at \<open>a\<close> may be active.\<close>

datatype log_event = Log string | Start | Stop | ClearCapture

definition log_event_step :: "(level \<Rightarrow> level \<Rightarrow> bool) \<Rightarrow> nat \<Rightarrow> log_event \<Rightarrow> process \<Rightarrow> process result" where
  "log_event_step passes a ev p = (case ev of
       Log line \<Rightarrow> log_message passes info line p
     | Start \<Rightarrow> Inr (StartLogCapture a p)
     | Stop \<Rightarrow> Inr (StopLogCapture p)
     | ClearCapture \<Rightarrow> Inr (p\<lparr>captures := (captures p)(a := map_option Capture_Clear (captures p a))\<rparr>))"

text \<open>The specification: lines go to the list of the capture while it is active and to standard error otherwise.\<close>

fun routed :: "log_event list \<Rightarrow> bool \<times> string list \<times> string list \<Rightarrow> bool \<times> string list \<times> string list" where
  "routed [] st = st"
| "routed (Log line # evs) (on, kept, shown) = routed evs (if on then (on, kept @ [line], shown) else (on, kept, shown @ [line]))"
| "routed (Start # evs) (on, kept, shown) = routed evs (True, kept, shown)"
| "routed (Stop # evs) (on, kept, shown) = routed evs (False, kept, shown)"
| "routed (ClearCapture # evs) (on, kept, shown) = routed evs (on, [], shown)"

definition log_state :: "(level \<Rightarrow> level \<Rightarrow> bool) \<Rightarrow> nat \<Rightarrow> process \<Rightarrow> bool \<times> string list \<times> string list \<Rightarrow> bool" where
  "log_state passes a p st = (case st of (on, kept, shown) \<Rightarrow> passes (LoggerLevel p) info \<and> passes (SinkLevel p) info
     \<and> Capture p = (if on then Some a else None) \<and> stderr_lines p = shown \<and> (\<exists>c. captures p a = Some c \<and> MaxLines c = of_nat TUI_LOG_LINES \<and> ring c kept))"

lemma AddLine_MaxLines: "AddLine line c = Inr c' \<Longrightarrow> MaxLines c' = MaxLines c"
  by (auto simp: AddLine_def Let_def split: if_splits)

lemma new_MaxLines: "MaxLines (new_TLogCapture n) = n"
  by (simp add: new_TLogCapture_def)

lemma log_event_routed:
  assumes "log_state passes a p (on, kept, shown)"
  shows "\<exists>p'. log_event_step passes a ev p = Inr p' \<and> log_state passes a p' (routed [ev] (on, kept, shown))"
proof -
  obtain c where c: "captures p a = Some c" "MaxLines c = of_nat TUI_LOG_LINES" "ring c kept"
    and r: "passes (LoggerLevel p) info" "passes (SinkLevel p) info" "Capture p = (if on then Some a else None)" "stderr_lines p = shown"
    using assms by (auto simp: log_state_def)
  show ?thesis
  proof (cases ev)
    case (Log line)
    obtain c' where c': "AddLine line c = Inr c'" "ring c' (kept @ [line])" using ring_AddLine [OF c(3)] by blast
    have "MaxLines c' = of_nat TUI_LOG_LINES" using AddLine_MaxLines [OF c'(1)] c(2) by simp
    then show ?thesis using Log c c' r by (simp add: log_event_step_def log_message_def sink_it_def log_state_def)
  next
    case ClearCapture
    have "MaxLines (Capture_Clear c) = of_nat TUI_LOG_LINES" using c(2) by (simp add: Capture_Clear_def)
    then show ?thesis using ClearCapture c r ring_Clear [OF c(3)] by (simp add: log_event_step_def log_state_def)
  qed (use c r in \<open>simp_all add: log_event_step_def log_state_def StartLogCapture_def StopLogCapture_def\<close>)
qed

lemma routed_Cons: "routed (ev # evs) st = routed evs (routed [ev] st)"
  by (cases ev; cases st) auto

lemma log_events_routed:
  "log_state passes a p st \<Longrightarrow> \<exists>p'. rfold (log_event_step passes a) evs p = Inr p' \<and> log_state passes a p' (routed evs st)"
proof (induction evs arbitrary: p st)
  case (Cons ev evs)
  obtain on kept shown where st: "st = (on, kept, shown)" by (cases st) auto
  obtain p1 where "log_event_step passes a ev p = Inr p1" "log_state passes a p1 (routed [ev] st)"
    using log_event_routed Cons.prems st by blast
  then show ?case using Cons.IH [of p1 "routed [ev] st"] by (simp add: routed_Cons [of ev evs])
qed simp

text \<open>
  (C38) The log and the UI: from a fresh capture, whatever sequence of messages, starts, stops and clears follows, no line is
  lost on the way: those logged while no capture is active are on standard error in order, and the capture shows the
  most recent thousand of the others since the last clear, in order.
\<close>

theorem log_lines_kept:
  assumes "passes (LoggerLevel p) info" "passes (SinkLevel p) info" "Capture p = None"
    and "captures p a = Some (new_TLogCapture (of_nat TUI_LOG_LINES))" "routed evs (False, [], stderr_lines p) = (on, kept, shown)"
  shows "\<exists>p' c. rfold (log_event_step passes a) evs p = Inr p' \<and> stderr_lines p' = shown \<and> captures p' a = Some c
    \<and> GetLines c = Inr (filter (\<lambda>line. line \<noteq> []) (recent TUI_LOG_LINES kept))"
proof -
  have "(0 :: u64) < of_nat TUI_LOG_LINES" "unat (of_nat TUI_LOG_LINES :: u64) = TUI_LOG_LINES" by (simp_all add: TUI_LOG_LINES_def)
  moreover from this have "log_state passes a p (False, [], stderr_lines p)"
    using assms(1-4) ring_new [of "of_nat TUI_LOG_LINES"] by (simp add: log_state_def new_MaxLines)
  ultimately show ?thesis
    using log_events_routed [of passes a p "(False, [], stderr_lines p)" evs] assms(5) ring_GetLines by (fastforce simp: log_state_def)
qed

definition sample_process :: process where
  "sample_process = \<lparr>LoggerLevel = info, SinkLevel = info, Capture = None, captures = [0 \<mapsto> new_TLogCapture (of_nat TUI_LOG_LINES)], stderr_lines = [],
     ScreenPtr = None, PrevTerminateHandler = None, terminate_handler = DefaultHandler, interrupted = False\<rparr>"

theorem log_lines_kept_witness:
  "\<exists>p' c. rfold (log_event_step (\<lambda>_ lv. lv = info) 0) [Log ''a'', Start, Log ''b'', Log ''c'', Stop, Log ''d''] sample_process = Inr p'
     \<and> stderr_lines p' = [''a'', ''d''] \<and> captures p' 0 = Some c \<and> GetLines c = Inr [''b'', ''c'']"
proof -
  have r: "routed [Log ''a'', Start, Log ''b'', Log ''c'', Stop, Log ''d''] (False, [], stderr_lines sample_process) = (False, [''b'', ''c''], [''a'', ''d''])"
    by (simp add: sample_process_def)
  have p: "Capture sample_process = None"
    "captures sample_process 0 = Some (new_TLogCapture (of_nat TUI_LOG_LINES))" by (simp_all add: sample_process_def)
  have "filter (\<lambda>line. line \<noteq> []) (recent TUI_LOG_LINES [''b'', ''c'']) = [''b'', ''c'']" by (simp add: recent_def TUI_LOG_LINES_def)
  then show ?thesis using log_lines_kept [where passes = "\<lambda>_ lv. lv = info", OF _ _ p r] by simp
qed

section \<open>One UI per process\<close>

text \<open>Parts of the process that only the UI changes: its work only adds lines to a capture.\<close>

definition same_ui :: "process \<Rightarrow> process \<Rightarrow> bool" where
  "same_ui p q \<longleftrightarrow> PrevTerminateHandler q = PrevTerminateHandler p \<and> Capture q = Capture p \<and> dom (captures q) = dom (captures p)"

definition works :: "(call \<Rightarrow> process \<Rightarrow> unit result \<times> process) \<Rightarrow> bool" where
  "works work \<longleftrightarrow> (\<forall>c q. fst (work c q) = Inr () \<and> same_ui q (snd (work c q)))"

lemma worksE:
  assumes "works work"
  obtains q' where "work c q = (Inr (), q')" "same_ui q q'"
  using assms unfolding works_def by (metis prod.collapse)

primrec plain :: "call \<Rightarrow> bool" where
  "plain (CallCheckDbForInit a b) = True" | "plain (CallInitSync a b c) = True" | "plain (CallCheckDbForImport a b) = True"
| "plain (CallImportSync a b c d e) = False" | "plain (CallCheckDbForRun a b c) = True" | "plain (CallRunSync a) = False"
| "plain (CallCleanSync a b) = True" | "plain (CallCheckSync a b c d) = True"

lemma run_plain:
  assumes "works work" "list_all plain cs"
  shows "\<exists>q'. run_calls (with_ui work a) (map Inr cs) q = (Inr (), q') \<and> same_ui q q'"
  using assms(2)
proof (induction cs arbitrary: q)
  case (Cons c cs)
  obtain q1 where q1: "work c q = (Inr (), q1)" "same_ui q q1" using worksE [OF assms(1)] .
  have "with_ui work a c = work c" using Cons.prems by (cases c) (auto simp: with_ui_def)
  then show ?case using Cons.IH [of q1] Cons.prems q1 by (auto simp: same_ui_def)
qed (simp add: same_ui_def)

lemma with_tui_first:
  assumes "works work" "PrevTerminateHandler q = None" "Capture q = None"
  shows "\<exists>q'. with_tui useTui a (work c) q = (Inr (), q') \<and> Capture q' = None \<and> (PrevTerminateHandler q' \<noteq> None \<longleftrightarrow> useTui)"
proof (cases useTui)
  case True
  obtain p1 where p1: "new_TuiBase a (StartLogCapture a (q\<lparr>captures := (captures q)(a \<mapsto> new_TLogCapture (of_nat TUI_LOG_LINES))\<rparr>)) = (Inr (), p1)"
    "PrevTerminateHandler p1 \<noteq> None" using assms(2) by (simp add: new_TuiBase_def StartLogCapture_def)
  obtain q1 where "work c p1 = (Inr (), q1)" "same_ui p1 q1" using worksE [OF assms(1)] .
  then show ?thesis using True p1 by (simp add: with_tui_def StopLogCapture_def destroy_TuiBase_def loop_returned_def same_ui_def Let_def)
next
  case False
  obtain q1 where "work c (q\<lparr>captures := (captures q)(a \<mapsto> new_TLogCapture (of_nat TUI_LOG_LINES))\<rparr>) = (Inr (), q1)"
    "same_ui (q\<lparr>captures := (captures q)(a \<mapsto> new_TLogCapture (of_nat TUI_LOG_LINES))\<rparr>) q1" using worksE [OF assms(1)] .
  then show ?thesis using False assms(2) by (simp add: with_tui_def StopLogCapture_def same_ui_def Let_def)
qed

lemma with_tui_second:
  assumes "PrevTerminateHandler q \<noteq> None"
  shows "\<exists>q'. with_tui True a body q = (Inl (RuntimeError ''Terminate handler is already set''), q') \<and> Capture q' = Some a \<and> captures q' a = None"
  using assms by (simp add: with_tui_def new_TuiBase_def StartLogCapture_def)

lemma dangling_log: "Capture q = Some a \<Longrightarrow> captures q a = None \<Longrightarrow> sink_it line q = Inl (UB ''Capture_->AddLine'')"
  by (simp add: sink_it_def)

text \<open>
  (C39) Import and benchmark in one process: the performance run succeeds without a UI when every step of it does. With the UI it
  always fails when the benchmark begins, because the UI of the import has left its mark in the process, and the message
  about it is written to a capture that no longer exists. (\<open>std::set_terminate\<close> is taken to return a handler when the first UI installs its own,
  the default one, as the common standard libraries do; the standard leaves open whether it may be null.)
\<close>

theorem performance_run_needs_no_tui:
  assumes "works work" "PrevTerminateHandler p = None" "Capture p = None" "\<forall>t. passes t err" "ResolveForeignKeysFlag (FLAGS_foreign_keys fs) False = Inr keys"
    and "run_calls (with_ui work a) (command_calls ''performance-run'' fs) p = (r, p')"
  shows "if FLAGS_no_tui fs then r = Inr ()
    else r = Inl (RuntimeError ''Terminate handler is already set'') \<and> log_message passes err line p' = Inl (UB ''Capture_->AddLine'')"
proof -
  let ?fs = "fs\<lparr>FLAGS_after_import := False\<rparr>" and ?fs1 = "fs\<lparr>FLAGS_after_import := True\<rparr>"
  let ?options = "\<lparr>opt_PartitionCount = FLAGS_partitions fs, opt_WarehouseCount = FLAGS_warehouses fs, opt_EnableForeignKeys = keys\<rparr>"
  let ?before = "[CallCheckDbForInit (FLAGS_connection fs) (FLAGS_path fs), CallInitSync (FLAGS_connection fs) (FLAGS_path fs) ?options,
    CallCheckDbForImport (FLAGS_connection fs) (FLAGS_path fs)]"
  let ?import = "CallImportSync (FLAGS_connection fs) (FLAGS_path fs) (word_of_int (FLAGS_warehouses fs)) (word_of_int (FLAGS_threads fs)) (\<not> FLAGS_no_tui fs)"
  let ?check = "\<lambda>b. [CallCheckDbForRun (FLAGS_connection fs) (FLAGS_warehouses fs) (FLAGS_path fs), CallCheckSync (FLAGS_connection fs) (FLAGS_warehouses fs) b (FLAGS_path fs)]"
  let ?mid = "?check True @ (if IsSimulationMode (run_config ?fs) then [] else [CallCheckDbForRun (FLAGS_connection fs) (FLAGS_warehouses fs) (FLAGS_path fs)])"
  have calls: "command_calls ''performance-run'' fs = map Inr ?before @ Inr ?import # map Inr ?mid @ Inr (CallRunSync (run_config ?fs)) # map Inr (?check False)"
    using assms(5) by (simp add: command_calls_def RunPerformanceRun_def RunInit_def MakeInitOptions_def RunImport_def RunCheck_def RunBenchmark_def Let_def)
  have plain: "list_all plain ?before" "list_all plain ?mid" "list_all plain (?check False)" by simp_all
  obtain p1 where p1: "run_calls (with_ui work a) (map Inr ?before) p = (Inr (), p1)" "same_ui p p1"
    using run_plain [OF assms(1) plain(1), of a p] by blast
  obtain p2 where p2: "with_ui work a ?import p1 = (Inr (), p2)" "Capture p2 = None" "PrevTerminateHandler p2 \<noteq> None \<longleftrightarrow> \<not> FLAGS_no_tui fs"
    using with_tui_first [OF assms(1), of p1 "\<not> FLAGS_no_tui fs" a ?import] assms(2,3) p1(2) by (auto simp: with_ui_def same_ui_def)
  obtain p3 where p3: "run_calls (with_ui work a) (map Inr ?mid) p2 = (Inr (), p3)" "same_ui p2 p3"
    using run_plain [OF assms(1) plain(2), of a p2] by blast
  have ui: "UseTui (run_config ?fs) = (\<not> FLAGS_no_tui fs)" by (simp add: run_config_def)
  have r: "run_calls (with_ui work a) (Inr (CallRunSync (run_config ?fs)) # map Inr (?check False)) p3 = (r, p')"
    using assms(6) p1(1) p2(1) p3(1) unfolding calls by (simp only: run_calls_append run_calls.simps prod.case sum.case)
  show ?thesis
  proof (cases "FLAGS_no_tui fs")
    case True
    obtain p4 where p4: "with_tui False a (work (CallRunSync (run_config ?fs))) p3 = (Inr (), p4)"
      using with_tui_first [OF assms(1), of p3 False a "CallRunSync (run_config ?fs)"] p2(2,3) p3(2) True by (auto simp: same_ui_def)
    then have "run_calls (with_ui work a) (map Inr (?check False)) p4 = (r, p')"
      using r True ui by (simp add: with_ui_def)
    then show ?thesis using run_plain [OF assms(1) plain(3), of a p4] True by fastforce
  next
    case False
    obtain p4 where p4: "with_tui True a (work (CallRunSync (run_config ?fs))) p3 = (Inl (RuntimeError ''Terminate handler is already set''), p4)"
      "Capture p4 = Some a" "captures p4 a = None"
      using with_tui_second [of p3 a "work (CallRunSync (run_config ?fs))"] p2(3) p3(2) False unfolding same_ui_def by metis
    then have "r = Inl (RuntimeError ''Terminate handler is already set'')" "p' = p4" using r False ui by (simp_all add: with_ui_def)
    then show ?thesis using False p4(2,3) assms(4) by (simp add: log_message_def dangling_log)
  qed
qed

theorem performance_run_needs_no_tui_witness:
  "fst (run_calls (with_ui (\<lambda>c q. (Inr (), q)) 7) (command_calls ''performance-run'' (sample_flags\<lparr>FLAGS_no_tui := False\<rparr>)) sample_process)
     = Inl (RuntimeError ''Terminate handler is already set'')
   \<and> fst (run_calls (with_ui (\<lambda>c q. (Inr (), q)) 7) (command_calls ''performance-run'' sample_flags) sample_process) = Inr ()"
proof -
  let ?run = "\<lambda>fs. run_calls (with_ui (\<lambda>c q. (Inr (), q)) 7) (command_calls ''performance-run'' fs) sample_process"
  have w: "works (\<lambda>c q. (Inr (), q))" by (simp add: works_def same_ui_def)
  have k: "ResolveForeignKeysFlag (FLAGS_foreign_keys sample_flags) False = Inr False"
    by (simp add: sample_flags_def ResolveForeignKeysFlag_def)
  have p: "PrevTerminateHandler sample_process = None" "Capture sample_process = None" by (simp_all add: sample_process_def)
  have "fst (?run (sample_flags\<lparr>FLAGS_no_tui := False\<rparr>)) = Inl (RuntimeError ''Terminate handler is already set'')"
    using performance_run_needs_no_tui [where passes = "\<lambda>_ _. True", OF w p _, of "sample_flags\<lparr>FLAGS_no_tui := False\<rparr>" False 7] k by (cases "?run (sample_flags\<lparr>FLAGS_no_tui := False\<rparr>)") simp
  moreover have "fst (?run sample_flags) = Inr ()"
    using performance_run_needs_no_tui [where passes = "\<lambda>_ _. True", OF w p _ k, of 7] by (cases "?run sample_flags") (simp add: sample_flags_def)
  ultimately show ?thesis by blast
qed

section \<open>Smaller facts\<close>

text \<open>The command line sets the logger's level only: a level below the sink's has no effect.\<close>

lemma debug_not_logged:
  "\<not> passes info debug \<Longrightarrow> log_message passes debug line (set_level (ParseLogLevel lv) (InitLogging info p)) = Inr (set_level (ParseLogLevel lv) (InitLogging info p))"
  by (simp add: log_message_def set_level_def InitLogging_def)

text \<open>A scroller stays within its content and reports whether it moved; paging down and up again leads back from the inside.\<close>

lemma OnEvent_bounds:
  "OnEvent ev s = (b, s') \<Longrightarrow> 0 \<le> selected s' \<and> selected s' \<le> max 0 (scroll_size s' - 1) \<and> (b \<longleftrightarrow> selected s' \<noteq> selected s) \<and> scroll_size s' = scroll_size s"
  by (auto simp: OnEvent_def Let_def)

lemma page_down_up:
  assumes "0 \<le> selected s" "box_y_min s \<le> box_y_max s" "selected s + (box_y_max s - box_y_min s) < scroll_size s"
  shows "selected (snd (OnEvent PageUp (snd (OnEvent PageDown s)))) = selected s"
  using assms by (simp add: OnEvent_def moved_def Let_def)

end
