(* ===== verification/Statement.thy ===== *)
theory Statement
  imports Queries Connection
begin

text \<open>
  The layer between the session and the client library (\<open>src/src/db/params.h\<close>, \<open>query_result.h\<close>, \<open>prepared_statement.cpp\<close>):
  parameters and their binding, the cache of prepared statements, and results. The library is a parameter,
  a record of its functions on a state of any type; a pointer into a slot is the name of the field it points to.
\<close>

section \<open>Parameters\<close>

record Timestamp =
  ts_year :: int
  ts_month :: int
  ts_day :: int
  ts_hour :: int
  ts_minute :: int
  ts_second :: int

datatype param = PNull | PInt32 int | PInt64 int | PUint64 u64 | PDouble rat | PString string | PTimestamp Timestamp

datatype bind_kind = KNull | KInt32 | KInt64 | KUint64 | KDouble | KString | KTimestamp

datatype buffer_kind = MYSQL_TYPE_DECIMAL | MYSQL_TYPE_NULL | MYSQL_TYPE_LONG | MYSQL_TYPE_LONGLONG | MYSQL_TYPE_DOUBLE | MYSQL_TYPE_STRING | MYSQL_TYPE_TIMESTAMP

datatype slot_field = NoField | Field_i32 | Field_i64 | Field_u64 | Field_dbl | Field_str | Field_strLength | Field_ts

record MYSQL_BIND =
  buffer_type :: buffer_kind
  buffer :: slot_field
  buffer_length :: nat
  length_at :: slot_field
  is_unsigned :: bool

text \<open>\<open>MYSQL_TIME\<close>: unsigned fields.\<close>

type_synonym mysql_time = "32 word list"

record ParamBinding =
  slot_kind :: bind_kind
  i32 :: int
  i64 :: int
  u64v :: u64
  dbl :: rat
  str :: string
  strLength :: nat
  ts :: mysql_time
  bind :: MYSQL_BIND

text \<open>All bytes zero; \<open>MYSQL_TYPE_DECIMAL\<close> is the number 0.\<close>

definition ResetBind :: MYSQL_BIND where
  "ResetBind = \<lparr>buffer_type = MYSQL_TYPE_DECIMAL, buffer = NoField, buffer_length = 0, length_at = NoField, is_unsigned = False\<rparr>"

definition SetupParamBind :: "ParamBinding \<Rightarrow> ParamBinding" where
  "SetupParamBind slot = slot\<lparr>strLength := (if slot_kind slot = KString then length (str slot) else strLength slot),
     bind := (case slot_kind slot of
       KNull \<Rightarrow> ResetBind\<lparr>buffer_type := MYSQL_TYPE_NULL\<rparr>
     | KInt32 \<Rightarrow> ResetBind\<lparr>buffer_type := MYSQL_TYPE_LONG, buffer := Field_i32, is_unsigned := False\<rparr>
     | KInt64 \<Rightarrow> ResetBind\<lparr>buffer_type := MYSQL_TYPE_LONGLONG, buffer := Field_i64, is_unsigned := False\<rparr>
     | KUint64 \<Rightarrow> ResetBind\<lparr>buffer_type := MYSQL_TYPE_LONGLONG, buffer := Field_u64, is_unsigned := True\<rparr>
     | KDouble \<Rightarrow> ResetBind\<lparr>buffer_type := MYSQL_TYPE_DOUBLE, buffer := Field_dbl\<rparr>
     | KString \<Rightarrow> ResetBind\<lparr>buffer_type := MYSQL_TYPE_STRING, buffer := Field_str, buffer_length := length (str slot), length_at := Field_strLength\<rparr>
     | KTimestamp \<Rightarrow> ResetBind\<lparr>buffer_type := MYSQL_TYPE_TIMESTAMP, buffer := Field_ts\<rparr>)\<rparr>"

definition FillParamSlot :: "ParamBinding \<Rightarrow> param \<Rightarrow> ParamBinding" where
  "FillParamSlot slot v = SetupParamBind (case v of
       PNull \<Rightarrow> slot\<lparr>slot_kind := KNull\<rparr>
     | PInt32 n \<Rightarrow> slot\<lparr>slot_kind := KInt32, i32 := n\<rparr>
     | PInt64 n \<Rightarrow> slot\<lparr>slot_kind := KInt64, i64 := n\<rparr>
     | PUint64 n \<Rightarrow> slot\<lparr>slot_kind := KUint64, u64v := n\<rparr>
     | PDouble x \<Rightarrow> slot\<lparr>slot_kind := KDouble, dbl := x\<rparr>
     | PString s \<Rightarrow> slot\<lparr>slot_kind := KString, str := s\<rparr>
     | PTimestamp t \<Rightarrow> slot\<lparr>slot_kind := KTimestamp, ts := map word_of_int [ts_year t, ts_month t, ts_day t, ts_hour t, ts_minute t, ts_second t]\<rparr>)"

definition new_slot :: ParamBinding where
  "new_slot = \<lparr>slot_kind = KNull, i32 = 0, i64 = 0, u64v = 0, dbl = 0, str = [], strLength = 0, ts = replicate 6 0, bind = ResetBind\<rparr>"

text \<open>The slots of an earlier execution are reused.\<close>

definition fill_slots :: "ParamBinding list \<Rightarrow> param list \<Rightarrow> ParamBinding list" where
  "fill_slots slots params = map2 FillParamSlot (vec_resize new_slot (length params) slots) params"

section \<open>Results\<close>

record QueryResult =
  columns :: "string list"
  rows :: "string option list list"
  rowPos :: u64

definition new_QueryResult :: "string list \<Rightarrow> string option list list \<Rightarrow> QueryResult" where
  "new_QueryResult cs rs = \<lparr>columns = cs, rows = rs, rowPos = - 1\<rparr>"

definition TryNextRow :: "QueryResult \<Rightarrow> bool \<times> QueryResult" where
  "TryNextRow q = (if rowPos q + 1 \<ge> vsize (rows q) then (False, q) else (True, q\<lparr>rowPos := rowPos q + 1\<rparr>))"

definition GetRowsCount :: "QueryResult \<Rightarrow> u64" where
  "GetRowsCount q = vsize (rows q)"

definition IsEmpty :: "QueryResult \<Rightarrow> bool" where
  "IsEmpty q \<longleftrightarrow> rows q = []"

definition QR_Reset :: "QueryResult \<Rightarrow> QueryResult" where
  "QR_Reset q = q\<lparr>rowPos := - 1\<rparr>"

text \<open>Of several columns with one name the map keeps the last.\<close>

definition column_map :: "string list \<Rightarrow> string \<Rightarrow> nat option" where
  "column_map cs = map_of (rev (zip cs [0..<length cs]))"

definition IndexOf :: "string \<Rightarrow> QueryResult \<Rightarrow> nat result" where
  "IndexOf col q = (case column_map (columns q) col of None \<Rightarrow> Inl (RuntimeError (''Unknown column: '' @ col)) | Some i \<Rightarrow> Inr i)"

definition EnsureRow :: "QueryResult \<Rightarrow> unit result" where
  "EnsureRow q = (if rowPos q \<ge> vsize (rows q) then Inl (RuntimeError ''No current row in QueryResult'') else Inr ())"

definition Optional :: "string \<Rightarrow> QueryResult \<Rightarrow> string option result" where
  "Optional col q = rbind (EnsureRow q) (\<lambda>_. rbind (IndexOf col q) (\<lambda>i.
     let row = rows q ! unat (rowPos q) in if i < length row then Inr (row ! i) else Inl (UB ''rows_[rowPos_]'')))"

definition Require :: "string \<Rightarrow> QueryResult \<Rightarrow> string result" where
  "Require col q = rbind (Optional col q) (\<lambda>cell. case cell of None \<Rightarrow> Inl (RuntimeError (''NULL in column: '' @ col)) | Some s \<Rightarrow> Inr s)"

text \<open>\<open>std::stoll\<close> reads as \<open>std::stoi\<close> does.\<close>

definition stoll :: "string \<Rightarrow> int result" where
  "stoll s = (let t = dropWhile isspace s;
       neg = (t \<noteq> [] \<and> hd t = CHR ''-'');
       u = (if t \<noteq> [] \<and> (hd t = CHR ''-'' \<or> hd t = CHR ''+'') then tl t else t);
       ds = takeWhile isdigit u;
       v = (if neg then - digits_value ds else digits_value ds)
     in if ds = [] then Inl (InvalidArgument ''stoll'')
        else if v < - (2 ^ 63) \<or> 2 ^ 63 \<le> v then Inl (OutOfRange ''stoll'')
        else Inr v)"

definition GetInt64 :: "string \<Rightarrow> QueryResult \<Rightarrow> int result" where
  "GetInt64 col q = rbind (Require col q) stoll"

definition GetInt32 :: "string \<Rightarrow> QueryResult \<Rightarrow> int result" where
  "GetInt32 col q = rbind (GetInt64 col q) (\<lambda>n. Inr (sint (word_of_int n :: 32 word)))"

text \<open>\<open>std::stoull\<close> takes a minus sign and negates modulo \<open>2\<^sup>6\<^sup>4\<close>.\<close>

definition stoull :: "string \<Rightarrow> u64 result" where
  "stoull s = (let t = dropWhile isspace s;
       neg = (t \<noteq> [] \<and> hd t = CHR ''-'');
       u = (if t \<noteq> [] \<and> (hd t = CHR ''-'' \<or> hd t = CHR ''+'') then tl t else t);
       ds = takeWhile isdigit u;
       v = digits_value ds
     in if ds = [] then Inl (InvalidArgument ''stoull'')
        else if 2 ^ 64 \<le> v then Inl (OutOfRange ''stoull'')
        else Inr (if neg then - word_of_int v else word_of_int v))"

definition GetUint64 :: "string \<Rightarrow> QueryResult \<Rightarrow> u64 result" where
  "GetUint64 col q = rbind (Require col q) stoull"

definition GetString :: "string \<Rightarrow> QueryResult \<Rightarrow> string result" where
  "GetString col q = Require col q"

definition GetOptionalString :: "string \<Rightarrow> QueryResult \<Rightarrow> string option result" where
  "GetOptionalString col q = Optional col q"

definition GetOptionalInt32 :: "string \<Rightarrow> QueryResult \<Rightarrow> int option result" where
  "GetOptionalInt32 col q = rbind (Optional col q) (\<lambda>cell. case cell of None \<Rightarrow> Inr None
     | Some s \<Rightarrow> rbind (stoll s) (\<lambda>n. Inr (Some (sint (word_of_int n :: 32 word)))))"

section \<open>Statements\<close>

text \<open>
  What the library answers: an error number, zero for success; a fetch gives the row, each value of any length, the end, or
  an error. \<open>None\<close> as the result of an operation means that the fetches never end.
\<close>

datatype fetch = Row "string option list" | NoData | FetchError int

record 'l client =
  stmt_init :: "'l \<Rightarrow> nat option \<times> 'l"
  stmt_prepare :: "nat \<Rightarrow> string \<Rightarrow> 'l \<Rightarrow> int \<times> 'l"
  stmt_bind_param :: "nat \<Rightarrow> ParamBinding list \<Rightarrow> 'l \<Rightarrow> int \<times> 'l"
  stmt_execute :: "nat \<Rightarrow> 'l \<Rightarrow> int \<times> 'l"
  stmt_metadata :: "nat \<Rightarrow> 'l \<Rightarrow> string list option"
  stmt_bind_result :: "nat \<Rightarrow> 'l \<Rightarrow> int \<times> 'l"
  stmt_fetch :: "nat \<Rightarrow> 'l \<Rightarrow> fetch \<times> 'l"
  stmt_affected_rows :: "nat \<Rightarrow> 'l \<Rightarrow> u64"
  stmt_close :: "nat \<Rightarrow> 'l \<Rightarrow> 'l"

definition kResultBufferSize :: nat where "kResultBufferSize = 65536"

definition ThrowStmtError :: "int \<Rightarrow> string \<Rightarrow> 'l \<Rightarrow> ('a result \<times> 'l)" where
  "ThrowStmtError code what l = (Inl (DbException code what), l)"

definition BindParams :: "'l client \<Rightarrow> nat \<Rightarrow> param list \<Rightarrow> ParamBinding list \<Rightarrow> 'l \<Rightarrow> ParamBinding list result \<times> 'l" where
  "BindParams lib h params slots l = (let slots1 = fill_slots slots params in
     if params = [] then (Inr slots1, l)
     else case stmt_bind_param lib h slots1 l of (code, l1) \<Rightarrow>
       if code \<noteq> 0 then ThrowStmtError code ''mysql_stmt_bind_param failed'' l1 else (Inr slots1, l1))"

text \<open>
  \<open>std::string(buffers[i].data(), lengths[i])\<close>: the length is that of the value, the buffer has
  \<open>kResultBufferSize\<close> bytes; truncation is not taken for an error.
\<close>

fun read_cells :: "string option list \<Rightarrow> string option list result" where
  "read_cells [] = Inr []"
| "read_cells (None # vs) = rbind (read_cells vs) (\<lambda>cs. Inr (None # cs))"
| "read_cells (Some s # vs) = (if kResultBufferSize < length s then Inl (UB ''buffers[i].data()'')
     else rbind (read_cells vs) (\<lambda>cs. Inr (Some s # cs)))"

partial_function (option) fetch_loop :: "'l client \<Rightarrow> nat \<Rightarrow> string option list list \<Rightarrow> 'l \<Rightarrow> (string option list list result \<times> 'l) option" where
  [code]: "fetch_loop lib h acc l = (case stmt_fetch lib h l of (r, l1) \<Rightarrow> (case r of
       NoData \<Rightarrow> Some (Inr acc, l1)
     | FetchError code \<Rightarrow> Some (Inl (DbException code ''mysql_stmt_fetch failed''), l1)
     | Row vs \<Rightarrow> (case read_cells vs of Inl e \<Rightarrow> Some (Inl e, l1) | Inr cs \<Rightarrow> fetch_loop lib h (acc @ [cs]) l1)))"

definition MaterializeStmtResult :: "'l client \<Rightarrow> nat \<Rightarrow> 'l \<Rightarrow> (QueryResult result \<times> 'l) option" where
  "MaterializeStmtResult lib h l = (case stmt_metadata lib h l of
       None \<Rightarrow> Some (Inr (new_QueryResult [] []), l)
     | Some cs \<Rightarrow> (case stmt_bind_result lib h l of (code, l1) \<Rightarrow>
         if code \<noteq> 0 then Some (ThrowStmtError code ''mysql_stmt_bind_result failed'' l1)
         else (case fetch_loop lib h [] l1 of None \<Rightarrow> None
           | Some (Inl e, l2) \<Rightarrow> Some (Inl e, l2)
           | Some (Inr rs, l2) \<Rightarrow> Some (Inr (new_QueryResult cs rs), l2))))"

definition PrepareTextStmt :: "'l client \<Rightarrow> string \<Rightarrow> 'l \<Rightarrow> nat result \<times> 'l" where
  "PrepareTextStmt lib sql l = (case stmt_init lib l of
       (None, l1) \<Rightarrow> (Inl (RuntimeError ''mysql_stmt_init failed''), l1)
     | (Some h, l1) \<Rightarrow> (case stmt_prepare lib h sql l1 of (code, l2) \<Rightarrow>
         if code \<noteq> 0 then (Inl (DbException code ''mysql_stmt_prepare failed''), stmt_close lib h l2) else (Inr h, l2)))"

text \<open>The destructor of \<open>StmtGuard\<close> runs on every way out.\<close>

definition with_guard :: "'l client \<Rightarrow> nat \<Rightarrow> ('a result \<times> 'l) option \<Rightarrow> ('a result \<times> 'l) option" where
  "with_guard lib h r = map_option (\<lambda>(x, l). (x, stmt_close lib h l)) r"

definition bind_and_execute :: "'l client \<Rightarrow> nat \<Rightarrow> param list \<Rightarrow> ParamBinding list \<Rightarrow> 'l \<Rightarrow> ParamBinding list result \<times> 'l" where
  "bind_and_execute lib h params slots l = (case BindParams lib h params slots l of
       (Inl e, l1) \<Rightarrow> (Inl e, l1)
     | (Inr slots1, l1) \<Rightarrow> (case stmt_execute lib h l1 of (code, l2) \<Rightarrow>
         if code \<noteq> 0 then ThrowStmtError code ''mysql_stmt_execute failed'' l2 else (Inr slots1, l2)))"

definition QueryText :: "'l client \<Rightarrow> string \<Rightarrow> param list \<Rightarrow> 'l \<Rightarrow> (QueryResult result \<times> 'l) option" where
  "QueryText lib sql params l = (case PrepareTextStmt lib sql l of (Inl e, l1) \<Rightarrow> Some (Inl e, l1)
     | (Inr h, l1) \<Rightarrow> with_guard lib h (case bind_and_execute lib h params [] l1 of (Inl e, l2) \<Rightarrow> Some (Inl e, l2)
         | (Inr _, l2) \<Rightarrow> MaterializeStmtResult lib h l2))"

definition ExecuteText :: "'l client \<Rightarrow> string \<Rightarrow> param list \<Rightarrow> 'l \<Rightarrow> (u64 result \<times> 'l) option" where
  "ExecuteText lib sql params l = (case PrepareTextStmt lib sql l of (Inl e, l1) \<Rightarrow> Some (Inl e, l1)
     | (Inr h, l1) \<Rightarrow> with_guard lib h (case bind_and_execute lib h params [] l1 of (Inl e, l2) \<Rightarrow> Some (Inl e, l2)
         | (Inr _, l2) \<Rightarrow> Some (Inr (stmt_affected_rows lib h l2), l2)))"

section \<open>The cache\<close>

record StmtEntry =
  stmt :: "nat option"
  prepared :: bool
  paramSlots :: "ParamBinding list"

definition new_cache :: "StmtEntry list" where
  "new_cache = replicate (length all_queries) \<lparr>stmt = None, prepared = False, paramSlots = []\<rparr>"

definition Prepare :: "'l client \<Rightarrow> QueryId \<Rightarrow> StmtEntry \<Rightarrow> 'l \<Rightarrow> (unit result \<times> StmtEntry) \<times> 'l" where
  "Prepare lib q entry l = (if prepared entry then ((Inr (), entry), l)
     else case stmt_init lib l of
       (None, l1) \<Rightarrow> ((Inl (RuntimeError ''mysql_stmt_init failed''), entry\<lparr>stmt := None\<rparr>), l1)
     | (Some h, l1) \<Rightarrow> (case stmt_prepare lib h (QuerySql q) l1 of (code, l2) \<Rightarrow>
         if code \<noteq> 0 then ((Inl (DbException code ''mysql_stmt_prepare failed''), entry\<lparr>stmt := Some h\<rparr>), l2)
         else ((Inr (), entry\<lparr>stmt := Some h, prepared := True\<rparr>), l2)))"

text \<open>The entry is updated in place, whatever happens afterwards.\<close>

definition run_cached :: "'l client \<Rightarrow> QueryId \<Rightarrow> param list \<Rightarrow> (nat \<Rightarrow> 'l \<Rightarrow> ('a result \<times> 'l) option) \<Rightarrow> StmtEntry list \<Rightarrow> 'l \<Rightarrow> (('a result \<times> StmtEntry list) \<times> 'l) option" where
  "run_cached lib q params finish cache l = (let i = query_index q in case Prepare lib q (cache ! i) l of
       ((Inl e, entry), l1) \<Rightarrow> Some ((Inl e, cache[i := entry]), l1)
     | ((Inr _, entry), l1) \<Rightarrow> (let cache1 = cache[i := entry\<lparr>paramSlots := fill_slots (paramSlots entry) params\<rparr>] in
         case stmt entry of None \<Rightarrow> Some ((Inl (UB ''entry.stmt''), cache1), l1)
         | Some h \<Rightarrow> (case bind_and_execute lib h params (paramSlots entry) l1 of
             (Inl e, l2) \<Rightarrow> Some ((Inl e, cache1), l2)
           | (Inr _, l2) \<Rightarrow> map_option (\<lambda>(r, l3). ((r, cache1), l3)) (finish h l2))))"

definition Cache_Query :: "'l client \<Rightarrow> QueryId \<Rightarrow> param list \<Rightarrow> StmtEntry list \<Rightarrow> 'l \<Rightarrow> ((QueryResult result \<times> StmtEntry list) \<times> 'l) option" where
  "Cache_Query lib q params = run_cached lib q params (MaterializeStmtResult lib)"

definition Cache_Execute :: "'l client \<Rightarrow> QueryId \<Rightarrow> param list \<Rightarrow> StmtEntry list \<Rightarrow> 'l \<Rightarrow> ((u64 result \<times> StmtEntry list) \<times> 'l) option" where
  "Cache_Execute lib q params = run_cached lib q params (\<lambda>h l. Some (Inr (stmt_affected_rows lib h l), l))"

fun Cache_Clear :: "'l client \<Rightarrow> StmtEntry list \<Rightarrow> 'l \<Rightarrow> StmtEntry list \<times> 'l" where
  "Cache_Clear lib [] l = ([], l)"
| "Cache_Clear lib (e # es) l = (let l1 = (case stmt e of None \<Rightarrow> l | Some h \<Rightarrow> stmt_close lib h l) in
     case Cache_Clear lib es l1 of (es1, l2) \<Rightarrow> (e\<lparr>stmt := None, prepared := False, paramSlots := []\<rparr> # es1, l2))"

end
