(* ===== verification/StatementProofs.thy ===== *)
theory StatementProofs
  imports Statement
begin

text \<open>
  What the layer above the client library guarantees: the server reads the parameters that were given, the caller reads the
  rows the server sent, and statement handles are closed, with the exception of one whose preparation failed.
\<close>

section \<open>Parameters\<close>

text \<open>What the library reads through a binding.\<close>

definition server_value :: "ParamBinding \<Rightarrow> param option" where
  "server_value slot = (let b = bind slot in
     if buffer_type b = MYSQL_TYPE_NULL then Some PNull
     else if buffer_type b = MYSQL_TYPE_LONG \<and> buffer b = Field_i32 \<and> \<not> is_unsigned b then Some (PInt32 (i32 slot))
     else if buffer_type b = MYSQL_TYPE_LONGLONG \<and> buffer b = Field_i64 \<and> \<not> is_unsigned b then Some (PInt64 (i64 slot))
     else if buffer_type b = MYSQL_TYPE_LONGLONG \<and> buffer b = Field_u64 \<and> is_unsigned b then Some (PUint64 (u64v slot))
     else if buffer_type b = MYSQL_TYPE_DOUBLE \<and> buffer b = Field_dbl then Some (PDouble (dbl slot))
     else if buffer_type b = MYSQL_TYPE_STRING \<and> buffer b = Field_str \<and> length_at b = Field_strLength then Some (PString (take (strLength slot) (str slot)))
     else if buffer_type b = MYSQL_TYPE_TIMESTAMP \<and> buffer b = Field_ts then (case map uint (ts slot) of
         [y, mo, d, h, mi, s] \<Rightarrow> Some (PTimestamp \<lparr>ts_year = y, ts_month = mo, ts_day = d, ts_hour = h, ts_minute = mi, ts_second = s\<rparr>)
       | _ \<Rightarrow> None)
     else None)"

definition param_ok :: "param \<Rightarrow> bool" where
  "param_ok v = (case v of PTimestamp t \<Rightarrow>
       list_all (\<lambda>n. 0 \<le> n \<and> n < 2 ^ 32) [ts_year t, ts_month t, ts_day t, ts_hour t, ts_minute t, ts_second t]
     | _ \<Rightarrow> True)"

lemma server_value_fill: "param_ok v \<Longrightarrow> server_value (FillParamSlot slot v) = Some v"
  by (cases v) (auto simp: server_value_def FillParamSlot_def SetupParamBind_def ResetBind_def param_ok_def Let_def take_bit_int_eq_self uint_word_of_int)

text \<open>Whatever an earlier execution left in the slots, the server reads the parameters of this one.\<close>

lemma map2_fill:
  "length slots = length params \<Longrightarrow> list_all param_ok params \<Longrightarrow> map server_value (map2 FillParamSlot slots params) = map Some params"
  by (induction slots params rule: list_induct2) (simp_all add: server_value_fill)

lemma bound_params_exact: "list_all param_ok params \<Longrightarrow> map server_value (fill_slots slots params) = map Some params"
  unfolding fill_slots_def by (rule map2_fill) (simp_all add: length_vec_resize)

section \<open>Rows\<close>

definition short :: "string option \<Rightarrow> bool" where
  "short v = (case v of None \<Rightarrow> True | Some s \<Rightarrow> length s \<le> kResultBufferSize)"

lemma read_cells_short: "list_all short vs \<Longrightarrow> read_cells vs = Inr vs"
  by (induction vs rule: read_cells.induct) (auto simp: short_def)

lemma read_cells_long: "\<not> list_all short vs \<Longrightarrow> read_cells vs = Inl (UB ''buffers[i].data()'')"
  by (induction vs rule: read_cells.induct) (auto simp: short_def)

text \<open>The rows the library delivers before it reports the end.\<close>

inductive fetches :: "'l client \<Rightarrow> nat \<Rightarrow> 'l \<Rightarrow> string option list list \<Rightarrow> 'l \<Rightarrow> bool" for lib h where
  no_data: "stmt_fetch lib h l = (NoData, l') \<Longrightarrow> fetches lib h l [] l'"
| row: "stmt_fetch lib h l = (Row vs, l1) \<Longrightarrow> fetches lib h l1 vss l' \<Longrightarrow> fetches lib h l (vs # vss) l'"

lemma fetch_loop_rows:
  "fetches lib h l vss l' \<Longrightarrow> list_all (list_all short) vss \<Longrightarrow> fetch_loop lib h acc l = Some (Inr (acc @ vss), l')"
proof (induction arbitrary: acc rule: fetches.induct)
  case (no_data l l')
  then show ?case by (subst fetch_loop.simps) simp
next
  case (row l vs l1 vss l')
  then show ?case by (subst fetch_loop.simps) (simp add: read_cells_short)
qed

lemma fetch_loop_long:
  "fetches lib h l vss l' \<Longrightarrow> \<not> list_all (list_all short) vss \<Longrightarrow> \<exists>l3. fetch_loop lib h acc l = Some (Inl (UB ''buffers[i].data()''), l3)"
proof (induction arbitrary: acc rule: fetches.induct)
  case (row l vs l1 vss l')
  show ?case
  proof (cases "list_all short vs")
    case True
    then show ?thesis using row by (subst fetch_loop.simps) (simp add: read_cells_short)
  next
    case False
    then show ?thesis using row.hyps by (subst fetch_loop.simps) (simp add: read_cells_long)
  qed
qed simp

text \<open>The usual loop of a caller over one column.\<close>

fun read_column :: "nat \<Rightarrow> string \<Rightarrow> QueryResult \<Rightarrow> string option list result" where
  "read_column 0 col q = Inr []"
| "read_column (Suc n) col q = (case TryNextRow q of (ok, q1) \<Rightarrow> if \<not> ok then Inr []
     else rbind (Optional col q1) (\<lambda>c. rbind (read_column n col q1) (\<lambda>cs. Inr (c # cs))))"

lemma column_map_nth: "distinct cs \<Longrightarrow> j < length cs \<Longrightarrow> column_map cs (cs ! j) = Some j"
  unfolding column_map_def by (subst map_of_eq_Some_iff) (auto simp: rev_map [symmetric] set_zip)

lemma TryNextRow_at:
  assumes "rowPos q + 1 = word_of_nat k" "k \<le> length (rows q)" "length (rows q) < 2 ^ 64"
  shows "TryNextRow q = (if k = length (rows q) then (False, q) else (True, q\<lparr>rowPos := word_of_nat k\<rparr>))"
proof -
  have "unat (word_of_nat k :: u64) = k" using assms(2,3) by (simp add: unat_of_nat)
  then show ?thesis using assms by (auto simp: TryNextRow_def word_le_nat_alt unat_vsize)
qed

lemma read_column_from:
  assumes "distinct (columns q)" "j < length (columns q)" "list_all (\<lambda>r. length r = length (columns q)) (rows q)" "length (rows q) < 2 ^ 64"
  shows "rowPos q + 1 = word_of_nat k \<Longrightarrow> k \<le> length (rows q) \<Longrightarrow> length (rows q) - k < n \<Longrightarrow>
    read_column n (columns q ! j) q = Inr (map (\<lambda>r. r ! j) (drop k (rows q)))"
  using assms
proof (induction n arbitrary: k q)
  case (Suc n)
  show ?case
  proof (cases "k = length (rows q)")
    case True
    then show ?thesis using TryNextRow_at [OF Suc.prems(1,2,7)] by simp
  next
    case False
    let ?q = "q\<lparr>rowPos := word_of_nat k\<rparr>"
    have k: "k < length (rows q)" using False Suc.prems(2) by simp
    have u: "unat (word_of_nat k :: u64) = k" using k Suc.prems(7) by (simp add: unat_of_nat)
    have "Optional (columns q ! j) ?q = Inr (rows q ! k ! j)"
      using k u Suc.prems(5,6,7) column_map_nth [OF Suc.prems(4,5)]
      by (simp add: Optional_def EnsureRow_def IndexOf_def word_le_nat_alt unat_vsize list_all_length)
    moreover have "read_column n (columns q ! j) ?q = Inr (map (\<lambda>r. r ! j) (drop (Suc k) (rows q)))"
      using Suc.IH [of ?q "Suc k"] Suc.prems k by (simp add: add.commute)
    ultimately show ?thesis
      using TryNextRow_at [OF Suc.prems(1,2,7)] k Cons_nth_drop_Suc [OF k, symmetric] by simp
  qed
qed simp

text \<open>
  (C33) The caller reads what the server sent: if the library delivers rows of the announced width whose values fit the
  buffers, the result is complete, and the loop over \<open>TryNextRow\<close> reads every value of a column once, in order, nulls included. A longer
  value is read beyond the end of its buffer.
\<close>

theorem rows_reach_caller:
  assumes "stmt_metadata lib h l = Some cs" "stmt_bind_result lib h l = (0, l1)" "fetches lib h l1 vss l2"
    and "list_all (\<lambda>r. length r = length cs) vss" "distinct cs" "length vss < 2 ^ 64"
  shows "if list_all (list_all short) vss
    then \<exists>q. MaterializeStmtResult lib h l = Some (Inr q, l2)
      \<and> (\<forall>j < length cs. read_column (length vss + 1) (cs ! j) q = Inr (map (\<lambda>r. r ! j) vss))
    else \<exists>l3. MaterializeStmtResult lib h l = Some (Inl (UB ''buffers[i].data()''), l3)"
proof (cases "list_all (list_all short) vss")
  case True
  have "MaterializeStmtResult lib h l = Some (Inr (new_QueryResult cs vss), l2)"
    using fetch_loop_rows [OF assms(3) True, of "[]"] assms(1,2) by (simp add: MaterializeStmtResult_def)
  moreover have "read_column (length vss + 1) (cs ! j) (new_QueryResult cs vss) = Inr (map (\<lambda>r. r ! j) vss)" if "j < length cs" for j
    using read_column_from [of "new_QueryResult cs vss" j 0 "length vss + 1"] assms(4-6) that by (simp add: new_QueryResult_def)
  ultimately show ?thesis using True by auto
next
  case False
  then show ?thesis using fetch_loop_long [OF assms(3) False, of "[]"] assms(1,2) by (auto simp: MaterializeStmtResult_def)
qed

section \<open>Handles\<close>

text \<open>
  What the library documents about statement handles: \<open>stmt_init\<close> returns one that is not in use, \<open>stmt_close\<close> releases
  it, and nothing else opens or closes one.
\<close>

definition keeps :: "'l client \<Rightarrow> ('l \<Rightarrow> 'b) \<Rightarrow> bool" where
  "keeps lib f \<longleftrightarrow> (\<forall>l h sql. f (snd (stmt_prepare lib h sql l)) = f l)
   \<and> (\<forall>l h slots. f (snd (stmt_bind_param lib h slots l)) = f l)
   \<and> (\<forall>l h. f (snd (stmt_execute lib h l)) = f l)
   \<and> (\<forall>l h. f (snd (stmt_bind_result lib h l)) = f l)
   \<and> (\<forall>l h. f (snd (stmt_fetch lib h l)) = f l)"

definition handle_laws :: "'l client \<Rightarrow> ('l \<Rightarrow> nat set) \<Rightarrow> bool" where
  "handle_laws lib opened \<longleftrightarrow> keeps lib opened
   \<and> (\<forall>l h l'. stmt_init lib l = (Some h, l') \<longrightarrow> h \<notin> opened l \<and> opened l' = insert h (opened l))
   \<and> (\<forall>l l'. stmt_init lib l = (None, l') \<longrightarrow> opened l' = opened l)
   \<and> (\<forall>l h. opened (stmt_close lib h l) = opened l - {h})"

lemma keepsD:
  assumes "keeps lib f"
  shows "stmt_prepare lib h sql l = (c, l') \<Longrightarrow> f l' = f l" "stmt_bind_param lib h slots l = (c, l') \<Longrightarrow> f l' = f l"
    "stmt_execute lib h l = (c, l') \<Longrightarrow> f l' = f l" "stmt_bind_result lib h l = (c, l') \<Longrightarrow> f l' = f l"
    "stmt_fetch lib h l = (x, l') \<Longrightarrow> f l' = f l"
  using assms unfolding keeps_def by (metis snd_conv)+

lemma handle_lawsD:
  assumes "handle_laws lib opened"
  shows "stmt_init lib l = (Some h, l') \<Longrightarrow> h \<notin> opened l \<and> opened l' = insert h (opened l)"
    "stmt_init lib l = (None, l') \<Longrightarrow> opened l' = opened l" "opened (stmt_close lib h l) = opened l - {h}" "keeps lib opened"
  using assms unfolding handle_laws_def by blast+

lemma fetch_loop_kept:
  fixes lib :: "'l client"
  assumes "fetch_loop lib h acc l = Some y" "keeps lib f"
  shows "f (snd y) = f l"
proof -
  have "keeps lib f \<longrightarrow> f (snd y) = f l"
  proof (rule fetch_loop.raw_induct [where P = "\<lambda>lib h acc l y. keeps lib f \<longrightarrow> f (snd y) = f l", OF _ assms(1)], rule impI)
    fix loop :: "'l client \<Rightarrow> nat \<Rightarrow> string option list list \<Rightarrow> 'l \<Rightarrow> (string option list list result \<times> 'l) option"
      and lib :: "'l client" and h acc l y
    assume IH: "\<And>lib h acc l y. loop lib h acc l = Some y \<Longrightarrow> keeps lib f \<longrightarrow> f (snd y) = f l"
      and body: "(case stmt_fetch lib h l of (r, l1) \<Rightarrow> (case r of NoData \<Rightarrow> Some (Inr acc, l1)
        | FetchError code \<Rightarrow> Some (Inl (DbException code ''mysql_stmt_fetch failed''), l1)
        | Row vs \<Rightarrow> (case read_cells vs of Inl e \<Rightarrow> Some (Inl e, l1) | Inr cs \<Rightarrow> loop lib h (acc @ [cs]) l1))) = Some y"
      and laws: "keeps lib f"
    obtain r l1 where st: "stmt_fetch lib h l = (r, l1)" by (cases "stmt_fetch lib h l")
    have o: "f l1 = f l" by (rule keepsD(5) [OF laws st])
    show "f (snd y) = f l" using IH [of lib h _ l1 y] laws body st o by (cases r) (auto split: sum.splits)
  qed
  then show ?thesis using assms(2) by simp
qed

lemma MaterializeStmtResult_kept:
  assumes "MaterializeStmtResult lib h l = Some (r, l')" "keeps lib f"
  shows "f l' = f l"
proof (cases "stmt_metadata lib h l")
  case None
  then show ?thesis using assms(1) by (simp add: MaterializeStmtResult_def)
next
  case (Some cs)
  obtain c l1 where b: "stmt_bind_result lib h l = (c, l1)" by (cases "stmt_bind_result lib h l")
  have o: "f l1 = f l" by (rule keepsD(4) [OF assms(2) b])
  show ?thesis
    using assms(1) Some b o fetch_loop_kept [OF _ assms(2), of h "[]" l1]
    by (fastforce simp: MaterializeStmtResult_def ThrowStmtError_def split: if_splits option.splits prod.splits sum.splits)
qed

lemma bind_and_execute_kept:
  assumes "bind_and_execute lib h params slots l = (r, l')" "keeps lib f"
  shows "f l' = f l"
proof -
  obtain b l1 where b: "BindParams lib h params slots l = (b, l1)" by (cases "BindParams lib h params slots l")
  then have o: "f l1 = f l"
    using keepsD(2) [OF assms(2)] by (auto simp: BindParams_def ThrowStmtError_def Let_def split: if_splits prod.splits)
  obtain c l2 where e: "stmt_execute lib h l1 = (c, l2)" by (cases "stmt_execute lib h l1")
  show ?thesis using assms(1) b o e keepsD(3) [OF assms(2) e]
    by (auto simp: bind_and_execute_def ThrowStmtError_def split: if_splits sum.splits)
qed

lemma PrepareTextStmt_opened:
  assumes "PrepareTextStmt lib sql l = (r, l')" "handle_laws lib opened"
  shows "case r of Inl _ \<Rightarrow> opened l' = opened l | Inr h \<Rightarrow> h \<notin> opened l \<and> opened l' = insert h (opened l)"
proof (cases "stmt_init lib l")
  case (Pair x l1)
  show ?thesis
  proof (cases x)
    case None
    then show ?thesis using assms(1) Pair handle_lawsD(2) [OF assms(2)] by (auto simp: PrepareTextStmt_def)
  next
    case (Some h)
    obtain c l2 where p: "stmt_prepare lib h sql l1 = (c, l2)" by (cases "stmt_prepare lib h sql l1")
    have "h \<notin> opened l" "opened l2 = insert h (opened l)"
      using handle_lawsD(1) [OF assms(2), of l h l1] keepsD(1) [OF handle_lawsD(4) [OF assms(2)] p] Pair Some by auto
    then show ?thesis using assms(1) Pair Some p handle_lawsD(3) [OF assms(2), of h l2] by (auto simp: PrepareTextStmt_def split: if_splits)
  qed
qed

lemma text_stmts_opened:
  assumes laws: "handle_laws lib opened"
  shows "(QueryText lib sql params l = Some (r, l') \<longrightarrow> opened l' = opened l)
    \<and> (ExecuteText lib sql params l = Some (n, l') \<longrightarrow> opened l' = opened l)"
proof -
  obtain x l1 where p: "PrepareTextStmt lib sql l = (x, l1)" by (cases "PrepareTextStmt lib sql l")
  note po = PrepareTextStmt_opened [OF p laws]
  show ?thesis
  proof (cases x)
    case (Inl e)
    then show ?thesis using p po by (auto simp: QueryText_def ExecuteText_def)
  next
    case (Inr h)
    obtain y l2 where b: "bind_and_execute lib h params [] l1 = (y, l2)" by (cases "bind_and_execute lib h params [] l1")
    have o: "opened l2 - {h} = opened l" using bind_and_execute_kept [OF b handle_lawsD(4) [OF laws]] po Inr by auto
    show ?thesis using p Inr b o MaterializeStmtResult_kept [OF _ handle_lawsD(4) [OF laws], of h l2] handle_lawsD(3) [OF laws]
      by (cases y) (auto simp: QueryText_def ExecuteText_def with_guard_def)
  qed
qed

text \<open>
  A one-shot statement closes its handle on every path: whether it succeeds or preparing, binding, executing or fetching
  fails, \<open>QueryText\<close> and \<open>ExecuteText\<close> leave exactly the statement handles open that were open before.
\<close>

theorem text_statements_close:
  assumes laws: "handle_laws lib opened"
  shows "(QueryText lib sql params l = Some (r, l') \<longrightarrow> opened l' = opened l)
    \<and> (ExecuteText lib sql params l = Some (n, l') \<longrightarrow> opened l' = opened l)"
  by (rule text_stmts_opened [OF laws])

text \<open>What no function on statements changes, a one-shot statement does not change either.\<close>

lemma text_stmts_kept:
  assumes "keeps lib f" "\<And>l. f (snd (stmt_init lib l)) = f l" "\<And>h l. f (stmt_close lib h l) = f l"
  shows "QueryText lib sql params l = Some (r, l') \<Longrightarrow> f l' = f l" "ExecuteText lib sql params l = Some (n, l') \<Longrightarrow> f l' = f l"
proof -
  obtain y l0 where i: "stmt_init lib l = (y, l0)" by fastforce
  have i0: "f l0 = f l" using assms(2) [of l] i by simp
  obtain x l1 where p: "PrepareTextStmt lib sql l = (x, l1)" by (cases "PrepareTextStmt lib sql l")
  have p1: "f l1 = f l" using p i i0 keepsD(1) [OF assms(1)] assms(3)
    by (auto simp: PrepareTextStmt_def split: option.splits prod.splits if_splits)
  have "f l' = f l" if "QueryText lib sql params l = Some (r, l') \<or> ExecuteText lib sql params l = Some (n, l')"
  proof (cases x)
    case (Inl e)
    then show ?thesis using that p p1 by (auto simp: QueryText_def ExecuteText_def)
  next
    case (Inr h)
    obtain z l2 where b: "bind_and_execute lib h params [] l1 = (z, l2)" by (cases "bind_and_execute lib h params [] l1")
    have "f l2 = f l" using bind_and_execute_kept [OF b assms(1)] p1 by simp
    then show ?thesis using that p Inr b MaterializeStmtResult_kept [OF _ assms(1), of h l2] assms(3)
      by (cases z) (auto simp: QueryText_def ExecuteText_def with_guard_def)
  qed
  then show "QueryText lib sql params l = Some (r, l') \<Longrightarrow> f l' = f l" "ExecuteText lib sql params l = Some (n, l') \<Longrightarrow> f l' = f l" by blast+
qed

text \<open>Clearing the cache closes the handles its entries hold.\<close>

lemma Cache_Clear_opened:
  assumes "handle_laws lib opened"
  shows "opened (snd (Cache_Clear lib es l)) = opened l - {h. \<exists>e \<in> set es. stmt e = Some h}"
proof (induction es arbitrary: l)
  case (Cons e es)
  let ?l = "case stmt e of None \<Rightarrow> l | Some h \<Rightarrow> stmt_close lib h l"
  have "snd (Cache_Clear lib (e # es) l) = snd (Cache_Clear lib es ?l)" by (simp add: Let_def split: prod.splits)
  then show ?case using Cons.IH [of ?l] handle_lawsD(3) [OF assms] by (cases "stmt e") auto
qed simp

section \<open>A library for the examples\<close>

text \<open>Handles are counted up; preparing takes its error numbers from a list; fetching delivers the rows of the state.\<close>

record sample_lib_state =
  next_handle :: nat
  open_handles :: "nat list"
  prepare_errors :: "int list"
  sample_rows :: "string option list list"

definition sample_lib :: "sample_lib_state client" where
  "sample_lib = \<lparr>stmt_init = (\<lambda>l. (Some (next_handle l), l\<lparr>next_handle := next_handle l + 1, open_handles := next_handle l # open_handles l\<rparr>)),
     stmt_prepare = (\<lambda>h sql l. case prepare_errors l of [] \<Rightarrow> (0, l) | e # es \<Rightarrow> (e, l\<lparr>prepare_errors := es\<rparr>)),
     stmt_bind_param = (\<lambda>h slots l. (0, l)), stmt_execute = (\<lambda>h l. (0, l)), stmt_metadata = (\<lambda>h l. Some [''D_TAX'']),
     stmt_bind_result = (\<lambda>h l. (0, l)),
     stmt_fetch = (\<lambda>h l. case sample_rows l of [] \<Rightarrow> (NoData, l) | r # rs \<Rightarrow> (Row r, l\<lparr>sample_rows := rs\<rparr>)),
     stmt_affected_rows = (\<lambda>h l. 0), stmt_close = (\<lambda>h l. l\<lparr>open_handles := removeAll h (open_handles l)\<rparr>)\<rparr>"

text \<open>Its handles are those below the counter.\<close>

definition sample_opened :: "sample_lib_state \<Rightarrow> nat set" where
  "sample_opened l = set (filter (\<lambda>h. h < next_handle l) (open_handles l))"

lemma sample_laws: "handle_laws sample_lib sample_opened"
  by (auto simp: handle_laws_def keeps_def sample_lib_def sample_opened_def split: list.splits)

definition sample_state :: sample_lib_state where
  "sample_state = \<lparr>next_handle = 0, open_handles = [], prepare_errors = [], sample_rows = [[Some ''0.05''], [None]]\<rparr>"

theorem rows_reach_caller_witness:
  "\<exists>q. MaterializeStmtResult sample_lib 0 sample_state = Some (Inr q, sample_state\<lparr>sample_rows := []\<rparr>)
     \<and> read_column 3 ''D_TAX'' q = Inr [Some ''0.05'', None]"
proof -
  have f: "fetches sample_lib 0 sample_state [[Some ''0.05''], [None]] (sample_state\<lparr>sample_rows := []\<rparr>)"
    by (rule fetches.row [where ?l1.0 = "sample_state\<lparr>sample_rows := [[None]]\<rparr>"], simp add: sample_lib_def sample_state_def,
        rule fetches.row [where ?l1.0 = "sample_state\<lparr>sample_rows := []\<rparr>"], simp add: sample_lib_def sample_state_def,
        rule fetches.no_data, simp add: sample_lib_def sample_state_def)
  have m: "stmt_metadata sample_lib 0 sample_state = Some [''D_TAX'']" "stmt_bind_result sample_lib 0 sample_state = (0, sample_state)"
    by (simp_all add: sample_lib_def)
  show ?thesis using rows_reach_caller [OF m f] by (simp add: short_def kResultBufferSize_def numeral_3_eq_3)
qed

theorem text_statements_close_witness:
  "sample_opened (snd (the (QueryText sample_lib ''SELECT 1'' [] (sample_state\<lparr>prepare_errors := [1064]\<rparr>)))) = {}"
proof -
  have "QueryText sample_lib ''SELECT 1'' [] (sample_state\<lparr>prepare_errors := [1064]\<rparr>)
      = Some (Inl (DbException 1064 ''mysql_stmt_prepare failed''), sample_state\<lparr>next_handle := 1\<rparr>)"
    by (simp add: QueryText_def PrepareTextStmt_def sample_lib_def sample_state_def)
  then show ?thesis
    using text_statements_close [OF sample_laws, of "''SELECT 1''" "[]" "sample_state\<lparr>prepare_errors := [1064]\<rparr>"] by (simp add: sample_opened_def sample_state_def)
qed

text \<open>
  A preparation that fails leaves its handle in the entry, and the next attempt overwrites it: after a failed and a successful
  execution the cleared cache has left a statement open.
\<close>

theorem failed_prepare_leaks:
  "(case Cache_Execute sample_lib NewOrderUpdateDistrict [] new_cache (sample_state\<lparr>prepare_errors := [1205]\<rparr>) of
      Some ((_, cache1), l1) \<Rightarrow> (case Cache_Execute sample_lib NewOrderUpdateDistrict [] cache1 l1 of
        Some ((r, cache2), l2) \<Rightarrow> r = Inr 0 \<and> sample_opened (snd (Cache_Clear sample_lib cache2 l2)) = {0} | None \<Rightarrow> False)
    | None \<Rightarrow> False)"
  by code_simp

end
