(* ===== verification/MysqlConnection.thy ===== *)
theory MysqlConnection
  imports StatementProofs Transactions
begin

text \<open>
  \<open>ObConnection\<close> (\<open>src/src/db/connection.cpp\<close>): a connection handle of the client library with its statement cache. The functions of the
  library on connections are the record \<open>mysql\<close>; \<open>stmts h\<close> are its statement functions on the connection \<open>h\<close>. A result of \<open>None\<close> means
  that the library delivers result sets or rows for ever.
\<close>

section \<open>The code\<close>

type_synonym result_set = "string list \<times> string option list list"

record 'l mysql =
  stmts :: "nat \<Rightarrow> 'l client"
  mysql_init :: "'l \<Rightarrow> nat option \<times> 'l"
  mysql_options :: "nat \<Rightarrow> 'l \<Rightarrow> 'l"
  mysql_real_connect :: "nat \<Rightarrow> string \<Rightarrow> string \<Rightarrow> string \<Rightarrow> string option \<Rightarrow> 32 word \<Rightarrow> 'l \<Rightarrow> int \<times> 'l"
  mysql_select_db :: "nat \<Rightarrow> string \<Rightarrow> 'l \<Rightarrow> int \<times> 'l"
  mysql_query :: "nat \<Rightarrow> string \<Rightarrow> 'l \<Rightarrow> int \<times> 'l"
  mysql_store_result :: "nat \<Rightarrow> 'l \<Rightarrow> result_set option \<times> 'l"
  mysql_field_count :: "nat \<Rightarrow> 'l \<Rightarrow> nat"
  mysql_errno :: "nat \<Rightarrow> 'l \<Rightarrow> int"
  mysql_next_result :: "nat \<Rightarrow> 'l \<Rightarrow> int \<times> 'l"
  mysql_affected_rows :: "nat \<Rightarrow> 'l \<Rightarrow> u64"
  mysql_thread_id :: "nat \<Rightarrow> 'l \<Rightarrow> u64"
  mysql_close :: "nat \<Rightarrow> 'l \<Rightarrow> 'l"

record ObConnection =
  mysql_handle :: "nat option"
  conn_config :: ObConnectionConfig
  selectDatabase :: bool
  stmtCache :: "StmtEntry list option"

definition new_ObConnection :: ObConnection where
  "new_ObConnection = \<lparr>mysql_handle = None, conn_config = default_config, selectDatabase = True, stmtCache = None\<rparr>"

definition ThrowMysqlError :: "int \<Rightarrow> string \<Rightarrow> exn" where
  "ThrowMysqlError code what = DbException code what"

definition MaterializeResult :: "result_set option \<Rightarrow> QueryResult" where
  "MaterializeResult res = (case res of None \<Rightarrow> new_QueryResult [] [] | Some (cs, rs) \<Rightarrow> new_QueryResult cs rs)"

text \<open>A command without a result; \<open>what\<close> is the text of the error.\<close>

definition run_command :: "'l mysql \<Rightarrow> nat \<Rightarrow> string \<Rightarrow> string \<Rightarrow> 'l \<Rightarrow> unit result \<times> 'l" where
  "run_command lib h sql what l = (case mysql_query lib h sql l of (code, l1) \<Rightarrow> (if code \<noteq> 0 then Inl (ThrowMysqlError code what) else Inr (), l1))"

definition SetSessionRepeatableRead :: "'l mysql \<Rightarrow> nat \<Rightarrow> 'l \<Rightarrow> unit result \<times> 'l" where
  "SetSessionRepeatableRead lib h = run_command lib h ''SET SESSION TRANSACTION ISOLATION LEVEL REPEATABLE READ'' ''SET SESSION TRANSACTION ISOLATION LEVEL failed''"

definition EstablishConnection :: "'l mysql \<Rightarrow> ObConnectionConfig \<Rightarrow> bool \<Rightarrow> ObConnection \<Rightarrow> 'l \<Rightarrow> (unit result \<times> ObConnection) \<times> 'l" where
  "EstablishConnection lib config sel conn l = (case mysql_init lib l of
       (None, l1) \<Rightarrow> ((Inl (RuntimeError ''mysql_init failed''), conn\<lparr>mysql_handle := None\<rparr>), l1)
     | (Some h, l1) \<Rightarrow> (let conn1 = conn\<lparr>mysql_handle := Some h\<rparr>;
           selectedDb = (if sel then EffectiveDatabase config else []);
           initialDb = (if selectedDb = [] then None else Some selectedDb) in
         case mysql_real_connect lib h (cfg_host config) (cfg_user config) (cfg_password config) initialDb (word_of_int (cfg_port config)) (mysql_options lib h l1) of (code, l2) \<Rightarrow>
         if code \<noteq> 0 then ((Inl (ThrowMysqlError code ''mysql_real_connect failed''), conn1), l2)
         else case SetSessionRepeatableRead lib h l2 of
             (Inl e, l3) \<Rightarrow> ((Inl e, conn1), l3)
           | (Inr _, l3) \<Rightarrow> ((Inr (), conn1\<lparr>conn_config := config, selectDatabase := sel, stmtCache := Some new_cache\<rparr>), l3)))"

definition ClearStatementCache :: "'l mysql \<Rightarrow> ObConnection \<Rightarrow> 'l \<Rightarrow> ObConnection \<times> 'l" where
  "ClearStatementCache lib conn l = (case (mysql_handle conn, stmtCache conn) of
       (Some h, Some cache) \<Rightarrow> (conn\<lparr>stmtCache := None\<rparr>, snd (Cache_Clear (stmts lib h) cache l))
     | _ \<Rightarrow> (conn, l))"

text \<open>The destructor, and the first half of \<open>Reconnect\<close>: statements first, then the connection.\<close>

definition destroy_ObConnection :: "'l mysql \<Rightarrow> ObConnection \<Rightarrow> 'l \<Rightarrow> ObConnection \<times> 'l" where
  "destroy_ObConnection lib conn l = (case ClearStatementCache lib conn l of (conn1, l1) \<Rightarrow>
     (case mysql_handle conn1 of None \<Rightarrow> (conn1, l1) | Some h \<Rightarrow> (conn1\<lparr>mysql_handle := None\<rparr>, mysql_close lib h l1)))"

definition Connect :: "'l mysql \<Rightarrow> ObConnectionConfig \<Rightarrow> bool \<Rightarrow> 'l \<Rightarrow> ObConnection result \<times> 'l" where
  "Connect lib config sel l = (case EstablishConnection lib config sel new_ObConnection l of
       ((Inl e, conn), l1) \<Rightarrow> (Inl e, snd (destroy_ObConnection lib conn l1))
     | ((Inr _, conn), l1) \<Rightarrow> (Inr conn, l1))"

definition Reconnect :: "'l mysql \<Rightarrow> ObConnectionConfig \<Rightarrow> bool \<Rightarrow> ObConnection \<Rightarrow> 'l \<Rightarrow> (unit result \<times> ObConnection) \<times> 'l" where
  "Reconnect lib config sel conn l = (case destroy_ObConnection lib conn l of (conn1, l1) \<Rightarrow> EstablishConnection lib config sel conn1 l1)"

text \<open>The operations below use \<open>impl_->mysql\<close> without looking at it; a null handle is undefined.\<close>

definition with_handle :: "ObConnection \<Rightarrow> (nat \<Rightarrow> 'l \<Rightarrow> 'a result \<times> 'l) \<Rightarrow> 'l \<Rightarrow> 'a result \<times> 'l" where
  "with_handle conn f l = (case mysql_handle conn of None \<Rightarrow> (Inl (UB ''impl_->mysql''), l) | Some h \<Rightarrow> f h l)"

definition UseDatabase :: "'l mysql \<Rightarrow> string \<Rightarrow> ObConnection \<Rightarrow> 'l \<Rightarrow> unit result \<times> 'l" where
  "UseDatabase lib database conn = with_handle conn (\<lambda>h l. case mysql_select_db lib h database l of (code, l1) \<Rightarrow>
     (if code \<noteq> 0 then Inl (ThrowMysqlError code ''USE database failed'') else Inr (), l1))"

definition CreateDatabaseIfNotExists :: "'l mysql \<Rightarrow> string \<Rightarrow> ObConnection \<Rightarrow> 'l \<Rightarrow> unit result \<times> 'l" where
  "CreateDatabaseIfNotExists lib database conn l = (case QuoteIdent database of Inl e \<Rightarrow> (Inl e, l)
     | Inr ident \<Rightarrow> with_handle conn (\<lambda>h. run_command lib h (''CREATE DATABASE IF NOT EXISTS '' @ ident) ''CREATE DATABASE failed'') l)"

definition Mysql_Begin :: "'l mysql \<Rightarrow> ObConnection \<Rightarrow> 'l \<Rightarrow> unit result \<times> 'l" where
  "Mysql_Begin lib conn = with_handle conn (\<lambda>h. run_command lib h ''START TRANSACTION'' ''START TRANSACTION failed'')"

definition Mysql_Commit :: "'l mysql \<Rightarrow> ObConnection \<Rightarrow> 'l \<Rightarrow> unit result \<times> 'l" where
  "Mysql_Commit lib conn = with_handle conn (\<lambda>h. run_command lib h ''COMMIT'' ''COMMIT failed'')"

definition Mysql_Rollback :: "'l mysql \<Rightarrow> ObConnection \<Rightarrow> 'l \<Rightarrow> 'l" where
  "Mysql_Rollback lib conn l = (case mysql_handle conn of None \<Rightarrow> l | Some h \<Rightarrow> snd (mysql_query lib h ''ROLLBACK'' l))"

definition with_cache :: "ObConnection \<Rightarrow> (nat \<Rightarrow> StmtEntry list \<Rightarrow> 'l \<Rightarrow> (('a result \<times> StmtEntry list) \<times> 'l) option) \<Rightarrow> 'l \<Rightarrow> (('a result \<times> ObConnection) \<times> 'l) option" where
  "with_cache conn f l = (case (mysql_handle conn, stmtCache conn) of
       (Some h, Some cache) \<Rightarrow> map_option (\<lambda>((r, cache1), l1). ((r, conn\<lparr>stmtCache := Some cache1\<rparr>), l1)) (f h cache l)
     | _ \<Rightarrow> Some ((Inl (UB ''impl_->stmtCache''), conn), l))"

definition Query_id :: "'l mysql \<Rightarrow> QueryId \<Rightarrow> param list \<Rightarrow> ObConnection \<Rightarrow> 'l \<Rightarrow> ((QueryResult result \<times> ObConnection) \<times> 'l) option" where
  "Query_id lib q params conn = with_cache conn (\<lambda>h. Cache_Query (stmts lib h) q params)"

definition Execute_id :: "'l mysql \<Rightarrow> QueryId \<Rightarrow> param list \<Rightarrow> ObConnection \<Rightarrow> 'l \<Rightarrow> ((u64 result \<times> ObConnection) \<times> 'l) option" where
  "Execute_id lib q params conn = with_cache conn (\<lambda>h. Cache_Execute (stmts lib h) q params)"

definition Query_sql :: "'l mysql \<Rightarrow> string \<Rightarrow> param list \<Rightarrow> ObConnection \<Rightarrow> 'l \<Rightarrow> (QueryResult result \<times> 'l) option" where
  "Query_sql lib sql params conn l = (if params \<noteq> [] then
       (case (mysql_handle conn, stmtCache conn) of (Some h, Some _) \<Rightarrow> QueryText (stmts lib h) sql params l | _ \<Rightarrow> Some (Inl (UB ''impl_->stmtCache''), l))
     else Some (with_handle conn (\<lambda>h l. case mysql_query lib h sql l of (code, l1) \<Rightarrow>
       if code \<noteq> 0 then (Inl (ThrowMysqlError code ''Query failed''), l1)
       else case mysql_store_result lib h l1 of (res, l2) \<Rightarrow>
         if res = None \<and> mysql_field_count lib h l2 \<noteq> 0 then (Inl (ThrowMysqlError (mysql_errno lib h l2) ''mysql_store_result failed''), l2)
         else (Inr (MaterializeResult res), l2)) l))"

partial_function (option) drain_results :: "'l mysql \<Rightarrow> nat \<Rightarrow> 'l \<Rightarrow> 'l option" where
  [code]: "drain_results lib h l = (case mysql_store_result lib h l of (_, l1) \<Rightarrow> (case mysql_next_result lib h l1 of (code, l2) \<Rightarrow>
     if code = 0 then drain_results lib h l2 else Some l2))"

definition Execute_sql :: "'l mysql \<Rightarrow> string \<Rightarrow> param list \<Rightarrow> ObConnection \<Rightarrow> 'l \<Rightarrow> (u64 result \<times> 'l) option" where
  "Execute_sql lib sql params conn l = (if params \<noteq> [] then
       (case (mysql_handle conn, stmtCache conn) of (Some h, Some _) \<Rightarrow> ExecuteText (stmts lib h) sql params l | _ \<Rightarrow> Some (Inl (UB ''impl_->stmtCache''), l))
     else (case mysql_handle conn of None \<Rightarrow> Some (Inl (UB ''impl_->mysql''), l)
       | Some h \<Rightarrow> (case mysql_query lib h sql l of (code, l1) \<Rightarrow>
         if code \<noteq> 0 then Some (Inl (ThrowMysqlError code ''Execute failed''), l1)
         else map_option (\<lambda>l2. (Inr (mysql_affected_rows lib h l2), l2)) (drain_results lib h l1))))"

definition QuerySimple :: "'l mysql \<Rightarrow> string \<Rightarrow> ObConnection \<Rightarrow> 'l \<Rightarrow> (QueryResult result \<times> 'l) option" where
  "QuerySimple lib sql = Query_sql lib sql []"

definition ExecuteSimple :: "'l mysql \<Rightarrow> string \<Rightarrow> ObConnection \<Rightarrow> 'l \<Rightarrow> (u64 result \<times> 'l) option" where
  "ExecuteSimple lib sql = Execute_sql lib sql []"

text \<open>The admin connection is destroyed on every way out, and every exception is swallowed.\<close>

definition KillQuery :: "'l mysql \<Rightarrow> ObConnectionConfig \<Rightarrow> ObConnection \<Rightarrow> 'l \<Rightarrow> 'l option" where
  "KillQuery lib adminConfig conn l = (case mysql_handle conn of None \<Rightarrow> Some l
     | Some h \<Rightarrow> (let tid = mysql_thread_id lib h l in
         case Connect lib adminConfig True l of (Inl _, l1) \<Rightarrow> Some l1
         | (Inr admin, l1) \<Rightarrow> map_option (\<lambda>(_, l2). snd (destroy_ObConnection lib admin l2)) (ExecuteSimple lib (''KILL QUERY '' @ nat_str (unat tid)) admin l1)))"

definition ThreadId :: "'l mysql \<Rightarrow> ObConnection \<Rightarrow> 'l \<Rightarrow> u64" where
  "ThreadId lib conn l = (case mysql_handle conn of None \<Rightarrow> 0 | Some h \<Rightarrow> mysql_thread_id lib h l)"

definition Ok :: "ObConnection \<Rightarrow> bool" where
  "Ok conn \<longleftrightarrow> mysql_handle conn \<noteq> None"

section \<open>Handles are given back\<close>

text \<open>
  What the library documents about connection handles: \<open>mysql_init\<close> returns a new one, \<open>mysql_close\<close> releases it (and no statement),
  nothing else opens or closes one; and each connection's statement functions obey \<open>handle_laws\<close>.
\<close>

definition conn_laws :: "'l mysql \<Rightarrow> ('l \<Rightarrow> nat set) \<Rightarrow> ('l \<Rightarrow> nat set) \<Rightarrow> bool" where
  "conn_laws lib conns opened \<longleftrightarrow> (\<forall>h. handle_laws (stmts lib h) opened)
   \<and> (\<forall>l h l'. mysql_init lib l = (Some h, l') \<longrightarrow> h \<notin> conns l \<and> conns l' = insert h (conns l) \<and> opened l' = opened l)
   \<and> (\<forall>l l'. mysql_init lib l = (None, l') \<longrightarrow> conns l' = conns l \<and> opened l' = opened l)
   \<and> (\<forall>h l. conns (mysql_close lib h l) = conns l - {h} \<and> opened (mysql_close lib h l) = opened l)
   \<and> (\<forall>h s l. conns (stmt_close (stmts lib h) s l) = conns l)
   \<and> (\<forall>h l. conns (snd (stmt_init (stmts lib h) l)) = conns l) \<and> (\<forall>h. keeps (stmts lib h) conns)
   \<and> (\<forall>h db l. conns (snd (mysql_select_db lib h db l)) = conns l \<and> opened (snd (mysql_select_db lib h db l)) = opened l)
   \<and> (\<forall>h l. conns (mysql_options lib h l) = conns l \<and> opened (mysql_options lib h l) = opened l)
   \<and> (\<forall>h a b c d e l. conns (snd (mysql_real_connect lib h a b c d e l)) = conns l \<and> opened (snd (mysql_real_connect lib h a b c d e l)) = opened l)
   \<and> (\<forall>h q l. conns (snd (mysql_query lib h q l)) = conns l \<and> opened (snd (mysql_query lib h q l)) = opened l)
   \<and> (\<forall>h l. conns (snd (mysql_store_result lib h l)) = conns l \<and> opened (snd (mysql_store_result lib h l)) = opened l)
   \<and> (\<forall>h l. conns (snd (mysql_next_result lib h l)) = conns l \<and> opened (snd (mysql_next_result lib h l)) = opened l)"

text \<open>Both sets at once.\<close>

abbreviation handles :: "('l \<Rightarrow> nat set) \<Rightarrow> ('l \<Rightarrow> nat set) \<Rightarrow> 'l \<Rightarrow> nat set \<times> nat set" where
  "handles conns opened l \<equiv> (conns l, opened l)"

lemma conn_lawsD:
  assumes "conn_laws lib conns opened"
  shows "mysql_init lib l = (Some h, l') \<Longrightarrow> h \<notin> conns l \<and> handles conns opened l' = (insert h (conns l), opened l)"
    "mysql_init lib l = (None, l') \<Longrightarrow> handles conns opened l' = handles conns opened l"
    "handles conns opened (mysql_close lib h l) = (conns l - {h}, opened l)"
    "mysql_real_connect lib h a b c d e (mysql_options lib h l) = (code, l') \<Longrightarrow> handles conns opened l' = handles conns opened l"
    "mysql_query lib h q l = (code, l') \<Longrightarrow> handles conns opened l' = handles conns opened l"
    "mysql_store_result lib h l = (res, l') \<Longrightarrow> handles conns opened l' = handles conns opened l"
    "mysql_next_result lib h l = (code, l') \<Longrightarrow> handles conns opened l' = handles conns opened l"
    "mysql_select_db lib h db l = (code, l') \<Longrightarrow> handles conns opened l' = handles conns opened l"
  using assms unfolding conn_laws_def by (auto, (metis snd_conv)+)

lemma Cache_Clear_conns: "conn_laws lib conns opened \<Longrightarrow> conns (snd (Cache_Clear (stmts lib h) es l)) = conns l"
proof (induction es arbitrary: l)
  case (Cons e es)
  let ?l = "case stmt e of None \<Rightarrow> l | Some s \<Rightarrow> stmt_close (stmts lib h) s l"
  have "snd (Cache_Clear (stmts lib h) (e # es) l) = snd (Cache_Clear (stmts lib h) es ?l)" by (simp add: Let_def split: prod.splits)
  moreover have "conns ?l = conns l" using Cons.prems by (auto simp: conn_laws_def split: option.split)
  ultimately show ?case using Cons.IH [OF Cons.prems, of ?l] by simp
qed simp

text \<open>The statements the cache of a connection holds.\<close>

definition cached_stmts :: "ObConnection \<Rightarrow> nat set" where
  "cached_stmts conn = (case stmtCache conn of None \<Rightarrow> {} | Some cache \<Rightarrow> {h. \<exists>e \<in> set cache. stmt e = Some h})"

lemma destroy_handles:
  assumes "conn_laws lib conns opened" "mysql_handle conn = Some h" "destroy_ObConnection lib conn l = (conn', l')"
  shows "handles conns opened l' = (conns l - {h}, opened l - cached_stmts conn)" "mysql_handle conn' = None"
proof -
  have h: "handle_laws (stmts lib h) opened" using assms(1) by (simp add: conn_laws_def)
  show "handles conns opened l' = (conns l - {h}, opened l - cached_stmts conn)"
    using assms(2,3) conn_lawsD(3) [OF assms(1), of h] Cache_Clear_conns [OF assms(1), of h] Cache_Clear_opened [OF h]
    by (cases "stmtCache conn") (auto simp: destroy_ObConnection_def ClearStatementCache_def cached_stmts_def)
  show "mysql_handle conn' = None"
    using assms(2,3) by (cases "stmtCache conn") (auto simp: destroy_ObConnection_def ClearStatementCache_def)
qed

lemma new_cache_stmts: "e \<in> set new_cache \<Longrightarrow> stmt e = None"
  by (simp add: new_cache_def)

lemma Establish_handles:
  assumes "conn_laws lib conns opened" "EstablishConnection lib config sel conn l = ((r, conn'), l')"
  shows "opened l' = opened l \<and> (case mysql_handle conn' of None \<Rightarrow> conns l' = conns l | Some h \<Rightarrow> h \<notin> conns l \<and> conns l' = insert h (conns l))
    \<and> (case r of Inl _ \<Rightarrow> stmtCache conn' = stmtCache conn | Inr _ \<Rightarrow> mysql_handle conn' \<noteq> None \<and> stmtCache conn' = Some new_cache)"
proof (cases "mysql_init lib l")
  case (Pair x l1)
  show ?thesis
  proof (cases x)
    case None
    then show ?thesis using assms(2) Pair conn_lawsD(2) [OF assms(1)] by (auto simp: EstablishConnection_def)
  next
    case (Some h)
    let ?db = "let s = (if sel then EffectiveDatabase config else []) in if s = [] then None else Some s"
    obtain c l2 where c: "mysql_real_connect lib h (cfg_host config) (cfg_user config) (cfg_password config) ?db (word_of_int (cfg_port config)) (mysql_options lib h l1) = (c, l2)"
      by fastforce
    obtain d l3 where d: "mysql_query lib h ''SET SESSION TRANSACTION ISOLATION LEVEL REPEATABLE READ'' l2 = (d, l3)" by fastforce
    have "h \<notin> conns l" "handles conns opened l2 = (insert h (conns l), opened l)" "handles conns opened l3 = (insert h (conns l), opened l)"
      using conn_lawsD(1) [OF assms(1), of l h l1] conn_lawsD(4) [OF assms(1) c] conn_lawsD(5) [OF assms(1) d] Pair Some by auto
    then show ?thesis using assms(2) Pair Some c d
      by (auto simp: EstablishConnection_def SetSessionRepeatableRead_def run_command_def Let_def split: if_splits sum.splits)
  qed
qed

lemma Connect_handles:
  assumes "conn_laws lib conns opened" "Connect lib config sel l = (r, l')"
  shows "case r of Inl _ \<Rightarrow> handles conns opened l' = handles conns opened l
    | Inr conn \<Rightarrow> cached_stmts conn = {} \<and> (\<exists>h. mysql_handle conn = Some h \<and> h \<notin> conns l \<and> handles conns opened l' = (insert h (conns l), opened l))"
proof -
  obtain x conn l1 where e: "EstablishConnection lib config sel new_ObConnection l = ((x, conn), l1)" by (metis prod.exhaust)
  note eh = Establish_handles [OF assms(1) e]
  show ?thesis
  proof (cases x)
    case (Inl er)
    then have c: "stmtCache conn = None" using eh by (simp add: new_ObConnection_def)
    have l': "r = Inl er" "l' = snd (destroy_ObConnection lib conn l1)" using assms(2) e Inl by (simp_all add: Connect_def)
    show ?thesis
    proof (cases "mysql_handle conn")
      case None
      then show ?thesis using l' eh c by (simp add: destroy_ObConnection_def ClearStatementCache_def)
    next
      case (Some h)
      obtain conn' where "destroy_ObConnection lib conn l1 = (conn', l')" using l' by (metis prod.collapse)
      from destroy_handles(1) [OF assms(1) Some this] show ?thesis using eh Some c l' by (auto simp: cached_stmts_def)
    qed
  next
    case (Inr u)
    then show ?thesis using assms(2) e eh new_cache_stmts by (auto simp: Connect_def cached_stmts_def)
  qed
qed

section \<open>A connection in use\<close>

definition stmts_of :: "StmtEntry list \<Rightarrow> nat set" where
  "stmts_of cache = {h. \<exists>e \<in> set cache. stmt e = Some h}"

lemma cached_stmts_eq: "stmtCache conn = Some cache \<Longrightarrow> cached_stmts conn = stmts_of cache"
  by (simp add: cached_stmts_def stmts_of_def)

lemma stmts_of_update:
  assumes "i < length cache" "stmt (cache ! i) = None \<or> stmt (cache ! i) = stmt e"
  shows "stmts_of (cache[i := e]) = stmts_of cache \<union> {h. stmt e = Some h}"
proof -
  have "set cache = insert (cache ! i) (set (take i cache) \<union> set (drop (Suc i) cache))"
    using arg_cong [OF id_take_nth_drop [OF assms(1)], of set] by simp
  moreover have "set (cache[i := e]) = insert e (set (take i cache) \<union> set (drop (Suc i) cache))"
    using assms(1) by (simp add: upd_conv_take_nth_drop)
  ultimately show ?thesis using assms(2) by (auto simp: stmts_of_def)
qed

text \<open>The entry of a statement whose preparation failed earlier.\<close>

definition failed_before :: "QueryId \<Rightarrow> StmtEntry list \<Rightarrow> bool" where
  "failed_before q cache \<longleftrightarrow> stmt (cache ! query_index q) \<noteq> None \<and> \<not> prepared (cache ! query_index q)"

lemma run_cached_handles:
  assumes "run_cached lib q params fin cache l = Some ((r, cache'), l')" "handle_laws lib opened" "query_index q < length cache" "\<not> failed_before q cache"
    and fin: "\<And>h l r l'. fin h l = Some (r, l') \<Longrightarrow> opened l' = opened l"
  shows "\<exists>N. stmts_of cache' = stmts_of cache \<union> N \<and> opened l' = opened l \<union> N \<and> N \<inter> opened l = {} \<and> length cache' = length cache"
proof -
  let ?i = "query_index q"
  let ?e = "cache ! ?i"
  obtain x entry l1 where p: "Prepare lib q ?e l = ((x, entry), l1)" by (metis prod.exhaust)
  have n: "(stmt ?e = None \<or> stmt ?e = stmt entry) \<and> (\<exists>N. N \<inter> opened l = {} \<and> opened l1 = opened l \<union> N \<and> stmts_of cache \<union> {h. stmt entry = Some h} = stmts_of cache \<union> N)"
  proof (cases "prepared ?e")
    case True
    then have "entry = ?e" "l1 = l" using p by (simp_all add: Prepare_def)
    moreover have "{h. stmt ?e = Some h} \<subseteq> stmts_of cache" using assms(3) by (auto simp: stmts_of_def)
    ultimately show ?thesis by (intro conjI exI [of _ "{}"]) auto
  next
    case False
    then have s: "stmt ?e = None" using assms(4) by (simp add: failed_before_def)
    obtain y l2 where i: "stmt_init lib l = (y, l2)" by fastforce
    show ?thesis
    proof (cases y)
      case None
      then show ?thesis using p False i s handle_lawsD(2) [OF assms(2)] by (intro conjI exI [of _ "{}"]) (auto simp: Prepare_def)
    next
      case (Some h)
      obtain c l3 where c: "stmt_prepare lib h (QuerySql q) l2 = (c, l3)" by fastforce
      have "opened l3 = insert h (opened l)" "h \<notin> opened l" "stmt entry = Some h" "l1 = l3"
        using p False i Some c handle_lawsD(1) [OF assms(2), of l h l2] keepsD(1) [OF handle_lawsD(4) [OF assms(2)] c]
        by (auto simp: Prepare_def split: if_splits)
      then show ?thesis using s by (intro conjI exI [of _ "{h}"]) auto
    qed
  qed
  then obtain N where N: "N \<inter> opened l = {}" "opened l1 = opened l \<union> N" "stmts_of cache \<union> {h. stmt entry = Some h} = stmts_of cache \<union> N" by blast
  have up: "stmts_of (cache[?i := e]) = stmts_of cache \<union> N" if "stmt e = stmt entry" for e
    using stmts_of_update [OF assms(3), of e] n N(3) that by simp
  have "opened l' = opened l1 \<and> (\<exists>e. cache' = cache[?i := e] \<and> stmt e = stmt entry)"
  proof (cases x)
    case (Inl er)
    then show ?thesis using assms(1) p by (auto simp: run_cached_def Let_def)
  next
    case (Inr u)
    let ?e1 = "entry\<lparr>paramSlots := fill_slots (paramSlots entry) params\<rparr>"
    show ?thesis
    proof (cases "stmt entry")
      case None
      then show ?thesis using assms(1) p Inr by (intro conjI exI [of _ ?e1]) (auto simp: run_cached_def Let_def)
    next
      case (Some h)
      obtain y l2 where b: "bind_and_execute lib h params (paramSlots entry) l1 = (y, l2)" by fastforce
      have "opened l2 = opened l1" by (rule bind_and_execute_kept [OF b handle_lawsD(4) [OF assms(2)]])
      then show ?thesis using assms(1) p Inr Some b fin [of h l2]
        by (intro conjI exI [of _ ?e1]) (auto simp: run_cached_def Let_def split: sum.splits)
    qed
  qed
  then show ?thesis using N(1,2) up by (metis length_list_update)
qed

lemma run_cached_kept:
  assumes "run_cached lib q params fin cache l = Some ((r, cache'), l')" "keeps lib f" "\<And>l. f (snd (stmt_init lib l)) = f l"
    and fin: "\<And>h l r l'. fin h l = Some (r, l') \<Longrightarrow> f l' = f l"
  shows "f l' = f l"
proof -
  obtain y l0 where i: "stmt_init lib l = (y, l0)" by fastforce
  have i0: "f l0 = f l" using assms(3) [of l] i by simp
  obtain x entry l1 where p: "Prepare lib q (cache ! query_index q) l = ((x, entry), l1)" by (metis prod.exhaust)
  have p1: "f l1 = f l" using p i i0 keepsD(1) [OF assms(2)] by (auto simp: Prepare_def split: option.splits prod.splits if_splits)
  show ?thesis
  proof (cases "x = Inr () \<and> stmt entry \<noteq> None")
    case True
    then obtain h where h: "stmt entry = Some h" by blast
    obtain z l2 where b: "bind_and_execute lib h params (paramSlots entry) l1 = (z, l2)" by fastforce
    then show ?thesis using assms(1) p h True p1 bind_and_execute_kept [OF b assms(2)] fin [of h l2]
      by (auto simp: run_cached_def Let_def split: sum.splits)
  next
    case False
    then show ?thesis using assms(1) p p1 by (cases x) (auto simp: run_cached_def Let_def split: option.splits)
  qed
qed

text \<open>What a session does with its connection; a statement whose preparation failed is not tried again.\<close>

inductive uses :: "'l mysql \<Rightarrow> ObConnection \<times> 'l \<Rightarrow> ObConnection \<times> 'l \<Rightarrow> bool" for lib where
  query: "stmtCache conn = Some cache \<Longrightarrow> \<not> failed_before q cache \<Longrightarrow> Query_id lib q params conn l = Some ((r, conn'), l') \<Longrightarrow> uses lib (conn, l) (conn', l')"
| execute: "stmtCache conn = Some cache \<Longrightarrow> \<not> failed_before q cache \<Longrightarrow> Execute_id lib q params conn l = Some ((n, conn'), l') \<Longrightarrow> uses lib (conn, l) (conn', l')"
| query_sql: "Query_sql lib sql params conn l = Some (r, l') \<Longrightarrow> uses lib (conn, l) (conn, l')"
| execute_sql: "Execute_sql lib sql params conn l = Some (n, l') \<Longrightarrow> uses lib (conn, l) (conn, l')"
| use_db: "UseDatabase lib db conn l = (u, l') \<Longrightarrow> uses lib (conn, l) (conn, l')"
| create_db: "CreateDatabaseIfNotExists lib db conn l = (u, l') \<Longrightarrow> uses lib (conn, l) (conn, l')"
| begin_tx: "Mysql_Begin lib conn l = (u, l') \<Longrightarrow> uses lib (conn, l) (conn, l')"
| commit_tx: "Mysql_Commit lib conn l = (u, l') \<Longrightarrow> uses lib (conn, l) (conn, l')"
| rollback_tx: "uses lib (conn, l) (conn, Mysql_Rollback lib conn l)"
| kill: "KillQuery lib config conn l = Some l' \<Longrightarrow> uses lib (conn, l) (conn, l')"

lemma drain_kept:
  fixes lib :: "'l mysql"
  assumes "drain_results lib h l = Some l'" "\<And>h l. f (snd (mysql_store_result lib h l)) = f l" "\<And>h l. f (snd (mysql_next_result lib h l)) = f l"
  shows "f l' = f l"
proof -
  define K where "K lib' \<longleftrightarrow> (\<forall>h l. f (snd (mysql_store_result lib' h l)) = f l) \<and> (\<forall>h l. f (snd (mysql_next_result lib' h l)) = f l)" for lib' :: "'l mysql"
  have "K lib \<longrightarrow> f l' = f l"
  proof (rule drain_results.raw_induct [where P = "\<lambda>lib h l y. K lib \<longrightarrow> f y = f l", OF _ assms(1)], rule impI)
    fix loop :: "'l mysql \<Rightarrow> nat \<Rightarrow> 'l \<Rightarrow> 'l option" and lib :: "'l mysql" and h l y
    assume IH: "\<And>lib h l y. loop lib h l = Some y \<Longrightarrow> K lib \<longrightarrow> f y = f l" and k: "K lib"
      and body: "(case mysql_store_result lib h l of (_, l1) \<Rightarrow> (case mysql_next_result lib h l1 of (code, l2) \<Rightarrow> if code = 0 then loop lib h l2 else Some l2)) = Some y"
    obtain res l1 where s: "mysql_store_result lib h l = (res, l1)" by fastforce
    obtain code l2 where n: "mysql_next_result lib h l1 = (code, l2)" by fastforce
    have "f l1 = f l" "f l2 = f l1" using k s n unfolding K_def by (metis snd_conv)+
    then show "f y = f l" using IH [of lib h l2 y] k body s n by (auto split: if_splits)
  qed
  then show ?thesis using assms(2,3) by (simp add: K_def)
qed

lemma drain_handles: "drain_results lib h l = Some l' \<Longrightarrow> conn_laws lib conns opened \<Longrightarrow> handles conns opened l' = handles conns opened l"
  using drain_kept [of lib h l l' conns] drain_kept [of lib h l l' opened] by (simp add: conn_laws_def)

lemma sql_handles:
  assumes "conn_laws lib conns opened"
  shows "Query_sql lib sql params conn l = Some (r, l') \<Longrightarrow> handles conns opened l' = handles conns opened l"
    and "Execute_sql lib sql params conn l = Some (n, l') \<Longrightarrow> handles conns opened l' = handles conns opened l"
    and "run_command lib h sql what l = (u, l') \<Longrightarrow> handles conns opened l' = handles conns opened l"
proof -
  have h: "handle_laws (stmts lib h) opened" "keeps (stmts lib h) conns" "conns (snd (stmt_init (stmts lib h) l)) = conns l"
    "conns (stmt_close (stmts lib h) s l) = conns l" for h s l using assms by (simp_all add: conn_laws_def)
  note t = text_stmts_opened [OF h(1)] text_stmts_kept [OF h(2-4)]
  note c = conn_lawsD(5,6) [OF assms] drain_handles [OF _ assms]
  show "handles conns opened l' = handles conns opened l" if q: "Query_sql lib sql params conn l = Some (r, l')"
  proof (cases "params = []")
    case True
    then show ?thesis using q c(1,2) by (fastforce simp: Query_sql_def with_handle_def split: option.splits prod.splits if_splits)
  next
    case False
    then show ?thesis using q t(1) t(2) by (fastforce simp: Query_sql_def split: option.splits)
  qed
  show "handles conns opened l' = handles conns opened l" if q: "Execute_sql lib sql params conn l = Some (n, l')"
  proof (cases "params = []")
    case True
    then show ?thesis using q c(1,3) by (fastforce simp: Execute_sql_def split: option.splits prod.splits if_splits)
  next
    case False
    then show ?thesis using q t(1) t(3) by (fastforce simp: Execute_sql_def split: option.splits)
  qed
  show "handles conns opened l' = handles conns opened l" if "run_command lib h sql what l = (u, l')"
    using that c(1) by (auto simp: run_command_def split: prod.splits)
qed

lemma KillQuery_handles:
  assumes "KillQuery lib config conn l = Some l'" "conn_laws lib conns opened"
  shows "handles conns opened l' = handles conns opened l"
proof (cases "mysql_handle conn")
  case (Some h)
  obtain x l1 where c: "Connect lib config True l = (x, l1)" by fastforce
  note ch = Connect_handles [OF assms(2) c]
  show ?thesis
  proof (cases x)
    case (Inl e)
    then show ?thesis using assms(1) Some c ch by (simp add: KillQuery_def)
  next
    case (Inr admin)
    obtain r l2 where e: "Execute_sql lib (''KILL QUERY '' @ nat_str (unat (mysql_thread_id lib h l))) [] admin l1 = Some (r, l2)"
      and l': "l' = snd (destroy_ObConnection lib admin l2)"
      using assms(1) Some c Inr by (auto simp: KillQuery_def ExecuteSimple_def Let_def)
    obtain admin' where d: "destroy_ObConnection lib admin l2 = (admin', l')" using l' by (metis prod.collapse)
    obtain k where k: "mysql_handle admin = Some k" "k \<notin> conns l" "handles conns opened l1 = (insert k (conns l), opened l)" "cached_stmts admin = {}"
      using ch Inr by auto
    show ?thesis using destroy_handles(1) [OF assms(2) k(1) d] sql_handles(2) [OF assms(2) e] k(2-4) by auto
  qed
qed (use assms(1) in \<open>simp add: KillQuery_def\<close>)

text \<open>What holds of a connection made at \<open>l0\<close>: its own handle and the statements in its cache are all that is open in addition.\<close>

definition owns :: "('l \<Rightarrow> nat set) \<Rightarrow> ('l \<Rightarrow> nat set) \<Rightarrow> 'l \<Rightarrow> ObConnection \<times> 'l \<Rightarrow> bool" where
  "owns conns opened l0 cl = (case cl of (conn, l) \<Rightarrow> \<exists>h cache. mysql_handle conn = Some h \<and> h \<notin> conns l0 \<and> conns l = insert h (conns l0)
     \<and> stmtCache conn = Some cache \<and> length cache = length all_queries \<and> opened l = opened l0 \<union> stmts_of cache \<and> stmts_of cache \<inter> opened l0 = {})"

lemma owns_same: "owns conns opened l0 (conn, l) \<Longrightarrow> handles conns opened l' = handles conns opened l \<Longrightarrow> owns conns opened l0 (conn, l')"
  by (simp add: owns_def)

lemma cached_owns:
  assumes "conn_laws lib conns opened" "owns conns opened l0 (conn, l)" "stmtCache conn = Some cache" "\<not> failed_before q cache"
    and "with_cache conn (\<lambda>h. run_cached (stmts lib h) q params (fin h)) l = Some ((r, conn'), l')"
    and fin: "\<And>k h l r l' f :: 'l \<Rightarrow> nat set. keeps (stmts lib k) f \<Longrightarrow> fin k h l = Some (r, l') \<Longrightarrow> f l' = f l"
  shows "owns conns opened l0 (conn', l')"
proof -
  obtain h where o: "mysql_handle conn = Some h" "h \<notin> conns l0" "conns l = insert h (conns l0)" "length cache = length all_queries"
    "opened l = opened l0 \<union> stmts_of cache" "stmts_of cache \<inter> opened l0 = {}" using assms(2,3) by (auto simp: owns_def)
  obtain cache' where r: "run_cached (stmts lib h) q params (fin h) cache l = Some ((r, cache'), l')" "conn' = conn\<lparr>stmtCache := Some cache'\<rparr>"
    using assms(3,5) o(1) by (auto simp: with_cache_def)
  have laws: "handle_laws (stmts lib h) opened" "keeps (stmts lib h) conns" "\<And>l. conns (snd (stmt_init (stmts lib h) l)) = conns l"
    using assms(1) by (simp_all add: conn_laws_def)
  have "query_index q < length cache" using o(4) all_queries_index [of q] by (simp add: all_queries_def)
  then obtain N where "stmts_of cache' = stmts_of cache \<union> N" "opened l' = opened l \<union> N" "N \<inter> opened l = {}" "length cache' = length cache"
    using run_cached_handles [OF r(1) laws(1) _ assms(4)] fin [OF handle_lawsD(4) [OF laws(1)]] by blast
  moreover have "conns l' = conns l" using run_cached_kept [OF r(1) laws(2,3)] fin [OF laws(2)] by blast
  ultimately show ?thesis using o r(2) by (auto simp: owns_def)
qed

lemma uses_owns:
  assumes "uses lib cl cl'" "conn_laws lib conns opened" "owns conns opened l0 cl"
  shows "owns conns opened l0 cl'"
proof -
  have same: "owns conns opened l0 cl'" if "cl = (conn, l)" "cl' = (conn, l')" "handles conns opened l' = handles conns opened l" for conn l l'
    using owns_same [of conns opened l0 conn l l'] that assms(3) by simp
  show ?thesis
    using assms(1)
  proof (cases rule: uses.cases)
    case (query conn cache q params l r conn' l')
    have "owns conns opened l0 (conn', l')"
      by (rule cached_owns [OF assms(2), of l0 conn l cache q params "\<lambda>h. MaterializeStmtResult (stmts lib h)" r])
        (use query assms(3) in \<open>simp_all add: Query_id_def Cache_Query_def\<close>, rule MaterializeStmtResult_kept)
    then show ?thesis using query(2) by simp
  next
    case (execute conn cache q params l n conn' l')
    then show ?thesis using cached_owns [OF assms(2), of l0 conn l cache q params "\<lambda>h s l. Some (Inr (stmt_affected_rows (stmts lib h) s l), l)" n conn' l'] assms(3)
      by (simp add: Execute_id_def Cache_Execute_def)
  next
    case (query_sql sql params conn l r l')
    from same [OF query_sql(1,2) sql_handles(1) [OF assms(2) query_sql(3)]] show ?thesis .
  next
    case (execute_sql sql params conn l n l')
    from same [OF execute_sql(1,2) sql_handles(2) [OF assms(2) execute_sql(3)]] show ?thesis .
  next
    case (use_db db conn l u l')
    then have "handles conns opened l' = handles conns opened l"
      using conn_lawsD(8) [OF assms(2)] by (auto simp: UseDatabase_def with_handle_def split: option.splits prod.splits)
    with use_db(1,2) show ?thesis by (rule same)
  next
    case (create_db db conn l u l')
    then have "handles conns opened l' = handles conns opened l"
      by (auto simp: CreateDatabaseIfNotExists_def with_handle_def split: option.splits sum.splits dest: sql_handles(3) [OF assms(2)])
    with create_db(1,2) show ?thesis by (rule same)
  next
    case (begin_tx conn l u l')
    then have "handles conns opened l' = handles conns opened l"
      by (auto simp: Mysql_Begin_def with_handle_def split: option.splits dest: sql_handles(3) [OF assms(2)])
    with begin_tx(1,2) show ?thesis by (rule same)
  next
    case (commit_tx conn l u l')
    then have "handles conns opened l' = handles conns opened l"
      by (auto simp: Mysql_Commit_def with_handle_def split: option.splits dest: sql_handles(3) [OF assms(2)])
    with commit_tx(1,2) show ?thesis by (rule same)
  next
    case (rollback_tx conn l)
    have "handles conns opened (Mysql_Rollback lib conn l) = handles conns opened l"
      using assms(2) by (auto simp: Mysql_Rollback_def conn_laws_def split: option.splits)
    with rollback_tx show ?thesis by (rule same)
  next
    case (kill config conn l l')
    from same [OF kill(1,2) KillQuery_handles [OF kill(3) assms(2)]] show ?thesis .
  qed
qed

lemma uses_run_owns: "(uses lib)\<^sup>*\<^sup>* cl cl' \<Longrightarrow> conn_laws lib conns opened \<Longrightarrow> owns conns opened l0 cl \<Longrightarrow> owns conns opened l0 cl'"
  by (induction rule: rtranclp_induct) (auto intro: uses_owns)

text \<open>
  (C35) A connection gives back what it took. A connection attempt that fails leaves no handle of the library open; one that
  succeeds opens one, and after any use of the connection in which no failed preparation is repeated, its destructor closes it and every
  statement prepared on it, and nothing else. Cancelling a query through an admin connection leaves no trace.
\<close>

theorem connections_given_back:
  assumes "conn_laws lib conns opened" "Connect lib config sel l = (r, l1)"
  shows "case r of Inl _ \<Rightarrow> conns l1 = conns l \<and> opened l1 = opened l
    | Inr conn \<Rightarrow> Ok conn \<and> (\<forall>conn2 l2 conn3 l3. (uses lib)\<^sup>*\<^sup>* (conn, l1) (conn2, l2) \<longrightarrow> destroy_ObConnection lib conn2 l2 = (conn3, l3) \<longrightarrow>
        Ok conn2 \<and> \<not> Ok conn3 \<and> conns l3 = conns l \<and> opened l3 = opened l)"
proof (cases r)
  case (Inl e)
  then show ?thesis using Connect_handles [OF assms] by simp
next
  case (Inr conn)
  obtain conn0 where e: "EstablishConnection lib config sel new_ObConnection l = ((Inr (), conn), l1)"
    using assms(2) Inr by (auto simp: Connect_def split: prod.splits sum.splits)
  have "stmtCache conn = Some new_cache" using Establish_handles [OF assms(1) e] by simp
  then have o: "owns conns opened l (conn, l1)"
    using Connect_handles [OF assms] Inr new_cache_stmts by (auto simp: owns_def cached_stmts_eq new_cache_def)
  have "Ok conn2 \<and> \<not> Ok conn3 \<and> conns l3 = conns l \<and> opened l3 = opened l"
    if u: "(uses lib)\<^sup>*\<^sup>* (conn, l1) (conn2, l2)" and d: "destroy_ObConnection lib conn2 l2 = (conn3, l3)" for conn2 l2 conn3 l3
  proof -
    obtain h cache where o2: "mysql_handle conn2 = Some h" "h \<notin> conns l" "conns l2 = insert h (conns l)" "stmtCache conn2 = Some cache"
      "opened l2 = opened l \<union> stmts_of cache" "stmts_of cache \<inter> opened l = {}"
      using uses_run_owns [OF u assms(1) o] by (auto simp: owns_def)
    show ?thesis using destroy_handles [OF assms(1) o2(1) d] o2 by (auto simp: Ok_def cached_stmts_eq)
  qed
  moreover have "Ok conn" using o by (auto simp: owns_def Ok_def)
  ultimately show ?thesis using Inr by simp
qed

section \<open>A library for the example\<close>

record sample_conns =
  next_conn :: nat
  next_stmt :: nat
  conn_ids :: "nat list"
  stmt_ids :: "nat list"

definition sample_stmts :: "sample_conns client" where
  "sample_stmts = \<lparr>stmt_init = (\<lambda>l. (Some (next_stmt l), l\<lparr>next_stmt := next_stmt l + 1, stmt_ids := next_stmt l # stmt_ids l\<rparr>)),
     stmt_prepare = (\<lambda>h sql l. (0, l)), stmt_bind_param = (\<lambda>h slots l. (0, l)), stmt_execute = (\<lambda>h l. (0, l)), stmt_metadata = (\<lambda>h l. None),
     stmt_bind_result = (\<lambda>h l. (0, l)), stmt_fetch = (\<lambda>h l. (NoData, l)), stmt_affected_rows = (\<lambda>h l. 1),
     stmt_close = (\<lambda>h l. l\<lparr>stmt_ids := removeAll h (stmt_ids l)\<rparr>)\<rparr>"

definition sample_mysql :: "sample_conns mysql" where
  "sample_mysql = \<lparr>stmts = (\<lambda>_. sample_stmts),
     mysql_init = (\<lambda>l. (Some (next_conn l), l\<lparr>next_conn := next_conn l + 1, conn_ids := next_conn l # conn_ids l\<rparr>)), mysql_options = (\<lambda>h l. l),
     mysql_real_connect = (\<lambda>h a b c d e l. (0, l)), mysql_select_db = (\<lambda>h db l. (0, l)), mysql_query = (\<lambda>h sql l. (0, l)),
     mysql_store_result = (\<lambda>h l. (None, l)), mysql_field_count = (\<lambda>h l. 0), mysql_errno = (\<lambda>h l. 0), mysql_next_result = (\<lambda>h l. (- 1, l)),
     mysql_affected_rows = (\<lambda>h l. 0), mysql_thread_id = (\<lambda>h l. 7), mysql_close = (\<lambda>h l. l\<lparr>conn_ids := removeAll h (conn_ids l)\<rparr>)\<rparr>"

definition sample_open_conns :: "sample_conns \<Rightarrow> nat set" where
  "sample_open_conns l = set (filter (\<lambda>h. h < next_conn l) (conn_ids l))"

definition sample_open_stmts :: "sample_conns \<Rightarrow> nat set" where
  "sample_open_stmts l = set (filter (\<lambda>h. h < next_stmt l) (stmt_ids l))"

lemma sample_mysql_laws: "conn_laws sample_mysql sample_open_conns sample_open_stmts"
  by (auto simp: conn_laws_def handle_laws_def keeps_def sample_mysql_def sample_stmts_def sample_open_conns_def sample_open_stmts_def)

definition sample_conns0 :: sample_conns where
  "sample_conns0 = \<lparr>next_conn = 0, next_stmt = 0, conn_ids = [], stmt_ids = []\<rparr>"

theorem connections_given_back_witness:
  "\<exists>conn l1 conn2 l2 conn3 l3. Connect sample_mysql default_config True sample_conns0 = (Inr conn, l1)
     \<and> Execute_id sample_mysql NewOrderUpdateDistrict [] conn l1 = Some ((Inr 1, conn2), l2) \<and> sample_open_stmts l2 = {0}
     \<and> destroy_ObConnection sample_mysql conn2 l2 = (conn3, l3) \<and> sample_open_stmts l3 = {} \<and> sample_open_conns l3 = {}"
proof -
  let ?l1 = "\<lparr>next_conn = 1, next_stmt = 0, conn_ids = [0], stmt_ids = []\<rparr>" and ?conn = "\<lparr>mysql_handle = Some 0, conn_config = default_config, selectDatabase = True, stmtCache = Some new_cache\<rparr>"
  let ?l2 = "\<lparr>next_conn = 1, next_stmt = 1, conn_ids = [0], stmt_ids = [0]\<rparr>"
    and ?conn2 = "?conn\<lparr>stmtCache := Some (new_cache[3 := \<lparr>stmt = Some 0, prepared = True, paramSlots = []\<rparr>])\<rparr>"
  have c: "Connect sample_mysql default_config True sample_conns0 = (Inr ?conn, ?l1)"
    by (simp add: Connect_def EstablishConnection_def sample_mysql_def sample_conns0_def new_ObConnection_def SetSessionRepeatableRead_def run_command_def Let_def)
  have n: "new_cache ! 3 = \<lparr>stmt = None, prepared = False, paramSlots = []\<rparr>" by (simp add: new_cache_def all_queries_def)
  have e: "Execute_id sample_mysql NewOrderUpdateDistrict [] ?conn ?l1 = Some ((Inr 1, ?conn2), ?l2)"
    by (simp add: Execute_id_def with_cache_def Cache_Execute_def run_cached_def Prepare_def n sample_mysql_def sample_stmts_def bind_and_execute_def BindParams_def fill_slots_def vec_resize_def Let_def)
  have "uses sample_mysql (?conn, ?l1) (?conn2, ?l2)"
    by (rule uses.execute [where cache = new_cache, OF _ _ e]) (simp_all add: failed_before_def n)
  then have u: "(uses sample_mysql)\<^sup>*\<^sup>* (?conn, ?l1) (?conn2, ?l2)" by (rule r_into_rtranclp)
  obtain conn3 l3 where d: "destroy_ObConnection sample_mysql ?conn2 ?l2 = (conn3, l3)" by fastforce
  have "sample_open_conns l3 = sample_open_conns sample_conns0" "sample_open_stmts l3 = sample_open_stmts sample_conns0"
    using connections_given_back [OF sample_mysql_laws c] u d by auto
  then have "sample_open_conns l3 = {}" "sample_open_stmts l3 = {}" by (simp_all add: sample_open_conns_def sample_open_stmts_def sample_conns0_def)
  moreover have "sample_open_stmts ?l2 = {0}" by (simp add: sample_open_stmts_def)
  ultimately show ?thesis using c e d by blast
qed

section \<open>Two defects\<close>

text \<open>After a failed \<open>Reconnect\<close> the connection still says it is usable, but has no statement cache.\<close>

lemma failed_reconnect_unusable:
  assumes "Reconnect lib config sel conn l = ((Inl e, conn'), l')" "mysql_handle conn = Some h" "mysql_handle conn' \<noteq> None"
  shows "Ok conn' \<and> Query_id lib q params conn' l'' = Some ((Inl (UB ''impl_->stmtCache''), conn'), l'')"
proof -
  obtain conn1 l1 where d: "destroy_ObConnection lib conn l = (conn1, l1)" by fastforce
  then have "stmtCache conn1 = None" using assms(2) by (cases "stmtCache conn") (auto simp: destroy_ObConnection_def ClearStatementCache_def)
  moreover have "EstablishConnection lib config sel conn1 l1 = ((Inl e, conn'), l')" using assms(1) d by (simp add: Reconnect_def)
  ultimately have "stmtCache conn' = None"
    by (auto simp: EstablishConnection_def Let_def split: prod.splits option.splits if_splits sum.splits)
  then show ?thesis using assms(3) by (auto simp: Ok_def Query_id_def with_cache_def)
qed

text \<open>An error that the library reports for a later statement of a text with several is taken for the end of the results.\<close>

lemma later_error_ignored:
  assumes "mysql_handle conn = Some h" "mysql_query lib h sql l = (0, l1)" "mysql_store_result lib h l1 = (res, l2)" "mysql_next_result lib h l2 = (code, l3)" "code \<noteq> 0"
  shows "Execute_sql lib sql [] conn l = Some (Inr (mysql_affected_rows lib h l3), l3)"
  using assms by (simp add: Execute_sql_def drain_results.simps)

end
