(* ===== verification/ClientSession.thy ===== *)
theory ClientSession
  imports MysqlConnection
begin

text \<open>
  \<open>ObSession\<close> (\<open>src/src/db/session.cpp\<close>) on a connection of the client library, with all its operations. \<open>Session\<close> has the same
  operations with the meaning of the statements on the database; here it is the commands that are sent which matter. The operations run one after
  the other on the thread that carries out the submitted task.
\<close>

section \<open>The code\<close>

record ObSession =
  sess_conn :: "ObConnection option"
  sess_inTxn :: bool
  sess_shutdown :: bool

definition new_ObSession :: "ObConnection option \<Rightarrow> bool \<Rightarrow> ObSession" where
  "new_ObSession conn shutdown = \<lparr>sess_conn = conn, sess_inTxn = False, sess_shutdown = shutdown\<rparr>"

text \<open>The moved-to session and what is left of the other.\<close>

definition move_ObSession :: "ObSession \<Rightarrow> ObSession \<times> ObSession" where
  "move_ObSession other = (other, other\<lparr>sess_conn := None, sess_inTxn := False, sess_shutdown := False\<rparr>)"

definition HasConnection :: "ObSession \<Rightarrow> bool" where
  "HasConnection s = (case sess_conn s of None \<Rightarrow> False | Some conn \<Rightarrow> Ok conn)"

definition Check_Shutdown :: "ObSession \<Rightarrow> unit result" where
  "Check_Shutdown s = (if sess_shutdown s then Inl (RuntimeError ''session shutdown'') else Inr ())"

definition Ensure_Txn :: "'l mysql \<Rightarrow> ObSession \<Rightarrow> 'l \<Rightarrow> (unit result \<times> ObSession) \<times> 'l" where
  "Ensure_Txn lib s l = (if sess_inTxn s then ((Inr (), s), l)
     else case sess_conn s of None \<Rightarrow> ((Inl (UB ''*conn_''), s), l)
     | Some conn \<Rightarrow> (case Mysql_Begin lib conn l of (Inl e, l1) \<Rightarrow> ((Inl e, s), l1) | (Inr _, l1) \<Rightarrow> ((Inr (), s\<lparr>sess_inTxn := True\<rparr>), l1)))"

text \<open>Also the destructor and the first part of \<open>ReleaseConnection\<close>.\<close>

definition Reset_Txn :: "'l mysql \<Rightarrow> ObSession \<Rightarrow> 'l \<Rightarrow> ObSession \<times> 'l" where
  "Reset_Txn lib s l = (case sess_conn s of Some conn \<Rightarrow>
       if sess_inTxn s then (s\<lparr>sess_inTxn := False\<rparr>, Mysql_Rollback lib conn l) else (s, l)
     | None \<Rightarrow> (s, l))"

text \<open>The handler of an exception, which is stored in the promise.\<close>

definition fail_txn :: "'l mysql \<Rightarrow> exn \<Rightarrow> ObSession \<Rightarrow> 'l \<Rightarrow> ('a result \<times> ObSession) \<times> 'l" where
  "fail_txn lib e s l = (case Reset_Txn lib s l of (s1, l1) \<Rightarrow> ((Inl e, s1), l1))"

text \<open>A statement inside the transaction.\<close>

definition in_txn :: "'l mysql \<Rightarrow> (ObConnection \<Rightarrow> 'l \<Rightarrow> (('a result \<times> ObConnection) \<times> 'l) option) \<Rightarrow> ObSession \<Rightarrow> 'l \<Rightarrow> (('a result \<times> ObSession) \<times> 'l) option" where
  "in_txn lib f s l = (case Check_Shutdown s of Inl e \<Rightarrow> Some (fail_txn lib e s l)
     | Inr _ \<Rightarrow> (case Ensure_Txn lib s l of
         ((Inl e, s1), l1) \<Rightarrow> Some (fail_txn lib e s1 l1)
       | ((Inr _, s1), l1) \<Rightarrow> (case sess_conn s1 of None \<Rightarrow> Some (fail_txn lib (UB ''conn_'') s1 l1)
           | Some conn \<Rightarrow> (case f conn l1 of None \<Rightarrow> None
             | Some ((Inl e, conn1), l2) \<Rightarrow> Some (fail_txn lib e (s1\<lparr>sess_conn := Some conn1\<rparr>) l2)
             | Some ((Inr x, conn1), l2) \<Rightarrow> Some ((Inr x, s1\<lparr>sess_conn := Some conn1\<rparr>), l2)))))"

definition Session_Query :: "'l mysql \<Rightarrow> QueryId \<Rightarrow> param list \<Rightarrow> ObSession \<Rightarrow> 'l \<Rightarrow> ((QueryResult result \<times> ObSession) \<times> 'l) option" where
  "Session_Query lib q params = in_txn lib (Query_id lib q params)"

definition Session_Modify :: "'l mysql \<Rightarrow> QueryId \<Rightarrow> param list \<Rightarrow> ObSession \<Rightarrow> 'l \<Rightarrow> ((u64 result \<times> ObSession) \<times> 'l) option" where
  "Session_Modify lib q params = in_txn lib (Execute_id lib q params)"

definition unchanged_conn :: "(ObConnection \<Rightarrow> 'l \<Rightarrow> ('a result \<times> 'l) option) \<Rightarrow> ObConnection \<Rightarrow> 'l \<Rightarrow> (('a result \<times> ObConnection) \<times> 'l) option" where
  "unchanged_conn f conn l = map_option (\<lambda>(r, l1). ((r, conn), l1)) (f conn l)"

definition Session_QueryText :: "'l mysql \<Rightarrow> string \<Rightarrow> param list \<Rightarrow> ObSession \<Rightarrow> 'l \<Rightarrow> ((QueryResult result \<times> ObSession) \<times> 'l) option" where
  "Session_QueryText lib sql params = in_txn lib (unchanged_conn (Query_sql lib sql params))"

definition Session_ModifyText :: "'l mysql \<Rightarrow> string \<Rightarrow> param list \<Rightarrow> ObSession \<Rightarrow> 'l \<Rightarrow> ((u64 result \<times> ObSession) \<times> 'l) option" where
  "Session_ModifyText lib sql params = in_txn lib (unchanged_conn (Execute_sql lib sql params))"

definition Session_Commit :: "'l mysql \<Rightarrow> ObSession \<Rightarrow> 'l \<Rightarrow> (unit result \<times> ObSession) \<times> 'l" where
  "Session_Commit lib s l = (case Check_Shutdown s of Inl e \<Rightarrow> ((Inl e, s\<lparr>sess_inTxn := False\<rparr>), l)
     | Inr _ \<Rightarrow> if sess_inTxn s then (case sess_conn s of None \<Rightarrow> ((Inl (UB ''conn_''), s\<lparr>sess_inTxn := False\<rparr>), l)
         | Some conn \<Rightarrow> (case Mysql_Commit lib conn l of (r, l1) \<Rightarrow> ((r, s\<lparr>sess_inTxn := False\<rparr>), l1)))
       else ((Inr (), s), l))"

definition Session_Rollback :: "'l mysql \<Rightarrow> ObSession \<Rightarrow> 'l \<Rightarrow> (unit result \<times> ObSession) \<times> 'l" where
  "Session_Rollback lib s l = (if sess_inTxn s then (case sess_conn s of None \<Rightarrow> ((Inl (UB ''conn_''), s\<lparr>sess_inTxn := False\<rparr>), l)
       | Some conn \<Rightarrow> ((Inr (), s\<lparr>sess_inTxn := False\<rparr>), Mysql_Rollback lib conn l))
     else ((Inr (), s), l))"

definition Session_NonTx :: "'l mysql \<Rightarrow> string \<Rightarrow> ObSession \<Rightarrow> 'l \<Rightarrow> ((QueryResult result \<times> ObSession) \<times> 'l) option" where
  "Session_NonTx lib sql s l = (case Session_Rollback lib s l of ((Inl e, s1), l1) \<Rightarrow> Some ((Inl e, s1), l1)
     | ((Inr _, s1), l1) \<Rightarrow> (case sess_conn s1 of None \<Rightarrow> Some ((Inl (UB ''conn_''), s1), l1)
         | Some conn \<Rightarrow> map_option (\<lambda>(r, l2). ((r, s1), l2)) (QuerySimple lib sql conn l1)))"

definition Session_Release :: "'l mysql \<Rightarrow> ObSession \<Rightarrow> 'l \<Rightarrow> (ObConnection option \<times> ObSession) \<times> 'l" where
  "Session_Release lib s l = (case Reset_Txn lib s l of (s1, l1) \<Rightarrow> ((sess_conn s1, s1\<lparr>sess_conn := None\<rparr>), l1))"

section \<open>Bulk inserts\<close>

fun join_with :: "string \<Rightarrow> string list \<Rightarrow> string" where
  "join_with sep [] = []"
| "join_with sep [x] = x"
| "join_with sep (x # y # ys) = x @ sep @ join_with sep (y # ys)"

definition row_marks :: "'a list \<Rightarrow> string" where
  "row_marks row = ''('' @ join_with '','' (map (\<lambda>_. ''?'') row) @ '')''"

definition insert_sql :: "string \<Rightarrow> string list \<Rightarrow> string option list list \<Rightarrow> string" where
  "insert_sql tableName cols batch = ''INSERT INTO `'' @ tableName @ ''` ('' @ join_with '','' (map (\<lambda>c. ''`'' @ c @ ''`'') cols) @ '') VALUES ''
     @ join_with '','' (map row_marks batch)"

definition insert_params :: "string option list list \<Rightarrow> param list" where
  "insert_params batch = map (\<lambda>cell. case cell of Some v \<Rightarrow> PString v | None \<Rightarrow> PNull) (concat batch)"

definition flush_sql :: "'l mysql \<Rightarrow> string \<Rightarrow> string list \<Rightarrow> string option list list \<Rightarrow> ObConnection \<Rightarrow> 'l \<Rightarrow> (unit result \<times> 'l) option" where
  "flush_sql lib tableName cols batch conn l = (if batch = [] then Some (Inr (), l)
     else if list_ex (\<lambda>row. length row \<noteq> length cols) batch then Some (Inl (RuntimeError ''Bulk row column count mismatch''), l)
     else map_option (\<lambda>(r, l1). (rbind r (\<lambda>_. Inr ()), l1)) (Execute_sql lib (insert_sql tableName cols batch) (insert_params batch) conn l))"

text \<open>The writer emits rows and may then throw.\<close>

fun emit_rows :: "'l mysql \<Rightarrow> string \<Rightarrow> string list \<Rightarrow> exn option \<Rightarrow> string option list list \<Rightarrow> string option list list \<Rightarrow> ObConnection \<Rightarrow> 'l \<Rightarrow> (unit result \<times> 'l) option" where
  "emit_rows lib tableName cols failure [] batch conn l = (case failure of Some e \<Rightarrow> Some (Inl e, l) | None \<Rightarrow> flush_sql lib tableName cols batch conn l)"
| "emit_rows lib tableName cols failure (row # rest) batch conn l = (let batch1 = batch @ [row] in
     if 200 \<le> length batch1 then (case flush_sql lib tableName cols batch1 conn l of None \<Rightarrow> None
         | Some (Inl e, l1) \<Rightarrow> Some (Inl e, l1) | Some (Inr _, l1) \<Rightarrow> emit_rows lib tableName cols failure rest [] conn l1)
     else emit_rows lib tableName cols failure rest batch1 conn l)"

definition Session_Bulk :: "'l mysql \<Rightarrow> string \<Rightarrow> string list \<Rightarrow> string option list list \<Rightarrow> exn option \<Rightarrow> ObSession \<Rightarrow> 'l \<Rightarrow> ((unit result \<times> ObSession) \<times> 'l) option" where
  "Session_Bulk lib tableName cols rs failure = in_txn lib (unchanged_conn (emit_rows lib tableName cols failure rs []))"

text \<open>Every placeholder of the statement has its parameter.\<close>

lemma count_join: "count_list (join_with sep xs) c = sum_list (map (\<lambda>x. count_list x c) xs) + (length xs - 1) * count_list sep c"
  by (induction sep xs rule: join_with.induct) auto

lemma count_marks: "count_list (row_marks row) CHR ''?'' = length row"
  by (simp add: row_marks_def count_join comp_def sum_list_triv)

lemma insert_placeholders:
  assumes "CHR ''?'' \<notin> set tableName" "list_all (\<lambda>c. CHR ''?'' \<notin> set c) cols"
  shows "count_list (insert_sql tableName cols batch) CHR ''?'' = length (insert_params batch)"
proof -
  have "map (\<lambda>c. count_list c CHR ''?'') cols = map (\<lambda>_. 0) cols" using assms(2) by (auto simp: list_all_iff)
  then show ?thesis using assms(1)
    by (simp add: insert_sql_def insert_params_def count_join count_marks comp_def length_concat)
qed

section \<open>The commands a session sends\<close>

datatype wire = Sent string bool | Executed bool

text \<open>
  What the answers tell the client of the connection's transaction. A \<open>START TRANSACTION\<close>, \<open>COMMIT\<close> or \<open>ROLLBACK\<close> that failed leaves it
  open whether the server has a transaction: \<open>Uncertain\<close>.
\<close>

datatype txview = Closed | Opened | Uncertain

text \<open>
  The protocol of a connection; the flag of a command says whether it succeeded. \<open>None\<close> is a violation: a start inside a transaction that is known to be
  open, or a cached statement, \<open>COMMIT\<close> or \<open>ROLLBACK\<close> outside one that is known to be open.
\<close>

fun protocol :: "wire \<Rightarrow> txview option \<Rightarrow> txview option" where
  "protocol ev None = None"
| "protocol (Executed ok) (Some v) = (if v = Opened then Some Opened else None)"
| "protocol (Sent sql ok) (Some v) =
     (if sql = ''START TRANSACTION'' then (if v = Opened then None else Some (if ok then Opened else Uncertain))
      else if sql = ''COMMIT'' \<or> sql = ''ROLLBACK'' then (if v = Opened then Some (if ok then Closed else Uncertain) else None)
      else Some v)"

text \<open>A command that controls transactions and failed.\<close>

fun failed_control :: "wire \<Rightarrow> bool" where
  "failed_control (Sent sql ok) = (\<not> ok \<and> sql \<in> {''START TRANSACTION'', ''COMMIT'', ''ROLLBACK''})"
| "failed_control (Executed ok) = False"

text \<open>What is recorded of the calls into the library: commands and executions, nothing else.\<close>

definition wire_laws :: "'l mysql \<Rightarrow> ('l \<Rightarrow> wire list) \<Rightarrow> bool" where
  "wire_laws lib sent \<longleftrightarrow>
     (\<forall>h sql l. sent (snd (mysql_query lib h sql l)) = sent l @ [Sent sql (fst (mysql_query lib h sql l) = 0)])
   \<and> (\<forall>h s l. sent (snd (stmt_execute (stmts lib h) s l)) = sent l @ [Executed (fst (stmt_execute (stmts lib h) s l) = 0)])
   \<and> (\<forall>h s sql l. sent (snd (stmt_prepare (stmts lib h) s sql l)) = sent l)
   \<and> (\<forall>h s slots l. sent (snd (stmt_bind_param (stmts lib h) s slots l)) = sent l)
   \<and> (\<forall>h s l. sent (snd (stmt_bind_result (stmts lib h) s l)) = sent l)
   \<and> (\<forall>h s l. sent (snd (stmt_fetch (stmts lib h) s l)) = sent l)
   \<and> (\<forall>h l. sent (snd (stmt_init (stmts lib h) l)) = sent l)
   \<and> (\<forall>h s l. sent (stmt_close (stmts lib h) s l) = sent l)
   \<and> (\<forall>h l. sent (snd (mysql_store_result lib h l)) = sent l)
   \<and> (\<forall>h l. sent (snd (mysql_next_result lib h l)) = sent l)"

definition tx_state :: "('l \<Rightarrow> wire list) \<Rightarrow> 'l \<Rightarrow> txview option" where
  "tx_state sent l = fold protocol (sent l) (Some Closed)"

lemma uncertain_failed: "fold protocol evs v = Some Uncertain \<Longrightarrow> v \<noteq> Some Uncertain \<Longrightarrow> \<exists>ev \<in> set evs. failed_control ev"
proof (induction evs arbitrary: v)
  case (Cons ev evs)
  have "protocol ev v = Some Uncertain \<Longrightarrow> failed_control ev"
    using Cons.prems(2) by (cases ev; cases v) (auto split: if_splits)
  then show ?case using Cons.IH [of "protocol ev v"] Cons.prems(1) by auto
qed simp

lemma tx_state_query:
  assumes "wire_laws lib sent" "mysql_query lib h sql l = (code, l')"
  shows "tx_state sent l' = protocol (Sent sql (code = 0)) (tx_state sent l)"
  using assms unfolding wire_laws_def tx_state_def by (metis (no_types, lifting) fold_append fold_simps fst_conv o_apply snd_conv)

text \<open>Statement functions keep an open transaction open.\<close>

abbreviation in_tx :: "('l \<Rightarrow> wire list) \<Rightarrow> 'l \<Rightarrow> bool" where
  "in_tx sent l \<equiv> tx_state sent l = Some Opened"

lemma stmts_keep_in_tx:
  assumes "wire_laws lib sent"
  shows "keeps (stmts lib h) (in_tx sent)" "in_tx sent (snd (stmt_init (stmts lib h) l)) = in_tx sent l" "in_tx sent (stmt_close (stmts lib h) s l) = in_tx sent l"
proof -
  have e: "(protocol (Executed ok) t = Some Opened) = (t = Some Opened)" for ok t by (cases t) auto
  show "keeps (stmts lib h) (in_tx sent)" "in_tx sent (snd (stmt_init (stmts lib h) l)) = in_tx sent l" "in_tx sent (stmt_close (stmts lib h) s l) = in_tx sent l"
    using assms by (simp_all add: wire_laws_def tx_state_def keeps_def e)
qed

definition plain_sql :: "string \<Rightarrow> bool" where
  "plain_sql sql \<longleftrightarrow> sql \<noteq> ''START TRANSACTION'' \<and> sql \<noteq> ''COMMIT'' \<and> sql \<noteq> ''ROLLBACK''"

lemma plain_query: "wire_laws lib sent \<Longrightarrow> plain_sql sql \<Longrightarrow> mysql_query lib h sql l = (code, l') \<Longrightarrow> tx_state sent l' = tx_state sent l"
  by (cases "tx_state sent l") (auto simp: tx_state_query plain_sql_def)

lemma cached_in_tx:
  assumes "wire_laws lib sent"
  shows "Query_id lib q params conn l = Some ((r, conn'), l') \<Longrightarrow> in_tx sent l' = in_tx sent l \<and> mysql_handle conn' = mysql_handle conn"
    and "Execute_id lib q params conn l = Some ((n, conn'), l') \<Longrightarrow> in_tx sent l' = in_tx sent l \<and> mysql_handle conn' = mysql_handle conn"
proof -
  note k = stmts_keep_in_tx [OF assms]
  have c: "in_tx sent l' = in_tx sent l \<and> mysql_handle conn' = mysql_handle conn"
    if "with_cache conn (\<lambda>h. run_cached (stmts lib h) q params (fin h)) l = Some ((x, conn'), l')"
      and fin: "\<And>h s l r l'. fin h s l = Some (r, l') \<Longrightarrow> in_tx sent l' = in_tx sent l"
    for fin :: "nat \<Rightarrow> nat \<Rightarrow> 'a \<Rightarrow> ('b result \<times> 'a) option" and x
  proof -
    have "in_tx sent l' = in_tx sent l" if "run_cached (stmts lib h) q params (fin h) cache l = Some ((x, cache'), l')" for h cache cache'
      by (rule run_cached_kept [OF that k(1,2)]) (rule fin)
    then show ?thesis using that(1) by (fastforce simp: with_cache_def split: option.splits)
  qed
  show "in_tx sent l' = in_tx sent l \<and> mysql_handle conn' = mysql_handle conn" if "Query_id lib q params conn l = Some ((r, conn'), l')"
    using that unfolding Query_id_def Cache_Query_def by (rule c) (rule MaterializeStmtResult_kept [OF _ k(1)])
  show "in_tx sent l' = in_tx sent l \<and> mysql_handle conn' = mysql_handle conn" if "Execute_id lib q params conn l = Some ((n, conn'), l')"
    using that unfolding Execute_id_def Cache_Execute_def by (rule c) simp
qed

lemma sql_in_tx:
  assumes "wire_laws lib sent" "plain_sql sql"
  shows "Query_sql lib sql params conn l = Some (r, l') \<Longrightarrow> (in_tx sent l' = in_tx sent l) \<and> (params = [] \<longrightarrow> tx_state sent l' = tx_state sent l)"
    and "Execute_sql lib sql params conn l = Some (n, l') \<Longrightarrow> in_tx sent l' = in_tx sent l"
proof -
  note t = text_stmts_kept [OF stmts_keep_in_tx [OF assms(1)]] and q = plain_query [OF assms]
  have st: "tx_state sent (snd (mysql_store_result lib h l)) = tx_state sent l" "tx_state sent (snd (mysql_next_result lib h l)) = tx_state sent l" for h l
    using assms(1) by (simp_all add: wire_laws_def tx_state_def)
  have d: "tx_state sent l' = tx_state sent l" if "drain_results lib h l = Some l'" for h l l'
    by (rule drain_kept [OF that]) (rule st)+
  show "(in_tx sent l' = in_tx sent l) \<and> (params = [] \<longrightarrow> tx_state sent l' = tx_state sent l)" if a: "Query_sql lib sql params conn l = Some (r, l')"
  proof (cases "params = []")
    case True
    show ?thesis
    proof (cases "mysql_handle conn")
      case (Some h)
      obtain code l1 where c: "mysql_query lib h sql l = (code, l1)" by fastforce
      obtain res l2 where s: "mysql_store_result lib h l1 = (res, l2)" by fastforce
      have "l' = l1 \<or> l' = l2" using a True Some c s by (auto simp: Query_sql_def with_handle_def split: if_splits)
      then show ?thesis using q [OF c] st(1) [of h l1] s by auto
    qed (use a True in \<open>simp add: Query_sql_def with_handle_def\<close>)
  next
    case False
    then show ?thesis using a t(1) by (auto simp: Query_sql_def split: option.splits)
  qed
  show "in_tx sent l' = in_tx sent l" if a: "Execute_sql lib sql params conn l = Some (n, l')"
  proof (cases "params = []")
    case True
    show ?thesis
    proof (cases "mysql_handle conn")
      case (Some h)
      obtain code l1 where c: "mysql_query lib h sql l = (code, l1)" by fastforce
      have "l' = l1 \<or> drain_results lib h l1 = Some l'" using a True Some c by (auto simp: Execute_sql_def split: if_splits)
      then show ?thesis using q [OF c] d by auto
    qed (use a True in \<open>simp add: Execute_sql_def\<close>)
  next
    case False
    then show ?thesis using a t(2) by (auto simp: Execute_sql_def split: option.splits)
  qed
qed

text \<open>
  The client's flag agrees with what was sent, except that a \<open>COMMIT\<close> refused because of a shutdown clears the flag of an open transaction.
\<close>

definition sess_ok :: "('l \<Rightarrow> wire list) \<Rightarrow> ObSession \<times> 'l \<Rightarrow> bool" where
  "sess_ok sent sl = (case sl of (s, l) \<Rightarrow> tx_state sent l \<noteq> None \<and> (in_tx sent l = sess_inTxn s \<or> sess_shutdown s \<and> in_tx sent l)
     \<and> (sess_inTxn s \<longrightarrow> (\<exists>conn. sess_conn s = Some conn \<and> mysql_handle conn \<noteq> None)))"

lemma sess_ok_in_txn: "sess_ok sent (s, l) \<Longrightarrow> sess_inTxn s \<Longrightarrow> in_tx sent l \<and> (\<exists>conn h. sess_conn s = Some conn \<and> mysql_handle conn = Some h)"
  by (auto simp: sess_ok_def)

lemma rollback_state:
  assumes "wire_laws lib sent" "mysql_handle conn = Some h" "in_tx sent l"
  shows "tx_state sent (Mysql_Rollback lib conn l) \<noteq> None \<and> \<not> in_tx sent (Mysql_Rollback lib conn l)"
proof -
  obtain code l' where q: "mysql_query lib h ''ROLLBACK'' l = (code, l')" by fastforce
  then show ?thesis using tx_state_query [OF assms(1) q] assms(2,3) by (simp add: Mysql_Rollback_def)
qed

lemma Reset_Txn_ok:
  assumes "wire_laws lib sent" "sess_ok sent (s, l)" "Reset_Txn lib s l = (s', l')"
  shows "sess_ok sent (s', l') \<and> \<not> sess_inTxn s' \<and> sess_conn s' = sess_conn s \<and> sess_shutdown s' = sess_shutdown s"
proof (cases "sess_inTxn s")
  case True
  then obtain conn h where "sess_conn s = Some conn" "mysql_handle conn = Some h" "in_tx sent l" using sess_ok_in_txn [OF assms(2)] by blast
  then show ?thesis using rollback_state [OF assms(1)] assms(3) True by (auto simp: Reset_Txn_def sess_ok_def)
next
  case False
  then show ?thesis using assms(2,3) by (auto simp: Reset_Txn_def split: option.splits)
qed

lemma Ensure_Txn_ok:
  assumes "wire_laws lib sent" "sess_ok sent (s, l)" "\<not> sess_shutdown s" "Ensure_Txn lib s l = ((r, s'), l')"
  shows "sess_ok sent (s', l') \<and> (r = Inr () \<longrightarrow> sess_inTxn s') \<and> \<not> sess_shutdown s'"
proof (cases "sess_inTxn s \<or> sess_conn s = None")
  case True
  then show ?thesis using assms(2-4) by (auto simp: Ensure_Txn_def split: if_splits)
next
  case False
  then obtain conn where c: "sess_conn s = Some conn" "\<not> sess_inTxn s" by blast
  have st: "tx_state sent l \<noteq> None" "\<not> in_tx sent l" using assms(2,3) c(2) by (simp_all add: sess_ok_def)
  show ?thesis
  proof (cases "mysql_handle conn")
    case None
    then show ?thesis using assms(2-4) c by (auto simp: Ensure_Txn_def Mysql_Begin_def with_handle_def)
  next
    case (Some h)
    obtain code l1 where q: "mysql_query lib h ''START TRANSACTION'' l = (code, l1)" by fastforce
    have "tx_state sent l1 = Some (if code = 0 then Opened else Uncertain)" using tx_state_query [OF assms(1) q] st by auto
    then show ?thesis using assms(3,4) c Some q by (auto simp: Ensure_Txn_def Mysql_Begin_def with_handle_def run_command_def sess_ok_def split: if_splits)
  qed
qed

lemma fail_txn_ok: "wire_laws lib sent \<Longrightarrow> sess_ok sent (s, l) \<Longrightarrow> fail_txn lib e s l = ((r, s'), l') \<Longrightarrow> sess_ok sent (s', l')"
  using Reset_Txn_ok [of lib sent s l] by (simp add: fail_txn_def split: prod.splits)

text \<open>A statement that keeps an open transaction open and the handle of its connection.\<close>

lemma in_txn_ok:
  assumes "wire_laws lib sent" "sess_ok sent (s, l)" "in_txn lib f s l = Some ((r, s'), l')"
    and f: "\<And>conn l r conn' l'. f conn l = Some ((r, conn'), l') \<Longrightarrow> in_tx sent l' = in_tx sent l \<and> mysql_handle conn' = mysql_handle conn"
  shows "sess_ok sent (s', l')"
proof (cases "sess_shutdown s")
  case True
  then show ?thesis using assms(3) fail_txn_ok [OF assms(1,2)] by (simp add: in_txn_def Check_Shutdown_def)
next
  case False
  obtain x s1 l1 where e: "Ensure_Txn lib s l = ((x, s1), l1)" by (metis prod.exhaust)
  note ok = Ensure_Txn_ok [OF assms(1,2) False e]
  show ?thesis
  proof (cases x)
    case (Inl er)
    then show ?thesis using assms(3) e False fail_txn_ok [OF assms(1), of s1 l1] ok by (simp add: in_txn_def Check_Shutdown_def)
  next
    case (Inr u)
    then obtain conn h where c: "sess_conn s1 = Some conn" "mysql_handle conn = Some h" "in_tx sent l1" "sess_inTxn s1" using ok sess_ok_in_txn [of sent s1 l1] by auto
    have i: "in_txn lib f s l = (case f conn l1 of None \<Rightarrow> None | Some ((Inl e, conn1), l2) \<Rightarrow> Some (fail_txn lib e (s1\<lparr>sess_conn := Some conn1\<rparr>) l2)
      | Some ((Inr x, conn1), l2) \<Rightarrow> Some ((Inr x, s1\<lparr>sess_conn := Some conn1\<rparr>), l2))"
      using e False Inr c(1) by (simp add: in_txn_def Check_Shutdown_def)
    then obtain y conn1 l2 where y: "f conn l1 = Some ((y, conn1), l2)" using assms(3) by (cases "f conn l1") auto
    have "sess_ok sent (s1\<lparr>sess_conn := Some conn1\<rparr>, l2)" using f [OF y] c ok by (simp add: sess_ok_def)
    then show ?thesis using assms(3) i y fail_txn_ok [OF assms(1), of _ l2] by (cases y) auto
  qed
qed

lemma text_txn_ok:
  assumes "wire_laws lib sent" "sess_ok sent (s, l)" "in_txn lib (unchanged_conn f) s l = Some ((r, s'), l')"
    and f: "\<And>conn l r l'. f conn l = Some (r, l') \<Longrightarrow> in_tx sent l' = in_tx sent l"
  shows "sess_ok sent (s', l')"
proof (rule in_txn_ok [OF assms(1-3)])
  fix conn l r conn' l'
  assume "unchanged_conn f conn l = Some ((r, conn'), l')"
  then have "f conn l = Some (r, l')" "conn' = conn" by (auto simp: unchanged_conn_def)
  then show "in_tx sent l' = in_tx sent l \<and> mysql_handle conn' = mysql_handle conn" using f by simp
qed

text \<open>The operations of a session, and a new session on the connection an earlier one gave back; the shutdown flag is the pool's.\<close>

inductive session_step :: "'l mysql \<Rightarrow> ObSession \<times> 'l \<Rightarrow> ObSession \<times> 'l \<Rightarrow> bool" for lib where
  query: "Session_Query lib q params s l = Some ((r, s'), l') \<Longrightarrow> session_step lib (s, l) (s', l')"
| modify: "Session_Modify lib q params s l = Some ((n, s'), l') \<Longrightarrow> session_step lib (s, l) (s', l')"
| query_text: "plain_sql sql \<Longrightarrow> Session_QueryText lib sql params s l = Some ((r, s'), l') \<Longrightarrow> session_step lib (s, l) (s', l')"
| modify_text: "plain_sql sql \<Longrightarrow> Session_ModifyText lib sql params s l = Some ((n, s'), l') \<Longrightarrow> session_step lib (s, l) (s', l')"
| bulk: "Session_Bulk lib tableName cols rs failure s l = Some ((u, s'), l') \<Longrightarrow> session_step lib (s, l) (s', l')"
| commit: "Session_Commit lib s l = ((u, s'), l') \<Longrightarrow> session_step lib (s, l) (s', l')"
| rollback: "Session_Rollback lib s l = ((u, s'), l') \<Longrightarrow> session_step lib (s, l) (s', l')"
| non_tx: "plain_sql sql \<Longrightarrow> Session_NonTx lib sql s l = Some ((r, s'), l') \<Longrightarrow> session_step lib (s, l) (s', l')"
| moved: "session_step lib (s, l) (fst (move_ObSession s), l)"
| shut_down: "session_step lib (s, l) (s\<lparr>sess_shutdown := True\<rparr>, l)"
| renewed: "Session_Release lib s l = ((conn, s'), l') \<Longrightarrow> session_step lib (s, l) (new_ObSession conn (sess_shutdown s), l')"

lemma emit_rows_in_tx:
  assumes "wire_laws lib sent"
  shows "emit_rows lib tableName cols failure rs batch conn l = Some (u, l') \<Longrightarrow> in_tx sent l' = in_tx sent l"
proof (induction rs arbitrary: batch l)
  case Nil
  have "plain_sql (insert_sql tableName cols batch)" by (simp add: plain_sql_def insert_sql_def)
  then show ?case using Nil sql_in_tx(2) [OF assms] by (auto simp: flush_sql_def split: option.splits if_splits)
next
  case (Cons row rest)
  have p: "plain_sql (insert_sql tableName cols (batch @ [row]))" by (simp add: plain_sql_def insert_sql_def)
  have "in_tx sent l1 = in_tx sent l" if "flush_sql lib tableName cols (batch @ [row]) conn l = Some (r, l1)" for r l1
    using that sql_in_tx(2) [OF assms p] by (auto simp: flush_sql_def split: if_splits)
  then show ?case using Cons.prems Cons.IH by (fastforce simp: Let_def split: if_splits option.splits sum.splits prod.splits)
qed

lemma Rollback_ok:
  assumes "wire_laws lib sent" "sess_ok sent (s, l)" "Session_Rollback lib s l = ((u, s'), l')"
  shows "sess_ok sent (s', l') \<and> \<not> sess_inTxn s' \<and> sess_conn s' = sess_conn s"
proof (cases "sess_inTxn s")
  case True
  then obtain conn h where "sess_conn s = Some conn" "mysql_handle conn = Some h" "in_tx sent l" using sess_ok_in_txn [OF assms(2)] by blast
  then show ?thesis using rollback_state [OF assms(1)] assms(3) True by (auto simp: Session_Rollback_def sess_ok_def)
next
  case False
  then show ?thesis using assms(2,3) by (auto simp: Session_Rollback_def)
qed

lemma Session_Commit_ok:
  assumes "wire_laws lib sent" "sess_ok sent (s, l)" "Session_Commit lib s l = ((u, s'), l')"
  shows "sess_ok sent (s', l')"
proof (cases "sess_shutdown s \<or> \<not> sess_inTxn s")
  case True
  then show ?thesis using assms(2,3) by (auto simp: Session_Commit_def Check_Shutdown_def sess_ok_def split: if_splits)
next
  case False
  then obtain conn h where c: "sess_conn s = Some conn" "mysql_handle conn = Some h" "in_tx sent l" using sess_ok_in_txn [OF assms(2)] by blast
  obtain code l1 where q: "mysql_query lib h ''COMMIT'' l = (code, l1)" by fastforce
  have "tx_state sent l1 = Some (if code = 0 then Closed else Uncertain)" using tx_state_query [OF assms(1) q] c(3) by simp
  then show ?thesis using assms(3) False c(1,2) q
    by (auto simp: Session_Commit_def Check_Shutdown_def Mysql_Commit_def with_handle_def run_command_def sess_ok_def)
qed

lemma session_step_ok:
  assumes "session_step lib sl sl'" "wire_laws lib sent" "sess_ok sent sl"
  shows "sess_ok sent sl'"
  using assms(1)
proof (cases rule: session_step.cases)
  case (query q params s l r s' l')
  then show ?thesis using assms(3) cached_in_tx(1) [OF assms(2)] by (auto simp: Session_Query_def intro: in_txn_ok [OF assms(2)])
next
  case (modify q params s l n s' l')
  then show ?thesis using assms(3) cached_in_tx(2) [OF assms(2)] by (auto simp: Session_Modify_def intro: in_txn_ok [OF assms(2)])
next
  case (query_text sql params s l r s' l')
  have "sess_ok sent (s', l')" using query_text(1) assms(3) by (intro text_txn_ok [OF assms(2) _ query_text(4) [unfolded Session_QueryText_def] conjunct1 [OF sql_in_tx(1) [OF assms(2) query_text(3)]]]) simp_all
  then show ?thesis using query_text(2) by simp
next
  case (modify_text sql params s l n s' l')
  have "sess_ok sent (s', l')" using modify_text(1) assms(3) by (intro text_txn_ok [OF assms(2) _ modify_text(4) [unfolded Session_ModifyText_def] sql_in_tx(2) [OF assms(2) modify_text(3)]]) simp_all
  then show ?thesis using modify_text(2) by simp
next
  case (bulk tableName cols rs failure s l u s' l')
  have "sess_ok sent (s', l')" using bulk(1) assms(3) by (intro text_txn_ok [OF assms(2) _ bulk(3) [unfolded Session_Bulk_def] emit_rows_in_tx [OF assms(2)]]) simp_all
  then show ?thesis using bulk(2) by simp
next
  case (moved s l)
  then show ?thesis using assms(3) by (simp add: move_ObSession_def)
next
  case (shut_down s l)
  then show ?thesis using assms(3) by (auto simp: sess_ok_def)
next
  case (commit s l u s' l')
  then have "sess_ok sent (s, l)" using assms(3) by simp
  from Session_Commit_ok [OF assms(2) this commit(3)] show ?thesis using commit(2) by simp
next
  case (rollback s l u s' l')
  then have "sess_ok sent (s, l)" using assms(3) by simp
  from Rollback_ok [OF assms(2) this rollback(3)] show ?thesis using rollback(2) by simp
next
  case (non_tx sql s l r s' l')
  obtain x s1 l1 where b: "Session_Rollback lib s l = ((x, s1), l1)" by (metis prod.exhaust)
  have ok: "sess_ok sent (s1, l1)" using Rollback_ok [OF assms(2) _ b] assms(3) non_tx(1) by simp
  have "s' = s1 \<and> tx_state sent l' = tx_state sent l1"
    using non_tx(4) b sql_in_tx(1) [OF assms(2) non_tx(3), of "[]"] by (auto simp: Session_NonTx_def QuerySimple_def split: sum.splits option.splits)
  then show ?thesis using ok non_tx(2) by (simp add: sess_ok_def)
next
  case (renewed s l conn s' l')
  then have "sess_ok sent (s, l)" using assms(3) by simp
  note ok = Reset_Txn_ok [OF assms(2) this]
  from renewed show ?thesis using ok by (auto simp: Session_Release_def new_ObSession_def sess_ok_def split: prod.splits)
qed

text \<open>
  (C34) The commands of a session form transactions: whatever is executed, fails or is cut off, in whatever order a session's operations come and
  however often its connection changes hands, no \<open>START TRANSACTION\<close> is sent while a transaction is known to be open, and cached statements,
  \<open>COMMIT\<close> and \<open>ROLLBACK\<close> are sent inside an open one only. Until the pool shuts down, the session's flag is set exactly while a transaction is known to be
  open. Whether one is open is uncertain only after a \<open>START TRANSACTION\<close>, \<open>COMMIT\<close> or \<open>ROLLBACK\<close> that failed; then the flag is cleared, and the next
  statement starts a transaction although the server may still have the old one (\<open>TxContract.failed_commit_resurfaces\<close>). If none has failed, a cleared flag means that
  no transaction is open.
\<close>

theorem transaction_protocol:
  assumes "wire_laws lib sent" "sent l = []" "(session_step lib)\<^sup>*\<^sup>* (new_ObSession conn False, l) (s, l')"
  shows "\<exists>v. fold protocol (sent l') (Some Closed) = Some v
    \<and> (\<not> sess_shutdown s \<longrightarrow> (v = Opened \<longleftrightarrow> sess_inTxn s))
    \<and> (v = Uncertain \<longrightarrow> (\<exists>ev \<in> set (sent l'). failed_control ev))
    \<and> ((\<forall>ev \<in> set (sent l'). \<not> failed_control ev) \<and> \<not> sess_shutdown s \<longrightarrow> v = (if sess_inTxn s then Opened else Closed))"
proof -
  have "sess_ok sent (new_ObSession conn False, l)" using assms(2) by (simp add: sess_ok_def tx_state_def new_ObSession_def)
  with assms(3) have "sess_ok sent (s, l')"
    by (induction "(s, l')" arbitrary: s l' rule: rtranclp_induct) (auto intro: session_step_ok [OF _ assms(1)])
  then obtain v where v: "fold protocol (sent l') (Some Closed) = Some v" "\<not> sess_shutdown s \<longrightarrow> (v = Opened \<longleftrightarrow> sess_inTxn s)"
    by (auto simp: sess_ok_def tx_state_def)
  have "v = Uncertain \<longrightarrow> (\<exists>ev \<in> set (sent l'). failed_control ev)" using uncertain_failed [of "sent l'" "Some Closed"] v(1) by auto
  moreover have "v = Closed \<or> v = Opened \<or> v = Uncertain" by (cases v) auto
  ultimately show ?thesis using v by auto
qed

text \<open>A library that only records what is sent, and refuses commits.\<close>

definition wire_lib :: "wire list mysql" where
  "wire_lib = \<lparr>stmts = (\<lambda>_. \<lparr>stmt_init = (\<lambda>l. (Some 0, l)), stmt_prepare = (\<lambda>h sql l. (0, l)), stmt_bind_param = (\<lambda>h slots l. (0, l)),
       stmt_execute = (\<lambda>h l. (0, l @ [Executed True])), stmt_metadata = (\<lambda>h l. None), stmt_bind_result = (\<lambda>h l. (0, l)), stmt_fetch = (\<lambda>h l. (NoData, l)),
       stmt_affected_rows = (\<lambda>h l. 1), stmt_close = (\<lambda>h l. l)\<rparr>),
     mysql_init = (\<lambda>l. (Some 0, l)), mysql_options = (\<lambda>h l. l), mysql_real_connect = (\<lambda>h a b c d e l. (0, l)), mysql_select_db = (\<lambda>h db l. (0, l)),
     mysql_query = (\<lambda>h sql l. (if sql = ''COMMIT'' then 1205 else 0, l @ [Sent sql (sql \<noteq> ''COMMIT'')])),
     mysql_store_result = (\<lambda>h l. (None, l)), mysql_field_count = (\<lambda>h l. 0), mysql_errno = (\<lambda>h l. 0), mysql_next_result = (\<lambda>h l. (- 1, l)),
     mysql_affected_rows = (\<lambda>h l. 0), mysql_thread_id = (\<lambda>h l. 7), mysql_close = (\<lambda>h l. l)\<rparr>"

definition wire_conn :: ObConnection where
  "wire_conn = \<lparr>mysql_handle = Some 0, conn_config = default_config, selectDatabase = True, stmtCache = Some new_cache\<rparr>"

theorem transaction_protocol_witness:
  "\<exists>s l'. (session_step wire_lib)\<^sup>*\<^sup>* (new_ObSession (Some wire_conn) False, []) (s, l')
     \<and> l' = [Sent ''START TRANSACTION'' True, Sent ''SELECT 1'' True, Sent ''COMMIT'' False] \<and> fold protocol l' (Some Closed) = Some Uncertain \<and> \<not> sess_inTxn s"
proof -
  let ?s0 = "new_ObSession (Some wire_conn) False" and ?s1 = "(new_ObSession (Some wire_conn) False)\<lparr>sess_inTxn := True\<rparr>"
    and ?l1 = "[Sent ''START TRANSACTION'' True, Sent ''SELECT 1'' True]" and ?l2 = "[Sent ''START TRANSACTION'' True, Sent ''SELECT 1'' True, Sent ''COMMIT'' False]"
  have q: "Session_QueryText wire_lib ''SELECT 1'' [] ?s0 [] = Some ((Inr (new_QueryResult [] []), ?s1), ?l1)"
    by (simp add: Session_QueryText_def in_txn_def Check_Shutdown_def Ensure_Txn_def Mysql_Begin_def with_handle_def run_command_def unchanged_conn_def Query_sql_def
        MaterializeResult_def new_ObSession_def wire_conn_def wire_lib_def)
  have c: "Session_Commit wire_lib ?s1 ?l1 = ((Inl (DbException 1205 ''COMMIT failed''), ?s0), ?l2)"
    by (simp add: Session_Commit_def Check_Shutdown_def Mysql_Commit_def with_handle_def run_command_def ThrowMysqlError_def new_ObSession_def wire_conn_def wire_lib_def)
  have "session_step wire_lib (?s0, []) (?s1, ?l1)" by (rule session_step.query_text [OF _ q]) (simp add: plain_sql_def)
  moreover have "session_step wire_lib (?s1, ?l1) (?s0, ?l2)" by (rule session_step.commit [OF c])
  ultimately have r: "(session_step wire_lib)\<^sup>*\<^sup>* (?s0, []) (?s0, ?l2)" by simp
  have w: "wire_laws wire_lib (\<lambda>l. l)" by (simp add: wire_laws_def wire_lib_def)
  show ?thesis using transaction_protocol [OF w refl r] r by (intro exI [of _ ?s0] exI [of _ ?l2]) (simp add: new_ObSession_def)
qed

end
