(* ===== verification/Dictionary.thy ===== *)
theory Dictionary
  imports ClientSession Init
begin

text \<open>
  What the program asks the server about itself, over a connection of the client library: the queries of \<open>src/src/path_checker.cpp\<close> and
  \<open>src/src/schema_info.cpp\<close> with the checks made of their answers, and the session settings and \<open>ANALYZE\<close> statements of \<open>src/src/import.cpp\<close>.
\<close>

section \<open>Queries\<close>

text \<open>The next call of a function that may throw, on the new state of the library.\<close>

definition and_then :: "('a result \<times> 'l) option \<Rightarrow> ('a \<Rightarrow> 'l \<Rightarrow> ('b result \<times> 'l) option) \<Rightarrow> ('b result \<times> 'l) option" where
  "and_then m k = (case m of None \<Rightarrow> None | Some (Inl e, l) \<Rightarrow> Some (Inl e, l) | Some (Inr x, l) \<Rightarrow> k x l)"

text \<open>\<open>catch\<close> with a value to go on with; what is undefined stays so.\<close>

definition caught :: "'a \<Rightarrow> 'a result \<Rightarrow> 'a result" where
  "caught d r = (case r of Inl e \<Rightarrow> (case e of UB w \<Rightarrow> Inl (UB w) | _ \<Rightarrow> Inr d) | Inr x \<Rightarrow> Inr x)"

fun insert_rows :: "nat \<Rightarrow> string \<Rightarrow> QueryResult \<Rightarrow> string set \<Rightarrow> string set result" where
  "insert_rows 0 col q acc = Inr acc"
| "insert_rows (Suc n) col q acc = (case TryNextRow q of (ok, q1) \<Rightarrow> if \<not> ok then Inr acc
     else rbind (GetString col q1) (\<lambda>x. insert_rows n col q1 (insert x acc)))"

definition query_set :: "'l mysql \<Rightarrow> string \<Rightarrow> param list \<Rightarrow> string \<Rightarrow> ObConnection \<Rightarrow> 'l \<Rightarrow> (string set result \<times> 'l) option" where
  "query_set lib sql params col conn l = and_then (Query_sql lib sql params conn l) (\<lambda>q l1. Some (insert_rows (length (rows q) + 1) col q {}, l1))"

definition tables_sql :: string where
  "tables_sql = ''SELECT table_name AS table_name FROM information_schema.tables WHERE table_schema = ? AND table_type = '' @ [CHR 0x27] @ ''BASE TABLE'' @ [CHR 0x27]"

definition ListTables :: "'l mysql \<Rightarrow> string \<Rightarrow> ObConnection \<Rightarrow> 'l \<Rightarrow> (string set result \<times> 'l) option" where
  "ListTables lib database = query_set lib tables_sql [PString database] ''table_name''"

definition indexes_sql :: string where
  "indexes_sql = ''SELECT index_name AS index_name FROM information_schema.statistics WHERE table_schema = ? AND table_name = ?''"

definition ListIndexes :: "'l mysql \<Rightarrow> string \<Rightarrow> string \<Rightarrow> ObConnection \<Rightarrow> 'l \<Rightarrow> (string set result \<times> 'l) option" where
  "ListIndexes lib database tableName = query_set lib indexes_sql [PString database, PString tableName] ''index_name''"

definition warehouses_sql :: string where "warehouses_sql = ''SELECT COUNT(*) AS cnt FROM warehouse''"

definition GetWarehouseCount :: "'l mysql \<Rightarrow> ObConnection \<Rightarrow> 'l \<Rightarrow> (int result \<times> 'l) option" where
  "GetWarehouseCount lib conn l = and_then (QuerySimple lib warehouses_sql conn l) (\<lambda>q l1.
     case TryNextRow q of (ok, q1) \<Rightarrow> Some (if \<not> ok then Inr 0 else GetInt32 ''cnt'' q1, l1))"

section \<open>Pre-flight checks on a connection\<close>

definition schemata_sql :: string where
  "schemata_sql = ''SELECT 1 AS ok FROM information_schema.schemata WHERE schema_name = ? LIMIT 1''"

text \<open>An exception on the way destroys the connection.\<close>

definition connect_checked :: "'l mysql \<Rightarrow> ObConnectionConfig \<Rightarrow> 'l \<Rightarrow> (ObConnection result \<times> 'l) option" where
  "connect_checked lib cfg l = (let db = EffectiveDatabase cfg; failed = (\<lambda>conn e l. Some (Inl e, snd (destroy_ObConnection lib conn l))) in
     if db = [] then Some (Inl (RuntimeError ''No database specified''), l)
     else case Connect lib cfg False l of (Inl e, l1) \<Rightarrow> Some (Inl e, l1)
       | (Inr conn, l1) \<Rightarrow> (case Query_sql lib schemata_sql [PString db] conn l1 of None \<Rightarrow> None
         | Some (Inl e, l2) \<Rightarrow> failed conn e l2
         | Some (Inr q, l2) \<Rightarrow> if \<not> fst (TryNextRow q) then Some (Inr conn, l2)
             else (case MysqlConnection.UseDatabase lib db conn l2 of (Inl e, l3) \<Rightarrow> failed conn e l3 | (Inr _, l3) \<Rightarrow> Some (Inr conn, l3))))"

text \<open>Every exception ends the process like a failed check; the connection is destroyed when the checks pass.\<close>

definition preflight :: "'l mysql \<Rightarrow> string \<Rightarrow> string \<Rightarrow> (string \<Rightarrow> ObConnection \<Rightarrow> 'l \<Rightarrow> (unit result \<times> 'l) option) \<Rightarrow> 'l \<Rightarrow> (unit result \<times> 'l) option" where
  "preflight lib connectionString path checks l = (case ConfigWithPath connectionString path of Inl e \<Rightarrow> Some (Inl e, l)
     | Inr cfg \<Rightarrow> and_then (connect_checked lib cfg l) (\<lambda>conn l1. and_then (checks (EffectiveDatabase cfg) conn l1) (\<lambda>_ l2. Some (Inr (), snd (destroy_ObConnection lib conn l2)))))"

definition client_CheckDbForInit :: "'l mysql \<Rightarrow> string \<Rightarrow> string \<Rightarrow> 'l \<Rightarrow> (unit result \<times> 'l) option" where
  "client_CheckDbForInit lib connectionString path = preflight lib connectionString path (\<lambda>db conn l.
     and_then (ListTables lib db conn l) (\<lambda>tables l1. Some (CheckNoTablesExist tables, l1)))"

definition client_CheckDbForImport :: "'l mysql \<Rightarrow> string \<Rightarrow> string \<Rightarrow> 'l \<Rightarrow> (unit result \<times> 'l) option" where
  "client_CheckDbForImport lib connectionString path = preflight lib connectionString path (\<lambda>db conn l.
     and_then (ListTables lib db conn l) (\<lambda>tables l1. and_then (Some (CheckTablesExist tables, l1)) (\<lambda>_ l2.
     and_then (GetWarehouseCount lib conn l2) (\<lambda>whCount l3. Some (exit_if (whCount \<noteq> 0) ''already has warehouses'', l3)))))"

definition check_index :: "'l mysql \<Rightarrow> string \<Rightarrow> string \<Rightarrow> string \<Rightarrow> ObConnection \<Rightarrow> 'l \<Rightarrow> (unit result \<times> 'l) option" where
  "check_index lib db tableName expectedIndex conn l = and_then (ListIndexes lib db tableName conn l) (\<lambda>indexes l1. Some (CheckIndexExists indexes expectedIndex, l1))"

definition client_CheckDbForRun :: "'l mysql \<Rightarrow> string \<Rightarrow> int \<Rightarrow> string \<Rightarrow> 'l \<Rightarrow> (unit result \<times> 'l) option" where
  "client_CheckDbForRun lib connectionString expectedWhCount path = preflight lib connectionString path (\<lambda>db conn l.
     and_then (ListTables lib db conn l) (\<lambda>tables l1. and_then (Some (CheckTablesExist tables, l1)) (\<lambda>_ l2.
     and_then (check_index lib db TABLE_CUSTOMER INDEX_CUSTOMER_NAME conn l2) (\<lambda>_ l3.
     and_then (check_index lib db TABLE_OORDER INDEX_ORDER conn l3) (\<lambda>_ l4.
     and_then (GetWarehouseCount lib conn l4) (\<lambda>whCount l5. and_then (Some (exit_if (whCount = 0) ''Empty warehouse table'', l5)) (\<lambda>_ l6.
     Some (exit_if (whCount < expectedWhCount) ''missing warehouses'', l6))))))))"

section \<open>Schema information\<close>

definition units_sql :: string where
  "units_sql = ''SELECT COUNT(DISTINCT unit_id) AS cnt FROM oceanbase.GV$OB_UNITS WHERE status = '' @ [CHR 0x27] @ ''NORMAL'' @ [CHR 0x27]"

text \<open>Every exception is caught.\<close>

definition QueryTenantUnitCount :: "'l mysql \<Rightarrow> ObConnection \<Rightarrow> 'l \<Rightarrow> (int option result \<times> 'l) option" where
  "QueryTenantUnitCount lib conn l = map_option (\<lambda>(r, l1). (caught None r, l1)) (and_then (QuerySimple lib units_sql conn l) (\<lambda>q l1.
     case TryNextRow q of (ok, q1) \<Rightarrow> Some (if \<not> ok then Inr None else rbind (GetInt32 ''cnt'' q1) (\<lambda>n. Inr (Some n)), l1)))"

definition partitions_sql :: string where
  "partitions_sql = ''SELECT COUNT(DISTINCT partition_name) AS cnt FROM information_schema.partitions WHERE table_schema = ? AND table_name = ''
     @ [CHR 0x27] @ ''warehouse'' @ [CHR 0x27] @ '' AND partition_name IS NOT NULL''"

definition TryQueryTablePartitionCount :: "'l mysql \<Rightarrow> string \<Rightarrow> ObConnection \<Rightarrow> 'l \<Rightarrow> (int option result \<times> 'l) option" where
  "TryQueryTablePartitionCount lib database conn l = and_then (Query_sql lib partitions_sql [PString database] conn l) (\<lambda>q l1.
     case TryNextRow q of (ok, q1) \<Rightarrow> Some (if \<not> ok then Inr None else rbind (GetInt32 ''cnt'' q1) (\<lambda>count. Inr (if count > 0 then Some count else None)), l1))"

definition constraints_sql :: string where
  "constraints_sql = ''SELECT 1 AS ok FROM information_schema.table_constraints WHERE table_schema = ? AND constraint_type = ''
     @ [CHR 0x27] @ ''FOREIGN KEY'' @ [CHR 0x27] @ '' LIMIT 1''"

definition QueryForeignKeysEnabled :: "'l mysql \<Rightarrow> string \<Rightarrow> ObConnection \<Rightarrow> 'l \<Rightarrow> (bool result \<times> 'l) option" where
  "QueryForeignKeysEnabled lib database conn l = and_then (Query_sql lib constraints_sql [PString database] conn l) (\<lambda>q l1. Some (Inr (fst (TryNextRow q)), l1))"

record TBenchmarkSchemaInfo =
  ForeignKeysEnabled :: "bool option"
  info_PartitionCount :: "int option"

definition QueryBenchmarkSchemaInfo :: "'l mysql \<Rightarrow> string \<Rightarrow> ObConnection \<Rightarrow> 'l \<Rightarrow> (TBenchmarkSchemaInfo result \<times> 'l) option" where
  "QueryBenchmarkSchemaInfo lib database conn l = and_then (QueryForeignKeysEnabled lib database conn l) (\<lambda>fk l1.
     and_then (TryQueryTablePartitionCount lib database conn l1) (\<lambda>n l2. Some (Inr \<lparr>ForeignKeysEnabled = Some fk, info_PartitionCount = n\<rparr>, l2)))"

section \<open>Sessions of the import\<close>

definition ImportQueryTimeoutMicros :: int where "ImportQueryTimeoutMicros = 600 * 1000000"

text \<open>An exception is only logged.\<close>

definition SetSessionQueryTimeout :: "'l mysql \<Rightarrow> int \<Rightarrow> ObSession \<Rightarrow> 'l \<Rightarrow> ((unit result \<times> ObSession) \<times> 'l) option" where
  "SetSessionQueryTimeout lib timeoutUs s l = map_option (\<lambda>((r, s1), l1). ((caught () (rbind r (\<lambda>_. Inr ())), s1), l1))
     (Session_NonTx lib (''SET SESSION ob_query_timeout = '' @ int_str timeoutUs) s l)"

text \<open>The session and with it the connection is destroyed.\<close>

definition close_session :: "'l mysql \<Rightarrow> ObSession \<Rightarrow> 'l \<Rightarrow> 'l" where
  "close_session lib s l = (case Session_Release lib s l of ((None, s1), l1) \<Rightarrow> l1 | ((Some conn, s1), l1) \<Rightarrow> snd (destroy_ObConnection lib conn l1))"

definition OpenSession :: "'l mysql \<Rightarrow> string \<Rightarrow> string \<Rightarrow> 'l \<Rightarrow> (ObSession result \<times> 'l) option" where
  "OpenSession lib connectionString path l = (case ConfigWithPath connectionString path of Inl e \<Rightarrow> Some (Inl e, l)
     | Inr cfg \<Rightarrow> (case Connect lib cfg True l of (Inl e, l1) \<Rightarrow> Some (Inl e, l1)
       | (Inr conn, l1) \<Rightarrow> map_option (\<lambda>((r, s), l2). case r of Inl e \<Rightarrow> (Inl e, close_session lib s l2) | Inr _ \<Rightarrow> (Inr s, l2))
           (SetSessionQueryTimeout lib ImportQueryTimeoutMicros (new_ObSession (Some conn) False) l1)))"

text \<open>\<open>int64_t\<close> products overflow for absurd numbers of warehouses only.\<close>

definition AnalyzeQueryTimeoutMicros :: "u64 \<Rightarrow> int result" where
  "AnalyzeQueryTimeoutMicros warehouseCount = (let w = sint warehouseCount; timeoutSec = max 600 (w * 120) in
     if w * 120 < - (2 ^ 63) \<or> 2 ^ 63 \<le> w * 120 \<or> 2 ^ 63 \<le> timeoutSec * 1000000 then Inl (UB ''int64_t overflow'') else Inr (timeoutSec * 1000000))"

fun analyze_each :: "'l mysql \<Rightarrow> string list \<Rightarrow> ObSession \<Rightarrow> 'l \<Rightarrow> ((unit result \<times> ObSession) \<times> 'l) option" where
  "analyze_each lib [] s l = Some ((Inr (), s), l)"
| "analyze_each lib (t # rest) s l = (case Session_NonTx lib (''ANALYZE TABLE `'' @ t @ ''`'') s l of None \<Rightarrow> None
     | Some ((Inl e, s1), l1) \<Rightarrow> Some ((Inl e, s1), l1) | Some ((Inr _, s1), l1) \<Rightarrow> analyze_each lib rest s1 l1)"

text \<open>The tables one after the other, up to the first that fails; the session is closed on every way out.\<close>

definition AnalyzeTables :: "'l mysql \<Rightarrow> string \<Rightarrow> string \<Rightarrow> u64 \<Rightarrow> 'l \<Rightarrow> (unit result \<times> 'l) option" where
  "AnalyzeTables lib connectionString path warehouseCount l = and_then (OpenSession lib connectionString path l) (\<lambda>s l1.
     case AnalyzeQueryTimeoutMicros warehouseCount of Inl e \<Rightarrow> Some (Inl e, close_session lib s l1)
     | Inr timeoutUs \<Rightarrow> (case SetSessionQueryTimeout lib timeoutUs s l1 of None \<Rightarrow> None
       | Some ((Inl e, s1), l2) \<Rightarrow> Some (Inl e, close_session lib s1 l2)
       | Some ((Inr _, s1), l2) \<Rightarrow> map_option (\<lambda>((r, s2), l3). (r, close_session lib s2 l3)) (analyze_each lib TPCC_TABLES s1 l2)))"

section \<open>The checks see what the server says\<close>

lemma insert_rows_read: "read_column n col q = Inr (map Some xs) \<Longrightarrow> insert_rows n col q acc = Inr (acc \<union> set xs)"
proof (induction n arbitrary: q acc xs)
  case (Suc n)
  obtain ok q1 where t: "TryNextRow q = (ok, q1)" by fastforce
  show ?case
  proof (cases ok)
    case True
    then obtain c cs where c: "Optional col q1 = Inr c" "read_column n col q1 = Inr cs" "c # cs = map Some xs" using Suc.prems t by auto
    then obtain x ys where "xs = x # ys" "c = Some x" "cs = map Some ys" by (cases xs) auto
    then show ?thesis using Suc.IH c True t by (simp add: GetString_def Require_def)
  qed (use Suc.prems t in auto)
qed simp

definition answers :: "'l mysql \<Rightarrow> ObConnection \<Rightarrow> string \<Rightarrow> param list \<Rightarrow> string list \<Rightarrow> string option list list \<Rightarrow> bool" where
  "answers lib conn sql params cs vss \<longleftrightarrow> length vss < 2 ^ 64 \<and> (\<forall>l. \<exists>l1. Query_sql lib sql params conn l = Some (Inr (new_QueryResult cs vss), l1))"

lemma query_set_answers:
  assumes "answers lib conn sql params [col] (map (\<lambda>x. [Some x]) xs)"
  shows "\<exists>l1. query_set lib sql params col conn l = Some (Inr (set xs), l1)"
proof -
  obtain l1 where q: "Query_sql lib sql params conn l = Some (Inr (new_QueryResult [col] (map (\<lambda>x. [Some x]) xs)), l1)" and n: "length xs < 2 ^ 64"
    using assms by (auto simp: answers_def)
  have "read_column (length xs + 1) col (new_QueryResult [col] (map (\<lambda>x. [Some x]) xs)) = Inr (map Some xs)"
    using read_column_from [of "new_QueryResult [col] (map (\<lambda>x. [Some x]) xs)" 0 0 "length xs + 1"] n by (simp add: new_QueryResult_def list_all_iff comp_def)
  note r = insert_rows_read [OF this, of "{}"]
  have "rows (new_QueryResult [col] (map (\<lambda>x. [Some x]) xs)) = map (\<lambda>x. [Some x]) xs" by (simp add: new_QueryResult_def)
  then show ?thesis using q r by (simp add: query_set_def and_then_def del: insert_rows.simps)
qed

lemma count_answers:
  assumes "answers lib conn warehouses_sql [] [''cnt''] [[Some text_count]]" "stoll text_count = Inr n" "0 \<le> n" "n < 2 ^ 31"
  shows "\<exists>l1. GetWarehouseCount lib conn l = Some (Inr n, l1)"
proof -
  let ?q = "new_QueryResult [''cnt''] [[Some text_count]]"
  have "TryNextRow ?q = (True, ?q\<lparr>rowPos := 0\<rparr>)" using TryNextRow_at [of ?q 0] by (simp add: new_QueryResult_def)
  moreover have "GetInt32 ''cnt'' (?q\<lparr>rowPos := 0\<rparr>) = Inr n"
    using assms(2-4) by (simp add: GetInt32_def GetInt64_def Require_def Optional_def EnsureRow_def IndexOf_def column_map_def vsize_def new_QueryResult_def
      signed_of_int signed_take_bit_int_eq_self)
  moreover obtain l1 where "Query_sql lib warehouses_sql [] conn l = Some (Inr ?q, l1)" using assms(1) unfolding answers_def by metis
  ultimately show ?thesis by (simp add: GetWarehouseCount_def QuerySimple_def and_then_def)
qed

text \<open>What the server answers on a connection: the database exists and has these tables, indexes and warehouses.\<close>

definition dictionary :: "'l mysql \<Rightarrow> ObConnection \<Rightarrow> string \<Rightarrow> string list \<Rightarrow> (string \<Rightarrow> string list) \<Rightarrow> int \<Rightarrow> bool" where
  "dictionary lib conn db tables indexes n \<longleftrightarrow> answers lib conn schemata_sql [PString db] [''ok''] [[Some ''1'']]
     \<and> (\<forall>l. \<exists>l1. MysqlConnection.UseDatabase lib db conn l = (Inr (), l1))
     \<and> answers lib conn tables_sql [PString db] [''table_name''] (map (\<lambda>x. [Some x]) tables)
     \<and> (\<forall>t. answers lib conn indexes_sql [PString db, PString t] [''index_name''] (map (\<lambda>x. [Some x]) (indexes t)))
     \<and> (\<exists>text_count. answers lib conn warehouses_sql [] [''cnt''] [[Some text_count]] \<and> stoll text_count = Inr n \<and> 0 \<le> n \<and> n < 2 ^ 31)"

lemma connect_checked_ok:
  assumes "dictionary lib conn (EffectiveDatabase cfg) tables indexes n" "EffectiveDatabase cfg \<noteq> []" "Connect lib cfg False l = (Inr conn, l1)"
  shows "\<exists>l2. connect_checked lib cfg l = Some (Inr conn, l2)"
proof -
  obtain l2 where q: "Query_sql lib schemata_sql [PString (EffectiveDatabase cfg)] conn l1 = Some (Inr (new_QueryResult [''ok''] [[Some ''1'']]), l2)"
    using assms(1) unfolding dictionary_def answers_def by metis
  obtain l3 where "MysqlConnection.UseDatabase lib (EffectiveDatabase cfg) conn l2 = (Inr (), l3)" using assms(1) unfolding dictionary_def by metis
  moreover have "fst (TryNextRow (new_QueryResult [''ok''] [[Some ''1'']]))" using TryNextRow_at [of "new_QueryResult [''ok''] [[Some ''1'']]" 0] by (simp add: new_QueryResult_def)
  ultimately show ?thesis using assms(2,3) q by (simp add: connect_checked_def Let_def)
qed

text \<open>The value of a computation, whatever the state of the library afterwards.\<close>

definition yields :: "('a \<times> 'l) option \<Rightarrow> 'a \<Rightarrow> bool" where
  "yields m r \<longleftrightarrow> (\<exists>l. m = Some (r, l))"

lemma yields_value: "yields m (Inr x) \<Longrightarrow> (\<And>l. yields (k x l) r) \<Longrightarrow> yields (and_then m k) r"
  by (auto simp: yields_def and_then_def)

lemma yields_check: "yields m c \<Longrightarrow> (\<And>l. yields (k () l) r) \<Longrightarrow> yields (and_then m k) (rbind c (\<lambda>_. r))"
  by (cases c) (auto simp: yields_def and_then_def)

lemma yields_Some: "yields (Some (r, l)) r"
  by (simp add: yields_def)

text \<open>
  The pre-flight checks over the client library are the checks of the answers: on a server whose data dictionary reports some tables, indexes and
  warehouses, each check of the program ends exactly as the check of these tables, indexes and numbers does.
\<close>

theorem preflight_refines:
  assumes d: "dictionary lib conn db tables indexes n" and cfg: "ConfigWithPath c path = Inr cfg" "EffectiveDatabase cfg = db" "db \<noteq> []"
    and con: "Connect lib cfg False l = (Inr conn, l1)"
  shows "yields (client_CheckDbForInit lib c path l) (CheckDbForInit (\<lambda>_. set tables) c path)
    \<and> yields (client_CheckDbForImport lib c path l) (CheckDbForImport (\<lambda>_. set tables) n c path)
    \<and> yields (client_CheckDbForRun lib c expected path l) (CheckDbForRun (\<lambda>_. set tables) (\<lambda>_ t. set (indexes t)) n c expected path)"
proof -
  obtain l2 where cc: "connect_checked lib cfg l = Some (Inr conn, l2)" using connect_checked_ok [of lib conn cfg] assms by blast
  have lt: "yields (ListTables lib db conn l) (Inr (set tables))" for l
    using d query_set_answers by (auto simp: dictionary_def ListTables_def yields_def)
  have li: "yields (check_index lib db t i conn l) (CheckIndexExists (set (indexes t)) i)" for l t i
  proof -
    have "\<exists>l1. query_set lib indexes_sql [PString db, PString t] ''index_name'' conn l = Some (Inr (set (indexes t)), l1)"
      using d by (intro query_set_answers) (simp add: dictionary_def)
    then show ?thesis unfolding check_index_def by (intro yields_value [of _ "set (indexes t)"]) (auto simp: ListIndexes_def yields_def)
  qed
  have gw: "yields (GetWarehouseCount lib conn l) (Inr n)" for l using d count_answers by (auto simp: dictionary_def yields_def)
  have cd: "ConnectChecked c path = Inr db" using cfg by (simp add: ConnectChecked_def)
  have pre: "yields (preflight lib c path checks l) r" if "yields (checks db conn l2) r" for checks r
    using that cc cfg(1,2) by (cases r) (auto simp: preflight_def and_then_def yields_def)
  note defs = client_CheckDbForInit_def CheckDbForInit_def client_CheckDbForImport_def CheckDbForImport_def client_CheckDbForRun_def CheckDbForRun_def cd rbind_simps(2)
  have "yields (client_CheckDbForInit lib c path l) (CheckDbForInit (\<lambda>_. set tables) c path)"
    unfolding defs by (intro pre yields_value [OF lt] yields_Some)
  moreover have "yields (client_CheckDbForImport lib c path l) (CheckDbForImport (\<lambda>_. set tables) n c path)"
    unfolding defs by (rule pre, rule yields_value [OF lt], rule yields_check [OF yields_Some], rule yields_value [OF gw], rule yields_Some)
  moreover have "yields (client_CheckDbForRun lib c expected path l) (CheckDbForRun (\<lambda>_. set tables) (\<lambda>_ t. set (indexes t)) n c expected path)"
    unfolding defs by (rule pre, rule yields_value [OF lt], rule yields_check [OF yields_Some], rule yields_check [OF li], rule yields_check [OF li],
      rule yields_value [OF gw], rule yields_check [OF yields_Some], rule yields_Some)
  ultimately show ?thesis by blast
qed

text \<open>A library that answers each text of a statement with fixed rows; its state is the last text and the rows still to be fetched.\<close>

type_synonym answering = "string \<times> string option list list"

definition answer_stmts :: "(string \<Rightarrow> result_set) \<Rightarrow> answering client" where
  "answer_stmts reply = \<lparr>stmt_init = (\<lambda>l. (Some 0, l)), stmt_prepare = (\<lambda>h sql l. (0, (sql, snd (reply sql)))),
     stmt_bind_param = (\<lambda>h slots l. (0, l)), stmt_execute = (\<lambda>h l. (0, l)), stmt_metadata = (\<lambda>h l. Some (fst (reply (fst l)))),
     stmt_bind_result = (\<lambda>h l. (0, l)), stmt_fetch = (\<lambda>h (sql, rs). case rs of [] \<Rightarrow> (NoData, (sql, [])) | r # rest \<Rightarrow> (Row r, (sql, rest))),
     stmt_affected_rows = (\<lambda>h l. 0), stmt_close = (\<lambda>h l. l)\<rparr>"

definition answer_lib :: "(string \<Rightarrow> result_set) \<Rightarrow> answering mysql" where
  "answer_lib reply = \<lparr>stmts = (\<lambda>_. answer_stmts reply), mysql_init = (\<lambda>l. (Some 0, l)), mysql_options = (\<lambda>h l. l),
     mysql_real_connect = (\<lambda>h a b c d e l. (0, l)), mysql_select_db = (\<lambda>h db l. (0, l)), mysql_query = (\<lambda>h sql l. (0, (sql, []))),
     mysql_store_result = (\<lambda>h l. (Some (reply (fst l)), l)), mysql_field_count = (\<lambda>h l. 0), mysql_errno = (\<lambda>h l. 0), mysql_next_result = (\<lambda>h l. (- 1, l)),
     mysql_affected_rows = (\<lambda>h l. 0), mysql_thread_id = (\<lambda>h l. 7), mysql_close = (\<lambda>h l. l)\<rparr>"

lemma answer_fetches: "fetches (answer_stmts reply) h (sql, rs) rs (sql, [])"
  by (induction rs) (auto intro: fetches.intros simp: answer_stmts_def)

lemma answer_lib_answers:
  assumes "reply sql = (cs, vss)" "list_all (list_all short) vss" "length vss < 2 ^ 64" "mysql_handle conn = Some h" "stmtCache conn = Some cache"
  shows "answers (answer_lib reply) conn sql params cs vss"
proof -
  let ?lib = "answer_stmts reply"
  have "MaterializeStmtResult ?lib 0 (sql, vss) = Some (Inr (new_QueryResult cs vss), (sql, []))"
    using fetch_loop_rows [OF answer_fetches [of reply 0 sql vss] assms(2), of "[]"] assms(1) by (simp add: MaterializeStmtResult_def answer_stmts_def)
  then have "QueryText ?lib sql params l = Some (Inr (new_QueryResult cs vss), (sql, []))" for l
    using assms(1) by (simp add: QueryText_def PrepareTextStmt_def bind_and_execute_def BindParams_def Let_def with_guard_def answer_stmts_def)
  then show ?thesis using assms by (auto simp: answers_def Query_sql_def with_handle_def answer_lib_def MaterializeResult_def)
qed

definition sample_reply :: "string \<Rightarrow> result_set" where
  "sample_reply sql = (if sql = tables_sql then ([''table_name''], map (\<lambda>t. [Some t]) TPCC_TABLES)
     else if sql = indexes_sql then ([''index_name''], [[Some INDEX_CUSTOMER_NAME], [Some INDEX_ORDER]])
     else if sql = warehouses_sql then ([''cnt''], [[Some ''2'']]) else ([''ok''], [[Some ''1'']]))"

lemma sample_dictionary:
  assumes "mysql_handle conn = Some h" "stmtCache conn = Some cache"
  shows "dictionary (answer_lib sample_reply) conn db TPCC_TABLES (\<lambda>_. [INDEX_CUSTOMER_NAME, INDEX_ORDER]) 2"
proof -
  have r: "sample_reply schemata_sql = ([''ok''], [[Some ''1'']])" "sample_reply tables_sql = ([''table_name''], map (\<lambda>t. [Some t]) TPCC_TABLES)"
    "sample_reply indexes_sql = ([''index_name''], map (\<lambda>t. [Some t]) [INDEX_CUSTOMER_NAME, INDEX_ORDER])" "sample_reply warehouses_sql = ([''cnt''], [[Some ''2'']])"
    by (simp_all add: sample_reply_def schemata_sql_def tables_sql_def indexes_sql_def warehouses_sql_def)
  have s: "stoll ''2'' = Inr 2" by code_simp
  have k: "list_all (list_all short) (map (\<lambda>t. [Some t]) TPCC_TABLES)" "length TPCC_TABLES < 2 ^ 64" by (simp_all add: short_def kResultBufferSize_def const_defs)
  note a = answer_lib_answers [where reply = sample_reply, OF _ _ _ assms]
  have "answers (answer_lib sample_reply) conn schemata_sql params [''ok''] [[Some ''1'']]"
    "answers (answer_lib sample_reply) conn indexes_sql params [''index_name''] (map (\<lambda>t. [Some t]) [INDEX_CUSTOMER_NAME, INDEX_ORDER])"
    "answers (answer_lib sample_reply) conn warehouses_sql params [''cnt''] [[Some ''2'']]" for params
    using a [OF r(1)] a [OF r(3)] a [OF r(4)] by (simp_all add: short_def kResultBufferSize_def const_defs)
  moreover have "\<forall>l. \<exists>l1. MysqlConnection.UseDatabase (answer_lib sample_reply) db conn l = (Inr (), l1)"
    using assms(1) by (simp add: MysqlConnection.UseDatabase_def with_handle_def answer_lib_def)
  moreover have "\<exists>text_count. answers (answer_lib sample_reply) conn warehouses_sql [] [''cnt''] [[Some text_count]] \<and> stoll text_count = Inr 2 \<and> (0 :: int) \<le> 2 \<and> (2 :: int) < 2 ^ 31"
    using calculation(3) s by (intro exI [of _ "''2''"]) simp
  ultimately show ?thesis using a [OF r(2) k(1)] k(2) unfolding dictionary_def by simp
qed

theorem preflight_refines_witness:
  "yields (client_CheckDbForRun (answer_lib sample_reply) ''db=bench'' 2 [] ([], [])) (Inr ())
    \<and> (\<exists>e. yields (client_CheckDbForImport (answer_lib sample_reply) ''db=bench'' [] ([], [])) (Inl e))"
proof -
  let ?cfg = "default_config\<lparr>cfg_database := ''bench''\<rparr>"
  have p: "ConfigWithPath ''db=bench'' [] = Inr ?cfg" by code_simp
  have e: "EffectiveDatabase ?cfg = ''bench''" by (simp add: EffectiveDatabase_def default_config_def)
  obtain conn l1 where c: "Connect (answer_lib sample_reply) ?cfg False ([], []) = (Inr conn, l1)" "mysql_handle conn = Some 0" "stmtCache conn = Some new_cache"
    by (simp add: Connect_def EstablishConnection_def answer_lib_def SetSessionRepeatableRead_def run_command_def new_ObConnection_def)
  note r = preflight_refines [OF sample_dictionary [OF c(2,3), of "''bench''"] p e _ c(1), of 2]
  have "CheckDbForRun (\<lambda>_. set TPCC_TABLES) (\<lambda>_ _. set [INDEX_CUSTOMER_NAME, INDEX_ORDER]) 2 ''db=bench'' 2 [] = Inr ()"
    using p e by (simp add: CheckDbForRun_def ConnectChecked_def CheckTablesExist_def CheckIndexExists_def exit_if_def)
  moreover have "CheckDbForImport (\<lambda>_. set TPCC_TABLES) 2 ''db=bench'' [] = Inl (RuntimeError ''already has warehouses'')"
    using p e by (simp add: CheckDbForImport_def ConnectChecked_def CheckTablesExist_def exit_if_def)
  ultimately show ?thesis using r by auto
qed

section \<open>Sessions of the import are closed\<close>

text \<open>A session opened at \<open>l0\<close>, outside a transaction and without cached statements.\<close>

definition fresh_session :: "('l \<Rightarrow> nat set) \<Rightarrow> ('l \<Rightarrow> nat set) \<Rightarrow> 'l \<Rightarrow> ObSession \<Rightarrow> 'l \<Rightarrow> bool" where
  "fresh_session conns opened l0 s l \<longleftrightarrow> \<not> sess_inTxn s \<and> (\<exists>conn h. sess_conn s = Some conn \<and> mysql_handle conn = Some h \<and> cached_stmts conn = {}
     \<and> h \<notin> conns l0 \<and> handles conns opened l = (insert h (conns l0), opened l0))"

lemma NonTx_fresh:
  assumes "conn_laws lib conns opened" "fresh_session conns opened l0 s l" "Session_NonTx lib sql s l = Some ((r, s'), l')"
  shows "fresh_session conns opened l0 s' l'"
proof -
  obtain conn where conn: "sess_conn s = Some conn" "\<not> sess_inTxn s" using assms(2) by (auto simp: fresh_session_def)
  then obtain x where "Query_sql lib sql [] conn l = Some (x, l')" "s' = s"
    using assms(3) by (auto simp: Session_NonTx_def Session_Rollback_def QuerySimple_def)
  then show ?thesis using sql_handles(1) [OF assms(1)] assms(2) by (auto simp: fresh_session_def)
qed

lemma SetTimeout_fresh:
  assumes "conn_laws lib conns opened" "fresh_session conns opened l0 s l" "SetSessionQueryTimeout lib t s l = Some ((r, s'), l')"
  shows "fresh_session conns opened l0 s' l'"
  using assms(3) NonTx_fresh [OF assms(1,2)] by (auto simp: SetSessionQueryTimeout_def)

lemma analyze_fresh:
  assumes "conn_laws lib conns opened"
  shows "fresh_session conns opened l0 s l \<Longrightarrow> analyze_each lib names s l = Some ((r, s'), l') \<Longrightarrow> fresh_session conns opened l0 s' l'"
proof (induction names arbitrary: s l)
  case (Cons t names)
  then show ?case using NonTx_fresh [OF assms Cons.prems(1)] by (fastforce split: option.splits prod.splits sum.splits)
qed simp

lemma close_fresh:
  assumes "conn_laws lib conns opened" "fresh_session conns opened l0 s l"
  shows "handles conns opened (close_session lib s l) = handles conns opened l0"
proof -
  obtain conn h where c: "sess_conn s = Some conn" "mysql_handle conn = Some h" "cached_stmts conn = {}" "h \<notin> conns l0"
    "handles conns opened l = (insert h (conns l0), opened l0)" "\<not> sess_inTxn s" using assms(2) by (auto simp: fresh_session_def)
  obtain conn' l' where d: "destroy_ObConnection lib conn l = (conn', l')" by fastforce
  have "close_session lib s l = l'" using c(1,6) d by (simp add: close_session_def Session_Release_def Reset_Txn_def)
  then show ?thesis using destroy_handles(1) [OF assms(1) c(2) d] c(3-5) by auto
qed

lemma OpenSession_fresh:
  assumes "conn_laws lib conns opened" "OpenSession lib c path l = Some (r, l')"
  shows "case r of Inl _ \<Rightarrow> handles conns opened l' = handles conns opened l | Inr s \<Rightarrow> fresh_session conns opened l s l'"
proof (cases "ConfigWithPath c path")
  case (Inr cfg)
  obtain x l1 where x: "Connect lib cfg True l = (x, l1)" by fastforce
  note h = Connect_handles [OF assms(1) x]
  show ?thesis
  proof (cases x)
    case (Inr conn)
    have f: "fresh_session conns opened l (new_ObSession (Some conn) False) l1" using h Inr by (auto simp: fresh_session_def new_ObSession_def)
    obtain u s l2 where t: "SetSessionQueryTimeout lib ImportQueryTimeoutMicros (new_ObSession (Some conn) False) l1 = Some ((u, s), l2)"
      and r: "(r, l') = (case u of Inl e \<Rightarrow> (Inl e, close_session lib s l2) | Inr _ \<Rightarrow> (Inr s, l2))"
      using assms(2) \<open>ConfigWithPath c path = Inr cfg\<close> x Inr by (auto simp: OpenSession_def)
    have "fresh_session conns opened l s l2" using SetTimeout_fresh [OF assms(1) f t] .
    then show ?thesis using r close_fresh [OF assms(1), of l s l2] by (cases u) auto
  qed (use assms(2) Inr x h in \<open>auto simp: OpenSession_def\<close>)
qed (use assms(2) in \<open>auto simp: OpenSession_def\<close>)

text \<open>\<open>ANALYZE\<close> leaves the library as it was: whether opening the session, setting the timeout or a statement fails, its connection is closed.\<close>

lemma analyze_gives_back:
  assumes "conn_laws lib conns opened" "AnalyzeTables lib c path n l = Some (r, l')"
  shows "conns l' = conns l \<and> opened l' = opened l"
proof -
  obtain x l1 where o: "OpenSession lib c path l = Some (x, l1)" using assms(2) by (auto simp: AnalyzeTables_def and_then_def split: option.splits)
  note f = OpenSession_fresh [OF assms(1) o]
  show ?thesis
  proof (cases x)
    case (Inr s)
    then have s: "fresh_session conns opened l s l1" using f by simp
    show ?thesis
    proof (cases "AnalyzeQueryTimeoutMicros n")
      case (Inr t)
      obtain u s1 l2 where u: "SetSessionQueryTimeout lib t s l1 = Some ((u, s1), l2)"
        using assms(2) o \<open>x = Inr s\<close> Inr by (auto simp: AnalyzeTables_def and_then_def split: option.splits)
      note s1 = SetTimeout_fresh [OF assms(1) s u]
      show ?thesis
        using assms(2) o \<open>x = Inr s\<close> Inr u close_fresh [OF assms(1) s1] analyze_fresh [OF assms(1) s1] close_fresh [OF assms(1)]
        by (cases u) (fastforce simp: AnalyzeTables_def and_then_def)+
    qed (use assms(2) o Inr close_fresh [OF assms(1) s] in \<open>simp add: AnalyzeTables_def and_then_def\<close>)
  qed (use assms(2) o f in \<open>simp add: AnalyzeTables_def and_then_def\<close>)
qed

text \<open>The timeout is ten minutes, or two minutes for each warehouse if that is more.\<close>

lemma timeout_value:
  assumes "unat n < 2 ^ 36"
  shows "AnalyzeQueryTimeoutMicros n = Inr (max 600 (120 * int (unat n)) * 1000000)"
proof -
  have "int (unat n) < int (2 ^ 36)" using assms by (simp only: of_nat_less_iff)
  then have b: "uint n < 2 ^ 36" by simp
  then have "sint n = uint n" using signed_take_bit_int_eq_self [of 63 "uint n"] uint_ge_0 [of n]
    by (simp add: sint_uint)
  moreover have "AnalyzeQueryTimeoutMicros n = Inr (max 600 (120 * w) * 1000000)" if "sint n = w" "0 \<le> w" "w < 2 ^ 36" for w
    using that by (auto simp: AnalyzeQueryTimeoutMicros_def Let_def max_def)
  ultimately show ?thesis using b uint_ge_0 [of n] by simp
qed

end
