(* ===== verification/Display.thy ===== *)
theory Display
  imports Results Runner
begin

text \<open>
  The figures behind the terminal UI: what a scheduler thread records in an iteration (\<open>src/src/task_queue.cpp\<close>), the status of a run
  (\<open>CollectDisplayData\<close> of \<open>src/src/runner.cpp\<close>) and of an import (\<open>src/src/import.cpp\<close>), the load bars (\<open>src/src/runner_tui.cpp\<close>), and
  \<open>src/src/util.cpp\<close>.
\<close>

section \<open>Times\<close>

text \<open>\<open>std::chrono::duration<double>\<close> of nanoseconds.\<close>

definition secs :: "int \<Rightarrow> rat" where
  "secs ns = fl (fl (of_int ns) / 1000000000)"

text \<open>\<open>static_cast<int>\<close> of a double, and the division of an \<open>int\<close> by 60.\<close>

definition to_int32 :: "rat \<Rightarrow> int result" where
  "to_int32 x = (let n = (if x < 0 then - \<lfloor>- x\<rfloor> else \<lfloor>x\<rfloor>) in if n < - (2 ^ 31) \<or> 2 ^ 31 \<le> n then Inl (UB ''static_cast<int>'') else Inr n)"

definition minutes_of :: "int \<Rightarrow> int" where "minutes_of n = (if n < 0 then - ((- n) div 60) else n div 60)"

definition seconds_of :: "int \<Rightarrow> int" where "seconds_of n = n - 60 * minutes_of n"

section \<open>What an iteration records\<close>

record iteration_stats =
  it_external_ready :: nat
  it_external_ms :: "u64 list"
  it_inflight_ms :: "u64 option"
  it_internal_ms :: "u64 option"
  it_executing_ns :: "int list"
  it_total_ns :: int
  it_sleeping :: nat
  it_waiting :: nat
  it_ready :: nat

definition record_if :: "u64 option \<Rightarrow> THistogram \<Rightarrow> THistogram result" where
  "record_if v h = (case v of None \<Rightarrow> Inr h | Some x \<Rightarrow> RecordValue x h)"

definition record_iteration :: "iteration_stats \<Rightarrow> TThreadStats \<Rightarrow> TThreadStats result" where
  "record_iteration it st =
     rbind (record_if (it_inflight_ms it) (InternalInflightWaitTimeMs st)) (\<lambda>h1.
     rbind (record_if (it_internal_ms it) (InternalQueueTimeMs st)) (\<lambda>h2.
     rbind (rfold RecordValue (it_external_ms it) (ExternalQueueTimeMs st)) (\<lambda>h3.
     Inr (st\<lparr>ExternalTasksReady := of_nat (it_external_ready it),
       ExternalTasksResumed := ExternalTasksResumed st + vsize (it_external_ms it),
       InternalTasksResumed := InternalTasksResumed st + (if it_internal_ms it = None then 0 else 1),
       InternalTasksSleeping := of_nat (it_sleeping it), InternalTasksWaitingInflight := of_nat (it_waiting it), InternalTasksReady := of_nat (it_ready it),
       ExecutingTime := fl (ExecutingTime st + fold (\<lambda>ns acc. fl (acc + secs ns)) (it_executing_ns it) 0),
       TotalTime := fl (TotalTime st + secs (it_total_ns it)),
       InternalInflightWaitTimeMs := h1, InternalQueueTimeMs := h2, ExternalQueueTimeMs := h3\<rparr>))))"

section \<open>The status of a run\<close>

record TRunStatusData =
  Phase :: string
  ElapsedMinutesTotal :: int
  ElapsedSecondsTotal :: int
  RemainingMinutesTotal :: int
  RemainingSecondsTotal :: int
  ProgressPercentTotal :: rat
  status_Tpmc :: rat
  status_Efficiency :: rat
  RunningTerminals :: u64
  RunningTransactions :: u64

definition progress_percent :: "int \<Rightarrow> int \<Rightarrow> int \<Rightarrow> rat" where
  "progress_percent startTs end_time nowTs = (let totalSec = secs (end_time - startTs) in
     if totalSec > 0 then min 100 (fl (fl (secs (nowTs - startTs) / totalSec) * 100)) else 100)"

definition run_status :: "u64 \<Rightarrow> u64 \<Rightarrow> u64 \<Rightarrow> TTerminalStats list \<Rightarrow> int \<Rightarrow> int \<Rightarrow> int \<Rightarrow> bool \<Rightarrow> int \<Rightarrow> TRunStatusData result" where
  "run_status warehouseCount terminals inflight perThreadStats startTs warmup_end end_time done nowTs =
     rbind (to_int32 (secs (nowTs - startTs))) (\<lambda>elapsedSec.
     rbind (to_int32 (secs (end_time - nowTs))) (\<lambda>remaining.
     let remainSec = max 0 remaining;
         totalNewOrderOK = (\<Sum>st \<leftarrow> perThreadStats. OK (PerTransactionTypeStats st ! tx_index NewOrder));
         t = tpmc_of totalNewOrderOK (if done then secs (nowTs - warmup_end) else 0) in
     Inr \<lparr>Phase = (if done then ''Measuring'' else ''Warmup''),
       ElapsedMinutesTotal = minutes_of elapsedSec, ElapsedSecondsTotal = seconds_of elapsedSec,
       RemainingMinutesTotal = minutes_of remainSec, RemainingSecondsTotal = seconds_of remainSec,
       ProgressPercentTotal = progress_percent startTs end_time nowTs,
       status_Tpmc = t, status_Efficiency = efficiency_of warehouseCount t, RunningTerminals = terminals, RunningTransactions = inflight\<rparr>))"

text \<open>The statistics of thread \<open>i\<close>, collected into a fresh record.\<close>

definition collect_thread :: "TThreadStats list \<Rightarrow> TTerminalStats list \<Rightarrow> TThreadStatistics \<Rightarrow> nat \<Rightarrow> TThreadStatistics result" where
  "collect_thread contexts perThreadStats fresh i =
     rbind (CollectStats contexts i (TaskThreadStats fresh)) (\<lambda>t.
     if length perThreadStats \<le> i then Inl (UB ''perThreadStats[i]'')
     else rbind (Stats_Collect (perThreadStats ! i) (TerminalStats fresh)) (\<lambda>ts. Inr (fresh\<lparr>TaskThreadStats := t, TerminalStats := ts\<rparr>)))"

fun collect_threads :: "TThreadStats list \<Rightarrow> TTerminalStats list \<Rightarrow> TThreadStatistics \<Rightarrow> nat list \<Rightarrow> TThreadStatistics list result" where
  "collect_threads contexts perThreadStats fresh [] = Inr []"
| "collect_threads contexts perThreadStats fresh (i # is) = rbind (collect_thread contexts perThreadStats fresh i) (\<lambda>s.
     rbind (collect_threads contexts perThreadStats fresh is) (\<lambda>ss. Inr (s # ss)))"

definition CollectDisplayData :: "u64 \<Rightarrow> nat \<Rightarrow> u64 \<Rightarrow> u64 \<Rightarrow> TThreadStats list \<Rightarrow> TTerminalStats list \<Rightarrow> TThreadStatistics \<Rightarrow> int \<Rightarrow> int \<Rightarrow> int \<Rightarrow> bool \<Rightarrow> int \<Rightarrow>
    (TThreadStatistics list \<times> TRunStatusData) result" where
  "CollectDisplayData warehouseCount threads terminals inflight contexts perThreadStats fresh startTs warmup_end end_time done nowTs =
     rbind (collect_threads contexts perThreadStats fresh [0..<threads]) (\<lambda>sv.
     rbind (run_status warehouseCount terminals inflight perThreadStats startTs warmup_end end_time done nowTs) (\<lambda>status. Inr (sv, status)))"

section \<open>The status of an import\<close>

record TImportStatusData =
  CurrentDataSizeLoaded :: u64
  PercentLoaded :: rat
  InstantSpeedMiBs :: rat
  AvgSpeedMiBs :: rat
  ElapsedMinutes :: int
  ElapsedSeconds :: int
  EstimatedTimeLeftMinutes :: int
  EstimatedTimeLeftSeconds :: int

definition percent_loaded :: "u64 \<Rightarrow> u64 \<Rightarrow> rat" where
  "percent_loaded approximate loaded = (if approximate > 0 then fl (fl (100 * fl (of_nat (unat loaded))) / fl (of_nat (unat approximate))) else 0)"

definition speed_mibs :: "u64 \<Rightarrow> rat \<Rightarrow> rat" where
  "speed_mibs size_bytes elapsed = (if elapsed > fl (1 / 100) then fl (fl (fl (of_nat (unat size_bytes)) / 1048576) / elapsed) else 0)"

definition import_status :: "u64 \<Rightarrow> u64 \<Rightarrow> u64 \<Rightarrow> int \<Rightarrow> int \<Rightarrow> int \<Rightarrow> TImportStatusData result" where
  "import_status approximate loaded prevLoaded startTime prevTime nowTs = (let elapsed = secs (nowTs - startTime); avg = speed_mibs loaded elapsed in
     rbind (to_int32 elapsed) (\<lambda>totalSec.
     rbind (if avg > fl (1 / 100) \<and> approximate > loaded
            then to_int32 (fl (fl (of_nat (unat (approximate - loaded))) / fl (fl (avg * 1024) * 1024))) else Inr 0) (\<lambda>etaSec.
     Inr \<lparr>CurrentDataSizeLoaded = loaded, PercentLoaded = percent_loaded approximate loaded,
       InstantSpeedMiBs = speed_mibs (loaded - prevLoaded) (secs (nowTs - prevTime)), AvgSpeedMiBs = avg,
       ElapsedMinutes = minutes_of totalSec, ElapsedSeconds = seconds_of totalSec,
       EstimatedTimeLeftMinutes = minutes_of etaSec, EstimatedTimeLeftSeconds = seconds_of etaSec\<rparr>)))"

section \<open>Text\<close>

text \<open>The bar of a thread's load; the constructor of \<open>std::string\<close> throws for a negative count, which is a huge \<open>size_t\<close>.\<close>

definition load_bar :: "rat \<Rightarrow> string result" where
  "load_bar load = rbind (to_int32 (fl (load * 10))) (\<lambda>filledBars.
     if filledBars < 0 \<or> 10 < filledBars then Inl (LogicError ''length_error'')
     else Inr (replicate (nat filledBars) CHR ''|'' @ replicate (nat (10 - filledBars)) CHR '' ''))"

text \<open>A non-negative number with two decimals, rounded to even as the library prints it.\<close>

definition fixed2 :: "rat \<Rightarrow> string" where
  "fixed2 x = (let n = nat (rne (x * 100)) in nat_str (n div 100) @ ''.'' @ (if n mod 100 < 10 then ''0'' else []) @ nat_str (n mod 100))"

definition GetFormattedSize :: "u64 \<Rightarrow> string" where
  "GetFormattedSize n = (let d = (\<lambda>u. fl (fl (of_nat (unat n)) / of_nat u)) in
     if 2 ^ 40 \<le> unat n then fixed2 (d (2 ^ 40)) @ '' TiB''
     else if 2 ^ 30 \<le> unat n then fixed2 (d (2 ^ 30)) @ '' GiB''
     else if 2 ^ 20 \<le> unat n then fixed2 (d (2 ^ 20)) @ '' MiB''
     else if 1024 \<le> unat n then fixed2 (d 1024) @ '' KiB''
     else nat_str (unat n) @ '' B'')"

text \<open>\<open>NumberOfMyCpus\<close>: the processors of the affinity mask, or the library's count when the mask cannot be read.\<close>

definition NumberOfMyCpus :: "bool list option \<Rightarrow> u64 \<Rightarrow> u64" where
  "NumberOfMyCpus affinity hardware_concurrency = (case affinity of None \<Rightarrow> hardware_concurrency | Some set_bits \<Rightarrow> of_nat (length (filter (\<lambda>b. b) set_bits)))"

section \<open>What the figures mean\<close>

lemma secs_mono: "a \<le> b \<Longrightarrow> secs a \<le> secs b"
  unfolding secs_def by (intro fl_mono divide_right_mono) simp_all

lemma secs_nonneg: "0 \<le> n \<Longrightarrow> 0 \<le> secs n"
  using secs_mono [of 0 n] by (simp add: secs_def)

lemma minutes_seconds: "0 \<le> n \<Longrightarrow> 60 * minutes_of n + seconds_of n = n \<and> 0 \<le> seconds_of n \<and> seconds_of n < 60"
  by (auto simp: minutes_of_def seconds_of_def minus_mult_div_eq_mod)

lemma to_int32_bounds: "to_int32 x = Inr n \<Longrightarrow> 0 \<le> x \<Longrightarrow> 0 \<le> n \<and> of_int n \<le> x \<and> x < of_int n + 1"
  by (auto simp: to_int32_def Let_def split: if_splits) linarith

lemma progress_mono: "startTs \<le> t \<Longrightarrow> t \<le> u \<Longrightarrow> progress_percent startTs e t \<le> progress_percent startTs e u"
proof -
  assume "startTs \<le> t" "t \<le> u"
  then have "secs (t - startTs) \<le> secs (u - startTs)" by (intro secs_mono) simp
  then have "0 < secs (e - startTs) \<Longrightarrow> fl (fl (secs (t - startTs) / secs (e - startTs)) * 100) \<le> fl (fl (secs (u - startTs) / secs (e - startTs)) * 100)"
    by (intro fl_mono mult_right_mono divide_right_mono) simp_all
  then show ?thesis by (auto simp: progress_percent_def Let_def)
qed

lemma progress_bounds: "startTs \<le> t \<Longrightarrow> 0 \<le> progress_percent startTs e t \<and> progress_percent startTs e t \<le> 100"
  using secs_nonneg [of "t - startTs"] by (auto simp: progress_percent_def Let_def intro!: fl_nonneg mult_nonneg_nonneg divide_nonneg_nonneg)

lemma progress_end: "e \<le> t \<Longrightarrow> progress_percent startTs e t = 100"
proof (cases "0 < secs (e - startTs)")
  case True
  assume "e \<le> t"
  then have "secs (e - startTs) \<le> secs (t - startTs)" by (intro secs_mono) simp
  then have "1 \<le> secs (t - startTs) / secs (e - startTs)" using True by simp
  then have "1 \<le> fl (secs (t - startTs) / secs (e - startTs))" using fl_mono fl_of_nat [of 1] by fastforce
  then have "100 \<le> fl (fl (secs (t - startTs) / secs (e - startTs)) * 100)" using fl_mono [of 100] fl_numeral by fastforce
  then show ?thesis using True by (simp add: progress_percent_def Let_def)
qed (simp add: progress_percent_def)

text \<open>
  (C37) The status line of a run: minutes and seconds add up to the whole seconds since the start and until the end (none once the end has passed),
  the progress is between 0 and 100 percent, never goes back, and is 100 from the end on; tpmC is computed from the time after the warm-up only.
\<close>

theorem run_status_correct:
  assumes "run_status w terminals inflight sts startTs warm e d t = Inr r" "startTs \<le> t"
  shows "(let el = 60 * ElapsedMinutesTotal r + ElapsedSecondsTotal r in 0 \<le> el \<and> of_int el \<le> secs (t - startTs) \<and> secs (t - startTs) < of_int el + 1)
    \<and> (let re = 60 * RemainingMinutesTotal r + RemainingSecondsTotal r in if e \<le> t then re = 0 else of_int re \<le> secs (e - t) \<and> secs (e - t) < of_int re + 1)
    \<and> 0 \<le> ElapsedSecondsTotal r \<and> ElapsedSecondsTotal r < 60 \<and> 0 \<le> RemainingSecondsTotal r \<and> RemainingSecondsTotal r < 60
    \<and> 0 \<le> ProgressPercentTotal r \<and> ProgressPercentTotal r \<le> 100 \<and> (e \<le> t \<longrightarrow> ProgressPercentTotal r = 100)
    \<and> (\<forall>u r'. t \<le> u \<longrightarrow> run_status w terminals inflight sts startTs warm e d u = Inr r' \<longrightarrow> ProgressPercentTotal r \<le> ProgressPercentTotal r')
    \<and> (\<not> d \<longrightarrow> status_Tpmc r = 0)"
proof -
  obtain el re where el: "to_int32 (secs (t - startTs)) = Inr el" and re: "to_int32 (secs (e - t)) = Inr re"
    and r: "ElapsedMinutesTotal r = minutes_of el" "ElapsedSecondsTotal r = seconds_of el" "RemainingMinutesTotal r = minutes_of (max 0 re)"
      "RemainingSecondsTotal r = seconds_of (max 0 re)" "ProgressPercentTotal r = progress_percent startTs e t" "\<not> d \<longrightarrow> status_Tpmc r = 0"
    using assms(1) by (auto simp: run_status_def Let_def tpmc_of_def)
  have e1: "0 \<le> el" "of_int el \<le> secs (t - startTs)" "secs (t - startTs) < of_int el + 1"
    using to_int32_bounds [OF el secs_nonneg] assms(2) by simp_all
  have r1: "if e \<le> t then max 0 re = 0 else of_int (max 0 re) \<le> secs (e - t) \<and> secs (e - t) < of_int (max 0 re) + 1"
  proof (cases "e \<le> t")
    case True
    then have "secs (e - t) \<le> 0" using secs_mono [of "e - t" 0] by (simp add: secs_def)
    then have "re \<le> 0" using re by (auto simp: to_int32_def Let_def split: if_splits) 
    then show ?thesis using True by simp
  next
    case False
    then show ?thesis using to_int32_bounds [OF re secs_nonneg] by (simp add: max_def)
  qed
  have "ProgressPercentTotal r \<le> ProgressPercentTotal r'" if "t \<le> u" "run_status w terminals inflight sts startTs warm e d u = Inr r'" for u r'
    using progress_mono [OF assms(2) that(1), of e] that(2) r(5) by (auto simp: run_status_def Let_def)
  then show ?thesis
    using minutes_seconds [OF e1(1)] minutes_seconds [of "max 0 re"] e1 r1 r progress_bounds [OF assms(2), of e] progress_end [of e t startTs]
    by (simp add: Let_def)
qed

theorem run_status_correct_witness:
  "\<exists>r. run_status 1 10 0 [] 0 0 90000000000 False 75000000000 = Inr r
     \<and> 60 * ElapsedMinutesTotal r + ElapsedSecondsTotal r = 75 \<and> 60 * RemainingMinutesTotal r + RemainingSecondsTotal r = 15
     \<and> ProgressPercentTotal r \<le> 100 \<and> status_Tpmc r = 0"
proof -
  have s: "secs 75000000000 = 75" "secs 15000000000 = 15" by code_simp+
  have "to_int32 75 = Inr 75" "to_int32 15 = Inr 15" by (simp_all add: to_int32_def)
  then obtain r where r: "run_status 1 10 0 [] 0 0 90000000000 False 75000000000 = Inr r"
    "60 * ElapsedMinutesTotal r + ElapsedSecondsTotal r = 75" "60 * RemainingMinutesTotal r + RemainingSecondsTotal r = 15"
    by (simp add: run_status_def s Let_def minutes_of_def seconds_of_def)
  then show ?thesis using run_status_correct [OF r(1)] by auto
qed

text \<open>An import never shows more than all of it, unless it loaded more than estimated.\<close>

lemma percent_bounds: "unat loaded \<le> unat approximate \<Longrightarrow> unat approximate < 2 ^ 46 \<Longrightarrow> 0 \<le> percent_loaded approximate loaded \<and> percent_loaded approximate loaded \<le> 100"
proof -
  assume a: "unat loaded \<le> unat approximate" "unat approximate < 2 ^ 46"
  have f: "fl (of_nat (unat loaded)) = of_nat (unat loaded)" "fl (of_nat (unat approximate)) = of_nat (unat approximate)"
    by (rule fl_of_nat, use a in simp)+
  have "fl (of_nat (100 * unat loaded)) = of_nat (100 * unat loaded)" by (rule fl_of_nat) (use a in simp)
  then have h: "fl (100 * of_nat (unat loaded)) = 100 * of_nat (unat loaded)" by simp
  show ?thesis
  proof (cases "0 < unat approximate")
    case True
    have "100 * rat_of_nat m / of_nat n \<le> 100" if "m \<le> n" "0 < n" for m n using that by (simp add: divide_le_eq)
    from this [OF a(1) True] have "100 * rat_of_nat (unat loaded) / of_nat (unat approximate) \<le> 100" .
    then have "fl (100 * of_nat (unat loaded) / of_nat (unat approximate)) \<le> 100" using fl_of_nat_le [of _ 100] by simp
    moreover have "0 \<le> fl (100 * rat_of_nat m / of_nat n)" for m n by (rule fl_nonneg) simp
    ultimately show ?thesis using True f h by (simp add: percent_loaded_def word_less_nat_alt del: of_nat_unat)
  qed (simp add: percent_loaded_def word_less_nat_alt)
qed

text \<open>The bar of a load up to one has ten characters; from eleven tenths on it throws, in the thread that draws the screen.\<close>

lemma load_bar_width: "0 \<le> load \<Longrightarrow> load \<le> 1 \<Longrightarrow> \<exists>bar. load_bar load = Inr bar \<and> length bar = 10"
proof -
  assume l: "0 \<le> load" "load \<le> 1"
  have b: "0 \<le> fl (load * 10)" "fl (load * 10) \<le> 10" using l fl_of_nat_le [of "load * 10" 10] by (auto intro: fl_nonneg)
  then obtain n where "\<lfloor>fl (load * 10)\<rfloor> = n" "0 \<le> n" "n \<le> 10" by (simp add: floor_le_iff)
  then show ?thesis using b(1) by (auto simp: load_bar_def to_int32_def Let_def)
qed

lemma load_bar_throws: "11 / 10 \<le> load \<Longrightarrow> load \<le> 1000 \<Longrightarrow> load_bar load = Inl (LogicError ''length_error'')"
proof -
  assume l: "11 / 10 \<le> load" "load \<le> 1000"
  have "11 \<le> fl (load * 10)" using l fl_mono [of 11 "load * 10"] fl_numeral [of "Num.Bit1 (Num.Bit1 (Num.Bit0 num.One))"] by simp
  moreover have "fl (load * 10) \<le> 10000" using l fl_of_nat_le [of "load * 10" 10000] by simp
  ultimately have "11 \<le> \<lfloor>fl (load * 10)\<rfloor>" "\<lfloor>fl (load * 10)\<rfloor> \<le> 10000" by (simp_all add: le_floor_iff floor_le_iff)
  then show ?thesis using \<open>11 \<le> fl (load * 10)\<close> by (simp add: load_bar_def to_int32_def Let_def)
qed

section \<open>Recorded latencies\<close>

lemma rfold_record: "represents h M \<Longrightarrow> \<exists>h'. rfold RecordValue vs h = Inr h' \<and> represents h' (M + mset vs)"
proof (induction vs arbitrary: h M)
  case (Cons v vs)
  obtain h1 where "RecordValue v h = Inr h1" "represents h1 (add_mset v M)" using RecordValue_represents [OF Cons.prems] by blast
  then show ?case using Cons.IH [of h1 "add_mset v M"] by simp
qed simp

lemma record_if_represents: "represents h M \<Longrightarrow> \<exists>h'. record_if v h = Inr h' \<and> represents h' (M + (case v of None \<Rightarrow> {#} | Some x \<Rightarrow> {#x#}))"
  using RecordValue_represents [of h M] by (cases v) (auto simp: record_if_def)

text \<open>The statistics of a thread hold the queue times of all its iterations and count the resumed tasks.\<close>

definition thread_records :: "TThreadStats \<Rightarrow> u64 multiset \<Rightarrow> u64 multiset \<Rightarrow> u64 multiset \<Rightarrow> bool" where
  "thread_records st A B C \<longleftrightarrow> represents (InternalInflightWaitTimeMs st) A \<and> represents (InternalQueueTimeMs st) B \<and> represents (ExternalQueueTimeMs st) C"

definition opt_values :: "u64 option list \<Rightarrow> u64 multiset" where
  "opt_values vs = mset (List.map_filter (\<lambda>v. v) vs)"

lemma iterations_recorded:
  "thread_records st A B C \<Longrightarrow> \<exists>st'. rfold record_iteration its st = Inr st'
     \<and> thread_records st' (A + opt_values (map it_inflight_ms its)) (B + opt_values (map it_internal_ms its)) (C + mset (concat (map it_external_ms its)))
     \<and> ExternalTasksResumed st' = ExternalTasksResumed st + vsize (concat (map it_external_ms its))"
proof (induction its arbitrary: st A B C)
  case (Cons it its)
  obtain h1 h2 h3 where h: "record_if (it_inflight_ms it) (InternalInflightWaitTimeMs st) = Inr h1" "record_if (it_internal_ms it) (InternalQueueTimeMs st) = Inr h2"
    "rfold RecordValue (it_external_ms it) (ExternalQueueTimeMs st) = Inr h3"
    and r: "represents h1 (A + (case it_inflight_ms it of None \<Rightarrow> {#} | Some x \<Rightarrow> {#x#}))" "represents h2 (B + (case it_internal_ms it of None \<Rightarrow> {#} | Some x \<Rightarrow> {#x#}))"
      "represents h3 (C + mset (it_external_ms it))"
    using Cons.prems record_if_represents rfold_record unfolding thread_records_def by metis
  obtain st1 where st1: "record_iteration it st = Inr st1" "InternalInflightWaitTimeMs st1 = h1" "InternalQueueTimeMs st1 = h2" "ExternalQueueTimeMs st1 = h3"
    "ExternalTasksResumed st1 = ExternalTasksResumed st + vsize (it_external_ms it)" using h by (simp add: record_iteration_def)
  have "thread_records st1 (A + (case it_inflight_ms it of None \<Rightarrow> {#} | Some x \<Rightarrow> {#x#})) (B + (case it_internal_ms it of None \<Rightarrow> {#} | Some x \<Rightarrow> {#x#})) (C + mset (it_external_ms it))"
    using r st1 by (simp add: thread_records_def)
  from Cons.IH [OF this] obtain st' where st': "rfold record_iteration its st1 = Inr st'"
    "thread_records st' (A + (case it_inflight_ms it of None \<Rightarrow> {#} | Some x \<Rightarrow> {#x#}) + opt_values (map it_inflight_ms its))
       (B + (case it_internal_ms it of None \<Rightarrow> {#} | Some x \<Rightarrow> {#x#}) + opt_values (map it_internal_ms its)) (C + mset (it_external_ms it) + mset (concat (map it_external_ms its)))"
    "ExternalTasksResumed st' = ExternalTasksResumed st1 + vsize (concat (map it_external_ms its))" by blast
  have o: "opt_values (v # vs) = (case v of None \<Rightarrow> {#} | Some x \<Rightarrow> {#x#}) + opt_values vs" for v vs
    by (cases v) (simp_all add: opt_values_def map_filter_simps)
  show ?case using st1 st' by (simp add: o vsize_def algebra_simps)
qed (simp add: opt_values_def map_filter_simps vsize_def)

end
