(* ===== verification/Async.thy ===== *)
theory Async
  imports Prelude "HOL-Library.Multiset" "HOL-Library.Sublist"
begin

text \<open>
  Futures (\<open>src/src/future.h\<close>), the pool of IO threads (\<open>src/src/thread_pool.h\<close>) and the spin lock
  (\<open>src/src/spinlock.h\<close>). What runs under a mutex is one step; what comes after its release is a step of its own, so other
  threads may come in between. A callback and a task are names; \<open>TSharedState<void>\<close> is the instance at \<open>unit\<close>.
\<close>

section \<open>Futures\<close>

record ('a, 'c) TSharedState =
  FValue :: "'a option"
  FException :: "exn option"
  IsSet :: bool
  Callbacks :: "'c list"

definition new_TSharedState :: "('a, 'c) TSharedState" where
  "new_TSharedState = \<lparr>FValue = None, FException = None, IsSet = False, Callbacks = []\<rparr>"

text \<open>Both return the callbacks that the caller then calls.\<close>

definition SetValue :: "'a \<Rightarrow> ('a, 'c) TSharedState \<Rightarrow> ('c list \<times> ('a, 'c) TSharedState) result" where
  "SetValue v st = (if IsSet st then Inl (LogicError ''TSharedState::SetValue called on already-set state'')
     else Inr (Callbacks st, st\<lparr>FValue := Some v, IsSet := True, Callbacks := []\<rparr>))"

definition SetException :: "exn \<Rightarrow> ('a, 'c) TSharedState \<Rightarrow> ('c list \<times> ('a, 'c) TSharedState) result" where
  "SetException ex st = (if IsSet st then Inl (LogicError ''TSharedState::SetException called on already-set state'')
     else Inr (Callbacks st, st\<lparr>FException := Some ex, IsSet := True, Callbacks := []\<rparr>))"

text \<open>\<open>True\<close>: the caller calls the callback itself.\<close>

definition AddCallback :: "'c \<Rightarrow> ('a, 'c) TSharedState \<Rightarrow> bool \<times> ('a, 'c) TSharedState" where
  "AddCallback cb st = (if IsSet st then (True, st) else (False, st\<lparr>Callbacks := Callbacks st @ [cb]\<rparr>))"

definition Ready :: "('a, 'c) TSharedState \<Rightarrow> bool" where "Ready st = IsSet st"

text \<open>
  \<open>None\<close>: the caller waits. The value is moved out: the cell keeps what the move constructor of \<open>T\<close> leaves behind, which is
  the parameter \<open>moved\<close> (the identity for \<open>bool\<close>, an empty container for a result set). An exception is rethrown and stays.
\<close>

definition Get :: "('a \<Rightarrow> 'a) \<Rightarrow> ('a, 'c) TSharedState \<Rightarrow> ('a result \<times> ('a, 'c) TSharedState) option" where
  "Get moved st = (if \<not> IsSet st then None
     else case FException st of Some e \<Rightarrow> Some (Inl e, st)
     | None \<Rightarrow> (case FValue st of Some v \<Rightarrow> Some (Inr v, st\<lparr>FValue := Some (moved v)\<rparr>) | None \<Rightarrow> Some (Inl (UB ''*Value''), st)))"

text \<open>\<open>TSharedState<void>\<close>, and the handles: a future without a state ignores a subscription and is never ready.\<close>

definition SetValue_void :: "(unit, 'c) TSharedState \<Rightarrow> ('c list \<times> (unit, 'c) TSharedState) result" where
  "SetValue_void st = SetValue () st"

definition Subscribe :: "'c \<Rightarrow> ('a, 'c) TSharedState option \<Rightarrow> bool \<times> ('a, 'c) TSharedState option" where
  "Subscribe callback State = (case State of None \<Rightarrow> (False, None) | Some st \<Rightarrow> apsnd Some (AddCallback callback st))"

definition IsReady :: "('a, 'c) TSharedState option \<Rightarrow> bool" where
  "IsReady State = (case State of None \<Rightarrow> False | Some st \<Rightarrow> Ready st)"

text \<open>\<open>Get\<close> of a handle: \<open>TFuture<T>\<close> dereferences its state unchecked, \<open>TFuture<void>\<close> does nothing without one.\<close>

definition TFuture_Get :: "('a \<Rightarrow> 'a) \<Rightarrow> ('a, 'c) TSharedState option \<Rightarrow> ('a result \<times> ('a, 'c) TSharedState option) option" where
  "TFuture_Get moved State = (case State of None \<Rightarrow> Some (Inl (UB ''State''), None) | Some st \<Rightarrow> map_option (apsnd Some) (Get moved st))"

definition TFuture_Get_void :: "(unit, 'c) TSharedState option \<Rightarrow> (unit result \<times> (unit, 'c) TSharedState option) option" where
  "TFuture_Get_void State = (case State of None \<Rightarrow> Some (Inr (), None) | Some st \<Rightarrow> map_option (apsnd Some) (Get id st))"

text \<open>
  The shared state with the callbacks that are about to be called and those that have been called; \<open>set_to\<close>: what the
  future was set to; \<open>reads\<close>: what the calls of \<open>Get\<close> have returned or thrown so far.
\<close>

record ('a, 'c) future =
  state :: "('a, 'c) TSharedState"
  pending_calls :: "'c multiset"
  called :: "'c list"
  subscribed :: "'c multiset"
  set_to :: "'a result option"
  reads :: "'a result list"

inductive future_step :: "('a \<Rightarrow> 'a) \<Rightarrow> ('a, 'c) future \<Rightarrow> ('a, 'c) future \<Rightarrow> bool" for moved where
  subscribe: "AddCallback cb (state f) = (now, st) \<Longrightarrow>
    future_step moved f (f\<lparr>state := st, pending_calls := (if now then {#cb#} else {#}) + pending_calls f, subscribed := add_mset cb (subscribed f)\<rparr>)"
| set_value: "SetValue v (state f) = Inr (cbs, st) \<Longrightarrow>
    future_step moved f (f\<lparr>state := st, pending_calls := mset cbs + pending_calls f, set_to := Some (Inr v)\<rparr>)"
| set_exception: "SetException ex (state f) = Inr (cbs, st) \<Longrightarrow>
    future_step moved f (f\<lparr>state := st, pending_calls := mset cbs + pending_calls f, set_to := Some (Inl ex)\<rparr>)"
| call: "cb \<in># pending_calls f \<Longrightarrow> future_step moved f (f\<lparr>pending_calls := pending_calls f - {#cb#}, called := called f @ [cb]\<rparr>)"
| get: "Get moved (state f) = Some (r, st) \<Longrightarrow> future_step moved f (f\<lparr>state := st, reads := reads f @ [r]\<rparr>)"

definition future_init :: "('a, 'c) future" where
  "future_init = \<lparr>state = new_TSharedState, pending_calls = {#}, called = [], subscribed = {#}, set_to = None, reads = []\<rparr>"

text \<open>What the \<open>n\<close>-th reading gives of a future set to \<open>r\<close>.\<close>

definition reading :: "('a \<Rightarrow> 'a) \<Rightarrow> 'a result \<Rightarrow> nat \<Rightarrow> 'a result" where
  "reading moved r n = map_sum id (moved ^^ n) r"

lemma reading_0 [simp]: "reading moved r 0 = r"
  by (cases r) (simp_all add: reading_def)

definition future_inv :: "('a \<Rightarrow> 'a) \<Rightarrow> ('a, 'c) future \<Rightarrow> bool" where
  "future_inv moved f \<longleftrightarrow> subscribed f = mset (Callbacks (state f)) + pending_calls f + mset (called f)
     \<and> (case set_to f of
          None \<Rightarrow> \<not> IsSet (state f) \<and> pending_calls f = {#} \<and> called f = [] \<and> FException (state f) = None \<and> FValue (state f) = None \<and> reads f = []
        | Some r \<Rightarrow> IsSet (state f) \<and> Callbacks (state f) = [] \<and> reads f = map (reading moved r) [0..<length (reads f)]
            \<and> (case r of Inl e \<Rightarrow> FException (state f) = Some e
               | Inr v \<Rightarrow> FException (state f) = None \<and> FValue (state f) = Some ((moved ^^ length (reads f)) v)))"

lemma future_inv_Get:
  assumes "future_inv moved f" "set_to f = Some r"
  shows "\<exists>st. Get moved (state f) = Some (reading moved r (length (reads f)), st)"
  using assms by (cases r) (auto simp: future_inv_def Get_def reading_def)

lemma future_step_inv: "future_step moved f f' \<Longrightarrow> future_inv moved f \<Longrightarrow> future_inv moved f'"
proof (induction rule: future_step.induct)
  case (call cb f)
  then obtain M where "pending_calls f = add_mset cb M" by (metis mset_add)
  then show ?case using call by (auto simp: future_inv_def split: option.splits sum.splits)
next
  case (get f r st)
  then obtain r0 where s: "set_to f = Some r0" by (auto simp: future_inv_def Get_def split: option.splits if_splits)
  then have r: "r = reading moved r0 (length (reads f))" using future_inv_Get [OF get.prems s] get.hyps by auto
  then show ?case using get s by (cases r0) (auto simp: future_inv_def Get_def split: option.splits if_splits)
qed (auto simp: future_inv_def AddCallback_def SetValue_def SetException_def split: option.splits if_splits sum.splits)

lemma future_run_inv: "(future_step moved)\<^sup>*\<^sup>* f f' \<Longrightarrow> future_inv moved f \<Longrightarrow> future_inv moved f'"
  by (induction rule: rtranclp_induct) (auto intro: future_step_inv)

lemma future_step_set_to: "future_step moved f f' \<Longrightarrow> future_inv moved f \<Longrightarrow> set_to f = Some r \<Longrightarrow> set_to f' = Some r"
  by (induction rule: future_step.induct) (auto simp: future_inv_def SetValue_def SetException_def split: if_splits)

lemma future_run_set_to:
  assumes "(future_step moved)\<^sup>*\<^sup>* f f'" "future_inv moved f" "set_to f = Some r"
  shows "set_to f' = Some r"
  using assms by (induction rule: rtranclp_induct) (auto intro: future_step_set_to future_run_inv)

text \<open>
  (C29) However subscriptions, the setting of the future and calls of \<open>Get\<close> interleave: no callback is called before the future is set; none is lost
  or called twice, so that once it is set and no call is outstanding each subscription has been called exactly once. \<open>Get\<close> waits exactly until
  the future is set, and the future is set once: from then on the first \<open>Get\<close> gives the value or exception it was set to. An
  exception is rethrown by every later \<open>Get\<close> too; a value has been moved out by then, and a later \<open>Get\<close> gives what the move left behind.
\<close>

theorem callbacks_called_once:
  assumes "(future_step moved)\<^sup>*\<^sup>* future_init f" "(future_step moved)\<^sup>*\<^sup>* f f'"
  shows "(Get moved (state f) = None \<longleftrightarrow> set_to f = None) \<and> (Ready (state f) \<longleftrightarrow> set_to f \<noteq> None)
    \<and> (set_to f = None \<longrightarrow> called f = [])
    \<and> (Ready (state f) \<and> pending_calls f = {#} \<longrightarrow> mset (called f) = subscribed f)
    \<and> (\<forall>r. set_to f = Some r \<longrightarrow> set_to f' = Some r
         \<and> (\<forall>i < length (reads f'). reads f' ! i = (case r of Inl e \<Rightarrow> Inl e | Inr v \<Rightarrow> Inr ((moved ^^ i) v))))"
proof -
  have i: "future_inv moved future_init" by (simp add: future_inv_def future_init_def new_TSharedState_def)
  then have inv: "future_inv moved f" by (rule future_run_inv [OF assms(1)])
  have inv': "future_inv moved f'" by (rule future_run_inv [OF assms(2) inv])
  have g: "Get moved (state f) = None \<longleftrightarrow> set_to f = None" "Ready (state f) \<longleftrightarrow> set_to f \<noteq> None"
    using inv by (auto simp: future_inv_def Get_def Ready_def split: option.splits)
  have "reads f' ! i = (case r of Inl e \<Rightarrow> Inl e | Inr v \<Rightarrow> Inr ((moved ^^ i) v))"
    if "set_to f' = Some r" "i < length (reads f')" for r i
  proof -
    have "reads f' = map (reading moved r) [0..<length (reads f')]" using inv' that(1) by (simp add: future_inv_def)
    then have "reads f' ! i = reading moved r i" using that(2) by (metis nth_map_upt add.left_neutral diff_zero)
    then show ?thesis by (cases r) (simp_all add: reading_def)
  qed
  then show ?thesis using g inv future_run_set_to [OF assms(2) inv]
    by (auto simp: future_inv_def split: option.splits)
qed

text \<open>A vector is set, awaited by one callback, and read twice: the second reading gives the moved-from vector.\<close>

theorem callbacks_called_once_witness:
  "\<exists>f :: (int list, nat) future. (future_step (\<lambda>_. []))\<^sup>*\<^sup>* future_init f \<and> pending_calls f = {#} \<and> called f = [1] \<and> mset (called f) = subscribed f
     \<and> length (reads f) = 2 \<and> reads f ! 0 = Inr [7, 8] \<and> reads f ! 1 = Inr []"
proof -
  let ?f0 = "future_init :: (int list, nat) future"
  let ?f1 = "?f0\<lparr>state := new_TSharedState\<lparr>Callbacks := [1]\<rparr>, subscribed := {#1#}\<rparr>"
  let ?set = "\<lambda>v :: int list. \<lparr>FValue = Some v, FException = None, IsSet = True, Callbacks = []\<rparr> :: (int list, nat) TSharedState"
  let ?f2 = "?f1\<lparr>state := ?set [7, 8], pending_calls := {#1#}, set_to := Some (Inr [7, 8])\<rparr>"
  let ?f3 = "?f2\<lparr>pending_calls := {#}, called := [1]\<rparr>"
  let ?f4 = "?f3\<lparr>state := ?set [], reads := [Inr [7, 8]]\<rparr>"
  let ?f5 = "?f4\<lparr>state := ?set [], reads := [Inr [7, 8], Inr []]\<rparr>"
  let ?step = "future_step (\<lambda>_. [])"
  have s1: "?step ?f0 ?f1"
    using future_step.subscribe [of 1 ?f0 False "new_TSharedState\<lparr>Callbacks := [1]\<rparr>"]
    by (simp add: future_init_def new_TSharedState_def AddCallback_def)
  have s2: "?step ?f1 ?f2"
    using future_step.set_value [of "[7, 8]" ?f1 "[1]"] by (simp add: future_init_def new_TSharedState_def SetValue_def)
  have s3: "?step ?f2 ?f3" using future_step.call [of 1 ?f2] by (simp add: future_init_def)
  have s4: "?step ?f3 ?f4" using future_step.get [of "\<lambda>_. []" ?f3 "Inr [7, 8]" "?set []"] by (simp add: future_init_def Get_def)
  have s5: "?step ?f4 ?f5" using future_step.get [of "\<lambda>_. []" ?f4 "Inr []" "?set []"] by (simp add: future_init_def Get_def)
  have run: "?step\<^sup>*\<^sup>* ?f0 ?f5" using s1 s2 s3 s4 s5 by (meson converse_rtranclp_into_rtranclp rtranclp.rtrancl_refl)
  show ?thesis using run callbacks_called_once [OF run rtranclp.rtrancl_refl]
    by (intro exI [of _ ?f5]) (simp add: Ready_def future_init_def)
qed

section \<open>The pool of threads\<close>

datatype 't worker = Waiting | Working 't | Exited

text \<open>\<open>started\<close>, \<open>submitted\<close>: the tasks taken and queued so far; \<open>at_stop\<close>: those queued when \<open>Join\<close> was called.\<close>

record 't TThreadPool =
  Threads :: "'t worker list"
  Tasks :: "'t list"
  Stopped :: bool
  submitted :: "'t list"
  started :: "'t list"
  completed :: "'t list"
  at_stop :: "'t list"

definition new_TThreadPool :: "nat \<Rightarrow> 't TThreadPool" where
  "new_TThreadPool threadCount = \<lparr>Threads = replicate threadCount Waiting, Tasks = [], Stopped = False, submitted = [], started = [],
     completed = [], at_stop = []\<rparr>"

definition Submit :: "'t \<Rightarrow> 't TThreadPool \<Rightarrow> 't TThreadPool" where
  "Submit t p = p\<lparr>Tasks := Tasks p @ [t], submitted := submitted p @ [t]\<rparr>"

definition request_join :: "'t TThreadPool \<Rightarrow> 't TThreadPool" where
  "request_join p = (if Stopped p then p else p\<lparr>Stopped := True, at_stop := submitted p\<rparr>)"

text \<open>One pass of \<open>WorkerLoop\<close> under the mutex; \<open>None\<close>: the worker waits.\<close>

definition worker_take :: "nat \<Rightarrow> 't TThreadPool \<Rightarrow> 't TThreadPool option" where
  "worker_take i p = (case Tasks p of
       [] \<Rightarrow> if Stopped p then Some (p\<lparr>Threads := (Threads p)[i := Exited]\<rparr>) else None
     | t # ts \<Rightarrow> Some (p\<lparr>Tasks := ts, Threads := (Threads p)[i := Working t], started := started p @ [t]\<rparr>))"

inductive pool_step :: "'t TThreadPool \<Rightarrow> 't TThreadPool \<Rightarrow> bool" where
  submit: "pool_step p (Submit t p)"
| join: "pool_step p (request_join p)"
| take: "i < length (Threads p) \<Longrightarrow> Threads p ! i = Waiting \<Longrightarrow> worker_take i p = Some p' \<Longrightarrow> pool_step p p'"
| complete: "i < length (Threads p) \<Longrightarrow> Threads p ! i = Working t \<Longrightarrow>
    pool_step p (p\<lparr>Threads := (Threads p)[i := Waiting], completed := completed p @ [t]\<rparr>)"

fun working :: "'t worker \<Rightarrow> 't multiset" where
  "working (Working t) = {#t#}"
| "working _ = {#}"

definition pool_inv :: "'t TThreadPool \<Rightarrow> bool" where
  "pool_inv p \<longleftrightarrow> submitted p = started p @ Tasks p \<and> mset (started p) = mset (completed p) + sum_list (map working (Threads p))
     \<and> prefix (at_stop p) (submitted p) \<and> (Exited \<in> set (Threads p) \<longrightarrow> prefix (at_stop p) (started p) \<and> Stopped p)"

lemma pool_step_inv: "pool_step p p' \<Longrightarrow> pool_inv p \<Longrightarrow> pool_inv p'"
proof (induction rule: pool_step.induct)
  case (take i p p')
  have u: "sum_list (map working ((Threads p)[i := x])) = sum_list (map working (Threads p)) + working x" for x
    using sum_list_update_eq [of i "Threads p" working x] take(1,2) by simp
  have "set ((Threads p)[i := x]) \<subseteq> insert x (set (Threads p))" for x by (rule set_update_subset_insert)
  then show ?case using take u by (fastforce simp: pool_inv_def worker_take_def split: list.splits if_splits)
next
  case (complete i p t)
  have "sum_list (map working ((Threads p)[i := Waiting])) + {#t#} = sum_list (map working (Threads p))"
    using sum_list_update_eq [of i "Threads p" working Waiting] complete(1,2) by simp
  moreover have "Exited \<in> set ((Threads p)[i := Waiting]) \<Longrightarrow> Exited \<in> set (Threads p)"
    using set_update_subset_insert [of "Threads p" i Waiting] by auto
  ultimately show ?case using complete.prems by (auto simp: pool_inv_def)
next
  case (submit p t)
  then show ?case using prefix_prefix [of "at_stop p" "started p @ Tasks p" "[t]"] by (auto simp: pool_inv_def Submit_def)
qed (auto simp: pool_inv_def request_join_def)

lemma pool_run_inv: "pool_step\<^sup>*\<^sup>* p p' \<Longrightarrow> pool_inv p \<Longrightarrow> pool_inv p'"
  by (induction rule: rtranclp_induct) (auto intro: pool_step_inv)

text \<open>
  (C30) The tasks are started in the order of their submission, and when every worker has exited, as \<open>Join\<close> waits for, each
  started task has been completed once and every task that was submitted before \<open>Join\<close> was called is among them.
\<close>

theorem join_runs_all_tasks:
  assumes "0 < n" "pool_step\<^sup>*\<^sup>* (new_TThreadPool n) p" "list_all (\<lambda>w. w = Exited) (Threads p)"
  shows "Stopped p \<and> submitted p = started p @ Tasks p \<and> mset (completed p) = mset (started p) \<and> prefix (at_stop p) (started p)"
proof -
  have "sum_list (map working (replicate n Waiting)) = {#}" by (induction n) simp_all
  then have "pool_inv (new_TThreadPool n)" by (auto simp: pool_inv_def new_TThreadPool_def)
  then have inv: "pool_inv p" by (rule pool_run_inv [OF assms(2)])
  have len: "length (Threads p) = n" using assms(2)
  proof (induction rule: rtranclp_induct)
    case (step p1 p2)
    then show ?case by (auto elim!: pool_step.cases simp: Submit_def request_join_def worker_take_def split: list.splits if_splits)
  qed (simp add: new_TThreadPool_def)
  have all: "Threads p = replicate n Exited" using assms(3) len by (simp add: list_all_iff replicate_eqI)
  moreover have "sum_list (map working (replicate n Exited)) = {#}" by (induction n) simp_all
  ultimately have "sum_list (map working (Threads p)) = {#}" by simp
  then show ?thesis using inv all assms(1) by (auto simp: pool_inv_def)
qed

theorem join_runs_all_tasks_witness:
  "\<exists>p. pool_step\<^sup>*\<^sup>* (new_TThreadPool 1) p \<and> Threads p = [Exited] \<and> at_stop p = [7 :: nat] \<and> mset (completed p) = {#7#}"
proof -
  let ?p0 = "new_TThreadPool 1 :: nat TThreadPool"
  let ?p1 = "Submit 7 ?p0"
  let ?p2 = "request_join ?p1"
  let ?p3 = "?p2\<lparr>Tasks := [], Threads := [Working 7], started := [7]\<rparr>"
  let ?p4 = "?p3\<lparr>Threads := [Waiting], completed := [7]\<rparr>"
  let ?p5 = "?p4\<lparr>Threads := [Exited]\<rparr>"
  have s: "pool_step ?p0 ?p1" "pool_step ?p1 ?p2" by (rule pool_step.submit, rule pool_step.join)
  have s3: "pool_step ?p2 ?p3"
    by (rule pool_step.take [of 0]) (simp_all add: worker_take_def request_join_def Submit_def new_TThreadPool_def)
  have s4: "pool_step ?p3 ?p4"
    using pool_step.complete [of 0 ?p3 7] by (simp add: request_join_def Submit_def new_TThreadPool_def)
  have s5: "pool_step ?p4 ?p5"
    by (rule pool_step.take [of 0]) (simp_all add: worker_take_def request_join_def Submit_def new_TThreadPool_def)
  have run: "pool_step\<^sup>*\<^sup>* ?p0 ?p5" using s s3 s4 s5 by (meson converse_rtranclp_into_rtranclp rtranclp.rtrancl_refl)
  show ?thesis using run join_runs_all_tasks [OF _ run]
    by (intro exI [of _ ?p5]) (simp add: request_join_def Submit_def new_TThreadPool_def)
qed

section \<open>The spin lock\<close>

text \<open>The lock word and, per thread, where it is: outside, in the inner loop of \<open>Acquire\<close>, or inside.\<close>

definition TryAcquire :: "bool \<Rightarrow> bool \<times> bool" where
  "TryAcquire val = (\<not> val, True)"

definition Release :: "bool \<Rightarrow> bool" where
  "Release val = False"

datatype lock_pc = Outside | Spinning | Inside

inductive lock_step :: "bool \<times> lock_pc list \<Rightarrow> bool \<times> lock_pc list \<Rightarrow> bool" where
  attempt: "i < length ts \<Longrightarrow> ts ! i = Outside \<Longrightarrow> TryAcquire val = (ok, val') \<Longrightarrow>
    lock_step (val, ts) (val', ts[i := if ok then Inside else Spinning])"
| spin: "i < length ts \<Longrightarrow> ts ! i = Spinning \<Longrightarrow> lock_step (val, ts) (val, ts[i := if val then Spinning else Outside])"
| unlock: "i < length ts \<Longrightarrow> ts ! i = Inside \<Longrightarrow> lock_step (val, ts) (Release val, ts[i := Outside])"

definition inside :: "lock_pc list \<Rightarrow> nat" where
  "inside ts = sum_list (map (\<lambda>t. if t = Inside then 1 else 0) ts)"

lemma inside_update: "i < length ts \<Longrightarrow> inside (ts[i := t]) + (if ts ! i = Inside then 1 else 0) = inside ts + (if t = Inside then 1 else 0)"
  unfolding inside_def by (rule sum_list_update_eq)

text \<open>At most one thread is inside, and the lock word says whether one is.\<close>

lemma lock_exclusive: "lock_step\<^sup>*\<^sup>* (False, replicate n Outside) (val, ts) \<Longrightarrow> inside ts = (if val then 1 else 0)"
proof (induction rule: rtranclp_induct2)
  case refl
  show ?case by (induction n) (simp_all add: inside_def)
next
  case (step val ts val' ts')
  from step.hyps(2) step.IH show ?case
    by cases (use inside_update in \<open>fastforce simp: TryAcquire_def Release_def split: if_splits\<close>)+
qed

end
