(* ===== verification/Awaiters.thy ===== *)
theory Awaiters
  imports Async TaskQueue
begin

text \<open>
  What \<open>co_await\<close> does in the benchmark: the awaiters of \<open>src/src/task_queue.h\<close>, by which a coroutine gives up its thread, and the promise types of
  \<open>src/src/coro_traits.h\<close>, by which its result becomes a future. \<open>await_suspend\<close> says whether the coroutine stays suspended.
\<close>

section \<open>Awaiters of the task queue\<close>

definition AsyncSleep_ms :: "nat \<Rightarrow> nat \<Rightarrow> int \<Rightarrow> int \<Rightarrow> TTaskQueue \<Rightarrow> TTaskQueue result" where
  "AsyncSleep_ms handle threadHint delay_ms now q = AsyncSleep handle threadHint (delay_ms * 1000) now q"

definition TSuspend_suspend :: "nat \<Rightarrow> int \<Rightarrow> nat \<Rightarrow> int \<Rightarrow> TTaskQueue \<Rightarrow> (bool \<times> TTaskQueue) result" where
  "TSuspend_suspend threadHint delay handle now q = rbind (AsyncSleep handle threadHint delay now q) (\<lambda>q1. Inr (True, q1))"

definition TTaskReady_suspend :: "nat \<Rightarrow> bool \<Rightarrow> nat \<Rightarrow> int \<Rightarrow> TTaskQueue \<Rightarrow> (bool \<times> TTaskQueue) result" where
  "TTaskReady_suspend threadHint currentThread handle now q = (if currentThread then Inr (False, q)
     else rbind (TaskReadyThreadSafe handle threadHint now q) (\<lambda>q1. Inr (True, q1)))"

definition TYield_suspend :: "nat \<Rightarrow> nat \<Rightarrow> int \<Rightarrow> TTaskQueue \<Rightarrow> (bool \<times> TTaskQueue) result" where
  "TYield_suspend threadHint handle now q = rbind (TaskReady handle threadHint now q) (\<lambda>q1. Inr (True, q1))"

definition TTaskHasInflight_suspend :: "nat \<Rightarrow> nat \<Rightarrow> int \<Rightarrow> TTaskQueue \<Rightarrow> (bool \<times> TTaskQueue) result" where
  "TTaskHasInflight_suspend threadHint handle now q = IncInflight handle threadHint now q"

section \<open>The promise of a coroutine\<close>

text \<open>How the body ends: with \<open>co_return\<close>, or with an exception that it did not handle.\<close>

definition return_value :: "'a \<Rightarrow> ('a, 'c) TSharedState \<Rightarrow> ('c list \<times> ('a, 'c) TSharedState) result" where
  "return_value v st = SetValue v st"

definition return_void :: "(unit, 'c) TSharedState \<Rightarrow> ('c list \<times> (unit, 'c) TSharedState) result" where
  "return_void st = SetValue_void st"

definition unhandled_exception :: "exn \<Rightarrow> ('a, 'c) TSharedState \<Rightarrow> ('c list \<times> ('a, 'c) TSharedState) result" where
  "unhandled_exception e st = SetException e st"

definition end_of_body :: "'a result \<Rightarrow> ('a, 'c) TSharedState \<Rightarrow> ('c list \<times> ('a, 'c) TSharedState) result" where
  "end_of_body r st = (case r of Inl e \<Rightarrow> unhandled_exception e st | Inr v \<Rightarrow> return_value v st)"

section \<open>Waiting for a future\<close>

text \<open>
  One coroutine that awaits one future through \<open>TSuspendWithFuture\<close>. Between \<open>await_ready\<close> and \<open>await_suspend\<close>, and between the release of the future's mutex
  and the call of a callback, other threads may act; the callback puts the coroutine into the ready queue (\<open>queued\<close>).
\<close>

datatype 'a await_pc = AwaitReady | AwaitSuspend | Suspended | AwaitResume | Returned "'a result"

record 'a await =
  fut :: "('a, unit) TSharedState"
  calls :: nat
  queued :: nat
  pc :: "'a await_pc"
  outcome :: "'a result option"

definition await_ready :: "('a, unit) TSharedState \<Rightarrow> bool" where
  "await_ready st = IsReady (Some st)"

definition await_suspend :: "('a, unit) TSharedState \<Rightarrow> bool \<times> ('a, unit) TSharedState" where
  "await_suspend st = (case Subscribe () (Some st) of (b, st') \<Rightarrow> (b, the st'))"

text \<open>\<open>moved\<close> is what the move out of the future leaves behind (\<open>Get\<close>).\<close>

definition await_resume :: "('a \<Rightarrow> 'a) \<Rightarrow> ('a, unit) TSharedState \<Rightarrow> ('a result \<times> ('a, unit) TSharedState) option" where
  "await_resume moved st = Get moved st"

inductive await_step :: "('a \<Rightarrow> 'a) \<Rightarrow> 'a await \<Rightarrow> 'a await \<Rightarrow> bool" for moved where
  ready: "pc a = AwaitReady \<Longrightarrow> await_step moved a (a\<lparr>pc := (if await_ready (fut a) then AwaitResume else AwaitSuspend)\<rparr>)"
| suspend: "pc a = AwaitSuspend \<Longrightarrow> await_suspend (fut a) = (b, st) \<Longrightarrow>
    await_step moved a (a\<lparr>fut := st, calls := calls a + (if b then 1 else 0), pc := Suspended\<rparr>)"
| complete: "end_of_body r (fut a) = Inr (cbs, st) \<Longrightarrow> await_step moved a (a\<lparr>fut := st, calls := calls a + length cbs, outcome := Some r\<rparr>)"
| call: "0 < calls a \<Longrightarrow> await_step moved a (a\<lparr>calls := calls a - 1, queued := queued a + 1\<rparr>)"
| resume: "pc a = Suspended \<Longrightarrow> 0 < queued a \<Longrightarrow> await_step moved a (a\<lparr>queued := queued a - 1, pc := AwaitResume\<rparr>)"
| return: "pc a = AwaitResume \<Longrightarrow> await_resume moved (fut a) = Some (r, st) \<Longrightarrow> await_step moved a (a\<lparr>fut := st, pc := Returned r\<rparr>)"

inductive_cases await_stepE: "await_step moved a a'"

definition await_init :: "'a await" where
  "await_init = \<lparr>fut = new_TSharedState, calls = 0, queued = 0, pc = AwaitReady, outcome = None\<rparr>"

definition await_inv :: "('a \<Rightarrow> 'a) \<Rightarrow> 'a await \<Rightarrow> bool" where
  "await_inv moved a \<longleftrightarrow> length (Callbacks (fut a)) + calls a + queued a = (if pc a = Suspended then 1 else 0)
     \<and> (case outcome a of None \<Rightarrow> \<not> IsSet (fut a) \<and> FException (fut a) = None \<and> calls a = 0 \<and> queued a = 0 \<and> pc a \<in> {AwaitReady, AwaitSuspend, Suspended}
        | Some r \<Rightarrow> IsSet (fut a) \<and> Callbacks (fut a) = [] \<and> (case pc a of Returned r' \<Rightarrow> r' = r | _ \<Rightarrow> map_option fst (Get moved (fut a)) = Some r))"

lemma await_step_inv: "await_step moved a a' \<Longrightarrow> await_inv moved a \<Longrightarrow> await_inv moved a'"
proof (induction rule: await_step.induct)
  case (complete r a cbs st)
  then show ?case
    by (cases r) (auto simp: await_inv_def end_of_body_def return_value_def unhandled_exception_def SetValue_def SetException_def Get_def split: option.splits if_splits await_pc.splits)
qed (auto simp: await_inv_def await_ready_def await_suspend_def await_resume_def IsReady_def Ready_def Subscribe_def AddCallback_def Get_def split: option.splits if_splits await_pc.splits)

text \<open>
  (C36) Waiting for a future loses no wake-up and blocks no thread: however the waiting coroutine and the completion of the future interleave,
  it is queued at most once, is resumed only after the future is set, so that reading it never waits, and gets exactly
  the value or exception with which the awaited coroutine ended; and if it is suspended when the future is set, its wake-up is under way.
\<close>

theorem await_resumes_once:
  assumes "(await_step moved)\<^sup>*\<^sup>* await_init a"
  shows "queued a \<le> 1 \<and> (pc a = AwaitResume \<longrightarrow> await_resume moved (fut a) \<noteq> None \<and> queued a = 0 \<and> calls a = 0)
    \<and> (\<forall>r. pc a = Returned r \<longrightarrow> outcome a = Some r) \<and> (pc a = Suspended \<and> outcome a \<noteq> None \<longrightarrow> calls a + queued a = 1)
    \<and> (pc a \<noteq> Suspended \<longrightarrow> queued a = 0)"
proof -
  have "await_inv moved (await_init :: 'a await)" by (simp add: await_inv_def await_init_def new_TSharedState_def)
  with assms have "await_inv moved a" by (induction rule: rtranclp_induct) (auto intro: await_step_inv)
  then show ?thesis by (auto simp: await_inv_def await_resume_def split: option.splits if_splits)
qed

theorem await_resumes_once_witness:
  "\<exists>a :: bool await. (await_step id)\<^sup>*\<^sup>* await_init a \<and> pc a = Suspended \<and> outcome a = Some (Inr True) \<and> calls a + queued a = 1"
proof -
  let ?a0 = "await_init :: bool await"
  let ?a1 = "?a0\<lparr>pc := AwaitSuspend\<rparr>"
  let ?a2 = "?a1\<lparr>fut := \<lparr>FValue = Some True, FException = None, IsSet = True, Callbacks = []\<rparr>, outcome := Some (Inr True)\<rparr>"
  let ?a3 = "?a2\<lparr>calls := 1, pc := Suspended\<rparr>"
  have "await_step id ?a0 ?a1" using await_step.ready [of ?a0] by (simp add: await_init_def await_ready_def IsReady_def Ready_def new_TSharedState_def)
  moreover have "await_step id ?a1 ?a2" using await_step.complete [of "Inr True" ?a1 "[]"]
    by (simp add: await_init_def end_of_body_def return_value_def SetValue_def new_TSharedState_def)
  moreover have "await_step id ?a2 ?a3" using await_step.suspend [of ?a2 True]
    by (simp add: await_init_def await_suspend_def Subscribe_def AddCallback_def)
  ultimately have r: "(await_step id)\<^sup>*\<^sup>* ?a0 ?a3" by (meson converse_rtranclp_into_rtranclp rtranclp.rtrancl_refl)
  show ?thesis using await_resumes_once [OF r] r by (intro exI [of _ ?a3]) simp
qed

end
