(* ===== verification/CoroVsThreads.thy ===== *)
theory CoroVsThreads
  imports Double
begin

text \<open>
  The measurement \<open>src/src/coroutines_vs_threads\<close>: workers repeat an operation in slices of time, as threads or as coroutines, and add what they counted to
  global totals. The operation, the worker loop action by action, and a run with its workers and the main thread as a
  step relation. A clock reading is the value of \<open>cv_clock\<close> in nanoseconds.
\<close>

section \<open>The operation\<close>

definition DATA_SIZE :: u64 where "DATA_SIZE = 1024"

record TOpResult =
  Acc :: u64
  op_scanned :: u64

definition PreparePattern :: "u64 \<Rightarrow> 8 word list" where
  "PreparePattern n = map (\<lambda>i. let phase = i mod 6 in if phase \<noteq> 3 \<and> phase \<noteq> 5 then 1 else 0) [0..<unat n]"

definition PrepareData :: "u64 \<Rightarrow> u64 list" where
  "PrepareData n = map (\<lambda>i. of_nat i * 0x9E3779B97F4A7C15 + 1) [0..<unat n]"

definition PredictionFriendlyOp :: "8 word list \<Rightarrow> u64 list \<Rightarrow> u64 \<Rightarrow> TOpResult result" where
  "PredictionFriendlyOp pattern values n = (if length pattern < unat n \<or> length values < unat n then Inl (UB ''pattern[i]'')
     else Inr \<lparr>Acc = fold (\<lambda>i acc. if pattern ! i \<noteq> 0 then acc + values ! i else acc XOR values ! i) [0..<unat n] 0,
       op_scanned = n * (1 + 8)\<rparr>)"

record TWorkerData =
  cv_Pattern :: "8 word list"
  cv_Data :: "u64 list"

definition new_TWorkerData :: TWorkerData where
  "new_TWorkerData = \<lparr>cv_Pattern = PreparePattern DATA_SIZE, cv_Data = PrepareData DATA_SIZE\<rparr>"

definition MakeWorkerDataSet :: "nat \<Rightarrow> bool \<Rightarrow> TWorkerData list" where
  "MakeWorkerDataSet concurrency perThreadData = replicate (if perThreadData then concurrency else 1) new_TWorkerData"

section \<open>A worker\<close>

record cv_globals =
  cv_Deadline :: u64
  GlobalOps :: u64
  GlobalMemoryScanned :: u64
  GlobalSink :: u64
  ActiveWorkers :: "32 word"

definition NowNs :: "int \<Rightarrow> u64" where
  [simp]: "NowNs now = word_of_int now"

definition SetDeadline :: "int \<Rightarrow> cv_globals \<Rightarrow> cv_globals" where
  [simp]: "SetDeadline tp g = g\<lparr>cv_Deadline := word_of_int tp\<rparr>"

datatype worker_pc = Enter | LoadDeadline | ReadClock u64 | StartSlice bool | Operate bool int | TestSlice bool int | Yielded
  | AddOps | AddScanned | AddSink | Leave | Done

record cv_worker =
  w_data :: TWorkerData
  w_pc :: worker_pc
  localOps :: u64
  localMemoryScanned :: u64
  w_sink :: u64

definition new_worker :: "TWorkerData \<Rightarrow> cv_worker" where
  "new_worker d = \<lparr>w_data = d, w_pc = Enter, localOps = 0, localMemoryScanned = 0, w_sink = 0\<rparr>"

text \<open>
  One action of \<open>ThreadWorker\<close> or \<open>CoroWorker\<close>, whose bodies differ only in how they yield. A coroutine is suspended at \<open>Enter\<close> and \<open>Yielded\<close>.
\<close>

definition worker_step :: "int \<Rightarrow> int \<Rightarrow> cv_globals \<Rightarrow> cv_worker \<Rightarrow> (cv_globals \<times> cv_worker) result" where
  "worker_step sliceDuration now g w = (case w_pc w of
       Enter \<Rightarrow> Inr (g\<lparr>ActiveWorkers := ActiveWorkers g + 1\<rparr>, w\<lparr>w_pc := LoadDeadline\<rparr>)
     | LoadDeadline \<Rightarrow> Inr (g, w\<lparr>w_pc := (if cv_Deadline g \<noteq> 0 then ReadClock (cv_Deadline g) else StartSlice False)\<rparr>)
     | ReadClock deadline \<Rightarrow> Inr (g, w\<lparr>w_pc := (if deadline \<le> NowNs now then AddOps else StartSlice True)\<rparr>)
     | StartSlice counting \<Rightarrow> Inr (g, w\<lparr>w_pc := Operate counting now\<rparr>)
     | Operate counting sliceStart \<Rightarrow> rbind (PredictionFriendlyOp (cv_Pattern (w_data w)) (cv_Data (w_data w)) DATA_SIZE) (\<lambda>r.
         Inr (g, w\<lparr>w_sink := w_sink w XOR Acc r, localOps := (if counting then localOps w + 1 else localOps w),
           localMemoryScanned := (if counting then localMemoryScanned w + op_scanned r else localMemoryScanned w), w_pc := TestSlice counting sliceStart\<rparr>))
     | TestSlice counting sliceStart \<Rightarrow> Inr (g, w\<lparr>w_pc := (if now - sliceStart < sliceDuration then Operate counting sliceStart else Yielded)\<rparr>)
     | Yielded \<Rightarrow> Inr (g, w\<lparr>w_pc := LoadDeadline\<rparr>)
     | AddOps \<Rightarrow> Inr (g\<lparr>GlobalOps := GlobalOps g + localOps w\<rparr>, w\<lparr>w_pc := AddScanned\<rparr>)
     | AddScanned \<Rightarrow> Inr (g\<lparr>GlobalMemoryScanned := GlobalMemoryScanned g + localMemoryScanned w\<rparr>, w\<lparr>w_pc := AddSink\<rparr>)
     | AddSink \<Rightarrow> Inr (g\<lparr>GlobalSink := GlobalSink g + w_sink w\<rparr>, w\<lparr>w_pc := Leave\<rparr>)
     | Leave \<Rightarrow> Inr (g\<lparr>ActiveWorkers := ActiveWorkers g - 1\<rparr>, w\<lparr>w_pc := Done\<rparr>)
     | Done \<Rightarrow> Inr (g, w))"

section \<open>A run\<close>

definition WARMUP_DURATION :: int where "WARMUP_DURATION = 1000000000"

definition MEASUREMENT_DURATION :: int where "MEASUREMENT_DURATION = 5000000000"

record TRunStats =
  run_Ops :: u64
  run_MemoryScannedBytes :: u64

text \<open>
  The main thread: it sleeps during the warm-up, sets the deadline, sleeps until then, and then waits for its workers: for the threads to
  end, or up to 500 times 10 ms for \<open>ActiveWorkers\<close> to become 0 before it ends the task queue. The flag of \<open>Ended\<close> says whether it stopped waiting because they had.
\<close>

datatype cv_main_pc = WarmingUp int | SettingDeadline int | MeasuringUntil int | JoinThreads | Polling nat int | JoinQueue bool | Ended bool TRunStats

record cv_state =
  cv_globals :: cv_globals
  cv_workers :: "cv_worker list"
  cv_clock :: int
  cv_main_pc :: cv_main_pc

definition start_run :: "nat \<Rightarrow> bool \<Rightarrow> int \<Rightarrow> cv_state" where
  "start_run concurrency perThreadData now = (let workerDataSet = MakeWorkerDataSet concurrency perThreadData in
     \<lparr>cv_globals = \<lparr>cv_Deadline = 0, GlobalOps = 0, GlobalMemoryScanned = 0, GlobalSink = 0, ActiveWorkers = 0\<rparr>,
       cv_workers = map (\<lambda>i. new_worker (workerDataSet ! (if perThreadData then i else 0))) [0..<concurrency],
       cv_clock = now, cv_main_pc = WarmingUp (now + WARMUP_DURATION)\<rparr>)"

definition suspended :: "cv_worker \<Rightarrow> bool" where
  "suspended w \<longleftrightarrow> w_pc w \<in> {Enter, Yielded, Done}"

inductive cv_step :: "bool \<Rightarrow> int \<Rightarrow> cv_state \<Rightarrow> cv_state \<Rightarrow> bool" for coro sl where
  tick: "cv_clock s \<le> t \<Longrightarrow> t < 2 ^ 63 \<Longrightarrow> cv_step coro sl s (s\<lparr>cv_clock := t\<rparr>)"
| worker: "i < length (cv_workers s) \<Longrightarrow> \<forall>b r. cv_main_pc s \<noteq> Ended b r \<Longrightarrow> worker_step sl (cv_clock s) (cv_globals s) (cv_workers s ! i) = Inr (g, w) \<Longrightarrow>
    cv_step coro sl s (s\<lparr>cv_globals := g, cv_workers := (cv_workers s)[i := w]\<rparr>)"
| warm: "cv_main_pc s = WarmingUp t \<Longrightarrow> t \<le> cv_clock s \<Longrightarrow> cv_clock s + MEASUREMENT_DURATION < 2 ^ 63 \<Longrightarrow>
    cv_step coro sl s (s\<lparr>cv_main_pc := SettingDeadline (cv_clock s + MEASUREMENT_DURATION)\<rparr>)"
| set_deadline: "cv_main_pc s = SettingDeadline t \<Longrightarrow>
    cv_step coro sl s (s\<lparr>cv_globals := SetDeadline t (cv_globals s), cv_main_pc := MeasuringUntil t\<rparr>)"
| measured: "cv_main_pc s = MeasuringUntil t \<Longrightarrow> t \<le> cv_clock s \<Longrightarrow>
    cv_step coro sl s (s\<lparr>cv_main_pc := (if coro then Polling 0 (cv_clock s) else JoinThreads)\<rparr>)"
| joined: "cv_main_pc s = JoinThreads \<Longrightarrow> list_all (\<lambda>w. w_pc w = Done) (cv_workers s) \<Longrightarrow>
    cv_step coro sl s (s\<lparr>cv_main_pc := Ended True \<lparr>run_Ops = GlobalOps (cv_globals s), run_MemoryScannedBytes = GlobalMemoryScanned (cv_globals s)\<rparr>\<rparr>)"
| poll: "cv_main_pc s = Polling i t \<Longrightarrow> t \<le> cv_clock s \<Longrightarrow> i < 500 \<Longrightarrow> ActiveWorkers (cv_globals s) \<noteq> 0 \<Longrightarrow>
    cv_step coro sl s (s\<lparr>cv_main_pc := Polling (i + 1) (cv_clock s + 10000000)\<rparr>)"
| idle: "cv_main_pc s = Polling i t \<Longrightarrow> t \<le> cv_clock s \<Longrightarrow> i < 500 \<Longrightarrow> ActiveWorkers (cv_globals s) = 0 \<Longrightarrow>
    cv_step coro sl s (s\<lparr>cv_main_pc := JoinQueue True\<rparr>)"
| given_up: "cv_main_pc s = Polling i t \<Longrightarrow> t \<le> cv_clock s \<Longrightarrow> 500 \<le> i \<Longrightarrow> cv_step coro sl s (s\<lparr>cv_main_pc := JoinQueue False\<rparr>)"
| queue_joined: "cv_main_pc s = JoinQueue b \<Longrightarrow> list_all suspended (cv_workers s) \<Longrightarrow>
    cv_step coro sl s (s\<lparr>cv_main_pc := Ended b \<lparr>run_Ops = GlobalOps (cv_globals s), run_MemoryScannedBytes = GlobalMemoryScanned (cv_globals s)\<rparr>\<rparr>)"

inductive_cases cv_stepE: "cv_step coro sl s s'"

section \<open>What a run counts\<close>

definition past_ops :: "cv_worker \<Rightarrow> bool" where
  "past_ops w \<longleftrightarrow> w_pc w \<in> {AddScanned, AddSink, Leave, Done}"

definition ops_in :: "cv_worker \<Rightarrow> u64" where
  "ops_in w = (if past_ops w then localOps w else 0)"

definition scanned_in :: "cv_worker \<Rightarrow> u64" where
  "scanned_in w = (if past_ops w \<and> w_pc w \<noteq> AddScanned then localMemoryScanned w else 0)"

definition active_in :: "cv_worker \<Rightarrow> nat" where
  "active_in w = (if w_pc w \<in> {Enter, Done} then 0 else 1)"

text \<open>A worker scans 9 bytes for each of the 1024 elements of an operation, and counts only once there is a deadline.\<close>

definition worker_ok :: "u64 \<Rightarrow> cv_worker \<Rightarrow> bool" where
  "worker_ok dl w \<longleftrightarrow> w_data w = new_TWorkerData \<and> localMemoryScanned w = localOps w * 9216 \<and> (w_pc w = Enter \<or> dl = 0 \<longrightarrow> localOps w = 0)
     \<and> (case w_pc w of ReadClock d \<Rightarrow> d = dl \<and> dl \<noteq> 0 | StartSlice c \<Rightarrow> c \<longrightarrow> dl \<noteq> 0 | Operate c t \<Rightarrow> c \<longrightarrow> dl \<noteq> 0 | TestSlice c t \<Rightarrow> c \<longrightarrow> dl \<noteq> 0 | _ \<Rightarrow> True)"

text \<open>A worker that will add nothing more.\<close>

definition late :: "cv_worker \<Rightarrow> bool" where
  "late w \<longleftrightarrow> past_ops w \<or> localOps w = 0 \<and> (case w_pc w of Enter \<Rightarrow> True | LoadDeadline \<Rightarrow> True | ReadClock d \<Rightarrow> True | AddOps \<Rightarrow> True | _ \<Rightarrow> False)"

lemma op_on_worker_data: "\<exists>r. PredictionFriendlyOp (cv_Pattern new_TWorkerData) (cv_Data new_TWorkerData) DATA_SIZE = Inr r \<and> op_scanned r = 9216"
  by (simp add: PredictionFriendlyOp_def new_TWorkerData_def PreparePattern_def PrepareData_def DATA_SIZE_def)

lemma worker_step_ok:
  assumes "worker_step sl now g w = Inr (g', w')" "worker_ok (cv_Deadline g) w"
  shows "worker_ok (cv_Deadline g) w' \<and> cv_Deadline g' = cv_Deadline g
    \<and> GlobalOps g' = GlobalOps g - ops_in w + ops_in w' \<and> GlobalMemoryScanned g' = GlobalMemoryScanned g - scanned_in w + scanned_in w'
    \<and> ActiveWorkers g' = ActiveWorkers g - of_nat (active_in w) + of_nat (active_in w')"
proof -
  note d = worker_step_def worker_ok_def ops_in_def scanned_in_def active_in_def past_ops_def
  have o: "\<exists>r. PredictionFriendlyOp (cv_Pattern (w_data w)) (cv_Data (w_data w)) DATA_SIZE = Inr r \<and> op_scanned r = 9216"
    using assms(2) op_on_worker_data by (simp add: worker_ok_def)
  show ?thesis
  proof (cases "w_pc w")
    case (Operate c t)
    obtain r where "PredictionFriendlyOp (cv_Pattern (w_data w)) (cv_Data (w_data w)) DATA_SIZE = Inr r" "op_scanned r = 9216" using o by blast
    then show ?thesis using assms Operate by (cases c) (clarsimp simp: d algebra_simps)+
  qed (use assms in \<open>(clarsimp simp: d; fail)+\<close>)
qed

lemma worker_step_late:
  assumes "worker_step sl now g w = Inr (g', w')" "worker_ok (cv_Deadline g) w" "late w" "cv_Deadline g \<noteq> 0" "cv_Deadline g \<le> word_of_int now"
  shows "late w'"
  using assms by (cases "w_pc w") (auto simp: worker_step_def worker_ok_def late_def past_ops_def)

lemma sum_list_update_ring:
  fixes f :: "'a \<Rightarrow> 'b :: ab_group_add"
  shows "i < length xs \<Longrightarrow> sum_list (map f (xs[i := x])) = sum_list (map f xs) - f (xs ! i) + f x"
proof (induction xs arbitrary: i)
  case (Cons a xs)
  then show ?case by (cases i) (auto simp: algebra_simps)
qed simp

definition totals_ok :: "cv_globals \<Rightarrow> cv_worker list \<Rightarrow> bool" where
  "totals_ok g ws \<longleftrightarrow> list_all (worker_ok (cv_Deadline g)) ws \<and> GlobalOps g = (\<Sum>w\<leftarrow>ws. ops_in w) \<and> GlobalMemoryScanned g = (\<Sum>w\<leftarrow>ws. scanned_in w)
     \<and> ActiveWorkers g = (\<Sum>w\<leftarrow>ws. of_nat (active_in w))"

definition deadline_passed :: "cv_state \<Rightarrow> bool" where
  "deadline_passed s \<longleftrightarrow> cv_Deadline (cv_globals s) \<noteq> 0 \<and> uint (cv_Deadline (cv_globals s)) \<le> cv_clock s"

definition main_ok :: "bool \<Rightarrow> cv_state \<Rightarrow> bool" where
  "main_ok coro s = (case cv_main_pc s of
       WarmingUp t \<Rightarrow> cv_Deadline (cv_globals s) = 0
     | SettingDeadline t \<Rightarrow> cv_Deadline (cv_globals s) = 0 \<and> 0 < t \<and> t < 2 ^ 63
     | MeasuringUntil t \<Rightarrow> cv_Deadline (cv_globals s) = word_of_int t \<and> 0 < t \<and> t < 2 ^ 63
     | JoinThreads \<Rightarrow> \<not> coro
     | Polling i t \<Rightarrow> coro \<and> deadline_passed s
     | JoinQueue b \<Rightarrow> coro \<and> deadline_passed s \<and> (b \<longrightarrow> list_all late (cv_workers s))
     | Ended b r \<Rightarrow> r = \<lparr>run_Ops = GlobalOps (cv_globals s), run_MemoryScannedBytes = GlobalMemoryScanned (cv_globals s)\<rparr>
         \<and> list_all suspended (cv_workers s) \<and> (b \<longrightarrow> list_all late (cv_workers s))
         \<and> (coro \<or> b \<and> list_all (\<lambda>w. w_pc w = Done) (cv_workers s)))"

definition cv_inv :: "bool \<Rightarrow> cv_state \<Rightarrow> bool" where
  "cv_inv coro s \<longleftrightarrow> 0 \<le> cv_clock s \<and> cv_clock s < 2 ^ 63 \<and> length (cv_workers s) < 2 ^ 32 \<and> totals_ok (cv_globals s) (cv_workers s) \<and> main_ok coro s"

lemma totals_step:
  assumes "totals_ok g ws" "i < length ws" "worker_step sl t g (ws ! i) = Inr (g', w')"
  shows "totals_ok g' (ws[i := w'])" "cv_Deadline g' = cv_Deadline g"
proof -
  have "worker_ok (cv_Deadline g) (ws ! i)" using assms(1,2) by (simp add: totals_ok_def list_all_length)
  note ok = worker_step_ok [OF assms(3) this]
  then show "totals_ok g' (ws[i := w'])" "cv_Deadline g' = cv_Deadline g"
    using assms(1,2) by (auto simp: totals_ok_def sum_list_update_ring list_all_length nth_list_update)
qed

lemma past_deadline_word:
  assumes "deadline_passed s" "cv_clock s < 2 ^ 63"
  shows "cv_Deadline (cv_globals s) \<noteq> 0" "cv_Deadline (cv_globals s) \<le> word_of_int (cv_clock s)"
proof -
  have "0 \<le> cv_clock s" using assms(1) uint_ge_0 order_trans unfolding deadline_passed_def by blast
  then have "uint (word_of_int (cv_clock s) :: u64) = cv_clock s" using assms(2) by (simp add: uint_word_of_int_eq take_bit_int_eq_self)
  then show "cv_Deadline (cv_globals s) \<noteq> 0" "cv_Deadline (cv_globals s) \<le> word_of_int (cv_clock s)"
    using assms(1) by (simp_all add: deadline_passed_def word_le_def)
qed

lemma late_step:
  assumes "totals_ok (cv_globals s) (cv_workers s)" "deadline_passed s" "cv_clock s < 2 ^ 63" "list_all late (cv_workers s)"
    and "i < length (cv_workers s)" "worker_step sl (cv_clock s) (cv_globals s) (cv_workers s ! i) = Inr (g', w')"
  shows "list_all late ((cv_workers s)[i := w'])"
proof -
  have "worker_ok (cv_Deadline (cv_globals s)) (cv_workers s ! i)" "late (cv_workers s ! i)"
    using assms(1,4,5) by (simp_all add: totals_ok_def list_all_length)
  then have "late w'" using worker_step_late [OF assms(6)] past_deadline_word [OF assms(2,3)] by blast
  then show ?thesis using assms(4,5) by (auto simp: list_all_length nth_list_update)
qed

lemma none_active:
  assumes "totals_ok g ws" "ActiveWorkers g = 0" "length ws < 2 ^ 32"
  shows "list_all late ws"
proof -
  have le: "(\<Sum>w\<leftarrow>ws. active_in w) \<le> length ws" by (induction ws) (auto simp: active_in_def)
  have "of_nat (\<Sum>w\<leftarrow>ws. active_in w) = (\<Sum>w\<leftarrow>ws. of_nat (active_in w) :: 32 word)" by (induction ws) simp_all
  then have "of_nat (\<Sum>w\<leftarrow>ws. active_in w) = (0 :: 32 word)" using assms(1,2) by (simp add: totals_ok_def)
  then have "2 ^ 32 dvd (\<Sum>w\<leftarrow>ws. active_in w)" by (simp add: word_of_nat_eq_0_iff)
  then have "(\<Sum>w\<leftarrow>ws. active_in w) = 0" using le assms(3) by (meson dvd_imp_le gr0I le_less_trans not_le)
  then have z: "active_in w = 0" if "w \<in> set ws" for w using that by simp
  have "late w" if "w \<in> set ws" for w
  proof -
    have "w_pc w = Enter \<or> w_pc w = Done" using z [OF that] by (auto simp: active_in_def split: if_splits)
    moreover have "worker_ok (cv_Deadline g) w" using assms(1) that by (simp add: totals_ok_def list_all_iff)
    ultimately show ?thesis by (auto simp: worker_ok_def late_def past_ops_def)
  qed
  then show ?thesis by (simp add: list_all_iff)
qed

lemma worker_ok_later: "worker_ok 0 w \<Longrightarrow> worker_ok d w"
  by (cases "w_pc w") (simp_all add: worker_ok_def)

lemma cv_step_inv:
  assumes "cv_step coro sl s s'" "cv_inv coro s"
  shows "cv_inv coro s'"
  using assms
proof (cases rule: cv_step.cases)
  case (worker i g w)
  have t: "totals_ok g ((cv_workers s)[i := w])" "cv_Deadline g = cv_Deadline (cv_globals s)"
    using totals_step [OF _ worker(2,4)] assms(2) by (auto simp: cv_inv_def)
  have "list_all late ((cv_workers s)[i := w])" if "deadline_passed s" "list_all late (cv_workers s)"
    using late_step [OF _ that(1) _ that(2) worker(2,4)] assms(2) by (simp add: cv_inv_def)
  then show ?thesis
    using assms(2) t worker(1,3) by (auto simp: cv_inv_def main_ok_def deadline_passed_def split: cv_main_pc.splits)
next
  case (idle i t)
  then have "list_all late (cv_workers s)" using none_active assms(2) by (auto simp: cv_inv_def)
  then show ?thesis using assms(2) idle by (auto simp: cv_inv_def main_ok_def deadline_passed_def)
next
  case (set_deadline t)
  then have "cv_Deadline (cv_globals s) = 0" "list_all (worker_ok 0) (cv_workers s)" using assms(2) by (auto simp: cv_inv_def main_ok_def totals_ok_def)
  then have "list_all (worker_ok d) (cv_workers s)" for d by (auto simp: list_all_iff worker_ok_later)
  then show ?thesis using assms(2) set_deadline by (auto simp: cv_inv_def main_ok_def totals_ok_def)
next
  case (measured t)
  then have "deadline_passed s" using assms(2)
    by (auto simp: cv_inv_def main_ok_def deadline_passed_def uint_word_of_int_eq take_bit_int_eq_self word_of_int_eq_0_iff)
  then show ?thesis using assms(2) measured by (auto simp: cv_inv_def main_ok_def deadline_passed_def)
next
  case joined
  then have "list_all suspended (cv_workers s)" "list_all late (cv_workers s)" by (auto simp: list_all_iff suspended_def late_def past_ops_def)
  then show ?thesis using assms(2) joined by (auto simp: cv_inv_def main_ok_def)
qed (auto simp: cv_inv_def main_ok_def deadline_passed_def MEASUREMENT_DURATION_def split: cv_main_pc.splits)

lemma start_run_inv:
  assumes "concurrency < 2 ^ 32" "0 \<le> t" "t < 2 ^ 63"
  shows "cv_inv coro (start_run concurrency ptd t)"
proof -
  have w: "worker_ok 0 (new_worker new_TWorkerData)" "ops_in (new_worker d) = 0" "scanned_in (new_worker d) = 0" "active_in (new_worker d) = 0" for d
    by (simp_all add: worker_ok_def new_worker_def ops_in_def scanned_in_def active_in_def past_ops_def)
  have "list_all (worker_ok 0) (cv_workers (start_run concurrency ptd t))"
    using w(1) by (auto simp: start_run_def Let_def MakeWorkerDataSet_def list_all_iff)
  then show ?thesis
    using assms by (simp add: cv_inv_def totals_ok_def main_ok_def start_run_def Let_def comp_def w(2-) sum_list_triv)
qed

lemma cv_run_inv: "(cv_step coro sl)\<^sup>*\<^sup>* s s' \<Longrightarrow> cv_inv coro s \<Longrightarrow> cv_inv coro s'"
  by (induction rule: rtranclp_induct) (auto intro: cv_step_inv)

text \<open>
  (C40) What a run reports, however its workers and the main thread interleave: the operations of the workers that ended, with 9216 bytes for each. Threads
  have then all ended, so nothing they counted is missing; nor is it for coroutines if the main thread saw no active worker, even if one starts later. If it gave
  up waiting, what the active coroutines counted is lost.
\<close>

theorem run_counts_finished_workers:
  assumes "concurrency < 2 ^ 31" "0 \<le> t" "t < 2 ^ 63" "(cv_step coro sl)\<^sup>*\<^sup>* (start_run concurrency ptd t) s" "cv_main_pc s = Ended waited r"
  shows "run_Ops r = (\<Sum>w\<leftarrow>filter (\<lambda>w. w_pc w = Done) (cv_workers s). localOps w) \<and> run_MemoryScannedBytes r = run_Ops r * 9216
    \<and> (waited \<longrightarrow> run_Ops r = (\<Sum>w\<leftarrow>cv_workers s. localOps w)) \<and> (\<not> coro \<longrightarrow> waited \<and> list_all (\<lambda>w. w_pc w = Done) (cv_workers s))"
proof -
  have inv: "cv_inv coro s" using cv_run_inv [OF assms(4)] start_run_inv assms(1-3) by simp
  have g: "totals_ok (cv_globals s) (cv_workers s)" and m: "main_ok coro s" using inv by (simp_all add: cv_inv_def)
  have r: "run_Ops r = (\<Sum>w\<leftarrow>cv_workers s. ops_in w)" "run_MemoryScannedBytes r = (\<Sum>w\<leftarrow>cv_workers s. scanned_in w)"
    and susp: "list_all suspended (cv_workers s)" and late: "waited \<Longrightarrow> list_all late (cv_workers s)"
    and th: "\<not> coro \<Longrightarrow> waited \<and> list_all (\<lambda>w. w_pc w = Done) (cv_workers s)"
    using g m assms(5) by (auto simp: totals_ok_def main_ok_def)
  have each: "ops_in w = (if w_pc w = Done then localOps w else 0)" "scanned_in w = ops_in w * 9216" "waited \<Longrightarrow> ops_in w = localOps w"
    if "w \<in> set (cv_workers s)" for w
  proof -
    have w: "suspended w" "worker_ok (cv_Deadline (cv_globals s)) w" "waited \<Longrightarrow> late w" using that susp late g by (auto simp: list_all_iff totals_ok_def)
    show "ops_in w = (if w_pc w = Done then localOps w else 0)" "scanned_in w = ops_in w * 9216" "waited \<Longrightarrow> ops_in w = localOps w"
      using w by (auto simp: suspended_def ops_in_def scanned_in_def past_ops_def worker_ok_def late_def)
  qed
  have "(\<Sum>w\<leftarrow>cv_workers s. ops_in w) = (\<Sum>w\<leftarrow>filter (\<lambda>w. w_pc w = Done) (cv_workers s). localOps w)"
    using each(1) by (simp add: sum_list_map_filter' cong: map_cong)
  moreover have "(\<Sum>w\<leftarrow>cv_workers s. scanned_in w) = (\<Sum>w\<leftarrow>cv_workers s. ops_in w) * 9216"
    using each(2) by (simp add: sum_list_mult_const cong: map_cong)
  moreover have "waited \<Longrightarrow> (\<Sum>w\<leftarrow>cv_workers s. ops_in w) = (\<Sum>w\<leftarrow>cv_workers s. localOps w)"
    using each(3) by (simp cong: map_cong)
  ultimately show ?thesis using r th by simp
qed

text \<open>A schedule that can be played: the clock, the worker and the main thread in turn.\<close>

datatype move = Tick int | Work nat | Main

definition play_main :: "bool \<Rightarrow> cv_state \<Rightarrow> cv_state option" where
  "play_main coro s = (let stats = \<lparr>run_Ops = GlobalOps (cv_globals s), run_MemoryScannedBytes = GlobalMemoryScanned (cv_globals s)\<rparr> in case cv_main_pc s of
       WarmingUp t \<Rightarrow> if t \<le> cv_clock s \<and> cv_clock s + MEASUREMENT_DURATION < 2 ^ 63 then Some (s\<lparr>cv_main_pc := SettingDeadline (cv_clock s + MEASUREMENT_DURATION)\<rparr>) else None
     | SettingDeadline t \<Rightarrow> Some (s\<lparr>cv_globals := SetDeadline t (cv_globals s), cv_main_pc := MeasuringUntil t\<rparr>)
     | MeasuringUntil t \<Rightarrow> if t \<le> cv_clock s then Some (s\<lparr>cv_main_pc := (if coro then Polling 0 (cv_clock s) else JoinThreads)\<rparr>) else None
     | JoinThreads \<Rightarrow> if list_all (\<lambda>w. w_pc w = Done) (cv_workers s) then Some (s\<lparr>cv_main_pc := Ended True stats\<rparr>) else None
     | Polling i t \<Rightarrow> if cv_clock s < t then None else if 500 \<le> i then Some (s\<lparr>cv_main_pc := JoinQueue False\<rparr>)
         else if ActiveWorkers (cv_globals s) \<noteq> 0 then Some (s\<lparr>cv_main_pc := Polling (i + 1) (cv_clock s + 10000000)\<rparr>) else Some (s\<lparr>cv_main_pc := JoinQueue True\<rparr>)
     | JoinQueue b \<Rightarrow> if list_all suspended (cv_workers s) then Some (s\<lparr>cv_main_pc := Ended b stats\<rparr>) else None
     | Ended b r \<Rightarrow> None)"

definition ended :: "cv_state \<Rightarrow> bool" where
  "ended s = (case cv_main_pc s of Ended _ _ \<Rightarrow> True | _ \<Rightarrow> False)"

fun play :: "bool \<Rightarrow> int \<Rightarrow> move list \<Rightarrow> cv_state \<Rightarrow> cv_state option" where
  "play coro sl [] s = Some s"
| "play coro sl (Tick t # ms) s = (if cv_clock s \<le> t \<and> t < 2 ^ 63 then play coro sl ms (s\<lparr>cv_clock := t\<rparr>) else None)"
| "play coro sl (Work i # ms) s = (if i < length (cv_workers s) \<and> \<not> ended s then
     (case worker_step sl (cv_clock s) (cv_globals s) (cv_workers s ! i) of Inl _ \<Rightarrow> None
      | Inr (g, w) \<Rightarrow> play coro sl ms (s\<lparr>cv_globals := g, cv_workers := (cv_workers s)[i := w]\<rparr>)) else None)"
| "play coro sl (Main # ms) s = (case play_main coro s of None \<Rightarrow> None | Some s1 \<Rightarrow> play coro sl ms s1)"

lemma play_main_step: "play_main coro s = Some s' \<Longrightarrow> cv_step coro sl s s'"
  using cv_step.measured [of s _ coro sl] cv_step.poll [of s _ _ coro sl] cv_step.set_deadline [of s _ coro sl]
  by (auto simp: play_main_def Let_def intro: cv_step.intros split: cv_main_pc.splits if_splits)

lemma play_steps: "play coro sl ms s = Some s' \<Longrightarrow> (cv_step coro sl)\<^sup>*\<^sup>* s s'"
proof (induction coro sl ms s rule: play.induct)
  case (2 coro sl t ms s)
  then show ?case using cv_step.tick [of s t coro sl] by (auto intro: converse_rtranclp_into_rtranclp split: if_splits)
next
  case (3 coro sl i ms s)
  then have "\<forall>b r. cv_main_pc s \<noteq> Ended b r" "i < length (cv_workers s)" by (auto simp: ended_def split: if_splits cv_main_pc.splits)
  with 3 show ?case by (auto intro: converse_rtranclp_into_rtranclp cv_step.worker split: if_splits sum.splits)
next
  case (4 coro sl ms s)
  then show ?case by (auto intro: converse_rtranclp_into_rtranclp play_main_step split: option.splits)
qed simp

text \<open>One worker that does one operation while it counts.\<close>

definition one_operation :: "move list" where
  "one_operation = [Tick 1000000000, Main, Main, Work 0, Work 0, Work 0, Work 0, Work 0, Tick 6000000000]"

lemma one_operation_played:
  "\<exists>s. play coro sl one_operation (start_run 1 False 0) = Some s \<and> cv_main_pc s = MeasuringUntil 6000000000 \<and> cv_clock s = 6000000000
     \<and> cv_globals s = \<lparr>cv_Deadline = 6000000000, GlobalOps = 0, GlobalMemoryScanned = 0, GlobalSink = 0, ActiveWorkers = 1\<rparr>
     \<and> (\<exists>x. cv_workers s = [\<lparr>w_data = new_TWorkerData, w_pc = TestSlice True 1000000000, localOps = 1, localMemoryScanned = 9216, w_sink = x\<rparr>])"
proof -
  obtain r where "PredictionFriendlyOp (cv_Pattern new_TWorkerData) (cv_Data new_TWorkerData) DATA_SIZE = Inr r" "op_scanned r = 9216"
    using op_on_worker_data by blast
  then show ?thesis
    by (simp add: one_operation_def start_run_def MakeWorkerDataSet_def new_worker_def play_main_def worker_step_def ended_def
        WARMUP_DURATION_def MEASUREMENT_DURATION_def)
qed

theorem run_counts_finished_workers_witness:
  "\<exists>s r. (cv_step False 100000)\<^sup>*\<^sup>* (start_run 1 False 0) s \<and> cv_main_pc s = Ended True r \<and> run_Ops r = 1 \<and> run_MemoryScannedBytes r = 9216"
proof -
  let ?ms = "[Main, Work 0, Work 0, Work 0, Work 0, Work 0, Work 0, Work 0, Work 0, Main]"
  obtain s x where s: "play False 100000 one_operation (start_run 1 False 0) = Some s" "cv_main_pc s = MeasuringUntil 6000000000" "cv_clock s = 6000000000"
      "cv_globals s = \<lparr>cv_Deadline = 6000000000, GlobalOps = 0, GlobalMemoryScanned = 0, GlobalSink = 0, ActiveWorkers = 1\<rparr>"
      "cv_workers s = [\<lparr>w_data = new_TWorkerData, w_pc = TestSlice True 1000000000, localOps = 1, localMemoryScanned = 9216, w_sink = x\<rparr>]"
    using one_operation_played by blast
  obtain s' r where s': "play False 100000 ?ms s = Some s'" "cv_main_pc s' = Ended True r" "map localOps (cv_workers s') = [1]"
    using s(2-) by (simp add: play_main_def worker_step_def ended_def)
  have steps: "(cv_step False 100000)\<^sup>*\<^sup>* (start_run 1 False 0) s'" using play_steps [OF s(1)] play_steps [OF s'(1)] by (rule rtranclp_trans)
  have "run_Ops r = 1 \<and> run_MemoryScannedBytes r = 9216" using run_counts_finished_workers [OF _ _ _ steps s'(2)] s'(3) by auto
  then show ?thesis using steps s'(2) by blast
qed

section \<open>Coroutines that are not waited for\<close>

lemma polls:
  "cv_main_pc s = Polling i t \<Longrightarrow> t \<le> cv_clock s \<Longrightarrow> i + n \<le> 500 \<Longrightarrow> ActiveWorkers (cv_globals s) \<noteq> 0 \<Longrightarrow> cv_clock s + 10000000 * int n < 2 ^ 63 \<Longrightarrow>
   \<exists>t'. t' \<le> cv_clock s + 10000000 * int n \<and> (cv_step coro sl)\<^sup>*\<^sup>* s (s\<lparr>cv_main_pc := Polling (i + n) t', cv_clock := cv_clock s + 10000000 * int n\<rparr>)"
proof (induction n)
  case 0
  then have e: "s\<lparr>cv_main_pc := Polling (i + 0) t, cv_clock := cv_clock s + 10000000 * int 0\<rparr> = s" by simp
  show ?case by (intro exI [of _ t], unfold e) (use 0(2) in simp)
next
  case (Suc n)
  then obtain t' where t': "t' \<le> cv_clock s + 10000000 * int n" "(cv_step coro sl)\<^sup>*\<^sup>* s (s\<lparr>cv_main_pc := Polling (i + n) t', cv_clock := cv_clock s + 10000000 * int n\<rparr>)" by auto
  let ?s = "s\<lparr>cv_main_pc := Polling (i + n) t', cv_clock := cv_clock s + 10000000 * int n\<rparr>" and ?c = "cv_clock s + 10000000 * int (Suc n)"
  have p: "cv_step coro sl ?s (?s\<lparr>cv_main_pc := Polling (i + n + 1) (cv_clock ?s + 10000000)\<rparr>)"
    using Suc.prems t'(1) by (intro cv_step.poll) auto
  have q: "cv_step coro sl (?s\<lparr>cv_main_pc := Polling (i + n + 1) (cv_clock ?s + 10000000)\<rparr>) (?s\<lparr>cv_main_pc := Polling (i + n + 1) (cv_clock ?s + 10000000), cv_clock := ?c\<rparr>)"
    using cv_step.tick [of "?s\<lparr>cv_main_pc := Polling (i + n + 1) (cv_clock ?s + 10000000)\<rparr>" ?c coro sl] Suc.prems(5) by simp
  have "(cv_step coro sl)\<^sup>*\<^sup>* s (s\<lparr>cv_main_pc := Polling (i + Suc n) ?c, cv_clock := ?c\<rparr>)"
    using rtranclp_trans [OF t'(2) rtranclp_trans [OF r_into_rtranclp [of "cv_step coro sl", OF p] r_into_rtranclp [of "cv_step coro sl", OF q]]] by (simp add: algebra_simps)
  then show ?case by blast
qed

text \<open>With slices of ten seconds a coroutine counts operations that the run does not report.\<close>

lemma long_slices_lost:
  "\<exists>s r. (cv_step True 10000000000)\<^sup>*\<^sup>* (start_run 1 False 0) s \<and> cv_main_pc s = Ended False r \<and> run_Ops r = 0 \<and> map localOps (cv_workers s) = [1]"
proof -
  obtain s x where s: "play True 10000000000 one_operation (start_run 1 False 0) = Some s" "cv_main_pc s = MeasuringUntil 6000000000" "cv_clock s = 6000000000"
      "cv_globals s = \<lparr>cv_Deadline = 6000000000, GlobalOps = 0, GlobalMemoryScanned = 0, GlobalSink = 0, ActiveWorkers = 1\<rparr>"
      "cv_workers s = [\<lparr>w_data = new_TWorkerData, w_pc = TestSlice True 1000000000, localOps = 1, localMemoryScanned = 9216, w_sink = x\<rparr>]"
    using one_operation_played by blast
  define s1 where "s1 = s\<lparr>cv_main_pc := Polling 0 6000000000\<rparr>"
  have s1: "play True 10000000000 [Main] s = Some s1" "cv_main_pc s1 = Polling 0 6000000000" "cv_clock s1 = cv_clock s" "cv_globals s1 = cv_globals s"
      "cv_workers s1 = cv_workers s"
    using s(2,3) by (simp_all add: play_main_def s1_def)
  obtain t where t: "t \<le> 11000000000" "(cv_step True 10000000000)\<^sup>*\<^sup>* s1 (s1\<lparr>cv_main_pc := Polling 500 t, cv_clock := 11000000000\<rparr>)"
    using polls [OF s1(2), of 500] s1(3,4) s(3,4) by auto
  define s2 where "s2 = s1\<lparr>cv_main_pc := Ended False \<lparr>run_Ops = 0, run_MemoryScannedBytes = 0\<rparr>, cv_clock := 11000000000, cv_workers := [(cv_workers s ! 0)\<lparr>w_pc := Yielded\<rparr>]\<rparr>"
  have s2: "play True 10000000000 [Main, Work 0, Main] (s1\<lparr>cv_main_pc := Polling 500 t, cv_clock := 11000000000\<rparr>) = Some s2"
    using s(4,5) s1(4,5) t(1) by (simp add: play_main_def worker_step_def ended_def suspended_def s2_def)
  have "(cv_step True 10000000000)\<^sup>*\<^sup>* (start_run 1 False 0) s2"
    using rtranclp_trans [OF rtranclp_trans [OF play_steps [OF s(1)] play_steps [OF s1(1)]] rtranclp_trans [OF t(2) play_steps [OF s2]]] .
  then show ?thesis using s(5) by (intro exI [of _ s2]) (simp add: s2_def)
qed

end
