(* ===== verification/CoroSweep.thy ===== *)
theory CoroSweep
  imports CoroVsThreads
begin

text \<open>
  The program around the runs of \<open>src/src/coroutines_vs_threads/main.cpp\<close>: its flags, the sweep over concurrency counts that double, the best result and
  the three output formats. The formatting of numbers is the library's and a parameter.
\<close>

section \<open>Results and their output\<close>

record TResult =
  res_Inflight :: int
  OpsPerSec :: rat
  MemoryScannedPerSec :: rat
  res_MemoryScannedBytes :: u64
  WallTimeS :: rat

definition FindMaxOps :: "TResult list \<Rightarrow> TResult option" where
  "FindMaxOps results = (case results of [] \<Rightarrow> None
     | r # rest \<Rightarrow> Some (fold (\<lambda>x largest. if OpsPerSec largest < OpsPerSec x then x else largest) rest r))"

record fmtlib =
  fmt_d :: "int \<Rightarrow> string"
  fmt_u :: "u64 \<Rightarrow> string"
  fmt_f :: "nat \<Rightarrow> rat \<Rightarrow> string"
  fmt_right :: "nat \<Rightarrow> string \<Rightarrow> string"

definition text_line :: "string \<Rightarrow> string" where "text_line s = s @ [CHR 0x0A]"

definition quoted :: "string \<Rightarrow> string" where "quoted s = CHR 0x22 # s @ [CHR 0x22]"

definition mb_per_sec :: "TResult \<Rightarrow> rat" where
  "mb_per_sec r = fl (MemoryScannedPerSec r / 1048576)"

definition columns_line :: "fmtlib \<Rightarrow> string \<Rightarrow> string \<Rightarrow> string \<Rightarrow> string \<Rightarrow> string" where
  "columns_line f a b c d = text_line (fmt_right f 10 a @ '' | '' @ fmt_right f 15 b @ '' | '' @ fmt_right f 15 c @ '' | '' @ fmt_right f 10 d)"

definition PrintResultsHuman :: "fmtlib \<Rightarrow> TResult list \<Rightarrow> bool \<Rightarrow> int \<Rightarrow> string" where
  "PrintResultsHuman f results coro poolSize =
     (if coro then text_line (''Mode: coroutines (pool_size='' @ fmt_d f poolSize @ '')'') else text_line ''Mode: threads'')
     @ columns_line f ''Inflight'' ''Ops/s'' ''Scanned MB/s'' ''Wall (s)''
     @ text_line (replicate 10 CHR ''-'' @ ''-+-'' @ replicate 15 CHR ''-'' @ ''-+-'' @ replicate 15 CHR ''-'' @ ''-+-'' @ replicate 10 CHR ''-'')
     @ concat (map (\<lambda>r. columns_line f (fmt_d f (res_Inflight r)) (fmt_f f 0 (OpsPerSec r)) (fmt_f f 2 (mb_per_sec r)) (fmt_f f 1 (WallTimeS r))) results)
     @ (case FindMaxOps results of None \<Rightarrow> []
        | Some m \<Rightarrow> text_line [] @ text_line (''Max ops/s: '' @ fmt_f f 0 (OpsPerSec m) @ '' (inflight='' @ fmt_d f (res_Inflight m)
            @ '', scanned='' @ fmt_f f 2 (mb_per_sec m) @ '' MB/s, wall='' @ fmt_f f 1 (WallTimeS m) @ ''s)''))"

definition csv_row :: "fmtlib \<Rightarrow> TResult \<Rightarrow> string" where
  "csv_row f r = text_line (fmt_d f (res_Inflight r) @ '','' @ fmt_f f 0 (OpsPerSec r) @ '','' @ fmt_u f (res_MemoryScannedBytes r)
     @ '','' @ fmt_f f 0 (MemoryScannedPerSec r) @ '','' @ fmt_f f 2 (WallTimeS r))"

definition PrintResultsCsv :: "fmtlib \<Rightarrow> TResult list \<Rightarrow> string" where
  "PrintResultsCsv f results = text_line ''inflight,ops_per_sec,memory_scanned_bytes,memory_scanned_bytes_per_sec,wall_time_s'' @ concat (map (csv_row f) results)
     @ (case FindMaxOps results of None \<Rightarrow> []
        | Some m \<Rightarrow> text_line ''max_inflight,max_ops_per_sec,max_memory_scanned_bytes,max_memory_scanned_bytes_per_sec,max_wall_time_s'' @ csv_row f m)"

definition json_object :: "fmtlib \<Rightarrow> TResult \<Rightarrow> string" where
  "json_object f r = ''{ '' @ quoted ''inflight'' @ '': '' @ fmt_d f (res_Inflight r) @ '', '' @ quoted ''ops_per_sec'' @ '': '' @ fmt_f f 0 (OpsPerSec r)
     @ '', '' @ quoted ''memory_scanned_bytes'' @ '': '' @ fmt_u f (res_MemoryScannedBytes r)
     @ '', '' @ quoted ''memory_scanned_bytes_per_sec'' @ '': '' @ fmt_f f 0 (MemoryScannedPerSec r)
     @ '', '' @ quoted ''wall_time_s'' @ '': '' @ fmt_f f 2 (WallTimeS r) @ '' }''"

definition json_rows :: "fmtlib \<Rightarrow> TResult list \<Rightarrow> string" where
  "json_rows f results = concat (map (\<lambda>i. ''    '' @ json_object f (results ! i) @ text_line (if i + 1 < length results then '','' else [])) [0..<length results])"

definition PrintResultsJsonTo :: "fmtlib \<Rightarrow> TResult list \<Rightarrow> bool \<Rightarrow> int \<Rightarrow> int \<Rightarrow> int \<Rightarrow> int \<Rightarrow> string" where
  "PrintResultsJsonTo f results coro poolSize sliceUs measSeconds warmupSeconds =
     text_line ''{'' @ text_line (''  '' @ quoted ''mode'' @ '': '' @ quoted (if coro then ''coroutines'' else ''threads'') @ '','')
     @ text_line (''  '' @ quoted ''pool_size'' @ '': '' @ fmt_d f poolSize @ '','') @ text_line (''  '' @ quoted ''slice_us'' @ '': '' @ fmt_d f sliceUs @ '','')
     @ text_line (''  '' @ quoted ''measurement_s'' @ '': '' @ fmt_d f measSeconds @ '','') @ text_line (''  '' @ quoted ''warmup_s'' @ '': '' @ fmt_d f warmupSeconds @ '','')
     @ text_line (''  '' @ quoted ''results'' @ '': ['') @ json_rows f results
     @ (case FindMaxOps results of Some m \<Rightarrow> text_line ''  ],'' @ text_line (''  '' @ quoted ''max'' @ '': '' @ json_object f m) | None \<Rightarrow> text_line ''  ]'')
     @ text_line ''}''"

definition PrintResultsAll :: "fmtlib \<Rightarrow> TResult list \<Rightarrow> bool \<Rightarrow> int \<Rightarrow> int \<Rightarrow> int \<Rightarrow> int \<Rightarrow> string" where
  "PrintResultsAll f results coro poolSize sliceUs measSeconds warmupSeconds =
     text_line ''--- human ---'' @ PrintResultsHuman f results coro poolSize @ text_line [] @ text_line ''--- csv ---'' @ PrintResultsCsv f results
     @ text_line [] @ text_line ''--- json ---'' @ PrintResultsJsonTo f results coro poolSize sliceUs measSeconds warmupSeconds"

definition PrintResults :: "fmtlib \<Rightarrow> string \<Rightarrow> TResult list \<Rightarrow> bool \<Rightarrow> int \<Rightarrow> int \<Rightarrow> int \<Rightarrow> int \<Rightarrow> string" where
  "PrintResults f fmt results coro poolSize sliceUs measSeconds warmupSeconds =
     (if fmt = ''human'' then PrintResultsHuman f results coro poolSize
      else if fmt = ''csv'' then PrintResultsCsv f results
      else if fmt = ''json'' then PrintResultsJsonTo f results coro poolSize sliceUs measSeconds warmupSeconds
      else if fmt = ''all'' then PrintResultsAll f results coro poolSize sliceUs measSeconds warmupSeconds
      else [])"

section \<open>The sweep\<close>

definition to_result :: "int \<Rightarrow> TRunStats \<Rightarrow> rat \<Rightarrow> TResult" where
  "to_result n stats wallTimeS = (let measSeconds = 5 in
     \<lparr>res_Inflight = n, OpsPerSec = fl (fl (of_nat (unat (run_Ops stats))) / measSeconds),
       MemoryScannedPerSec = fl (fl (of_nat (unat (run_MemoryScannedBytes stats))) / measSeconds),
       res_MemoryScannedBytes = run_MemoryScannedBytes stats, WallTimeS = wallTimeS\<rparr>)"

text \<open>\<open>run_at n\<close> is a run with concurrency \<open>n\<close> and the time it took.\<close>

partial_function (option) sweep :: "(int \<Rightarrow> 's \<Rightarrow> (TRunStats \<times> rat) \<times> 's) \<Rightarrow> int \<Rightarrow> int \<Rightarrow> TResult list \<Rightarrow> 's \<Rightarrow> (TResult list result \<times> 's) option" where
  [code]: "sweep run_at to n results s = (if to < n then Some (Inr results, s)
     else case run_at n s of ((stats, wallTimeS), s1) \<Rightarrow>
       if 2 ^ 31 \<le> 2 * n \<or> 2 * n < - (2 ^ 31) then Some (Inl (UB ''n *= 2''), s1)
       else sweep run_at to (2 * n) (results @ [to_result n stats wallTimeS]) s1)"

section \<open>The program\<close>

record cv_flags =
  cv_from :: int
  cv_to :: int
  cv_pool_size :: int
  cv_coro :: bool
  cv_per_thread_data :: bool
  cv_slice_us :: int
  cv_format :: string
  cv_json_res_file :: string

definition help_asked :: "string list \<Rightarrow> bool" where
  "help_asked args = list_ex (\<lambda>arg. arg = ''--help'' \<or> arg = ''-help'' \<or> arg = ''-h'') args"

definition flag_error :: "cv_flags \<Rightarrow> string option" where
  "flag_error fs = (if cv_from fs \<le> 0 \<or> cv_to fs \<le> 0 \<or> cv_to fs < cv_from fs then Some ''Error: --from and --to must be positive with from <= to''
     else if cv_slice_us fs \<le> 0 then Some ''Error: --slice_us must be positive''
     else if cv_coro fs \<and> cv_pool_size fs \<le> 0 then Some ''Error: --pool_size must be positive''
     else if cv_format fs \<noteq> ''human'' \<and> cv_format fs \<noteq> ''csv'' \<and> cv_format fs \<noteq> ''json'' \<and> cv_format fs \<noteq> ''all''
     then Some ''Error: --format must be one of: human, csv, json, all'' else None)"

record cv_outcome =
  exit_code :: int
  standard_output :: string
  written_file :: "(string \<times> string) option"

text \<open>\<open>parse\<close> is gflags, \<open>opens\<close> whether \<open>fopen\<close> succeeds, \<open>help\<close> the text of \<open>PrintHelp\<close>.\<close>

definition cv_main :: "fmtlib \<Rightarrow> string \<Rightarrow> (string list \<Rightarrow> cv_flags) \<Rightarrow> (string \<Rightarrow> bool) \<Rightarrow> (cv_flags \<Rightarrow> int \<Rightarrow> 's \<Rightarrow> (TRunStats \<times> rat) \<times> 's)
    \<Rightarrow> string list \<Rightarrow> 's \<Rightarrow> cv_outcome result option" where
  "cv_main f help parse opens run_at args s =
     (if help_asked args then Some (Inr \<lparr>exit_code = 0, standard_output = help, written_file = None\<rparr>)
      else let fs = parse args in
        if flag_error fs \<noteq> None then Some (Inr \<lparr>exit_code = 1, standard_output = [], written_file = None\<rparr>)
        else case sweep (run_at fs) (cv_to fs) (cv_from fs) [] s of None \<Rightarrow> None
          | Some (Inl e, _) \<Rightarrow> Some (Inl e)
          | Some (Inr results, _) \<Rightarrow> let out = PrintResults f (cv_format fs) results (cv_coro fs) (cv_pool_size fs) (cv_slice_us fs) 5 1 in
              if cv_json_res_file fs = [] then Some (Inr \<lparr>exit_code = 0, standard_output = out, written_file = None\<rparr>)
              else if \<not> opens (cv_json_res_file fs) then Some (Inr \<lparr>exit_code = 1, standard_output = out, written_file = None\<rparr>)
              else Some (Inr \<lparr>exit_code = 0, standard_output = out,
                written_file = Some (cv_json_res_file fs, PrintResultsJsonTo f results (cv_coro fs) (cv_pool_size fs) (cv_slice_us fs) 5 1)\<rparr>))"

section \<open>What it does\<close>

lemma sweep_doubles:
  "0 < n \<Longrightarrow> to < 2 ^ 30 \<Longrightarrow> \<exists>rs s'. sweep run_at to n results s = Some (Inr (results @ rs), s')
     \<and> map res_Inflight rs = map (\<lambda>i. n * 2 ^ i) [0..<length rs] \<and> (\<forall>i < length rs. n * 2 ^ i \<le> to) \<and> to < n * 2 ^ length rs"
proof (induction "nat (to + 1 - n)" arbitrary: n results s rule: less_induct)
  case less
  show ?case
  proof (cases "to < n")
    case True
    then show ?thesis by (intro exI [of _ "[]"]) (simp add: sweep.simps [of run_at to n])
  next
    case False
    obtain stats wall s1 where r: "run_at n s = ((stats, wall), s1)" by (metis prod.collapse)
    let ?r = "to_result n stats wall"
    obtain rs s' where rs: "sweep run_at to (2 * n) (results @ [?r]) s1 = Some (Inr ((results @ [?r]) @ rs), s')"
      "map res_Inflight rs = map (\<lambda>i. 2 * n * 2 ^ i) [0..<length rs]" "\<forall>i < length rs. 2 * n * 2 ^ i \<le> to" "to < 2 * n * 2 ^ length rs"
      using less.hyps [of "2 * n" "results @ [?r]" s1] less.prems False by auto
    have "sweep run_at to n results s = Some (Inr (results @ ?r # rs), s')" using rs(1) False r less.prems by (simp add: sweep.simps [of run_at to n])
    moreover have "map res_Inflight (?r # rs) = map (\<lambda>i. n * 2 ^ i) [0..<length (?r # rs)]"
      using rs(2) by (simp add: to_result_def Let_def upt_conv_Cons map_Suc_upt [symmetric] comp_def mult.assoc mult.left_commute del: upt_Suc)
    moreover have "n * 2 ^ i \<le> to" if "i < length (?r # rs)" for i
      using rs(3) False that by (cases i) (auto simp: mult.assoc mult.left_commute)
    ultimately show ?thesis using rs(4) by (intro exI [of _ "?r # rs"] exI [of _ s']) (simp add: mult.assoc mult.left_commute)
  qed
qed

text \<open>Up to the largest \<open>int\<close> there is no end: the last doubling overflows.\<close>

lemma sweep_overflows:
  "0 < n \<Longrightarrow> n < 2 ^ 31 \<Longrightarrow> \<exists>s'. sweep run_at (2 ^ 31 - 1) n results s = Some (Inl (UB ''n *= 2''), s')"
proof (induction "nat (2 ^ 31 - n)" arbitrary: n results s rule: less_induct)
  case less
  obtain stats wall s1 where r: "run_at n s = ((stats, wall), s1)" by (metis prod.collapse)
  show ?case
  proof (cases "2 ^ 31 \<le> 2 * n")
    case True
    then show ?thesis using less.prems r by (simp add: sweep.simps [of run_at _ n])
  next
    case False
    then show ?thesis using less.hyps [of "2 * n"] less.prems r by (simp add: sweep.simps [of run_at _ n])
  qed
qed

text \<open>The best result is the first of those with the most operations.\<close>

lemma FindMaxOps_first:
  assumes "FindMaxOps rs = Some m"
  shows "\<exists>ys zs. rs = ys @ m # zs \<and> (\<forall>y \<in> set ys. OpsPerSec y < OpsPerSec m) \<and> (\<forall>z \<in> set zs. OpsPerSec z \<le> OpsPerSec m)"
proof -
  let ?f = "\<lambda>x largest. if OpsPerSec largest < OpsPerSec x then x else largest"
  have "\<exists>ys zs. r # rest = ys @ fold ?f rest r # zs \<and> (\<forall>y \<in> set ys. OpsPerSec y < OpsPerSec (fold ?f rest r)) \<and> (\<forall>z \<in> set zs. OpsPerSec z \<le> OpsPerSec (fold ?f rest r))" for r rest
  proof (induction rest rule: rev_induct)
    case Nil
    show ?case by (intro exI [of _ "[]"]) simp
  next
    case (snoc x rest)
    then obtain ys zs where *: "r # rest = ys @ fold ?f rest r # zs" "\<forall>y \<in> set ys. OpsPerSec y < OpsPerSec (fold ?f rest r)"
      "\<forall>z \<in> set zs. OpsPerSec z \<le> OpsPerSec (fold ?f rest r)" by blast
    show ?case
    proof (cases "OpsPerSec (fold ?f rest r) < OpsPerSec x")
      case True
      have "\<forall>y \<in> set (r # rest). OpsPerSec y < OpsPerSec x" unfolding *(1) using *(2,3) True by fastforce
      then show ?thesis using True by (intro exI [of _ "r # rest"] exI [of _ "[]"]) simp
    next
      case False
      then show ?thesis using * by (intro exI [of _ ys] exI [of _ "zs @ [x]"]) auto
    qed
  qed
  then show ?thesis using assms by (cases rs) (auto simp: FindMaxOps_def)
qed

text \<open>The rows of the JSON document are separated by commas, with none after the last.\<close>

fun comma_lines :: "string list \<Rightarrow> string" where
  "comma_lines [] = []"
| "comma_lines [x] = text_line (''    '' @ x)"
| "comma_lines (x # y # ys) = text_line (''    '' @ x @ '','') @ comma_lines (y # ys)"

lemma json_rows_Cons: "json_rows f (x # rs) = ''    '' @ json_object f x @ text_line (if rs = [] then [] else '','') @ json_rows f rs"
proof -
  have e: "[0..<length (x # rs)] = 0 # map Suc [0..<length rs]" by (simp add: upt_conv_Cons map_Suc_upt del: upt_Suc)
  show ?thesis unfolding json_rows_def e by (simp add: comp_def)
qed

lemma json_rows_separated: "json_rows f rs = comma_lines (map (json_object f) rs)"
proof (induction rs rule: induct_list012)
  case 1
  show ?case by (simp add: json_rows_def)
qed (simp_all add: json_rows_Cons text_line_def, simp add: json_rows_def)

text \<open>With valid flags, of which the last count is below \<open>2\<^sup>3\<^sup>0\<close>, the program returns and prints a row for every count of the sweep.\<close>

lemma program_reports:
  assumes "\<not> help_asked args" "parse args = fs" "flag_error fs = None" "cv_to fs < 2 ^ 30"
  shows "\<exists>rs out. cv_main f help parse opens run_at args s = Some (Inr out)
    \<and> map res_Inflight rs = map (\<lambda>i. cv_from fs * 2 ^ i) [0..<length rs] \<and> (\<forall>i < length rs. cv_from fs * 2 ^ i \<le> cv_to fs) \<and> cv_to fs < cv_from fs * 2 ^ length rs
    \<and> standard_output out = PrintResults f (cv_format fs) rs (cv_coro fs) (cv_pool_size fs) (cv_slice_us fs) 5 1
    \<and> (exit_code out = 0 \<longleftrightarrow> cv_json_res_file fs = [] \<or> opens (cv_json_res_file fs))"
proof -
  have "0 < cv_from fs" using assms(3) by (auto simp: flag_error_def split: if_splits)
  then obtain rs s' where "sweep (run_at fs) (cv_to fs) (cv_from fs) [] s = Some (Inr rs, s')"
    "map res_Inflight rs = map (\<lambda>i. cv_from fs * 2 ^ i) [0..<length rs]" "\<forall>i < length rs. cv_from fs * 2 ^ i \<le> cv_to fs" "cv_to fs < cv_from fs * 2 ^ length rs"
    using sweep_doubles [of "cv_from fs" "cv_to fs" "run_at fs" "[]" s] assms(4) by auto
  then show ?thesis using assms(1-3) by (intro exI [of _ rs]) (simp add: cv_main_def Let_def)
qed

end
