(* ===== verification/Spec2Isabelle.thy ===== *)
theory Spec2Isabelle
  imports ImportRun RowTypes Results Tui Dictionary Display Awaiters CoroSweep
begin

text \<open>
  A verification development of the TPC-C benchmark for OceanBase in \<open>src/\<close>. The program creates the TPC-C schema
  (\<open>init\<close>), fills it (\<open>import\<close>), runs the five transactions from many terminals (\<open>run\<close>) and checks the consistency conditions of the
  specification (\<open>check\<close>). A terminal is a coroutine. A scheduler of a few threads resumes the terminals, sleeping ones come from a
  timer wheel, ready ones through circular queues; a limit on transactions in flight keeps them within the connection pool,
  whose IO threads carry out the statements and complete the futures the terminals wait for. Latencies go into histograms.

  \<^bold>\<open>Conventions.\<close> Exceptions are values (\<open>Inl\<close> of \<open>exn\<close> in \<open>Prelude\<close>); \<open>UB\<close> marks what the C++ standard leaves undefined, so
  a theorem that excludes errors excludes it too. \<open>size_t\<close> and \<open>uint64_t\<close> are 64-bit words; \<open>double\<close> is a rational
  rounded after every operation (\<open>Double\<close>: 53 bits, ties to even). An \<open>option\<close> result that is \<open>None\<close> stands for an operation that
  does not return: a loop that never ends or a caller that waits. Atomic operations and critical sections are single steps of step
  relations, and every interleaving of them is considered; memory is sequentially consistent but for the queue
  of \<open>SpscQueue\<close>, where a thread may see an old value of the other side's counter.

  \<^bold>\<open>Containers.\<close>
  \<^item> \<open>Histogram\<close> (\<open>histogram.cpp\<close>): the buckets partition the values, merging and subtracting are exact, a percentile is the upper bound
    of the bucket with the value of that rank; the constructor returns for all sensible parameters and not at \<open>2\<^sup>6\<^sup>4 - 1\<close>.
  \<^item> \<open>SpscQueue\<close> (\<open>spsc_circular_queue.h\<close>): one producer and one consumer, action by action; first in, first out, free of races. The locale
    \<open>bounded_fifo\<close> is its contract.
  \<^item> \<open>TimerQueue\<close> (\<open>timer_queue.h\<close>): the wheel of buckets pops in the order of deadlines and always passes its own \<open>Validate\<close>; \<open>GetNextDeadline\<close>
    may be late. The locale \<open>min_queue\<close> is its contract; \<open>std::sort\<close> is the parameter of the locale \<open>std_sort\<close>.
  \<^item> \<open>Async\<close> (\<open>future.h\<close>, \<open>thread_pool.h\<close>, \<open>spinlock.h\<close>): a callback is called once, the first reading of a future gives what it was set to (and moves it out), a task runs once, one thread holds the lock.

  \<^bold>\<open>Data.\<close> \<open>Constants\<close> (\<open>constants.h\<close>), \<open>RandomGen\<close> (\<open>util.h\<close>: generator, unbiased bounded numbers, last names), \<open>Schema\<close> and
  \<open>Queries\<close> (the tables as lists of records; each statement of \<open>db/queries.cpp\<close> with its meaning \<open>sem_\<dots>\<close>), \<open>Connection\<close> (connection strings,
  identifiers, options), \<open>Init\<close> and \<open>InitProofs\<close> (\<open>init.cpp\<close>, \<open>clean.cpp\<close>, \<open>path_checker.cpp\<close>: statements as syntax
  trees, run on any server that obeys \<open>ddl_laws\<close>; the schema is well formed and can be created again over what an earlier run left).

  \<^bold>\<open>Transactions.\<close> \<open>Session\<close> (\<open>db/session.cpp\<close>) has a server that may fail any statement before or after it took effect, and a
  predicate transformer \<open>wp\<close> for programs over it. \<open>Transactions\<close> translates the \<open>transaction_*.cpp\<close> and
  \<open>common_queries.cpp\<close>; \<open>TxContract\<close>, \<open>CustomerLookup\<close>, \<open>NewOrderTx\<close>, \<open>PaymentTx\<close> and \<open>DeliveryTx\<close> show that each is all or nothing,
  whatever fails, and does what its specification says. \<open>Consistency\<close> states the conditions of clause 3.3.2 as an invariant
  that all transactions keep. \<open>Check\<close>, \<open>CheckProofs\<close> and \<open>Checker\<close> (\<open>check.cpp\<close>): the checker accepts every consistent database, and its money checks compare exactly the totals of warehouses and districts that have rows to add up.
  \<open>Terminal\<close> (\<open>terminal.cpp\<close>): the loop with its retries and its statistics; it returns after a stop request unless an iteration hangs.

  \<^bold>\<open>Client layer.\<close> What lies between the transactions and the MySQL client library, whose functions are parameters. \<open>Statement\<close> (\<open>db/params.h\<close>,
  \<open>query_result.h\<close>, \<open>prepared_statement.cpp\<close>): parameter slots, one-shot and cached statements, materialised results; \<open>StatementProofs\<close>: the server reads
  the parameters given, the caller reads the rows sent, one-shot statements close their handle on every path. \<open>MysqlConnection\<close> (\<open>db/connection.cpp\<close>): a connection
  gives back every handle it took. \<open>ClientSession\<close> (\<open>db/session.cpp\<close>): the commands a session sends form transactions, whatever fails, but after a failed \<open>COMMIT\<close> it no longer knows whether one is open. The model
  \<open>Session\<close> describes the same operations by their effect on the database, this one by the commands sent.

  \<open>Dictionary\<close> (\<open>path_checker.cpp\<close>, \<open>schema_info.cpp\<close>, parts of \<open>import.cpp\<close>): the queries about the schema and the checks made of their answers, which are
  those of \<open>Init\<close>; the session that analyses the tables is closed on every path.

  \<^bold>\<open>Import.\<close> \<open>Import\<close> and \<open>BulkLoad\<close> (\<open>import.cpp\<close>, \<open>ExecuteBulk\<close>), \<open>ImportProofs\<close>, \<open>Imported\<close>, \<open>ImportRun\<close>: generators, loaders, and
  the loader threads as a step relation; the import reports success only for the complete database, which passes all
  checks. \<open>RowTypes\<close>: the rows fit the columns that \<open>Init\<close> creates.

  \<^bold>\<open>The run.\<close> \<open>TaskQueue\<close> (\<open>task_queue.cpp\<close>) translates every operation of the scheduler; \<open>tq_step\<close> interleaves its threads, the
  coroutines and the completion of futures. \<open>TaskQueueProofs\<close> has the invariant, \<open>TaskQueueRun\<close> what it gives: no overflow, at most as
  many in flight as allowed, each coroutine in one place and destroyed once. \<open>ConnectionPool\<close> (\<open>db/connection_pool.cpp\<close>)
  adds sessions to it through the contract \<open>bounded_pool\<close>; \<open>Runner\<close> (\<open>runner.cpp\<close>) computes the sizes, with which no terminal ever waits for a connection, and
  measures the configured time, and its loops end on any clock that runs. \<open>Results\<close> (\<open>runner.cpp\<close>, \<open>runner_display_data.h\<close>) merges the statistics, \<open>CommandLine\<close> (\<open>main.cpp\<close>)
  rewrites the arguments, chooses the calls and returns the exit code, which is zero only if all the work of the command was done. \<open>Awaiters\<close> (\<open>task_queue.h\<close>, \<open>coro_traits.h\<close>) has what \<open>co_await\<close> and the end of a coroutine do: no
  wake-up is lost. The theorem below joins import, run and checks.

  \<^bold>\<open>Display and log.\<close> \<open>Display\<close> (\<open>runner.cpp\<close>, \<open>import.cpp\<close>, \<open>task_queue.cpp\<close>, \<open>util.cpp\<close>) has the figures the UI shows. \<open>LogCapture\<close> (the ring of \<open>log_backend.cpp\<close>) and
  \<open>Tui\<close> (\<open>log_backend.cpp\<close>, \<open>tui_base.cpp\<close>, \<open>scroller.cpp\<close>): where log lines go, and what a UI leaves behind in the process.

  \<^bold>\<open>The experiment.\<close> \<open>CoroVsThreads\<close> and \<open>CoroSweep\<close> (\<open>coroutines_vs_threads\<close>), a program of its own on the same task queue: the worker loop action by action, runs of threads and of
  coroutines as a step relation, what they report, and the sweep with its output.

  \<^bold>\<open>Bounds.\<close> Loops are structural recursion or carry a termination proof. Where fuel is used it is the size of the container: \<open>pop_all\<close> gets the
  capacity plus one and \<open>pop_sleeping\<close> the number of sleeping items, and the lemmas show that this empties them. The loop of a
  terminal, the main loop of a run and the rejection loop of the generator are partial functions with a theorem on when they return; the answers they get from the
  stop token and the clock are infinite streams. Queue capacities
  are assumed below \<open>2\<^sup>6\<^sup>3\<close>, from where \<open>std::bit_ceil\<close> is undefined.

  \<^bold>\<open>Parameters.\<close> The standard library's \<open>std::hash\<close>, \<open>std::sort\<close>, \<open>std::shuffle\<close> and \<open>uniform_int_distribution\<close>; the server that executes
  DDL; the functions of the MySQL client library (\<open>client\<close>, \<open>mysql\<close>); \<open>Connect\<close> of the pool; the parser of gflags; what moving a value out of a future leaves behind; the level test of spdlog; the answers of the clock, the stop token and the random device. Each enters with its
  documented behaviour only.

  \<^bold>\<open>Not modelled.\<close> In the model of the transactions a session runs alone: its statements are not interleaved with other sessions', as if
  the database serialised the transactions, and a suspended coroutine is not visible in them. The layout of the UI's screens and of the printed reports
  (third-party drawing and formatting), installing the signal handlers, which request the modelled stop, \<open>std::stod\<close> of \<open>GetDouble\<close>, and the unit tests.
\<close>

section \<open>From the import to the checks after a run\<close>

text \<open>
  (C6) The three commands fit together for 1 to 21474 warehouses: the database an import completes passes
  every check made after an import, and after a terminal has worked on it, with whatever failures of the
  server, the check of a used database accepts it too. For more warehouses the checker multiplies the
  number of items by the number of warehouses in 32 bits and refuses a complete import
  (\<open>Checker.stock_check_overflows\<close>). The number of lines of an order is what the generator of the library
  makes of the hash, of which only its documented range is used.
\<close>

theorem import_run_check:
  assumes "0 < n" "n \<le> 21474" "\<forall>s. 5 \<le> unif s \<and> unif s \<le> 15" "imported n (GetRandomCount hash unif) db"
    and "valid_ctx (Context t)" "idle F {db} (twld t)"
  shows "CheckSync (int n) True db = Inr () \<and> consistent db \<and> populated (int n) db
    \<and> (case Run t of Some (Inr t') \<Rightarrow> CheckSync (int n) False (committed (twld t')) = Inr () | _ \<Rightarrow> True)"
proof -
  have c: "1 \<le> GetRandomCount hash unif w k d" for w k d
    using assms(3) by (simp add: GetRandomCount_def order_trans [of 1 5])
  note acc = imported_accepted [OF assms(4,1,2) c] and con = imported_consistent [OF assms(4) c]
  have "CheckSync (int n) False (committed (twld t')) = Inr ()" if "Run t = Some (Inr t')" for t'
    using Run_keeps_verdict [OF that assms(5) con assms(6)] acc(2) by simp
  then show ?thesis
    using acc(1) con imported_populated [OF assms(4)] by (simp split: option.splits sum.splits)
qed

theorem import_run_check_witness:
  "CheckSync 1 True (sample_imported 1 (GetRandomCount (\<lambda>i. of_int i) (\<lambda>_. 5))) = Inr ()
    \<and> consistent (sample_imported 1 (GetRandomCount (\<lambda>i. of_int i) (\<lambda>_. 5)))
    \<and> (\<exists>t'. Run (shutdown_terminal (sample_world (sample_imported 1 (GetRandomCount (\<lambda>i. of_int i) (\<lambda>_. 5))) [])) = Some (Inr t')
        \<and> CheckSync 1 False (committed (twld t')) = Inr ())"
  using import_run_check [of 1 "\<lambda>_. 5" "\<lambda>i. of_int i" "sample_imported 1 (GetRandomCount (\<lambda>i. of_int i) (\<lambda>_. 5))"
      "shutdown_terminal (sample_world (sample_imported 1 (GetRandomCount (\<lambda>i. of_int i) (\<lambda>_. 5))) [])" True]
    shutdown_terminal_run [of "sample_world (sample_imported 1 (GetRandomCount (\<lambda>i. of_int i) (\<lambda>_. 5))) []"]
    sample_imported_ok [of 1] by (simp add: shutdown_terminal_def sample_world_idle)

end
